(* ===== verification/Legion_Prelude.thy ===== *)
theory Legion_Prelude
  imports Main "HOL-Library.Word" "HOL-Library.Sublist"
begin

text \<open>
  Shared vocabulary of the Legion development: the collections of simplification rules the
  component proofs use, the fragment of Rust's standard library on strings that the sources
  call (ASCII case folding, trimming, substring search, splitting and joining, decimal
  printing), paths, the result type of fallible code, and JSON values.

  Strings are lists of 8-bit characters, the bytes of their UTF-8 encoding. Where the code classifies characters (white space,
  alphanumerics, case), the definitions below are Rust's on the ASCII range and leave every
  other byte alone.
\<close>

named_theorems legion_str \<open>facts on the string operations\<close>
named_theorems legion_inv \<open>preservation of component invariants\<close>
named_theorems legion_defs \<open>unfolding of small wrappers\<close>

subsection \<open>Fallible code\<close>

text \<open>A Rust \<open>Result<T, E>\<close> is a sum: \<open>Inl\<close> the error, \<open>Inr\<close> the value. The
  \<open>?\<close> operator is the following bind.\<close>

type_synonym ('e, 'a) result = "'e + 'a"

fun bind_result :: "('e, 'a) result \<Rightarrow> ('a \<Rightarrow> ('e, 'b) result) \<Rightarrow> ('e, 'b) result" where
  "bind_result (Inl e) f = Inl e"
| "bind_result (Inr a) f = f a"

lemma bind_result_Inr [simp]:
  "bind_result r f = Inr b \<longleftrightarrow> (\<exists>a. r = Inr a \<and> f a = Inr b)"
  by (cases r) auto

lemma bind_result_Inl:
  "bind_result r f = Inl e \<longleftrightarrow> r = Inl e \<or> (\<exists>a. r = Inr a \<and> f a = Inl e)"
  by (cases r) auto

text \<open>\<open>Option::or_else\<close> / \<open>Option::or\<close> and \<open>Option::unwrap_or\<close>.\<close>

fun or_opt :: "'a option \<Rightarrow> 'a option \<Rightarrow> 'a option" where
  "or_opt (Some a) b = Some a"
| "or_opt None b = b"

fun unwrap_or :: "'a option \<Rightarrow> 'a \<Rightarrow> 'a" where
  "unwrap_or (Some a) d = a"
| "unwrap_or None d = d"

lemma or_opt_None [simp]: "or_opt a None = a"
  by (cases a) auto

subsection \<open>Characters of a string\<close>

type_synonym byte = "8 word"

text \<open>Strings are UTF-8: a character is a byte and the continuation bytes that follow it.\<close>

definition is_continuation :: "char \<Rightarrow> bool" where
  "is_continuation c \<longleftrightarrow> 128 \<le> (of_char c :: nat) \<and> (of_char c :: nat) < 192"

definition char_count :: "string \<Rightarrow> nat" where
  "char_count s = length (filter (\<lambda>c. \<not> is_continuation c) s)"

fun take_chars :: "nat \<Rightarrow> string \<Rightarrow> string" where
  "take_chars n [] = []"
| "take_chars n (c # s) =
     (if is_continuation c then c # take_chars n s else case n of 0 \<Rightarrow> [] | Suc m \<Rightarrow> c # take_chars m s)"

lemma length_char_count: "char_count s \<le> length s"
  by (simp add: char_count_def)

lemma take_chars_count: "char_count (take_chars n s) \<le> n"
proof (induction s arbitrary: n)
  case (Cons c s)
  then show ?case by (cases n) (auto simp: char_count_def)
qed (simp add: char_count_def)

subsection \<open>Characters\<close>

definition is_ascii_upper :: "char \<Rightarrow> bool" where
  "is_ascii_upper c \<longleftrightarrow> 65 \<le> (of_char c :: nat) \<and> (of_char c :: nat) \<le> 90"

definition is_ascii_lower :: "char \<Rightarrow> bool" where
  "is_ascii_lower c \<longleftrightarrow> 97 \<le> (of_char c :: nat) \<and> (of_char c :: nat) \<le> 122"

definition is_ascii_digit :: "char \<Rightarrow> bool" where
  "is_ascii_digit c \<longleftrightarrow> 48 \<le> (of_char c :: nat) \<and> (of_char c :: nat) \<le> 57"

definition is_alphanumeric :: "char \<Rightarrow> bool" where
  "is_alphanumeric c \<longleftrightarrow> is_ascii_upper c \<or> is_ascii_lower c \<or> is_ascii_digit c"

text \<open>The ASCII part of \<open>char::is_whitespace\<close>: tab, line feed, vertical tab, form feed,
  carriage return and space.\<close>

definition is_whitespace :: "char \<Rightarrow> bool" where
  "is_whitespace c \<longleftrightarrow> c = CHR '' '' \<or> (9 \<le> (of_char c :: nat) \<and> (of_char c :: nat) \<le> 13)"

definition to_lower_char :: "char \<Rightarrow> char" where
  "to_lower_char c = (if is_ascii_upper c then char_of ((of_char c :: nat) + 32) else c)"

lemma to_lower_char_idem [simp]: "to_lower_char (to_lower_char c) = to_lower_char c"
proof (cases "is_ascii_upper c")
  case True
  then have "(of_char c :: nat) + 32 < 256" by (simp add: is_ascii_upper_def)
  then have "(of_char (to_lower_char c) :: nat) = of_char c + 32"
    using True by (simp add: to_lower_char_def)
  then have "\<not> is_ascii_upper (to_lower_char c)"
    using True by (simp add: is_ascii_upper_def)
  then show ?thesis by (simp add: to_lower_char_def)
next
  case False
  then show ?thesis by (simp add: to_lower_char_def)
qed

definition to_lowercase :: "string \<Rightarrow> string" where
  "to_lowercase s = map to_lower_char s"

lemma to_lowercase_idem [simp]: "to_lowercase (to_lowercase s) = to_lowercase s"
  by (simp add: to_lowercase_def)

lemma to_lowercase_append [simp]: "to_lowercase (s @ t) = to_lowercase s @ to_lowercase t"
  by (simp add: to_lowercase_def)

lemma length_to_lowercase [simp]: "length (to_lowercase s) = length s"
  by (simp add: to_lowercase_def)

definition eq_ignore_ascii_case :: "string \<Rightarrow> string \<Rightarrow> bool" where
  "eq_ignore_ascii_case s t \<longleftrightarrow> to_lowercase s = to_lowercase t"

subsection \<open>Trimming\<close>

definition trim_start :: "string \<Rightarrow> string" where
  "trim_start s = dropWhile is_whitespace s"

definition trim_end :: "string \<Rightarrow> string" where
  "trim_end s = rev (dropWhile is_whitespace (rev s))"

definition trim_str :: "string \<Rightarrow> string" where
  "trim_str s = trim_end (trim_start s)"

lemma trim_start_idem [simp]: "trim_start (trim_start s) = trim_start s"
  by (induction s) (auto simp: trim_start_def)

lemma trim_str_Nil [simp]: "trim_str [] = []"
  by (simp add: trim_str_def trim_end_def trim_start_def)

lemma trim_end_Nil_iff: "trim_end s = [] \<longleftrightarrow> (\<forall>c\<in>set s. is_whitespace c)"
  by (simp add: trim_end_def)

lemma trim_start_Nil_iff: "trim_start s = [] \<longleftrightarrow> (\<forall>c\<in>set s. is_whitespace c)"
  by (simp add: trim_start_def)

lemma trim_str_Nil_iff: "trim_str s = [] \<longleftrightarrow> (\<forall>c\<in>set s. is_whitespace c)"
proof -
  have "(\<forall>c\<in>set (dropWhile is_whitespace s). is_whitespace c) \<longleftrightarrow> (\<forall>c\<in>set s. is_whitespace c)"
    by (induction s) auto
  then show ?thesis by (simp add: trim_str_def trim_end_Nil_iff trim_start_def)
qed

lemma trim_str_id:
  assumes "\<forall>c\<in>set s. \<not> is_whitespace c"
  shows "trim_str s = s"
proof -
  have "dropWhile is_whitespace xs = xs" if "set xs = set s" for xs
    using assms that by (cases xs) auto
  from this [of s] this [of "rev s"] show ?thesis by (simp add: trim_str_def trim_start_def trim_end_def)
qed

lemma trim_start_hd: "trim_start s \<noteq> [] \<Longrightarrow> \<not> is_whitespace (hd (trim_start s))"
  unfolding trim_start_def by (rule hd_dropWhile)

lemma trim_end_last: "trim_end s \<noteq> [] \<Longrightarrow> \<not> is_whitespace (last (trim_end s))"
  using hd_dropWhile [of is_whitespace "rev s"] by (simp add: trim_end_def last_rev)

lemma trim_end_prefix: "\<exists>w. s = trim_end s @ w \<and> (\<forall>c\<in>set w. is_whitespace c)"
proof
  have "rev s = takeWhile is_whitespace (rev s) @ dropWhile is_whitespace (rev s)" by simp
  then have "s = rev (dropWhile is_whitespace (rev s)) @ rev (takeWhile is_whitespace (rev s))"
    by (metis rev_append rev_rev_ident)
  then show "s = trim_end s @ rev (takeWhile is_whitespace (rev s)) \<and>
      (\<forall>c\<in>set (rev (takeWhile is_whitespace (rev s))). is_whitespace c)"
    by (auto simp: trim_end_def dest: set_takeWhileD)
qed

lemma trim_str_idem: "trim_str (trim_str s) = trim_str s"
proof (cases "trim_str s")
  case (Cons c t)
  let ?u = "trim_start s"
  have u: "trim_end ?u = c # t" using Cons by (simp add: trim_str_def)
  obtain w where "?u = trim_end ?u @ w" using trim_end_prefix by blast
  then have "hd ?u = c" "?u \<noteq> []" using u by auto
  then have "\<not> is_whitespace c" using trim_start_hd [of s] by simp
  then have "trim_start (c # t) = c # t" by (simp add: trim_start_def)
  then have "trim_start (trim_end ?u) = trim_end ?u" by (simp only: u)
  then show ?thesis by (simp add: trim_str_def) (simp add: trim_end_def)
qed simp

subsection \<open>Substring search\<close>

text \<open>\<open>str::find\<close> for a string pattern: the offset of the first occurrence.\<close>

fun find_str :: "string \<Rightarrow> string \<Rightarrow> nat option" where
  "find_str p [] = (if p = [] then Some 0 else None)"
| "find_str p (c # s) = (if prefix p (c # s) then Some 0 else map_option Suc (find_str p s))"

definition contains_str :: "string \<Rightarrow> string \<Rightarrow> bool" where
  "contains_str s p \<longleftrightarrow> find_str p s \<noteq> None"

lemma find_str_Some:
  "find_str p s = Some i \<Longrightarrow> prefix p (drop i s) \<and> i + length p \<le> length s"
proof (induction p s arbitrary: i rule: find_str.induct)
  case (2 p c s)
  then show ?case
    by (auto split: if_splits dest: prefix_length_le)
qed (auto split: if_splits)

lemma find_str_None_iff: "find_str p s = None \<longleftrightarrow> \<not> sublist p s"
  by (induction p s rule: find_str.induct) (auto simp: sublist_Cons_right split: if_splits)

lemma contains_str_iff [legion_str]: "contains_str s p \<longleftrightarrow> sublist p s"
  by (simp add: contains_str_def find_str_None_iff)

lemma find_str_first:
  assumes "p \<noteq> []" and "\<not> sublist p (s @ butlast p)"
  shows "find_str p (s @ p @ t) = Some (length s)"
  using assms(2)
proof (induction s)
  case Nil
  then show ?case using assms(1) by (cases p) auto
next
  case (Cons c s)
  have "prefix (c # s @ butlast p) (c # s @ p @ t)"
    by (metis append_Cons append_assoc append_butlast_last_id assms(1) prefixI same_append_eq)
  then have "prefix p (c # s @ butlast p)" if "prefix p (c # s @ p @ t)"
    using that prefix_length_prefix [of p "c # s @ p @ t" "c # s @ butlast p"] by simp
  then have "\<not> prefix p (c # s @ p @ t)" using Cons.prems by (auto simp: sublist_Cons_right)
  moreover have "\<not> sublist p (s @ butlast p)" using Cons.prems by (auto simp: sublist_Cons_right)
  ultimately show ?case using Cons.IH by simp
qed

subsection \<open>Splitting and joining\<close>

text \<open>\<open>str::split(c)\<close> always yields at least one piece; \<open>[String]::join\<close>.\<close>

fun split_on :: "char \<Rightarrow> string \<Rightarrow> string list" where
  "split_on d [] = [[]]"
| "split_on d (c # s) =
     (if c = d then [] # split_on d s
      else (case split_on d s of [] \<Rightarrow> [[c]] | p # ps \<Rightarrow> (c # p) # ps))"

fun join_with :: "string \<Rightarrow> string list \<Rightarrow> string" where
  "join_with sep [] = []"
| "join_with sep [p] = p"
| "join_with sep (p # q # ps) = p @ sep @ join_with sep (q # ps)"

lemma split_on_not_Nil [simp]: "split_on d s \<noteq> []"
  by (induction d s rule: split_on.induct) (auto split: list.splits)

lemma split_on_free: "d \<notin> set p \<Longrightarrow> split_on d p = [p]"
  by (induction p) auto

lemma split_on_append:
  "d \<notin> set p \<Longrightarrow> split_on d (p @ d # s) = p # split_on d s"
  by (induction p) auto

lemma join_split_on [legion_str]: "join_with [d] (split_on d s) = s"
proof (induction d s rule: split_on.induct)
  case (2 d c s)
  then show ?case by (cases "split_on d s"; cases "tl (split_on d s)") auto
qed simp

lemma split_on_pieces: "p \<in> set (split_on d s) \<Longrightarrow> d \<notin> set p"
proof (induction d s arbitrary: p rule: split_on.induct)
  case (2 d c s)
  then show ?case
    by (cases "split_on d s") (auto split: if_splits)
qed simp

lemma split_on_join [legion_str]:
  assumes "ps \<noteq> []" and "\<forall>p\<in>set ps. d \<notin> set p"
  shows "split_on d (join_with [d] ps) = ps"
  using assms
proof (induction "[d]" ps rule: join_with.induct)
  case (3 p q ps)
  then show ?case by (simp add: split_on_append)
qed (auto simp: split_on_free)

text \<open>\<open>str::split\<close> by a class of characters, and \<open>str::split_whitespace\<close>.\<close>

fun split_by :: "(char \<Rightarrow> bool) \<Rightarrow> string \<Rightarrow> string list" where
  "split_by P [] = [[]]"
| "split_by P (c # s) =
     (if P c then [] # split_by P s
      else (case split_by P s of [] \<Rightarrow> [[c]] | p # ps \<Rightarrow> (c # p) # ps))"

definition split_whitespace :: "string \<Rightarrow> string list" where
  "split_whitespace s = filter (\<lambda>w. w \<noteq> []) (split_by is_whitespace s)"

text \<open>\<open>str::lines\<close>: a line ends with a line feed, with a carriage return before it removed; an
  empty last piece is no line, an unterminated one keeps its carriage return.\<close>

definition LF :: char where
  "LF = CHR 0x0A"

definition CR :: char where
  "CR = CHR 0x0D"

definition strip_cr :: "string \<Rightarrow> string" where
  "strip_cr l = (if l \<noteq> [] \<and> last l = CR then butlast l else l)"

definition str_lines :: "string \<Rightarrow> string list" where
  "str_lines s =
     (let ps = split_on LF s
      in map strip_cr (butlast ps) @ (if last ps = [] then [] else [last ps]))"

definition plain_line :: "string \<Rightarrow> bool" where
  "plain_line l \<longleftrightarrow> LF \<notin> set l \<and> CR \<notin> set l"

lemma strip_cr_plain: "plain_line l \<Longrightarrow> strip_cr l = l"
  by (auto simp: plain_line_def strip_cr_def dest: last_in_set)

lemma str_lines_Cons: "plain_line l \<Longrightarrow> str_lines (l @ LF # s) = l # str_lines s"
  by (auto simp: str_lines_def plain_line_def strip_cr_plain [unfolded plain_line_def] split_on_append Let_def)

text \<open>The text of a list of lines, each ended by a line feed.\<close>

definition text_of :: "string list \<Rightarrow> string" where
  "text_of ls = concat (map (\<lambda>l. l @ [LF]) ls)"

lemma str_lines_text_of: "\<forall>l\<in>set ls. plain_line l \<Longrightarrow> str_lines (text_of ls) = ls"
proof (induction ls)
  case Nil
  show ?case by (simp add: text_of_def str_lines_def)
next
  case (Cons l ls)
  then show ?case using str_lines_Cons [of l "text_of ls"] by (simp add: text_of_def)
qed

text \<open>A name between single quotes, as the error messages print it.\<close>

definition quoted :: "string \<Rightarrow> string" where
  "quoted s = CHR 0x27 # s @ [CHR 0x27]"

subsection \<open>Paths\<close>

text \<open>\<open>std::path\<close> on Unix. A path is its text; \<open>components\<close> drops empty pieces and every
  \<open>.\<close> but a leading one; \<open>join\<close> replaces the base by an absolute argument; two paths are equal
  when their components are.\<close>

datatype path_component = RootDir | CurDir | ParentDir | Normal string

definition is_absolute :: "string \<Rightarrow> bool" where
  "is_absolute p \<longleftrightarrow> (case p of [] \<Rightarrow> False | c # _ \<Rightarrow> c = CHR ''/'')"

fun piece_components :: "string list \<Rightarrow> path_component list" where
  "piece_components [] = []"
| "piece_components (p # ps) =
     (if p = [] \<or> p = ''.'' then piece_components ps
      else (if p = ''..'' then ParentDir else Normal p) # piece_components ps)"

definition path_components :: "string \<Rightarrow> path_component list" where
  "path_components p =
     (let pieces = split_on (CHR ''/'') p
      in (if is_absolute p then [RootDir] else if hd pieces = ''.'' then [CurDir] else []) @
         piece_components pieces)"

definition path_join :: "string \<Rightarrow> string \<Rightarrow> string" where
  "path_join base p =
     (if is_absolute p then p
      else if base = [] \<or> last base = CHR ''/'' then base @ p
      else base @ CHR ''/'' # p)"

lemma piece_components_append: "piece_components (ps @ qs) = piece_components ps @ piece_components qs"
  by (induction ps) auto

lemma split_on_append_gen:
  "split_on d (s @ d # t) = split_on d s @ split_on d t"
proof (induction s)
  case (Cons c s)
  then show ?case by (cases "split_on d s") auto
qed simp

lemma hd_split_on: "hd (split_on d s) = takeWhile (\<lambda>c. c \<noteq> d) s"
proof (induction s)
  case (Cons c s)
  then show ?case by (cases "split_on d s") auto
qed simp

text \<open>A plain file name joined to a directory is the directory's components and that name.\<close>

lemma path_components_join:
  assumes "base \<noteq> []" and "CHR ''/'' \<notin> set p" and "p \<notin> {[], ''.'', ''..''}"
  shows "path_components (path_join base p) = path_components base @ [Normal p]"
proof -
  have abs: "\<not> is_absolute p" using assms(2) by (cases p) (auto simp: is_absolute_def)
  show ?thesis
  proof (cases "last base = CHR ''/''")
    case True
    then obtain b where b: "base = b @ [CHR ''/'']"
      using assms(1) by (metis append_butlast_last_id)
    have "split_on (CHR ''/'') base = split_on (CHR ''/'') b @ [[]]"
      using split_on_append_gen [of "CHR ''/''" b "[]"] b by simp
    moreover have "split_on (CHR ''/'') (base @ p) = split_on (CHR ''/'') b @ [p]"
      using split_on_append_gen [of "CHR ''/''" b p] b assms(2) by (simp add: split_on_free)
    moreover have "is_absolute (base @ p) = is_absolute base"
      using assms(1) by (cases base) (auto simp: is_absolute_def)
    ultimately show ?thesis
      using True abs assms(3) by (simp add: path_components_def path_join_def Let_def piece_components_append)
  next
    case False
    have "split_on (CHR ''/'') (base @ CHR ''/'' # p) = split_on (CHR ''/'') base @ [p]"
      using assms(2) by (simp add: split_on_append_gen split_on_free)
    moreover have "is_absolute (base @ CHR ''/'' # p) = is_absolute base"
      using assms(1) by (cases base) (auto simp: is_absolute_def)
    ultimately show ?thesis
      using False abs assms(1,3)
      by (simp add: path_components_def path_join_def Let_def piece_components_append)
  qed
qed

subsection \<open>Decimal printing\<close>

text \<open>\<open>Display\<close> of an unsigned integer.\<close>

definition digit_char :: "nat \<Rightarrow> char" where
  "digit_char d = char_of (48 + d)"

fun show_nat :: "nat \<Rightarrow> string" where
  "show_nat n = (if n < 10 then [digit_char n] else show_nat (n div 10) @ [digit_char (n mod 10)])"

declare show_nat.simps [simp del]

definition show_int :: "int \<Rightarrow> string" where
  "show_int k = (if k < 0 then CHR ''-'' # show_nat (nat (- k)) else show_nat (nat k))"

definition digit_val :: "char \<Rightarrow> nat" where
  "digit_val c = of_char c - 48"

definition read_dec :: "string \<Rightarrow> nat" where
  "read_dec s = foldl (\<lambda>n c. 10 * n + digit_val c) 0 s"

lemma digit_val_char [simp]: "d < 10 \<Longrightarrow> digit_val (digit_char d) = d"
  by (simp add: digit_val_def digit_char_def)

lemma read_show_nat [simp]: "read_dec (show_nat n) = n"
proof (induction n rule: show_nat.induct)
  case (1 n)
  show ?case
  proof (cases "n < 10")
    case True
    then show ?thesis by (subst show_nat.simps) (simp add: read_dec_def)
  next
    case False
    with 1 have "read_dec (show_nat (n div 10)) = n div 10" by simp
    with False show ?thesis by (subst show_nat.simps) (simp add: read_dec_def)
  qed
qed

lemma show_nat_inj [simp]: "show_nat m = show_nat n \<longleftrightarrow> m = n"
  by (metis read_show_nat)

lemma digit_char_not_special: "d < 10 \<Longrightarrow> is_ascii_digit (digit_char d)"
  by (simp add: digit_char_def is_ascii_digit_def)

lemma show_nat_digits: "c \<in> set (show_nat n) \<Longrightarrow> is_ascii_digit c"
proof (induction n rule: show_nat.induct)
  case (1 n)
  then show ?case
    using show_nat.simps [of n] by (auto simp: digit_char_not_special split: if_splits)
qed

lemma digit_not_whitespace: "is_ascii_digit c \<Longrightarrow> \<not> is_whitespace c"
  by (auto simp: is_ascii_digit_def is_whitespace_def)

lemma show_nat_not_Nil [simp]: "show_nat n \<noteq> []"
  by (subst show_nat.simps) simp

text \<open>\<open>str::parse::<usize>\<close>, 64 bits wide: an optional plus sign and digits.\<close>

definition parse_usize :: "string \<Rightarrow> nat option" where
  "parse_usize s =
     (let d = (case s of c # r \<Rightarrow> if c = CHR ''+'' then r else s | [] \<Rightarrow> [])
      in if d \<noteq> [] \<and> list_all is_ascii_digit d \<and> read_dec d < 2 ^ 64 then Some (read_dec d) else None)"

lemma parse_show_nat: "n < 2 ^ 64 \<Longrightarrow> parse_usize (show_nat n) = Some n"
proof -
  assume n: "n < 2 ^ 64"
  obtain c r where s: "show_nat n = c # r" by (cases "show_nat n") auto
  then have "is_ascii_digit c" using show_nat_digits [of c n] by simp
  then have "c \<noteq> CHR ''+''" by (auto simp: is_ascii_digit_def)
  with s have "parse_usize (show_nat n) = (if list_all is_ascii_digit (show_nat n) then Some (read_dec (show_nat n)) else None)"
    using n read_show_nat [of n] by (simp add: parse_usize_def)
  then show ?thesis by (simp add: list_all_iff show_nat_digits)
qed

subsection \<open>JSON values\<close>

text \<open>\<open>serde_json::Value\<close>. Numbers are kept by their text; objects are association lists in
  the order of their keys. \<open>Value::default\<close> is \<open>Null\<close>.\<close>

datatype json =
    JNull
  | JBool bool
  | JNum string
  | JString string
  | JArray "json list"
  | JObject "(string \<times> json) list"

fun json_get :: "json \<Rightarrow> string \<Rightarrow> json option" where
  "json_get (JObject kvs) k = map_of kvs k"
| "json_get _ k = None"

fun json_as_str :: "json \<Rightarrow> string option" where
  "json_as_str (JString s) = Some s"
| "json_as_str _ = None"

fun json_as_bool :: "json \<Rightarrow> bool option" where
  "json_as_bool (JBool b) = Some b"
| "json_as_bool _ = None"

fun json_as_u64 :: "json \<Rightarrow> nat option" where
  "json_as_u64 (JNum s) =
     (if s \<noteq> [] \<and> list_all is_ascii_digit s \<and> read_dec s < 2 ^ 64 then Some (read_dec s) else None)"
| "json_as_u64 _ = None"

fun json_as_array :: "json \<Rightarrow> json list option" where
  "json_as_array (JArray vs) = Some vs"
| "json_as_array _ = None"

text \<open>\<open>v[k]\<close>: a missing member reads as null.\<close>

definition json_index :: "json \<Rightarrow> string \<Rightarrow> json" where
  "json_index v k = unwrap_or (json_get v k) JNull"

end
