(* ===== verification/Gateway_Auth.thy ===== *)
theory Gateway_Auth
  imports Legion_Prelude
begin

text \<open>
  The gateway's front door: the device pairing store of \<^verbatim>\<open>legion-gateway/src/pairing.rs\<close>
  and the connection handshake of \<^verbatim>\<open>legion-gateway/src/websocket.rs\<close> (credentials are
  checked, and a connection that passes registers its device). The token counter is a 64-bit
  word and wraps as the release build does.
\<close>

subsection \<open>The pairing store\<close>

record Device =
  dv_device_id :: string
  dv_platform :: string
  dv_device_family :: string
  dv_role :: string
  dv_approved :: bool
  dv_token :: string
  dv_approved_at :: "string option"

record PairingState =
  ps_devices :: "string \<rightharpoonup> Device"
  ps_pending :: "string list"
  ps_token_counter :: "64 word"

definition PairingStore_new :: PairingState where
  "PairingStore_new = \<lparr>ps_devices = Map.empty, ps_pending = [], ps_token_counter = 0\<rparr>"

definition is_approved :: "PairingState \<Rightarrow> string \<Rightarrow> bool" where
  "is_approved s device_id = unwrap_or (map_option dv_approved (ps_devices s device_id)) False"

definition get_device :: "PairingState \<Rightarrow> string \<Rightarrow> Device option" where
  "get_device s device_id = ps_devices s device_id"

definition verify_token :: "PairingState \<Rightarrow> string \<Rightarrow> string \<Rightarrow> bool" where
  "verify_token s device_id token =
     unwrap_or (map_option (\<lambda>d. dv_approved d \<and> dv_token d = token) (ps_devices s device_id)) False"

definition device_token :: "64 word \<Rightarrow> string" where
  "device_token n = ''dev-token-'' @ show_nat (unat n)"

definition approve :: "PairingState \<Rightarrow> string \<Rightarrow> string \<times> PairingState" where
  "approve s device_id =
     (let n = ps_token_counter s + 1; token = device_token n
      in (token,
          s\<lparr>ps_token_counter := n,
            ps_pending := filter (\<lambda>i. i \<noteq> device_id) (ps_pending s),
            ps_devices := (ps_devices s)(device_id \<mapsto>
              \<lparr>dv_device_id = device_id, dv_platform = [], dv_device_family = [], dv_role = [],
               dv_approved = True, dv_token = token, dv_approved_at = None\<rparr>)\<rparr>))"

definition request_approval :: "PairingState \<Rightarrow> Device \<Rightarrow> PairingState" where
  "request_approval s device =
     (let i = dv_device_id device;
          pend = (if ps_devices s i = None \<and> i \<notin> set (ps_pending s)
                  then ps_pending s @ [i] else ps_pending s)
      in s\<lparr>ps_pending := pend,
           ps_devices := (case ps_devices s i of
               None \<Rightarrow> (ps_devices s)(i \<mapsto> device) | Some _ \<Rightarrow> ps_devices s)\<rparr>)"

definition auto_approve_loopback :: "PairingState \<Rightarrow> Device \<Rightarrow> string \<times> PairingState" where
  "auto_approve_loopback s device = approve s (dv_device_id device)"

definition pending_approvals :: "PairingState \<Rightarrow> string list" where
  "pending_approvals s = ps_pending s"

subsection \<open>Authentication and the handshake\<close>

record AuthConfig =
  ac_mode :: string
  ac_token :: "string option"
  ac_password :: "string option"
  ac_allow_tailscale :: bool

record AuthCreds =
  cr_token :: "string option"
  cr_password :: "string option"

datatype AuthResult = Approved | Rejected string

definition is_loopback_bind :: "string \<Rightarrow> bool" where
  "is_loopback_bind bind_host \<longleftrightarrow>
     bind_host = ''127.0.0.1'' \<or> bind_host = ''localhost'' \<or> bind_host = ''::1''"

definition authenticate ::
  "AuthConfig \<Rightarrow> PairingState \<Rightarrow> string \<Rightarrow> AuthCreds \<Rightarrow> string \<Rightarrow> AuthResult" where
  "authenticate auth pairing device_id creds bind_host =
     (if (case cr_token creds of None \<Rightarrow> False | Some t \<Rightarrow> verify_token pairing device_id t)
      then Approved
      else
        let is_loopback = is_loopback_bind bind_host; mode = ac_mode auth in
        if mode = ''token'' then
          (let expected = unwrap_or (ac_token auth) [] in
           if expected = [] then
             (if is_loopback then Approved else Rejected ''no token configured'')
           else if cr_token creds = Some expected then Approved
           else Rejected ''invalid token'')
        else if mode = ''password'' then
          (let expected = unwrap_or (ac_password auth) [] in
           if cr_password creds = Some expected \<and> expected \<noteq> [] then Approved
           else Rejected ''invalid password'')
        else if mode = ''trusted-proxy'' then Approved
        else if mode = ''none'' then
          (if is_loopback then Approved
           else Rejected ''auth mode 'none' only allowed on loopback'')
        else Rejected (''unsupported auth mode: '' @ mode))"

record ConnectParams =
  cp_device_id :: string
  cp_platform :: string
  cp_device_family :: string
  cp_role :: string
  cp_auth :: AuthCreds

record GatewayState =
  gw_auth :: AuthConfig
  gw_bind_host :: string
  gw_pairing :: PairingState
  gw_device_counter :: "64 word"

text \<open>The authentication part of \<open>handle_socket\<close>: choose a device id, authenticate, and on
  success register the device. The token \<open>auto_approve_loopback\<close> returns is discarded, as the
  call's result is in the source.\<close>

definition choose_device_id :: "GatewayState \<Rightarrow> ConnectParams \<Rightarrow> string \<times> GatewayState" where
  "choose_device_id g params =
     (if cp_device_id params = []
      then (''device-'' @ show_nat (unat (gw_device_counter g)),
            g\<lparr>gw_device_counter := gw_device_counter g + 1\<rparr>)
      else (cp_device_id params, g))"

definition handshake :: "GatewayState \<Rightarrow> ConnectParams \<Rightarrow> (string, string) result \<times> GatewayState" where
  "handshake g params =
     (let (device_id, g1) = choose_device_id g params in
      case authenticate (gw_auth g1) (gw_pairing g1) device_id (cp_auth params) (gw_bind_host g1) of
        Rejected reason \<Rightarrow> (Inl reason, g1)
      | Approved \<Rightarrow>
          (let (_, p) = auto_approve_loopback (gw_pairing g1)
                 \<lparr>dv_device_id = device_id, dv_platform = cp_platform params,
                  dv_device_family = cp_device_family params, dv_role = cp_role params,
                  dv_approved = True, dv_token = unwrap_or (ac_token (gw_auth g1)) [],
                  dv_approved_at = None\<rparr>
           in (Inr device_id, g1\<lparr>gw_pairing := p\<rparr>)))"

subsection \<open>Runs of the store\<close>

datatype pairing_op = OpApprove string | OpRequest Device | OpLoopback Device

fun pairing_step :: "PairingState \<Rightarrow> pairing_op \<Rightarrow> (string \<times> string) list \<times> PairingState" where
  "pairing_step s (OpApprove i) = (let (t, s') = approve s i in ([(i, t)], s'))"
| "pairing_step s (OpRequest d) = ([], request_approval s d)"
| "pairing_step s (OpLoopback d) =
     (let (t, s') = auto_approve_loopback s d in ([(dv_device_id d, t)], s'))"

text \<open>The store after a sequence of operations, and the tokens issued, latest first.\<close>

fun pairing_run :: "PairingState \<Rightarrow> (string \<times> string) list \<Rightarrow> pairing_op list \<Rightarrow>
    (string \<times> string) list \<times> PairingState" where
  "pairing_run s issued [] = (issued, s)"
| "pairing_run s issued (x # xs) =
     (let (new, s') = pairing_step s x in pairing_run s' (new @ issued) xs)"

text \<open>A sequence of connections to one gateway, with what each was answered, and the credential the
  operator has configured.\<close>

fun connects :: "GatewayState \<Rightarrow> ConnectParams list \<Rightarrow> (string, string) result list \<times> GatewayState" where
  "connects g [] = ([], g)"
| "connects g (params # rest) =
     (let (r, g1) = handshake g params; (rs, g2) = connects g1 rest in (r # rs, g2))"

fun holds_secret :: "AuthConfig \<Rightarrow> AuthCreds \<Rightarrow> bool" where
  "holds_secret auth creds \<longleftrightarrow>
     (ac_mode auth = ''token'' \<and> ac_token auth \<noteq> Some [] \<and> ac_token auth \<noteq> None \<and> cr_token creds = ac_token auth) \<or>
     (ac_mode auth = ''password'' \<and> ac_password auth \<noteq> Some [] \<and> ac_password auth \<noteq> None \<and>
        cr_password creds = ac_password auth)"

fun admitted :: "(string, string) result list \<Rightarrow> string list" where
  "admitted [] = []"
| "admitted (Inr dev # rs) = dev # admitted rs"
| "admitted (Inl _ # rs) = admitted rs"

fun plain_request :: "pairing_op \<Rightarrow> bool" where
  "plain_request (OpRequest d) = (\<not> dv_approved d)"
| "plain_request _ = True"

subsection \<open>Invariant\<close>

lemma device_token_inj [simp]: "device_token m = device_token n \<longleftrightarrow> m = n"
  by (simp add: device_token_def word_unat_eq_iff)

text \<open>After \<open>k\<close> approvals the issued tokens are those numbered 1 to \<open>k\<close>, each approved device
  holds its latest token, and what is pending is known and unapproved.\<close>

definition pairing_inv :: "(string \<times> string) list \<Rightarrow> PairingState \<Rightarrow> bool" where
  "pairing_inv issued s \<longleftrightarrow>
     ps_token_counter s = of_nat (length issued) \<and>
     map snd issued = map (\<lambda>k. device_token (of_nat k)) (rev [1..<Suc (length issued)]) \<and>
     (\<forall>i t. verify_token s i t \<longleftrightarrow> map_of issued i = Some t) \<and>
     distinct (ps_pending s) \<and>
     (\<forall>i\<in>set (ps_pending s). ps_devices s i \<noteq> None \<and> \<not> is_approved s i) \<and>
     (\<forall>i d. ps_devices s i = Some d \<and> \<not> dv_approved d \<longrightarrow> i \<in> set (ps_pending s))"

lemma pairing_inv_new: "pairing_inv [] PairingStore_new"
  by (simp add: pairing_inv_def PairingStore_new_def verify_token_def)

lemma pairing_inv_approve [legion_inv]:
  assumes "pairing_inv issued s" and "approve s i = (t, s')"
  shows "pairing_inv ((i, t) # issued) s'"
proof -
  from assms(2) have s': "t = device_token (ps_token_counter s + 1)"
      "ps_token_counter s' = ps_token_counter s + 1"
      "ps_pending s' = filter (\<lambda>j. j \<noteq> i) (ps_pending s)"
      "ps_devices s' = (ps_devices s)(i \<mapsto> \<lparr>dv_device_id = i, dv_platform = [],
         dv_device_family = [], dv_role = [], dv_approved = True, dv_token = t, dv_approved_at = None\<rparr>)"
    by (auto simp: approve_def Let_def)
  have "verify_token s' j u \<longleftrightarrow> map_of ((i, t) # issued) j = Some u" for j u
    using assms(1) by (auto simp: pairing_inv_def s'(4) verify_token_def)
  moreover have "\<forall>j\<in>set (ps_pending s'). ps_devices s' j \<noteq> None \<and> \<not> is_approved s' j"
    using assms(1) by (auto simp: pairing_inv_def s'(3,4) is_approved_def)
  moreover have "\<forall>j d. ps_devices s' j = Some d \<and> \<not> dv_approved d \<longrightarrow> j \<in> set (ps_pending s')"
    using assms(1) by (auto simp: pairing_inv_def s'(3,4))
  ultimately show ?thesis
    using assms(1) by (simp add: pairing_inv_def s'(1,2,3))
qed

lemma pairing_inv_request [legion_inv]:
  assumes "pairing_inv issued s" and "\<not> dv_approved d"
  shows "pairing_inv issued (request_approval s d)"
proof (cases "ps_devices s (dv_device_id d)")
  case None
  then have "dv_device_id d \<notin> set (ps_pending s)"
    using assms(1) by (auto simp: pairing_inv_def)
  with None have s': "request_approval s d = s\<lparr>ps_pending := ps_pending s @ [dv_device_id d],
      ps_devices := (ps_devices s)(dv_device_id d \<mapsto> d)\<rparr>"
    by (simp add: request_approval_def Let_def)
  have "verify_token (request_approval s d) i t \<longleftrightarrow> verify_token s i t" for i t
    using None assms(2) by (simp add: s' verify_token_def)
  with assms None \<open>dv_device_id d \<notin> set (ps_pending s)\<close> show ?thesis
    by (auto simp: pairing_inv_def s' is_approved_def)
next
  case (Some d')
  then have "request_approval s d = s" by (simp add: request_approval_def Let_def)
  with assms show ?thesis by simp
qed

lemma pairing_inv_run:
  assumes "list_all plain_request xs" and "pairing_inv issued s"
    and "pairing_run s issued xs = (issued', s')"
  shows "pairing_inv issued' s'"
  using assms
proof (induction xs arbitrary: s issued)
  case (Cons x xs)
  obtain new s1 where step: "pairing_step s x = (new, s1)" by fastforce
  have "pairing_inv (new @ issued) s1"
    using Cons.prems(1,2) step
    by (cases x) (auto simp: auto_approve_loopback_def split: prod.splits
        intro: pairing_inv_approve pairing_inv_request)
  with Cons step show ?case by simp
qed simp

lemma of_nat_word64_inj:
  "m < 2 ^ 64 \<Longrightarrow> n < 2 ^ 64 \<Longrightarrow> (of_nat m :: 64 word) = of_nat n \<longleftrightarrow> m = n"
  by (simp add: word_of_nat_eq_iff take_bit_nat_eq_self)

lemma issued_tokens_distinct:
  assumes "pairing_inv issued s" and "length issued < 2 ^ 64"
  shows "distinct (map snd issued)"
proof -
  have "inj_on (\<lambda>k. device_token (of_nat k)) (set (rev [1..<Suc (length issued)]))"
    using assms(2) by (auto simp: inj_on_def of_nat_word64_inj)
  then have "distinct (map (\<lambda>k. device_token (of_nat k)) (rev [1..<Suc (length issued)]))"
    by (simp only: distinct_map distinct_rev distinct_upt)
  with assms(1) show ?thesis by (simp add: pairing_inv_def)
qed

text \<open>What the handshake does to the pairing store on success.\<close>

lemma handshake_Inr:
  assumes "handshake g params = (Inr device_id, g')"
  shows "authenticate (gw_auth g) (gw_pairing g) device_id (cp_auth params) (gw_bind_host g) = Approved"
    and "gw_pairing g' = snd (approve (gw_pairing g) device_id)"
    and "gw_auth g' = gw_auth g" and "gw_bind_host g' = gw_bind_host g"
  using assms
  by (auto simp: handshake_def choose_device_id_def auto_approve_loopback_def Let_def
      split: prod.splits AuthResult.splits if_splits)

lemma handshake_Inl:
  assumes "handshake g params = (Inl reason, g')"
  shows "gw_pairing g' = gw_pairing g"
  using assms
  by (auto simp: handshake_def choose_device_id_def auto_approve_loopback_def Let_def
      split: prod.splits AuthResult.splits if_splits)

lemma verify_token_after_approve:
  "verify_token (snd (approve s i)) i t \<longleftrightarrow> t = device_token (ps_token_counter s + 1)"
  by (auto simp: approve_def verify_token_def Let_def)

lemma verify_token_approve_cases:
  "verify_token (snd (approve s i)) dev t \<Longrightarrow> dev = i \<or> verify_token s dev t"
  by (auto simp: approve_def verify_token_def Let_def split: if_splits)

text \<open>What admits a connection on a public address, apart from a trusted proxy: a verified device
  token or the configured secret.\<close>

lemma authenticate_public:
  assumes "\<not> is_loopback_bind host" and "ac_mode auth \<noteq> ''trusted-proxy''"
    and "authenticate auth pairing dev creds host = Approved"
  shows "holds_secret auth creds \<or> (\<exists>t. verify_token pairing dev t)"
  using assms by (cases "ac_token auth"; cases "ac_password auth"; cases "cr_token creds")
    (auto simp: authenticate_def Let_def split: if_splits)

lemma authenticate_secret:
  "holds_secret auth creds \<Longrightarrow> authenticate auth pairing dev creds host = Approved"
  by (auto simp: authenticate_def Let_def)

lemma handshake_kept:
  assumes "handshake g params = (r, g')"
  shows "gw_auth g' = gw_auth g" and "gw_bind_host g' = gw_bind_host g"
    and "gw_pairing g' = foldl (\<lambda>s dev. snd (approve s dev)) (gw_pairing g) (admitted [r])"
  using assms
  by (auto simp: handshake_def choose_device_id_def auto_approve_loopback_def Let_def
      split: prod.splits AuthResult.splits if_splits)

lemma admitted_Cons: "admitted (r # rs) = admitted [r] @ admitted rs"
  by (cases r) auto

lemma connects_pairing:
  "connects g ps = (rs, g') \<Longrightarrow>
     gw_pairing g' = foldl (\<lambda>s dev. snd (approve s dev)) (gw_pairing g) (admitted rs) \<and> length rs = length ps"
proof (induction ps arbitrary: g rs g')
  case (Cons p ps)
  obtain r g1 where h: "handshake g p = (r, g1)" by fastforce
  obtain rs' where r: "connects g1 ps = (rs', g')" "rs = r # rs'" using Cons.prems h by (auto split: prod.splits)
  have "gw_pairing g' = foldl (\<lambda>s dev. snd (approve s dev)) (gw_pairing g1) (admitted rs') \<and> length rs' = length ps"
    by (rule Cons.IH [OF r(1)])
  then show ?case using handshake_kept(3) [OF h] r(2) by (subst r(2), subst admitted_Cons) simp
qed auto

lemma connects_secret:
  "connects g ps = (rs, g') \<Longrightarrow> i < length ps \<Longrightarrow> holds_secret (gw_auth g) (cp_auth (ps ! i)) \<Longrightarrow> \<exists>dev. rs ! i = Inr dev"
proof (induction ps arbitrary: g rs i)
  case (Cons p ps)
  obtain r g1 where h: "handshake g p = (r, g1)" by fastforce
  obtain rs' where r: "connects g1 ps = (rs', g')" "rs = r # rs'" using Cons.prems h by (auto split: prod.splits)
  show ?case
  proof (cases i)
    case 0
    then have "holds_secret (gw_auth g) (cp_auth p)" using Cons.prems(3) by simp
    from authenticate_secret [OF this] have "\<exists>dev. r = Inr dev"
      using h by (auto simp: handshake_def choose_device_id_def Let_def split: prod.splits if_splits)
    then show ?thesis using r 0 by simp
  next
    case (Suc k)
    then show ?thesis using Cons.IH [OF r(1), of k] Cons.prems(2,3) handshake_kept(1) [OF h] r(2) by simp
  qed
qed simp

lemma connects_admit:
  assumes "\<not> is_loopback_bind (gw_bind_host g)" and "ac_mode (gw_auth g) \<noteq> ''trusted-proxy''"
    and "connects g ps = (rs, g')" and "\<forall>dev t. verify_token (gw_pairing g) dev t \<longrightarrow> dev \<in> S"
    and "i < length ps" and "rs ! i = Inr dev"
  shows "dev \<in> S \<or> (\<exists>j\<le>i. rs ! j = Inr dev \<and> holds_secret (gw_auth g) (cp_auth (ps ! j)))"
  using assms
proof (induction ps arbitrary: g rs i S)
  case (Cons p ps)
  obtain r g1 where h: "handshake g p = (r, g1)" by fastforce
  obtain rs' where r: "connects g1 ps = (rs', g')" "rs = r # rs'" using Cons.prems(3) h by (auto split: prod.splits)
  note kept = handshake_kept [OF h]
  have first: "d \<in> S \<or> holds_secret (gw_auth g) (cp_auth p)" if "r = Inr d" for d
    using authenticate_public [OF Cons.prems(1,2) handshake_Inr(1)] h that Cons.prems(4) by blast
  show ?case
  proof (cases i)
    case 0
    then show ?thesis using first r(2) Cons.prems(6) by auto
  next
    case (Suc k)
    have "\<forall>d t. verify_token (gw_pairing g1) d t \<longrightarrow> d \<in> S \<union> {d. r = Inr d}"
      using kept(3) Cons.prems(4) by (cases r) (auto dest: verify_token_approve_cases)
    from Cons.IH [OF _ _ r(1) this, of k] Suc r(2) Cons.prems kept
    consider "dev \<in> S \<union> {d. r = Inr d}" | j where "j \<le> k" "rs' ! j = Inr dev" "holds_secret (gw_auth g) (cp_auth (ps ! j))"
      by auto
    then show ?thesis
    proof cases
      case 1
      then show ?thesis using first r(2) by (cases "dev \<in> S") (auto intro!: exI [of _ 0])
    next
      case 2
      then show ?thesis using r(2) Suc by (intro disjI2 exI [of _ "Suc j"]) simp
    qed
  qed
qed simp

subsection \<open>Properties\<close>

text \<open>C37. Device tokens: after any sequence of approvals and approval requests (requests carry
  unapproved devices) from an empty store, as long as fewer than \<open>2 ^ 64\<close> tokens were issued, all
  issued tokens differ, a device's token verifies exactly when it is the last one issued to that
  device (rotation revokes), and the pending list names each unapproved known device once.\<close>

theorem pairing_tokens_correct:
  assumes "list_all plain_request xs" and "pairing_run PairingStore_new [] xs = (issued, s)"
    and "length issued < 2 ^ 64"
  shows "distinct (map snd issued) \<and>
     (\<forall>i t. verify_token s i t \<longleftrightarrow> map_of issued i = Some t) \<and>
     distinct (pending_approvals s) \<and>
     (\<forall>i. i \<in> set (pending_approvals s) \<longleftrightarrow> get_device s i \<noteq> None \<and> \<not> is_approved s i)"
proof -
  have inv: "pairing_inv issued s"
    using assms(1,2) pairing_inv_new pairing_inv_run by blast
  have "i \<in> set (pending_approvals s) \<longleftrightarrow> get_device s i \<noteq> None \<and> \<not> is_approved s i" for i
    using inv by (cases "ps_devices s i")
      (auto simp: pairing_inv_def pending_approvals_def get_device_def is_approved_def)
  with inv issued_tokens_distinct [OF inv assms(3)] show ?thesis
    by (simp add: pairing_inv_def pending_approvals_def)
qed

theorem pairing_tokens_correct_witness:
  "verify_token (snd (pairing_run PairingStore_new [] [OpApprove ''a'', OpApprove ''b'', OpApprove ''a'']))
     ''a'' (device_token 3) \<and>
   \<not> verify_token (snd (pairing_run PairingStore_new [] [OpApprove ''a'', OpApprove ''b'', OpApprove ''a'']))
     ''a'' (device_token 1)"
proof -
  obtain issued s where run: "pairing_run PairingStore_new []
      [OpApprove ''a'', OpApprove ''b'', OpApprove ''a''] = (issued, s)" by fastforce
  then have "issued = [(''a'', device_token 3), (''b'', device_token 2), (''a'', device_token 1)]"
    by (auto simp: approve_def PairingStore_new_def Let_def)
  with pairing_tokens_correct [OF _ run] run show ?thesis by simp
qed

text \<open>C38. Admission on a public address. Take a gateway that has just started, bound to an address
  that is not loopback, in any mode but trusted-proxy, and any sequence of connections it serves
  one after another. A device id is admitted only if that connection or an earlier admitted one under the same id
  presented the configured, non-empty token or password: device tokens, which are all that lets a
  connection in without the secret, are never issued to an id nobody authenticated. Whoever presents
  the secret is admitted, and the pairing store is at the end what approving the admitted ids in
  turn makes of the empty one, so a rejected connection left it as it was.\<close>

theorem admission_needs_secret:
  assumes "\<not> is_loopback_bind (gw_bind_host g)" and "ac_mode (gw_auth g) \<noteq> ''trusted-proxy''"
    and "gw_pairing g = PairingStore_new" and "connects g ps = (rs, g')"
  shows "(\<forall>i dev. i < length ps \<and> rs ! i = Inr dev \<longrightarrow>
            (\<exists>j\<le>i. rs ! j = Inr dev \<and> holds_secret (gw_auth g) (cp_auth (ps ! j)))) \<and>
    (\<forall>i < length ps. holds_secret (gw_auth g) (cp_auth (ps ! i)) \<longrightarrow> (\<exists>dev. rs ! i = Inr dev)) \<and>
    gw_pairing g' = foldl (\<lambda>s dev. snd (approve s dev)) PairingStore_new (admitted rs)"
proof (intro conjI allI impI)
  fix i dev assume "i < length ps \<and> rs ! i = Inr dev"
  with connects_admit [OF assms(1,2,4), of "{}" i dev] show "\<exists>j\<le>i. rs ! j = Inr dev \<and> holds_secret (gw_auth g) (cp_auth (ps ! j))"
    by (simp add: assms(3) verify_token_def PairingStore_new_def)
next
  show "\<exists>dev. rs ! i = Inr dev" if "i < length ps" "holds_secret (gw_auth g) (cp_auth (ps ! i))" for i
    using connects_secret [OF assms(4) that] .
next
  show "gw_pairing g' = foldl (\<lambda>s dev. snd (approve s dev)) PairingStore_new (admitted rs)"
    using connects_pairing [OF assms(4)] assms(3) by simp
qed

theorem admission_needs_secret_witness:
  "let auth = \<lparr>ac_mode = ''password'', ac_token = None, ac_password = Some ''hunter2'', ac_allow_tailscale = False\<rparr>;
       g = \<lparr>gw_auth = auth, gw_bind_host = ''0.0.0.0'', gw_pairing = PairingStore_new, gw_device_counter = 1\<rparr>;
       with = (\<lambda>c. \<lparr>cp_device_id = ''laptop'', cp_platform = [], cp_device_family = [], cp_role = [], cp_auth = c\<rparr>);
       rs = fst (connects g [with \<lparr>cr_token = Some ''dev-token-1'', cr_password = None\<rparr>,
                             with \<lparr>cr_token = None, cr_password = Some ''hunter2''\<rparr>])
   in (\<nexists>dev. rs ! 0 = Inr dev) \<and> (\<exists>dev. rs ! 1 = Inr dev)"
proof -
  define auth where "auth = \<lparr>ac_mode = ''password'', ac_token = None, ac_password = Some ''hunter2'', ac_allow_tailscale = False\<rparr>"
  define g where "g = \<lparr>gw_auth = auth, gw_bind_host = ''0.0.0.0'', gw_pairing = PairingStore_new, gw_device_counter = 1\<rparr>"
  define ps where "ps = map (\<lambda>c. \<lparr>cp_device_id = ''laptop'', cp_platform = [], cp_device_family = [], cp_role = [], cp_auth = c\<rparr>)
    [\<lparr>cr_token = Some ''dev-token-1'', cr_password = None\<rparr>, \<lparr>cr_token = None, cr_password = Some ''hunter2''\<rparr>]"
  obtain rs g' where run: "connects g ps = (rs, g')" by fastforce
  have g: "\<not> is_loopback_bind (gw_bind_host g)" "ac_mode (gw_auth g) \<noteq> ''trusted-proxy''" "gw_pairing g = PairingStore_new"
    by (simp_all add: g_def auth_def is_loopback_bind_def)
  have "\<not> holds_secret (gw_auth g) (cp_auth (ps ! 0))" "holds_secret (gw_auth g) (cp_auth (ps ! 1))" "length ps = 2"
    by (simp_all add: g_def auth_def ps_def)
  then have "(\<nexists>dev. rs ! 0 = Inr dev) \<and> (\<exists>dev. rs ! 1 = Inr dev)"
    using admission_needs_secret [OF g run] by fastforce
  then show ?thesis using run by (simp add: Let_def g_def auth_def ps_def)
qed

text \<open>A device token is not persistent and is predictable. Every accepted connection
  replaces the device's token by the next number in sequence, which is not sent to the client:
  the token used so far no longer verifies, and whoever presents the numbered token and the
  device's id is admitted next, whatever the authentication mode and password.\<close>

theorem device_token_predictable:
  assumes "handshake g params = (Inr dev, g')" and "cp_device_id forged = dev" and "dev \<noteq> []"
    and "cr_token (cp_auth forged) = Some (device_token (ps_token_counter (gw_pairing g) + 1))"
  shows "fst (handshake g' forged) = Inr dev \<and>
     (\<forall>t. t \<noteq> device_token (ps_token_counter (gw_pairing g) + 1) \<longrightarrow> \<not> verify_token (gw_pairing g') dev t)"
proof -
  note h = handshake_Inr [OF assms(1)]
  have "authenticate (gw_auth g') (gw_pairing g') dev (cp_auth forged) (gw_bind_host g') = Approved"
    using assms(4) by (simp add: authenticate_def h(2) verify_token_after_approve)
  then have "fst (handshake g' forged) = Inr dev"
    using assms(2,3) by (simp add: handshake_def choose_device_id_def auto_approve_loopback_def
        Let_def split: prod.splits)
  then show ?thesis by (simp add: h(2) verify_token_after_approve)
qed

theorem device_token_predictable_witness:
  "let auth = \<lparr>ac_mode = ''password'', ac_token = None, ac_password = Some ''hunter2'',
                ac_allow_tailscale = False\<rparr>;
       g = \<lparr>gw_auth = auth, gw_bind_host = ''0.0.0.0'', gw_pairing = PairingStore_new,
            gw_device_counter = 1\<rparr>;
       honest = \<lparr>cp_device_id = ''laptop'', cp_platform = [], cp_device_family = [], cp_role = [],
                 cp_auth = \<lparr>cr_token = None, cr_password = Some ''hunter2''\<rparr>\<rparr>;
       forged = \<lparr>cp_device_id = ''laptop'', cp_platform = [], cp_device_family = [], cp_role = [],
                 cp_auth = \<lparr>cr_token = Some ''dev-token-1'', cr_password = None\<rparr>\<rparr>
   in fst (handshake g honest) = Inr ''laptop'' \<and>
      fst (handshake (snd (handshake g honest)) forged) = Inr ''laptop''"
proof -
  define g where "g = \<lparr>gw_auth = \<lparr>ac_mode = ''password'', ac_token = None,
      ac_password = Some ''hunter2'', ac_allow_tailscale = False\<rparr>, gw_bind_host = ''0.0.0.0'',
      gw_pairing = PairingStore_new, gw_device_counter = 1\<rparr>"
  define honest where "honest = \<lparr>cp_device_id = ''laptop'', cp_platform = [],
      cp_device_family = [], cp_role = [], cp_auth = \<lparr>cr_token = None, cr_password = Some ''hunter2''\<rparr>\<rparr>"
  define forged where "forged = \<lparr>cp_device_id = ''laptop'', cp_platform = [],
      cp_device_family = [], cp_role = [],
      cp_auth = \<lparr>cr_token = Some ''dev-token-1'', cr_password = None\<rparr>\<rparr>"
  have one: "device_token (ps_token_counter (gw_pairing g) + 1) = ''dev-token-1''"
    by (simp add: g_def PairingStore_new_def device_token_def) code_simp
  have "fst (handshake g honest) = Inr ''laptop''"
    by (simp add: g_def honest_def handshake_def choose_device_id_def authenticate_def Let_def
        auto_approve_loopback_def split: prod.splits)
  then obtain g' where ok: "handshake g honest = (Inr ''laptop'', g')"
    by (cases "handshake g honest") auto
  have "fst (handshake g' forged) = Inr ''laptop''"
    using device_token_predictable [OF ok, of forged] one by (simp add: forged_def)
  with ok show ?thesis by (simp add: Let_def g_def honest_def forged_def)
qed

end
