(* ===== verification/Prompt_Queue.thy ===== *)
theory Prompt_Queue
  imports Legion_Prelude
begin

text \<open>
  What the approval gate and the question gate share: tokio's one-shot channels, the pending map
  of a queue from prompt ids to senders, and the registry from prompt ids to queues, in one
  store. Channels and queues are numbered (they are shared by \<open>Arc\<close> in the source); dropping
  a sender closes its channel. The two locales state the contract the gates rely on; the
  theories \<open>Approval_Gate\<close> and \<open>Question_Gate\<close> interpret them on the operations of the
  two source modules.
\<close>

subsection \<open>One-shot channels and the store\<close>

datatype 'a oneshot = Waiting | Delivered 'a | Closed | Abandoned

text \<open>\<open>Waiting\<close>: nothing sent yet; \<open>Closed\<close>: the sender was dropped; \<open>Abandoned\<close>: the
  receiver was dropped (a timeout), so a later send is lost.\<close>

record 'a prompt_heap =
  ph_chans :: "nat \<rightharpoonup> 'a oneshot"
  ph_next :: nat
  ph_queues :: "nat \<Rightarrow> string \<rightharpoonup> nat"
  ph_registry :: "string \<rightharpoonup> nat"

definition empty_heap :: "'a prompt_heap" where
  "empty_heap = \<lparr>ph_chans = Map.empty, ph_next = 0, ph_queues = (\<lambda>_. Map.empty),
     ph_registry = Map.empty\<rparr>"

definition oneshot_channel :: "'a prompt_heap \<Rightarrow> nat \<times> 'a prompt_heap" where
  "oneshot_channel h =
     (ph_next h, h\<lparr>ph_chans := (ph_chans h)(ph_next h \<mapsto> Waiting), ph_next := Suc (ph_next h)\<rparr>)"

definition oneshot_send :: "nat \<Rightarrow> 'a \<Rightarrow> 'a prompt_heap \<Rightarrow> 'a prompt_heap" where
  "oneshot_send c v h =
     (if ph_chans h c = Some Waiting
      then h\<lparr>ph_chans := (ph_chans h)(c \<mapsto> Delivered v)\<rparr> else h)"

definition oneshot_drop_sender :: "nat \<Rightarrow> 'a prompt_heap \<Rightarrow> 'a prompt_heap" where
  "oneshot_drop_sender c h =
     (if ph_chans h c = Some Waiting
      then h\<lparr>ph_chans := (ph_chans h)(c \<mapsto> Closed)\<rparr> else h)"

definition oneshot_drop_receiver :: "nat \<Rightarrow> 'a prompt_heap \<Rightarrow> 'a prompt_heap" where
  "oneshot_drop_receiver c h =
     (if ph_chans h c = Some Waiting
      then h\<lparr>ph_chans := (ph_chans h)(c \<mapsto> Abandoned)\<rparr> else h)"

text \<open>\<open>HashMap::insert\<close> drops the sender it replaces; \<open>HashMap::remove\<close>.\<close>

definition pending_insert :: "nat \<Rightarrow> string \<Rightarrow> nat \<Rightarrow> 'a prompt_heap \<Rightarrow> 'a prompt_heap" where
  "pending_insert q pid c h =
     (let h1 = h\<lparr>ph_queues := (ph_queues h)(q := (ph_queues h q)(pid \<mapsto> c))\<rparr>
      in case ph_queues h q pid of None \<Rightarrow> h1 | Some old \<Rightarrow> oneshot_drop_sender old h1)"

definition pending_remove :: "nat \<Rightarrow> string \<Rightarrow> 'a prompt_heap \<Rightarrow> nat option \<times> 'a prompt_heap" where
  "pending_remove q pid h =
     (ph_queues h q pid,
      h\<lparr>ph_queues := (ph_queues h)(q := (ph_queues h q)(pid := None))\<rparr>)"

lemmas heap_defs = oneshot_channel_def oneshot_send_def oneshot_drop_sender_def
  oneshot_drop_receiver_def pending_insert_def pending_remove_def

subsection \<open>Well-formed stores\<close>

text \<open>Every pending sender is an allocated channel that has neither been used nor closed, and no
  channel is pending under two prompts.\<close>

definition heap_ok :: "'a prompt_heap \<Rightarrow> bool" where
  "heap_ok h \<longleftrightarrow>
     (\<forall>c. ph_chans h c \<noteq> None \<longrightarrow> c < ph_next h) \<and>
     (\<forall>q pid c. ph_queues h q pid = Some c \<longrightarrow>
        ph_chans h c = Some Waiting \<or> ph_chans h c = Some Abandoned) \<and>
     (\<forall>q pid q' pid' c. ph_queues h q pid = Some c \<and> ph_queues h q' pid' = Some c \<longrightarrow>
        q = q' \<and> pid = pid')"

text \<open>A settled channel keeps its outcome.\<close>

definition chans_stable :: "'a prompt_heap \<Rightarrow> 'a prompt_heap \<Rightarrow> bool" where
  "chans_stable h h' \<longleftrightarrow>
     (\<forall>c s. ph_chans h c = Some s \<and> s \<noteq> Waiting \<longrightarrow> ph_chans h' c = Some s) \<and>
     (\<forall>c. ph_chans h c \<noteq> None \<longrightarrow> ph_chans h' c \<noteq> None)"

lemma chans_stable_refl [simp]: "chans_stable h h"
  by (simp add: chans_stable_def)

lemma chans_stable_trans: "chans_stable h1 h2 \<Longrightarrow> chans_stable h2 h3 \<Longrightarrow> chans_stable h1 h3"
  unfolding chans_stable_def by blast

lemma heap_ok_empty [simp]: "heap_ok empty_heap"
  by (simp add: heap_ok_def empty_heap_def)

lemma heap_ok_fresh: "heap_ok h \<Longrightarrow> ph_chans h (ph_next h) = None"
  unfolding heap_ok_def by (metis less_irrefl)

lemma heap_ok_fresh_queue: "heap_ok h \<Longrightarrow> ph_queues h q pid \<noteq> Some (ph_next h)"
  unfolding heap_ok_def by (metis less_irrefl option.distinct(1))

lemma heap_okI:
  assumes "\<And>c. ph_chans h c \<noteq> None \<Longrightarrow> c < ph_next h"
    and "\<And>q pid c. ph_queues h q pid = Some c \<Longrightarrow>
      ph_chans h c = Some Waiting \<or> ph_chans h c = Some Abandoned"
    and "\<And>q pid q' pid' c. ph_queues h q pid = Some c \<Longrightarrow> ph_queues h q' pid' = Some c \<Longrightarrow>
      q = q' \<and> pid = pid'"
  shows "heap_ok h"
  unfolding heap_ok_def using assms by blast

lemma heap_ok_bound: "heap_ok h \<Longrightarrow> ph_chans h c \<noteq> None \<Longrightarrow> c < ph_next h"
  unfolding heap_ok_def by blast

lemma heap_ok_pending:
  "heap_ok h \<Longrightarrow> ph_queues h q pid = Some c \<Longrightarrow>
     ph_chans h c = Some Waiting \<or> ph_chans h c = Some Abandoned"
  unfolding heap_ok_def by blast

lemma heap_ok_slot_inj:
  "heap_ok h \<Longrightarrow> ph_queues h q pid = Some c \<Longrightarrow> ph_queues h q' pid' = Some c \<Longrightarrow> q = q' \<and> pid = pid'"
  unfolding heap_ok_def by blast

lemma heap_ok_drop_receiver [legion_inv]: "heap_ok h \<Longrightarrow> heap_ok (oneshot_drop_receiver c h)"
  by (auto simp: heap_ok_def oneshot_drop_receiver_def)

lemma drop_receiver_stable: "chans_stable h (oneshot_drop_receiver c h)"
  by (auto simp: chans_stable_def oneshot_drop_receiver_def)

text \<open>The two sections of a queue operation, as equations on the store: allocate and insert,
  remove and send.\<close>

lemma register_fields:
  assumes "oneshot_channel h = (c, h1)" and "heap_ok h"
  shows "c = ph_next h"
    and "ph_next (pending_insert q pid c h1) = Suc (ph_next h)"
    and "ph_registry (pending_insert q pid c h1) = ph_registry h"
    and "ph_queues (pending_insert q pid c h1) = (ph_queues h)(q := (ph_queues h q)(pid \<mapsto> c))"
    and "ph_chans (pending_insert q pid c h1) d =
      (if d = c then Some Waiting
       else if ph_queues h q pid = Some d \<and> ph_chans h d = Some Waiting then Some Closed
       else ph_chans h d)"
  using assms(1) heap_ok_fresh_queue [OF assms(2), of q pid]
  by (auto simp: heap_defs Let_def split: option.splits)

lemma register_heap_ok:
  assumes "oneshot_channel h = (c, h1)" and "heap_ok h"
  shows "heap_ok (pending_insert q pid c h1)" and "chans_stable h (pending_insert q pid c h1)"
proof -
  let ?h = "pending_insert q pid c h1"
  have f: "c = ph_next h" "ph_next ?h = Suc (ph_next h)"
      "ph_queues ?h = (ph_queues h)(q := (ph_queues h q)(pid \<mapsto> c))"
      "\<And>d. ph_chans ?h d = (if d = c then Some Waiting
         else if ph_queues h q pid = Some d \<and> ph_chans h d = Some Waiting then Some Closed
         else ph_chans h d)"
    using register_fields [OF assms] by auto
  have fresh: "ph_chans h c = None" "\<And>q p. ph_queues h q p \<noteq> Some c"
    using heap_ok_fresh [OF assms(2)] heap_ok_fresh_queue [OF assms(2)] f(1) by auto
  show "heap_ok ?h"
  proof (rule heap_okI)
    show "d < ph_next ?h" if "ph_chans ?h d \<noteq> None" for d
    proof (cases "d = c")
      case False
      with that have "ph_chans h d \<noteq> None" by (auto simp: f(4) split: if_splits)
      from heap_ok_bound [OF assms(2) this] show ?thesis by (simp add: f(2))
    next
      case True
      then have "d < Suc (ph_next h)" using f(1) by simp
      then show ?thesis by (simp only: f(2))
    qed
    show "ph_chans ?h d = Some Waiting \<or> ph_chans ?h d = Some Abandoned"
      if "ph_queues ?h q' p' = Some d" for q' p' d
    proof (cases "q' = q \<and> p' = pid")
      case True
      with that have "d = c" by (simp add: f(3))
      moreover have "ph_chans ?h c = Some Waiting" by (simp add: f(4))
      ultimately show ?thesis by blast
    next
      case False
      with that have old: "ph_queues h q' p' = Some d" by (auto simp: f(3) split: if_splits)
      with False have "ph_queues h q pid \<noteq> Some d" using heap_ok_slot_inj [OF assms(2)] by blast
      with heap_ok_pending [OF assms(2) old] fresh(1) show ?thesis by (auto simp: f(4))
    qed
    show "q1 = q2 \<and> p1 = p2"
      if "ph_queues ?h q1 p1 = Some d" "ph_queues ?h q2 p2 = Some d" for q1 p1 q2 p2 d
      using that fresh(2) heap_ok_slot_inj [OF assms(2), of q1 p1 d q2 p2]
      by (auto simp: f(3) split: if_splits)
  qed
  show "chans_stable h ?h" using fresh(1) by (auto simp: chans_stable_def f(4))
qed

lemma resolve_heap_ok:
  assumes "pending_remove q pid h = (Some c, h1)" and "heap_ok h"
  shows "heap_ok (oneshot_send c v h1)" and "chans_stable h (oneshot_send c v h1)"
proof -
  have slot: "ph_queues h q pid = Some c" and
    h1: "h1 = h\<lparr>ph_queues := (ph_queues h)(q := (ph_queues h q)(pid := None))\<rparr>"
    using assms(1) by (auto simp: pending_remove_def)
  have only: "ph_queues h1 q' p' \<noteq> Some c" for q' p'
    using heap_ok_slot_inj [OF assms(2) slot, of q' p'] by (auto simp: h1)
  have sub: "ph_queues h1 q' p' = Some d \<Longrightarrow> ph_queues h q' p' = Some d" for q' p' d
    by (auto simp: h1 split: if_splits)
  let ?h = "oneshot_send c v h1"
  have q: "ph_queues ?h = ph_queues h1" "ph_next ?h = ph_next h"
    and ch: "\<And>d. d \<noteq> c \<Longrightarrow> ph_chans ?h d = ph_chans h d" "ph_chans ?h c \<noteq> None \<Longrightarrow> ph_chans h c \<noteq> None"
    by (auto simp: oneshot_send_def h1 split: if_splits)
  show "heap_ok ?h"
  proof (rule heap_okI)
    show "d < ph_next ?h" if "ph_chans ?h d \<noteq> None" for d
      using that ch heap_ok_bound [OF assms(2), of d] q(2) by (cases "d = c") auto
    show "ph_chans ?h d = Some Waiting \<or> ph_chans ?h d = Some Abandoned"
      if "ph_queues ?h q' p' = Some d" for q' p' d
    proof -
      from that only [of q' p'] have "d \<noteq> c" by (auto simp: q(1))
      with that ch(1) heap_ok_pending [OF assms(2) sub, of q' p' d] show ?thesis by (simp add: q(1))
    qed
    show "q1 = q2 \<and> p1 = p2"
      if "ph_queues ?h q1 p1 = Some d" "ph_queues ?h q2 p2 = Some d" for q1 p1 q2 p2 d
      using that heap_ok_slot_inj [OF assms(2) sub sub, of q1 p1 d q2 p2] by (simp add: q(1))
  qed
  show "chans_stable h (oneshot_send c v h1)"
    by (auto simp: chans_stable_def oneshot_send_def h1)
qed

lemma pending_remove_None:
  assumes "pending_remove q pid h = (None, h1)"
  shows "h1 = h"
  using assms by (auto simp: pending_remove_def fun_upd_idem)

lemma resolve_fields:
  assumes "pending_remove q pid h = (Some c, h1)"
  shows "ph_queues (oneshot_send c v h1) = (ph_queues h)(q := (ph_queues h q)(pid := None))"
    and "ph_registry (oneshot_send c v h1) = ph_registry h"
    and "ph_chans (oneshot_send c v h1) d =
      (if d = c \<and> ph_chans h c = Some Waiting then Some (Delivered v) else ph_chans h d)"
  using assms by (auto simp: pending_remove_def oneshot_send_def)

subsection \<open>The contract of a queue\<close>

locale prompt_queue =
  fixes register :: "nat \<Rightarrow> string \<Rightarrow> 'a prompt_heap \<Rightarrow> nat \<times> 'a prompt_heap"
    and resolve :: "nat \<Rightarrow> string \<Rightarrow> 'a \<Rightarrow> 'a prompt_heap \<Rightarrow> bool \<times> 'a prompt_heap"
  assumes register_ok:
      "heap_ok h \<Longrightarrow> register q pid h = (c, h') \<Longrightarrow> heap_ok h' \<and> chans_stable h h'"
    and register_slot:
      "heap_ok h \<Longrightarrow> register q pid h = (c, h') \<Longrightarrow>
         ph_chans h c = None \<and> ph_chans h' c = Some Waiting \<and>
         ph_queues h' = (ph_queues h)(q := (ph_queues h q)(pid \<mapsto> c)) \<and>
         ph_registry h' = ph_registry h"
    and register_frame:
      "heap_ok h \<Longrightarrow> register q pid h = (c, h') \<Longrightarrow> d \<noteq> c \<Longrightarrow> ph_queues h q pid \<noteq> Some d \<Longrightarrow>
         ph_chans h' d = ph_chans h d"
    and resolve_ok:
      "heap_ok h \<Longrightarrow> resolve q pid v h = (r, h') \<Longrightarrow> heap_ok h' \<and> chans_stable h h'"
    and resolve_hit:
      "heap_ok h \<Longrightarrow> ph_queues h q pid = Some c \<Longrightarrow> resolve q pid v h = (r, h') \<Longrightarrow>
         r \<and> (ph_chans h c = Some Waiting \<longrightarrow> ph_chans h' c = Some (Delivered v)) \<and>
         ph_queues h' = (ph_queues h)(q := (ph_queues h q)(pid := None)) \<and>
         (\<forall>d. d \<noteq> c \<longrightarrow> ph_chans h' d = ph_chans h d) \<and> ph_registry h' = ph_registry h"
    and resolve_miss:
      "ph_queues h q pid = None \<Longrightarrow> resolve q pid v h = (r, h') \<Longrightarrow> \<not> r \<and> h' = h"
begin

lemma resolve_once:
  assumes "heap_ok h" and "resolve q pid v h = (r, h')"
  shows "fst (resolve q pid v' h') = False"
proof (cases "ph_queues h q pid")
  case None
  with assms(2) have "h' = h" using resolve_miss by blast
  with None show ?thesis using resolve_miss [of h q pid v'] by (cases "resolve q pid v' h") auto
next
  case (Some c)
  with resolve_hit [OF assms(1) Some assms(2)] have "ph_queues h' q pid = None" by simp
  then show ?thesis using resolve_miss [of h' q pid v'] by (cases "resolve q pid v' h'") auto
qed

lemma resolve_other:
  assumes "heap_ok h" and "ph_queues h q pid = Some c" and "ph_chans h c = Some Waiting"
    and "resolve q' pid' v h = (r, h')" and "q' \<noteq> q \<or> pid' \<noteq> pid"
  shows "ph_queues h' q pid = Some c \<and> ph_chans h' c = Some Waiting"
proof (cases "ph_queues h q' pid'")
  case None
  with assms show ?thesis using resolve_miss by blast
next
  case (Some d)
  with assms(1,2,5) have "d \<noteq> c" using heap_ok_slot_inj by blast
  with resolve_hit [OF assms(1) Some assms(4)] assms(2,3,5) show ?thesis by auto
qed

text \<open>A registered prompt survives replies to other prompts, and the reply to it arrives.\<close>

fun resolve_all :: "(nat \<times> string \<times> 'a) list \<Rightarrow> 'a prompt_heap \<Rightarrow> 'a prompt_heap" where
  "resolve_all [] h = h"
| "resolve_all ((q, pid, v) # rs) h = resolve_all rs (snd (resolve q pid v h))"

lemma resolve_all_keeps:
  assumes "heap_ok h" and "ph_queues h q pid = Some c" and "ph_chans h c = Some Waiting"
    and "\<forall>(q', pid', v)\<in>set rs. q' \<noteq> q \<or> pid' \<noteq> pid"
  shows "heap_ok (resolve_all rs h) \<and> ph_queues (resolve_all rs h) q pid = Some c \<and>
     ph_chans (resolve_all rs h) c = Some Waiting"
  using assms
proof (induction rs arbitrary: h)
  case (Cons x rs)
  obtain q' pid' v where x: "x = (q', pid', v)" by (cases x)
  obtain r h1 where r: "resolve q' pid' v h = (r, h1)" by fastforce
  from Cons.prems x have "q' \<noteq> q \<or> pid' \<noteq> pid" by auto
  with resolve_other [OF Cons.prems(1-3) r] resolve_ok [OF Cons.prems(1) r] Cons x r
  show ?case by auto
qed simp

lemma reply_arrives:
  assumes "heap_ok h" and "register q pid h = (c, h1)"
    and "\<forall>(q', pid', v)\<in>set rs. q' \<noteq> q \<or> pid' \<noteq> pid"
    and "resolve q pid v (resolve_all rs h1) = (r, h2)"
  shows "r \<and> ph_chans h2 c = Some (Delivered v)"
proof -
  note reg = register_slot [OF assms(1,2)] register_ok [OF assms(1,2)]
  then have "ph_queues h1 q pid = Some c" by simp
  with resolve_all_keeps [of h1 q pid c rs] reg assms(3)
  have "heap_ok (resolve_all rs h1)" "ph_queues (resolve_all rs h1) q pid = Some c"
      "ph_chans (resolve_all rs h1) c = Some Waiting" by auto
  from resolve_hit [OF this(1,2) assms(4)] this(3) show ?thesis by simp
qed

end

subsection \<open>The contract of a registry over a queue\<close>

locale prompt_registry = prompt_queue register resolve
  for register :: "nat \<Rightarrow> string \<Rightarrow> 'a prompt_heap \<Rightarrow> nat \<times> 'a prompt_heap"
    and resolve :: "nat \<Rightarrow> string \<Rightarrow> 'a \<Rightarrow> 'a prompt_heap \<Rightarrow> bool \<times> 'a prompt_heap" +
  fixes reg_register :: "string \<Rightarrow> nat \<Rightarrow> 'a prompt_heap \<Rightarrow> 'a prompt_heap"
    and reg_resolve :: "string \<Rightarrow> 'a \<Rightarrow> 'a prompt_heap \<Rightarrow> bool \<times> 'a prompt_heap"
  assumes reg_register:
      "reg_register pid q h = h\<lparr>ph_registry := (ph_registry h)(pid \<mapsto> q)\<rparr>"
    and reg_resolve:
      "reg_resolve pid v h =
         (let h1 = h\<lparr>ph_registry := (ph_registry h)(pid := None)\<rparr>
          in case ph_registry h pid of None \<Rightarrow> (False, h1) | Some q \<Rightarrow> resolve q pid v h1)"
begin

lemma heap_ok_registry [simp]: "heap_ok (h\<lparr>ph_registry := m\<rparr>) = heap_ok h"
  by (simp add: heap_ok_def)

lemma reg_register_ok: "heap_ok h \<Longrightarrow> heap_ok (reg_register pid q h) \<and> chans_stable h (reg_register pid q h)"
  by (simp add: reg_register chans_stable_def)

lemma reg_resolve_ok:
  assumes "heap_ok h" and "reg_resolve pid v h = (r, h')"
  shows "heap_ok h' \<and> chans_stable h h'"
proof (cases "ph_registry h pid")
  case None
  with assms show ?thesis by (auto simp: reg_resolve chans_stable_def)
next
  case (Some q)
  with assms(2) have "resolve q pid v (h\<lparr>ph_registry := (ph_registry h)(pid := None)\<rparr>) = (r, h')"
    by (simp add: reg_resolve)
  from resolve_ok [OF _ this] assms(1) show ?thesis by (simp add: chans_stable_def)
qed

text \<open>A prompt announced in the registry and registered in its queue is answered through it.\<close>

lemma reg_reply_arrives:
  assumes "heap_ok h" and "register q pid (reg_register pid q h) = (c, h1)"
    and "reg_resolve pid v h1 = (r, h2)"
  shows "r \<and> ph_chans h2 c = Some (Delivered v) \<and> ph_registry h2 pid = None"
proof -
  have ok: "heap_ok (reg_register pid q h)" using assms(1) by (simp add: reg_register)
  note reg = register_slot [OF ok assms(2)] register_ok [OF ok assms(2)]
  then have "ph_registry h1 pid = Some q" by (simp add: reg_register)
  with assms(3) have res: "resolve q pid v (h1\<lparr>ph_registry := (ph_registry h1)(pid := None)\<rparr>) = (r, h2)"
    by (simp add: reg_resolve)
  from resolve_hit [OF _ _ res] reg show ?thesis by auto
qed

text \<open>Two queues that announce the same prompt id: the reply goes to the later one.\<close>

lemma reg_reply_goes_to_last:
  assumes "heap_ok h" and "q1 \<noteq> q2"
    and "register q1 pid (reg_register pid q1 h) = (c1, h1)"
    and "register q2 pid (reg_register pid q2 h1) = (c2, h2)"
    and "reg_resolve pid v h2 = (r, h3)"
  shows "r \<and> ph_chans h3 c2 = Some (Delivered v) \<and> ph_chans h3 c1 = Some Waiting"
proof -
  have ok: "heap_ok (reg_register pid q1 h)" using assms(1) by (simp add: reg_register)
  note r1 = register_slot [OF ok assms(3)] register_ok [OF ok assms(3)]
  have ok1: "heap_ok (reg_register pid q2 h1)" using r1 by (simp add: reg_register)
  note r2 = register_slot [OF ok1 assms(4)] register_ok [OF ok1 assms(4)]
  from r1 r2 have waits: "ph_queues h2 q1 pid = Some c1" "ph_queues h2 q2 pid = Some c2"
    using assms(2) by (auto simp: reg_register)
  then have "c1 \<noteq> c2" using heap_ok_slot_inj [of h2 q1 pid c1 q2 pid] r2 assms(2) by blast
  from r2 have "ph_registry h2 pid = Some q2" by (simp add: reg_register)
  with assms(5) have res: "resolve q2 pid v (h2\<lparr>ph_registry := (ph_registry h2)(pid := None)\<rparr>) = (r, h3)"
    by (simp add: reg_resolve)
  from resolve_hit [OF _ _ res] r2 waits have
    hit: "r" "ph_chans h3 c2 = Some (Delivered v)" "\<forall>d. d \<noteq> c2 \<longrightarrow> ph_chans h3 d = ph_chans h2 d"
    by auto
  have q1: "ph_queues h1 q1 pid = Some c1" using r1 by simp
  have "ph_queues (reg_register pid q2 h1) q2 pid \<noteq> Some c1"
    using heap_ok_slot_inj [OF ok1, of q1 pid c1 q2 pid] q1 assms(2)
    by (auto simp: reg_register)
  with register_frame [OF ok1 assms(4)] \<open>c1 \<noteq> c2\<close> r1
  have "ph_chans h2 c1 = Some Waiting" by (simp add: reg_register)
  with hit \<open>c1 \<noteq> c2\<close> show ?thesis by simp
qed

end

end
