(* ===== verification/Chat_Types.thy ===== *)
theory Chat_Types
  imports Legion_Prelude "HOL-Library.Multiset"
begin

text \<open>
  The data the runtime and the providers exchange: chat messages and streamed chunks
  (\<^verbatim>\<open>legion-provider/src/types.rs\<close>), the bookkeeping that rebuilds tool calls from streamed
  fragments, tool calls, results and errors (\<^verbatim>\<open>legion-runtime/src/tools.rs\<close>), and the token
  estimate (\<^verbatim>\<open>legion-runtime/src/token_counter.rs\<close>). The BPE tokenizer is a parameter.
\<close>

subsection \<open>Messages\<close>

datatype ChatRole = System | User | Assistant | Tool

record FunctionCall =
  fc_name :: string
  fc_arguments :: string

text \<open>The provider's tool call; the runtime's own flat form is \<open>ToolCall\<close> below.\<close>

record ProviderToolCall =
  ptc_id :: string
  ptc_kind :: string
  ptc_function :: FunctionCall

record ChatMessage =
  cm_role :: ChatRole
  cm_content :: string
  cm_name :: "string option"
  cm_tool_calls :: "ProviderToolCall list option"
  cm_tool_call_id :: "string option"
  cm_cache_breakpoint :: bool

definition plain_message :: "ChatRole \<Rightarrow> string \<Rightarrow> ChatMessage" where
  "plain_message role content =
     \<lparr>cm_role = role, cm_content = content, cm_name = None, cm_tool_calls = None,
      cm_tool_call_id = None, cm_cache_breakpoint = False\<rparr>"

definition ChatMessage_system :: "string \<Rightarrow> ChatMessage" where
  "ChatMessage_system content = plain_message System content"

definition ChatMessage_user :: "string \<Rightarrow> ChatMessage" where
  "ChatMessage_user content = plain_message User content"

definition ChatMessage_assistant :: "string \<Rightarrow> ChatMessage" where
  "ChatMessage_assistant content = plain_message Assistant content"

definition with_cache_breakpoint :: "ChatMessage \<Rightarrow> ChatMessage" where
  "with_cache_breakpoint m = m\<lparr>cm_cache_breakpoint := True\<rparr>"

lemmas message_defs [legion_defs] = plain_message_def ChatMessage_system_def ChatMessage_user_def
  ChatMessage_assistant_def with_cache_breakpoint_def

record ToolDefinition =
  td_name :: string
  td_description :: string
  td_parameters :: json

datatype FinishReason = Stop | Length | ToolCalls | ContentFilter

record ChatChunk =
  cc_index :: nat
  cc_delta :: string
  cc_finish_reason :: "FinishReason option"
  cc_tool_calls :: "ProviderToolCall list option"

text \<open>The payload of the transparent variants (\<open>reqwest\<close>, \<open>serde_json\<close>) is their message.\<close>

datatype ProviderError =
    Http string
  | SseParse string
  | JsonParse string
  | ProviderNotFound string
  | ModelNotSupported string string
  | AuthProfileNotFound string
  | InvalidModelRef string
  | InvalidAuth string
  | StreamAborted string
  | EmbeddingNotSupported string
  | AllProvidersFailed
  | PromptTooLong
  | RateLimited string
  | Timeout string
  | ImageNotSupported string
  | SpeechNotSupported string
  | VideoNotSupported string

fun ProviderError_display :: "ProviderError \<Rightarrow> string" where
  "ProviderError_display (Http e) = ''HTTP request failed: '' @ e"
| "ProviderError_display (SseParse e) = ''SSE parse error: '' @ e"
| "ProviderError_display (JsonParse e) = ''JSON parse error: '' @ e"
| "ProviderError_display (ProviderNotFound p) = ''provider '' @ quoted p @ '' not found''"
| "ProviderError_display (ModelNotSupported m p) =
     ''model '' @ quoted m @ '' not supported by provider '' @ quoted p"
| "ProviderError_display (AuthProfileNotFound p) = ''auth profile '' @ quoted p @ '' not found''"
| "ProviderError_display (InvalidModelRef r) = ''invalid model reference: '' @ r"
| "ProviderError_display (InvalidAuth e) = ''invalid auth configuration: '' @ e"
| "ProviderError_display (StreamAborted e) = ''streaming aborted: '' @ e"
| "ProviderError_display (EmbeddingNotSupported p) =
     ''embedding not supported by provider '' @ quoted p"
| "ProviderError_display AllProvidersFailed = ''all providers in fallback chain failed''"
| "ProviderError_display PromptTooLong = ''prompt too long for model context window''"
| "ProviderError_display (RateLimited p) =
     ''rate limit exceeded for provider '' @ quoted p @ '' (wait budget exhausted)''"
| "ProviderError_display (Timeout e) = ''provider call timed out: '' @ e"
| "ProviderError_display (ImageNotSupported p) =
     ''image generation not supported by provider '' @ quoted p"
| "ProviderError_display (SpeechNotSupported p) =
     ''speech synthesis not supported by provider '' @ quoted p"
| "ProviderError_display (VideoNotSupported p) =
     ''video generation not supported by provider '' @ quoted p"

text \<open>Floating-point settings are kept by their 32 bits.\<close>

record ChatRequest =
  cq_model :: string
  cq_messages :: "ChatMessage list"
  cq_temperature :: "32 word option"
  cq_max_tokens :: "32 word option"
  cq_top_p :: "32 word option"
  cq_stop :: "string list option"
  cq_stream :: "bool option"
  cq_tools :: "ToolDefinition list option"
  cq_extra :: "(string \<times> json) list"

definition ChatRequest_new :: "string \<Rightarrow> ChatMessage list \<Rightarrow> ChatRequest" where
  "ChatRequest_new model messages = \<lparr>cq_model = model, cq_messages = messages, cq_temperature = None,
     cq_max_tokens = None, cq_top_p = None, cq_stop = None, cq_stream = Some True, cq_tools = None,
     cq_extra = []\<rparr>"

text \<open>A response stream, as the chunks and the error it yields until it ends.\<close>

type_synonym chat_stream = "(ProviderError, ChatChunk) result list"

definition merged_system_text :: "ChatMessage list \<Rightarrow> string" where
  "merged_system_text messages =
     join_with [CHR 0x0A, CHR 0x0A] (map cm_content (filter (\<lambda>m. cm_role m = System) messages))"

text \<open>The loop of \<open>tool_run_end\<close>: \<open>start\<close> may lie past the end, and is then returned.\<close>

function tool_run_end :: "ChatMessage list \<Rightarrow> nat \<Rightarrow> nat" where
  "tool_run_end messages end' =
     (if end' < length messages \<and> cm_role (messages ! end') = Tool
      then tool_run_end messages (end' + 1) else end')"
  by auto
termination by (relation "measure (\<lambda>(messages, end'). length messages - end')") auto

declare tool_run_end.simps [simp del]

subsection \<open>Rebuilding streamed tool calls\<close>

record PartialToolCall =
  pt_id :: string
  pt_kind :: string
  pt_name :: string
  pt_arguments :: string

definition default_PartialToolCall :: PartialToolCall where
  "default_PartialToolCall = \<lparr>pt_id = [], pt_kind = [], pt_name = [], pt_arguments = []\<rparr>"

definition into_tool_call :: "PartialToolCall \<Rightarrow> ProviderToolCall" where
  "into_tool_call p = \<lparr>ptc_id = pt_id p, ptc_kind = pt_kind p,
     ptc_function = \<lparr>fc_name = pt_name p, fc_arguments = pt_arguments p\<rparr>\<rparr>"

text \<open>The accumulator's map. \<open>entry\<close> hands out a mutable reference, so it takes the update.\<close>

type_synonym ToolCallAccumulator = "(nat \<times> PartialToolCall) list"

definition acc_insert :: "nat \<Rightarrow> PartialToolCall \<Rightarrow> ToolCallAccumulator \<Rightarrow> ToolCallAccumulator" where
  "acc_insert i p acc = (i, p) # filter (\<lambda>(j, _). j \<noteq> i) acc"

definition acc_entry ::
  "nat \<Rightarrow> (PartialToolCall \<Rightarrow> PartialToolCall) \<Rightarrow> ToolCallAccumulator \<Rightarrow> ToolCallAccumulator" where
  "acc_entry i f acc = acc_insert i (f (unwrap_or (map_of acc i) default_PartialToolCall)) acc"

definition acc_start :: "nat \<Rightarrow> PartialToolCall \<Rightarrow> ToolCallAccumulator \<Rightarrow> ToolCallAccumulator" where
  "acc_start i p acc = acc_insert i p acc"

definition acc_append_arguments :: "nat \<Rightarrow> string \<Rightarrow> ToolCallAccumulator \<Rightarrow> ToolCallAccumulator" where
  "acc_append_arguments i arguments acc =
     (case map_of acc i of
        Some p \<Rightarrow> acc_insert i (p\<lparr>pt_arguments := pt_arguments p @ arguments\<rparr>) acc
      | None \<Rightarrow> acc)"

definition acc_finish :: "nat \<Rightarrow> ToolCallAccumulator \<Rightarrow> ProviderToolCall option \<times> ToolCallAccumulator" where
  "acc_finish i acc = (map_option into_tool_call (map_of acc i), filter (\<lambda>(j, _). j \<noteq> i) acc)"

definition into_complete_calls :: "ToolCallAccumulator \<Rightarrow> ProviderToolCall list" where
  "into_complete_calls acc = map (\<lambda>(_, p). into_tool_call p) (sort_key fst acc)"

subsection \<open>Tool calls and results\<close>

record ToolCall =
  tc_id :: string
  tc_name :: string
  tc_arguments :: string

definition ToolCall_from :: "ProviderToolCall \<Rightarrow> ToolCall" where
  "ToolCall_from tc = \<lparr>tc_id = ptc_id tc, tc_name = fc_name (ptc_function tc),
     tc_arguments = fc_arguments (ptc_function tc)\<rparr>"

record ToolResult =
  tr_content :: string
  tr_is_error :: bool

definition ToolResult_ok :: "string \<Rightarrow> ToolResult" where
  "ToolResult_ok content = \<lparr>tr_content = content, tr_is_error = False\<rparr>"

definition ToolResult_error :: "string \<Rightarrow> ToolResult" where
  "ToolResult_error content = \<lparr>tr_content = content, tr_is_error = True\<rparr>"

datatype ToolError = Execution string | InvalidParams string | NotFound string | NotAllowed string

fun ToolError_display :: "ToolError \<Rightarrow> string" where
  "ToolError_display (Execution e) = ''tool execution failed: '' @ e"
| "ToolError_display (InvalidParams e) = ''invalid tool parameters: '' @ e"
| "ToolError_display (NotFound n) = ''tool '' @ quoted n @ '' not found''"
| "ToolError_display (NotAllowed n) = ''tool '' @ quoted n @ '' is not allowed in this context''"

subsection \<open>Token estimate\<close>

fun ChatRole_debug :: "ChatRole \<Rightarrow> string" where
  "ChatRole_debug System = ''System''"
| "ChatRole_debug User = ''User''"
| "ChatRole_debug Assistant = ''Assistant''"
| "ChatRole_debug Tool = ''Tool''"

fun count_words :: "bool \<Rightarrow> string \<Rightarrow> nat" where
  "count_words inside [] = 0"
| "count_words inside (c # s) =
     (if is_whitespace c then count_words False s
      else (if inside then 0 else 1) + count_words True s)"

text \<open>\<open>bpe\<close>: the number of tokens the cached encoder gives, when it could be loaded.\<close>

definition count_tokens :: "(string \<Rightarrow> nat) option \<Rightarrow> string \<Rightarrow> nat" where
  "count_tokens bpe text =
     (case bpe of
        Some encode_len \<Rightarrow> encode_len text
      | None \<Rightarrow> char_count text div 4 + count_words False text div 2)"

definition message_text :: "ChatMessage \<Rightarrow> string" where
  "message_text msg =
     ChatRole_debug (cm_role msg) @ [CHR 0x0A] @
     (case cm_name msg of Some name \<Rightarrow> name @ [CHR 0x0A] | None \<Rightarrow> []) @
     cm_content msg @
     (case cm_tool_calls msg of
        Some tcs \<Rightarrow> concat (map (\<lambda>tc. [CHR 0x0A] @ fc_name (ptc_function tc) @ [CHR 0x0A] @
            fc_arguments (ptc_function tc)) tcs)
      | None \<Rightarrow> []) @
     (case cm_tool_call_id msg of Some i \<Rightarrow> [CHR 0x0A] @ i | None \<Rightarrow> [])"

definition estimate_message_tokens :: "(string \<Rightarrow> nat) option \<Rightarrow> ChatMessage \<Rightarrow> nat" where
  "estimate_message_tokens bpe msg = count_tokens bpe (message_text msg) + 4"

definition estimate_total_tokens :: "(string \<Rightarrow> nat) option \<Rightarrow> ChatMessage list \<Rightarrow> string \<Rightarrow> nat" where
  "estimate_total_tokens bpe messages system_prompt =
     sum_list (map (estimate_message_tokens bpe) messages) + count_tokens bpe system_prompt"

subsection \<open>Facts\<close>

definition acc_ok :: "ToolCallAccumulator \<Rightarrow> bool" where
  "acc_ok acc \<longleftrightarrow> distinct (map fst acc)"

lemma map_of_filter_key: "map_of (filter (\<lambda>(j, _). j \<noteq> i) acc) k = (if k = i then None else map_of acc k)"
  by (induction acc) auto

lemma map_of_acc_insert: "map_of (acc_insert i p acc) k = (if k = i then Some p else map_of acc k)"
  by (simp add: acc_insert_def map_of_filter_key)

lemma acc_ok_filter: "acc_ok acc \<Longrightarrow> acc_ok (filter P acc)"
  by (simp add: acc_ok_def distinct_map_filter)

lemma acc_ok_insert [legion_inv]: "acc_ok acc \<Longrightarrow> acc_ok (acc_insert i p acc)"
  using acc_ok_filter [of acc "\<lambda>(j, _). j \<noteq> i"] by (auto simp: acc_ok_def acc_insert_def)

lemma acc_ok_ops [legion_inv]:
  assumes "acc_ok acc"
  shows "acc_ok (acc_entry i f acc)" and "acc_ok (acc_start i p acc)"
    and "acc_ok (acc_append_arguments i a acc)" and "acc_ok (snd (acc_finish i acc))"
  using assms
  by (auto simp: acc_entry_def acc_start_def acc_append_arguments_def acc_finish_def
      acc_ok_insert acc_ok_filter split: option.splits)

lemma tool_run_end_spec:
  "i \<le> tool_run_end ms i \<and>
   (\<forall>j. i \<le> j \<and> j < tool_run_end ms i \<longrightarrow> j < length ms \<and> cm_role (ms ! j) = Tool) \<and>
   (tool_run_end ms i < length ms \<longrightarrow> cm_role (ms ! tool_run_end ms i) \<noteq> Tool)"
proof (induction ms i rule: tool_run_end.induct)
  case (1 ms i)
  show ?case
  proof (cases "i < length ms \<and> cm_role (ms ! i) = Tool")
    case True
    have step: "tool_run_end ms i = tool_run_end ms (i + 1)"
      using True by (subst tool_run_end.simps) simp
    have IH: "i + 1 \<le> tool_run_end ms (i + 1) \<and>
       (\<forall>j. i + 1 \<le> j \<and> j < tool_run_end ms (i + 1) \<longrightarrow> j < length ms \<and> cm_role (ms ! j) = Tool) \<and>
       (tool_run_end ms (i + 1) < length ms \<longrightarrow> cm_role (ms ! tool_run_end ms (i + 1)) \<noteq> Tool)"
      using 1 True by blast
    have "j < length ms \<and> cm_role (ms ! j) = Tool" if "i \<le> j" "j < tool_run_end ms (i + 1)" for j
      using that True IH by (cases "j = i") auto
    with IH show ?thesis unfolding step by auto
  next
    case False
    then have "tool_run_end ms i = i" by (subst tool_run_end.simps) auto
    with False show ?thesis by auto
  qed
qed

text \<open>An accumulator is read back in index order: it is determined by its map.\<close>

lemma sort_acc_unique:
  assumes "acc_ok acc" and "sorted_wrt (<) (map fst target)" and "map_of acc = map_of target"
  shows "sort_key fst acc = target"
proof (rule sort_key_inj_key_eq)
  have dt: "distinct (map fst target)" using assms(2) by (simp add: strict_sorted_iff)
  have "set acc = set target"
    using assms(1,3) dt by (simp add: acc_ok_def map_of_inject_set)
  then show "mset acc = mset target"
    using assms(1) dt by (simp add: acc_ok_def set_eq_iff_mset_eq_distinct distinct_map)
  show "inj_on fst (set acc)" using assms(1) by (simp add: acc_ok_def distinct_map)
  show "sorted (map fst target)" using assms(2) by (simp add: strict_sorted_iff)
qed

lemma fold_acc_start:
  "acc_ok acc \<Longrightarrow> distinct (map fst starts) \<Longrightarrow>
   acc_ok (fold (\<lambda>(i, p). acc_start i p) starts acc) \<and>
   map_of (fold (\<lambda>(i, p). acc_start i p) starts acc) k = or_opt (map_of starts k) (map_of acc k)"
proof (induction starts arbitrary: acc)
  case (Cons s starts)
  obtain i p where s: "s = (i, p)" by fastforce
  have "acc_ok (acc_start i p acc)" using Cons.prems by (simp add: acc_ok_ops)
  moreover have "map_of starts i = None" using Cons.prems s by (simp add: map_of_eq_None_iff)
  ultimately show ?case
    using Cons.IH [of "acc_start i p acc"] Cons.prems s
    by (auto simp: acc_start_def map_of_acc_insert)
qed simp

lemma fold_acc_append:
  "acc_ok acc \<Longrightarrow>
   acc_ok (fold (\<lambda>(i, a). acc_append_arguments i a) frags acc) \<and>
   map_of (fold (\<lambda>(i, a). acc_append_arguments i a) frags acc) k =
     map_option (\<lambda>p. p\<lparr>pt_arguments := pt_arguments p @ concat (map snd (filter (\<lambda>(j, _). j = k) frags))\<rparr>)
       (map_of acc k)"
proof (induction frags arbitrary: acc)
  case Nil
  then show ?case by (cases "map_of acc k") auto
next
  case (Cons f frags)
  obtain i a where f: "f = (i, a)" by fastforce
  have "acc_ok (acc_append_arguments i a acc)" using Cons.prems by (rule acc_ok_ops)
  with Cons.IH [of "acc_append_arguments i a acc"] f show ?case
    by (cases "map_of acc i") (auto simp: acc_append_arguments_def map_of_acc_insert)
qed

subsection \<open>Properties\<close>

text \<open>Tool calls streamed in fragments are put back together: after starting one call per
  index and appending argument fragments in any interleaving, the completed calls come out
  ordered by index, each with the concatenation of its own fragments; fragments for an index
  that was never started are dropped.\<close>

theorem streamed_calls_rebuilt:
  assumes "sorted_wrt (<) (map fst starts)" and "mset starts' = mset starts"
  shows "into_complete_calls
      (fold (\<lambda>(i, a). acc_append_arguments i a) frags (fold (\<lambda>(i, p). acc_start i p) starts' [])) =
    map (\<lambda>(i, p). into_tool_call (p\<lparr>pt_arguments :=
        pt_arguments p @ concat (map snd (filter (\<lambda>(j, _). j = i) frags))\<rparr>)) starts"
proof -
  let ?f = "\<lambda>i p. p\<lparr>pt_arguments := pt_arguments p @ concat (map snd (filter (\<lambda>(j, _). j = i) frags))\<rparr>"
  let ?target = "map (\<lambda>(i, p). (i, ?f i p)) starts"
  let ?acc1 = "fold (\<lambda>(i, p). acc_start i p) starts' []"
  let ?acc = "fold (\<lambda>(i, a). acc_append_arguments i a) frags ?acc1"
  have d: "distinct (map fst starts)" using assms(1) by (simp add: strict_sorted_iff)
  have "mset (map fst starts') = mset (map fst starts)" using assms(2) by simp
  then have d': "distinct (map fst starts')" using d by (metis mset_eq_imp_distinct_iff)
  have same: "map_of starts' = map_of starts"
    using d d' assms(2) by (metis map_of_inject_set mset_eq_setD)
  have tgt: "map_of ?target k = map_option (?f k) (map_of starts k)" for k
    by (induction starts) auto
  have ok1: "acc_ok ?acc1" and m1: "map_of ?acc1 = map_of starts"
    using fold_acc_start [of "[]" starts'] d' same by (auto simp: acc_ok_def)
  then have "acc_ok ?acc" and "map_of ?acc = map_of ?target"
    using fold_acc_append [OF ok1] tgt by auto
  moreover have keys: "map fst ?target = map fst starts" by (induction starts) auto
  ultimately have "sort_key fst ?acc = ?target"
    using assms(1) by (intro sort_acc_unique) (simp_all only: keys)
  then show ?thesis by (simp add: into_complete_calls_def split_def)
qed

theorem streamed_calls_rebuilt_witness:
  "let p = default_PartialToolCall\<lparr>pt_id := ''a''\<rparr>; q = default_PartialToolCall\<lparr>pt_id := ''b''\<rparr>
   in map (fc_arguments \<circ> ptc_function) (into_complete_calls
      (fold (\<lambda>(i, a). acc_append_arguments i a) [(1, ''x''), (0, ''{''), (1, ''y''), (0, ''}'')]
        (fold (\<lambda>(i, p). acc_start i p) [(1, q), (0, p)] []))) = [''{}'', ''xy'']"
  using streamed_calls_rebuilt [of "[(0, default_PartialToolCall\<lparr>pt_id := ''a''\<rparr>),
      (1, default_PartialToolCall\<lparr>pt_id := ''b''\<rparr>)]" "[(1, default_PartialToolCall\<lparr>pt_id := ''b''\<rparr>),
      (0, default_PartialToolCall\<lparr>pt_id := ''a''\<rparr>)]" "[(1, ''x''), (0, ''{''), (1, ''y''), (0, ''}'')]"]
  by (simp add: Let_def into_tool_call_def default_PartialToolCall_def add_mset_commute)

end
