(* ===== verification/Question_Gate.thy ===== *)
theory Question_Gate
  imports Prompt_Queue Chat_Types
begin

text \<open>
  The question gate of \<^verbatim>\<open>legion-runtime/src/question.rs\<close> and the \<open>ask_user\<close> tool of
  \<^verbatim>\<open>legion-tools/src/ask_user.rs\<close>: structured questions, the queue and registry of pending
  questions (the second interpretation of the prompt contracts), the gate's request in two
  atomic sections, and the tool's validation, execution and answer rendering. The derived
  deserializer of the tool's input is a parameter.
\<close>

subsection \<open>Data\<close>

record AskUserOption =
  ao_label :: string
  ao_description :: string
  ao_preview :: "string option"

record AskUserQuestion =
  aq_question :: string
  aq_header :: string
  aq_options :: "AskUserOption list"
  aq_multi_select :: bool

record AskUserInput =
  ai_questions :: "AskUserQuestion list"

record AskUserAnnotation =
  aa_preview :: "string option"
  aa_notes :: "string option"

record AskUserOutput =
  auo_questions :: "AskUserQuestion list"
  auo_answers :: "string \<rightharpoonup> string"
  auo_annotations :: "(string \<rightharpoonup> AskUserAnnotation) option"

record QuestionRequest =
  qr_tool :: string
  qr_agent_id :: string
  qr_session_key :: string
  qr_interactive :: bool

subsection \<open>Queue and registry\<close>

type_synonym question_heap = "AskUserOutput prompt_heap"

definition QuestionQueue_register :: "nat \<Rightarrow> string \<Rightarrow> question_heap \<Rightarrow> nat \<times> question_heap" where
  "QuestionQueue_register q prompt_id h =
     (let (rx, h1) = oneshot_channel h in (rx, pending_insert q prompt_id rx h1))"

definition QuestionQueue_resolve ::
  "nat \<Rightarrow> string \<Rightarrow> AskUserOutput \<Rightarrow> question_heap \<Rightarrow> bool \<times> question_heap" where
  "QuestionQueue_resolve q prompt_id answer h =
     (case pending_remove q prompt_id h of
        (Some tx, h1) \<Rightarrow> (True, oneshot_send tx answer h1)
      | (None, h1) \<Rightarrow> (False, h1))"

definition QuestionQueueRegistry_register :: "string \<Rightarrow> nat \<Rightarrow> question_heap \<Rightarrow> question_heap" where
  "QuestionQueueRegistry_register prompt_id queue h =
     h\<lparr>ph_registry := (ph_registry h)(prompt_id \<mapsto> queue)\<rparr>"

definition QuestionQueueRegistry_resolve ::
  "string \<Rightarrow> AskUserOutput \<Rightarrow> question_heap \<Rightarrow> bool \<times> question_heap" where
  "QuestionQueueRegistry_resolve prompt_id answer h =
     (let queue = ph_registry h prompt_id;
          h1 = h\<lparr>ph_registry := (ph_registry h)(prompt_id := None)\<rparr>
      in case queue of
           Some q \<Rightarrow> QuestionQueue_resolve q prompt_id answer h1
         | None \<Rightarrow> (False, h1))"

interpretation qnq: prompt_registry QuestionQueue_register QuestionQueue_resolve
  QuestionQueueRegistry_register QuestionQueueRegistry_resolve
proof unfold_locales
  fix h h' :: question_heap and q pid c
  assume ok: "heap_ok h" and reg: "QuestionQueue_register q pid h = (c, h')"
  obtain h1 where ch: "oneshot_channel h = (c, h1)" and h': "h' = pending_insert q pid c h1"
    using reg by (auto simp: QuestionQueue_register_def split: prod.splits)
  show "heap_ok h' \<and> chans_stable h h'"
    using register_heap_ok [OF ch ok] h' by simp
  show "ph_chans h c = None \<and> ph_chans h' c = Some Waiting \<and>
      ph_queues h' = (ph_queues h)(q := (ph_queues h q)(pid \<mapsto> c)) \<and> ph_registry h' = ph_registry h"
    using register_fields [OF ch ok] h' heap_ok_fresh [OF ok] by simp
  show "ph_chans h' d = ph_chans h d" if "d \<noteq> c" "ph_queues h q pid \<noteq> Some d" for d
    using register_fields(5) [OF ch ok] h' that by simp
next
  fix h h' :: question_heap and q pid v r
  assume res: "QuestionQueue_resolve q pid v h = (r, h')"
  show "heap_ok h' \<and> chans_stable h h'" if "heap_ok h"
    using res that by (auto simp: QuestionQueue_resolve_def split: prod.splits option.splits
        intro: resolve_heap_ok dest: pending_remove_None)
  show "r \<and> (ph_chans h c = Some Waiting \<longrightarrow> ph_chans h' c = Some (Delivered v)) \<and>
      ph_queues h' = (ph_queues h)(q := (ph_queues h q)(pid := None)) \<and>
      (\<forall>d. d \<noteq> c \<longrightarrow> ph_chans h' d = ph_chans h d) \<and> ph_registry h' = ph_registry h"
    if slot: "ph_queues h q pid = Some c" for c
  proof -
    obtain h1 where h1: "pending_remove q pid h = (Some c, h1)"
      using slot by (auto simp: pending_remove_def)
    with res have "r" "h' = oneshot_send c v h1" by (auto simp: QuestionQueue_resolve_def)
    with resolve_fields [OF h1] show ?thesis by simp
  qed
  show "\<not> r \<and> h' = h" if "ph_queues h q pid = None"
    using res that by (auto simp: QuestionQueue_resolve_def pending_remove_def fun_upd_idem)
qed (auto simp: QuestionQueueRegistry_register_def QuestionQueueRegistry_resolve_def Let_def
    split: option.splits)

subsection \<open>The gate\<close>

record QuestionGate =
  qg_queue :: nat
  qg_counter :: "64 word"
  qg_registry :: bool

definition QuestionGate_new :: "nat \<Rightarrow> QuestionGate" where
  "QuestionGate_new q = \<lparr>qg_queue = q, qg_counter = 0, qg_registry = False\<rparr>"

definition question_with_registry :: "QuestionGate \<Rightarrow> QuestionGate" where
  "question_with_registry g = g\<lparr>qg_registry := True\<rparr>"

definition question_id_of :: "64 word \<Rightarrow> string" where
  "question_id_of n = ''question-'' @ show_nat (unat n)"

definition next_question_id :: "QuestionGate \<Rightarrow> string \<times> QuestionGate" where
  "next_question_id g = (question_id_of (qg_counter g), g\<lparr>qg_counter := qg_counter g + 1\<rparr>)"

text \<open>\<open>None\<close> in the first component: refused without asking. Otherwise the prompt id and the
  channel waited on; the notifier is called once with that id and the questions.\<close>

definition question_begin ::
  "QuestionGate \<Rightarrow> QuestionRequest \<Rightarrow> question_heap \<Rightarrow> (string \<times> nat) option \<times> QuestionGate \<times> question_heap" where
  "question_begin g req h =
     (if \<not> qr_interactive req then (None, g, h)
      else
        let (prompt_id, g1) = next_question_id g;
            h1 = (if qg_registry g1
                  then QuestionQueueRegistry_register prompt_id (qg_queue g1) h else h);
            (rx, h2) = QuestionQueue_register (qg_queue g1) prompt_id h1
        in (Some (prompt_id, rx), g1, h2))"

text \<open>The await: what the receiver yields when it is polled (\<open>None\<close>: the timeout elapsed or
  the sender is gone).\<close>

fun question_end :: "AskUserOutput oneshot option \<Rightarrow> AskUserOutput option" where
  "question_end (Some (Delivered answer)) = Some answer"
| "question_end _ = None"

definition QuestionGate_resolve ::
  "QuestionGate \<Rightarrow> string \<Rightarrow> AskUserOutput \<Rightarrow> question_heap \<Rightarrow> question_heap" where
  "QuestionGate_resolve g prompt_id answer h = snd (QuestionQueue_resolve (qg_queue g) prompt_id answer h)"

subsection \<open>The ask-user tool\<close>

fun dup_option :: "string \<Rightarrow> string list \<Rightarrow> AskUserOption list \<Rightarrow> (ToolError, unit) result" where
  "dup_option question seen [] = Inr ()"
| "dup_option question seen (opt # opts) =
     (if ao_label opt \<in> set seen
      then Inl (InvalidParams (''duplicate option label '' @ quoted (ao_label opt) @
             '' in question '' @ quoted question))
      else dup_option question (ao_label opt # seen) opts)"

fun dup_question :: "string list \<Rightarrow> AskUserQuestion list \<Rightarrow> (ToolError, unit) result" where
  "dup_question seen [] = Inr ()"
| "dup_question seen (q # qs) =
     (if aq_question q \<in> set seen
      then Inl (InvalidParams (''duplicate question: '' @ aq_question q))
      else bind_result (dup_option (aq_question q) [] (aq_options q))
             (\<lambda>_. dup_question (aq_question q # seen) qs))"

definition ask_user_validate_input ::
  "(json \<Rightarrow> (string, AskUserInput) result) \<Rightarrow> json \<Rightarrow> (ToolError, unit) result" where
  "ask_user_validate_input from_value input =
     (case from_value input of
        Inl e \<Rightarrow> Inl (InvalidParams (''invalid ask_user input: '' @ e))
      | Inr parsed \<Rightarrow> dup_question [] (ai_questions parsed))"

definition format_answer :: "AskUserOutput \<Rightarrow> AskUserQuestion \<Rightarrow> string" where
  "format_answer output q =
     (let answer = unwrap_or (auo_answers output (aq_question q)) [];
          annotation = Option.bind (auo_annotations output) (\<lambda>a. a (aq_question q));
          parts = [''Q: '' @ aq_question q, ''A: '' @ answer] @
            (case Option.bind annotation aa_notes of
               Some notes \<Rightarrow> [''Notes: '' @ notes] | None \<Rightarrow> [])
      in join_with [CHR 0x0A] parts)"

definition format_answers :: "AskUserOutput \<Rightarrow> string" where
  "format_answers output =
     join_with [CHR 0x0A, CHR 0x0A] (map (format_answer output) (auo_questions output))"

text \<open>The tool's execution up to the await: the request always claims to be interactive.\<close>

definition ask_user_begin ::
  "(json \<Rightarrow> (string, AskUserInput) result) \<Rightarrow> QuestionGate option \<Rightarrow> string \<Rightarrow> string \<Rightarrow> json \<Rightarrow> question_heap \<Rightarrow>
     (ToolError, (string \<times> nat) option \<times> QuestionGate \<times> question_heap) result" where
  "ask_user_begin from_value gate agent_id session_id params h =
     (case from_value params of
        Inl e \<Rightarrow> Inl (InvalidParams (''invalid ask_user input: '' @ e))
      | Inr input \<Rightarrow>
          (case gate of
             None \<Rightarrow> Inl (Execution ''ask_user requires an interactive session'')
           | Some g \<Rightarrow>
               Inr (question_begin g \<lparr>qr_tool = ''ask_user'', qr_agent_id = agent_id,
                   qr_session_key = session_id, qr_interactive = True\<rparr> h)))"

definition ask_user_end :: "AskUserOutput option \<Rightarrow> (ToolError, ToolResult) result" where
  "ask_user_end answer =
     (case answer of
        Some output \<Rightarrow> Inr (ToolResult_ok (format_answers output))
      | None \<Rightarrow> Inl (Execution ''user did not answer the question in time''))"

subsection \<open>Facts\<close>

lemma dup_option_Inr:
  "dup_option q seen opts = Inr () \<longleftrightarrow>
     distinct (map ao_label opts) \<and> set (map ao_label opts) \<inter> set seen = {}"
  by (induction q seen opts rule: dup_option.induct) auto

lemma dup_question_Inr:
  "dup_question seen qs = Inr () \<longleftrightarrow>
     distinct (map aq_question qs) \<and> set (map aq_question qs) \<inter> set seen = {} \<and>
     (\<forall>q\<in>set qs. distinct (map ao_label (aq_options q)))"
  by (induction seen qs rule: dup_question.induct) (auto simp: dup_option_Inr)

lemma question_begin_Some:
  assumes "question_begin g req h = (Some (pid, c), g', h')" and "heap_ok h"
  shows "qr_interactive req" and "heap_ok h'" and "pid = question_id_of (qg_counter g)"
    and "QuestionQueue_register (qg_queue g) pid
      (if qg_registry g then QuestionQueueRegistry_register pid (qg_queue g) h else h) = (c, h')"
    and "heap_ok (if qg_registry g then QuestionQueueRegistry_register pid (qg_queue g) h else h)"
proof -
  let ?h1 = "if qg_registry g then QuestionQueueRegistry_register pid (qg_queue g) h else h"
  show "qr_interactive req" "pid = question_id_of (qg_counter g)"
    and reg: "QuestionQueue_register (qg_queue g) pid ?h1 = (c, h')"
    using assms(1)
    by (auto simp: question_begin_def next_question_id_def Let_def split: if_splits prod.splits)
  show ok1: "heap_ok ?h1" using qnq.reg_register_ok [OF assms(2)] assms(2) by auto
  show "heap_ok h'" using qnq.register_ok [OF ok1 reg] by simp
qed

subsection \<open>Properties\<close>

text \<open>A question is answered by its own reply, at most once: whatever other questions on the
  gate's queue are answered in between, the reply to a question's id reaches the request that asked
  it and is what the tool renders; a second reply to the same id finds no waiter; and a question
  whose reply has not arrived when the wait ends is reported as unanswered.\<close>

theorem question_answered_once:
  assumes "heap_ok h" and "question_begin g req h = (Some (pid, c), g', h1)"
    and "\<forall>(q', pid', v)\<in>set others. q' \<noteq> qg_queue g \<or> pid' \<noteq> pid"
    and "QuestionQueue_resolve (qg_queue g) pid answer (qnq.resolve_all others h1) = (r, h2)"
  shows "r \<and> ask_user_end (question_end (ph_chans h2 c)) = Inr (ToolResult_ok (format_answers answer)) \<and>
     fst (QuestionQueue_resolve (qg_queue g) pid answer' h2) = False \<and>
     ask_user_end (question_end (ph_chans (qnq.resolve_all others h1) c)) =
       Inl (Execution ''user did not answer the question in time'')"
proof -
  note B = question_begin_Some [OF assms(2,1)]
  have arr: "r \<and> ph_chans h2 c = Some (Delivered answer)"
    by (rule qnq.reply_arrives [OF B(5,4) assms(3,4)])
  have slot: "ph_queues h1 (qg_queue g) pid = Some c" "ph_chans h1 c = Some Waiting"
    using qnq.register_slot [OF B(5,4)] by auto
  have keep: "heap_ok (qnq.resolve_all others h1) \<and> ph_chans (qnq.resolve_all others h1) c = Some Waiting"
    using qnq.resolve_all_keeps [OF B(2) slot assms(3)] by blast
  then have "fst (QuestionQueue_resolve (qg_queue g) pid answer' h2) = False"
    using qnq.resolve_once [OF _ assms(4)] by blast
  with arr keep show ?thesis by (simp add: ask_user_end_def)
qed

definition demo_question :: AskUserOutput where
  "demo_question = \<lparr>auo_questions = [\<lparr>aq_question = ''Go?'', aq_header = ''Go'', aq_options = [],
     aq_multi_select = False\<rparr>], auo_answers = [''Go?'' \<mapsto> ''yes''], auo_annotations = None\<rparr>"

theorem question_answered_once_witness:
  "let (_, g, h1) = question_begin (QuestionGate_new 3) \<lparr>qr_tool = ''ask_user'', qr_agent_id = ''main'',
        qr_session_key = ''s'', qr_interactive = True\<rparr> empty_heap;
       h2 = snd (QuestionQueue_resolve 3 ''question-0'' demo_question h1)
   in ask_user_end (question_end (ph_chans h2 0)) =
     Inr (ToolResult_ok (''Q: Go?'' @ [CHR 0x0A] @ ''A: yes''))"
proof -
  let ?req = "\<lparr>qr_tool = ''ask_user'', qr_agent_id = ''main'', qr_session_key = ''s'', qr_interactive = True\<rparr>"
  have pid: "question_id_of 0 = ''question-0''" by (simp add: question_id_of_def) code_simp
  obtain g h1 where b: "question_begin (QuestionGate_new 3) ?req empty_heap = (Some (''question-0'', 0), g, h1)"
    by (simp add: question_begin_def QuestionGate_new_def next_question_id_def pid
        QuestionQueue_register_def oneshot_channel_def empty_heap_def Let_def)
  obtain r h2 where res: "QuestionQueue_resolve (qg_queue (QuestionGate_new 3)) ''question-0'' demo_question
      (qnq.resolve_all [] h1) = (r, h2)" by fastforce
  have "format_answers demo_question = ''Q: Go?'' @ [CHR 0x0A] @ ''A: yes''"
    by (simp add: format_answers_def format_answer_def demo_question_def)
  moreover have "QuestionQueue_resolve 3 ''question-0'' demo_question h1 = (r, h2)"
    using res by (simp add: QuestionGate_new_def)
  ultimately show ?thesis
    using question_answered_once [OF heap_ok_empty b _ res] b by simp
qed

text \<open>The input check of the ask-user tool accepts exactly the parsed inputs whose questions
  are pairwise different and whose options within each question have pairwise different labels, so
  the answer map, keyed by question text, has one entry per question.\<close>

theorem ask_user_validation:
  assumes "from_value input = Inr parsed"
  shows "ask_user_validate_input from_value input = Inr () \<longleftrightarrow>
     distinct (map aq_question (ai_questions parsed)) \<and>
     (\<forall>q\<in>set (ai_questions parsed). distinct (map ao_label (aq_options q)))"
  using assms by (simp add: ask_user_validate_input_def dup_question_Inr)

theorem ask_user_validation_witness:
  "ask_user_validate_input (\<lambda>_. Inr \<lparr>ai_questions =
      [\<lparr>aq_question = ''A?'', aq_header = ''a'', aq_options = [], aq_multi_select = False\<rparr>,
       \<lparr>aq_question = ''A?'', aq_header = ''b'', aq_options = [], aq_multi_select = False\<rparr>]\<rparr>) JNull \<noteq> Inr ()"
  using ask_user_validation [of "\<lambda>_. Inr \<lparr>ai_questions =
      [\<lparr>aq_question = ''A?'', aq_header = ''a'', aq_options = [], aq_multi_select = False\<rparr>,
       \<lparr>aq_question = ''A?'', aq_header = ''b'', aq_options = [], aq_multi_select = False\<rparr>]\<rparr>" JNull
      "\<lparr>ai_questions =
      [\<lparr>aq_question = ''A?'', aq_header = ''a'', aq_options = [], aq_multi_select = False\<rparr>,
       \<lparr>aq_question = ''A?'', aq_header = ''b'', aq_options = [], aq_multi_select = False\<rparr>]\<rparr>"]
  by simp

end
