(* ===== verification/Approval_Gate.thy ===== *)
theory Approval_Gate
  imports Prompt_Queue
begin

text \<open>
  The approval gate of \<^verbatim>\<open>legion-runtime/src/approval.rs\<close>: permission modes, the queue and
  the registry of pending prompts, and the gate's request. A request is two atomic sections with
  an await between them: \<open>request_begin\<close> runs up to the await, \<open>request_end\<close> decides from the
  outcome of the await. The step relation below interleaves requests of several gates with
  replies and timeouts in any order.
\<close>

subsection \<open>Permission modes\<close>

datatype PermissionMode = Default | AcceptEdits | Auto | DontAsk | BypassPermissions | Plan

definition PermissionMode_from_str :: "string \<Rightarrow> (string, PermissionMode) result" where
  "PermissionMode_from_str s =
     (if s = ''default'' then Inr Default
      else if s = ''accept_edits'' \<or> s = ''acceptEdits'' then Inr AcceptEdits
      else if s = ''auto'' then Inr Auto
      else if s = ''dont_ask'' \<or> s = ''dontAsk'' then Inr DontAsk
      else if s = ''bypass_permissions'' \<or> s = ''bypassPermissions'' then Inr BypassPermissions
      else if s = ''plan'' then Inr Plan
      else Inl (''unknown permission mode: '' @ s))"

subsection \<open>Queue and registry\<close>

definition ApprovalQueue_register :: "nat \<Rightarrow> string \<Rightarrow> bool prompt_heap \<Rightarrow> nat \<times> bool prompt_heap" where
  "ApprovalQueue_register q prompt_id h =
     (let (rx, h1) = oneshot_channel h in (rx, pending_insert q prompt_id rx h1))"

definition ApprovalQueue_resolve ::
  "nat \<Rightarrow> string \<Rightarrow> bool \<Rightarrow> bool prompt_heap \<Rightarrow> bool \<times> bool prompt_heap" where
  "ApprovalQueue_resolve q prompt_id allow h =
     (case pending_remove q prompt_id h of
        (Some tx, h1) \<Rightarrow> (True, oneshot_send tx allow h1)
      | (None, h1) \<Rightarrow> (False, h1))"

definition ApprovalQueueRegistry_register :: "string \<Rightarrow> nat \<Rightarrow> bool prompt_heap \<Rightarrow> bool prompt_heap" where
  "ApprovalQueueRegistry_register prompt_id queue h =
     h\<lparr>ph_registry := (ph_registry h)(prompt_id \<mapsto> queue)\<rparr>"

definition ApprovalQueueRegistry_resolve ::
  "string \<Rightarrow> bool \<Rightarrow> bool prompt_heap \<Rightarrow> bool \<times> bool prompt_heap" where
  "ApprovalQueueRegistry_resolve prompt_id allow h =
     (let queue = ph_registry h prompt_id;
          h1 = h\<lparr>ph_registry := (ph_registry h)(prompt_id := None)\<rparr>
      in case queue of
           Some q \<Rightarrow> ApprovalQueue_resolve q prompt_id allow h1
         | None \<Rightarrow> (False, h1))"

interpretation apq: prompt_registry ApprovalQueue_register ApprovalQueue_resolve
  ApprovalQueueRegistry_register ApprovalQueueRegistry_resolve
proof unfold_locales
  fix h h' :: "bool prompt_heap" and q pid c
  assume ok: "heap_ok h" and reg: "ApprovalQueue_register q pid h = (c, h')"
  obtain h1 where ch: "oneshot_channel h = (c, h1)" and h': "h' = pending_insert q pid c h1"
    using reg by (auto simp: ApprovalQueue_register_def split: prod.splits)
  show "heap_ok h' \<and> chans_stable h h'"
    using register_heap_ok [OF ch ok] h' by simp
  show "ph_chans h c = None \<and> ph_chans h' c = Some Waiting \<and>
      ph_queues h' = (ph_queues h)(q := (ph_queues h q)(pid \<mapsto> c)) \<and> ph_registry h' = ph_registry h"
    using register_fields [OF ch ok] h' heap_ok_fresh [OF ok] by simp
  show "ph_chans h' d = ph_chans h d" if "d \<noteq> c" "ph_queues h q pid \<noteq> Some d" for d
    using register_fields(5) [OF ch ok] h' that by simp
next
  fix h h' :: "bool prompt_heap" and q pid v r
  assume res: "ApprovalQueue_resolve q pid v h = (r, h')"
  show "heap_ok h' \<and> chans_stable h h'" if "heap_ok h"
    using res that by (auto simp: ApprovalQueue_resolve_def split: prod.splits option.splits
        intro: resolve_heap_ok dest: pending_remove_None)
  show "r \<and> (ph_chans h c = Some Waiting \<longrightarrow> ph_chans h' c = Some (Delivered v)) \<and>
      ph_queues h' = (ph_queues h)(q := (ph_queues h q)(pid := None)) \<and>
      (\<forall>d. d \<noteq> c \<longrightarrow> ph_chans h' d = ph_chans h d) \<and> ph_registry h' = ph_registry h"
    if slot: "ph_queues h q pid = Some c" for c
  proof -
    obtain h1 where h1: "pending_remove q pid h = (Some c, h1)"
      using slot by (auto simp: pending_remove_def)
    with res have "r" "h' = oneshot_send c v h1" by (auto simp: ApprovalQueue_resolve_def)
    with resolve_fields [OF h1] show ?thesis by simp
  qed
  show "\<not> r \<and> h' = h" if "ph_queues h q pid = None"
    using res that by (auto simp: ApprovalQueue_resolve_def pending_remove_def fun_upd_idem)
qed (auto simp: ApprovalQueueRegistry_register_def ApprovalQueueRegistry_resolve_def Let_def
    split: option.splits)

subsection \<open>The gate\<close>

record ApprovalRequest =
  ar_tool :: string
  ar_agent_id :: string
  ar_session_key :: string
  ar_interactive :: bool

record ApprovalGate =
  ag_queue :: nat
  ag_counter :: "64 word"
  ag_session_denies :: "string set"
  ag_registry :: bool
  ag_auto_approve :: bool

definition ApprovalGate_new :: "nat \<Rightarrow> ApprovalGate" where
  "ApprovalGate_new q = \<lparr>ag_queue = q, ag_counter = 0, ag_session_denies = {},
     ag_registry = False, ag_auto_approve = False\<rparr>"

definition with_registry :: "ApprovalGate \<Rightarrow> ApprovalGate" where
  "with_registry g = g\<lparr>ag_registry := True\<rparr>"

definition with_auto_approve :: "bool \<Rightarrow> ApprovalGate \<Rightarrow> ApprovalGate" where
  "with_auto_approve enabled g = g\<lparr>ag_auto_approve := enabled\<rparr>"

definition prompt_id_of :: "64 word \<Rightarrow> string" where
  "prompt_id_of n = ''prompt-'' @ show_nat (unat n)"

definition next_prompt_id :: "ApprovalGate \<Rightarrow> string \<times> ApprovalGate" where
  "next_prompt_id g = (prompt_id_of (ag_counter g), g\<lparr>ag_counter := ag_counter g + 1\<rparr>)"

text \<open>What a request is doing: decided without a prompt, or waiting for the reply to a prompt
  on a channel. The notifier is called once, with the prompt id, exactly when it waits. The beginning is one step,
  although the source takes the locks of the denies, the registry and the queue one after another: a client
  learns the id of the prompt from the notification, after the last of them.\<close>

datatype request_state = Decided bool | Awaiting string nat

definition request_begin ::
  "ApprovalGate \<Rightarrow> ApprovalRequest \<Rightarrow> bool prompt_heap \<Rightarrow> request_state \<times> ApprovalGate \<times> bool prompt_heap" where
  "request_begin g req h =
     (if ag_auto_approve g then (Decided True, g, h)
      else if \<not> ar_interactive req then (Decided False, g, h)
      else if ar_tool req \<in> ag_session_denies g then (Decided False, g, h)
      else
        let (prompt_id, g1) = next_prompt_id g;
            h1 = (if ag_registry g1
                  then ApprovalQueueRegistry_register prompt_id (ag_queue g1) h else h);
            (rx, h2) = ApprovalQueue_register (ag_queue g1) prompt_id h1
        in (Awaiting prompt_id rx, g1, h2))"

datatype await_outcome = Answered bool | RecvError | Elapsed

fun request_end :: "ApprovalGate \<Rightarrow> ApprovalRequest \<Rightarrow> await_outcome \<Rightarrow> bool \<times> ApprovalGate" where
  "request_end g req (Answered True) = (True, g)"
| "request_end g req (Answered False) =
     (False, g\<lparr>ag_session_denies := insert (ar_tool req) (ag_session_denies g)\<rparr>)"
| "request_end g req RecvError = (False, g)"
| "request_end g req Elapsed = (False, g)"

definition ApprovalGate_resolve ::
  "ApprovalGate \<Rightarrow> string \<Rightarrow> bool \<Rightarrow> bool prompt_heap \<Rightarrow> bool prompt_heap" where
  "ApprovalGate_resolve g prompt_id allow h = snd (ApprovalQueue_resolve (ag_queue g) prompt_id allow h)"

lemma prompt_id_of_inj [simp]: "prompt_id_of m = prompt_id_of n \<longleftrightarrow> m = n"
  by (simp add: prompt_id_of_def word_unat_eq_iff)


subsection \<open>Interleavings\<close>

text \<open>
  The world of a running gateway: the store, its gates (each shared by the tool calls of one
  run), the requests that wait (by the channel they wait on), the prompts the notifiers were
  given, the decisions returned (with the channel that was waited on, if any) and the replies
  received.
\<close>

record aworld =
  aw_heap :: "bool prompt_heap"
  aw_gates :: "nat \<Rightarrow> ApprovalGate"
  aw_waits :: "nat \<rightharpoonup> nat \<times> ApprovalRequest"
  aw_notified :: "(nat \<times> ApprovalRequest \<times> string \<times> nat) list"
  aw_decisions :: "(nat \<times> ApprovalRequest \<times> nat option \<times> bool) list"
  aw_replies :: "(string \<times> bool) list"

definition aw_init :: "(nat \<Rightarrow> ApprovalGate) \<Rightarrow> aworld" where
  "aw_init gates = \<lparr>aw_heap = empty_heap, aw_gates = gates, aw_waits = Map.empty,
     aw_notified = [], aw_decisions = [], aw_replies = []\<rparr>"

definition aw_begin :: "nat \<Rightarrow> ApprovalRequest \<Rightarrow> aworld \<Rightarrow> aworld" where
  "aw_begin g req w =
     (case request_begin (aw_gates w g) req (aw_heap w) of
        (Decided b, gate, h) \<Rightarrow>
          w\<lparr>aw_gates := (aw_gates w)(g := gate), aw_heap := h,
            aw_decisions := (g, req, None, b) # aw_decisions w\<rparr>
      | (Awaiting pid c, gate, h) \<Rightarrow>
          w\<lparr>aw_gates := (aw_gates w)(g := gate), aw_heap := h,
            aw_waits := (aw_waits w)(c \<mapsto> (g, req)),
            aw_notified := (g, req, pid, c) # aw_notified w\<rparr>)"

definition aw_reply_queue :: "nat \<Rightarrow> string \<Rightarrow> bool \<Rightarrow> aworld \<Rightarrow> aworld" where
  "aw_reply_queue q pid allow w =
     w\<lparr>aw_heap := snd (ApprovalQueue_resolve q pid allow (aw_heap w)),
       aw_replies := (pid, allow) # aw_replies w\<rparr>"

definition aw_reply_registry :: "string \<Rightarrow> bool \<Rightarrow> aworld \<Rightarrow> aworld" where
  "aw_reply_registry pid allow w =
     w\<lparr>aw_heap := snd (ApprovalQueueRegistry_resolve pid allow (aw_heap w)),
       aw_replies := (pid, allow) # aw_replies w\<rparr>"

definition aw_finish :: "nat \<Rightarrow> nat \<Rightarrow> ApprovalRequest \<Rightarrow> await_outcome \<Rightarrow> aworld \<Rightarrow> aworld" where
  "aw_finish c g req out w =
     (let (b, gate) = request_end (aw_gates w g) req out
      in w\<lparr>aw_gates := (aw_gates w)(g := gate),
           aw_heap := oneshot_drop_receiver c (aw_heap w),
           aw_waits := (aw_waits w)(c := None),
           aw_decisions := (g, req, Some c, b) # aw_decisions w\<rparr>)"

inductive aw_step :: "aworld \<Rightarrow> aworld \<Rightarrow> bool" where
  begin_request: "aw_step w (aw_begin g req w)"
| reply_queue: "aw_step w (aw_reply_queue q pid allow w)"
| reply_registry: "aw_step w (aw_reply_registry pid allow w)"
| answered: "aw_waits w c = Some (g, req) \<Longrightarrow> ph_chans (aw_heap w) c = Some (Delivered b) \<Longrightarrow>
    aw_step w (aw_finish c g req (Answered b) w)"
| recv_error: "aw_waits w c = Some (g, req) \<Longrightarrow> ph_chans (aw_heap w) c = Some Closed \<Longrightarrow>
    aw_step w (aw_finish c g req RecvError w)"
| elapsed: "aw_waits w c = Some (g, req) \<Longrightarrow> ph_chans (aw_heap w) c = Some Waiting \<Longrightarrow>
    aw_step w (aw_finish c g req Elapsed w)"

inductive aw_reachable :: "(nat \<Rightarrow> ApprovalGate) \<Rightarrow> aworld \<Rightarrow> bool" for gates where
  start: "aw_reachable gates (aw_init gates)"
| step: "aw_reachable gates w \<Longrightarrow> aw_step w w' \<Longrightarrow> aw_reachable gates w'"

text \<open>The invariant: the store is well formed; a delivered answer was sent as the reply to the
  prompt registered on its channel; whoever waits was notified; and every positive decision is
  accounted for.\<close>

definition aw_inv :: "aworld \<Rightarrow> bool" where
  "aw_inv w \<longleftrightarrow> heap_ok (aw_heap w) \<and>
     (\<forall>g req pid c. (g, req, pid, c) \<in> set (aw_notified w) \<longrightarrow>
        ph_chans (aw_heap w) c \<noteq> None \<and> ar_interactive req \<and>
        (\<forall>b. ph_chans (aw_heap w) c = Some (Delivered b) \<longrightarrow> (pid, b) \<in> set (aw_replies w))) \<and>
     (\<forall>q pid c. ph_queues (aw_heap w) q pid = Some c \<longrightarrow>
        (\<forall>g req pid'. (g, req, pid', c) \<in> set (aw_notified w) \<longrightarrow> pid' = pid)) \<and>
     (\<forall>c g req. aw_waits w c = Some (g, req) \<longrightarrow> (\<exists>pid. (g, req, pid, c) \<in> set (aw_notified w))) \<and>
     (\<forall>g req. (g, req, None, True) \<in> set (aw_decisions w) \<longrightarrow> ag_auto_approve (aw_gates w g)) \<and>
     (\<forall>g req c. (g, req, Some c, True) \<in> set (aw_decisions w) \<longrightarrow>
        ph_chans (aw_heap w) c = Some (Delivered True) \<and>
        (\<exists>pid. (g, req, pid, c) \<in> set (aw_notified w)))"

lemma aw_inv_notified:
  assumes "aw_inv w" and "(g, req, pid, c) \<in> set (aw_notified w)"
  shows "ph_chans (aw_heap w) c \<noteq> None" and "ar_interactive req"
    and "ph_chans (aw_heap w) c = Some (Delivered b) \<Longrightarrow> (pid, b) \<in> set (aw_replies w)"
    and "ph_queues (aw_heap w) q pid' = Some c \<Longrightarrow> pid = pid'"
  using assms unfolding aw_inv_def by blast+

lemma request_begin_frame:
  assumes "request_begin g req h = (st, g', h')"
  shows "ag_auto_approve g' = ag_auto_approve g" and "ag_session_denies g' = ag_session_denies g"
    and "ag_queue g' = ag_queue g"
  using assms
  by (auto simp: request_begin_def next_prompt_id_def Let_def split: if_splits prod.splits)

lemma request_begin_Decided:
  assumes "request_begin g req h = (Decided b, g', h')"
  shows "g' = g" and "h' = h" and "b = ag_auto_approve g"
    and "\<not> b \<Longrightarrow> \<not> ar_interactive req \<or> ar_tool req \<in> ag_session_denies g"
  using assms by (auto simp: request_begin_def Let_def split: if_splits prod.splits)

lemma request_begin_Awaiting:
  assumes "request_begin g req h = (Awaiting pid c, g', h')" and "heap_ok h"
  shows "ar_interactive req" and "heap_ok h'" and "chans_stable h h'"
    and "ph_chans h c = None" and "ph_chans h' c = Some Waiting"
    and "ph_queues h' = (ph_queues h)(ag_queue g := (ph_queues h (ag_queue g))(pid \<mapsto> c))"
    and "\<not> ag_auto_approve g" and "ar_tool req \<notin> ag_session_denies g"
    and "pid = prompt_id_of (ag_counter g)" and "ag_counter g' = ag_counter g + 1"
    and "ph_registry h' = (if ag_registry g then (ph_registry h)(pid \<mapsto> ag_queue g) else ph_registry h)"
    and "\<And>d. d \<noteq> c \<Longrightarrow> ph_chans h' d = Some (Delivered b) \<Longrightarrow> ph_chans h d = Some (Delivered b)"
proof -
  let ?h1 = "if ag_registry g then ApprovalQueueRegistry_register pid (ag_queue g) h else h"
  have guards: "\<not> ag_auto_approve g" "ar_interactive req" "ar_tool req \<notin> ag_session_denies g"
    and g': "pid = prompt_id_of (ag_counter g)" "ag_counter g' = ag_counter g + 1"
    and reg: "ApprovalQueue_register (ag_queue g) pid ?h1 = (c, h')"
    using assms(1)
    by (auto simp: request_begin_def next_prompt_id_def Let_def split: if_splits prod.splits)
  have ok1: "heap_ok ?h1" and st1: "chans_stable h ?h1" and same: "ph_chans ?h1 = ph_chans h"
      "ph_queues ?h1 = ph_queues h"
      "ph_registry ?h1 = (if ag_registry g then (ph_registry h)(pid \<mapsto> ag_queue g) else ph_registry h)"
    using assms(2) apq.reg_register_ok [OF assms(2)]
    by (auto simp: ApprovalQueueRegistry_register_def)
  note slot = apq.register_slot [OF ok1 reg] and okd = apq.register_ok [OF ok1 reg]
  show "ar_interactive req" "\<not> ag_auto_approve g" "ar_tool req \<notin> ag_session_denies g"
    "pid = prompt_id_of (ag_counter g)" "ag_counter g' = ag_counter g + 1"
    by (fact guards g')+
  show "heap_ok h'" "chans_stable h h'" using okd st1 chans_stable_trans by blast+
  show "ph_chans h c = None" "ph_chans h' c = Some Waiting"
    "ph_queues h' = (ph_queues h)(ag_queue g := (ph_queues h (ag_queue g))(pid \<mapsto> c))"
    "ph_registry h' = (if ag_registry g then (ph_registry h)(pid \<mapsto> ag_queue g) else ph_registry h)"
    using slot same by auto
  fix d assume d: "d \<noteq> c" "ph_chans h' d = Some (Delivered b)"
  show "ph_chans h d = Some (Delivered b)"
  proof (cases "ph_queues ?h1 (ag_queue g) pid = Some d")
    case True
    from reg obtain h2 where ch: "oneshot_channel ?h1 = (c, h2)" and h': "h' = pending_insert (ag_queue g) pid c h2"
      by (auto simp: ApprovalQueue_register_def split: prod.splits)
    from register_fields(5) [OF ch ok1, of "ag_queue g" pid d] h' d True same(1) show ?thesis
      by (auto split: if_splits)
  next
    case False
    with apq.register_frame [OF ok1 reg d(1)] d(2) same(1) show ?thesis by simp
  qed
qed


text \<open>What a reply can do to a channel: only a channel pending under that prompt changes, and
  only to the answer given.\<close>

definition reply_effect :: "string \<Rightarrow> bool \<Rightarrow> bool prompt_heap \<Rightarrow> bool prompt_heap \<Rightarrow> bool" where
  "reply_effect pid b h h' \<longleftrightarrow> heap_ok h' \<and> chans_stable h h' \<and>
     (\<forall>c. ph_chans h' c \<noteq> ph_chans h c \<longrightarrow>
        ph_chans h' c = Some (Delivered b) \<and> (\<exists>q. ph_queues h q pid = Some c)) \<and>
     (\<forall>q p c. ph_queues h' q p = Some c \<longrightarrow> ph_queues h q p = Some c)"

lemma queue_resolve_effect:
  assumes "heap_ok h" and "ApprovalQueue_resolve q pid b h = (r, h')"
  shows "reply_effect pid b h h'"
proof (cases "ph_queues h q pid")
  case None
  with apq.resolve_miss [OF None assms(2)] assms(1) show ?thesis by (simp add: reply_effect_def)
next
  case (Some c)
  note hit = apq.resolve_hit [OF assms(1) Some assms(2)]
  have "ph_chans h' c = Some (Delivered b)" if "ph_chans h' c \<noteq> ph_chans h c"
    using hit that heap_ok_pending [OF assms(1) Some] apq.resolve_ok [OF assms]
    by (auto simp: chans_stable_def)
  then have "ph_chans h' d = Some (Delivered b) \<and> (\<exists>q. ph_queues h q pid = Some d)"
    if "ph_chans h' d \<noteq> ph_chans h d" for d
    using that hit Some by (cases "d = c") auto
  then show ?thesis
    using hit apq.resolve_ok [OF assms] by (auto simp: reply_effect_def split: if_splits)
qed

lemma registry_resolve_effect:
  assumes "heap_ok h" and "ApprovalQueueRegistry_resolve pid b h = (r, h')"
  shows "reply_effect pid b h h'"
proof (cases "ph_registry h pid")
  case None
  with assms show ?thesis
    by (auto simp: ApprovalQueueRegistry_resolve_def reply_effect_def chans_stable_def)
next
  case (Some q)
  let ?h = "h\<lparr>ph_registry := (ph_registry h)(pid := None)\<rparr>"
  have "ApprovalQueue_resolve q pid b ?h = (r, h')"
    using Some assms(2) by (simp add: ApprovalQueueRegistry_resolve_def)
  from queue_resolve_effect [OF _ this] assms(1) show ?thesis
    by (simp add: reply_effect_def chans_stable_def)
qed

lemma aw_inv_reply:
  assumes inv: "aw_inv w" and eff: "reply_effect pid b (aw_heap w) h'"
  shows "aw_inv (w\<lparr>aw_heap := h', aw_replies := (pid, b) # aw_replies w\<rparr>)"
proof -
  have alloc: "ph_chans h' c \<noteq> None" if "ph_chans (aw_heap w) c \<noteq> None" for c
    using that eff by (auto simp: reply_effect_def chans_stable_def)
  have ans: "(p, b') \<in> set ((pid, b) # aw_replies w)"
    if n: "(g, req, p, c) \<in> set (aw_notified w)" and d: "ph_chans h' c = Some (Delivered b')"
    for g req p c b'
  proof (cases "ph_chans h' c = ph_chans (aw_heap w) c")
    case True
    with n d inv show ?thesis by (auto simp: aw_inv_def)
  next
    case False
    with eff d obtain q where "b' = b" "ph_queues (aw_heap w) q pid = Some c"
      unfolding reply_effect_def by (metis oneshot.inject option.inject)
    with inv n have "p = pid" unfolding aw_inv_def by blast
    with \<open>b' = b\<close> show ?thesis by simp
  qed
  have keep: "ph_chans h' c = Some (Delivered True)"
    if "ph_chans (aw_heap w) c = Some (Delivered True)" for c
    using that eff by (auto simp: reply_effect_def chans_stable_def)
  show ?thesis
    using inv eff alloc ans keep unfolding aw_inv_def reply_effect_def by simp blast
qed

lemma aw_inv_begin:
  assumes inv: "aw_inv w"
  shows "aw_inv (aw_begin g req w)"
proof -
  obtain st gate h' where rb: "request_begin (aw_gates w g) req (aw_heap w) = (st, gate, h')"
    by (metis prod_cases3)
  have ok: "heap_ok (aw_heap w)" using inv by (simp add: aw_inv_def)
  show ?thesis
  proof (cases st)
    case (Decided b)
    with rb have d: "request_begin (aw_gates w g) req (aw_heap w) = (Decided b, gate, h')" by simp
    from request_begin_Decided(1-3) [OF d] have "gate = aw_gates w g" "h' = aw_heap w"
        "b = ag_auto_approve (aw_gates w g)" by auto
    with inv d show ?thesis by (auto simp: aw_inv_def aw_begin_def)
  next
    case (Awaiting pid c)
    with rb have a: "request_begin (aw_gates w g) req (aw_heap w) = (Awaiting pid c, gate, h')" by simp
    note A = request_begin_Awaiting [OF a ok]
    have fresh: "(g', r', p', c) \<notin> set (aw_notified w)" for g' r' p'
      using inv A(4) unfolding aw_inv_def by blast
    have w': "aw_begin g req w = w\<lparr>aw_gates := (aw_gates w)(g := gate), aw_heap := h',
        aw_waits := (aw_waits w)(c \<mapsto> (g, req)), aw_notified := (g, req, pid, c) # aw_notified w\<rparr>"
      by (simp add: aw_begin_def a)
    have n1: "ph_chans h' d \<noteq> None \<and> ar_interactive r' \<and>
        (\<forall>b. ph_chans h' d = Some (Delivered b) \<longrightarrow> (p', b) \<in> set (aw_replies w))"
      if "(g', r', p', d) \<in> set ((g, req, pid, c) # aw_notified w)" for g' r' p' d
    proof (cases "d = c")
      case True
      with that fresh A(1,5) show ?thesis by auto
    next
      case False
      with that have old: "(g', r', p', d) \<in> set (aw_notified w)" by auto
      from aw_inv_notified [OF inv old] A(3) A(12) [OF False] show ?thesis
        unfolding chans_stable_def by blast
    qed
    have n2: "p' = p" if "ph_queues h' q p = Some d"
        "(g', r', p', d) \<in> set ((g, req, pid, c) # aw_notified w)" for q p d g' r' p'
    proof (cases "d = c")
      case True
      have "ph_queues (aw_heap w) q p \<noteq> Some c"
        using heap_ok_pending [OF ok, of q p c] A(4) by auto
      with that(1) True A(6) have "p = pid" by (auto split: if_splits)
      with that(2) True fresh show ?thesis by auto
    next
      case False
      with that(1) A(6) have "ph_queues (aw_heap w) q p = Some d" by (auto split: if_splits)
      with that(2) False inv show ?thesis unfolding aw_inv_def by auto
    qed
    have keep: "ph_chans h' d = Some (Delivered True)"
      if "ph_chans (aw_heap w) d = Some (Delivered True)" for d
      using that A(3) by (auto simp: chans_stable_def)
    show ?thesis
      using inv A(2) n1 n2 keep unfolding aw_inv_def w'
      by (simp add: request_begin_frame(1) [OF a]) blast
  qed
qed

lemma aw_inv_finish:
  assumes inv: "aw_inv w" and wait: "aw_waits w c = Some (g, req)"
    and out: "\<And>b. out = Answered b \<Longrightarrow> ph_chans (aw_heap w) c = Some (Delivered b)"
  shows "aw_inv (aw_finish c g req out w)"
proof -
  obtain r gate where re: "request_end (aw_gates w g) req out = (r, gate)" by fastforce
  have auto: "ag_auto_approve gate = ag_auto_approve (aw_gates w g)"
    and true: "r \<Longrightarrow> out = Answered True"
    using re by (cases out; cases "out = Answered True"; auto)+
  let ?h = "oneshot_drop_receiver c (aw_heap w)"
  have same: "ph_chans ?h d = Some (Delivered v) \<longleftrightarrow> ph_chans (aw_heap w) d = Some (Delivered v)"
    "ph_chans ?h d = None \<longleftrightarrow> ph_chans (aw_heap w) d = None" "ph_queues ?h = ph_queues (aw_heap w)" for d v
    by (auto simp: oneshot_drop_receiver_def)
  obtain pid where "(g, req, pid, c) \<in> set (aw_notified w)"
    using inv wait unfolding aw_inv_def by blast
  then show ?thesis
    using inv out true heap_ok_drop_receiver [of "aw_heap w" c]
    unfolding aw_inv_def aw_finish_def re by (auto simp: same auto)
qed

lemma aw_step_inv [legion_inv]: "aw_step w w' \<Longrightarrow> aw_inv w \<Longrightarrow> aw_inv w'"
proof (induction rule: aw_step.induct)
  case (begin_request w g req)
  then show ?case by (simp add: aw_inv_begin)
next
  case (reply_queue w q pid allow)
  have "reply_effect pid allow (aw_heap w) (snd (ApprovalQueue_resolve q pid allow (aw_heap w)))"
    using reply_queue queue_resolve_effect [of "aw_heap w" q pid allow]
    by (cases "ApprovalQueue_resolve q pid allow (aw_heap w)") (simp add: aw_inv_def)
  with reply_queue show ?case unfolding aw_reply_queue_def by (rule aw_inv_reply)
next
  case (reply_registry w pid allow)
  have "reply_effect pid allow (aw_heap w) (snd (ApprovalQueueRegistry_resolve pid allow (aw_heap w)))"
    using reply_registry registry_resolve_effect [of "aw_heap w" pid allow]
    by (cases "ApprovalQueueRegistry_resolve pid allow (aw_heap w)") (simp add: aw_inv_def)
  with reply_registry show ?case unfolding aw_reply_registry_def by (rule aw_inv_reply)
qed (auto intro: aw_inv_finish)

lemma aw_reachable_inv: "aw_reachable gates w \<Longrightarrow> aw_inv w"
proof (induction rule: aw_reachable.induct)
  case start
  show ?case by (simp add: aw_inv_def aw_init_def)
qed (rule aw_step_inv)

lemma aw_step_auto_approve: "aw_step w w' \<Longrightarrow> ag_auto_approve (aw_gates w' g) = ag_auto_approve (aw_gates w g)"
proof (induction rule: aw_step.induct)
  case (begin_request w g' req)
  then show ?case
    using request_begin_frame(1) by (auto simp: aw_begin_def split: prod.splits request_state.splits)
qed (auto simp: aw_reply_queue_def aw_reply_registry_def aw_finish_def elim!: request_end.elims
    split: prod.splits)

lemma aw_reachable_auto_approve:
  "aw_reachable gates w \<Longrightarrow> ag_auto_approve (aw_gates w g) = ag_auto_approve (gates g)"
  by (induction rule: aw_reachable.induct) (auto simp: aw_init_def aw_step_auto_approve)


text \<open>Explicit denials stay: no step removes a tool from a gate's session denies.\<close>

lemma aw_step_denies: "aw_step w w' \<Longrightarrow> ag_session_denies (aw_gates w g) \<subseteq> ag_session_denies (aw_gates w' g)"
proof (induction rule: aw_step.induct)
  case (begin_request w g' req)
  then show ?case
    using request_begin_frame(2) by (auto simp: aw_begin_def split: prod.splits request_state.splits)
qed (auto simp: aw_reply_queue_def aw_reply_registry_def aw_finish_def elim!: request_end.elims
    split: prod.splits)

lemma aw_steps_denies:
  "aw_step\<^sup>*\<^sup>* w w' \<Longrightarrow> ag_session_denies (aw_gates w g) \<subseteq> ag_session_denies (aw_gates w' g)"
  by (induction rule: rtranclp_induct) (auto dest: aw_step_denies)

lemma aw_steps_auto_approve:
  "aw_step\<^sup>*\<^sup>* w w' \<Longrightarrow> ag_auto_approve (aw_gates w' g) = ag_auto_approve (aw_gates w g)"
  by (induction rule: rtranclp_induct) (auto simp: aw_step_auto_approve)

subsection \<open>Properties\<close>

text \<open>C2. The gate fails closed under every interleaving of requests, replies and timeouts: a
  request is approved only on a gate in auto-approve mode, or when it was interactive, its
  notifier was given a prompt, and a positive reply to that prompt id arrived. Unattended
  requests, timeouts, dropped channels and denials never approve.\<close>

theorem approval_fails_closed:
  assumes "aw_reachable gates w" and "(g, req, via, True) \<in> set (aw_decisions w)"
  shows "ag_auto_approve (gates g) \<or>
     ar_interactive req \<and>
     (\<exists>pid c. via = Some c \<and> (g, req, pid, c) \<in> set (aw_notified w) \<and> (pid, True) \<in> set (aw_replies w))"
proof (cases via)
  case None
  with assms aw_reachable_inv [OF assms(1)] have "ag_auto_approve (aw_gates w g)"
    unfolding aw_inv_def by blast
  with aw_reachable_auto_approve [OF assms(1)] show ?thesis by simp
next
  case (Some c)
  note inv = aw_reachable_inv [OF assms(1)]
  with assms(2) Some obtain pid where n: "(g, req, pid, c) \<in> set (aw_notified w)"
    and d: "ph_chans (aw_heap w) c = Some (Delivered True)" unfolding aw_inv_def by blast
  from aw_inv_notified(2,3) [OF inv n] n d Some show ?thesis by blast
qed

definition demo_req :: "string \<Rightarrow> ApprovalRequest" where
  "demo_req tool = \<lparr>ar_tool = tool, ar_agent_id = ''main'', ar_session_key = ''s'', ar_interactive = True\<rparr>"

definition demo_gates :: "nat \<Rightarrow> ApprovalGate" where
  "demo_gates g = with_registry (ApprovalGate_new g)"

definition demo_approved :: aworld where
  "demo_approved = (let w1 = aw_begin 0 (demo_req ''exec'') (aw_init demo_gates);
     w2 = aw_reply_registry ''prompt-0'' True w1
     in aw_finish 0 0 (demo_req ''exec'') (Answered True) w2)"

lemmas demo_defs = demo_req_def demo_gates_def aw_begin_def aw_init_def aw_reply_registry_def
  aw_finish_def request_begin_def next_prompt_id_def ApprovalQueueRegistry_register_def
  ApprovalQueueRegistry_resolve_def ApprovalQueue_register_def ApprovalQueue_resolve_def
  heap_defs empty_heap_def with_registry_def ApprovalGate_new_def

lemma prompt_id_0 [simp]: "prompt_id_of 0 = ''prompt-0''"
  by (simp add: prompt_id_of_def) code_simp

lemma demo_approved_reachable: "aw_reachable demo_gates demo_approved"
proof -
  let ?w0 = "aw_init demo_gates"
  let ?w1 = "aw_begin 0 (demo_req ''exec'') ?w0"
  let ?w2 = "aw_reply_registry ''prompt-0'' True ?w1"
  have "aw_reachable demo_gates ?w2"
    by (rule aw_reachable.step [OF aw_reachable.step [OF aw_reachable.start aw_step.begin_request]
        aw_step.reply_registry])
  moreover have "aw_waits ?w2 0 = Some (0, demo_req ''exec'')"
    and "ph_chans (aw_heap ?w2) 0 = Some (Delivered True)"
    by (simp_all add: demo_defs Let_def)
  ultimately show ?thesis
    unfolding demo_approved_def Let_def by (blast intro: aw_reachable.step aw_step.answered)
qed

theorem approval_fails_closed_witness:
  "(0, demo_req ''exec'', Some 0, True) \<in> set (aw_decisions demo_approved) \<and>
   (\<exists>pid. (0, demo_req ''exec'', pid, 0) \<in> set (aw_notified demo_approved) \<and>
     (pid, True) \<in> set (aw_replies demo_approved))"
proof -
  have d: "(0, demo_req ''exec'', Some 0, True) \<in> set (aw_decisions demo_approved)"
    by (simp add: demo_approved_def demo_defs Let_def)
  from approval_fails_closed [OF demo_approved_reachable d] d show ?thesis
    by (auto simp: demo_gates_def with_registry_def ApprovalGate_new_def)
qed

text \<open>An explicit denial is remembered for the life of the gate: once a denied reply to a
  prompt for a tool has been taken up, every later request for that tool on the same gate, however
  many steps of other requests and replies lie between, is refused at once, without a new prompt,
  unless the gate is in auto-approve mode.\<close>

theorem denied_tool_never_prompts_again:
  assumes "aw_waits w c = Some (g, req)" and "\<not> ag_auto_approve (aw_gates w g)"
    and "aw_step\<^sup>*\<^sup>* (aw_finish c g req (Answered False) w) w'" and "ar_tool req' = ar_tool req"
  shows "aw_begin g req' w' = w'\<lparr>aw_decisions := (g, req', None, False) # aw_decisions w'\<rparr>"
proof -
  let ?w = "aw_finish c g req (Answered False) w"
  have "ar_tool req \<in> ag_session_denies (aw_gates ?w g)" and na: "\<not> ag_auto_approve (aw_gates ?w g)"
    using assms(2) by (auto simp: aw_finish_def)
  then have "ar_tool req' \<in> ag_session_denies (aw_gates w' g)"
    using aw_steps_denies [OF assms(3), of g] assms(4) by auto
  moreover have "\<not> ag_auto_approve (aw_gates w' g)"
    using aw_steps_auto_approve [OF assms(3)] na by simp
  ultimately have "request_begin (aw_gates w' g) req' (aw_heap w') = (Decided False, aw_gates w' g, aw_heap w')"
    by (simp add: request_begin_def)
  then show ?thesis by (simp add: aw_begin_def)
qed

theorem denied_tool_never_prompts_again_witness:
  "let w = aw_begin 0 (demo_req ''exec'') (aw_init demo_gates);
       w' = aw_finish 0 0 (demo_req ''exec'') (Answered False) w
   in aw_begin 0 (demo_req ''exec'') w' =
      w'\<lparr>aw_decisions := (0, demo_req ''exec'', None, False) # aw_decisions w'\<rparr>"
proof -
  let ?w = "aw_begin 0 (demo_req ''exec'') (aw_init demo_gates)"
  have "aw_waits ?w 0 = Some (0, demo_req ''exec'')" "\<not> ag_auto_approve (aw_gates ?w 0)"
    by (simp_all add: demo_defs Let_def)
  from denied_tool_never_prompts_again [OF this rtranclp.rtrancl_refl refl] show ?thesis
    by (simp add: Let_def)
qed

text \<open>Prompt ids are not unique across gates that share the registry. Every gate numbers
  its prompts from zero, so when two fresh gates with different queues each ask for approval, both
  prompts are called \<open>prompt-0\<close>; a reply to that id, given for the first prompt, is delivered to the
  second gate's request, and the first request keeps waiting.\<close>

theorem registry_reply_misrouted:
  assumes "ag_queue ga \<noteq> ag_queue gb" and "ag_counter ga = ag_counter gb"
    and "ag_registry ga" and "ag_registry gb" and "heap_ok h"
    and "request_begin ga reqa h = (Awaiting pida ca, ga', h1)"
    and "request_begin gb reqb h1 = (Awaiting pidb cb, gb', h2)"
    and "ApprovalQueueRegistry_resolve pida allow h2 = (r, h3)"
  shows "pida = pidb \<and> ph_chans h3 cb = Some (Delivered allow) \<and> ph_chans h3 ca = Some Waiting"
proof -
  note A = request_begin_Awaiting [OF assms(6,5)]
  note B = request_begin_Awaiting [OF assms(7) A(2)]
  have pid: "pida = pidb" using A(9) B(9) assms(2) by simp
  have ra: "ApprovalQueue_register (ag_queue ga) pida
      (ApprovalQueueRegistry_register pida (ag_queue ga) h) = (ca, h1)"
    using assms(3,6) by (auto simp: request_begin_def next_prompt_id_def Let_def split: if_splits prod.splits)
  have rb: "ApprovalQueue_register (ag_queue gb) pida
      (ApprovalQueueRegistry_register pida (ag_queue gb) h1) = (cb, h2)"
    using assms(4,7) pid by (auto simp: request_begin_def next_prompt_id_def Let_def split: if_splits prod.splits)
  from apq.reg_reply_goes_to_last [OF assms(5,1) ra rb assms(8)] pid show ?thesis by blast
qed

theorem registry_reply_misrouted_witness:
  "let (_, ga, h1) = request_begin (demo_gates 1) (demo_req ''read'') empty_heap;
       (_, gb, h2) = request_begin (demo_gates 2) (demo_req ''exec'') h1;
       (_, h3) = ApprovalQueueRegistry_resolve ''prompt-0'' True h2
   in ph_chans h3 1 = Some (Delivered True) \<and> ph_chans h3 0 = Some Waiting"
proof -
  obtain ga h1 where a: "request_begin (demo_gates 1) (demo_req ''read'') empty_heap =
      (Awaiting ''prompt-0'' 0, ga, h1)"
    by (simp add: demo_defs Let_def)
  moreover from a have next1: "ph_next h1 = 1" by (auto simp: demo_defs Let_def)
  obtain gb h2 where b: "request_begin (demo_gates 2) (demo_req ''exec'') h1 =
      (Awaiting ''prompt-0'' 1, gb, h2)"
    using next1 by (simp add: demo_defs Let_def)
  obtain r h3 where c: "ApprovalQueueRegistry_resolve ''prompt-0'' True h2 = (r, h3)" by fastforce
  have "ag_queue (demo_gates 1) \<noteq> ag_queue (demo_gates 2)"
      "ag_counter (demo_gates 1) = ag_counter (demo_gates 2)"
      "ag_registry (demo_gates 1)" "ag_registry (demo_gates 2)"
    by (simp_all add: demo_gates_def with_registry_def ApprovalGate_new_def)
  from registry_reply_misrouted [OF this heap_ok_empty a b c] a b c show ?thesis by simp
qed

end
