(* ===== verification/Tool_Policy.thy ===== *)
theory Tool_Policy
  imports Approval_Gate Chat_Types
begin

text \<open>
  Tools, their taxonomy and their approval policy (\<^verbatim>\<open>legion-runtime/src/tools.rs\<close>,
  \<^verbatim>\<open>tool_taxonomy.rs\<close>, and the tool section of \<^verbatim>\<open>legion-core/src/config.rs\<close>). A tool is a
  record of the trait's methods; \<open>'w\<close> is the state a tool may read and change.
\<close>

subsection \<open>Taxonomy\<close>

datatype ToolKind =
    ReadKind | WriteKind | EditKind | DeleteKind | ListDir | Search | Execute | PlanKind
  | WebSearch | WebFetch | BackgroundTaskAction | WaitTasksAction | KillTaskAction | Skill
  | MemorySearch | MemoryGet | TaskKind | AskUser | ImageGen | VideoGen | Lsp | Monitor | Other

datatype ToolNamespace = Legion | Mcp string | Plugin string

record CanonicalToolMeta =
  ct_version :: "32 word"
  ct_name :: string
  ct_kind :: ToolKind
  ct_namespace :: ToolNamespace
  ct_label :: string
  ct_read_only :: bool
  ct_input :: "json option"

definition CanonicalToolMeta_new ::
  "string \<Rightarrow> ToolKind \<Rightarrow> ToolNamespace \<Rightarrow> string \<Rightarrow> bool \<Rightarrow> json option \<Rightarrow> CanonicalToolMeta" where
  "CanonicalToolMeta_new name kind namespace label read_only input =
     \<lparr>ct_version = 1, ct_name = name, ct_kind = kind, ct_namespace = namespace, ct_label = label,
      ct_read_only = read_only, ct_input = input\<rparr>"

subsection \<open>Policies\<close>

datatype Approval = Off | Prompt_level | Required

definition Approval_from_str :: "string \<Rightarrow> (string, Approval) result" where
  "Approval_from_str s =
     (if s = ''off'' then Inr Off
      else if s = ''prompt'' then Inr Prompt_level
      else if s = ''required'' then Inr Required
      else Inl (''unknown approval level: '' @ s))"

fun PermissionMode_from_approval :: "Approval \<Rightarrow> PermissionMode" where
  "PermissionMode_from_approval Off = BypassPermissions"
| "PermissionMode_from_approval Prompt_level = Default"
| "PermissionMode_from_approval Required = Default"

text \<open>The fields of the tool configuration that the policy reads.\<close>

record ToolConfig =
  tcfg_approval :: "string option"
  tcfg_permission_mode :: "string option"
  tcfg_allow_from :: "string list"
  tcfg_workspace_only :: "bool option"

definition default_ToolConfig :: ToolConfig where
  "default_ToolConfig = \<lparr>tcfg_approval = None, tcfg_permission_mode = None, tcfg_allow_from = [],
     tcfg_workspace_only = None\<rparr>"

record Policy =
  po_approval :: Approval
  po_permission_mode :: "PermissionMode option"
  po_allow_from :: "string list"
  po_workspace_only :: bool

fun result_ok :: "('e, 'a) result \<Rightarrow> 'a option" where
  "result_ok (Inr a) = Some a"
| "result_ok (Inl e) = None"

definition from_config_with_workspace_default ::
  "ToolConfig option \<Rightarrow> Approval \<Rightarrow> bool \<Rightarrow> Policy" where
  "from_config_with_workspace_default cfg default_approval default_workspace_only =
     (let config = unwrap_or cfg default_ToolConfig
      in \<lparr>po_approval = unwrap_or (Option.bind (tcfg_approval config)
            (\<lambda>s. result_ok (Approval_from_str s))) default_approval,
          po_permission_mode = Option.bind (tcfg_permission_mode config)
            (\<lambda>s. result_ok (PermissionMode_from_str s)),
          po_allow_from = tcfg_allow_from config,
          po_workspace_only = unwrap_or (tcfg_workspace_only config) default_workspace_only\<rparr>)"

definition from_config :: "ToolConfig option \<Rightarrow> Approval \<Rightarrow> Policy" where
  "from_config config default_approval = from_config_with_workspace_default config default_approval False"

definition effective_permission_mode :: "Policy \<Rightarrow> PermissionMode" where
  "effective_permission_mode policy =
     unwrap_or (po_permission_mode policy) (PermissionMode_from_approval (po_approval policy))"

definition sender_allowed :: "Policy \<Rightarrow> string option \<Rightarrow> bool" where
  "sender_allowed policy sender =
     (case sender of
        Some s \<Rightarrow> list_ex (\<lambda>allowed. eq_ignore_ascii_case allowed s) (po_allow_from policy)
      | None \<Rightarrow> list_ex (\<lambda>allowed. eq_ignore_ascii_case allowed ''local'') (po_allow_from policy))"

text \<open>The message of a refusal prints the sender with \<open>Debug\<close>; how that escapes the text is
  the formatter's, so it is a parameter.\<close>

definition check_policy ::
  "(string option \<Rightarrow> string) \<Rightarrow> Policy \<Rightarrow> string option \<Rightarrow> (string, unit) result" where
  "check_policy debug policy sender =
     (if sender_allowed policy sender then Inr ()
      else case po_approval policy of
             Off \<Rightarrow> Inr ()
           | _ \<Rightarrow> Inl (''tool requires approval; sender '' @ quoted (debug sender) @
                  '' is not in allow_from list''))"

subsection \<open>Tools\<close>

text \<open>The context a tool executes in. Shared objects (gates, stores, trackers, spawners) live in
  the state; the context says which of them the tool may reach, by handle.\<close>

record ToolContext =
  tx_workspace :: string
  tx_session_id :: string
  tx_agent_id :: string
  tx_sender :: "string option"
  tx_memory :: "nat option"
  tx_viewed_files :: "nat option"
  tx_allowed_tools :: "string list option"
  tx_spawner :: "nat option"
  tx_messenger :: "nat option"
  tx_swarm :: "nat option"
  tx_depth :: "8 word"
  tx_parent_history :: "ChatMessage list option"
  tx_question_gate :: "nat option"
  tx_todo_store :: "nat option"
  tx_background_tasks :: "nat option"
  tx_plan_mode_tracker :: "nat option"

record 'w tool =
  t_name :: string
  t_description :: string
  t_schema :: json
  t_policy :: Policy
  t_is_read_only :: "json \<Rightarrow> bool"
  t_kind :: ToolKind
  t_namespace :: ToolNamespace
  t_is_destructive :: "json \<Rightarrow> bool"
  t_is_concurrency_safe :: "json \<Rightarrow> bool"
  t_validate_input :: "json \<Rightarrow> (ToolError, unit) result"
  t_execute :: "json \<Rightarrow> ToolContext \<Rightarrow> 'w \<Rightarrow> (ToolError, ToolResult) result \<times> 'w"

text \<open>The trait's default methods.\<close>

definition tool_defaults ::
  "string \<Rightarrow> string \<Rightarrow> json \<Rightarrow> Policy \<Rightarrow>
   (json \<Rightarrow> ToolContext \<Rightarrow> 'w \<Rightarrow> (ToolError, ToolResult) result \<times> 'w) \<Rightarrow> 'w tool" where
  "tool_defaults name description schema policy execute =
     \<lparr>t_name = name, t_description = description, t_schema = schema, t_policy = policy,
      t_is_read_only = (\<lambda>_. False), t_kind = Other, t_namespace = Legion,
      t_is_destructive = (\<lambda>_. False), t_is_concurrency_safe = (\<lambda>_. False),
      t_validate_input = (\<lambda>_. Inr ()), t_execute = execute\<rparr>"

definition canonical_meta :: "'w tool \<Rightarrow> json \<Rightarrow> CanonicalToolMeta" where
  "canonical_meta tool input = CanonicalToolMeta_new (t_name tool) (t_kind tool) (t_namespace tool)
     (t_name tool) (t_is_read_only tool input) (Some input)"

definition tool_definition :: "'w tool \<Rightarrow> ToolDefinition" where
  "tool_definition tool = \<lparr>td_name = t_name tool, td_description = t_description tool,
     td_parameters = t_schema tool\<rparr>"

text \<open>A registry's \<open>get\<close>.\<close>

type_synonym 'w registry = "string \<Rightarrow> 'w tool option"

subsection \<open>Permissions\<close>

datatype Permission = Allow | Prompt string | Deny string

fun is_allowed :: "Permission \<Rightarrow> bool" where
  "is_allowed Allow = True"
| "is_allowed _ = False"

definition edit_tools :: "string list" where
  "edit_tools = [''write'', ''edit'', ''apply_patch'']"

fun apply_permission_mode :: "PermissionMode \<Rightarrow> Permission \<Rightarrow> 'w tool \<Rightarrow> json \<Rightarrow> Permission" where
  "apply_permission_mode mode Allow tool input = Allow"
| "apply_permission_mode mode (Deny reason) tool input = Deny reason"
| "apply_permission_mode mode (Prompt message) tool input =
     (case mode of
        Default \<Rightarrow> Prompt message
      | BypassPermissions \<Rightarrow> Allow
      | DontAsk \<Rightarrow> Deny (''tool '' @ quoted (t_name tool) @
          '' requires approval but permission mode is dontAsk'')
      | AcceptEdits \<Rightarrow> if t_name tool \<in> set edit_tools then Allow else Prompt message
      | _ \<Rightarrow> if t_is_read_only tool input then Allow else Prompt message)"

definition build_policy_decider ::
  "(string option \<Rightarrow> string) \<Rightarrow> 'w registry \<Rightarrow> string \<Rightarrow> json \<Rightarrow> string option \<Rightarrow> Permission" where
  "build_policy_decider debug registry name input sender =
     (case registry name of
        Some tool \<Rightarrow>
          let policy = t_policy tool
          in (case check_policy debug policy sender of
                Inr _ \<Rightarrow> Allow
              | Inl _ \<Rightarrow> apply_permission_mode (effective_permission_mode policy)
                  (Prompt (''tool '' @ quoted name @ '' requires approval'')) tool input)
      | None \<Rightarrow> Deny (''tool '' @ quoted name @ '' not found''))"

subsection \<open>Facts\<close>

text \<open>When a mode turns a prompt into an approval.\<close>

definition mode_grants :: "PermissionMode \<Rightarrow> 'w tool \<Rightarrow> json \<Rightarrow> bool" where
  "mode_grants mode tool input \<longleftrightarrow> mode = BypassPermissions \<or>
     (mode = AcceptEdits \<and> t_name tool \<in> set edit_tools) \<or>
     (mode \<in> {Auto, Plan} \<and> t_is_read_only tool input)"

lemma apply_mode_Allow:
  "apply_permission_mode mode perm tool input = Allow \<longleftrightarrow>
     perm = Allow \<or> ((\<exists>m. perm = Prompt m) \<and> mode_grants mode tool input)"
  by (cases perm; cases mode) (auto simp: mode_grants_def)

lemma apply_mode_Deny_keep: "perm = Deny r \<Longrightarrow> apply_permission_mode mode perm tool input = Deny r"
  by simp

lemma apply_mode_Prompt:
  "apply_permission_mode mode perm tool input = Prompt m \<longleftrightarrow>
     perm = Prompt m \<and> \<not> mode_grants mode tool input \<and> mode \<noteq> DontAsk"
  by (cases perm; cases mode) (auto simp: mode_grants_def)

declare apply_permission_mode.simps(3) [simp del]

lemma check_policy_ok:
  "check_policy debug policy sender = Inr () \<longleftrightarrow> sender_allowed policy sender \<or> po_approval policy = Off"
  by (auto simp: check_policy_def split: Approval.splits)

lemma check_policy_cases:
  "(case check_policy debug policy sender of Inr _ \<Rightarrow> a | Inl _ \<Rightarrow> b) =
     (if sender_allowed policy sender \<or> po_approval policy = Off then a else b)"
  by (auto simp: check_policy_def split: Approval.splits)

lemma decider_cases:
  "build_policy_decider debug registry name input sender =
     (case registry name of
        None \<Rightarrow> Deny (''tool '' @ quoted name @ '' not found'')
      | Some tool \<Rightarrow>
          if sender_allowed (t_policy tool) sender \<or> po_approval (t_policy tool) = Off then Allow
          else apply_permission_mode (effective_permission_mode (t_policy tool))
            (Prompt (''tool '' @ quoted name @ '' requires approval'')) tool input)"
  by (simp add: build_policy_decider_def Let_def check_policy_cases split: option.splits)

subsection \<open>Properties\<close>

text \<open>What the policy decider lets through without asking anyone: exactly the calls to a known
  tool whose sender is on its allow list (compared without case, a missing sender counting as
  \<open>local\<close>), whose approval level is off, or whose effective permission mode grants it: bypass,
  accept-edits for the three editing tools, auto or plan for an invocation the tool declares
  read-only.\<close>

theorem policy_decider_allows:
  "build_policy_decider debug registry name input sender = Allow \<longleftrightarrow>
     (\<exists>tool. registry name = Some tool \<and>
        (sender_allowed (t_policy tool) sender \<or> po_approval (t_policy tool) = Off \<or>
         mode_grants (effective_permission_mode (t_policy tool)) tool input))"
  by (auto simp: decider_cases apply_mode_Allow split: option.splits)

text \<open>A configured permission mode does not take precedence over an approval level of off: for
  a tool that is off by default, a configuration that asks for prompting or for denial
  (\<open>permissionMode\<close> set to \<open>default\<close> or \<open>dontAsk\<close>, no \<open>approval\<close>) is parsed and stored
  as the effective mode, and every call is allowed all the same.\<close>

theorem permission_mode_ignored_when_off:
  assumes "t_policy tool = from_config (Some (default_ToolConfig\<lparr>tcfg_permission_mode := Some mode\<rparr>)) Off"
    and "mode \<in> {''default'', ''dontAsk''}" and "registry name = Some tool"
  shows "effective_permission_mode (t_policy tool) \<in> {Default, DontAsk} \<and>
     build_policy_decider debug registry name input sender = Allow"
  using assms
  by (auto simp: decider_cases from_config_def from_config_with_workspace_default_def
      default_ToolConfig_def effective_permission_mode_def PermissionMode_from_str_def)

definition demo_off_tool :: "unit tool" where
  "demo_off_tool = tool_defaults ''exec'' [] JNull
      (from_config (Some (default_ToolConfig\<lparr>tcfg_permission_mode := Some ''dontAsk''\<rparr>)) Off)
      (\<lambda>_ _ w. (Inr (ToolResult_ok []), w))"

theorem permission_mode_ignored_when_off_witness:
  "build_policy_decider (\<lambda>_. ''x'') [''exec'' \<mapsto> demo_off_tool] ''exec'' JNull (Some ''tg:1'') = Allow"
proof -
  have "t_policy demo_off_tool =
      from_config (Some (default_ToolConfig\<lparr>tcfg_permission_mode := Some ''dontAsk''\<rparr>)) Off"
    by (simp add: demo_off_tool_def tool_defaults_def)
  from permission_mode_ignored_when_off [OF this, of "[''exec'' \<mapsto> demo_off_tool]" "''exec''"
      "\<lambda>_. ''x''" JNull "Some ''tg:1''"]
  show ?thesis by simp
qed

end
