(* ===== verification/File_Store.thy ===== *)
theory File_Store
  imports Legion_Prelude
begin

text \<open>
  The file system the sessions are persisted in, as far as the sources use it, and the
  crash-safe write of \<^verbatim>\<open>legion-core/src/fs.rs\<close>. A path is its list of components and the
  state maps the paths of existing files to their contents. Every call may fail: \<open>faults\<close>
  gives the error of a failing call and, for a write, how much of the text reached the file
  (\<open>None\<close>: the file was not even created). Symbolic links and permissions are not modelled.
\<close>

subsection \<open>Calls\<close>

type_synonym path = "path_component list"
type_synonym files = "path \<rightharpoonup> string"

datatype io_error = InvalidInput string | InvalidData string | OsError string

datatype fs_call = Fs_write path | Fs_rename path path | Fs_remove path | Fs_read path | Fs_mkdirs path

type_synonym faults = "fs_call \<Rightarrow> (string \<times> nat option) option"

definition partial_write :: "path \<Rightarrow> string \<Rightarrow> nat option \<Rightarrow> files \<Rightarrow> files" where
  "partial_write p bytes k fs = (case k of None \<Rightarrow> fs | Some n \<Rightarrow> fs(p \<mapsto> take n bytes))"

definition fs_write :: "faults \<Rightarrow> path \<Rightarrow> string \<Rightarrow> files \<Rightarrow> (io_error, unit) result \<times> files" where
  "fs_write faults p bytes fs =
     (case faults (Fs_write p) of
        Some (e, k) \<Rightarrow> (Inl (OsError e), partial_write p bytes k fs)
      | None \<Rightarrow> (Inr (), fs(p \<mapsto> bytes)))"

definition fs_rename :: "faults \<Rightarrow> path \<Rightarrow> path \<Rightarrow> files \<Rightarrow> (io_error, unit) result \<times> files" where
  "fs_rename faults p q fs =
     (case faults (Fs_rename p q) of
        Some (e, _) \<Rightarrow> (Inl (OsError e), fs)
      | None \<Rightarrow>
          (case fs p of
             None \<Rightarrow> (Inl (OsError ''not found''), fs)
           | Some c \<Rightarrow> (Inr (), (fs(p := None))(q \<mapsto> c))))"

definition fs_remove :: "faults \<Rightarrow> path \<Rightarrow> files \<Rightarrow> files" where
  "fs_remove faults p fs = (case faults (Fs_remove p) of Some _ \<Rightarrow> fs | None \<Rightarrow> fs(p := None))"

definition fs_read :: "faults \<Rightarrow> path \<Rightarrow> files \<Rightarrow> (io_error, string) result" where
  "fs_read faults p fs =
     (case faults (Fs_read p) of
        Some (e, _) \<Rightarrow> Inl (OsError e)
      | None \<Rightarrow> (case fs p of Some c \<Rightarrow> Inr c | None \<Rightarrow> Inl (OsError ''not found'')))"

definition fs_create_dir_all :: "faults \<Rightarrow> path \<Rightarrow> (io_error, unit) result" where
  "fs_create_dir_all faults p =
     (case faults (Fs_mkdirs p) of Some (e, _) \<Rightarrow> Inl (OsError e) | None \<Rightarrow> Inr ())"

definition fs_exists :: "path \<Rightarrow> files \<Rightarrow> bool" where
  "fs_exists p fs \<longleftrightarrow> fs p \<noteq> None"

subsection \<open>Crash-safe writes\<close>

text \<open>The temporary name beside the target. \<open>stamp\<close> is the process id and the clock.\<close>

definition tmp_suffix :: "nat \<times> nat \<Rightarrow> string" where
  "tmp_suffix stamp = ''.tmp-'' @ show_nat (fst stamp) @ ''-'' @ show_nat (snd stamp)"

definition tmp_path_for :: "nat \<times> nat \<Rightarrow> path \<Rightarrow> path" where
  "tmp_path_for stamp path =
     (case rev path of
        Normal file_name # dir \<Rightarrow> rev dir @ [Normal (file_name @ tmp_suffix stamp)]
      | _ \<Rightarrow> path @ [Normal (''store'' @ tmp_suffix stamp)])"

definition atomic_write ::
  "faults \<Rightarrow> nat \<times> nat \<Rightarrow> path \<Rightarrow> string \<Rightarrow> files \<Rightarrow> (io_error, unit) result \<times> files" where
  "atomic_write faults stamp path bytes fs =
     (let tmp = tmp_path_for stamp path
      in case fs_write faults tmp bytes fs of
           (Inl err, fs1) \<Rightarrow> (Inl err, fs_remove faults tmp fs1)
         | (Inr _, fs1) \<Rightarrow>
             (case fs_rename faults tmp path fs1 of
                (Inl err, fs2) \<Rightarrow> (Inl err, fs_remove faults tmp fs2)
              | (Inr _, fs2) \<Rightarrow> (Inr (), fs2)))"

text \<open>The states a crash of the process can leave behind: before, anywhere inside, and after each of the calls.
  The source does not call \<^verbatim>\<open>fsync\<close>; what a loss of power leaves is not modelled.\<close>

definition atomic_write_states ::
  "faults \<Rightarrow> nat \<times> nat \<Rightarrow> path \<Rightarrow> string \<Rightarrow> files \<Rightarrow> files list" where
  "atomic_write_states faults stamp path bytes fs =
     (let tmp = tmp_path_for stamp path; fs1 = snd (fs_write faults tmp bytes fs)
      in fs # map (\<lambda>k. fs(tmp \<mapsto> take k bytes)) [0..<Suc (length bytes)] @
         [fs1, snd (atomic_write faults stamp path bytes fs)])"

subsection \<open>Facts\<close>

lemma tmp_path_for_neq [simp]: "tmp_path_for stamp path \<noteq> path" "path \<noteq> tmp_path_for stamp path"
proof -
  show "tmp_path_for stamp path \<noteq> path"
  proof (cases "rev path")
    case (Cons c dir)
    then have "path = rev dir @ [c]" by (metis rev.simps(2) rev_rev_ident)
    with Cons show ?thesis by (auto simp: tmp_path_for_def tmp_suffix_def split: path_component.splits)
  qed (simp add: tmp_path_for_def)
  then show "path \<noteq> tmp_path_for stamp path" by simp
qed

lemma atomic_write_ok:
  assumes "atomic_write faults stamp path bytes fs = (Inr u, fs')"
  shows "fs' = (fs(tmp_path_for stamp path := None))(path \<mapsto> bytes)"
  using assms
  by (auto simp: atomic_write_def fs_write_def fs_rename_def Let_def fun_upd_twist
      split: prod.splits sum.splits option.splits)

lemma atomic_write_err:
  assumes "atomic_write faults stamp path bytes fs = (Inl e, fs')"
  shows "\<forall>q. q \<noteq> tmp_path_for stamp path \<longrightarrow> fs' q = fs q"
  using assms
  by (auto simp: atomic_write_def fs_write_def fs_rename_def fs_remove_def partial_write_def Let_def
      split: prod.splits sum.splits option.splits)

lemma atomic_write_read:
  assumes "atomic_write faults stamp path bytes fs = (Inr u, fs')" and "faults' (Fs_read path) = None"
  shows "fs_exists path fs' \<and> fs_read faults' path fs' = Inr bytes"
  using atomic_write_ok [OF assms(1)] assms(2) by (simp add: fs_exists_def fs_read_def)

lemma partial_write_state:
  assumes "k \<le> length bytes"
  shows "fs(tmp_path_for stamp path \<mapsto> take k bytes) \<in> set (atomic_write_states faults stamp path bytes fs)"
proof -
  have "fs(tmp_path_for stamp path \<mapsto> take k bytes) \<in>
      (\<lambda>k. fs(tmp_path_for stamp path \<mapsto> take k bytes)) ` {0..<Suc (length bytes)}"
    using assms by (intro imageI) auto
  then show ?thesis unfolding atomic_write_states_def Let_def set_simps set_append set_map set_upt by blast
qed

subsection \<open>Properties\<close>

text \<open>C19. The crash-safe write never leaves a truncated target: in every state a crash can leave
  behind, whichever of its calls fail, the target holds either exactly what it held before or
  the whole new text, and no other file but the temporary one has changed; when the write
  reports success the target holds the new text and the temporary file is gone, and when it
  reports an error the target is untouched.\<close>

theorem atomic_write_crash_safe:
  "(\<forall>fs'\<in>set (atomic_write_states faults stamp path bytes fs).
      (fs' path = fs path \<or> fs' path = Some bytes) \<and>
      (\<forall>q. q \<noteq> path \<and> q \<noteq> tmp_path_for stamp path \<longrightarrow> fs' q = fs q)) \<and>
   (case atomic_write faults stamp path bytes fs of
      (Inr _, fs') \<Rightarrow> fs' path = Some bytes \<and> fs' (tmp_path_for stamp path) = None
    | (Inl _, fs') \<Rightarrow> fs' path = fs path)"
proof
  let ?tmp = "tmp_path_for stamp path"
  let ?ok = "\<lambda>fs'. (fs' path = fs path \<or> fs' path = Some bytes) \<and> (\<forall>q. q \<noteq> path \<and> q \<noteq> ?tmp \<longrightarrow> fs' q = fs q)"
  obtain r fs' where aw: "atomic_write faults stamp path bytes fs = (r, fs')" by fastforce
  have "?ok fs'"
    using atomic_write_ok [of faults stamp path bytes fs _ fs'] atomic_write_err [of faults stamp path bytes fs _ fs'] aw
    by (cases r) auto
  moreover have "?ok (snd (fs_write faults ?tmp bytes fs))"
    by (auto simp: fs_write_def partial_write_def split: option.splits)
  ultimately show "\<forall>fs'\<in>set (atomic_write_states faults stamp path bytes fs). ?ok fs'"
    using aw by (auto simp: atomic_write_states_def Let_def)
  show "case atomic_write faults stamp path bytes fs of
      (Inr _, fs') \<Rightarrow> fs' path = Some bytes \<and> fs' ?tmp = None
    | (Inl _, fs') \<Rightarrow> fs' path = fs path"
    using atomic_write_ok [of faults stamp path bytes fs _ fs'] atomic_write_err [of faults stamp path bytes fs _ fs'] aw
    by (cases r) auto
qed

theorem atomic_write_crash_safe_witness:
  "let fs = [[RootDir, Normal ''t.json''] \<mapsto> ''old'']
   in (fs([RootDir, Normal ''t.json.tmp-7-1''] \<mapsto> ''ne'')) [RootDir, Normal ''t.json''] = Some ''old'' \<and>
      fst (atomic_write (\<lambda>_. None) (7, 1) [RootDir, Normal ''t.json''] ''new'' fs) = Inr ()"
proof -
  let ?p = "[RootDir, Normal ''t.json'']" and ?t = "[RootDir, Normal ''t.json.tmp-7-1'']"
  let ?fs = "[?p \<mapsto> ''old'']"
  have suf: "tmp_suffix (7, 1) = ''.tmp-7-1''" by code_simp
  then have tmp: "tmp_path_for (7, 1) ?p = ?t" by (simp add: tmp_path_for_def)
  have mem: "?fs(?t \<mapsto> ''ne'') \<in> set (atomic_write_states (\<lambda>_. None) (7, 1) ?p ''new'' ?fs)"
    using partial_write_state [of 2 "''new''" ?fs "(7, 1)" ?p "\<lambda>_. None"] unfolding tmp by simp
  from bspec [OF conjunct1 [OF atomic_write_crash_safe] mem]
  have "(?fs(?t \<mapsto> ''ne'')) ?p = Some ''old'' \<or> (?fs(?t \<mapsto> ''ne'')) ?p = Some ''new''"
    by simp
  then show ?thesis
    by (simp add: atomic_write_def fs_write_def fs_rename_def tmp Let_def)
qed

end
