(* ===== verification/Todo.thy ===== *)
theory Todo
  imports Chat_Types File_Store
begin

text \<open>
  The session todo list: its data, the file-backed store (\<^verbatim>\<open>legion-runtime/src/todo.rs\<close>), the
  turn-end gate (\<^verbatim>\<open>todo_gate.rs\<close>) and the \<open>todo_write\<close> tool (\<^verbatim>\<open>legion-tools/src/todo.rs\<close>).
  A save is two sections, the write of the file and the update of the cache, because nothing is
  held between them. JSON text and the derived deserializers are parameters.
\<close>

subsection \<open>Data\<close>

datatype TodoStatus = TodoPending | InProgress | Completed

record TodoItem =
  ti_id :: string
  ti_content :: string
  ti_status :: TodoStatus
  ti_active_form :: string

record TodoList =
  tl_items :: "TodoItem list"

definition default_TodoList :: TodoList where
  "default_TodoList = \<lparr>tl_items = []\<rparr>"

definition todo_is_empty :: "TodoList \<Rightarrow> bool" where
  "todo_is_empty l \<longleftrightarrow> tl_items l = []"

definition completed_count :: "TodoList \<Rightarrow> nat" where
  "completed_count l = length (filter (\<lambda>t. ti_status t = Completed) (tl_items l))"

datatype TodoStoreError = TodoIo io_error | TodoJson string

fun io_error_display :: "io_error \<Rightarrow> string" where
  "io_error_display (InvalidData e) = e"
| "io_error_display (OsError e) = e"

fun TodoStoreError_display :: "TodoStoreError \<Rightarrow> string" where
  "TodoStoreError_display (TodoIo e) = ''I/O error: '' @ io_error_display e"
| "TodoStoreError_display (TodoJson e) = ''JSON error: '' @ e"

subsection \<open>The tool\<close>

text \<open>\<open>todo_write\<close> replaces the list; it reaches the store through the trait's \<open>save\<close>.\<close>

definition todo_write_execute ::
  "(TodoList \<Rightarrow> 's \<Rightarrow> (TodoStoreError, unit) result \<times> 's) \<Rightarrow> (json \<Rightarrow> (string, TodoItem list) result) \<Rightarrow>
   json \<Rightarrow> 's option \<Rightarrow> (ToolError, ToolResult) result \<times> 's option" where
  "todo_write_execute save items_from_value params store =
     (case store of
        None \<Rightarrow> (Inl (Execution ''todo store is not available''), None)
      | Some s \<Rightarrow>
          (case json_get params ''todos'' of
             None \<Rightarrow> (Inl (InvalidParams (''missing '' @ quoted ''todos'' @ '' parameter'')), Some s)
           | Some v \<Rightarrow>
               (case items_from_value v of
                  Inl e \<Rightarrow> (Inl (InvalidParams (''invalid todos: '' @ e)), Some s)
                | Inr items \<Rightarrow>
                    (case save \<lparr>tl_items = items\<rparr> s of
                       (Inl e, s') \<Rightarrow> (Inl (Execution (TodoStoreError_display e)), Some s')
                     | (Inr _, s') \<Rightarrow>
                         (Inr (ToolResult_ok (''Todo list updated: '' @ show_nat (length items) @
                            '' items, '' @ show_nat (completed_count \<lparr>tl_items = items\<rparr>) @ '' completed'')),
                          Some s')))))"

subsection \<open>The store contract\<close>

text \<open>What the \<open>TodoStore\<close> trait promises its clients: a save that succeeds is what the next load
  returns, and one that fails changes nothing a load can see.\<close>

locale todo_store =
  fixes load :: "'s \<Rightarrow> TodoList"
    and save :: "TodoList \<Rightarrow> 's \<Rightarrow> (TodoStoreError, unit) result \<times> 's"
  assumes save_ok: "save l s = (Inr u, s') \<Longrightarrow> load s' = l"
    and save_err: "save l s = (Inl e, s') \<Longrightarrow> load s' = load s"
begin

lemma saves_last:
  assumes "fold (\<lambda>l s. snd (save l s)) ls s = s'" and "\<forall>l\<in>set ls. \<forall>s. \<exists>u. fst (save l s) = Inr u"
    and "ls \<noteq> []"
  shows "load s' = last ls"
  using assms
proof (induction ls arbitrary: s rule: rev_induct)
  case (snoc l ls)
  let ?s = "fold (\<lambda>l s. snd (save l s)) ls s"
  obtain u where "fst (save l ?s) = Inr u" using snoc.prems(2) by fastforce
  then have "save l ?s = (Inr u, s')" using snoc.prems(1) by (simp add: prod_eq_iff)
  then show ?case by (simp add: save_ok)
qed simp

lemma todo_write_loads:
  assumes "todo_write_execute save items_from_value params (Some s) = (r, s')"
  shows "\<exists>s1. s' = Some s1 \<and>
     (case r of
        Inr _ \<Rightarrow> \<exists>v. json_get params ''todos'' = Some v \<and> items_from_value v = Inr (tl_items (load s1))
      | Inl _ \<Rightarrow> load s1 = load s)"
proof (cases "json_get params ''todos''")
  case (Some v)
  show ?thesis
  proof (cases "items_from_value v")
    case (Inr items)
    obtain q s1 where sv: "save \<lparr>tl_items = items\<rparr> s = (q, s1)" by fastforce
    with assms Some Inr have "s' = Some s1"
      by (auto simp: todo_write_execute_def split: sum.splits)
    with assms Some Inr sv save_ok [of "\<lparr>tl_items = items\<rparr>" s _ s1] save_err [of "\<lparr>tl_items = items\<rparr>" s _ s1]
    show ?thesis by (auto simp: todo_write_execute_def split: sum.splits)
  qed (use assms Some in \<open>auto simp: todo_write_execute_def\<close>)
qed (use assms in \<open>auto simp: todo_write_execute_def\<close>)

end

subsection \<open>The file-backed store\<close>

definition sanitize_path_component :: "string \<Rightarrow> string" where
  "sanitize_path_component input =
     map (\<lambda>c. if is_alphanumeric c \<or> c = CHR ''-'' \<or> c = CHR ''_'' then c else CHR ''-'') input"

definition todo_path_for :: "string \<Rightarrow> string \<Rightarrow> string \<Rightarrow> string" where
  "todo_path_for base agent_id session_id =
     path_join (path_join (path_join (path_join base ''agents'') (sanitize_path_component agent_id)) ''todos'')
       (sanitize_path_component session_id @ ''.json'')"

text \<open>\<open>js_sent\<close> are the lists broadcast as \<open>TodoUpdate\<close> events, when an event sink is wired.\<close>

record JsonTodoStore =
  js_path :: path
  js_cache :: "TodoList option"
  js_event_tx :: bool
  js_sent :: "TodoList list"

definition load_from_disk ::
  "faults \<Rightarrow> (string \<Rightarrow> (string, TodoList) result) \<Rightarrow> path \<Rightarrow> files \<Rightarrow> (TodoStoreError, TodoList) result" where
  "load_from_disk faults from_str path fs =
     (if \<not> fs_exists path fs then Inr default_TodoList
      else case fs_read faults path fs of
             Inl e \<Rightarrow> Inl (TodoIo e)
           | Inr content \<Rightarrow>
               if trim_str content = [] then Inr default_TodoList
               else (case from_str content of Inl e \<Rightarrow> Inl (TodoJson e) | Inr l \<Rightarrow> Inr l))"

definition todo_open_with_event_tx ::
  "faults \<Rightarrow> (string \<Rightarrow> (string, TodoList) result) \<Rightarrow> path \<Rightarrow> bool \<Rightarrow> files \<Rightarrow>
     (TodoStoreError, JsonTodoStore) result" where
  "todo_open_with_event_tx faults from_str path event_tx fs =
     (case (if path \<noteq> [] \<and> path \<noteq> [RootDir] then fs_create_dir_all faults (butlast path) else Inr ()) of
        Inl e \<Rightarrow> Inl (TodoIo e)
      | Inr _ \<Rightarrow>
          bind_result (load_from_disk faults from_str path fs) (\<lambda>initial.
            Inr \<lparr>js_path = path, js_cache = Some initial, js_event_tx = event_tx, js_sent = []\<rparr>))"

definition todo_open ::
  "faults \<Rightarrow> (string \<Rightarrow> (string, TodoList) result) \<Rightarrow> path \<Rightarrow> files \<Rightarrow> (TodoStoreError, JsonTodoStore) result" where
  "todo_open faults from_str path fs = todo_open_with_event_tx faults from_str path False fs"

definition write_atomically ::
  "faults \<Rightarrow> nat \<times> nat \<Rightarrow> (TodoList \<Rightarrow> (string, string) result) \<Rightarrow> path \<Rightarrow> TodoList \<Rightarrow> files \<Rightarrow>
     (TodoStoreError, unit) result \<times> files" where
  "write_atomically faults stamp to_vec_pretty path l fs =
     (case to_vec_pretty l of
        Inl e \<Rightarrow> (Inl (TodoJson e), fs)
      | Inr payload \<Rightarrow>
          (case atomic_write faults stamp path payload fs of
             (Inl e, fs') \<Rightarrow> (Inl (TodoIo e), fs')
           | (Inr _, fs') \<Rightarrow> (Inr (), fs')))"

definition todo_load :: "JsonTodoStore \<Rightarrow> TodoList" where
  "todo_load st = unwrap_or (js_cache st) default_TodoList"

text \<open>The second half of \<open>save\<close>, after the file has been written.\<close>

definition save_commit :: "TodoList \<Rightarrow> JsonTodoStore \<Rightarrow> JsonTodoStore" where
  "save_commit l st =
     (let st1 = st\<lparr>js_cache := Some l\<rparr>
      in if js_event_tx st1 then st1\<lparr>js_sent := js_sent st1 @ [l]\<rparr> else st1)"

definition todo_save ::
  "faults \<Rightarrow> nat \<times> nat \<Rightarrow> (TodoList \<Rightarrow> (string, string) result) \<Rightarrow> TodoList \<Rightarrow> JsonTodoStore \<times> files \<Rightarrow>
     (TodoStoreError, unit) result \<times> (JsonTodoStore \<times> files)" where
  "todo_save faults stamp to_vec_pretty l sf =
     (case write_atomically faults stamp to_vec_pretty (js_path (fst sf)) l (snd sf) of
        (Inl e, fs') \<Rightarrow> (Inl e, fst sf, fs')
      | (Inr _, fs') \<Rightarrow> (Inr (), save_commit l (fst sf), fs'))"

interpretation jts: todo_store "\<lambda>sf. todo_load (fst sf)" "todo_save faults stamp to_vec_pretty"
  for faults stamp to_vec_pretty
  by unfold_locales
    (auto simp: todo_save_def todo_load_def save_commit_def Let_def split: prod.splits sum.splits)

subsection \<open>The turn-end gate\<close>

datatype TodoGateResult = Pass | NoTodos | Incomplete "string list"

text \<open>Letter case is folded in ASCII; the source folds all of Unicode.\<close>

definition todo_gate_check :: "string list \<Rightarrow> TodoList \<Rightarrow> TodoGateResult" where
  "todo_gate_check required_patterns todos =
     (if required_patterns = [] then Pass
      else if todo_is_empty todos then NoTodos
      else
        let completed = map (\<lambda>t. to_lowercase (ti_content t))
              (filter (\<lambda>t. ti_status t = Completed) (tl_items todos));
            missing = filter (\<lambda>pattern. \<not> list_ex (\<lambda>c. contains_str c (to_lowercase pattern)) completed)
              required_patterns
        in if missing = [] then Pass else Incomplete missing)"

fun todo_gate_reminder :: "TodoGateResult \<Rightarrow> string option" where
  "todo_gate_reminder Pass = None"
| "todo_gate_reminder NoTodos = Some (''The session todo list is empty. Before finishing this turn, create todos for the '' @
     ''required steps using the todo_write tool and complete them.'')"
| "todo_gate_reminder (Incomplete missing) =
     Some (''The following required tasks are not yet marked as completed: '' @ join_with '', '' missing @
       ''. Please finish them (and update the todo list via todo_write) before ending this turn.'')"

subsection \<open>Facts\<close>

lemma sanitize_safe: "c \<in> set (sanitize_path_component s) \<Longrightarrow> c \<notin> {CHR ''/'', CHR ''.''}"
  by (auto simp: sanitize_path_component_def is_alphanumeric_def is_ascii_upper_def
      is_ascii_lower_def is_ascii_digit_def split: if_splits)

lemma sanitize_length [simp]: "length (sanitize_path_component s) = length s"
  by (simp add: sanitize_path_component_def)

lemma sanitize_plain:
  assumes "s \<noteq> []"
  shows "CHR ''/'' \<notin> set (sanitize_path_component s)" "sanitize_path_component s \<notin> {[], ''.'', ''..''}"
proof -
  show "CHR ''/'' \<notin> set (sanitize_path_component s)" using sanitize_safe by blast
  have "CHR ''.'' \<notin> set (sanitize_path_component s)" using sanitize_safe by blast
  moreover have "sanitize_path_component s \<noteq> []" using assms by (metis length_0_conv sanitize_length)
  ultimately show "sanitize_path_component s \<notin> {[], ''.'', ''..''}" by auto
qed

lemma TodoList_eta [simp]: "\<lparr>tl_items = tl_items l\<rparr> = (l :: TodoList)"
  by simp

lemma path_join_not_Nil: "p \<noteq> [] \<Longrightarrow> path_join base p \<noteq> []"
  by (simp add: path_join_def)

lemma todo_save_disk:
  assumes "todo_save faults stamp to_vec_pretty l (st, fs) = (Inr u, st', fs')"
  obtains payload where "to_vec_pretty l = Inr payload" and "fs' (js_path st) = Some payload"
    and "st' = save_commit l st"
  using assms atomic_write_ok [of faults stamp "js_path st"]
  by (fastforce simp: todo_save_def write_atomically_def split: sum.splits prod.splits)

lemma write_atomically_ok:
  assumes "write_atomically faults stamp to_vec_pretty path l fs = (Inr u, fs')"
  obtains payload where "to_vec_pretty l = Inr payload" and "fs' path = Some payload"
  using assms atomic_write_ok [of faults stamp path]
  by (fastforce simp: write_atomically_def split: sum.splits prod.splits)

subsection \<open>Properties\<close>

text \<open>A todo list that was saved is the one a restarted process reads: when \<open>todo_write\<close>
  reports success, the parsed items are what the store returns, and opening the file again
  gives a store with the same list (JSON text that was printed parses back and is not blank);
  when it reports an error, the list the store returns is unchanged.\<close>

theorem todo_write_persists:
  assumes "todo_write_execute (todo_save faults stamp to_vec_pretty) items_from_value params (Some (st, fs)) =
      (r, Some (st', fs'))"
    and "\<And>l s. to_vec_pretty l = Inr s \<Longrightarrow> trim_str s \<noteq> [] \<and> from_str s = Inr l"
    and "\<And>c. faults' c = None"
  shows "case r of
       Inr _ \<Rightarrow> (\<exists>v. json_get params ''todos'' = Some v \<and> items_from_value v = Inr (tl_items (todo_load st'))) \<and>
         (\<exists>st2. todo_open faults' from_str (js_path st) fs' = Inr st2 \<and> todo_load st2 = todo_load st')
     | Inl _ \<Rightarrow> todo_load st' = todo_load st"
proof (cases r)
  case (Inl e)
  then show ?thesis using jts.todo_write_loads [OF assms(1)] by auto
next
  case (Inr res)
  obtain v where v: "json_get params ''todos'' = Some v" "items_from_value v = Inr (tl_items (todo_load st'))"
    using jts.todo_write_loads [OF assms(1)] Inr by auto
  then have "todo_save faults stamp to_vec_pretty (todo_load st') (st, fs) = (Inr (), st', fs')"
    using assms(1) Inr by (auto simp: todo_write_execute_def split: prod.splits sum.splits)
  then obtain payload where p: "to_vec_pretty (todo_load st') = Inr payload" "fs' (js_path st) = Some payload"
    by (rule todo_save_disk)
  then have "todo_open faults' from_str (js_path st) fs' =
      Inr \<lparr>js_path = js_path st, js_cache = Some (todo_load st'), js_event_tx = False, js_sent = []\<rparr>"
    using assms(2) [OF p(1)] assms(3)
    by (simp add: todo_open_def todo_open_with_event_tx_def load_from_disk_def fs_create_dir_all_def
        fs_read_def fs_exists_def)
  with v Inr show ?thesis by (simp add: todo_load_def)
qed

definition demo_todos :: "TodoItem list" where
  "demo_todos = [\<lparr>ti_id = ''1'', ti_content = ''Run tests'', ti_status = Completed, ti_active_form = ''Running tests''\<rparr>]"

definition demo_todo_store :: JsonTodoStore where
  "demo_todo_store = \<lparr>js_path = [RootDir, Normal ''t.json''], js_cache = Some default_TodoList,
     js_event_tx = True, js_sent = []\<rparr>"

definition demo_to_vec :: "TodoList \<Rightarrow> (string, string) result" where
  "demo_to_vec l = (if l = \<lparr>tl_items = demo_todos\<rparr> then Inr ''x'' else if l = default_TodoList then Inr ''e'' else Inl ''unsupported'')"

definition demo_from_str :: "string \<Rightarrow> (string, TodoList) result" where
  "demo_from_str s = (if s = ''x'' then Inr \<lparr>tl_items = demo_todos\<rparr> else if s = ''e'' then Inr default_TodoList else Inl ''unsupported'')"

lemma demo_to_vec_from_str: "demo_to_vec l = Inr s \<Longrightarrow> trim_str s \<noteq> [] \<and> demo_from_str s = Inr l"
  by (auto simp: demo_to_vec_def demo_from_str_def default_TodoList_def demo_todos_def trim_str_Nil_iff
      is_whitespace_def split: if_splits)

theorem todo_write_persists_witness:
  "let params = JObject [(''todos'', JArray [])];
       (r, sf) = todo_write_execute (todo_save (\<lambda>_. None) (1, 1) demo_to_vec) (\<lambda>_. Inr demo_todos) params
         (Some (demo_todo_store, Map.empty))
   in r = Inr (ToolResult_ok ''Todo list updated: 1 items, 1 completed'') \<and>
      (\<exists>st fs st2. sf = Some (st, fs) \<and> todo_open (\<lambda>_. None) demo_from_str [RootDir, Normal ''t.json''] fs = Inr st2 \<and>
         todo_load st2 = \<lparr>tl_items = demo_todos\<rparr>)"
proof -
  let ?params = "JObject [(''todos'', JArray [])]"
  have one: "show_nat 1 = ''1''" by code_simp
  obtain st' fs' where run: "todo_write_execute (todo_save (\<lambda>_. None) (1, 1) demo_to_vec) (\<lambda>_. Inr demo_todos) ?params
      (Some (demo_todo_store, Map.empty)) =
      (Inr (ToolResult_ok ''Todo list updated: 1 items, 1 completed''), Some (st', fs'))"
    using one by (simp add: todo_write_execute_def todo_save_def write_atomically_def demo_to_vec_def
        atomic_write_def fs_write_def fs_rename_def completed_count_def Let_def)
      (simp add: demo_todos_def)
  have "todo_load st' = \<lparr>tl_items = demo_todos\<rparr>"
    using jts.todo_write_loads [OF run] by (cases "todo_load st'") auto
  with todo_write_persists [OF run demo_to_vec_from_str, where faults' = "\<lambda>_. None"] run
  show ?thesis by (auto simp: demo_todo_store_def Let_def)
qed

text \<open>Saves of the same store are not ordered by its mutex: two \<open>todo_write\<close> calls, which are
  declared safe to run concurrently, may write the file in one order and update the cache in
  the other. Then both report success, the process and its observers keep the first list and
  the file holds the second.\<close>

theorem todo_saves_can_diverge:
  assumes "write_atomically faults stamp1 to_vec_pretty (js_path st) l1 fs = (Inr u1, fs1)"
    and "write_atomically faults stamp2 to_vec_pretty (js_path st) l2 fs1 = (Inr u2, fs2)"
    and "\<And>l s. to_vec_pretty l = Inr s \<Longrightarrow> trim_str s \<noteq> [] \<and> from_str s = Inr l"
    and "faults' (Fs_read (js_path st)) = None"
  shows "todo_load (save_commit l1 (save_commit l2 st)) = l1 \<and>
     load_from_disk faults' from_str (js_path st) fs2 = Inr l2"
proof -
  from assms(2) obtain payload where "to_vec_pretty l2 = Inr payload" "fs2 (js_path st) = Some payload"
    by (rule write_atomically_ok)
  with assms(3) [OF this(1)] assms(4) show ?thesis
    by (simp add: load_from_disk_def fs_exists_def fs_read_def todo_load_def save_commit_def Let_def)
qed

theorem todo_saves_can_diverge_witness:
  "\<exists>fs2. snd (write_atomically (\<lambda>_. None) (1, 2) demo_to_vec (js_path demo_todo_store) default_TodoList
        (snd (write_atomically (\<lambda>_. None) (1, 1) demo_to_vec (js_path demo_todo_store) \<lparr>tl_items = demo_todos\<rparr> Map.empty))) = fs2 \<and>
     todo_load (save_commit \<lparr>tl_items = demo_todos\<rparr> (save_commit default_TodoList demo_todo_store)) = \<lparr>tl_items = demo_todos\<rparr> \<and>
     load_from_disk (\<lambda>_. None) demo_from_str (js_path demo_todo_store) fs2 = Inr default_TodoList"
proof -
  have ne: "default_TodoList \<noteq> \<lparr>tl_items = demo_todos\<rparr>" by (simp add: default_TodoList_def demo_todos_def)
  obtain fs1 where w1: "write_atomically (\<lambda>_. None) (1, 1) demo_to_vec (js_path demo_todo_store) \<lparr>tl_items = demo_todos\<rparr> Map.empty = (Inr (), fs1)"
    by (simp add: write_atomically_def demo_to_vec_def atomic_write_def fs_write_def fs_rename_def Let_def)
  obtain fs2 where w2: "write_atomically (\<lambda>_. None) (1, 2) demo_to_vec (js_path demo_todo_store) default_TodoList fs1 = (Inr (), fs2)"
    using ne by (simp add: write_atomically_def demo_to_vec_def atomic_write_def fs_write_def fs_rename_def Let_def)
  from todo_saves_can_diverge [OF w1 w2 demo_to_vec_from_str, where faults' = "\<lambda>_. None"] w1 w2
  show ?thesis by simp
qed

text \<open>The todo file of a session lies where the layout says: for any non-empty agent and session
  identifiers, whatever characters they contain, it is \<open>agents/\<close>\<^emph>\<open>agent\<close>\<open>/todos/\<close>\<^emph>\<open>session\<close>\<open>.json\<close>
  under the base directory, each identifier reduced to one plain name, so no identifier can
  reach a file elsewhere.\<close>

theorem todo_path_confined:
  assumes "base \<noteq> []" and "agent_id \<noteq> []" and "session_id \<noteq> []"
  shows "path_components (todo_path_for base agent_id session_id) =
     path_components base @ [Normal ''agents'', Normal (sanitize_path_component agent_id), Normal ''todos'',
       Normal (sanitize_path_component session_id @ ''.json'')]"
proof -
  note san = sanitize_plain [OF assms(2)] sanitize_plain [OF assms(3)]
  have fname: "CHR ''/'' \<notin> set (sanitize_path_component session_id @ ''.json'')"
    "sanitize_path_component session_id @ ''.json'' \<notin> {[], ''.'', ''..''}"
    using san(3) by (auto simp: append_eq_Cons_conv)
  show ?thesis
    using assms(1) san fname
    by (simp add: todo_path_for_def path_components_join path_join_not_Nil)
qed

theorem todo_path_confined_witness:
  "path_components (todo_path_for ''/h'' ''../../etc'' ''agent:main'') =
     [RootDir, Normal ''h'', Normal ''agents'', Normal ''------etc'', Normal ''todos'', Normal ''agent-main.json'']"
proof -
  have "sanitize_path_component ''../../etc'' = ''------etc''" "sanitize_path_component ''agent:main'' = ''agent-main''"
    "path_components ''/h'' = [RootDir, Normal ''h'']" by code_simp+
  with todo_path_confined [of "''/h''" "''../../etc''" "''agent:main''"] show ?thesis by simp
qed

text \<open>The turn-end gate passes exactly when nothing is required, or there are todos and every
  required pattern occurs, ignoring case, in a completed one; otherwise it reports all the
  patterns that do not, in their configured order, and a reminder is rendered exactly when the
  gate does not pass.\<close>

theorem todo_gate_correct:
  "(todo_gate_check patterns todos = Pass \<longleftrightarrow>
      patterns = [] \<or> (tl_items todos \<noteq> [] \<and>
        (\<forall>p\<in>set patterns. \<exists>t\<in>set (tl_items todos). ti_status t = Completed \<and>
           sublist (to_lowercase p) (to_lowercase (ti_content t))))) \<and>
   (\<forall>missing. todo_gate_check patterns todos = Incomplete missing \<longrightarrow>
      missing = filter (\<lambda>p. \<not> (\<exists>t\<in>set (tl_items todos). ti_status t = Completed \<and>
         sublist (to_lowercase p) (to_lowercase (ti_content t)))) patterns \<and> missing \<noteq> []) \<and>
   (todo_gate_reminder (todo_gate_check patterns todos) = None \<longleftrightarrow> todo_gate_check patterns todos = Pass)"
proof -
  have ex: "list_ex (\<lambda>c. contains_str c (to_lowercase p))
      (map (\<lambda>t. to_lowercase (ti_content t)) (filter (\<lambda>t. ti_status t = Completed) (tl_items todos))) \<longleftrightarrow>
    (\<exists>t\<in>set (tl_items todos). ti_status t = Completed \<and> sublist (to_lowercase p) (to_lowercase (ti_content t)))" for p
    by (auto simp: list_ex_iff contains_str_iff)
  have rem: "todo_gate_reminder g = None \<longleftrightarrow> g = Pass" for g by (cases g) auto
  show ?thesis
    unfolding rem todo_gate_check_def Let_def ex todo_is_empty_def
    by (auto simp: filter_empty_conv)
qed

theorem todo_gate_correct_witness:
  "todo_gate_check [''TEST'', ''docs''] \<lparr>tl_items = demo_todos\<rparr> = Incomplete [''docs''] \<and>
   filter (\<lambda>p. \<not> (\<exists>t\<in>set demo_todos. ti_status t = Completed \<and>
     sublist (to_lowercase p) (to_lowercase (ti_content t)))) [''TEST'', ''docs''] = [''docs'']"
proof -
  have eq: "todo_gate_check [''TEST'', ''docs''] \<lparr>tl_items = demo_todos\<rparr> = Incomplete [''docs'']" by code_simp
  with todo_gate_correct [THEN conjunct2, THEN conjunct1, rule_format, OF eq] show ?thesis by simp
qed

end
