(* ===== verification/Run_Types.thy ===== *)
theory Run_Types
  imports Tool_Policy Todo
begin

text \<open>
  The data of a run (\<^verbatim>\<open>legion-runtime/src/types.rs\<close>): its request, its errors, the events it
  emits, the boundary mark a compaction leaves in the transcript and the state it reattaches.
  The pretty printer of JSON text is a parameter.
\<close>

datatype RuntimeError =
    ProviderErr ProviderError
  | ToolErr ToolError
  | MemoryErr string
  | IoErr io_error
  | ContextErr string
  | MaxIterations nat

fun RuntimeError_display :: "RuntimeError \<Rightarrow> string" where
  "RuntimeError_display (ProviderErr e) = ''provider error: '' @ ProviderError_display e"
| "RuntimeError_display (ToolErr e) = ''tool error: '' @ ToolError_display e"
| "RuntimeError_display (MemoryErr e) = ''memory error: '' @ e"
| "RuntimeError_display (IoErr e) = ''I/O error: '' @ io_error_display e"
| "RuntimeError_display (ContextErr e) = ''context assembly failed: '' @ e"
| "RuntimeError_display (MaxIterations n) =
     ''max iterations ('' @ show_nat n @ '') exceeded without a final answer''"

datatype LifecyclePhase = Start | End | ErrorPhase

record BoundaryMark =
  bm_entry_index :: nat
  bm_timestamp_iso :: string
  bm_tokens_compacted :: nat

datatype RunEvent =
    Lifecycle LifecyclePhase "string option"
  | AssistantDelta string
  | ToolStart ToolCall
  | ToolEnd ToolCall ToolResult "CanonicalToolMeta option"
  | Compaction string "BoundaryMark option" "ChatMessage list"
  | TodoUpdate TodoList

datatype Reattachment =
    ViewedFiles "string list"
  | ActiveSkills "string list"
  | RecalledMemory "string list"
  | ToolManifest "ToolDefinition list"

definition bullet_list :: "string list \<Rightarrow> string" where
  "bullet_list items = join_with [CHR 0x0A] (map (\<lambda>f. ''- '' @ f) items)"

fun Reattachment_to_messages :: "(json \<Rightarrow> string) \<Rightarrow> Reattachment \<Rightarrow> ChatMessage list" where
  "Reattachment_to_messages pretty (ViewedFiles files) =
     [ChatMessage_system (''Files you have viewed in this session:'' @ [CHR 0x0A] @ bullet_list files)]"
| "Reattachment_to_messages pretty (ActiveSkills skills) =
     [ChatMessage_system (''Active skills for this session:'' @ [CHR 0x0A] @ bullet_list skills)]"
| "Reattachment_to_messages pretty (RecalledMemory notes) =
     [ChatMessage_system (''Recalled relevant memory:'' @ [CHR 0x0A] @ bullet_list notes)]"
| "Reattachment_to_messages pretty (ToolManifest defs) =
     [ChatMessage_system (''Available tools:'' @ [CHR 0x0A] @
        pretty (JObject [(''tools'', JArray (map (\<lambda>d. JObject
          [(''description'', JString (td_description d)), (''name'', JString (td_name d)),
           (''parameters'', td_parameters d)]) defs))]))]"

record CompactionResult =
  cr_summary :: string
  cr_messages :: "ChatMessage list"
  cr_tokens_before :: nat
  cr_tokens_after :: nat
  cr_compacted :: bool
  cr_reattachments :: "Reattachment list"
  cr_boundary :: "BoundaryMark option"

text \<open>The gates and the tracker of a request are shared objects, here by handle.\<close>

record RunRequest =
  rr_session_id :: string
  rr_agent_id :: string
  rr_user_message :: string
  rr_model_ref :: string
  rr_system_prompt :: "string option"
  rr_history :: "ChatMessage list"
  rr_interactive :: bool
  rr_sender :: "string option"
  rr_approval_gate :: "nat option"
  rr_question_gate :: "nat option"
  rr_depth :: "8 word"
  rr_allowed_tools :: "string list option"
  rr_max_iterations :: "nat option"
  rr_dump_prompts :: bool
  rr_workspace_override :: "string option"
  rr_plan_mode_tracker :: "nat option"

definition RunRequest_new :: "string \<Rightarrow> string \<Rightarrow> string \<Rightarrow> string \<Rightarrow> RunRequest" where
  "RunRequest_new session_id agent_id user_message model_ref =
     \<lparr>rr_session_id = session_id, rr_agent_id = agent_id, rr_user_message = user_message,
      rr_model_ref = model_ref, rr_system_prompt = None, rr_history = [], rr_interactive = True,
      rr_sender = None, rr_approval_gate = None, rr_question_gate = None, rr_depth = 0,
      rr_allowed_tools = None, rr_max_iterations = None, rr_dump_prompts = False,
      rr_workspace_override = None, rr_plan_mode_tracker = None\<rparr>"

lemma Reattachment_one_system:
  "length (Reattachment_to_messages pretty r) = 1 \<and> (\<forall>m\<in>set (Reattachment_to_messages pretty r). cm_role m = System)"
  by (cases r) (simp_all add: message_defs)

end
