(* ===== verification/Plan_Mode.thy ===== *)
theory Plan_Mode
  imports Chat_Types File_Store
begin

text \<open>
  Plan mode: the tracker of \<^verbatim>\<open>legion-runtime/src/plan_mode.rs\<close> (its state, its persistence
  and its path comparison) and the two tools of \<^verbatim>\<open>legion-tools/src/plan_mode.rs\<close> that toggle
  it. Canonicalization by the file system and the printer and parser of JSON text are
  parameters. The derived (de)serializer of the
  snapshot is written out.
\<close>

subsection \<open>The tracker\<close>

datatype PlanModeState = Inactive | Pending | Active | ExitPending

record PlanModeTracker =
  pm_state :: PlanModeState
  pm_session_dir :: string
  pm_plan_file_path :: string

definition PlanModeTracker_new :: "string \<Rightarrow> PlanModeTracker" where
  "PlanModeTracker_new session_dir = \<lparr>pm_state = Inactive, pm_session_dir = session_dir,
     pm_plan_file_path = path_join session_dir ''plan.md''\<rparr>"

definition activate :: "PlanModeTracker \<Rightarrow> PlanModeTracker" where
  "activate t = t\<lparr>pm_state := Active\<rparr>"

definition deactivate :: "PlanModeTracker \<Rightarrow> PlanModeTracker" where
  "deactivate t = t\<lparr>pm_state := Inactive\<rparr>"

definition finalize_exit_if_pending :: "PlanModeTracker \<Rightarrow> PlanModeTracker" where
  "finalize_exit_if_pending t = (if pm_state t = ExitPending then t\<lparr>pm_state := Inactive\<rparr> else t)"

definition is_active :: "PlanModeTracker \<Rightarrow> bool" where
  "is_active t \<longleftrightarrow> pm_state t \<in> {Active, ExitPending}"

subsection \<open>Path comparison\<close>

text \<open>\<open>PathBuf::pop\<close> keeps the root and the empty path; pushing the root starts over.\<close>

definition path_pop :: "path_component list \<Rightarrow> path_component list" where
  "path_pop out = (if out = [] \<or> last out = RootDir then out else butlast out)"

fun normalize_step :: "path_component list \<Rightarrow> path_component \<Rightarrow> path_component list" where
  "normalize_step out CurDir = out"
| "normalize_step out ParentDir = path_pop out"
| "normalize_step out RootDir = [RootDir]"
| "normalize_step out (Normal n) = out @ [Normal n]"

definition normalize_path :: "path_component list \<Rightarrow> path_component list" where
  "normalize_path path = foldl normalize_step [] path"

definition paths_equal :: "(string \<Rightarrow> string option) \<Rightarrow> string \<Rightarrow> string \<Rightarrow> bool" where
  "paths_equal canonicalize a b =
     (case (canonicalize a, canonicalize b) of
        (Some a', Some b') \<Rightarrow> path_components a' = path_components b'
      | _ \<Rightarrow> normalize_path (path_components a) = normalize_path (path_components b))"

definition should_auto_approve_edit ::
  "(string \<Rightarrow> string option) \<Rightarrow> PlanModeTracker \<Rightarrow> string \<Rightarrow> bool" where
  "should_auto_approve_edit canonicalize t path \<longleftrightarrow>
     is_active t \<and> paths_equal canonicalize path (pm_plan_file_path t)"

subsection \<open>Persistence\<close>

fun PlanModeState_str :: "PlanModeState \<Rightarrow> string" where
  "PlanModeState_str Inactive = ''inactive''"
| "PlanModeState_str Pending = ''pending''"
| "PlanModeState_str Active = ''active''"
| "PlanModeState_str ExitPending = ''exit_pending''"

definition snapshot_to_value :: "PlanModeState \<Rightarrow> json" where
  "snapshot_to_value s = JObject [(''state'', JString (PlanModeState_str s))]"

definition snapshot_from_value :: "json \<Rightarrow> PlanModeState option" where
  "snapshot_from_value v =
     (case Option.bind (json_get v ''state'') json_as_str of
        Some s \<Rightarrow>
          if s = ''inactive'' then Some Inactive
          else if s = ''pending'' then Some Pending
          else if s = ''active'' then Some Active
          else if s = ''exit_pending'' then Some ExitPending
          else None
      | None \<Rightarrow> None)"

text \<open>The parent of \<open>session_dir.join("plan_mode.json")\<close> is \<open>session_dir\<close>.\<close>

definition plan_save ::
  "faults \<Rightarrow> (json \<Rightarrow> (string, string) result) \<Rightarrow> PlanModeTracker \<Rightarrow> files \<Rightarrow>
     (io_error, unit) result \<times> files" where
  "plan_save faults to_string_pretty t fs =
     (let path = path_components (path_join (pm_session_dir t) ''plan_mode.json'')
      in case fs_create_dir_all faults (path_components (pm_session_dir t)) of
           Inl e \<Rightarrow> (Inl e, fs)
         | Inr _ \<Rightarrow>
             (case to_string_pretty (snapshot_to_value (pm_state t)) of
                Inl e \<Rightarrow> (Inl (InvalidData e), fs)
              | Inr content \<Rightarrow> fs_write faults path content fs))"

definition plan_load ::
  "faults \<Rightarrow> (string \<Rightarrow> (string, json) result) \<Rightarrow> string \<Rightarrow> files \<Rightarrow> (io_error, PlanModeTracker) result" where
  "plan_load faults from_str session_dir fs =
     (let path = path_components (path_join session_dir ''plan_mode.json'')
      in if \<not> fs_exists path fs then Inr (PlanModeTracker_new session_dir)
         else bind_result (fs_read faults path fs) (\<lambda>content.
           case from_str content of
             Inl e \<Rightarrow> Inl (InvalidData e)
           | Inr v \<Rightarrow>
               (case snapshot_from_value v of
                  None \<Rightarrow> Inl (InvalidData ''invalid plan-mode snapshot'')
                | Some st \<Rightarrow> Inr ((PlanModeTracker_new session_dir)\<lparr>pm_state := st\<rparr>))))"

subsection \<open>The plan-mode tools\<close>

definition plan_unavailable :: ToolResult where
  "plan_unavailable = ToolResult_error ''plan mode tracker is not available in this context''"

definition EnterPlanMode_execute ::
  "PlanModeTracker option \<Rightarrow> (ToolError, ToolResult) result \<times> PlanModeTracker option" where
  "EnterPlanMode_execute tracker =
     (case tracker of
        Some guard \<Rightarrow>
          let was_active = is_active guard; guard' = activate guard
          in (Inr (if was_active then ToolResult_ok ''Plan mode is already active.''
                   else ToolResult_ok (''Plan mode activated. You may write only to the plan file ('' @
                     pm_plan_file_path guard' @
                     ''). Read-only tools remain available. Use exit_plan_mode when you are ready to execute.'')),
              Some guard')
      | None \<Rightarrow> (Inr plan_unavailable, None))"

definition ExitPlanMode_execute ::
  "PlanModeTracker option \<Rightarrow> (ToolError, ToolResult) result \<times> PlanModeTracker option" where
  "ExitPlanMode_execute tracker =
     (case tracker of
        Some guard \<Rightarrow>
          if \<not> is_active guard then (Inr (ToolResult_ok ''Plan mode is not active.''), Some guard)
          else (Inr (ToolResult_ok ''Plan mode deactivated.''), Some (deactivate guard))
      | None \<Rightarrow> (Inr plan_unavailable, None))"

subsection \<open>Facts\<close>

text \<open>What the normalizer builds: names, after at most a leading root.\<close>

definition plain_path :: "path_component list \<Rightarrow> bool" where
  "plain_path p \<longleftrightarrow> (\<exists>ns. p = map Normal ns \<or> p = RootDir # map Normal ns)"

lemma plain_path_step: "plain_path out \<Longrightarrow> plain_path (normalize_step out c)"
proof (cases c)
  case ParentDir
  assume "plain_path out"
  then obtain ns where ns: "out = map Normal ns \<or> out = RootDir # map Normal ns"
    by (auto simp: plain_path_def)
  show ?thesis
  proof (cases ns rule: rev_cases)
    case Nil
    with ns ParentDir show ?thesis by (auto simp: plain_path_def path_pop_def)
  next
    case (snoc ms m)
    with ns ParentDir show ?thesis by (auto simp: plain_path_def path_pop_def butlast_append)
  qed
next
  case (Normal n)
  assume "plain_path out"
  then obtain ns where "out = map Normal ns \<or> out = RootDir # map Normal ns"
    by (auto simp: plain_path_def)
  then have "out @ [Normal n] = map Normal (ns @ [n]) \<or> out @ [Normal n] = RootDir # map Normal (ns @ [n])"
    by auto
  with Normal show ?thesis unfolding plain_path_def by (metis normalize_step.simps(4))
qed (auto simp: plain_path_def)

lemma plain_path_foldl: "plain_path out \<Longrightarrow> plain_path (foldl normalize_step out p)"
  by (induction p arbitrary: out) (auto simp: plain_path_step)

lemma plain_path_normalize: "plain_path (normalize_path p)"
  unfolding normalize_path_def by (rule plain_path_foldl) (simp add: plain_path_def)

lemma foldl_normalize_Normal: "foldl normalize_step out (map Normal ns) = out @ map Normal ns"
  by (induction ns arbitrary: out) auto

lemma normalize_plain: "plain_path p \<Longrightarrow> normalize_path p = p"
  by (auto simp: plain_path_def normalize_path_def foldl_normalize_Normal)

lemma normalize_cancel: "normalize_path (p @ [Normal x, ParentDir] @ q) = normalize_path (p @ q)"
  by (simp add: normalize_path_def path_pop_def)

lemma normalize_curdir: "normalize_path (p @ [CurDir] @ q) = normalize_path (p @ q)"
  by (simp add: normalize_path_def)

lemma snapshot_roundtrip: "snapshot_from_value (snapshot_to_value s) = Some s"
  by (cases s) (simp_all add: snapshot_from_value_def snapshot_to_value_def)

subsection \<open>Properties\<close>

text \<open>While plan mode is active, an edit of an existing or absent path is recognised as an edit
  of the plan file exactly when the two paths are the same file: by their canonical forms when
  both exist, and otherwise lexically, where the normal form has no \<open>.\<close> and no \<open>..\<close>, is
  its own normal form, and does not change when \<open>.\<close> or a name followed by \<open>..\<close> is
  inserted anywhere. The plan file itself is always recognised, and nothing is while the mode is
  not active.\<close>

theorem plan_file_recognised:
  "(is_active t \<longrightarrow> should_auto_approve_edit canonicalize t (pm_plan_file_path t)) \<and>
   (\<not> is_active t \<longrightarrow> \<not> should_auto_approve_edit canonicalize t path) \<and>
   (should_auto_approve_edit canonicalize t path \<longrightarrow>
      (case (canonicalize path, canonicalize (pm_plan_file_path t)) of
         (Some a, Some b) \<Rightarrow> path_components a = path_components b
       | _ \<Rightarrow> normalize_path (path_components path) = normalize_path (path_components (pm_plan_file_path t)))) \<and>
   CurDir \<notin> set (normalize_path p) \<and> ParentDir \<notin> set (normalize_path p) \<and>
   normalize_path (normalize_path p) = normalize_path p \<and>
   normalize_path (p @ [CurDir] @ q) = normalize_path (p @ q) \<and>
   normalize_path (p @ [Normal x, ParentDir] @ q) = normalize_path (p @ q)"
proof -
  have "CurDir \<notin> set (normalize_path p) \<and> ParentDir \<notin> set (normalize_path p)"
    using plain_path_normalize [of p] by (auto simp: plain_path_def)
  moreover have "normalize_path (normalize_path p) = normalize_path p"
    by (rule normalize_plain [OF plain_path_normalize])
  moreover have "is_active t \<longrightarrow> should_auto_approve_edit canonicalize t (pm_plan_file_path t)"
    by (simp add: should_auto_approve_edit_def paths_equal_def split: option.splits)
  ultimately show ?thesis
    using normalize_curdir [of p q] normalize_cancel [of p x q]
    by (auto simp: should_auto_approve_edit_def paths_equal_def split: option.splits)
qed

theorem plan_file_recognised_witness:
  "let t = activate (PlanModeTracker_new ''/s/1'')
   in should_auto_approve_edit (\<lambda>_. None) t (pm_plan_file_path t) \<and>
      \<not> should_auto_approve_edit (\<lambda>_. None) (deactivate t) ''/s/1/plan.md'' \<and>
      should_auto_approve_edit (\<lambda>_. None) t ''/s/x/../1/./plan.md'' \<and>
      normalize_path (path_components ''/s/x/../1/./plan.md'') =
        normalize_path (path_components (pm_plan_file_path t))"
proof -
  let ?t = "activate (PlanModeTracker_new ''/s/1'')"
  have act: "is_active ?t" "\<not> is_active (deactivate ?t)"
    by (simp_all add: is_active_def activate_def deactivate_def)
  have app: "should_auto_approve_edit (\<lambda>_. None) ?t ''/s/x/../1/./plan.md''" by code_simp
  show ?thesis
    using plan_file_recognised [of ?t "\<lambda>_. None" "''/s/x/../1/./plan.md''"]
      plan_file_recognised [of "deactivate ?t" "\<lambda>_. None" "''/s/1/plan.md''"] act app
    by (simp add: Let_def)
qed

text \<open>Plan mode survives a restart: when saving a tracker of a session reports success,
  loading that session's directory afterwards gives back a tracker with the same state and the
  same plan file (JSON text that was printed parses back to the value); a session with no
  snapshot starts inactive.\<close>

theorem plan_mode_survives_restart:
  assumes "plan_save faults to_string_pretty t fs = (Inr u, fs')"
    and "pm_plan_file_path t = pm_plan_file_path (PlanModeTracker_new (pm_session_dir t))"
    and "\<And>p. faults' (Fs_read p) = None"
    and "\<And>v s. to_string_pretty v = Inr s \<Longrightarrow> from_str s = Inr v"
  shows "plan_load faults' from_str (pm_session_dir t) fs' = Inr t \<and>
     plan_load faults' from_str dir Map.empty = Inr (PlanModeTracker_new dir)"
proof -
  let ?path = "path_components (path_join (pm_session_dir t) ''plan_mode.json'')"
  obtain content where c: "to_string_pretty (snapshot_to_value (pm_state t)) = Inr content"
    and w: "fs' ?path = Some content"
    using assms(1) by (cases "to_string_pretty (snapshot_to_value (pm_state t))")
      (auto simp: plan_save_def fs_write_def Let_def split: sum.splits option.splits)
  have "from_str content = Inr (snapshot_to_value (pm_state t))" using assms(4) [OF c] .
  moreover have "(PlanModeTracker_new (pm_session_dir t))\<lparr>pm_state := pm_state t\<rparr> = t"
    using assms(2) by (simp add: PlanModeTracker_new_def)
  ultimately show ?thesis
    using w assms(3) by (simp add: plan_load_def Let_def snapshot_roundtrip fs_exists_def fs_read_def)
qed

definition demo_print :: "json \<Rightarrow> (string, string) result" where
  "demo_print v = (case snapshot_from_value v of
     Some s \<Rightarrow> if v = snapshot_to_value s then Inr (PlanModeState_str s) else Inl ''unsupported''
   | None \<Rightarrow> Inl ''unsupported'')"

definition demo_parse :: "string \<Rightarrow> (string, json) result" where
  "demo_parse s = Inr (JObject [(''state'', JString s)])"

lemma demo_print_parse: "demo_print v = Inr s \<Longrightarrow> demo_parse s = Inr v"
  by (auto simp: demo_print_def demo_parse_def snapshot_to_value_def split: option.splits if_splits)

theorem plan_mode_survives_restart_witness:
  "plan_load (\<lambda>_. None) demo_parse ''/s''
     [[RootDir, Normal ''s'', Normal ''plan_mode.json''] \<mapsto> ''active''] =
     Inr (activate (PlanModeTracker_new ''/s''))"
proof -
  let ?t = "activate (PlanModeTracker_new ''/s'')"
  have "plan_save (\<lambda>_. None) demo_print ?t Map.empty =
      (Inr (), [[RootDir, Normal ''s'', Normal ''plan_mode.json''] \<mapsto> ''active''])"
    by (simp add: plan_save_def fs_create_dir_all_def fs_write_def demo_print_def snapshot_roundtrip
        activate_def PlanModeTracker_new_def path_join_def is_absolute_def path_components_def)
  from plan_mode_survives_restart [OF this, of "\<lambda>_. None" demo_parse]
  show ?thesis
    by (simp add: activate_def PlanModeTracker_new_def demo_print_parse)
qed

end
