(* ===== verification/Tool_Pipeline.thy ===== *)
theory Tool_Pipeline
  imports Run_Types Plan_Mode
begin

text \<open>
  The tool pipeline (\<^verbatim>\<open>legion-runtime/src/tool_pipeline.rs\<close>): partition of the model's tool
  calls into batches, the stages a call goes through (lookup, parsing, validation, permission,
  plan mode, execution) and the batches' execution.

  The state of a run holds its approval gate with the store of prompts, its plan-mode tracker
  and the rest \<open>'r\<close> that tools change. What is not in the sources is in \<open>pipeline_env\<close>: the
  JSON parser, the schema validator, path canonicalization, what the rest of the world does
  while a prompt waits, the order in which the tasks of a concurrent batch take effect, and
  which of them panic.
\<close>

subsection \<open>Batches\<close>

record ToolBatch =
  tb_concurrent :: bool
  tb_calls :: "ToolCall list"

fun unwrap_json :: "(string, json) result \<Rightarrow> json" where
  "unwrap_json (Inr v) = v"
| "unwrap_json (Inl e) = JNull"

definition call_is_safe :: "(string \<Rightarrow> (string, json) result) \<Rightarrow> 'w registry \<Rightarrow> ToolCall \<Rightarrow> bool" where
  "call_is_safe from_str registry call =
     (case registry (tc_name call) of
        Some t \<Rightarrow> t_is_concurrency_safe t (unwrap_json (from_str (tc_arguments call)))
      | None \<Rightarrow> False)"

text \<open>The loop of \<open>partition_tool_calls\<close>, with its two accumulators.\<close>

fun partition_loop ::
  "(ToolCall \<Rightarrow> bool) \<Rightarrow> ToolBatch list \<Rightarrow> ToolCall list \<Rightarrow> ToolCall list \<Rightarrow> ToolBatch list" where
  "partition_loop safe batches current [] =
     (if current \<noteq> [] then batches @ [\<lparr>tb_concurrent = True, tb_calls = current\<rparr>] else batches)"
| "partition_loop safe batches current (call # calls) =
     (if safe call then partition_loop safe batches (current @ [call]) calls
      else partition_loop safe
        (batches @ (if current \<noteq> [] then [\<lparr>tb_concurrent = True, tb_calls = current\<rparr>] else []) @
          [\<lparr>tb_concurrent = False, tb_calls = [call]\<rparr>]) [] calls)"

definition partition_tool_calls ::
  "(string \<Rightarrow> (string, json) result) \<Rightarrow> 'w registry \<Rightarrow> ToolCall list \<Rightarrow> ToolBatch list" where
  "partition_tool_calls from_str registry calls = partition_loop (call_is_safe from_str registry) [] [] calls"

subsection \<open>State and environment of a run\<close>

record 'r pworld =
  pw_gate :: ApprovalGate
  pw_heap :: "bool prompt_heap"
  pw_notified :: "(ApprovalRequest \<times> string) list"
  pw_plan :: PlanModeTracker
  pw_rest :: 'r

record 'r pipeline_env =
  pe_from_str :: "string \<Rightarrow> (string, json) result"
  pe_validator_for :: "json \<Rightarrow> (string, json \<Rightarrow> (string, unit) result) result"
  pe_canonicalize :: "'r pworld \<Rightarrow> string \<Rightarrow> string option"
  pe_await :: "string \<Rightarrow> nat \<Rightarrow> 'r pworld \<Rightarrow> bool \<times> 'r pworld"
  pe_schedule :: "ToolCall list \<Rightarrow> 'r pworld \<Rightarrow> nat list"
  pe_panic :: "ToolCall \<Rightarrow> 'r pworld \<Rightarrow> (string \<times> 'r pworld) option"

record ApprovalCtx =
  ac_interactive :: bool
  ac_permission_mode :: PermissionMode

text \<open>The arguments that every call of a run shares.\<close>

record call_args =
  ca_workspace :: string
  ca_session_id :: string
  ca_agent_id :: string
  ca_sender :: "string option"
  ca_can_use_tool :: "(string \<Rightarrow> json \<Rightarrow> string option \<Rightarrow> Permission) option"
  ca_memory :: "nat option"
  ca_viewed_files :: "nat option"
  ca_approval :: "ApprovalCtx option"
  ca_question :: "nat option"
  ca_allowed_tools :: "string list option"
  ca_spawner :: "nat option"
  ca_messenger :: "nat option"
  ca_swarm :: "nat option"
  ca_depth :: "8 word"
  ca_parent_history :: "ChatMessage list option"
  ca_todo_store :: "nat option"
  ca_background_tasks :: "nat option"
  ca_plan_mode_tracker :: "nat option"

subsection \<open>Stages of a call\<close>

definition validate_schema ::
  "(json \<Rightarrow> (string, json \<Rightarrow> (string, unit) result) result) \<Rightarrow> json \<Rightarrow> json \<Rightarrow> (ToolError, unit) result" where
  "validate_schema validator_for schema input =
     (case validator_for schema of
        Inl e \<Rightarrow> Inl (InvalidParams (''invalid tool schema: '' @ e))
      | Inr validator \<Rightarrow>
          (case validator input of
             Inl e \<Rightarrow> Inl (InvalidParams (''schema validation failed: '' @ e))
           | Inr _ \<Rightarrow> Inr ()))"

definition validate_tool_input ::
  "(json \<Rightarrow> (string, json \<Rightarrow> (string, unit) result) result) \<Rightarrow> 'w tool \<Rightarrow> json \<Rightarrow> (ToolError, unit) result" where
  "validate_tool_input validator_for tool input =
     bind_result (validate_schema validator_for (t_schema tool) input) (\<lambda>_. t_validate_input tool input)"

text \<open>The gate's request on the run's state: up to the await, then what the environment does
  meanwhile (it says whether the timeout elapsed), then the decision.\<close>

definition awaited :: "bool \<Rightarrow> bool oneshot option \<Rightarrow> await_outcome" where
  "awaited elapsed chan =
     (if elapsed then Elapsed
      else case chan of
             Some (Delivered b) \<Rightarrow> Answered b
           | Some Closed \<Rightarrow> RecvError
           | _ \<Rightarrow> Elapsed)"

definition gate_request ::
  "'r pipeline_env \<Rightarrow> ApprovalRequest \<Rightarrow> 'r pworld \<Rightarrow> bool \<times> 'r pworld" where
  "gate_request env req w =
     (case request_begin (pw_gate w) req (pw_heap w) of
        (Decided b, g, h) \<Rightarrow> (b, w\<lparr>pw_gate := g, pw_heap := h\<rparr>)
      | (Awaiting pid c, g, h) \<Rightarrow>
          let w1 = w\<lparr>pw_gate := g, pw_heap := h, pw_notified := pw_notified w @ [(req, pid)]\<rparr>;
              (elapsed, w2) = pe_await env pid c w1;
              (b, g2) = request_end (pw_gate w2) req (awaited elapsed (ph_chans (pw_heap w2) c))
          in (b, w2\<lparr>pw_gate := g2, pw_heap := oneshot_drop_receiver c (pw_heap w2)\<rparr>))"

text \<open>The permission stage: \<open>None\<close> lets the call go on, \<open>Some\<close> is the result it ends with.\<close>

definition permission_stage ::
  "'r pipeline_env \<Rightarrow> call_args \<Rightarrow> 'r pworld tool \<Rightarrow> json \<Rightarrow> 'r pworld \<Rightarrow> ToolResult option \<times> 'r pworld" where
  "permission_stage env args tool input w =
     (case ca_can_use_tool args of
        None \<Rightarrow> (None, w)
      | Some decider \<Rightarrow>
          let mode = (case ca_approval args of Some ctx \<Rightarrow> ac_permission_mode ctx | None \<Rightarrow> Default);
              permission = apply_permission_mode mode (decider (t_name tool) input (ca_sender args)) tool input
          in (case permission of
                Allow \<Rightarrow> (None, w)
              | Prompt message \<Rightarrow>
                  (case ca_approval args of
                     Some ctx \<Rightarrow>
                       let (ok, w') = gate_request env \<lparr>ar_tool = t_name tool, ar_agent_id = ca_agent_id args,
                             ar_session_key = ca_session_id args, ar_interactive = ac_interactive ctx\<rparr> w
                       in (if ok then None
                           else Some (ToolResult_error (''tool '' @ quoted (t_name tool) @ '' approval denied'')), w')
                   | None \<Rightarrow> (Some (ToolResult_error (''tool '' @ quoted (t_name tool) @
                       '' needs approval: '' @ message)), w))
              | Deny reason \<Rightarrow> (Some (ToolResult_error (''tool '' @ quoted (t_name tool) @
                  '' is not allowed: '' @ reason)), w)))"

definition plan_restricted :: "string list" where
  "plan_restricted = [''write'', ''edit'', ''apply_patch'', ''exec'']"

definition plan_stage ::
  "'r pipeline_env \<Rightarrow> call_args \<Rightarrow> 'r pworld tool \<Rightarrow> json \<Rightarrow> 'r pworld \<Rightarrow> ToolResult option" where
  "plan_stage env args tool input w =
     (case ca_plan_mode_tracker args of
        None \<Rightarrow> None
      | Some _ \<Rightarrow>
          let guard = pw_plan w
          in if is_active guard \<and> t_name tool \<in> set plan_restricted then
               let allowed = (t_name tool \<in> set edit_tools \<and>
                     (case Option.bind (json_get input ''path'') json_as_str of
                        None \<Rightarrow> False
                      | Some p \<Rightarrow>
                          let resolved = (if is_absolute p then p else path_join (ca_workspace args) p)
                          in should_auto_approve_edit (pe_canonicalize env w) guard resolved))
               in if \<not> allowed then
                    Some (ToolResult_error (''tool '' @ quoted (t_name tool) @
                      '' is blocked in plan mode except when targeting the plan file ('' @
                      pm_plan_file_path guard @ '')''))
                  else None
             else None)"

definition tool_context :: "call_args \<Rightarrow> ToolContext" where
  "tool_context args =
     \<lparr>tx_workspace = ca_workspace args, tx_session_id = ca_session_id args, tx_agent_id = ca_agent_id args,
      tx_sender = ca_sender args, tx_memory = ca_memory args, tx_viewed_files = ca_viewed_files args,
      tx_allowed_tools = ca_allowed_tools args, tx_spawner = ca_spawner args,
      tx_messenger = ca_messenger args, tx_swarm = ca_swarm args, tx_depth = ca_depth args,
      tx_parent_history = ca_parent_history args, tx_question_gate = ca_question args,
      tx_todo_store = ca_todo_store args, tx_background_tasks = ca_background_tasks args,
      tx_plan_mode_tracker = ca_plan_mode_tracker args\<rparr>"

definition execute_tool_call ::
  "'r pipeline_env \<Rightarrow> 'r pworld registry \<Rightarrow> call_args \<Rightarrow> ToolCall \<Rightarrow> 'r pworld \<Rightarrow> ToolResult \<times> 'r pworld" where
  "execute_tool_call env registry args call w =
     (case registry (tc_name call) of
        None \<Rightarrow> (ToolResult_error (''tool '' @ quoted (tc_name call) @ '' not found''), w)
      | Some tool \<Rightarrow>
          (case pe_from_str env (tc_arguments call) of
             Inl err \<Rightarrow> (ToolResult_error (''invalid tool arguments: '' @ err), w)
           | Inr input \<Rightarrow>
               (case validate_tool_input (pe_validator_for env) tool input of
                  Inl err \<Rightarrow> (ToolResult_error (ToolError_display err), w)
                | Inr _ \<Rightarrow>
                    (case permission_stage env args tool input w of
                       (Some refused, w1) \<Rightarrow> (refused, w1)
                     | (None, w1) \<Rightarrow>
                         (case plan_stage env args tool input w1 of
                            Some blocked \<Rightarrow> (blocked, w1)
                          | None \<Rightarrow>
                              (case t_execute tool input (tool_context args) w1 of
                                 (Inr res, w2) \<Rightarrow> (res, w2)
                               | (Inl err, w2) \<Rightarrow> (ToolResult_error (ToolError_display err), w2)))))))"

subsection \<open>Running the batches\<close>

definition tool_result_message :: "string \<Rightarrow> ToolResult \<Rightarrow> ChatMessage" where
  "tool_result_message tool_call_id result =
     \<lparr>cm_role = Tool, cm_content = tr_content result, cm_name = None, cm_tool_calls = None,
      cm_tool_call_id = Some tool_call_id, cm_cache_breakpoint = False\<rparr>"

definition call_meta :: "'r pipeline_env \<Rightarrow> 'w registry \<Rightarrow> ToolCall \<Rightarrow> CanonicalToolMeta option" where
  "call_meta env registry call =
     map_option (\<lambda>t. canonical_meta t (unwrap_json (pe_from_str env (tc_arguments call)))) (registry (tc_name call))"

text \<open>Every list of indices schedules the \<open>n\<close> tasks of a batch in some order, and every order is
  scheduled by some list.\<close>

definition schedule_of :: "nat \<Rightarrow> nat list \<Rightarrow> nat list" where
  "schedule_of n s = remdups (filter (\<lambda>i. i < n) s) @ filter (\<lambda>i. i \<notin> set s) [0..<n]"

text \<open>A call is a future that may panic, after some effects on the state. In a concurrent batch it
  is a task of its own and the panic is its result; in a sequential batch the panic unwinds the run.\<close>

definition run_call ::
  "'r pipeline_env \<Rightarrow> 'r pworld registry \<Rightarrow> call_args \<Rightarrow> ToolCall \<Rightarrow> 'r pworld \<Rightarrow> (string, ToolResult) result \<times> 'r pworld" where
  "run_call env registry args call w =
     (case pe_panic env call w of
        Some (join_err, w') \<Rightarrow> (Inl join_err, w')
      | None \<Rightarrow> (let (res, w') = execute_tool_call env registry args call w in (Inr res, w')))"

fun joined_result :: "(string, ToolResult) result \<Rightarrow> ToolResult" where
  "joined_result (Inr res) = res"
| "joined_result (Inl join_err) = ToolResult_error (''tool task panicked: '' @ join_err)"

fun run_tasks ::
  "'r pipeline_env \<Rightarrow> 'r pworld registry \<Rightarrow> call_args \<Rightarrow> ToolCall list \<Rightarrow> nat list \<Rightarrow>
   (nat \<rightharpoonup> ToolResult) \<times> 'r pworld \<Rightarrow> (nat \<rightharpoonup> ToolResult) \<times> 'r pworld" where
  "run_tasks env registry args calls [] rw = rw"
| "run_tasks env registry args calls (i # order) (res, w) =
     (let (r, w') = run_call env registry args (calls ! i) w
      in run_tasks env registry args calls order (res(i \<mapsto> joined_result r), w'))"

definition call_events :: "'r pipeline_env \<Rightarrow> 'w registry \<Rightarrow> ToolCall \<Rightarrow> ToolResult \<Rightarrow> RunEvent list" where
  "call_events env registry call result = [ToolStart call, ToolEnd call result (call_meta env registry call)]"

definition run_concurrent_batch ::
  "'r pipeline_env \<Rightarrow> 'r pworld registry \<Rightarrow> call_args \<Rightarrow> ToolCall list \<Rightarrow> 'r pworld \<Rightarrow>
   ChatMessage list \<times> RunEvent list \<times> 'r pworld" where
  "run_concurrent_batch env registry args calls w =
     (let order = schedule_of (length calls) (pe_schedule env calls w);
          (res, w') = run_tasks env registry args calls order (Map.empty, w);
          results = map (\<lambda>i. the (res i)) [0..<length calls]
      in (map2 (\<lambda>call r. tool_result_message (tc_id call) r) calls results,
          concat (map2 (call_events env registry) calls results), w'))"

text \<open>No messages means that the run was unwound; the events are those sent until then.\<close>

fun run_sequential_batch ::
  "'r pipeline_env \<Rightarrow> 'r pworld registry \<Rightarrow> call_args \<Rightarrow> ToolCall list \<Rightarrow> 'r pworld \<Rightarrow>
   ChatMessage list option \<times> RunEvent list \<times> 'r pworld" where
  "run_sequential_batch env registry args [] w = (Some [], [], w)"
| "run_sequential_batch env registry args (call # calls) w =
     (case run_call env registry args call w of
        (Inl _, w1) \<Rightarrow> (None, [ToolStart call], w1)
      | (Inr result, w1) \<Rightarrow>
          let (messages, events, w2) = run_sequential_batch env registry args calls w1
          in (map_option (Cons (tool_result_message (tc_id call) result)) messages,
              call_events env registry call result @ events, w2))"

fun run_tool_batches ::
  "'r pipeline_env \<Rightarrow> 'r pworld registry \<Rightarrow> call_args \<Rightarrow> ToolBatch list \<Rightarrow> 'r pworld \<Rightarrow>
   ChatMessage list option \<times> RunEvent list \<times> 'r pworld" where
  "run_tool_batches env registry args [] w = (Some [], [], w)"
| "run_tool_batches env registry args (batch # batches) w =
     (let (messages, events, w1) =
            (if tb_concurrent batch
             then (let (ms, es, w1) = run_concurrent_batch env registry args (tb_calls batch) w in (Some ms, es, w1))
             else run_sequential_batch env registry args (tb_calls batch) w)
      in case messages of
           None \<Rightarrow> (None, events, w1)
         | Some ms \<Rightarrow>
             (let (messages', events', w2) = run_tool_batches env registry args batches w1
              in (map_option ((@) ms) messages', events @ events', w2)))"

subsection \<open>Facts\<close>

lemma partition_loop_batches:
  "partition_loop safe batches current calls = batches @ partition_loop safe [] current calls"
proof (induction calls arbitrary: batches current)
  case (Cons call calls)
  show ?case
  proof (cases "safe call")
    case True
    then show ?thesis using Cons.IH [of batches] by simp
  next
    case False
    then show ?thesis
      using Cons.IH [of "batches @ _"] Cons.IH [of "_ @ [_]" "[]"]
      by (simp del: append_assoc)
  qed
qed simp

lemma partition_loop_unsafe:
  "\<not> safe call \<Longrightarrow> partition_loop safe [] current (call # calls) =
     (if current \<noteq> [] then [\<lparr>tb_concurrent = True, tb_calls = current\<rparr>] else []) @
     \<lparr>tb_concurrent = False, tb_calls = [call]\<rparr> # partition_loop safe [] [] calls"
  by (simp add: partition_loop_batches [of safe "_ # _"])

text \<open>What the partition promises of a batch.\<close>

definition batch_ok :: "(ToolCall \<Rightarrow> bool) \<Rightarrow> ToolBatch \<Rightarrow> bool" where
  "batch_ok safe b \<longleftrightarrow>
     (if tb_concurrent b then tb_calls b \<noteq> [] \<and> (\<forall>c\<in>set (tb_calls b). safe c)
      else \<exists>c. tb_calls b = [c] \<and> \<not> safe c)"

lemma partition_loop_ok:
  "\<forall>c\<in>set current. safe c \<Longrightarrow>
   (let bs = partition_loop safe [] current calls
    in concat (map tb_calls bs) = current @ calls \<and> (\<forall>b\<in>set bs. batch_ok safe b) \<and>
       successively (\<lambda>a b. \<not> (tb_concurrent a \<and> tb_concurrent b)) bs)"
proof (induction calls arbitrary: current)
  case Nil
  then show ?case by (simp add: batch_ok_def)
next
  case (Cons call calls)
  show ?case
  proof (cases "safe call")
    case True
    with Cons.IH [of "current @ [call]"] Cons.prems show ?thesis by simp
  next
    case False
    with Cons.IH [of "[]"] Cons.prems show ?thesis
      by (auto simp del: partition_loop.simps(2) simp: partition_loop_unsafe Let_def batch_ok_def successively_Cons)
  qed
qed

lemma schedule_of_perm: "distinct (schedule_of n s) \<and> set (schedule_of n s) = {0..<n}"
  by (auto simp: schedule_of_def)

lemma execute_not_found:
  "registry (tc_name call) = None \<Longrightarrow> execute_tool_call env registry args call w =
     (ToolResult_error (''tool '' @ quoted (tc_name call) @ '' not found''), w)"
  by (simp add: execute_tool_call_def)

text \<open>The stages before execution do not depend on what the tool does.\<close>

lemma apply_mode_update [simp]:
  "apply_permission_mode mode perm (tool\<lparr>t_execute := f\<rparr>) input = apply_permission_mode mode perm tool input"
  by (cases perm; cases mode) (simp_all add: apply_permission_mode.simps(3))

lemma validate_update [simp]:
  "validate_tool_input vf (tool\<lparr>t_execute := f\<rparr>) input = validate_tool_input vf tool input"
  by (simp add: validate_tool_input_def)

lemma permission_stage_update [simp]:
  "permission_stage env args (tool\<lparr>t_execute := f\<rparr>) input w = permission_stage env args tool input w"
  by (simp add: permission_stage_def Let_def cong: option.case_cong Permission.case_cong prod.case_cong if_cong)

lemma plan_stage_update [simp]:
  "plan_stage env args (tool\<lparr>t_execute := f\<rparr>) input w = plan_stage env args tool input w"
  by (simp add: plan_stage_def Let_def cong: option.case_cong)

text \<open>A call that a stage stops ends with that stage's error, whatever the tool would do.\<close>

definition never_runs ::
  "'r pipeline_env \<Rightarrow> 'r pworld registry \<Rightarrow> call_args \<Rightarrow> ToolCall \<Rightarrow> 'r pworld tool \<Rightarrow> 'r pworld \<Rightarrow> bool" where
  "never_runs env registry args call tool w \<longleftrightarrow>
     tr_is_error (fst (execute_tool_call env registry args call w)) \<and>
     (\<forall>f. execute_tool_call env (registry(tc_name call \<mapsto> tool\<lparr>t_execute := f\<rparr>)) args call w =
          execute_tool_call env registry args call w)"

lemma stopped_call_never_runs:
  assumes "registry (tc_name call) = Some tool"
    and "\<And>input. pe_from_str env (tc_arguments call) = Inr input \<Longrightarrow> \<exists>r. tr_is_error r \<and>
      (fst (permission_stage env args tool input w) = Some r \<or>
       fst (permission_stage env args tool input w) = None \<and>
       plan_stage env args tool input (snd (permission_stage env args tool input w)) = Some r)"
  shows "never_runs env registry args call tool w"
proof (cases "pe_from_str env (tc_arguments call)")
  case (Inl e)
  with assms(1) show ?thesis by (simp add: never_runs_def execute_tool_call_def ToolResult_error_def)
next
  case (Inr input)
  obtain p w1 where ps: "permission_stage env args tool input w = (p, w1)" by fastforce
  obtain r where r: "tr_is_error r" "p = Some r \<or> p = None \<and> plan_stage env args tool input w1 = Some r"
    using assms(2) [OF Inr] ps by auto
  show ?thesis
  proof (cases "validate_tool_input (pe_validator_for env) tool input")
    case (Inl e)
    with Inr assms(1) show ?thesis
      by (simp add: never_runs_def execute_tool_call_def ToolResult_error_def)
  next
    case (Inr u)
    with \<open>pe_from_str env (tc_arguments call) = Inr input\<close> assms(1) ps r show ?thesis
      by (auto simp: never_runs_def execute_tool_call_def)
  qed
qed

lemma request_end_approves: "fst (request_end g req out) \<longleftrightarrow> out = Answered True"
  by (cases "(g, req, out)" rule: request_end.cases) auto

lemma gate_request_approves:
  assumes "fst (gate_request env req w)"
  shows "ag_auto_approve (pw_gate w) \<or>
     (ar_interactive req \<and> ar_tool req \<notin> ag_session_denies (pw_gate w) \<and>
      (\<exists>pid c w1 w2. pe_await env pid c w1 = (False, w2) \<and> pw_notified w1 = pw_notified w @ [(req, pid)] \<and>
         ph_chans (pw_heap w2) c = Some (Delivered True)))"
proof (cases "fst (request_begin (pw_gate w) req (pw_heap w))")
  case (Decided b)
  then show ?thesis
    using assms request_begin_Decided(3) [of "pw_gate w" req "pw_heap w" b]
    by (cases "request_begin (pw_gate w) req (pw_heap w)") (auto simp: gate_request_def)
next
  case (Awaiting pid c)
  obtain g h where rb: "request_begin (pw_gate w) req (pw_heap w) = (Awaiting pid c, g, h)"
    using Awaiting by (metis prod.collapse)
  let ?w1 = "w\<lparr>pw_gate := g, pw_heap := h, pw_notified := pw_notified w @ [(req, pid)]\<rparr>"
  obtain elapsed w2 where aw: "pe_await env pid c ?w1 = (elapsed, w2)" by fastforce
  have "fst (request_end (pw_gate w2) req (awaited elapsed (ph_chans (pw_heap w2) c)))"
    using assms rb aw by (simp add: gate_request_def split: prod.splits)
  then have "\<not> elapsed \<and> ph_chans (pw_heap w2) c = Some (Delivered True)"
    by (auto simp: awaited_def request_end_approves split: if_splits option.splits oneshot.splits)
  moreover have "ar_interactive req" "ar_tool req \<notin> ag_session_denies (pw_gate w)"
    using rb by (auto simp: request_begin_def split: if_splits)
  ultimately show ?thesis using aw by fastforce
qed

text \<open>An execution of calls one after the other, as a specification: each entry of the log is the index of a call and its result,
  which is the outcome of that very call in the state the entries before have left. A panic is the
  result only of a call that may run beside others.\<close>

definition call_ran ::
  "'r pipeline_env \<Rightarrow> 'r pworld registry \<Rightarrow> call_args \<Rightarrow> ToolCall \<Rightarrow> 'r pworld \<Rightarrow> ToolResult \<Rightarrow> 'r pworld \<Rightarrow> bool" where
  "call_ran env registry args call w res w' \<longleftrightarrow>
     (case pe_panic env call w of
        None \<Rightarrow> execute_tool_call env registry args call w = (res, w')
      | Some (join_err, w1) \<Rightarrow> call_is_safe (pe_from_str env) registry call \<and>
          res = ToolResult_error (''tool task panicked: '' @ join_err) \<and> w' = w1)"

fun executes ::
  "'r pipeline_env \<Rightarrow> 'r pworld registry \<Rightarrow> call_args \<Rightarrow> ToolCall list \<Rightarrow> 'r pworld \<Rightarrow> (nat \<times> ToolResult) list \<Rightarrow> 'r pworld \<Rightarrow> bool" where
  "executes env registry args calls w [] w' \<longleftrightarrow> w' = w"
| "executes env registry args calls w ((i, res) # log) w' \<longleftrightarrow>
     (\<exists>w1. call_ran env registry args (calls ! i) w res w1 \<and> executes env registry args calls w1 log w')"

lemma executes_append:
  "executes env registry args calls w (l1 @ l2) w' \<longleftrightarrow>
     (\<exists>w1. executes env registry args calls w l1 w1 \<and> executes env registry args calls w1 l2 w')"
  by (induction env registry args calls w l1 w' rule: executes.induct) auto

lemma executes_cong:
  "(\<And>i res. (i, res) \<in> set log \<Longrightarrow> calls' ! i = calls ! i) \<Longrightarrow>
   executes env registry args calls w log w' \<Longrightarrow> executes env registry args calls' w log w'"
  by (induction env registry args calls w log w' rule: executes.induct) force+

lemma executes_shift:
  "executes env registry args calls w log w' \<Longrightarrow>
   executes env registry args (before @ calls) w (map (\<lambda>(i, res). (length before + i, res)) log) w'"
  by (induction env registry args calls w log w' rule: executes.induct) auto

text \<open>What the messages, the events and the state after running calls have to do with such an execution: every call is
  executed once, and of two calls the first in the list goes first unless both may run concurrently.\<close>

definition ran_all ::
  "'r pipeline_env \<Rightarrow> 'r pworld registry \<Rightarrow> call_args \<Rightarrow> ToolCall list \<Rightarrow> 'r pworld \<Rightarrow> ChatMessage list \<Rightarrow> RunEvent list \<Rightarrow> 'r pworld \<Rightarrow> bool" where
  "ran_all env registry args calls w messages events w' \<longleftrightarrow>
     (\<exists>results log. length results = length calls \<and>
        messages = map2 (\<lambda>call r. tool_result_message (tc_id call) r) calls results \<and>
        events = concat (map2 (call_events env registry) calls results) \<and>
        executes env registry args calls w log w' \<and>
        distinct (map fst log) \<and> set (map fst log) = {0..<length calls} \<and> (\<forall>(i, r)\<in>set log. r = results ! i) \<and>
        sorted_wrt (\<lambda>i j. i < j \<or> call_is_safe (pe_from_str env) registry (calls ! i) \<and>
          call_is_safe (pe_from_str env) registry (calls ! j)) (map fst log))"

lemma run_tasks_log:
  assumes "\<forall>c\<in>set calls. call_is_safe (pe_from_str env) registry c"
  shows "distinct order \<Longrightarrow> set order \<subseteq> {0..<length calls} \<Longrightarrow> run_tasks env registry args calls order (res, w) = (res', w') \<Longrightarrow>
    (\<forall>i. i \<notin> set order \<longrightarrow> res' i = res i) \<and>
    (\<exists>log. map fst log = order \<and> executes env registry args calls w log w' \<and> (\<forall>(i, r)\<in>set log. res' i = Some r))"
proof (induction order arbitrary: res w)
  case (Cons i order)
  obtain r w1 where rc: "run_call env registry args (calls ! i) w = (r, w1)" by fastforce
  have safe: "call_is_safe (pe_from_str env) registry (calls ! i)" using assms Cons.prems(2) by simp
  then have ran: "call_ran env registry args (calls ! i) w (joined_result r) w1"
    using rc by (auto simp: call_ran_def run_call_def split: option.splits prod.splits)
  have "run_tasks env registry args calls order (res(i \<mapsto> joined_result r), w1) = (res', w')" using Cons.prems(3) rc by simp
  from Cons.IH [OF _ _ this] Cons.prems(1,2) obtain log where
    rest: "\<forall>j. j \<notin> set order \<longrightarrow> res' j = (res(i \<mapsto> joined_result r)) j" and
    log: "map fst log = order" "executes env registry args calls w1 log w'" "\<forall>(i, r)\<in>set log. res' i = Some r"
    unfolding distinct.simps list.set insert_subset by blast
  have "res' i = Some (joined_result r)" using rest Cons.prems(1) by simp
  then show ?case using rest log ran Cons.prems(1) by (intro conjI exI [of _ "(i, joined_result r) # log"]) auto
qed simp

lemma concurrent_ran_all:
  assumes "run_concurrent_batch env registry args calls w = (ms, es, w')"
    and "\<forall>c\<in>set calls. call_is_safe (pe_from_str env) registry c"
  shows "ran_all env registry args calls w ms es w'"
proof -
  let ?order = "schedule_of (length calls) (pe_schedule env calls w)"
  obtain res w1 where rt: "run_tasks env registry args calls ?order (Map.empty, w) = (res, w1)" by fastforce
  have ord: "distinct ?order" "set ?order = {0..<length calls}" using schedule_of_perm by blast+
  obtain log where log: "map fst log = ?order" "executes env registry args calls w log w1" "\<forall>(i, r)\<in>set log. res i = Some r"
    using run_tasks_log [OF assms(2) ord(1) _ rt] ord(2) by blast
  let ?rs = "map (\<lambda>i. the (res i)) [0..<length calls]"
  have out: "ms = map2 (\<lambda>call r. tool_result_message (tc_id call) r) calls ?rs" "es = concat (map2 (call_events env registry) calls ?rs)" "w' = w1"
    using assms(1) rt by (auto simp: run_concurrent_batch_def Let_def)
  have in_log: "i < length calls" if "(i, r) \<in> set log" for i r
    using that log(1) ord(2) by (metis atLeastLessThan_iff fst_conv image_eqI list.set_map)
  then have "\<forall>(i, r)\<in>set log. r = ?rs ! i" using log(3) by fastforce
  moreover have "sorted_wrt (\<lambda>i j. i < j \<or> call_is_safe (pe_from_str env) registry (calls ! i) \<and>
      call_is_safe (pe_from_str env) registry (calls ! j)) ?order"
    using assms(2) ord(2) by (subst sorted_wrt_iff_nth_less) (metis atLeastLessThan_iff less_trans nth_mem)
  ultimately show ?thesis unfolding ran_all_def using log(2) ord out
    by (intro exI [of _ ?rs] exI [of _ log]) (simp add: log(1))
qed

lemma sequential_ran_all:
  assumes "run_sequential_batch env registry args [call] w = (messages, es, w')"
  shows "case messages of
      Some ms \<Rightarrow> ran_all env registry args [call] w ms es w'
    | None \<Rightarrow> \<exists>err. pe_panic env call w = Some (err, w')"
proof (cases "pe_panic env call w")
  case None
  obtain res w1 where e: "execute_tool_call env registry args call w = (res, w1)" by fastforce
  have "ran_all env registry args [call] w [tool_result_message (tc_id call) res] (call_events env registry call res) w1"
    unfolding ran_all_def by (rule exI [of _ "[res]"], rule exI [of _ "[(0, res)]"]) (simp add: call_ran_def None e)
  then show ?thesis using assms None e by (auto simp: run_call_def)
qed (use assms in \<open>auto simp: run_call_def\<close>)

lemma ran_all_append:
  assumes "ran_all env registry args c1 w m1 e1 w1" and "ran_all env registry args c2 w1 m2 e2 w2"
  shows "ran_all env registry args (c1 @ c2) w (m1 @ m2) (e1 @ e2) w2"
proof -
  let ?safe = "call_is_safe (pe_from_str env) registry"
  obtain r1 l1 where 1: "length r1 = length c1" "m1 = map2 (\<lambda>call r. tool_result_message (tc_id call) r) c1 r1"
    "e1 = concat (map2 (call_events env registry) c1 r1)" "executes env registry args c1 w l1 w1" "distinct (map fst l1)"
    "set (map fst l1) = {0..<length c1}" "\<forall>(i, r)\<in>set l1. r = r1 ! i"
    "sorted_wrt (\<lambda>i j. i < j \<or> ?safe (c1 ! i) \<and> ?safe (c1 ! j)) (map fst l1)"
    using assms(1) unfolding ran_all_def by blast
  obtain r2 l2 where 2: "length r2 = length c2" "m2 = map2 (\<lambda>call r. tool_result_message (tc_id call) r) c2 r2"
    "e2 = concat (map2 (call_events env registry) c2 r2)" "executes env registry args c2 w1 l2 w2" "distinct (map fst l2)"
    "set (map fst l2) = {0..<length c2}" "\<forall>(i, r)\<in>set l2. r = r2 ! i"
    "sorted_wrt (\<lambda>i j. i < j \<or> ?safe (c2 ! i) \<and> ?safe (c2 ! j)) (map fst l2)"
    using assms(2) unfolding ran_all_def by blast
  let ?n = "length c1" and ?calls = "c1 @ c2"
  let ?l2 = "map (\<lambda>(i, res). (?n + i, res)) l2"
  have fst2: "map fst ?l2 = map ((+) ?n) (map fst l2)" by auto
  have lt: "i < ?n" if "(i, r) \<in> set l1" for i r
    using that 1(6) by (metis atLeastLessThan_iff fst_conv image_eqI list.set_map)
  have "executes env registry args ?calls w l1 w1" by (rule executes_cong [OF _ 1(4)]) (simp add: lt nth_append)
  with executes_shift [OF 2(4), of c1] have ex: "executes env registry args ?calls w (l1 @ ?l2) w2"
    by (auto simp: executes_append)
  have set2: "set (map fst ?l2) = {?n..<?n + length c2}" unfolding fst2 set_map 2(6) [unfolded set_map] by (simp add: add.commute)
  have "distinct (map fst ?l2)" unfolding fst2 by (subst distinct_map) (simp add: 2(5) del: map_map)
  then have dist: "distinct (map fst (l1 @ ?l2))" unfolding map_append distinct_append set2 1(6) using 1(5) by auto
  have all: "set (map fst (l1 @ ?l2)) = {0..<length ?calls}" unfolding map_append set_append set2 1(6) by auto
  have res: "\<forall>(i, r)\<in>set (l1 @ ?l2). r = (r1 @ r2) ! i" using 1(1,7) 2(7) lt by (fastforce simp: nth_append)
  have "sorted_wrt (\<lambda>i j. i < j \<or> ?safe (?calls ! i) \<and> ?safe (?calls ! j)) (map fst l1)"
    by (rule sorted_wrt_mono_rel [OF _ 1(8)]) (use 1(6) in \<open>auto simp: nth_append\<close>)
  moreover have "sorted_wrt (\<lambda>i j. i < j \<or> ?safe (?calls ! i) \<and> ?safe (?calls ! j)) (map fst ?l2)"
    unfolding fst2 by (subst sorted_wrt_map, rule sorted_wrt_mono_rel [OF _ 2(8)]) (auto simp: nth_append)
  moreover have "i < j" if "i \<in> set (map fst l1)" "j \<in> set (map fst ?l2)" for i j
    using that unfolding set2 1(6) by simp
  ultimately have "sorted_wrt (\<lambda>i j. i < j \<or> ?safe (?calls ! i) \<and> ?safe (?calls ! j)) (map fst (l1 @ ?l2))"
    unfolding map_append sorted_wrt_append by blast
  with ex dist all res 1(1-3) 2(1-3) show ?thesis
    unfolding ran_all_def by (intro exI [of _ "r1 @ r2"] exI [of _ "l1 @ ?l2"]) simp
qed

lemma run_batches_ran_all:
  "\<forall>b\<in>set batches. batch_ok (call_is_safe (pe_from_str env) registry) b \<Longrightarrow>
   run_tool_batches env registry args batches w = (messages, es, w') \<Longrightarrow>
   case messages of
     Some ms \<Rightarrow> ran_all env registry args (concat (map tb_calls batches)) w ms es w'
   | None \<Rightarrow> \<exists>call\<in>set (concat (map tb_calls batches)). \<not> call_is_safe (pe_from_str env) registry call \<and>
       (\<exists>w0 err. pe_panic env call w0 = Some (err, w'))"
proof (induction batches arbitrary: w messages es w')
  case Nil
  then show ?case by (auto simp: ran_all_def)
next
  case (Cons b batches)
  let ?run = "if tb_concurrent b then (let (ms, es, w1) = run_concurrent_batch env registry args (tb_calls b) w in (Some ms, es, w1))
     else run_sequential_batch env registry args (tb_calls b) w"
  obtain m1 e1 w1 where r1: "?run = (m1, e1, w1)" by (metis prod_cases3)
  have ok: "batch_ok (call_is_safe (pe_from_str env) registry) b" using Cons.prems(1) by simp
  show ?case
  proof (cases m1)
    case None
    then have nc: "\<not> tb_concurrent b" using r1 by (auto split: prod.splits)
    then obtain c where c: "tb_calls b = [c]" "\<not> call_is_safe (pe_from_str env) registry c" using ok by (auto simp: batch_ok_def)
    have "messages = None" "w' = w1" using Cons.prems(2) r1 None by (auto simp: Let_def split: prod.splits)
    then show ?thesis using sequential_ran_all [of env registry args c w m1 e1 w1] r1 nc c None by auto
  next
    case (Some ms1)
    have ran: "ran_all env registry args (tb_calls b) w ms1 e1 w1"
    proof (cases "tb_concurrent b")
      case True
      then show ?thesis using r1 Some ok by (intro concurrent_ran_all) (auto simp: batch_ok_def split: prod.splits)
    next
      case False
      then obtain c where "tb_calls b = [c]" using ok by (auto simp: batch_ok_def)
      with False show ?thesis using sequential_ran_all [of env registry args c w m1 e1 w1] r1 Some by simp
    qed
    obtain m2 e2 w2 where r2: "run_tool_batches env registry args batches w1 = (m2, e2, w2)" by (metis prod_cases3)
    have out: "messages = map_option ((@) ms1) m2" "es = e1 @ e2" "w' = w2"
      using Cons.prems(2) r1 r2 Some by (auto simp: Let_def split: prod.splits)
    have IH: "case m2 of Some ms \<Rightarrow> ran_all env registry args (concat (map tb_calls batches)) w1 ms e2 w2
       | None \<Rightarrow> \<exists>call\<in>set (concat (map tb_calls batches)). \<not> call_is_safe (pe_from_str env) registry call \<and>
           (\<exists>w0 err. pe_panic env call w0 = Some (err, w2))"
      using Cons.IH [OF _ r2] Cons.prems(1) by simp
    show ?thesis
    proof (cases m2)
      case None
      then show ?thesis using IH out by auto
    next
      case m2: (Some ms2)
      have "ran_all env registry args (concat (map tb_calls batches)) w1 ms2 e2 w2" using IH m2 by simp
      from ran_all_append [OF ran this] show ?thesis by (simp add: out m2)
    qed
  qed
qed

lemma run_calls_ran_all:
  assumes "run_tool_batches env registry args (partition_tool_calls (pe_from_str env) registry calls) w = (messages, es, w')"
  shows "case messages of
     Some ms \<Rightarrow> ran_all env registry args calls w ms es w'
   | None \<Rightarrow> \<exists>call\<in>set calls. \<not> call_is_safe (pe_from_str env) registry call \<and> (\<exists>w0 err. pe_panic env call w0 = Some (err, w'))"
proof -
  have "concat (map tb_calls (partition_tool_calls (pe_from_str env) registry calls)) = calls"
    "\<forall>b\<in>set (partition_tool_calls (pe_from_str env) registry calls). batch_ok (call_is_safe (pe_from_str env) registry) b"
    using partition_loop_ok [of "[]" "call_is_safe (pe_from_str env) registry" calls]
    by (simp_all add: partition_tool_calls_def Let_def)
  with run_batches_ran_all [OF this(2) assms] show ?thesis by (simp split: option.splits)
qed

lemma permission_stage_error: "fst (permission_stage env args tool input w) = Some r \<Longrightarrow> tr_is_error r"
  by (auto simp: permission_stage_def Let_def ToolResult_error_def split: option.splits Permission.splits
      prod.splits if_splits)

lemma permission_stage_refuses:
  assumes "ca_can_use_tool args = Some decider"
    and "decider (t_name tool) input (ca_sender args) \<noteq> Allow"
    and "case ca_approval args of
        None \<Rightarrow> \<not> mode_grants Default tool input
      | Some ctx \<Rightarrow> (\<exists>r. decider (t_name tool) input (ca_sender args) = Deny r) \<or>
          \<not> mode_grants (ac_permission_mode ctx) tool input \<and>
          \<not> fst (gate_request env \<lparr>ar_tool = t_name tool, ar_agent_id = ca_agent_id args,
              ar_session_key = ca_session_id args, ar_interactive = ac_interactive ctx\<rparr> w)"
  shows "\<exists>r. tr_is_error r \<and> fst (permission_stage env args tool input w) = Some r"
proof -
  let ?mode = "case ca_approval args of Some ctx \<Rightarrow> ac_permission_mode ctx | None \<Rightarrow> Default"
  let ?perm = "apply_permission_mode ?mode (decider (t_name tool) input (ca_sender args)) tool input"
  have "?perm \<noteq> Allow" using assms(2,3) by (auto simp: apply_mode_Allow split: option.splits)
  then show ?thesis
  proof (cases ?perm)
    case (Prompt m)
    then have "\<nexists>r. decider (t_name tool) input (ca_sender args) = Deny r" by (auto simp: apply_mode_Prompt)
    with Prompt assms(1,3) show ?thesis
      by (cases "ca_approval args") (auto simp: permission_stage_def Let_def ToolResult_error_def split: prod.splits)
  next
    case (Deny r)
    with assms(1) show ?thesis by (simp add: permission_stage_def Let_def ToolResult_error_def)
  qed blast
qed

subsection \<open>Properties\<close>

text \<open>Batching keeps the model's order and never runs an unsafe call beside another: the batches
  concatenate to the calls as given, a concurrent batch consists of concurrency-safe calls
  only, every other call is alone in a sequential batch, and concurrent batches are maximal (no
  two of them are adjacent).\<close>

theorem batches_preserve_order:
  "let bs = partition_tool_calls from_str registry calls
   in concat (map tb_calls bs) = calls \<and>
      (\<forall>b\<in>set bs. if tb_concurrent b
         then tb_calls b \<noteq> [] \<and> (\<forall>c\<in>set (tb_calls b). call_is_safe from_str registry c)
         else \<exists>c. tb_calls b = [c] \<and> \<not> call_is_safe from_str registry c) \<and>
      successively (\<lambda>a b. \<not> (tb_concurrent a \<and> tb_concurrent b)) bs"
  using partition_loop_ok [of "[]" "call_is_safe from_str registry" calls]
  by (simp add: partition_tool_calls_def batch_ok_def)

theorem batches_preserve_order_witness:
  "let safe = tool_defaults ''read'' [] JNull \<lparr>po_approval = Off, po_permission_mode = None, po_allow_from = [],
         po_workspace_only = False\<rparr> (\<lambda>_ _ w. (Inr (ToolResult_ok []), w :: unit pworld))
       \<lparr>t_is_concurrency_safe := \<lambda>_. True\<rparr>;
       call = (\<lambda>i n. \<lparr>tc_id = i, tc_name = n, tc_arguments = []\<rparr>);
       bs = partition_tool_calls (\<lambda>_. Inr JNull) [''read'' \<mapsto> safe]
         [call ''1'' ''read'', call ''2'' ''read'', call ''3'' ''write'', call ''4'' ''read'']
   in map (map tc_id \<circ> tb_calls) bs = [[''1'', ''2''], [''3''], [''4'']] \<and>
      concat (map tb_calls bs) = [call ''1'' ''read'', call ''2'' ''read'', call ''3'' ''write'', call ''4'' ''read'']"
  using batches_preserve_order [of "\<lambda>_. Inr JNull" "[''read'' \<mapsto> tool_defaults ''read'' [] JNull
      \<lparr>po_approval = Off, po_permission_mode = None, po_allow_from = [], po_workspace_only = False\<rparr>
      (\<lambda>_ _ w. (Inr (ToolResult_ok []), w :: unit pworld)) \<lparr>t_is_concurrency_safe := \<lambda>_. True\<rparr>]"
    "[\<lparr>tc_id = ''1'', tc_name = ''read'', tc_arguments = []\<rparr>, \<lparr>tc_id = ''2'', tc_name = ''read'', tc_arguments = []\<rparr>,
      \<lparr>tc_id = ''3'', tc_name = ''write'', tc_arguments = []\<rparr>, \<lparr>tc_id = ''4'', tc_name = ''read'', tc_arguments = []\<rparr>]"]
  by (simp add: partition_tool_calls_def call_is_safe_def tool_defaults_def Let_def)


text \<open>Three calls: the two that may run concurrently are executed in reverse, the third after them.\<close>

definition batch_env :: "nat list pipeline_env" where
  "batch_env = \<lparr>pe_from_str = (\<lambda>_. Inr JNull), pe_validator_for = (\<lambda>_. Inr (\<lambda>_. Inr ())), pe_canonicalize = (\<lambda>_ _. None),
     pe_await = (\<lambda>_ _ w. (True, w)), pe_schedule = (\<lambda>_ _. [1, 0]), pe_panic = (\<lambda>_ _. None)\<rparr>"

definition batch_tool :: "string \<Rightarrow> nat \<Rightarrow> bool \<Rightarrow> nat list pworld tool" where
  "batch_tool name n safe = tool_defaults name [] JNull \<lparr>po_approval = Off, po_permission_mode = None, po_allow_from = [],
     po_workspace_only = False\<rparr> (\<lambda>_ _ w. (Inr (ToolResult_ok (show_nat (length (pw_rest w)))), w\<lparr>pw_rest := pw_rest w @ [n]\<rparr>))
     \<lparr>t_is_concurrency_safe := \<lambda>_. safe\<rparr>"

definition batch_args :: call_args where
  "batch_args = \<lparr>ca_workspace = ''/ws'', ca_session_id = ''s'', ca_agent_id = ''main'', ca_sender = None,
     ca_can_use_tool = None, ca_memory = None, ca_viewed_files = None, ca_approval = None,
     ca_question = None, ca_allowed_tools = None, ca_spawner = None, ca_messenger = None, ca_swarm = None,
     ca_depth = 0, ca_parent_history = None, ca_todo_store = None, ca_background_tasks = None, ca_plan_mode_tracker = None\<rparr>"


text \<open>C1. No tool runs without authority. Take a call to a registered tool under the policy decider:
  if its sender is not on the tool's allow list, its approval level is not off, neither the
  tool's own permission mode nor the session's grants it, and the approval gate (if there is
  one) does not approve, then the call ends in an error and its outcome does not depend on what
  the tool would have done. When the gate does approve, it is in auto-approve mode or the run is
  interactive, the tool was not denied before, and the answer \<open>true\<close> was delivered to the prompt
  this request was shown as.\<close>

theorem unauthorised_call_never_runs:
  assumes "registry (tc_name call) = Some tool" and "t_name tool = tc_name call"
    and "ca_can_use_tool args = Some (build_policy_decider debug registry)"
    and "\<not> sender_allowed (t_policy tool) (ca_sender args)" and "po_approval (t_policy tool) \<noteq> Off"
    and "\<And>input. \<not> mode_grants (effective_permission_mode (t_policy tool)) tool input"
    and "\<And>input ctx. ca_approval args = Some ctx \<Longrightarrow> \<not> mode_grants (ac_permission_mode ctx) tool input"
    and "\<And>ctx. ca_approval args = Some ctx \<Longrightarrow> req = \<lparr>ar_tool = t_name tool, ar_agent_id = ca_agent_id args,
        ar_session_key = ca_session_id args, ar_interactive = ac_interactive ctx\<rparr>"
  shows "(ca_approval args = None \<or> \<not> fst (gate_request env req w) \<longrightarrow>
      tr_is_error (fst (execute_tool_call env registry args call w)) \<and>
      (\<forall>f. execute_tool_call env (registry(tc_name call \<mapsto> tool\<lparr>t_execute := f\<rparr>)) args call w =
           execute_tool_call env registry args call w)) \<and>
     (fst (gate_request env req w) \<longrightarrow> ag_auto_approve (pw_gate w) \<or>
      (ar_interactive req \<and> ar_tool req \<notin> ag_session_denies (pw_gate w) \<and>
       (\<exists>pid c w1 w2. pe_await env pid c w1 = (False, w2) \<and> pw_notified w1 = pw_notified w @ [(req, pid)] \<and>
          ph_chans (pw_heap w2) c = Some (Delivered True))))"
proof
  have dec: "build_policy_decider debug registry (t_name tool) input (ca_sender args) \<noteq> Allow" for input
    using assms(1,2,4,5,6) by (simp add: decider_cases apply_mode_Allow)
  show "ca_approval args = None \<or> \<not> fst (gate_request env req w) \<longrightarrow>
      tr_is_error (fst (execute_tool_call env registry args call w)) \<and>
      (\<forall>f. execute_tool_call env (registry(tc_name call \<mapsto> tool\<lparr>t_execute := f\<rparr>)) args call w =
           execute_tool_call env registry args call w)"
  proof
    assume no: "ca_approval args = None \<or> \<not> fst (gate_request env req w)"
    have "never_runs env registry args call tool w"
    proof (rule stopped_call_never_runs)
      show "registry (tc_name call) = Some tool" by (rule assms(1))
      fix input
      have "\<exists>r. tr_is_error r \<and> fst (permission_stage env args tool input w) = Some r"
        using no assms(7,8) by (intro permission_stage_refuses [OF assms(3) dec])
          (auto simp: mode_grants_def split: option.splits)
      then show "\<exists>r. tr_is_error r \<and> (fst (permission_stage env args tool input w) = Some r \<or>
         fst (permission_stage env args tool input w) = None \<and>
         plan_stage env args tool input (snd (permission_stage env args tool input w)) = Some r)" by blast
    qed
    then show "tr_is_error (fst (execute_tool_call env registry args call w)) \<and>
      (\<forall>f. execute_tool_call env (registry(tc_name call \<mapsto> tool\<lparr>t_execute := f\<rparr>)) args call w =
           execute_tool_call env registry args call w)" by (simp add: never_runs_def)
  qed
qed (use gate_request_approves in blast)

text \<open>A concrete run: a writing tool that needs approval, an unattended session.\<close>

definition demo_env :: "unit pipeline_env" where
  "demo_env = \<lparr>pe_from_str = (\<lambda>_. Inr (JObject [(''path'', JString ''src/a.rs'')])),
     pe_validator_for = (\<lambda>_. Inr (\<lambda>_. Inr ())), pe_canonicalize = (\<lambda>_ _. None),
     pe_await = (\<lambda>_ _ w. (True, w)), pe_schedule = (\<lambda>_ _. []), pe_panic = (\<lambda>_ _. None)\<rparr>"

definition demo_tool :: "string \<Rightarrow> unit pworld tool" where
  "demo_tool name = tool_defaults name [] JNull \<lparr>po_approval = Required, po_permission_mode = None,
     po_allow_from = [''alice''], po_workspace_only = True\<rparr> (\<lambda>_ _ w. (Inr (ToolResult_ok ''done''), w))"

definition demo_registry :: "unit pworld registry" where
  "demo_registry = [''write'' \<mapsto> demo_tool ''write'', ''delete_all'' \<mapsto> demo_tool ''delete_all'']"

definition demo_args :: "string option \<Rightarrow> call_args" where
  "demo_args sender = \<lparr>ca_workspace = ''/ws'', ca_session_id = ''s'', ca_agent_id = ''main'', ca_sender = sender,
     ca_can_use_tool = Some (build_policy_decider (\<lambda>_. ''x'') demo_registry), ca_memory = None,
     ca_viewed_files = None, ca_approval = Some \<lparr>ac_interactive = False, ac_permission_mode = Default\<rparr>,
     ca_question = None, ca_allowed_tools = None, ca_spawner = None, ca_messenger = None, ca_swarm = None,
     ca_depth = 0, ca_parent_history = None, ca_todo_store = None, ca_background_tasks = None,
     ca_plan_mode_tracker = Some 0\<rparr>"

definition demo_world :: "PlanModeTracker \<Rightarrow> unit pworld" where
  "demo_world plan = \<lparr>pw_gate = ApprovalGate_new 0, pw_heap = empty_heap, pw_notified = [], pw_plan = plan, pw_rest = ()\<rparr>"

definition demo_call :: "string \<Rightarrow> ToolCall" where
  "demo_call name = \<lparr>tc_id = ''c1'', tc_name = name, tc_arguments = []\<rparr>"

lemmas demo_pipeline_defs = demo_env_def demo_tool_def demo_registry_def demo_args_def demo_world_def
  demo_call_def tool_defaults_def

lemma demo_gate_refuses:
  "\<not> ar_interactive req \<Longrightarrow> \<not> fst (gate_request demo_env req (demo_world plan))"
  by (simp add: gate_request_def request_begin_def demo_world_def ApprovalGate_new_def)

theorem unauthorised_call_never_runs_witness:
  "tr_is_error (fst (execute_tool_call demo_env demo_registry (demo_args (Some ''mallory'')) (demo_call ''write'')
     (demo_world (PlanModeTracker_new ''/s''))))"
proof -
  let ?req = "\<lparr>ar_tool = ''write'', ar_agent_id = ''main'', ar_session_key = ''s'', ar_interactive = False\<rparr>"
  have "\<not> sender_allowed (t_policy (demo_tool ''write'')) (Some ''mallory'')"
    by (simp add: demo_pipeline_defs sender_allowed_def eq_ignore_ascii_case_def to_lowercase_def to_lower_char_def
        is_ascii_upper_def)
  then show ?thesis
    using unauthorised_call_never_runs [of demo_registry "demo_call ''write''" "demo_tool ''write''"
        "demo_args (Some ''mallory'')" "\<lambda>_. ''x''" ?req demo_env "demo_world (PlanModeTracker_new ''/s'')"]
      demo_gate_refuses [of ?req]
    by (simp add: demo_call_def demo_registry_def demo_args_def demo_tool_def tool_defaults_def
        effective_permission_mode_def mode_grants_def)
qed

text \<open>C18. Plan mode is a hard boundary for the tools it names: while the mode is active when the
  permission stage is over, a call of \<open>write\<close>, \<open>edit\<close>, \<open>apply_patch\<close> or \<open>exec\<close> that does
  not name the plan file ends in an error without running the tool, whatever the policy, the
  session mode, the gate and the sender say.\<close>

theorem plan_mode_blocks:
  assumes "registry (tc_name call) = Some tool" and "ca_plan_mode_tracker args \<noteq> None"
    and "pe_from_str env (tc_arguments call) = Inr input"
    and "permission_stage env args tool input w = (decision, w1)" and "is_active (pw_plan w1)"
    and "t_name tool = ''exec'' \<or>
      t_name tool \<in> {''write'', ''edit'', ''apply_patch''} \<and>
      (\<forall>p. json_get input ''path'' = Some (JString p) \<longrightarrow>
         \<not> should_auto_approve_edit (pe_canonicalize env w1) (pw_plan w1)
           (if is_absolute p then p else path_join (ca_workspace args) p))"
  shows "tr_is_error (fst (execute_tool_call env registry args call w)) \<and>
     (\<forall>f. execute_tool_call env (registry(tc_name call \<mapsto> tool\<lparr>t_execute := f\<rparr>)) args call w =
          execute_tool_call env registry args call w)"
proof -
  have str: "Option.bind (json_get input ''path'') json_as_str = Some p \<longleftrightarrow> json_get input ''path'' = Some (JString p)" for p
    by (auto simp: bind_eq_Some_conv elim: json_as_str.elims)
  have "plan_stage env args tool input w1 \<noteq> None"
    using assms(2,5,6)
    by (auto simp: plan_stage_def plan_restricted_def edit_tools_def Let_def str split: option.splits if_splits)
  then obtain b where b: "plan_stage env args tool input w1 = Some b" by blast
  then have err: "tr_is_error b"
    by (auto simp: plan_stage_def ToolResult_error_def Let_def split: option.splits if_splits)
  have "never_runs env registry args call tool w"
  proof (rule stopped_call_never_runs)
    show "registry (tc_name call) = Some tool" by (rule assms(1))
    fix input'
    assume "pe_from_str env (tc_arguments call) = Inr input'"
    with assms(3) have "input' = input" by simp
    with b err assms(4) permission_stage_error [of env args tool input w]
    show "\<exists>r. tr_is_error r \<and> (fst (permission_stage env args tool input' w) = Some r \<or>
         fst (permission_stage env args tool input' w) = None \<and>
         plan_stage env args tool input' (snd (permission_stage env args tool input' w)) = Some r)"
      by (cases decision) auto
  qed
  then show ?thesis by (simp add: never_runs_def)
qed

lemma demo_alice_passes:
  assumes "name \<in> {''write'', ''delete_all''}"
  shows "permission_stage demo_env (demo_args (Some ''alice'')) (demo_tool name) input w = (None, w)"
proof -
  have "sender_allowed (t_policy (demo_tool name)) (Some ''alice'')" "t_name (demo_tool name) = name"
    by (simp_all add: demo_pipeline_defs sender_allowed_def eq_ignore_ascii_case_def)
  moreover have "demo_registry name = Some (demo_tool name)" using assms by (auto simp: demo_registry_def)
  ultimately show ?thesis by (simp add: permission_stage_def demo_args_def decider_cases Let_def)
qed

theorem plan_mode_blocks_witness:
  "tr_is_error (fst (execute_tool_call demo_env demo_registry (demo_args (Some ''alice'')) (demo_call ''write'')
     (demo_world (activate (PlanModeTracker_new ''/s'')))))"
proof -
  let ?w = "demo_world (activate (PlanModeTracker_new ''/s''))"
  let ?input = "JObject [(''path'', JString ''src/a.rs'')]"
  have other: "\<not> should_auto_approve_edit (\<lambda>_. None) (activate (PlanModeTracker_new ''/s'')) ''/ws/src/a.rs''"
    by code_simp
  have "is_active (pw_plan ?w)" by (simp add: demo_world_def is_active_def activate_def)
  with plan_mode_blocks [of demo_registry "demo_call ''write''" "demo_tool ''write''" "demo_args (Some ''alice'')" demo_env
      ?input ?w None ?w] demo_alice_passes [of "''write''" ?input ?w] other
  show ?thesis
    by (simp add: demo_pipeline_defs is_absolute_def path_join_def)
qed

text \<open>Plan mode does not restrict the tools it does not name: a call of any other tool that passes
  its checks runs while plan mode is active, also when the tool declares the invocation
  mutating or destructive.\<close>

theorem plan_mode_passes_other_tools:
  assumes "registry (tc_name call) = Some tool"
    and "pe_from_str env (tc_arguments call) = Inr input"
    and "validate_tool_input (pe_validator_for env) tool input = Inr u"
    and "permission_stage env args tool input w = (None, w1)"
    and "t_name tool \<notin> {''write'', ''edit'', ''apply_patch'', ''exec''}"
  shows "execute_tool_call env registry args call w =
     (case t_execute tool input (tool_context args) w1 of
        (Inr res, w2) \<Rightarrow> (res, w2)
      | (Inl err, w2) \<Rightarrow> (ToolResult_error (ToolError_display err), w2))"
proof -
  have "plan_stage env args tool input w1 = None"
    using assms(5) by (auto simp: plan_stage_def plan_restricted_def Let_def split: option.splits)
  with assms(1-4) show ?thesis by (simp add: execute_tool_call_def)
qed

theorem plan_mode_passes_other_tools_witness:
  "\<not> t_is_read_only (demo_tool ''delete_all'') JNull \<and>
   fst (execute_tool_call demo_env demo_registry (demo_args (Some ''alice'')) (demo_call ''delete_all'')
     (demo_world (activate (PlanModeTracker_new ''/s'')))) = ToolResult_ok ''done''"
proof -
  let ?w = "demo_world (activate (PlanModeTracker_new ''/s''))"
  let ?input = "JObject [(''path'', JString ''src/a.rs'')]"
  have "validate_tool_input (pe_validator_for demo_env) (demo_tool ''delete_all'') ?input = Inr ()"
    by (simp add: demo_pipeline_defs validate_tool_input_def validate_schema_def)
  with plan_mode_passes_other_tools [of demo_registry "demo_call ''delete_all''" "demo_tool ''delete_all''" demo_env
      ?input "()" "demo_args (Some ''alice'')" ?w ?w] demo_alice_passes [of "''delete_all''" ?input ?w]
  show ?thesis by (simp add: demo_pipeline_defs)
qed

end
