(* ===== verification/Memory_Store.thy ===== *)
theory Memory_Store
  imports Complex_Main Chat_Types "HOL-Library.AList" "HOL-Library.Multiset"
begin

text \<open>
  The memory store (\<^verbatim>\<open>legion-runtime/src/memory.rs\<close>, \<^verbatim>\<open>legion-memory/src/backend.rs\<close>) and its tools
  (\<^verbatim>\<open>legion-tools/src/tools/memory.rs\<close>). The three tables are rankings of rows and each SQL statement
  of the source is a function on them that a fault may stop; the two index look-ups (nearest
  vectors, keyword match), the embedding model, serde, the powers and square roots of floats and the iteration order of
  hash maps are parameters. Floats are rationals: rounding is not modelled.
\<close>

named_theorems memory_simps

subsection \<open>Definitions\<close>

datatype MemoryKind = Working | Episodic | Semantic

fun MemoryKind_str :: "MemoryKind \<Rightarrow> string" where
  "MemoryKind_str Working = ''working''"
| "MemoryKind_str Episodic = ''episodic''"
| "MemoryKind_str Semantic = ''semantic''"

fun kind_weight :: "MemoryKind \<Rightarrow> rat" where
  "kind_weight Working = 1"
| "kind_weight Episodic = 3 / 4"
| "kind_weight Semantic = 11 / 20"

definition parse_MemoryKind :: "string \<Rightarrow> MemoryKind option" where
  "parse_MemoryKind s =
     (if s = ''working'' then Some Working else if s = ''episodic'' then Some Episodic
      else if s = ''semantic'' then Some Semantic else None)"

record MemoryNote =
  mn_id :: string
  mn_content :: string
  mn_score :: rat
  mn_kind :: "MemoryKind option"

record MemoryMeta =
  mm_source :: "string option"
  mm_date :: "string option"
  mm_kind :: "string option"
  mm_tags :: "string list"

definition default_MemoryMeta :: MemoryMeta where
  "default_MemoryMeta = \<lparr>mm_source = None, mm_date = None, mm_kind = None, mm_tags = []\<rparr>"

definition kind_enum :: "MemoryMeta \<Rightarrow> MemoryKind option" where
  "kind_enum meta = Option.bind (mm_kind meta) parse_MemoryKind"

datatype MemoryError = SearchFailed string | GetFailed string | IndexFailed string

fun MemoryError_display :: "MemoryError \<Rightarrow> string" where
  "MemoryError_display (SearchFailed e) = ''memory search failed: '' @ e"
| "MemoryError_display (GetFailed e) = ''memory get failed: '' @ e"
| "MemoryError_display (IndexFailed e) = ''memory index failed: '' @ e"

record DecayConfig =
  dc_enabled :: bool
  dc_half_life_days :: rat

record MergeConfig =
  mc_enabled :: bool
  mc_similarity_threshold :: rat
  mc_max_candidates :: nat

record DecayReport =
  rp_merged :: nat
  rp_dropped :: nat

text \<open>The tables. \<open>created_at\<close> is a time in seconds; the embedding is stored as text.\<close>

record doc_row =
  dr_rowid :: nat
  dr_id :: string
  dr_content :: string
  dr_path :: "string option"
  dr_created :: int
  dr_meta :: string

record memory_db =
  md_documents :: "doc_row list"
  md_fts :: "(string \<times> string) list"
  md_vec :: "(nat \<times> string) list"

datatype sql_call =
    BeginTx | Commit | UpsertDocument string | DeleteFts string | InsertFts string | DeleteVec nat | InsertVec nat
  | DeleteDocument string | SelectCandidates | SelectVec | SelectFts | SelectDocument string

record memory_env =
  mv_embed :: "string list \<Rightarrow> (MemoryError, rat list list) result"
  mv_show_f32 :: "rat \<Rightarrow> string"
  mv_meta_json :: "MemoryMeta \<Rightarrow> (string, string) result"
  mv_meta_parse :: "string \<Rightarrow> MemoryMeta option"
  mv_fault :: "sql_call \<Rightarrow> string option"
  mv_now :: int
  mv_knn :: "(nat \<times> string) list \<Rightarrow> string \<Rightarrow> nat \<Rightarrow> nat list"
  mv_fts_match :: "(string \<times> string) list \<Rightarrow> string \<Rightarrow> (string, string list) result"
  mv_hash_order :: "(string \<times> rat) list \<Rightarrow> (string \<times> rat) list"
  mv_sqrt :: "rat \<Rightarrow> rat"
  mv_half_pow :: "rat \<Rightarrow> rat"
  mv_decay :: DecayConfig
  mv_merge :: MergeConfig
  mv_workspace :: string
  mv_read :: "string \<Rightarrow> (string, string) result"

definition sqlx_err_to_memory_err :: "string \<Rightarrow> MemoryError" where
  "sqlx_err_to_memory_err e = SearchFailed (''database error: '' @ e)"

definition json_err_to_memory_err :: "string \<Rightarrow> MemoryError" where
  "json_err_to_memory_err e = SearchFailed (''serialization error: '' @ e)"

definition io_err_to_memory_err :: "string \<Rightarrow> MemoryError" where
  "io_err_to_memory_err e = SearchFailed (''io error: '' @ e)"

text \<open>A statement on the state of a transaction, or a query.\<close>

definition sql :: "memory_env \<Rightarrow> sql_call \<Rightarrow> 'a \<Rightarrow> (MemoryError, 'a) result" where
  "sql env call v = (case mv_fault env call of Some e \<Rightarrow> Inl (sqlx_err_to_memory_err e) | None \<Rightarrow> Inr v)"

definition next_rowid :: "doc_row list \<Rightarrow> nat" where
  "next_rowid docs = Suc (foldr max (map dr_rowid docs) 0)"

definition find_document :: "string \<Rightarrow> memory_db \<Rightarrow> doc_row option" where
  "find_document i db = List.find (\<lambda>d. dr_id d = i) (md_documents db)"

definition upsert_document ::
  "string \<Rightarrow> string \<Rightarrow> string option \<Rightarrow> string \<Rightarrow> int \<Rightarrow> memory_db \<Rightarrow> nat \<times> memory_db" where
  "upsert_document i content path meta now db =
     (case find_document i db of
        Some row \<Rightarrow> (dr_rowid row, db\<lparr>md_documents := map (\<lambda>d. if dr_id d = i
            then d\<lparr>dr_content := content, dr_path := path, dr_meta := meta, dr_created := now\<rparr> else d) (md_documents db)\<rparr>)
      | None \<Rightarrow> (let rowid = next_rowid (md_documents db)
          in (rowid, db\<lparr>md_documents := md_documents db @
               [\<lparr>dr_rowid = rowid, dr_id = i, dr_content = content, dr_path = path, dr_created = now, dr_meta = meta\<rparr>]\<rparr>)))"

definition delete_fts :: "string \<Rightarrow> memory_db \<Rightarrow> memory_db" where
  "delete_fts i db = db\<lparr>md_fts := filter (\<lambda>r. fst r \<noteq> i) (md_fts db)\<rparr>"

definition insert_fts :: "string \<Rightarrow> string \<Rightarrow> memory_db \<Rightarrow> memory_db" where
  "insert_fts i content db = db\<lparr>md_fts := md_fts db @ [(i, content)]\<rparr>"

definition delete_vec :: "nat \<Rightarrow> memory_db \<Rightarrow> memory_db" where
  "delete_vec rowid db = db\<lparr>md_vec := filter (\<lambda>r. fst r \<noteq> rowid) (md_vec db)\<rparr>"

definition insert_vec :: "nat \<Rightarrow> string \<Rightarrow> memory_db \<Rightarrow> memory_db" where
  "insert_vec rowid embedding db = db\<lparr>md_vec := md_vec db @ [(rowid, embedding)]\<rparr>"

definition delete_document :: "string \<Rightarrow> memory_db \<Rightarrow> memory_db" where
  "delete_document i db = db\<lparr>md_documents := filter (\<lambda>d. dr_id d \<noteq> i) (md_documents db)\<rparr>"

definition format_vec :: "memory_env \<Rightarrow> rat list \<Rightarrow> string" where
  "format_vec env v = ''['' @ join_with '','' (map (mv_show_f32 env) v) @ '']''"

definition index_tx ::
  "memory_env \<Rightarrow> string \<Rightarrow> string \<Rightarrow> MemoryMeta \<Rightarrow> string \<Rightarrow> rat list \<Rightarrow> memory_db \<Rightarrow> (MemoryError, memory_db) result" where
  "index_tx env i content meta meta_json embedding db =
     bind_result (sql env BeginTx db) (\<lambda>db.
     bind_result (sql env (UpsertDocument i) (upsert_document i content (mm_source meta) meta_json (mv_now env) db)) (\<lambda>(rowid, db).
     bind_result (sql env (DeleteFts i) (delete_fts i db)) (\<lambda>db.
     bind_result (sql env (InsertFts i) (insert_fts i content db)) (\<lambda>db.
     bind_result (sql env (DeleteVec rowid) (delete_vec rowid db)) (\<lambda>db.
     bind_result (sql env (InsertVec rowid) (insert_vec rowid (format_vec env embedding) db)) (\<lambda>db.
     sql env Commit db))))))"

text \<open>A transaction that does not reach its commit is rolled back: this is the documented behaviour of a
  dropped \<^verbatim>\<open>sqlx\<close> transaction on SQLite, which the source relies on.\<close>

definition transact :: "(memory_db \<Rightarrow> (MemoryError, memory_db) result) \<Rightarrow> memory_db \<Rightarrow> (MemoryError, unit) result \<times> memory_db" where
  "transact tx db = (case tx db of Inl e \<Rightarrow> (Inl e, db) | Inr db' \<Rightarrow> (Inr (), db'))"

definition index_with_meta ::
  "memory_env \<Rightarrow> string \<Rightarrow> string \<Rightarrow> MemoryMeta \<Rightarrow> memory_db \<Rightarrow> (MemoryError, unit) result \<times> memory_db" where
  "index_with_meta env i content meta db =
     (if content = [] then (Inr (), db)
      else case mv_embed env [content] of
        Inl e \<Rightarrow> (Inl e, db)
      | Inr [] \<Rightarrow> (Inl (SearchFailed ''empty embedding response''), db)
      | Inr (embedding # _) \<Rightarrow>
          (case mv_meta_json env meta of
             Inl e \<Rightarrow> (Inl (json_err_to_memory_err e), db)
           | Inr meta_json \<Rightarrow> transact (index_tx env i content meta meta_json embedding) db))"

text \<open>The date of an indexed file is its stem when that has ten bytes with hyphens as its fifth and eighth characters.\<close>

definition nth_char_is :: "nat \<Rightarrow> char \<Rightarrow> string \<Rightarrow> bool" where
  "nth_char_is n c s = (let leads = filter (\<lambda>b. \<not> is_continuation b) s in n < length leads \<and> leads ! n = c)"

definition date_stem :: "string \<Rightarrow> bool" where
  "date_stem stem = (length stem = 10 \<and> nth_char_is 4 (CHR ''-'') stem \<and> nth_char_is 7 (CHR ''-'') stem)"

definition index_file :: "memory_env \<Rightarrow> (string \<Rightarrow> string option) \<Rightarrow> string \<Rightarrow> memory_db \<Rightarrow> (MemoryError, unit) result \<times> memory_db" where
  "index_file env file_stem path db =
     (case mv_read env (path_join (mv_workspace env) path) of
        Inl e \<Rightarrow> (Inl (io_err_to_memory_err e), db)
      | Inr content \<Rightarrow>
          index_with_meta env path content
            (default_MemoryMeta\<lparr>mm_source := Some path,
               mm_date := (case file_stem path of None \<Rightarrow> None | Some s \<Rightarrow> if date_stem s then Some s else None),
               mm_kind := Some ''file''\<rparr>) db)"

text \<open>Cosine similarity, over the components both vectors have.\<close>

definition cosine :: "memory_env \<Rightarrow> rat list \<Rightarrow> rat list \<Rightarrow> rat" where
  "cosine env a b =
     (let pairs = zip a b;
          dot = sum_list (map (\<lambda>(x, y). x * y) pairs);
          na = sum_list (map (\<lambda>(x, y). x * x) pairs);
          nb = sum_list (map (\<lambda>(x, y). y * y) pairs)
      in if na = 0 \<or> nb = 0 then 0 else dot / (mv_sqrt env na * mv_sqrt env nb))"

definition decay_factor :: "memory_env \<Rightarrow> rat \<Rightarrow> rat \<Rightarrow> rat" where
  "decay_factor env age_days half_life_days = mv_half_pow env (max age_days 0 / max half_life_days (1 / 1000))"

definition row_kind :: "memory_env \<Rightarrow> doc_row \<Rightarrow> MemoryKind option" where
  "row_kind env row = Option.bind (mv_meta_parse env (dr_meta row)) kind_enum"

text \<open>The newest rows: by creation time, then by rowid, both descending.\<close>

definition newest_first :: "doc_row list \<Rightarrow> doc_row list" where
  "newest_first docs = rev (sort_key dr_created (sort_key dr_rowid docs))"

definition merge_candidates :: "memory_env \<Rightarrow> memory_db \<Rightarrow> doc_row list" where
  "merge_candidates env db =
     filter (\<lambda>d. row_kind env d = Some Episodic \<and> dr_content d \<noteq> [])
       (take (mc_max_candidates (mv_merge env)) (newest_first (md_documents db)))"

text \<open>The double loop over the candidates: the first one left keeps its place and removes the later
  ones that are similar to it. The result is what to delete, in the order of the source, the
  number of groups and the number of removed entries.\<close>

function merge_loop :: "('c \<Rightarrow> 'c \<Rightarrow> bool) \<Rightarrow> 'c list \<Rightarrow> 'c list \<times> nat \<times> nat" where
  "merge_loop similar [] = ([], 0, 0)"
| "merge_loop similar (c # cs) =
     (let dups = filter (similar c) cs;
          (delete, merged, dropped) = merge_loop similar (filter (\<lambda>d. \<not> similar c d) cs)
      in (dups @ delete, (if dups = [] then 0 else 1) + merged, length dups + dropped))"
  by pat_completeness auto
termination by (relation "measure (\<lambda>(_, cs). length cs)") (auto simp: le_imp_less_Suc)

fun delete_entries :: "memory_env \<Rightarrow> (nat \<times> string) list \<Rightarrow> memory_db \<Rightarrow> (MemoryError, memory_db) result" where
  "delete_entries env [] db = Inr db"
| "delete_entries env ((rowid, i) # rest) db =
     bind_result (sql env (DeleteVec rowid) (delete_vec rowid db)) (\<lambda>db.
     bind_result (sql env (DeleteFts i) (delete_fts i db)) (\<lambda>db.
     bind_result (sql env (DeleteDocument i) (delete_document i db)) (\<lambda>db.
     delete_entries env rest db)))"

definition delete_tx :: "memory_env \<Rightarrow> (nat \<times> string) list \<Rightarrow> memory_db \<Rightarrow> (MemoryError, memory_db) result" where
  "delete_tx env dels db =
     bind_result (sql env BeginTx db) (\<lambda>db. bind_result (delete_entries env dels db) (\<lambda>db. sql env Commit db))"

definition no_report :: DecayReport where
  "no_report = \<lparr>rp_merged = 0, rp_dropped = 0\<rparr>"

definition decay_and_merge :: "memory_env \<Rightarrow> memory_db \<Rightarrow> (MemoryError, DecayReport) result \<times> memory_db" where
  "decay_and_merge env db =
     (if \<not> mc_enabled (mv_merge env) then (Inr no_report, db)
      else case sql env SelectCandidates (merge_candidates env db) of
        Inl e \<Rightarrow> (Inl e, db)
      | Inr cands \<Rightarrow>
          (if length cands < 2 then (Inr no_report, db)
           else case mv_embed env (map dr_content cands) of
             Inl e \<Rightarrow> (Inl e, db)
           | Inr vecs \<Rightarrow>
               (if length vecs \<noteq> length cands then (Inl (SearchFailed ''embedding count mismatch during merge''), db)
                else let similar = (\<lambda>(_, u) (_, v). mc_similarity_threshold (mv_merge env) \<le> cosine env u v);
                         (delete, merged, dropped) = merge_loop similar (zip cands vecs);
                         (res, db') = (if delete = [] then (Inr (), db)
                           else transact (delete_tx env (map (\<lambda>(d, _). (dr_rowid d, dr_id d)) delete)) db)
                     in case res of Inl e \<Rightarrow> (Inl e, db') | Inr _ \<Rightarrow> (Inr \<lparr>rp_merged = merged, rp_dropped = dropped\<rparr>, db'))))"

text \<open>Reciprocal rank fusion: the scores of the ids are summed in a hash map, whose iteration order is a parameter, and sorted stably.\<close>

definition rrf_add :: "rat \<Rightarrow> nat \<times> string \<Rightarrow> (string \<times> rat) list \<Rightarrow> (string \<times> rat) list" where
  "rrf_add k = (\<lambda>(rank, i) scores. AList.update i (unwrap_or (map_of scores i) 0 + 1 / (of_nat rank + k)) scores)"

definition rrf_scores :: "rat \<Rightarrow> string list list \<Rightarrow> (string \<times> rat) list" where
  "rrf_scores k rankings = fold (\<lambda>list scores. fold (rrf_add k) (List.enumerate 0 list) scores) rankings []"

text \<open>The source adds scores of type \<^verbatim>\<open>f32\<close>; here they are exact, so that ties of the source that come from
  rounding are not ties of the model.\<close>

definition reciprocal_rank_fusion ::
  "((string \<times> rat) list \<Rightarrow> (string \<times> rat) list) \<Rightarrow> string list list \<Rightarrow> nat \<Rightarrow> rat \<Rightarrow> (string \<times> rat) list" where
  "reciprocal_rank_fusion hash_order rankings top_k k = take top_k (sort_key (\<lambda>e. - snd e) (hash_order (rrf_scores k rankings)))"

definition row_note :: "memory_env \<Rightarrow> rat \<Rightarrow> doc_row \<Rightarrow> MemoryNote" where
  "row_note env score row =
     (let kind = row_kind env row; age_days = of_int (mv_now env - dr_created row) / 86400
      in \<lparr>mn_id = dr_id row, mn_content = dr_content row,
          mn_score = (if dc_enabled (mv_decay env) \<and> kind = Some Episodic
            then score * decay_factor env age_days (dc_half_life_days (mv_decay env)) else score),
          mn_kind = kind\<rparr>)"

fun fetch_notes :: "memory_env \<Rightarrow> memory_db \<Rightarrow> (string \<times> rat) list \<Rightarrow> (MemoryError, MemoryNote list) result" where
  "fetch_notes env db [] = Inr []"
| "fetch_notes env db ((i, score) # rest) =
     bind_result (sql env (SelectDocument i) (find_document i db)) (\<lambda>row.
     bind_result (fetch_notes env db rest) (\<lambda>notes.
     Inr (case row of None \<Rightarrow> notes | Some r \<Rightarrow> row_note env score r # notes)))"

text \<open>(\<open>top_k\<close> is taken to fit \<open>i64\<close>.) The vector look-up returns rowids by distance and is joined with the documents; so is the keyword look-up.\<close>

definition vec_ids :: "memory_env \<Rightarrow> memory_db \<Rightarrow> string \<Rightarrow> nat \<Rightarrow> string list" where
  "vec_ids env db vec top_k =
     take top_k (concat (map (\<lambda>rowid. map dr_id (filter (\<lambda>d. dr_rowid d = rowid) (md_documents db)))
       (mv_knn env (md_vec db) vec top_k)))"

definition fts_ids :: "memory_db \<Rightarrow> string list \<Rightarrow> nat \<Rightarrow> string list" where
  "fts_ids db hits top_k =
     filter (\<lambda>i. i \<noteq> [])
       (take top_k (concat (map (\<lambda>i. map dr_id (filter (\<lambda>d. dr_id d = i) (md_documents db))) hits)))"

definition fts_query :: "memory_env \<Rightarrow> memory_db \<Rightarrow> string \<Rightarrow> (MemoryError, string list) result" where
  "fts_query env db query =
     bind_result (sql env SelectFts ()) (\<lambda>_.
       case mv_fts_match env (md_fts db) query of Inl e \<Rightarrow> Inl (sqlx_err_to_memory_err e) | Inr hits \<Rightarrow> Inr hits)"

definition memory_search :: "memory_env \<Rightarrow> memory_db \<Rightarrow> string \<Rightarrow> nat \<Rightarrow> (MemoryError, MemoryNote list) result" where
  "memory_search env db query top_k =
     (if query = [] \<or> top_k = 0 then Inr []
      else bind_result (mv_embed env [query]) (\<lambda>embeddings.
        case embeddings of
          [] \<Rightarrow> Inl (SearchFailed ''empty query embedding'')
        | embedding # _ \<Rightarrow>
            bind_result (sql env SelectVec (vec_ids env db (format_vec env embedding) top_k)) (\<lambda>vec_results.
            bind_result (fts_query env db query) (\<lambda>hits.
            fetch_notes env db
              (reciprocal_rank_fusion (mv_hash_order env) [vec_results, fts_ids db hits top_k] top_k 60)))))"

text \<open>Reading a memory file: no value stands for a panic of the slice.\<close>

definition resolve_memory_path :: "memory_env \<Rightarrow> string \<Rightarrow> string" where
  "resolve_memory_path env path = (if prefix ''/'' path then path else path_join (mv_workspace env) path)"

definition slice :: "'a list \<Rightarrow> nat \<Rightarrow> nat \<Rightarrow> 'a list option" where
  "slice xs start stop = (if start \<le> stop \<and> stop \<le> length xs then Some (take (stop - start) (drop start xs)) else None)"

definition memory_get :: "memory_env \<Rightarrow> string \<Rightarrow> (nat \<times> nat) option \<Rightarrow> (MemoryError, string) result option" where
  "memory_get env path line_range =
     (let full_path = resolve_memory_path env path
      in case mv_read env full_path of
           Inl e \<Rightarrow> Some (Inl (GetFailed (full_path @ '': '' @ e)))
         | Inr content \<Rightarrow>
             (case line_range of
                None \<Rightarrow> Some (Inr content)
              | Some (start, stop) \<Rightarrow>
                  (let lines = str_lines content
                   in map_option (\<lambda>ls. Inr (join_with [LF] ls)) (slice lines (min start (length lines)) (min stop (length lines))))))"

text \<open>The tools. \<open>fmt3\<close> prints a float with three decimals. Lines are counted from one and turned into
  a range with a wrapping subtraction.\<close>

definition no_backend :: ToolError where
  "no_backend = Execution ''memory backend is not available''"

definition MemorySearchTool_execute ::
  "memory_env \<Rightarrow> (rat \<Rightarrow> string) \<Rightarrow> memory_db option \<Rightarrow> json \<Rightarrow> (ToolError, ToolResult) result" where
  "MemorySearchTool_execute env fmt3 memory params =
     (case json_as_str (json_index params ''query'') of
        None \<Rightarrow> Inl (InvalidParams (''missing '' @ quoted ''query'' @ '' parameter''))
      | Some query \<Rightarrow>
          (case memory of
             None \<Rightarrow> Inl no_backend
           | Some db \<Rightarrow>
               (case memory_search env db query (max (unwrap_or (json_as_u64 (json_index params ''top_k'')) 5) 1) of
                  Inl e \<Rightarrow> Inl (Execution (''memory search failed: '' @ MemoryError_display e))
                | Inr notes \<Rightarrow>
                    Inr (ToolResult_ok (if notes = [] then ''No relevant memories found.''
                      else trim_str (concat (map (\<lambda>n. ''## '' @ mn_id n @ '' (score: '' @ fmt3 (mn_score n) @ '')'' @ [LF] @
                             mn_content n @ [LF, LF]) notes)))))))"

definition USIZE_MAX :: nat where
  "USIZE_MAX = 2 ^ 64 - 1"

definition line_start :: "nat \<Rightarrow> nat" where
  "line_start start = (if start = 0 then USIZE_MAX else start - 1)"

definition MemoryGetTool_execute ::
  "memory_env \<Rightarrow> memory_db option \<Rightarrow> json \<Rightarrow> (ToolError, ToolResult) result option" where
  "MemoryGetTool_execute env memory params =
     (case json_as_str (json_index params ''path'') of
        None \<Rightarrow> Some (Inl (InvalidParams (''missing '' @ quoted ''path'' @ '' parameter'')))
      | Some path \<Rightarrow>
          (case memory of
             None \<Rightarrow> Some (Inl no_backend)
           | Some _ \<Rightarrow>
               (let line_range = (case (json_as_u64 (json_index params ''start_line''), json_as_u64 (json_index params ''end_line'')) of
                      (Some start, Some stop) \<Rightarrow> Some (line_start start, stop)
                    | (Some start, None) \<Rightarrow> Some (line_start start, USIZE_MAX)
                    | (None, Some stop) \<Rightarrow> Some (0, stop)
                    | (None, None) \<Rightarrow> None)
                in map_option (\<lambda>res. case res of
                       Inl e \<Rightarrow> Inl (Execution (''memory get failed: '' @ MemoryError_display e))
                     | Inr content \<Rightarrow> Inr (ToolResult_ok content)) (memory_get env path line_range))))"

definition MemoryIndexTool_execute ::
  "memory_env \<Rightarrow> json \<Rightarrow> memory_db option \<Rightarrow> (ToolError, ToolResult) result \<times> memory_db option" where
  "MemoryIndexTool_execute env params memory =
     (case (json_as_str (json_index params ''id''), json_as_str (json_index params ''content'')) of
        (None, _) \<Rightarrow> (Inl (InvalidParams (''missing '' @ quoted ''id'' @ '' parameter'')), memory)
      | (_, None) \<Rightarrow> (Inl (InvalidParams (''missing '' @ quoted ''content'' @ '' parameter'')), memory)
      | (Some i, Some content) \<Rightarrow>
          (case memory of
             None \<Rightarrow> (Inl no_backend, memory)
           | Some db \<Rightarrow>
               (let meta = default_MemoryMeta\<lparr>mm_source := json_as_str (json_index params ''source''),
                      mm_kind := json_as_str (json_index params ''kind''),
                      mm_tags := (case json_as_array (json_index params ''tags'') of
                          None \<Rightarrow> [] | Some arr \<Rightarrow> List.map_filter json_as_str arr)\<rparr>;
                    (res, db') = index_with_meta env i content meta db
                in (case res of
                      Inl e \<Rightarrow> Inl (Execution (''memory index failed: '' @ MemoryError_display e))
                    | Inr _ \<Rightarrow> Inr (ToolResult_ok (''indexed memory entry '' @ quoted i)), Some db'))))"

subsection \<open>The tables stay consistent\<close>

text \<open>Ids and rowids are unique; the keyword index holds exactly the documents, and the vector index one row for each.\<close>

definition db_ok :: "memory_db \<Rightarrow> bool" where
  "db_ok db =
     (distinct (map dr_id (md_documents db)) \<and> distinct (map dr_rowid (md_documents db)) \<and>
      distinct (map fst (md_fts db)) \<and> set (md_fts db) = (\<lambda>d. (dr_id d, dr_content d)) ` set (md_documents db) \<and>
      distinct (map fst (md_vec db)) \<and> fst ` set (md_vec db) = dr_rowid ` set (md_documents db))"

lemma sql_Inr [memory_simps]: "sql env call v = Inr w \<longleftrightarrow> mv_fault env call = None \<and> w = v"
  by (auto simp: sql_def split: option.splits)

lemma bind_Inr_iff [memory_simps]: "bind_result r f = Inr v \<longleftrightarrow> (\<exists>u. r = Inr u \<and> f u = Inr v)"
  by (cases r) auto

lemma find_document_iff: "db_ok db \<Longrightarrow> find_document i db = Some d \<longleftrightarrow> d \<in> set (md_documents db) \<and> dr_id d = i"
proof -
  assume "db_ok db"
  then have inj: "inj_on dr_id (set (md_documents db))" by (simp add: db_ok_def distinct_map)
  show ?thesis
  proof
    assume "find_document i db = Some d"
    then show "d \<in> set (md_documents db) \<and> dr_id d = i" by (auto simp: find_document_def find_Some_iff)
  next
    assume d: "d \<in> set (md_documents db) \<and> dr_id d = i"
    then obtain e where e: "find_document i db = Some e"
      by (cases "find_document i db") (auto simp: find_document_def find_None_iff)
    then have "e \<in> set (md_documents db) \<and> dr_id e = i" by (auto simp: find_document_def find_Some_iff)
    with d inj have "e = d" by (auto dest: inj_onD)
    with e show "find_document i db = Some d" by simp
  qed
qed

lemma find_document_None: "find_document i db = None \<longleftrightarrow> (\<forall>d\<in>set (md_documents db). dr_id d \<noteq> i)"
  by (auto simp: find_document_def find_None_iff)

lemma rowid_below_next: "d \<in> set docs \<Longrightarrow> dr_rowid d < next_rowid docs"
  by (induction docs) (auto simp: next_rowid_def less_Suc_eq_le le_max_iff_disj)

text \<open>What an upsert with its index updates does to consistent tables.\<close>

definition indexed :: "string \<Rightarrow> string \<Rightarrow> string option \<Rightarrow> string \<Rightarrow> int \<Rightarrow> string \<Rightarrow> memory_db \<Rightarrow> memory_db" where
  "indexed i content path meta now embedding db =
     (let (rowid, db1) = upsert_document i content path meta now db
      in insert_vec rowid embedding (delete_vec rowid (insert_fts i content (delete_fts i db1))))"

lemma index_tx_Inr:
  "index_tx env i content meta mj emb db = Inr db' \<Longrightarrow>
     db' = indexed i content (mm_source meta) mj (mv_now env) (format_vec env emb) db"
  by (auto simp: index_tx_def indexed_def memory_simps split: prod.splits)

lemma upsert_documents:
  assumes ok: "db_ok db" and up: "upsert_document i content path meta now db = (rowid, db1)"
  shows "distinct (map dr_id (md_documents db1))" "distinct (map dr_rowid (md_documents db1))"
    "md_fts db1 = md_fts db" "md_vec db1 = md_vec db"
    "\<exists>row. row \<in> set (md_documents db1) \<and> dr_id row = i \<and> dr_rowid row = rowid \<and> dr_content row = content \<and>
       dr_path row = path \<and> dr_meta row = meta \<and>
       set (md_documents db1) = insert row {d \<in> set (md_documents db). dr_id d \<noteq> i} \<and>
       rowid \<notin> dr_rowid ` {d \<in> set (md_documents db). dr_id d \<noteq> i}"
proof -
  let ?new = "\<lambda>d. d\<lparr>dr_content := content, dr_path := path, dr_meta := meta, dr_created := now\<rparr>"
  let ?up = "\<lambda>d. if dr_id d = i then ?new d else d"
  consider (old) row where "find_document i db = Some row" | (new) "find_document i db = None" by (cases "find_document i db") auto
  then have "distinct (map dr_id (md_documents db1)) \<and> distinct (map dr_rowid (md_documents db1)) \<and>
    md_fts db1 = md_fts db \<and> md_vec db1 = md_vec db \<and>
    (\<exists>row. row \<in> set (md_documents db1) \<and> dr_id row = i \<and> dr_rowid row = rowid \<and> dr_content row = content \<and>
       dr_path row = path \<and> dr_meta row = meta \<and>
       set (md_documents db1) = insert row {d \<in> set (md_documents db). dr_id d \<noteq> i} \<and>
       rowid \<notin> dr_rowid ` {d \<in> set (md_documents db). dr_id d \<noteq> i})"
  proof cases
    case old
    then have row: "row \<in> set (md_documents db)" "dr_id row = i" using find_document_iff [OF ok] by auto
    have db1: "rowid = dr_rowid row" "md_documents db1 = map ?up (md_documents db)" "md_fts db1 = md_fts db" "md_vec db1 = md_vec db"
      using up old by (auto simp: upsert_document_def)
    have ids: "map dr_id (md_documents db1) = map dr_id (md_documents db)" "map dr_rowid (md_documents db1) = map dr_rowid (md_documents db)"
      by (auto simp: db1)
    have inj: "inj_on dr_id (set (md_documents db))" "inj_on dr_rowid (set (md_documents db))" using ok by (auto simp: db_ok_def distinct_map)
    have "dr_id d = i \<longleftrightarrow> d = row" if "d \<in> set (md_documents db)" for d using inj(1) row that by (auto dest: inj_onD)
    then have "set (md_documents db1) = insert (?new row) {d \<in> set (md_documents db). dr_id d \<noteq> i}"
      using row by (auto simp: db1)
    moreover have "dr_rowid row \<notin> dr_rowid ` {d \<in> set (md_documents db). dr_id d \<noteq> i}"
      using inj(2) row by (auto dest: inj_onD)
    moreover have "distinct (map dr_id (md_documents db1))" "distinct (map dr_rowid (md_documents db1))"
      using ok unfolding ids by (auto simp: db_ok_def)
    ultimately show ?thesis using db1(1,3,4) row(2) by (intro conjI exI [of _ "?new row"]) simp_all
  next
    case new
    have db1: "rowid = next_rowid (md_documents db)" "md_fts db1 = md_fts db" "md_vec db1 = md_vec db"
      "md_documents db1 = md_documents db @ [\<lparr>dr_rowid = rowid, dr_id = i, dr_content = content, dr_path = path, dr_created = now, dr_meta = meta\<rparr>]"
      using up new by (auto simp: upsert_document_def Let_def)
    have fresh: "rowid \<notin> dr_rowid ` set (md_documents db)" using rowid_below_next by (fastforce simp: db1)
    have "i \<notin> dr_id ` set (md_documents db)" using new by (auto simp: find_document_None)
    then show ?thesis using ok fresh by (auto simp: db_ok_def db1(2-4))
  qed
  then show "distinct (map dr_id (md_documents db1))" "distinct (map dr_rowid (md_documents db1))"
    "md_fts db1 = md_fts db" "md_vec db1 = md_vec db"
    "\<exists>row. row \<in> set (md_documents db1) \<and> dr_id row = i \<and> dr_rowid row = rowid \<and> dr_content row = content \<and>
       dr_path row = path \<and> dr_meta row = meta \<and>
       set (md_documents db1) = insert row {d \<in> set (md_documents db). dr_id d \<noteq> i} \<and>
       rowid \<notin> dr_rowid ` {d \<in> set (md_documents db). dr_id d \<noteq> i}" by blast+
qed

lemma distinct_fst_filter: "distinct (map fst xs) \<Longrightarrow> distinct (map fst (filter P xs))"
  by (induction xs) auto

lemma indexed_ok:
  assumes ok: "db_ok db" and "db' = indexed i content path meta now emb db"
  shows "db_ok db'"
    "\<exists>row. find_document i db' = Some row \<and> dr_content row = content \<and> dr_path row = path \<and> dr_meta row = meta \<and>
       set (md_documents db') = insert row {d \<in> set (md_documents db). dr_id d \<noteq> i}"
proof -
  obtain rowid db1 where up: "upsert_document i content path meta now db = (rowid, db1)" by fastforce
  note u = upsert_documents [OF ok up]
  obtain row where row: "row \<in> set (md_documents db1)" "dr_id row = i" "dr_rowid row = rowid" "dr_content row = content"
      "dr_path row = path" "dr_meta row = meta" "set (md_documents db1) = insert row {d \<in> set (md_documents db). dr_id d \<noteq> i}"
      "rowid \<notin> dr_rowid ` {d \<in> set (md_documents db). dr_id d \<noteq> i}"
    using u(5) by blast
  have fields: "md_documents db' = md_documents db1" "md_fts db' = filter (\<lambda>r. fst r \<noteq> i) (md_fts db) @ [(i, content)]"
     "md_vec db' = filter (\<lambda>r. fst r \<noteq> rowid) (md_vec db) @ [(rowid, emb)]"
    using assms(2) u(3,4) by (simp_all add: indexed_def up insert_vec_def delete_vec_def insert_fts_def delete_fts_def)
  have fts: "set (md_fts db') = (\<lambda>d. (dr_id d, dr_content d)) ` set (md_documents db')"
    using ok row by (auto simp: fields db_ok_def)
  have vec: "fst ` set (md_vec db') = dr_rowid ` set (md_documents db')"
  proof -
    have "fst ` set (filter (\<lambda>r. fst r \<noteq> rowid) (md_vec db)) = dr_rowid ` set (md_documents db) - {rowid}"
      using ok by (force simp: db_ok_def)
    moreover have "dr_rowid ` {d \<in> set (md_documents db). dr_id d \<noteq> i} \<union> {rowid} = dr_rowid ` set (md_documents db) - {rowid} \<union> {rowid}"
    proof -
      have "dr_rowid d = rowid" if "d \<in> set (md_documents db)" "dr_id d = i" for d
        using up find_document_iff [OF ok, of i d] that by (auto simp: upsert_document_def)
      with row(8) show ?thesis by auto
    qed
    ultimately show ?thesis using row by (auto simp: fields)
  qed
  show "db_ok db'" using ok u(1,2) fts vec by (auto simp: db_ok_def fields intro: distinct_fst_filter)
  then show "\<exists>row. find_document i db' = Some row \<and> dr_content row = content \<and> dr_path row = path \<and> dr_meta row = meta \<and>
       set (md_documents db') = insert row {d \<in> set (md_documents db). dr_id d \<noteq> i}"
    using row find_document_iff [of db' i row] by (auto simp: fields)
qed

lemma index_cases:
  assumes "index_with_meta env i content meta db = (res, db')"
  obtains (unchanged) "db' = db" "res = Inr () \<longrightarrow> content = []"
    | (indexed) mj emb where "mv_meta_json env meta = Inr mj" "content \<noteq> []" "res = Inr ()"
       "db' = indexed i content (mm_source meta) mj (mv_now env) emb db"
proof -
  note d = assms [unfolded index_with_meta_def transact_def]
  show thesis
  proof (cases "content = []")
    case True
    with d that(1) show thesis by auto
  next
    case False
    with d that show thesis
      by (auto split: sum.splits list.splits dest!: index_tx_Inr)
  qed
qed

lemma index_ok: "db_ok db \<Longrightarrow> index_with_meta env i content meta db = (res, db') \<Longrightarrow> db_ok db'"
  by (erule index_cases) (auto intro: indexed_ok(1))

subsection \<open>Merging near-duplicates\<close>

function merge_kept :: "('c \<Rightarrow> 'c \<Rightarrow> bool) \<Rightarrow> 'c list \<Rightarrow> 'c list" where
  "merge_kept similar [] = []"
| "merge_kept similar (c # cs) = c # merge_kept similar (filter (\<lambda>d. \<not> similar c d) cs)"
  by pat_completeness auto
termination by (relation "measure (\<lambda>(_, cs). length cs)") (auto simp: le_imp_less_Suc)

lemma merge_loop_mset: "merge_loop similar cs = (del, merged, dropped) \<Longrightarrow> mset cs = mset (merge_kept similar cs) + mset del \<and> dropped = length del"
proof (induction similar cs arbitrary: del merged dropped rule: merge_loop.induct)
  case (2 similar c cs)
  obtain del' m' d' where rec: "merge_loop similar (filter (\<lambda>d. \<not> similar c d) cs) = (del', m', d')" by (metis prod_cases3)
  let ?rest = "filter (\<lambda>d. \<not> similar c d) cs" and ?dups = "filter (similar c) cs"
  have rest: "mset ?rest = mset (merge_kept similar ?rest) + mset del'" "d' = length del'"
    using 2(1) [OF refl rec] by auto
  have del: "del = ?dups @ del'" "dropped = length ?dups + d'"
    using 2(2) rec by (auto simp: Let_def)
  have split: "mset cs = mset ?rest + mset ?dups" by (induction cs) auto
  have "mset (c # cs) = add_mset c (mset (merge_kept similar ?rest) + mset del' + mset ?dups)"
    by (simp only: mset.simps split rest(1))
  also have "\<dots> = mset (merge_kept similar (c # cs)) + mset (?dups @ del')"
    by (simp add: add.commute [of "mset del'"] add.assoc del: mset_filter)
  finally show ?case unfolding del rest(2) by simp
qed simp

lemma merge_loop_represented:
  "merge_loop similar cs = (del, merged, dropped) \<Longrightarrow> sorted_wrt R cs \<Longrightarrow> d \<in> set del \<Longrightarrow>
     \<exists>k\<in>set (merge_kept similar cs). R k d \<and> similar k d"
proof (induction similar cs arbitrary: del merged dropped rule: merge_loop.induct)
  case (2 similar c cs)
  obtain del' m' d' where rec: "merge_loop similar (filter (\<lambda>d. \<not> similar c d) cs) = (del', m', d')" by (metis prod_cases3)
  have "del = filter (similar c) cs @ del'" using 2(2) rec by (auto simp: Let_def)
  then consider "d \<in> set cs" "similar c d" | "d \<in> set del'" using 2(4) by auto
  then show ?case
  proof cases
    case 1
    with 2(3) show ?thesis by auto
  next
    case 2
    moreover have "sorted_wrt R (filter (\<lambda>d. \<not> similar c d) cs)" using "2.prems"(2) by (simp add: sorted_wrt_filter)
    ultimately show ?thesis using "2.IH" [OF refl rec] by auto
  qed
qed simp

lemma merge_kept_subset: "set (merge_kept similar cs) \<subseteq> set cs"
  by (induction similar cs rule: merge_kept.induct) auto

lemma merge_kept_dissimilar: "sorted_wrt (\<lambda>a b. \<not> similar a b) (merge_kept similar cs)"
proof (induction similar cs rule: merge_kept.induct)
  case (2 similar c cs)
  then show ?case using merge_kept_subset [of similar "filter (\<lambda>d. \<not> similar c d) cs"] by auto
qed simp

lemma newest_first_sorted: "sorted_wrt (\<lambda>a b. dr_created b \<le> dr_created a) (newest_first docs)"
proof -
  have "sorted (map dr_created (sort_key dr_created (sort_key dr_rowid docs)))" by (rule sorted_sort_key)
  then show ?thesis by (simp add: newest_first_def sorted_wrt_rev sorted_wrt_map)
qed

lemma candidates_sorted: "sorted_wrt (\<lambda>a b. dr_created b \<le> dr_created a) (merge_candidates env db)"
  unfolding merge_candidates_def by (intro sorted_wrt_filter sorted_wrt_take newest_first_sorted)

lemma candidates_subset: "set (merge_candidates env db) \<subseteq> {d \<in> set (md_documents db). row_kind env d = Some Episodic}"
  by (auto simp: merge_candidates_def newest_first_def dest!: in_set_takeD)

lemma candidates_distinct: "db_ok db \<Longrightarrow> distinct (merge_candidates env db)"
  by (auto simp: merge_candidates_def newest_first_def db_ok_def distinct_map intro!: distinct_filter distinct_take)

lemma delete_entries_Inr:
  "delete_entries env dels db = Inr db' \<Longrightarrow>
     md_documents db' = filter (\<lambda>d. dr_id d \<notin> snd ` set dels) (md_documents db) \<and>
     md_fts db' = filter (\<lambda>r. fst r \<notin> snd ` set dels) (md_fts db) \<and>
     md_vec db' = filter (\<lambda>r. fst r \<notin> fst ` set dels) (md_vec db)"
proof (induction env dels db rule: delete_entries.induct)
  case (2 env rowid i rest db)
  then show ?case
    by (auto simp: memory_simps delete_vec_def delete_fts_def delete_document_def intro!: filter_cong)
qed simp

lemma delete_ok:
  assumes ok: "db_ok db" and del: "delete_entries env (map (\<lambda>d. (dr_rowid d, dr_id d)) ds) db = Inr db'"
    and ds: "set ds \<subseteq> set (md_documents db)"
  shows "db_ok db'" "md_documents db' = filter (\<lambda>d. d \<notin> set ds) (md_documents db)"
proof -
  let ?docs = "md_documents db"
  have inj: "inj_on dr_id (set ?docs)" "inj_on dr_rowid (set ?docs)" using ok by (auto simp: db_ok_def distinct_map)
  have fields: "md_documents db' = filter (\<lambda>d. dr_id d \<notin> dr_id ` set ds) ?docs"
    "md_fts db' = filter (\<lambda>r. fst r \<notin> dr_id ` set ds) (md_fts db)" "md_vec db' = filter (\<lambda>r. fst r \<notin> dr_rowid ` set ds) (md_vec db)"
    using delete_entries_Inr [OF del] by (simp_all add: image_image)
  have mem: "dr_id d \<in> dr_id ` set ds \<longleftrightarrow> d \<in> set ds" "dr_rowid d \<in> dr_rowid ` set ds \<longleftrightarrow> d \<in> set ds" if "d \<in> set ?docs" for d
    using inj ds that by (auto dest: inj_onD)
  show docs: "md_documents db' = filter (\<lambda>d. d \<notin> set ds) ?docs"
    unfolding fields(1) by (rule filter_cong) (auto simp: mem)
  have fts: "set (md_fts db) = (\<lambda>d. (dr_id d, dr_content d)) ` set ?docs" and vec: "fst ` set (md_vec db) = dr_rowid ` set ?docs"
    using ok by (auto simp: db_ok_def)
  have "set (md_fts db') = (\<lambda>d. (dr_id d, dr_content d)) ` set (md_documents db')"
  proof -
    have "set (md_fts db') = {r \<in> (\<lambda>d. (dr_id d, dr_content d)) ` set ?docs. fst r \<notin> dr_id ` set ds}" by (simp add: fields(2) fts)
    also have "\<dots> = (\<lambda>d. (dr_id d, dr_content d)) ` {d \<in> set ?docs. dr_id d \<notin> dr_id ` set ds}" by auto
    also have "{d \<in> set ?docs. dr_id d \<notin> dr_id ` set ds} = set (md_documents db')" unfolding docs using mem(1) by auto
    finally show ?thesis .
  qed
  moreover have "fst ` set (md_vec db') = dr_rowid ` set (md_documents db')"
  proof -
    have "fst ` set (md_vec db') = fst ` set (md_vec db) - dr_rowid ` set ds" by (auto simp: fields(3))
    also have "\<dots> = dr_rowid ` set (md_documents db')" unfolding vec docs using mem(2) by auto
    finally show ?thesis .
  qed
  ultimately show "db_ok db'"
    using ok unfolding db_ok_def docs fields(2,3) by (auto intro: distinct_fst_filter simp: distinct_map inj_on_def)
qed

lemma delete_tx_Inr: "delete_tx env dels db = Inr db' \<Longrightarrow> delete_entries env dels db = Inr db'"
  by (auto simp: delete_tx_def memory_simps)

text \<open>The entries left after a merge, with their vectors.\<close>

abbreviation similar_vecs :: "memory_env \<Rightarrow> doc_row \<times> rat list \<Rightarrow> doc_row \<times> rat list \<Rightarrow> bool" where
  "similar_vecs env \<equiv> (\<lambda>(_, u) (_, v). mc_similarity_threshold (mv_merge env) \<le> cosine env u v)"

lemma merge_cases:
  assumes "decay_and_merge env db = (Inr report, db')"
  obtains (nothing) "db' = db" "report = no_report"
    | (merged) vecs delete where "mv_embed env (map dr_content (merge_candidates env db)) = Inr vecs"
      "length vecs = length (merge_candidates env db)"
      "merge_loop (similar_vecs env) (zip (merge_candidates env db) vecs) = (delete, rp_merged report, rp_dropped report)"
      "delete_entries env (map (\<lambda>d. (dr_rowid d, dr_id d)) (map fst delete)) db = Inr db'"
proof -
  note d = assms [unfolded decay_and_merge_def]
  consider "db' = db \<and> report = no_report" |
    vecs delete merged dropped where "sql env SelectCandidates (merge_candidates env db) = Inr (merge_candidates env db)"
      "mv_embed env (map dr_content (merge_candidates env db)) = Inr vecs" "length vecs = length (merge_candidates env db)"
      "merge_loop (similar_vecs env) (zip (merge_candidates env db) vecs) = (delete, merged, dropped)"
      "report = \<lparr>rp_merged = merged, rp_dropped = dropped\<rparr>"
      "(if delete = [] then (Inr (), db) else transact (delete_tx env (map (\<lambda>(d, _). (dr_rowid d, dr_id d)) delete)) db) = (Inr (), db')"
    using d by (auto simp: Let_def memory_simps split: if_splits sum.splits prod.splits)
  then show thesis
  proof cases
    case 1
    with that(1) show thesis by blast
  next
    case (2 vecs delete merged dropped)
    have "delete_entries env (map (\<lambda>d. (dr_rowid d, dr_id d)) (map fst delete)) db = Inr db'"
    proof (cases "delete = []")
      case False
      then have "delete_tx env (map (\<lambda>(d, _). (dr_rowid d, dr_id d)) delete) db = Inr db'"
        using 2(6) by (auto simp: transact_def split: sum.splits)
      moreover have "map (\<lambda>(d, _). (dr_rowid d, dr_id d)) delete = map (\<lambda>d. (dr_rowid d, dr_id d)) (map fst delete)" by auto
      ultimately have "delete_tx env (map (\<lambda>d. (dr_rowid d, dr_id d)) (map fst delete)) db = Inr db'" by simp
      then show ?thesis by (rule delete_tx_Inr)
    qed (use 2(6) in simp)
    with 2 show thesis by (intro that(2) [of vecs delete]) auto
  qed
qed

lemma zip_left_distinct: "distinct xs \<Longrightarrow> distinct (zip xs ys)"
  by (rule distinct_zipI1)

text \<open>C27. Merging keeps a representative of everything it removes. When a merge succeeds, the tables stay consistent and the
  report counts exactly the removed documents; every removed document was episodic, and a kept episodic document that
  is at least as new has an embedding whose similarity to its own reaches the threshold.\<close>

theorem merge_keeps_representatives:
  assumes ok: "db_ok db" and run: "decay_and_merge env db = (Inr report, db')"
  shows "db_ok db' \<and> set (md_documents db') \<subseteq> set (md_documents db) \<and>
    length (md_documents db) = length (md_documents db') + rp_dropped report \<and>
    (\<forall>d\<in>set (md_documents db) - set (md_documents db').
       row_kind env d = Some Episodic \<and>
       (\<exists>vecs u v. \<exists>e\<in>set (md_documents db').
          row_kind env e = Some Episodic \<and> dr_created d \<le> dr_created e \<and>
          mv_embed env (map dr_content (merge_candidates env db)) = Inr vecs \<and>
          {(d, v), (e, u)} \<subseteq> set (zip (merge_candidates env db) vecs) \<and>
          mc_similarity_threshold (mv_merge env) \<le> cosine env u v))"
  using run
proof (cases rule: merge_cases)
  case nothing
  with ok show ?thesis by (simp add: no_report_def)
next
  case (merged vecs delete)
  let ?cands = "merge_candidates env db" and ?kept = "merge_kept (similar_vecs env) (zip (merge_candidates env db) vecs)"
  have ms: "mset (zip ?cands vecs) = mset ?kept + mset delete" "rp_dropped report = length delete"
    using merge_loop_mset [OF merged(3)] by auto
  have dist: "distinct (map fst (zip ?cands vecs))" using merged(2) candidates_distinct [OF ok] by simp
  have "image_mset fst (mset (zip ?cands vecs)) = image_mset fst (mset ?kept) + image_mset fst (mset delete)" by (simp add: ms(1))
  then have "mset (map fst (zip ?cands vecs)) = mset (map fst ?kept @ map fst delete)" by simp
  then have dist2: "distinct (map fst ?kept @ map fst delete)" using dist by (metis mset_eq_imp_distinct_iff)
  have zset: "set (zip ?cands vecs) = set ?kept \<union> set delete" using arg_cong [OF ms(1), of set_mset] by simp
  have inc: "fst ` set (zip ?cands vecs) \<subseteq> set ?cands" by (auto dest: set_zip_leftD)
  have dsub: "set (map fst delete) \<subseteq> set (md_documents db)" using zset inc candidates_subset [of env db] by fastforce
  note del = delete_ok [OF ok merged(4) dsub]
  have len: "length (md_documents db) = length (md_documents db') + length delete"
  proof -
    let ?out = "filter (\<lambda>d. d \<in> set (map fst delete)) (md_documents db)"
    have "distinct (md_documents db)" using ok by (auto simp: db_ok_def distinct_map)
    then have "length ?out = card (set ?out)" by (simp only: distinct_card distinct_filter)
    also have "set ?out = set (map fst delete)" using dsub by auto
    also have "card \<dots> = length delete" using dist2 distinct_card [of "map fst delete"] by simp
    finally show ?thesis unfolding del(2) using sum_length_filter_compl [of "\<lambda>d. d \<in> set (map fst delete)" "md_documents db"] by simp
  qed
  have rep: "row_kind env d = Some Episodic \<and> (\<exists>u v. \<exists>e\<in>set (md_documents db').
      row_kind env e = Some Episodic \<and> dr_created d \<le> dr_created e \<and>
      {(d, v), (e, u)} \<subseteq> set (zip ?cands vecs) \<and> mc_similarity_threshold (mv_merge env) \<le> cosine env u v)"
    if gone: "d \<in> set (md_documents db) - set (md_documents db')" for d
  proof -
    obtain v where dv: "(d, v) \<in> set delete" using gone by (auto simp: del(2))
    have "sorted_wrt (\<lambda>a b. dr_created b \<le> dr_created a) (map fst (zip ?cands vecs))"
      using merged(2) candidates_sorted [of env db] by simp
    then have "sorted_wrt (\<lambda>a b. dr_created (fst b) \<le> dr_created (fst a)) (zip ?cands vecs)" by (simp add: sorted_wrt_map)
    from merge_loop_represented [OF merged(3) this dv] obtain e u where
      eu: "(e, u) \<in> set ?kept" "dr_created d \<le> dr_created e" "mc_similarity_threshold (mv_merge env) \<le> cosine env u v" by auto
    have ins: "(d, v) \<in> set (zip ?cands vecs)" "(e, u) \<in> set (zip ?cands vecs)" using dv eu(1) zset by auto
    then have kinds: "e \<in> set (md_documents db)" "row_kind env e = Some Episodic" "row_kind env d = Some Episodic"
      using candidates_subset [of env db] by (auto dest!: set_zip_leftD)
    have "e \<notin> set (map fst delete)" using dist2 eu(1) by (force simp: disjoint_iff)
    then have "e \<in> set (md_documents db')" using kinds(1) by (simp add: del(2))
    with kinds ins eu(2,3) show ?thesis by blast
  qed
  have sub: "set (md_documents db') \<subseteq> set (md_documents db)" by (auto simp: del(2))
  show ?thesis
  proof (intro conjI ballI)
    fix d assume "d \<in> set (md_documents db) - set (md_documents db')"
    note r = rep [OF this]
    show "row_kind env d = Some Episodic" using r by (rule conjunct1)
    show "\<exists>vecs u v. \<exists>e\<in>set (md_documents db').
          row_kind env e = Some Episodic \<and> dr_created d \<le> dr_created e \<and>
          mv_embed env (map dr_content ?cands) = Inr vecs \<and> {(d, v), (e, u)} \<subseteq> set (zip ?cands vecs) \<and>
          mc_similarity_threshold (mv_merge env) \<le> cosine env u v"
      using r merged(1) by (intro exI [of _ vecs]) auto
  qed (use del(1) len ms(2) sub in auto)
qed

subsection \<open>Ranking\<close>

text \<open>The score of an id: the sum of its reciprocal ranks in all rankings.\<close>

definition rrf_score :: "rat \<Rightarrow> string list list \<Rightarrow> string \<Rightarrow> rat" where
  "rrf_score k rankings i =
     sum_list (map (\<lambda>ranking. sum_list (map (\<lambda>(rank, j). if j = i then 1 / (of_nat rank + k) else 0) (List.enumerate 0 ranking))) rankings)"

lemma rrf_add_fold:
  "distinct (map fst scores) \<Longrightarrow> distinct (map fst (fold (rrf_add k) es scores)) \<and>
     fst ` set (fold (rrf_add k) es scores) = fst ` set scores \<union> snd ` set es \<and>
     (\<forall>i. unwrap_or (map_of (fold (rrf_add k) es scores) i) 0 =
        unwrap_or (map_of scores i) 0 + sum_list (map (\<lambda>(rank, j). if j = i then 1 / (of_nat rank + k) else 0) es))"
proof (induction es arbitrary: scores)
  case (Cons e es)
  obtain rank i where e: "e = (rank, i)" by fastforce
  have "distinct (map fst (rrf_add k e scores))" using Cons.prems by (simp add: e rrf_add_def distinct_update)
  note IH = Cons.IH [OF this]
  have "set (map fst (rrf_add k e scores)) = insert i (set (map fst scores))"
    unfolding e rrf_add_def split_conv update_keys by auto
  then have "fst ` set (rrf_add k e scores) = insert i (fst ` set scores)" by simp
  moreover have "unwrap_or (map_of (rrf_add k e scores) j) 0 =
      unwrap_or (map_of scores j) 0 + (if i = j then 1 / (of_nat rank + k) else 0)" for j
    by (simp add: e rrf_add_def update_conv')
  ultimately show ?case using IH by (simp add: e)
qed simp

lemma rrf_scores_spec:
  "distinct (map fst (rrf_scores k rankings)) \<and> fst ` set (rrf_scores k rankings) = \<Union> (set ` set rankings) \<and>
   (\<forall>i. unwrap_or (map_of (rrf_scores k rankings) i) 0 = rrf_score k rankings i)"
proof -
  have "distinct (map fst scores) \<Longrightarrow>
     (let out = fold (\<lambda>list scores. fold (rrf_add k) (List.enumerate 0 list) scores) rankings scores
      in distinct (map fst out) \<and> fst ` set out = fst ` set scores \<union> \<Union> (set ` set rankings) \<and>
         (\<forall>i. unwrap_or (map_of out i) 0 = unwrap_or (map_of scores i) 0 + rrf_score k rankings i))" for scores
  proof (induction rankings arbitrary: scores)
    case (Cons r rs)
    note a = rrf_add_fold [OF Cons.prems, of k "List.enumerate 0 r"]
    have sr: "snd ` set (List.enumerate 0 r) = set r" by (metis list.set_map map_snd_enumerate)
    note Cons.IH [OF conjunct1 [OF a]]
    then show ?case using a by (auto simp: Let_def rrf_score_def sr add.assoc)
  qed (simp add: rrf_score_def)
  from this [of "[]"] show ?thesis by (simp add: rrf_scores_def Let_def)
qed

lemma fusion_spec:
  assumes perm: "\<And>xs. mset (hash_order xs) = mset xs"
  shows "(let out = reciprocal_rank_fusion hash_order rankings top_k k; ids = \<Union> (set ` set rankings)
    in distinct (map fst out) \<and> fst ` set out \<subseteq> ids \<and> length out = min top_k (card ids) \<and>
       (\<forall>(i, score)\<in>set out. score = rrf_score k rankings i) \<and> sorted_wrt (\<lambda>a b. snd b \<le> snd a) out \<and>
       (\<forall>j\<in>ids - fst ` set out. \<forall>(i, score)\<in>set out. rrf_score k rankings j \<le> score))"
proof -
  let ?sc = "rrf_scores k rankings" and ?ids = "\<Union> (set ` set rankings)"
  let ?all = "sort_key (\<lambda>e. - snd e) (hash_order ?sc)"
  let ?out = "take top_k ?all"
  have spec: "distinct (map fst ?sc)" "fst ` set ?sc = ?ids" "\<And>i. unwrap_or (map_of ?sc i) 0 = rrf_score k rankings i"
    using rrf_scores_spec [of k rankings] by auto
  have ms: "mset ?all = mset ?sc" using perm by simp
  then have set_all: "set ?all = set ?sc" by (metis set_mset_mset)
  have "mset (map fst ?all) = mset (map fst ?sc)" using ms by (metis mset_map)
  then have dist: "distinct (map fst ?all)" using spec(1) by (metis mset_eq_imp_distinct_iff)
  have len: "length ?all = card ?ids"
    using spec(1,2) ms distinct_card [of "map fst ?sc"] by (metis length_map list.set_map size_mset)
  have sorted: "sorted_wrt (\<lambda>a b. snd b \<le> snd a) ?all"
    using sorted_sort_key [of "\<lambda>e. - snd e" "hash_order ?sc"] by (simp add: sorted_wrt_map)
  have score: "s = rrf_score k rankings i" if "(i, s) \<in> set ?sc" for i s
    using spec(3) [of i] map_of_is_SomeI [OF spec(1) that] by simp
  have dist_out: "distinct (map fst ?out)" using dist by (metis distinct_take take_map)
  have rest: "rrf_score k rankings j \<le> s" if j: "j \<in> ?ids - fst ` set ?out" and o: "(i, s) \<in> set ?out" for i j s
  proof -
    obtain t where t: "(j, t) \<in> set ?sc" using j spec(2) by (metis DiffD1 imageE prod.collapse)
    have "(j, t) \<in> set (drop top_k ?all)"
    proof -
      have "(j, t) \<in> set (?out @ drop top_k ?all)" using t set_all by (simp only: append_take_drop_id)
      moreover have "(j, t) \<notin> set ?out" using j by (auto simp: rev_image_eqI)
      ultimately show ?thesis by (simp only: set_append Un_iff) simp
    qed
    moreover have "\<forall>x\<in>set ?out. \<forall>y\<in>set (drop top_k ?all). snd y \<le> snd x"
      using sorted sorted_wrt_append [of "\<lambda>a b. snd b \<le> snd a" ?out "drop top_k ?all"] unfolding append_take_drop_id by blast
    ultimately have "snd (j, t) \<le> snd (i, s)" using o by blast
    then have "t \<le> s" by simp
    with score [OF t] show ?thesis by simp
  qed
  have sub: "set ?out \<subseteq> set ?sc" using set_take_subset [of top_k ?all] unfolding set_all .
  show ?thesis
    unfolding reciprocal_rank_fusion_def Let_def
  proof (intro conjI)
    show "fst ` set ?out \<subseteq> ?ids" using sub spec(2) by auto
    show "length ?out = min top_k (card ?ids)" using len by simp
    show "sorted_wrt (\<lambda>a b. snd b \<le> snd a) ?out" by (rule sorted_wrt_take [OF sorted])
    show "\<forall>(i, s)\<in>set ?out. s = rrf_score k rankings i" using sub score by blast
  qed (use dist_out rest in blast)+
qed

text \<open>C28. Fusion is the top of the ranking by summed reciprocal ranks. For every iteration order of the hash map, the result
  lists distinct ids of the rankings with their summed scores, best first, as many as asked for if there are as many, and no id left out
  has a higher score than one listed.\<close>

theorem rank_fusion_is_top_k:
  assumes perm: "\<And>xs. mset (hash_order xs) = mset xs"
  shows "(let out = reciprocal_rank_fusion hash_order rankings top_k k; ids = \<Union> (set ` set rankings)
    in distinct (map fst out) \<and> fst ` set out \<subseteq> ids \<and> length out = min top_k (card ids) \<and>
       (\<forall>(i, score)\<in>set out. score = rrf_score k rankings i) \<and> sorted_wrt (\<lambda>a b. snd b \<le> snd a) out \<and>
       (\<forall>j\<in>ids - fst ` set out. \<forall>(i, score)\<in>set out. rrf_score k rankings j \<le> score))"
  using fusion_spec [OF perm] .

text \<open>At a concrete input: two rankings of three ids and the identity as iteration order.\<close>

theorem rank_fusion_is_top_k_witness:
  "(let out = reciprocal_rank_fusion (\<lambda>xs. xs) [[''a'', ''b''], [''b'', ''c'']] 2 60; ids = {''a'', ''b'', ''c''}
    in distinct (map fst out) \<and> fst ` set out \<subseteq> ids \<and> length out = 2 \<and> sorted_wrt (\<lambda>a b. snd b \<le> snd a) out)"
  using rank_fusion_is_top_k [of "\<lambda>xs. xs" "[[''a'', ''b''], [''b'', ''c'']]" 2 60]
  by (simp add: Let_def insert_commute)

subsection \<open>Indexing\<close>

text \<open>C26. Indexing an entry is all or nothing. The tables stay consistent: ids and rowids are unique, and the two search
  indexes hold exactly the documents. After a success with a text that is not empty the entry is found with its text, source and
  metadata and every other document is unchanged; after an error nothing has changed.\<close>

theorem index_is_atomic:
  assumes ok: "db_ok db" and run: "index_with_meta env i content meta db = (res, db')"
  shows "db_ok db' \<and>
    (case res of
       Inl _ \<Rightarrow> db' = db
     | Inr _ \<Rightarrow>
         if content = [] then db' = db
         else \<exists>row. find_document i db' = Some row \<and> dr_content row = content \<and> dr_path row = mm_source meta \<and>
           mv_meta_json env meta = Inr (dr_meta row) \<and>
           set (md_documents db') = insert row {d \<in> set (md_documents db). dr_id d \<noteq> i})"
  using run
proof (cases rule: index_cases)
  case unchanged
  then show ?thesis using ok by (cases res) auto
next
  case (indexed mj emb)
  then show ?thesis using indexed_ok [OF ok indexed(4)] by auto
qed

definition toy_env :: memory_env where
  "toy_env = \<lparr>mv_embed = (\<lambda>ts. Inr (map (\<lambda>t. [of_nat (length t), 1]) ts)), mv_show_f32 = (\<lambda>_. ''1''),
     mv_meta_json = (\<lambda>m. Inr (unwrap_or (mm_kind m) [])), mv_meta_parse = (\<lambda>s. Some (default_MemoryMeta\<lparr>mm_kind := Some s\<rparr>)),
     mv_fault = (\<lambda>_. None), mv_now = 100, mv_knn = (\<lambda>rows _ k. take k (map fst rows)), mv_fts_match = (\<lambda>_ _. Inr []),
     mv_hash_order = (\<lambda>xs. xs), mv_sqrt = (\<lambda>x. x), mv_half_pow = (\<lambda>_. 1), mv_decay = \<lparr>dc_enabled = False, dc_half_life_days = 30\<rparr>,
     mv_merge = \<lparr>mc_enabled = True, mc_similarity_threshold = 1 / 100, mc_max_candidates = 200\<rparr>, mv_workspace = ''/w'',
     mv_read = (\<lambda>_. Inl ''missing'')\<rparr>"

definition toy_db :: memory_db where
  "toy_db = \<lparr>md_documents = [\<lparr>dr_rowid = 1, dr_id = ''a'', dr_content = ''xy'', dr_path = None, dr_created = 5, dr_meta = ''episodic''\<rparr>,
       \<lparr>dr_rowid = 2, dr_id = ''b'', dr_content = ''xy'', dr_path = None, dr_created = 7, dr_meta = ''episodic''\<rparr>],
     md_fts = [(''a'', ''xy''), (''b'', ''xy'')], md_vec = [(1, ''[1,1]''), (2, ''[1,1]'')]\<rparr>"

lemma toy_db_ok: "db_ok toy_db"
  by (simp add: db_ok_def toy_db_def insert_commute)

theorem index_is_atomic_witness:
  "db_ok toy_db \<and> find_document ''a'' (snd (index_with_meta toy_env ''a'' ''new'' default_MemoryMeta toy_db)) \<noteq> None"
proof -
  obtain res db' where run: "index_with_meta toy_env ''a'' ''new'' default_MemoryMeta toy_db = (res, db')" by fastforce
  have "res = Inr ()"
    using run by (auto simp: index_with_meta_def toy_env_def transact_def index_tx_def sql_def split: sum.splits prod.splits)
  then show ?thesis using index_is_atomic [OF toy_db_ok run] run toy_db_ok by auto
qed

lemma toy_merge: "decay_and_merge toy_env toy_db =
    (Inr \<lparr>rp_merged = 1, rp_dropped = 1\<rparr>, delete_document ''a'' (delete_fts ''a'' (delete_vec 1 toy_db)))"
  by (simp add: decay_and_merge_def toy_env_def toy_db_def merge_candidates_def newest_first_def row_kind_def kind_enum_def
      parse_MemoryKind_def default_MemoryMeta_def sql_def cosine_def Let_def transact_def delete_tx_def insort_key.simps)

theorem merge_keeps_representatives_witness:
  "db_ok toy_db \<and> length (md_documents toy_db) = length (md_documents (snd (decay_and_merge toy_env toy_db))) + 1"
  using merge_keeps_representatives [OF toy_db_ok toy_merge] toy_db_ok by (simp add: toy_merge)

subsection \<open>Searching\<close>

text \<open>The keyword index parses the query as an expression of its own syntax, and an error there is an error of the whole search: what the
  vector index found is lost.\<close>

lemma keyword_error_fails_search:
  assumes "query \<noteq> []" "top_k \<noteq> 0" "mv_fts_match env (md_fts db) query = Inl e" "mv_fault env SelectFts = None"
  shows "\<exists>err. memory_search env db query top_k = Inl err"
proof -
  have fts: "fts_query env db query = Inl (sqlx_err_to_memory_err e)" using assms by (simp add: fts_query_def sql_def)
  show ?thesis
  proof (cases "mv_embed env [query]")
    case (Inr es)
    with assms(1,2) show ?thesis by (cases es) (auto simp: memory_search_def fts sql_def split: option.splits)
  qed (use assms(1,2) in \<open>simp add: memory_search_def\<close>)
qed

lemma subseq_distinct_ids: "subseq xs ys \<Longrightarrow> distinct ys \<Longrightarrow> distinct xs"
  by (induction rule: list_emb.induct) (auto dest: list_emb_set)

lemma fetch_notes_spec:
  "fetch_notes env db es = Inr found \<Longrightarrow>
     (\<forall>n\<in>set found. \<exists>(i, s)\<in>set es. \<exists>row. find_document i db = Some row \<and> n = row_note env s row) \<and> length found \<le> length es \<and>
     subseq (map mn_id found) (map fst es)"
proof (induction es arbitrary: found)
  case (Cons e rest)
  obtain i score where e: "e = (i, score)" by fastforce
  obtain ns where ns: "fetch_notes env db rest = Inr ns"
    and found: "found = (case find_document i db of None \<Rightarrow> ns | Some r \<Rightarrow> row_note env score r # ns)"
    using Cons.prems by (auto simp: memory_simps e)
  note IH = Cons.IH [OF ns]
  show ?case
  proof (cases "find_document i db")
    case None
    with found IH show ?thesis by (auto simp: e)
  next
    case (Some r)
    then have "dr_id r = i" by (auto simp: find_document_def find_Some_iff)
    with Some found IH show ?thesis by (auto simp: e row_note_def Let_def)
  qed
qed simp

text \<open>A search answers with stored entries: each note carries the id and the text of a document, no id twice, at most \<open>top_k\<close>.\<close>

lemma search_notes:
  assumes "\<And>xs. mset (mv_hash_order env xs) = mset xs" "memory_search env db query top_k = Inr notes"
  shows "distinct (map mn_id notes)" "length notes \<le> top_k"
    "\<forall>n\<in>set notes. \<exists>row\<in>set (md_documents db). mn_id n = dr_id row \<and> mn_content n = dr_content row"
proof -
  have "distinct (map mn_id notes) \<and> length notes \<le> top_k \<and>
     (\<forall>n\<in>set notes. \<exists>row\<in>set (md_documents db). mn_id n = dr_id row \<and> mn_content n = dr_content row)"
  proof (cases "query = [] \<or> top_k = 0")
    case True
    then show ?thesis using assms(2) by (auto simp: memory_search_def)
  next
    case False
    obtain es where es: "mv_embed env [query] = Inr es" "es \<noteq> []"
      using assms(2) False by (cases "mv_embed env [query]") (auto simp: memory_search_def split: list.splits)
    then obtain rs where "fetch_notes env db (reciprocal_rank_fusion (mv_hash_order env) rs top_k 60) = Inr notes"
      using assms(2) False by (cases es) (auto simp: memory_search_def memory_simps)
    note f = fetch_notes_spec [OF this]
    have r: "distinct (map fst (reciprocal_rank_fusion (mv_hash_order env) rs top_k 60))"
      "length (reciprocal_rank_fusion (mv_hash_order env) rs top_k 60) \<le> top_k"
      using fusion_spec [OF assms(1)] by (auto simp: Let_def)
    have "row \<in> set (md_documents db)" if "find_document i db = Some row" for i row
      using that by (auto simp: find_document_def find_Some_iff)
    then show ?thesis using f r by (fastforce simp: row_note_def Let_def dest: subseq_distinct_ids)
  qed
  then show "distinct (map mn_id notes)" "length notes \<le> top_k"
    "\<forall>n\<in>set notes. \<exists>row\<in>set (md_documents db). mn_id n = dr_id row \<and> mn_content n = dr_content row" by auto
qed

text \<open>A line range that ends before it starts, which a start line of 0 makes of almost every range, panics.\<close>

lemma memory_get_panics:
  assumes "mv_read env (resolve_memory_path env path) = Inr content" "stop < length (str_lines content)" "stop < start"
  shows "memory_get env path (Some (start, stop)) = None"
  using assms by (simp add: memory_get_def Let_def slice_def)

end
