(* ===== verification/Session_Context.thy ===== *)
theory Session_Context
  imports Run_Types Memory_Store
begin

text \<open>
  The session context of a run (\<^verbatim>\<open>legion-runtime/src/context.rs\<close>): the files viewed, the skill names, the tool
  registry and the memory backend, and the reattachments that compaction builds from them. The context of a
  recall is that of \<^verbatim>\<open>legion-runtime/src/memory.rs\<close>.

  The iteration orders of the hash tables are parameters; the memory backend is any implementation of the
  trait, as a function of the query and the recall context.
\<close>

subsection \<open>Definitions\<close>

definition DEFAULT_RECALL_LIMIT :: nat where
  "DEFAULT_RECALL_LIMIT = 5"

record RecallContext =
  rc_already_surfaced :: "string set"
  rc_recent_tools :: "string list"
  rc_limit :: nat

definition default_RecallContext :: RecallContext where
  "default_RecallContext = \<lparr>rc_already_surfaced = {}, rc_recent_tools = [], rc_limit = DEFAULT_RECALL_LIMIT\<rparr>"

text \<open>The definitions of a registry, in the order \<open>names\<close> of its table.\<close>

definition registry_definitions :: "string list \<Rightarrow> 'w registry \<Rightarrow> ToolDefinition list" where
  "registry_definitions names registry = List.map_filter (\<lambda>n. map_option tool_definition (registry n)) names"

record 'w SessionContext =
  sc_viewed_files :: "'w \<Rightarrow> string list"
  sc_active_skills :: "string list"
  sc_definitions :: "ToolDefinition list"
  sc_memory_backend :: "(string \<Rightarrow> RecallContext \<Rightarrow> 'w \<Rightarrow> (MemoryError, MemoryNote list) result \<times> 'w) option"

definition recalled_reattachment :: "MemoryNote list \<Rightarrow> Reattachment list" where
  "recalled_reattachment notes = (if notes = [] then [] else [RecalledMemory (map mn_content notes)])"

definition build_reattachments ::
  "'w SessionContext \<Rightarrow> string \<Rightarrow> 'w \<Rightarrow> (MemoryError, Reattachment list) result \<times> 'w" where
  "build_reattachments ctx query w =
     (let viewed = sc_viewed_files ctx w;
          head = (if viewed = [] then [] else [ViewedFiles viewed]) @
            (if sc_active_skills ctx = [] then [] else [ActiveSkills (sc_active_skills ctx)]);
          definitions = sc_definitions ctx;
          manifest = (if definitions = [] then [] else [ToolManifest definitions])
      in case sc_memory_backend ctx of
           None \<Rightarrow> (Inr (head @ manifest), w)
         | Some recall \<Rightarrow>
             (case recall query \<lparr>rc_already_surfaced = {}, rc_recent_tools = map td_name definitions, rc_limit = 5\<rparr> w of
                (Inl e, w') \<Rightarrow> (Inl e, w')
              | (Inr notes, w') \<Rightarrow> (Inr (head @ recalled_reattachment notes @ manifest), w')))"

subsection \<open>Facts\<close>

lemma registry_definitions_cong:
  "(\<And>n. n \<in> set names \<Longrightarrow> map_option tool_definition (r' n) = map_option tool_definition (r n)) \<Longrightarrow>
   registry_definitions names r' = registry_definitions names r"
proof (induction names)
  case (Cons n names)
  then have "map_option tool_definition (r' n) = map_option tool_definition (r n)" "registry_definitions names r' = registry_definitions names r"
    by simp_all
  then show ?case by (simp add: registry_definitions_def List.map_filter_simps split: option.split)
qed (simp add: registry_definitions_def List.map_filter_simps)

lemma build_reattachments_manifest:
  "build_reattachments ctx query w = (Inr items, w') \<Longrightarrow> sc_definitions ctx \<noteq> [] \<Longrightarrow>
   ToolManifest (sc_definitions ctx) \<in> set items"
  by (auto simp: build_reattachments_def Let_def split: option.splits prod.splits sum.splits)

end
