(* ===== verification/Model_Ref.thy ===== *)
theory Model_Ref
  imports Chat_Types
begin

text \<open>
  Model references (\<^verbatim>\<open>legion-provider/src/model_ref.rs\<close>): the \<open>provider/model\<close> form with its
  context-window suffix, alias resolution and the model of an agent.
\<close>

subsection \<open>Definitions\<close>

record ResolvedModelRef =
  mr_provider_id :: string
  mr_model_name :: string

definition DEFAULT_MODEL :: string where
  "DEFAULT_MODEL = ''openai/gpt-4o''"

text \<open>The agents section of the configuration, as far as it is read here.\<close>

record AgentEntry =
  ae_id :: string
  ae_model :: "string option"

record AgentsConfig =
  as_default_model :: "string option"
  as_list :: "AgentEntry list"

definition resolve_agent_model :: "AgentsConfig \<Rightarrow> string \<Rightarrow> string" where
  "resolve_agent_model config agent_id =
     unwrap_or
       (if agent_id = ''main'' then as_default_model config
        else or_opt (Option.bind (List.find (\<lambda>a. ae_id a = agent_id) (as_list config)) ae_model)
          (as_default_model config))
       DEFAULT_MODEL"

text \<open>\<open>str::rsplit_once\<close>.\<close>

definition rsplit_once :: "char \<Rightarrow> string \<Rightarrow> (string \<times> string) option" where
  "rsplit_once d s =
     (if d \<in> set s
      then Some (rev (tl (dropWhile (\<lambda>c. c \<noteq> d) (rev s))), rev (takeWhile (\<lambda>c. c \<noteq> d) (rev s)))
      else None)"

definition parse_window_value :: "string \<Rightarrow> nat option" where
  "parse_window_value inner =
     (let inner = trim_str inner
      in if inner = [] then None
         else
           let (digits, multiplier) =
             (if last inner \<in> {CHR ''k'', CHR ''K''} then (butlast inner, 1000)
              else if last inner \<in> {CHR ''m'', CHR ''M''} then (butlast inner, 1000000)
              else (inner, 1 :: nat))
           in Option.bind (parse_usize digits)
                (\<lambda>n. if n * multiplier < 2 ^ 64 then Some (n * multiplier) else None))"

definition parse_context_window_suffix :: "string \<Rightarrow> string \<times> nat option" where
  "parse_context_window_suffix model_name =
     (case rsplit_once (CHR ''['') model_name of
        None \<Rightarrow> (model_name, None)
      | Some (pre, bracket) \<Rightarrow>
          if bracket = [] \<or> last bracket \<noteq> CHR '']'' then (model_name, None)
          else if pre = [] then (model_name, None)
          else (case parse_window_value (butlast bracket) of
                  Some n \<Rightarrow> (pre, Some n)
                | None \<Rightarrow> (model_name, None)))"

definition parse_model_ref :: "string \<Rightarrow> (ProviderError, ResolvedModelRef) result" where
  "parse_model_ref model_ref =
     (if model_ref = [] then Inl (InvalidModelRef ''model reference is empty'')
      else
        let segments = split_on (CHR ''/'') model_ref;
            provider_id = hd segments; raw_model_name = join_with ''/'' (tl segments)
        in if provider_id = [] then Inl (InvalidModelRef model_ref)
           else if raw_model_name = []
           then Inl (InvalidModelRef (''model reference '' @ quoted model_ref @ '' is missing a model name''))
           else Inr \<lparr>mr_provider_id = provider_id, mr_model_name = fst (parse_context_window_suffix raw_model_name)\<rparr>)"

definition MAX_DEPTH :: nat where
  "MAX_DEPTH = 8"

function resolve_loop ::
  "string \<Rightarrow> (string \<rightharpoonup> string) \<Rightarrow> nat \<Rightarrow> string \<Rightarrow> (ProviderError, ResolvedModelRef) result" where
  "resolve_loop model_ref aliases depth current =
     (if CHR ''/'' \<in> set current then parse_model_ref current
      else case aliases current of
             Some target \<Rightarrow>
               if MAX_DEPTH < depth + 1
               then Inl (InvalidModelRef (''alias resolution exceeded max depth for '' @ quoted model_ref))
               else resolve_loop model_ref aliases (depth + 1) target
           | None \<Rightarrow> Inl (InvalidModelRef (''unknown model alias or missing provider: '' @ quoted model_ref)))"
  by auto
termination by (relation "measure (\<lambda>(_, _, depth, _). MAX_DEPTH - depth)") (auto simp: MAX_DEPTH_def)

declare resolve_loop.simps [simp del]

definition resolve_model_ref ::
  "string \<Rightarrow> (string \<rightharpoonup> string) \<Rightarrow> (ProviderError, ResolvedModelRef) result" where
  "resolve_model_ref model_ref aliases = resolve_loop model_ref aliases 0 model_ref"

subsection \<open>Facts\<close>

lemma takeWhile_until: "d \<notin> set b \<Longrightarrow> takeWhile (\<lambda>c. c \<noteq> d) (b @ d # r) = b \<and> dropWhile (\<lambda>c. c \<noteq> d) (b @ d # r) = d # r"
  by (induction b) auto

lemma rsplit_once_append: "d \<notin> set b \<Longrightarrow> rsplit_once d (a @ d # b) = Some (a, b)"
  using takeWhile_until [of d "rev b" "rev a"] by (simp add: rsplit_once_def)

text \<open>Following aliases: \<open>alias_chain aliases k a b\<close> when \<open>k\<close> lookups lead from \<open>a\<close> to \<open>b\<close>, none of
  the names on the way holding a slash.\<close>

fun alias_chain :: "(string \<rightharpoonup> string) \<Rightarrow> nat \<Rightarrow> string \<Rightarrow> string \<Rightarrow> bool" where
  "alias_chain aliases 0 a b \<longleftrightarrow> a = b"
| "alias_chain aliases (Suc k) a b \<longleftrightarrow>
     CHR ''/'' \<notin> set a \<and> (\<exists>t. aliases a = Some t \<and> alias_chain aliases k t b)"

lemma resolve_loop_iff:
  "depth \<le> MAX_DEPTH \<Longrightarrow>
   resolve_loop r aliases depth current = Inr m \<longleftrightarrow>
     (\<exists>k t. k \<le> MAX_DEPTH - depth \<and> alias_chain aliases k current t \<and> CHR ''/'' \<in> set t \<and> parse_model_ref t = Inr m)"
proof (induction r aliases depth current rule: resolve_loop.induct)
  case (1 r aliases depth current)
  show ?case
  proof (cases "CHR ''/'' \<in> set current")
    case True
    have "resolve_loop r aliases depth current = parse_model_ref current"
      using True by (subst resolve_loop.simps) simp
    moreover have "alias_chain aliases k current t \<longleftrightarrow> k = 0 \<and> t = current" for k t
      using True by (cases k) auto
    ultimately show ?thesis using True by auto
  next
    case slash: False
    show ?thesis
    proof (cases "aliases current")
      case None
      have "alias_chain aliases k current t \<Longrightarrow> CHR ''/'' \<in> set t \<Longrightarrow> False" for k t
        using None slash by (cases k) auto
      with None slash show ?thesis by (subst resolve_loop.simps) auto
    next
      case (Some target)
      have chain: "alias_chain aliases k current t \<and> CHR ''/'' \<in> set t \<longleftrightarrow>
          (\<exists>j. k = Suc j \<and> alias_chain aliases j target t \<and> CHR ''/'' \<in> set t)" for k t
        using Some slash by (cases k) auto
      show ?thesis
      proof (cases "MAX_DEPTH < depth + 1")
        case True
        with 1(2) have "MAX_DEPTH - depth = 0" by simp
        with True Some slash show ?thesis by (subst resolve_loop.simps) (auto simp: chain)
      next
        case False
        then have IH: "resolve_loop r aliases (depth + 1) target = Inr m \<longleftrightarrow>
            (\<exists>k t. k \<le> MAX_DEPTH - (depth + 1) \<and> alias_chain aliases k target t \<and> CHR ''/'' \<in> set t \<and> parse_model_ref t = Inr m)"
          using 1(1) [OF slash Some] by auto
        have step: "resolve_loop r aliases depth current = resolve_loop r aliases (depth + 1) target"
          using False Some slash by (subst resolve_loop.simps) simp
        have "(\<exists>k t. k \<le> MAX_DEPTH - depth \<and> alias_chain aliases k current t \<and> CHR ''/'' \<in> set t \<and> parse_model_ref t = Inr m) \<longleftrightarrow>
            (\<exists>j t. Suc j \<le> MAX_DEPTH - depth \<and> alias_chain aliases j target t \<and> CHR ''/'' \<in> set t \<and> parse_model_ref t = Inr m)"
          (is "?L \<longleftrightarrow> ?R")
        proof
          assume ?L
          then obtain k t where "k \<le> MAX_DEPTH - depth" "alias_chain aliases k current t" "CHR ''/'' \<in> set t" "parse_model_ref t = Inr m"
            by blast
          with chain [of k t] show ?R by blast
        next
          assume ?R
          then obtain j t where "Suc j \<le> MAX_DEPTH - depth" "alias_chain aliases j target t" "CHR ''/'' \<in> set t" "parse_model_ref t = Inr m"
            by blast
          with chain [of "Suc j" t] show ?L by blast
        qed
        also have "\<dots> \<longleftrightarrow> (\<exists>j t. j \<le> MAX_DEPTH - (depth + 1) \<and> alias_chain aliases j target t \<and> CHR ''/'' \<in> set t \<and> parse_model_ref t = Inr m)"
        proof -
          have "Suc j \<le> MAX_DEPTH - depth \<longleftrightarrow> j \<le> MAX_DEPTH - (depth + 1)" for j using False by auto
          then show ?thesis by simp
        qed
        finally show ?thesis using IH step by simp
      qed
    qed
  qed
qed

subsection \<open>Properties\<close>

text \<open>Alias resolution always ends, and succeeds exactly when at most eight alias lookups lead
  from the reference to a name with a slash that parses; cyclic and longer chains are errors.\<close>

theorem alias_resolution_complete:
  "resolve_model_ref model_ref aliases = Inr m \<longleftrightarrow>
     (\<exists>k t. k \<le> 8 \<and> alias_chain aliases k model_ref t \<and> CHR ''/'' \<in> set t \<and> parse_model_ref t = Inr m)"
  using resolve_loop_iff [of 0 model_ref aliases model_ref m] by (simp add: resolve_model_ref_def MAX_DEPTH_def)

text \<open>A context-window suffix is read back and stripped: for a provider without slash, a model
  name and a count in units, thousands or millions that fits 64 bits, \<open>provider/model[count]\<close>
  parses to the clean provider and model, and the window read from the suffix is the count.\<close>

theorem window_suffix_roundtrip:
  assumes "CHR ''/'' \<notin> set provider" and "provider \<noteq> []" and "model \<noteq> []"
    and "(unit, factor) \<in> {([], 1), (''k'', 1000), (''m'', 1000000)}" and "n * factor < 2 ^ 64"
  shows "parse_model_ref (provider @ ''/'' @ model @ ''['' @ show_nat n @ unit @ '']'') =
       Inr \<lparr>mr_provider_id = provider, mr_model_name = model\<rparr> \<and>
     snd (parse_context_window_suffix (model @ ''['' @ show_nat n @ unit @ '']'')) = Some (n * factor)"
proof -
  let ?inner = "show_nat n @ unit"
  let ?name = "model @ ''['' @ ?inner @ '']''"
  have digits: "is_ascii_digit c" if "c \<in> set (show_nat n)" for c using show_nat_digits that .
  have lastd: "is_ascii_digit (last (show_nat n))" using digits by simp
  have "\<not> is_ascii_digit (CHR ''['')" by (simp add: is_ascii_digit_def)
  then have nb: "CHR ''['' \<notin> set ?inner" using assms(4) digits by auto
  have nws: "\<forall>c\<in>set ?inner. \<not> is_whitespace c"
    using assms(4) digit_not_whitespace [OF digits] by (auto simp: is_whitespace_def)
  then have trim: "trim_str ?inner = ?inner" by (rule trim_str_id)
  have n: "n < 2 ^ 64" using assms(4,5) by auto
  have "last (show_nat n) \<notin> {CHR ''k'', CHR ''K'', CHR ''m'', CHR ''M''}"
    using lastd by (auto simp: is_ascii_digit_def)
  then have "parse_window_value ?inner = Some (n * factor)"
    using assms(4,5) parse_show_nat [OF n] trim
    by (auto simp: parse_window_value_def Let_def)
  moreover have "rsplit_once (CHR ''['') ?name = Some (model, ?inner @ '']'')"
    using rsplit_once_append [of "CHR ''[''" "?inner @ '']''" model] nb by simp
  ultimately have suffix: "parse_context_window_suffix ?name = (model, Some (n * factor))"
    using assms(3) by (simp add: parse_context_window_suffix_def butlast_append)
  have "split_on (CHR ''/'') (provider @ CHR ''/'' # ?name) = provider # split_on (CHR ''/'') ?name"
    using split_on_append [OF assms(1)] .
  moreover have "join_with ''/'' (split_on (CHR ''/'') ?name) = ?name" by (rule join_split_on)
  ultimately show ?thesis using assms(2,3) suffix by (simp add: parse_model_ref_def Let_def)
qed

theorem window_suffix_roundtrip_witness:
  "parse_model_ref ''minimax/MiniMax-M3[1m]'' = Inr \<lparr>mr_provider_id = ''minimax'', mr_model_name = ''MiniMax-M3''\<rparr> \<and>
   snd (parse_context_window_suffix ''MiniMax-M3[1m]'') = Some 1000000"
proof -
  have "show_nat 1 = ''1''" by code_simp
  with window_suffix_roundtrip [of "''minimax''" "''MiniMax-M3''" "''m''" 1000000 1] show ?thesis by simp
qed

end
