(* ===== verification/Compaction.thy ===== *)
theory Compaction
  imports Session_Context Model_Ref
begin

text \<open>
  Conversation compaction (\<^verbatim>\<open>legion-runtime/src/compaction.rs\<close>): the circuit breaker, the decision
  to compact, the boundary between what is summarized and what is kept, the single-stage and
  the two-stage compactor, and the stripping of attachments.

  The provider, the clock and the tokenizer are parameters; the session context is passed by the run; so are the two single-precision products, as the functions of the window or
  boundary they compute. A panic of the two-stage split is the result \<open>None\<close>.
\<close>

subsection \<open>Circuit breaker\<close>

record CircuitBreaker =
  cb_max :: "8 word"
  cb_failures :: "8 word"

definition CircuitBreaker_new :: "8 word \<Rightarrow> CircuitBreaker" where
  "CircuitBreaker_new m = \<lparr>cb_max = m, cb_failures = 0\<rparr>"

definition cb_allow :: "CircuitBreaker \<Rightarrow> bool" where
  "cb_allow b \<longleftrightarrow> cb_failures b < cb_max b"

definition record_success :: "CircuitBreaker \<Rightarrow> CircuitBreaker" where
  "record_success b = b\<lparr>cb_failures := 0\<rparr>"

definition record_failure :: "CircuitBreaker \<Rightarrow> bool \<times> CircuitBreaker" where
  "record_failure b = (cb_max b \<le> cb_failures b + 1, b\<lparr>cb_failures := cb_failures b + 1\<rparr>)"

subsection \<open>Configuration\<close>

record CompactionConfig =
  cf_context_window :: nat
  cf_context_windows :: "string \<rightharpoonup> nat"
  cf_ratio_threshold :: "nat \<Rightarrow> nat"
  cf_min_messages_to_keep :: nat
  cf_max_summary_tokens :: nat
  cf_buffer_tokens :: nat
  cf_max_consecutive_failures :: "8 word"
  cf_strip_images :: bool
  cf_strip_documents :: bool
  cf_use_prompt_cache :: bool
  cf_summary_model :: "string option"
  cf_two_pass_enabled :: bool
  cf_split_point :: "nat \<Rightarrow> nat"

record Compactor =
  co_config :: CompactionConfig
  co_breaker :: CircuitBreaker

definition Compactor_new :: "CompactionConfig \<Rightarrow> Compactor" where
  "Compactor_new config = \<lparr>co_config = config, co_breaker = CircuitBreaker_new (cf_max_consecutive_failures config)\<rparr>"

definition effective_context_window :: "CompactionConfig \<Rightarrow> string \<Rightarrow> nat" where
  "effective_context_window config model_ref =
     (case snd (parse_context_window_suffix model_ref) of
        Some win \<Rightarrow> win
      | None \<Rightarrow>
          (case cf_context_windows config model_ref of
             Some win \<Rightarrow> win
           | None \<Rightarrow> cf_context_window config))"

definition should_compact ::
  "(string \<Rightarrow> nat) option \<Rightarrow> CompactionConfig \<Rightarrow> ChatMessage list \<Rightarrow> string \<Rightarrow> string \<Rightarrow> bool" where
  "should_compact bpe config messages system_prompt model_ref =
     (if length messages < cf_min_messages_to_keep config + 2 then False
      else
        let effective_window = effective_context_window config model_ref;
            threshold = (if 0 < cf_buffer_tokens config then effective_window - cf_buffer_tokens config
                         else cf_ratio_threshold config effective_window)
        in threshold \<le> estimate_total_tokens bpe messages system_prompt)"

subsection \<open>The boundary\<close>

definition first_non_system :: "ChatMessage list \<Rightarrow> nat" where
  "first_non_system messages =
     (let n = length (takeWhile (\<lambda>m. cm_role m = System) messages)
      in if n < length messages then n else 0)"

definition calls_kept :: "string set \<Rightarrow> ChatMessage \<Rightarrow> bool" where
  "calls_kept kept_tool_ids msg =
     (case cm_tool_calls msg of
        Some tool_calls \<Rightarrow> list_ex (\<lambda>tc. ptc_id tc \<in> kept_tool_ids) tool_calls
      | None \<Rightarrow> False)"

definition kept_tool_ids :: "ChatMessage list \<Rightarrow> string set" where
  "kept_tool_ids kept = set (List.map_filter cm_tool_call_id kept)"

function boundary_loop :: "ChatMessage list \<Rightarrow> nat \<Rightarrow> nat \<Rightarrow> nat" where
  "boundary_loop messages fns keep =
     (if length messages - fns < keep then 0
      else
        let cutoff = length messages - keep;
            bad = list_ex (calls_kept (kept_tool_ids (drop cutoff messages)))
                    (rev (drop fns (take cutoff messages)))
        in if \<not> bad then max cutoff (fns + 1) else boundary_loop messages fns (keep + 1))"
  by auto
termination by (relation "measure (\<lambda>(messages, fns, keep). Suc (length messages) - keep)") auto

declare boundary_loop.simps [simp del]

definition select_compaction_boundary :: "ChatMessage list \<Rightarrow> nat \<Rightarrow> nat" where
  "select_compaction_boundary messages min_keep =
     (if length messages < min_keep + 1 then 0
      else boundary_loop messages (first_non_system messages) min_keep)"

subsection \<open>Attachments\<close>

function replace_markdown_images :: "string \<Rightarrow> string" where
  "replace_markdown_images content =
     (case find_str ''!['' content of
        None \<Rightarrow> content
      | Some start \<Rightarrow>
          let rest = drop start content
          in take start content @
             (case Option.bind (find_str ''](''  rest)
                     (\<lambda>mid. map_option (Pair mid) (find_str '')'' (drop (mid + 2) rest))) of
                Some (mid, close) \<Rightarrow>
                  ''[image: '' @ drop 2 (take mid rest) @ '']'' @
                  replace_markdown_images (drop (mid + 2 + close + 1) rest)
              | None \<Rightarrow> ''!['' @ replace_markdown_images (drop 2 rest)))"
  by auto
termination
  by (relation "measure length") (auto dest!: find_str_Some)

declare replace_markdown_images.simps [simp del]

definition is_base64_char :: "char \<Rightarrow> bool" where
  "is_base64_char c \<longleftrightarrow> is_alphanumeric c \<or> c \<in> {CHR ''+'', CHR ''/'', CHR ''=''}"

function replace_data_uris :: "bool \<Rightarrow> bool \<Rightarrow> string \<Rightarrow> string" where
  "replace_data_uris strip_images strip_documents content =
     (case find_str ''data:'' content of
        None \<Rightarrow> content
      | Some start \<Rightarrow>
          let rest = drop start content
          in take start content @
             (case find_str '';base64,'' rest of
                Some base64_rel \<Rightarrow>
                  let mime = drop 5 (take base64_rel rest);
                      data_len = length (takeWhile is_base64_char (drop (base64_rel + 8) rest));
                      full_end = base64_rel + 8 + data_len
                  in (if prefix ''image/'' mime then
                        (if strip_images then ''[image]'' else take full_end rest)
                      else if strip_documents then ''[attachment]'' else take full_end rest) @
                     replace_data_uris strip_images strip_documents (drop full_end rest)
              | None \<Rightarrow> ''d'' @ replace_data_uris strip_images strip_documents (drop 1 rest)))"
  by auto
termination
  by (relation "measure (\<lambda>(_, _, content). length content)") (auto dest!: find_str_Some)

declare replace_data_uris.simps [simp del]

definition strip_attachment_markers :: "bool \<Rightarrow> bool \<Rightarrow> string \<Rightarrow> string" where
  "strip_attachment_markers strip_images strip_documents content =
     (let result = (if strip_images then replace_markdown_images content else content)
      in if strip_images \<or> strip_documents then replace_data_uris strip_images strip_documents result else result)"

definition strip_attachments :: "bool \<Rightarrow> bool \<Rightarrow> ChatMessage list \<Rightarrow> ChatMessage list" where
  "strip_attachments strip_images strip_documents messages =
     (if \<not> strip_images \<and> \<not> strip_documents then messages
      else map (\<lambda>m. m\<lparr>cm_content := strip_attachment_markers strip_images strip_documents (cm_content m)\<rparr>) messages)"

subsection \<open>Summaries\<close>

text \<open>What the compactor is given: the provider router, the session context (optional), the JSON printer,
  the clock and the tokenizer.\<close>

record 'w compact_env =
  ce_chat :: "string \<Rightarrow> ChatRequest \<Rightarrow> 'w \<Rightarrow> (ProviderError, chat_stream) result \<times> 'w"
  ce_session :: "'w SessionContext option"
  ce_pretty :: "json \<Rightarrow> string"
  ce_iso_now :: string
  ce_bpe :: "(string \<Rightarrow> nat) option"

definition SUMMARY_SYSTEM_PROMPT :: string where
  "SUMMARY_SYSTEM_PROMPT =
     ''You are summarizing a conversation between a user and an AI coding assistant.'' @ [CHR 0x0A] @
     ''Produce a concise but information-dense summary of the conversation fragment below.'' @ [CHR 0x0A] @
     ''Preserve: key facts the user stated, decisions made, code changes or file paths mentioned,'' @ [CHR 0x0A] @
     ''errors encountered, and any pending tasks or follow-ups.'' @ [CHR 0x0A] @
     ''Omit routine greetings and verbatim tool-call syntax unless the output was important.''"

fun summary_loop :: "string \<Rightarrow> chat_stream \<Rightarrow> (ProviderError, string) result" where
  "summary_loop summary [] = Inr summary"
| "summary_loop summary (Inl e # stream) = Inl e"
| "summary_loop summary (Inr chunk # stream) =
     (let summary' = summary @ cc_delta chunk
      in if cc_finish_reason chunk \<in> {Some Stop, Some Length} then Inr summary'
         else summary_loop summary' stream)"

definition generate_summary ::
  "'w compact_env \<Rightarrow> string \<Rightarrow> ChatMessage list \<Rightarrow> nat \<Rightarrow> 'w \<Rightarrow> (RuntimeError, string) result \<times> 'w" where
  "generate_summary env model_ref source max_tokens w =
     (let req = (ChatRequest_new model_ref (ChatMessage_system SUMMARY_SYSTEM_PROMPT # source))
            \<lparr>cq_max_tokens := Some (of_nat max_tokens)\<rparr>
      in case ce_chat env model_ref req w of
           (Inl e, w') \<Rightarrow> (Inl (ProviderErr e), w')
         | (Inr stream, w') \<Rightarrow>
             (case summary_loop [] stream of
                Inl e \<Rightarrow> (Inl (ProviderErr e), w')
              | Inr summary \<Rightarrow> (Inr (trim_str summary), w')))"

definition build_compacted_messages ::
  "'w compact_env \<Rightarrow> ChatMessage list \<Rightarrow> nat \<Rightarrow> string \<Rightarrow> bool \<Rightarrow> string \<Rightarrow> 'w \<Rightarrow> ChatMessage list \<times> 'w" where
  "build_compacted_messages env messages boundary summary use_prompt_cache query w =
     (let (reattachments, w') =
            (case ce_session env of
               Some ctx \<Rightarrow> (case build_reattachments ctx query w of (Inr items, w') \<Rightarrow> (items, w') | (Inl _, w') \<Rightarrow> ([], w'))
             | None \<Rightarrow> ([], w));
          cache = (\<lambda>m. if use_prompt_cache then with_cache_breakpoint m else m);
          preserved = (case messages of m # _ \<Rightarrow> if cm_role m = System then [cache m] else [] | [] \<Rightarrow> []);
          summary_msg = cache (ChatMessage_system (''Earlier conversation summary:'' @ [CHR 0x0A, CHR 0x0A] @ summary))
      in (preserved @ [summary_msg] @ concat (map (Reattachment_to_messages (ce_pretty env)) reattachments) @
          drop boundary messages, w'))"

subsection \<open>The compactors\<close>

definition not_compacted :: "ChatMessage list \<Rightarrow> nat \<Rightarrow> CompactionResult" where
  "not_compacted messages tokens_before =
     \<lparr>cr_summary = [], cr_messages = messages, cr_tokens_before = tokens_before, cr_tokens_after = tokens_before,
      cr_compacted = False, cr_reattachments = [], cr_boundary = None\<rparr>"

definition finish_compaction ::
  "'w compact_env \<Rightarrow> CompactionConfig \<Rightarrow> ChatMessage list \<Rightarrow> string \<Rightarrow> nat \<Rightarrow> string \<Rightarrow> string \<Rightarrow> 'w \<Rightarrow>
     CompactionResult \<times> 'w" where
  "finish_compaction env config messages system_prompt boundary summary query w =
     (let tokens_before = estimate_total_tokens (ce_bpe env) messages system_prompt;
          (compacted, w') = build_compacted_messages env messages boundary summary (cf_use_prompt_cache config) query w;
          tokens_after = estimate_total_tokens (ce_bpe env) compacted system_prompt
      in (\<lparr>cr_summary = summary, cr_messages = compacted, cr_tokens_before = tokens_before,
           cr_tokens_after = tokens_after, cr_compacted = True, cr_reattachments = [],
           cr_boundary = Some \<lparr>bm_entry_index = 0, bm_timestamp_iso = ce_iso_now env,
             bm_tokens_compacted = tokens_before - tokens_after\<rparr>\<rparr>, w'))"

definition compact_conversation ::
  "'w compact_env \<Rightarrow> CompactionConfig \<Rightarrow> ChatMessage list \<Rightarrow> string \<Rightarrow> string \<Rightarrow> string \<Rightarrow> 'w \<Rightarrow>
     (RuntimeError, CompactionResult) result \<times> 'w" where
  "compact_conversation env config messages system_prompt model_ref query w =
     (let tokens_before = estimate_total_tokens (ce_bpe env) messages system_prompt;
          boundary = select_compaction_boundary messages (cf_min_messages_to_keep config)
      in if boundary = 0 then (Inr (not_compacted messages tokens_before), w)
         else
           let source = strip_attachments (cf_strip_images config) (cf_strip_documents config) (take boundary messages);
               summary_model_ref = unwrap_or (cf_summary_model config) model_ref
           in case generate_summary env summary_model_ref source (cf_max_summary_tokens config) w of
                (Inl e, w') \<Rightarrow> (Inl e, w')
              | (Inr summary, w') \<Rightarrow>
                  if summary = [] then (Inr (not_compacted messages tokens_before), w')
                  else (let (r, w'') = finish_compaction env config messages system_prompt boundary summary query w'
                        in (Inr r, w'')))"

text \<open>The bookkeeping after a compaction attempt: breaker, conversation and what is returned.\<close>

type_synonym compact_outcome = "(RuntimeError, (string \<times> BoundaryMark option) option) result"

definition compact_succeeded ::
  "CompactionResult \<Rightarrow> ChatMessage list \<Rightarrow> CircuitBreaker \<Rightarrow> compact_outcome \<times> ChatMessage list \<times> CircuitBreaker" where
  "compact_succeeded outcome messages breaker =
     (if cr_compacted outcome
      then (Inr (Some (cr_summary outcome, cr_boundary outcome)), cr_messages outcome, record_success breaker)
      else (Inr None, messages, record_success breaker))"

definition compact_if_needed ::
  "'w compact_env \<Rightarrow> Compactor \<Rightarrow> ChatMessage list \<Rightarrow> string \<Rightarrow> string \<Rightarrow> string \<Rightarrow> 'w \<Rightarrow>
     compact_outcome \<times> ChatMessage list \<times> Compactor \<times> 'w" where
  "compact_if_needed env c messages system_prompt model_ref query w =
     (if \<not> should_compact (ce_bpe env) (co_config c) messages system_prompt model_ref
      then (Inr None, messages, c, w)
      else if \<not> cb_allow (co_breaker c) then (Inr None, messages, c, w)
      else case compact_conversation env (co_config c) messages system_prompt model_ref query w of
             (Inr outcome, w') \<Rightarrow>
               (let (r, messages', breaker) = compact_succeeded outcome messages (co_breaker c)
                in (r, messages', c\<lparr>co_breaker := breaker\<rparr>, w'))
           | (Inl err, w') \<Rightarrow>
               (Inl err, messages, c\<lparr>co_breaker := snd (record_failure (co_breaker c))\<rparr>, w'))"

definition clamp :: "nat \<Rightarrow> nat \<Rightarrow> nat \<Rightarrow> nat option" where
  "clamp x lo hi = (if lo \<le> hi then Some (min (max x lo) hi) else None)"

definition compact_conversation_two_pass ::
  "'w compact_env \<Rightarrow> CompactionConfig \<Rightarrow> ChatMessage list \<Rightarrow> string \<Rightarrow> string \<Rightarrow> string \<Rightarrow> 'w \<Rightarrow>
     ((RuntimeError, CompactionResult) result \<times> 'w) option" where
  "compact_conversation_two_pass env config messages system_prompt model_ref query w =
     (let tokens_before = estimate_total_tokens (ce_bpe env) messages system_prompt;
          boundary = select_compaction_boundary messages (cf_min_messages_to_keep config);
          single = (\<lambda>w. compact_conversation env config messages system_prompt model_ref query w);
          strip = strip_attachments (cf_strip_images config) (cf_strip_documents config);
          summary_model_ref = unwrap_or (cf_summary_model config) model_ref
      in if boundary = 0 then Some (Inr (not_compacted messages tokens_before), w)
         else case clamp (cf_split_point config boundary) 1 (boundary - 1) of
                None \<Rightarrow> None
              | Some split_at \<Rightarrow>
                  if split_at = 0 \<or> boundary \<le> split_at then Some (single w)
                  else
                    case generate_summary env summary_model_ref (strip (take split_at messages))
                           (cf_max_summary_tokens config) w of
                      (Inl e, w1) \<Rightarrow> Some (Inl e, w1)
                    | (Inr note1, w1) \<Rightarrow>
                        if note1 = [] then Some (single w1)
                        else
                          let tail = strip (drop split_at (take boundary messages));
                              pass2_source = ChatMessage_system (''Earlier conversation summary draft:'' @
                                [CHR 0x0A, CHR 0x0A] @ note1) # tail
                          in case generate_summary env summary_model_ref pass2_source (cf_max_summary_tokens config) w1 of
                               (Inl e, w2) \<Rightarrow> Some (Inl e, w2)
                             | (Inr summary, w2) \<Rightarrow>
                                 if summary = [] then Some (single w2)
                                 else (let (r, w3) = finish_compaction env config messages system_prompt boundary summary query w2
                                       in Some (Inr r, w3)))"

definition two_pass_compact_if_needed ::
  "'w compact_env \<Rightarrow> Compactor \<Rightarrow> ChatMessage list \<Rightarrow> string \<Rightarrow> string \<Rightarrow> string \<Rightarrow> 'w \<Rightarrow>
     (compact_outcome \<times> ChatMessage list \<times> Compactor \<times> 'w) option" where
  "two_pass_compact_if_needed env c messages system_prompt model_ref query w =
     (if \<not> should_compact (ce_bpe env) (co_config c) messages system_prompt model_ref
      then Some (Inr None, messages, c, w)
      else if \<not> cb_allow (co_breaker c) then Some (Inr None, messages, c, w)
      else if \<not> cf_two_pass_enabled (co_config c)
      then Some (compact_if_needed env c messages system_prompt model_ref query w)
      else case compact_conversation_two_pass env (co_config c) messages system_prompt model_ref query w of
             None \<Rightarrow> None
           | Some (Inr outcome, w') \<Rightarrow>
               (let (r, messages', breaker) = compact_succeeded outcome messages (co_breaker c)
                in Some (r, messages', c\<lparr>co_breaker := breaker\<rparr>, w'))
           | Some (Inl err, w') \<Rightarrow>
               Some (compact_if_needed env (c\<lparr>co_breaker := snd (record_failure (co_breaker c))\<rparr>)
                 messages system_prompt model_ref query w'))"

subsection \<open>Facts\<close>

lemma first_non_system_less: "messages \<noteq> [] \<Longrightarrow> first_non_system messages < length messages"
  by (auto simp: first_non_system_def Let_def)

text \<open>A boundary that separates no tool result from its call.\<close>

definition tool_closed :: "ChatMessage list \<Rightarrow> nat \<Rightarrow> nat \<Rightarrow> bool" where
  "tool_closed messages fns b \<longleftrightarrow>
     (\<forall>m\<in>set (drop fns (take b messages)). \<forall>tcs. cm_tool_calls m = Some tcs \<longrightarrow>
        (\<forall>tc\<in>set tcs. \<forall>k\<in>set (drop b messages). cm_tool_call_id k \<noteq> Some (ptc_id tc)))"

lemma kept_tool_ids_iff: "i \<in> kept_tool_ids kept \<longleftrightarrow> (\<exists>k\<in>set kept. cm_tool_call_id k = Some i)"
  by (auto simp: kept_tool_ids_def List.map_filter_def image_iff intro!: bexI)

lemma tool_closed_iff:
  "tool_closed messages fns b \<longleftrightarrow>
     \<not> list_ex (calls_kept (kept_tool_ids (drop b messages))) (rev (drop fns (take b messages)))"
  by (auto simp: tool_closed_def list_ex_iff calls_kept_def kept_tool_ids_iff split: option.splits)

lemma boundary_loop_spec:
  "fns < length messages \<Longrightarrow> boundary_loop messages fns keep = b \<Longrightarrow> b \<noteq> 0 \<Longrightarrow>
   fns < b \<and> b \<le> length messages \<and>
   (b = fns + 1 \<or> keep \<le> length messages - b \<and> tool_closed messages fns b)"
proof (induction messages fns keep arbitrary: b rule: boundary_loop.induct)
  case (1 messages fns keep)
  let ?cutoff = "length messages - keep"
  let ?bad = "list_ex (calls_kept (kept_tool_ids (drop ?cutoff messages))) (rev (drop fns (take ?cutoff messages)))"
  have keep: "keep \<le> length messages - fns"
    using 1(3,4) boundary_loop.simps [of messages fns keep] by (auto split: if_splits)
  show ?case
  proof (cases ?bad)
    case True
    have "b = boundary_loop messages fns (keep + 1)"
      using 1(3) True keep by (subst (asm) boundary_loop.simps) (simp add: Let_def)
    with 1(1) [OF _ refl refl _ 1(2), of b] True keep 1(4) show ?thesis by auto
  next
    case False
    then have b: "b = max ?cutoff (fns + 1)"
      using 1(3) keep by (subst (asm) boundary_loop.simps) (simp add: Let_def)
    show ?thesis
    proof (cases "?cutoff = fns")
      case True
      with b 1(2) show ?thesis by simp
    next
      case neq: False
      with keep 1(2) have "fns + 1 \<le> ?cutoff" by linarith
      with b have "b = ?cutoff" by simp
      with False keep neq 1(2) show ?thesis by (auto simp: tool_closed_iff)
    qed
  qed
qed

lemma select_boundary_spec:
  assumes "select_compaction_boundary messages min_keep = b" and "b \<noteq> 0"
  shows "first_non_system messages < b" and "b \<le> length messages"
    and "b = first_non_system messages + 1 \<or>
      min_keep \<le> length messages - b \<and> tool_closed messages (first_non_system messages) b"
proof -
  have "messages \<noteq> []" and "boundary_loop messages (first_non_system messages) min_keep = b"
    using assms by (auto simp: select_compaction_boundary_def split: if_splits)
  with boundary_loop_spec [of "first_non_system messages" messages min_keep b] first_non_system_less assms(2)
  show "first_non_system messages < b" and "b \<le> length messages"
    and "b = first_non_system messages + 1 \<or>
      min_keep \<le> length messages - b \<and> tool_closed messages (first_non_system messages) b" by blast+
qed

definition breaker_ok :: "CircuitBreaker \<Rightarrow> bool" where
  "breaker_ok b \<longleftrightarrow> cb_failures b \<le> cb_max b"

lemma word_succ_le:
  fixes x y :: "8 word"
  assumes "x < y"
  shows "x + 1 \<le> y" "unat (x + 1) = Suc (unat x)"
proof -
  have lt: "unat x < unat y" using assms by (simp add: word_less_nat_alt)
  have "unat y < 2 ^ LENGTH(8)" by (rule unsigned_less)
  with lt have "unat x + unat (1 :: 8 word) < 2 ^ LENGTH(8)" by simp
  then show s: "unat (x + 1) = Suc (unat x)" by (simp add: unat_add_lem [THEN iffD1])
  show "x + 1 \<le> y" using lt s by (simp add: word_le_nat_alt)
qed

lemma record_failure_ok [legion_inv]:
  "cb_allow b \<Longrightarrow> breaker_ok (snd (record_failure b)) \<and>
     unat (cb_failures (snd (record_failure b))) = Suc (unat (cb_failures b)) \<and> cb_max (snd (record_failure b)) = cb_max b"
  using word_succ_le [of "cb_failures b" "cb_max b"]
  by (simp add: cb_allow_def breaker_ok_def record_failure_def)

lemma record_success_ok [legion_inv]: "breaker_ok (record_success b)"
  by (simp add: record_success_def breaker_ok_def)

lemma compact_if_needed_breaker [legion_inv]:
  assumes "compact_if_needed env c messages sp mr q w = (r, messages', c', w')" and "breaker_ok (co_breaker c)"
  shows "breaker_ok (co_breaker c')" and "co_config c' = co_config c"
  using assms record_failure_ok [of "co_breaker c"] record_success_ok
  by (auto simp: compact_if_needed_def compact_succeeded_def split: if_splits prod.splits sum.splits)

lemma compacted_shape:
  assumes "build_compacted_messages env messages b summary cache query w = (ms, w')"
  shows "\<exists>head. ms = head @ drop b messages \<and> head \<noteq> [] \<and> (\<forall>m\<in>set head. cm_role m = System)"
proof -
  have "cm_role m = System" if "m \<in> set (concat (map (Reattachment_to_messages (ce_pretty env)) rs))" for m rs
    using that Reattachment_one_system by fastforce
  then show ?thesis using assms
    by (fastforce simp: build_compacted_messages_def message_defs Let_def split: prod.splits list.splits if_splits)
qed

lemma finish_compaction_messages:
  assumes "finish_compaction env config messages sp b summary q w = (res, w')"
  shows "cr_compacted res \<and> cr_summary res = summary \<and>
     (\<exists>head. cr_messages res = head @ drop b messages \<and> head \<noteq> [] \<and> (\<forall>m\<in>set head. cm_role m = System))"
proof -
  obtain ms w1 where "build_compacted_messages env messages b summary (cf_use_prompt_cache config) q w = (ms, w1)" by fastforce
  with compacted_shape [OF this] assms show ?thesis by (auto simp: finish_compaction_def Let_def)
qed

lemma compact_conversation_messages:
  assumes "compact_conversation env config messages sp mr q w = (Inr res, w')" and "cr_compacted res"
  shows "cr_summary res \<noteq> [] \<and>
     (\<exists>b head. b = select_compaction_boundary messages (cf_min_messages_to_keep config) \<and> b \<noteq> 0 \<and>
       cr_messages res = head @ drop b messages \<and> head \<noteq> [] \<and> (\<forall>m\<in>set head. cm_role m = System))"
  using assms finish_compaction_messages [of env config messages sp]
  by (auto simp: compact_conversation_def not_compacted_def Let_def split: if_splits prod.splits sum.splits)

subsection \<open>Properties\<close>

text \<open>The compaction boundary is in range and keeps tool calls with their results: when a boundary
  is chosen it lies after the leading system messages and within the conversation, so neither
  slice can panic; and unless it was pushed to just after the first message that is not a system
  message, at least the configured number of recent messages is kept and no kept tool result
  answers a call that is summarized away.\<close>

theorem compaction_boundary_safe:
  assumes "select_compaction_boundary messages min_keep = b" and "b \<noteq> 0"
  shows "first_non_system messages < b \<and> b \<le> length messages \<and>
     (b = first_non_system messages + 1 \<or>
      min_keep \<le> length messages - b \<and>
      (\<forall>m\<in>set (drop (first_non_system messages) (take b messages)). \<forall>tcs. cm_tool_calls m = Some tcs \<longrightarrow>
         (\<forall>tc\<in>set tcs. \<forall>k\<in>set (drop b messages). cm_tool_call_id k \<noteq> Some (ptc_id tc))))"
  using select_boundary_spec [OF assms] unfolding tool_closed_def by blast

definition demo_tool_use :: ChatMessage where
  "demo_tool_use = (ChatMessage_assistant [])\<lparr>cm_tool_calls := Some [\<lparr>ptc_id = ''a'', ptc_kind = ''function'',
     ptc_function = \<lparr>fc_name = ''read'', fc_arguments = []\<rparr>\<rparr>]\<rparr>"

definition demo_tool_result :: ChatMessage where
  "demo_tool_result = (plain_message Tool ''text'')\<lparr>cm_tool_call_id := Some ''a''\<rparr>"

definition demo_conversation :: "ChatMessage list" where
  "demo_conversation = [ChatMessage_system ''s'', ChatMessage_user ''q'', ChatMessage_assistant ''r'', demo_tool_use,
     demo_tool_result, ChatMessage_user ''next'']"

theorem compaction_boundary_safe_witness:
  "select_compaction_boundary demo_conversation 2 = 3 \<and> 2 \<le> length demo_conversation - 3"
proof -
  have b: "select_compaction_boundary demo_conversation 2 = 3" by code_simp
  have f: "first_non_system demo_conversation = 1" by code_simp
  from compaction_boundary_safe [OF b] b show ?thesis unfolding f by simp
qed

text \<open>The boundary can separate a tool result from its call: when the first message after the
  system messages is an assistant turn whose tool result must be kept (as after an earlier
  compaction), the search extends the kept part to include that turn and then pushes the
  boundary one past it, so the turn is summarized and its result is kept without it.\<close>

theorem compaction_orphans_tool_result:
  "let messages = [ChatMessage_system ''s'', ChatMessage_system ''summary'', demo_tool_use, demo_tool_result]
   in select_compaction_boundary messages 1 = 3 \<and>
      demo_tool_use \<in> set (take 3 messages) \<and> drop 3 messages = [demo_tool_result] \<and>
      (\<exists>tcs. cm_tool_calls demo_tool_use = Some tcs \<and> cm_tool_call_id demo_tool_result = Some (ptc_id (hd tcs)))"
proof -
  have "select_compaction_boundary [ChatMessage_system ''s'', ChatMessage_system ''summary'', demo_tool_use, demo_tool_result] 1 = 3"
    by code_simp
  then show ?thesis by (simp add: demo_tool_use_def demo_tool_result_def eval_nat_numeral)
qed

text \<open>Compaction replaces only the head of the conversation: when it reports a summary, the new
  conversation consists of system messages (the original prompt if it was first, the summary,
  the reattachments) followed by the messages from the chosen boundary on, unchanged and in
  order, and the failure counter is reset; otherwise the conversation is exactly what it was.\<close>

theorem compaction_keeps_tail:
  assumes "compact_if_needed env c messages system_prompt model_ref query w = (r, messages', c', w')"
  shows "case r of
       Inr (Some (summary, mark)) \<Rightarrow>
         summary \<noteq> [] \<and> cb_failures (co_breaker c') = 0 \<and>
         (\<exists>b head. b = select_compaction_boundary messages (cf_min_messages_to_keep (co_config c)) \<and> b \<noteq> 0 \<and>
            messages' = head @ drop b messages \<and> head \<noteq> [] \<and> (\<forall>m\<in>set head. cm_role m = System))
     | _ \<Rightarrow> messages' = messages"
proof (cases "\<exists>s m. r = Inr (Some (s, m))")
  case True
  then obtain s m where r: "r = Inr (Some (s, m))" by blast
  obtain res where cc: "compact_conversation env (co_config c) messages system_prompt model_ref query w = (Inr res, w')"
    and res: "cr_compacted res" "s = cr_summary res" "messages' = cr_messages res" "co_breaker c' = record_success (co_breaker c)"
    using assms r by (auto simp: compact_if_needed_def compact_succeeded_def split: if_splits prod.splits sum.splits)
  from compact_conversation_messages [OF cc res(1)] res r show ?thesis by (simp add: record_success_def)
next
  case False
  then have "messages' = messages"
    using assms by (auto simp: compact_if_needed_def compact_succeeded_def split: if_splits prod.splits sum.splits)
  with False show ?thesis by (auto split: sum.splits option.splits)
qed

text \<open>A provider that answers one chunk, and a configuration that always compacts.\<close>

definition demo_config :: CompactionConfig where
  "demo_config = \<lparr>cf_context_window = 10, cf_context_windows = Map.empty, cf_ratio_threshold = (\<lambda>_. 0),
     cf_min_messages_to_keep = 2, cf_max_summary_tokens = 100, cf_buffer_tokens = 10, cf_max_consecutive_failures = 3,
     cf_strip_images = False, cf_strip_documents = False, cf_use_prompt_cache = False, cf_summary_model = None,
     cf_two_pass_enabled = True, cf_split_point = (\<lambda>n. n div 2)\<rparr>"

definition demo_compact_env :: "(ProviderError, chat_stream) result \<Rightarrow> unit compact_env" where
  "demo_compact_env answer = \<lparr>ce_chat = (\<lambda>_ _ w. (answer, w)), ce_session = None, ce_pretty = (\<lambda>_. []),
     ce_iso_now = ''now'', ce_bpe = None\<rparr>"

definition demo_answer :: "(ProviderError, chat_stream) result" where
  "demo_answer = Inr [Inr \<lparr>cc_index = 0, cc_delta = ''short'', cc_finish_reason = Some Stop, cc_tool_calls = None\<rparr>]"

lemma demo_should_compact: "should_compact None demo_config demo_conversation [] ''m'' = True"
  by code_simp

lemma demo_compacts:
  "\<exists>mark ms. compact_if_needed (demo_compact_env demo_answer) (Compactor_new demo_config) demo_conversation [] ''m'' [] () =
     (Inr (Some (''short'', mark)), ms, Compactor_new demo_config, ())"
proof -
  have b: "select_compaction_boundary demo_conversation 2 = 3" by code_simp
  have t: "trim_str ''short'' = ''short''" by code_simp
  show ?thesis
    using demo_should_compact b t
    by (simp add: compact_if_needed_def demo_compact_env_def demo_answer_def Compactor_new_def cb_allow_def CircuitBreaker_new_def
        compact_conversation_def generate_summary_def finish_compaction_def compact_succeeded_def
        build_compacted_messages_def record_success_def Let_def)
      (simp add: demo_config_def)
qed

theorem compaction_keeps_tail_witness:
  "\<exists>head mark ms. compact_if_needed (demo_compact_env demo_answer) (Compactor_new demo_config) demo_conversation [] ''m'' [] () =
      (Inr (Some (''short'', mark)), ms, Compactor_new demo_config, ()) \<and>
     ms = head @ [demo_tool_use, demo_tool_result, ChatMessage_user ''next''] \<and> (\<forall>m\<in>set head. cm_role m = System)"
proof -
  obtain mark ms where run: "compact_if_needed (demo_compact_env demo_answer) (Compactor_new demo_config) demo_conversation [] ''m'' [] () =
     (Inr (Some (''short'', mark)), ms, Compactor_new demo_config, ())" using demo_compacts by blast
  have b: "select_compaction_boundary demo_conversation (cf_min_messages_to_keep (co_config (Compactor_new demo_config))) = 3"
    by code_simp
  have d: "drop 3 demo_conversation = [demo_tool_use, demo_tool_result, ChatMessage_user ''next'']"
    by (simp add: demo_conversation_def eval_nat_numeral)
  from compaction_keeps_tail [OF run] b d obtain head where "ms = head @ [demo_tool_use, demo_tool_result, ChatMessage_user ''next'']"
    "\<forall>m\<in>set head. cm_role m = System" by auto
  with run show ?thesis by auto
qed

text \<open>The circuit breaker counts consecutive failures without wrapping and then stops the
  requests: its counter never exceeds its limit; a failed attempt of the single-stage compactor
  adds exactly one and leaves the conversation alone; and once the counter has reached the limit
  neither compactor calls the provider or changes anything.\<close>

theorem circuit_breaker_stops_requests:
  assumes "breaker_ok (co_breaker c)"
    and "compact_if_needed env c messages system_prompt model_ref query w = (r, messages', c', w')"
  shows "breaker_ok (co_breaker c') \<and>
     (\<forall>e. r = Inl e \<longrightarrow> unat (cb_failures (co_breaker c')) = Suc (unat (cb_failures (co_breaker c))) \<and> messages' = messages) \<and>
     (\<not> cb_allow (co_breaker c) \<longrightarrow> (r, messages', c', w') = (Inr None, messages, c, w) \<and>
        two_pass_compact_if_needed env c messages system_prompt model_ref query w = Some (Inr None, messages, c, w))"
proof -
  have "unat (cb_failures (co_breaker c')) = Suc (unat (cb_failures (co_breaker c))) \<and> messages' = messages" if "r = Inl e" for e
    using assms(2) that record_failure_ok [of "co_breaker c"]
    by (auto simp: compact_if_needed_def compact_succeeded_def split: if_splits prod.splits sum.splits)
  moreover have "(r, messages', c', w') = (Inr None, messages, c, w) \<and>
      two_pass_compact_if_needed env c messages system_prompt model_ref query w = Some (Inr None, messages, c, w)"
    if "\<not> cb_allow (co_breaker c)"
    using assms(2) that by (auto simp: compact_if_needed_def two_pass_compact_if_needed_def split: if_splits)
  ultimately show ?thesis using compact_if_needed_breaker(1) [OF assms(2,1)] by blast
qed

theorem circuit_breaker_stops_requests_witness:
  "let c = \<lparr>co_config = demo_config, co_breaker = \<lparr>cb_max = 3, cb_failures = 3\<rparr>\<rparr>
   in two_pass_compact_if_needed (demo_compact_env demo_answer) c demo_conversation [] ''m'' [] () =
      Some (Inr None, demo_conversation, c, ())"
proof -
  let ?c = "\<lparr>co_config = demo_config, co_breaker = \<lparr>cb_max = 3, cb_failures = 3\<rparr>\<rparr>"
  obtain r ms c' where run: "compact_if_needed (demo_compact_env demo_answer) ?c demo_conversation [] ''m'' [] () = (r, ms, c', ())"
    by (metis prod_cases4 old.unit.exhaust)
  have "breaker_ok (co_breaker ?c)" by (simp add: breaker_ok_def)
  from circuit_breaker_stops_requests [OF this run] show ?thesis by (simp add: cb_allow_def)
qed

text \<open>The two-stage compactor panics when the boundary is 1: the split is clamped to the empty
  range from 1 to 0.\<close>

theorem two_pass_panics_at_boundary_one:
  assumes "select_compaction_boundary messages (cf_min_messages_to_keep config) = 1"
  shows "compact_conversation_two_pass env config messages system_prompt model_ref query w = None"
  using assms by (simp add: compact_conversation_two_pass_def clamp_def)

theorem two_pass_panics_at_boundary_one_witness:
  "compact_conversation_two_pass (demo_compact_env demo_answer) demo_config
     [demo_tool_use, ChatMessage_user ''q'', demo_tool_result, ChatMessage_user ''next''] [] ''m'' [] () = None"
proof -
  have "select_compaction_boundary [demo_tool_use, ChatMessage_user ''q'', demo_tool_result, ChatMessage_user ''next'']
      (cf_min_messages_to_keep demo_config) = 1" by code_simp
  then show ?thesis by (rule two_pass_panics_at_boundary_one)
qed

end
