(* ===== verification/Session_Key.thy ===== *)
theory Session_Key
  imports Legion_Prelude
begin

text \<open>
  Session keys, from \<^verbatim>\<open>legion-plugin-sdk/src/session_key.rs\<close> and the channel types of
  \<^verbatim>\<open>legion-plugin-sdk/src/channel.rs\<close>: the seven-segment key
  \<^verbatim>\<open>agent:<agent>:<scope>:<channel>:<account>:<kind>:<peer>\<close>, its parser and printer, and
  the segment test that guards file-system paths.
\<close>

subsection \<open>Data\<close>

datatype PeerKind = Direct | Group | Thread

record Peer =
  pe_kind :: PeerKind
  pe_id :: string
  pe_name :: "string option"
  pe_thread_id :: "string option"

record Sender =
  se_id :: string
  se_display_name :: "string option"
  se_username :: "string option"

datatype Media =
    Image string "string option"
  | Audio string "string option"
  | Video string "string option"
  | Document string "string option" "string option"

record InboundMessage =
  im_channel :: string
  im_account_id :: string
  im_peer :: Peer
  im_sender :: Sender
  im_message_id :: string
  im_text :: "string option"
  im_media :: "Media list"
  im_reply_to :: "string option"
  im_timestamp :: string
  im_is_mentioned :: bool
  im_ambient :: bool
  im_guild_id :: "string option"
  im_team_id :: "string option"

record SessionKeyParts =
  sk_agent_id :: string
  sk_scope :: string
  sk_channel :: string
  sk_account_id :: string
  sk_peer_kind :: PeerKind
  sk_peer_id :: string

definition SESSION_KEY_SEGMENTS :: nat where
  "SESSION_KEY_SEGMENTS = 7"

subsection \<open>Operations\<close>

fun peer_kind_str :: "PeerKind \<Rightarrow> string" where
  "peer_kind_str Direct = ''direct''"
| "peer_kind_str Group = ''group''"
| "peer_kind_str Thread = ''thread''"

definition parse_peer_kind :: "string \<Rightarrow> PeerKind option" where
  "parse_peer_kind s =
     (if s = ''direct'' then Some Direct
      else if s = ''group'' then Some Group
      else if s = ''thread'' then Some Thread
      else None)"

definition parse_session_key :: "string \<Rightarrow> SessionKeyParts option" where
  "parse_session_key key =
     (let parts = split_on CHR '':'' key in
      if length parts \<noteq> SESSION_KEY_SEGMENTS \<or> parts ! 0 \<noteq> ''agent'' then None
      else (case parse_peer_kind (parts ! 5) of
              None \<Rightarrow> None
            | Some kind \<Rightarrow>
                Some \<lparr>sk_agent_id = parts ! 1, sk_scope = parts ! 2, sk_channel = parts ! 3,
                      sk_account_id = parts ! 4, sk_peer_kind = kind, sk_peer_id = parts ! 6\<rparr>))"

definition build_session_key :: "string \<Rightarrow> SessionKeyParts \<Rightarrow> string" where
  "build_session_key agent_id parts =
     ''agent:'' @ agent_id @ '':'' @ sk_scope parts @ '':'' @ sk_channel parts @ '':'' @
     sk_account_id parts @ '':'' @ peer_kind_str (sk_peer_kind parts) @ '':'' @ sk_peer_id parts"

definition SessionKeyParts_direct ::
  "string \<Rightarrow> string \<Rightarrow> string \<Rightarrow> string \<Rightarrow> string \<Rightarrow> SessionKeyParts" where
  "SessionKeyParts_direct agent_id scope channel account_id peer_id =
     \<lparr>sk_agent_id = agent_id, sk_scope = scope, sk_channel = channel,
      sk_account_id = account_id, sk_peer_kind = Direct, sk_peer_id = peer_id\<rparr>"

definition SessionKeyParts_key :: "SessionKeyParts \<Rightarrow> string" where
  "SessionKeyParts_key parts = build_session_key (sk_agent_id parts) parts"

definition direct_session_key ::
  "string \<Rightarrow> string \<Rightarrow> string \<Rightarrow> string \<Rightarrow> string \<Rightarrow> string" where
  "direct_session_key agent_id scope channel account_id peer_id =
     SessionKeyParts_key (SessionKeyParts_direct agent_id scope channel account_id peer_id)"

definition is_safe_segment :: "string \<Rightarrow> bool" where
  "is_safe_segment s \<longleftrightarrow>
     s \<noteq> [] \<and> list_all (\<lambda>b. is_alphanumeric b \<or> b = CHR ''.'' \<or> b = CHR ''_'' \<or> b = CHR ''-'') s"

subsection \<open>Facts\<close>

text \<open>The parts a key can carry: no segment holds the separator.\<close>

definition colon_free :: "string \<Rightarrow> bool" where
  "colon_free s \<longleftrightarrow> CHR '':'' \<notin> set s"

definition key_parts_ok :: "SessionKeyParts \<Rightarrow> bool" where
  "key_parts_ok p \<longleftrightarrow> colon_free (sk_agent_id p) \<and> colon_free (sk_scope p) \<and>
     colon_free (sk_channel p) \<and> colon_free (sk_account_id p) \<and> colon_free (sk_peer_id p)"

lemma peer_kind_str_colon_free [simp]: "colon_free (peer_kind_str k)"
  by (cases k) (auto simp: colon_free_def)

lemma parse_peer_kind_str [simp]: "parse_peer_kind (peer_kind_str k) = Some k"
  by (cases k) (auto simp: parse_peer_kind_def)

lemma parse_peer_kind_Some: "parse_peer_kind s = Some k \<Longrightarrow> peer_kind_str k = s"
  by (auto simp: parse_peer_kind_def split: if_splits)

lemma build_session_key_join:
  "build_session_key a p =
     join_with '':'' [''agent'', a, sk_scope p, sk_channel p, sk_account_id p,
       peer_kind_str (sk_peer_kind p), sk_peer_id p]"
  by (simp add: build_session_key_def)

lemma split_build_session_key:
  assumes "colon_free a" and "key_parts_ok p"
  shows "split_on CHR '':'' (build_session_key a p) =
     [''agent'', a, sk_scope p, sk_channel p, sk_account_id p,
       peer_kind_str (sk_peer_kind p), sk_peer_id p]"
  unfolding build_session_key_join
  using assms peer_kind_str_colon_free [of "sk_peer_kind p"]
  by (subst split_on_join) (auto simp: key_parts_ok_def colon_free_def)

lemma parse_build_session_key:
  assumes "colon_free a" and "key_parts_ok p"
  shows "parse_session_key (build_session_key a p) = Some (p\<lparr>sk_agent_id := a\<rparr>)"
  by (simp add: parse_session_key_def split_build_session_key [OF assms] SESSION_KEY_SEGMENTS_def)

lemma parse_session_key_SomeD:
  assumes "parse_session_key key = Some p"
  shows "build_session_key (sk_agent_id p) p = key" and "key_parts_ok p"
proof -
  let ?xs = "split_on CHR '':'' key"
  from assms have len: "length ?xs = 7" and hd: "?xs ! 0 = ''agent''"
    by (auto simp: parse_session_key_def SESSION_KEY_SEGMENTS_def Let_def split: if_splits)
  from len obtain a b c d e f g where xs: "?xs = [a, b, c, d, e, f, g]"
    by (auto simp: numeral_eq_Suc length_Suc_conv)
  from assms xs have p: "parse_peer_kind f = Some (sk_peer_kind p)" "sk_agent_id p = b"
      "sk_scope p = c" "sk_channel p = d" "sk_account_id p = e" "sk_peer_id p = g"
    by (auto simp: parse_session_key_def SESSION_KEY_SEGMENTS_def Let_def
        split: if_splits option.splits)
  have "key = join_with '':'' ?xs" by (simp add: join_split_on)
  with xs hd p parse_peer_kind_Some [OF p(1)]
  show "build_session_key (sk_agent_id p) p = key"
    by (simp add: build_session_key_join)
  have "\<forall>s\<in>set ?xs. colon_free s" using split_on_pieces by (auto simp: colon_free_def)
  with xs p show "key_parts_ok p" by (simp add: key_parts_ok_def)
qed

lemma colon_not_safe_char:
  "is_alphanumeric b \<or> b = CHR ''.'' \<or> b = CHR ''_'' \<or> b = CHR ''-'' \<Longrightarrow>
     b \<noteq> CHR '':'' \<and> b \<noteq> CHR ''/'' \<and> of_char b \<noteq> (92 :: nat) \<and> of_char b \<noteq> (0 :: nat)"
  by (auto simp: is_alphanumeric_def is_ascii_upper_def is_ascii_lower_def is_ascii_digit_def)

lemma safe_segment_chars:
  assumes "is_safe_segment s" and "b \<in> set s"
  shows "b \<noteq> CHR '':''" and "b \<noteq> CHR ''/''" and "of_char b \<noteq> (92 :: nat)"
  using assms colon_not_safe_char [of b] by (auto simp: is_safe_segment_def list_all_iff)

lemma safe_segment_colon_free [intro]: "is_safe_segment s \<Longrightarrow> colon_free s"
  using safe_segment_chars(1) by (auto simp: colon_free_def)

lemma colon_free_simps [simp]:
  "colon_free []" "colon_free (c # s) \<longleftrightarrow> c \<noteq> CHR '':'' \<and> colon_free s"
  by (auto simp: colon_free_def)

subsection \<open>Properties\<close>

text \<open>Parsing and printing session keys are inverse to each other: a key built from parts
  whose segments hold no separator parses back to the same parts with the given agent, and any
  key that parses is rebuilt exactly, with separator-free segments.\<close>

theorem session_key_roundtrip:
  "(colon_free a \<and> key_parts_ok p \<longrightarrow>
      parse_session_key (build_session_key a p) = Some (p\<lparr>sk_agent_id := a\<rparr>)) \<and>
   (parse_session_key key = Some q \<longrightarrow>
      build_session_key (sk_agent_id q) q = key \<and> key_parts_ok q)"
  using parse_build_session_key parse_session_key_SomeD by blast

theorem session_key_roundtrip_witness:
  "parse_session_key (build_session_key ''main''
     (SessionKeyParts_direct ''x'' ''dm'' ''telegram'' ''acct'' ''42'')) =
     Some (SessionKeyParts_direct ''main'' ''dm'' ''telegram'' ''acct'' ''42'') \<and>
   build_session_key ''ops'' (SessionKeyParts_direct ''ops'' ''a2a'' ''cli'' ''d'' ''p'') =
     ''agent:ops:a2a:cli:d:direct:p''"
proof -
  have parsed: "parse_session_key ''agent:ops:a2a:cli:d:direct:p'' =
      Some (SessionKeyParts_direct ''ops'' ''a2a'' ''cli'' ''d'' ''p'')"
    by (simp add: parse_session_key_def SESSION_KEY_SEGMENTS_def parse_peer_kind_def
        SessionKeyParts_direct_def)
  show ?thesis
    using session_key_roundtrip [of "''main''"
        "SessionKeyParts_direct ''x'' ''dm'' ''telegram'' ''acct'' ''42''"
        "''agent:ops:a2a:cli:d:direct:p''"
        "SessionKeyParts_direct ''ops'' ''a2a'' ''cli'' ''d'' ''p''"] parsed
    by (simp add: key_parts_ok_def SessionKeyParts_direct_def)
qed

text \<open>The key of a local producer whose segments are safe always parses, back to a direct
  peer with the given agent, scope, channel, account and peer: the parser never rejects what
  the constructor for command-line, cron and sub-agent sessions produces.\<close>

theorem direct_session_key_parses:
  assumes "is_safe_segment agent" and "is_safe_segment scope" and "is_safe_segment chan"
    and "is_safe_segment acct" and "is_safe_segment peer"
  shows "parse_session_key (direct_session_key agent scope chan acct peer) =
     Some (SessionKeyParts_direct agent scope chan acct peer)"
  using assms parse_build_session_key [of agent "SessionKeyParts_direct agent scope chan acct peer"]
  by (auto simp: direct_session_key_def SessionKeyParts_key_def SessionKeyParts_direct_def
      key_parts_ok_def)

theorem direct_session_key_parses_witness:
  "parse_session_key ''agent:main:cron:local:default:direct:job-1'' =
     Some (SessionKeyParts_direct ''main'' ''cron'' ''local'' ''default'' ''job-1'')"
proof -
  have "is_safe_segment ''main''" "is_safe_segment ''cron''" "is_safe_segment ''local''"
      "is_safe_segment ''default''" "is_safe_segment ''job-1''"
    by code_simp+
  from direct_session_key_parses [OF this] show ?thesis
    by (simp add: direct_session_key_def SessionKeyParts_key_def SessionKeyParts_direct_def
        build_session_key_def)
qed

end
