(* ===== verification/Goal.thy ===== *)
theory Goal
  imports Session_Key Chat_Types File_Store
begin

text \<open>
  Session goals: their lifecycle and the \<open>/goal\<close> command (\<^verbatim>\<open>legion-runtime/src/goal.rs\<close>), the
  on-disk store, the turn-end gate (\<^verbatim>\<open>goal_gate.rs\<close>) and the model-facing tools
  (\<^verbatim>\<open>legion-host/src/goal_tools.rs\<close>). The clock, the JSON text format and the \<open>Debug\<close> form of
  a string are parameters.
\<close>

subsection \<open>Goals\<close>

datatype GoalStatus = GActive | GPaused | GBlocked | GBudgetLimited | GUsageLimited | GComplete

fun GoalStatus_as_str :: "GoalStatus \<Rightarrow> string" where
  "GoalStatus_as_str GActive = ''active''"
| "GoalStatus_as_str GPaused = ''paused''"
| "GoalStatus_as_str GBlocked = ''blocked''"
| "GoalStatus_as_str GBudgetLimited = ''budget_limited''"
| "GoalStatus_as_str GUsageLimited = ''usage_limited''"
| "GoalStatus_as_str GComplete = ''complete''"

definition goal_is_active :: "GoalStatus \<Rightarrow> bool" where
  "goal_is_active s \<longleftrightarrow> s = GActive"

definition is_terminal :: "GoalStatus \<Rightarrow> bool" where
  "is_terminal s \<longleftrightarrow> s = GComplete"

definition can_resume :: "GoalStatus \<Rightarrow> bool" where
  "can_resume s \<longleftrightarrow> s \<in> {GPaused, GBlocked, GBudgetLimited, GUsageLimited}"

record Goal =
  go_objective :: string
  go_status :: GoalStatus
  go_note :: "string option"
  go_created_at :: int
  go_updated_at :: int

definition Goal_new :: "int \<Rightarrow> string \<Rightarrow> Goal" where
  "Goal_new now objective = \<lparr>go_objective = objective, go_status = GActive, go_note = None,
     go_created_at = now, go_updated_at = now\<rparr>"

definition Goal_edit :: "int \<Rightarrow> string \<Rightarrow> Goal \<Rightarrow> Goal" where
  "Goal_edit now objective g = g\<lparr>go_objective := objective, go_updated_at := now\<rparr>"

definition set_status :: "int \<Rightarrow> GoalStatus \<Rightarrow> string option \<Rightarrow> Goal \<Rightarrow> Goal" where
  "set_status now status note g = g\<lparr>go_status := status, go_note := note, go_updated_at := now\<rparr>"

definition em_dash :: string where
  "em_dash = [CHR 0xE2, CHR 0x80, CHR 0x94]"

definition dquoted :: "string \<Rightarrow> string" where
  "dquoted s = CHR 0x22 # s @ [CHR 0x22]"

definition context_line :: "Goal \<Rightarrow> string" where
  "context_line g = ''Active goal: '' @ go_objective g @ '' '' @ em_dash @
     '' advance it or update its status (get_goal/update_goal).''"

definition Goal_summary :: "Goal \<Rightarrow> string" where
  "Goal_summary g = join_with [CHR 0x0A]
     ([''Goal'', ''Status: '' @ GoalStatus_as_str (go_status g), ''Objective: '' @ go_objective g] @
      (case go_note g of Some note \<Rightarrow> [''Note: '' @ note] | None \<Rightarrow> []))"

subsection \<open>The \<open>/goal\<close> command\<close>

datatype GoalAction =
    Show
  | StartGoal string
  | Edit string
  | Pause "string option"
  | Resume "string option"
  | Complete "string option"
  | Block "string option"
  | Clear

definition none_if_empty :: "string \<Rightarrow> string option" where
  "none_if_empty s = (let trimmed = trim_str s in if trimmed = [] then None else Some trimmed)"

definition parse_goal :: "string \<Rightarrow> GoalAction" where
  "parse_goal args =
     (let trimmed = trim_str args
      in if trimmed = [] then Show
         else
           let verb = takeWhile (\<lambda>c. \<not> is_whitespace c) trimmed;
               rest = trim_start (dropWhile (\<lambda>c. \<not> is_whitespace c) trimmed);
               verb_lower = to_lowercase verb
           in if verb_lower = ''status'' then Show
              else if verb_lower \<in> {''start'', ''set'', ''create''} then StartGoal rest
              else if verb_lower = ''edit'' then Edit rest
              else if verb_lower = ''pause'' then Pause (none_if_empty rest)
              else if verb_lower = ''resume'' then Resume (none_if_empty rest)
              else if verb_lower \<in> {''complete'', ''done''} then Complete (none_if_empty rest)
              else if verb_lower \<in> {''block'', ''blocked''} then Block (none_if_empty rest)
              else if verb_lower = ''clear'' then Clear
              else StartGoal trimmed)"

definition goal_not_found :: string where
  "goal_not_found = ''Goal error: goal not found. Start one with /goal start <objective>.''"

fun apply_action :: "int \<Rightarrow> Goal option \<Rightarrow> GoalAction \<Rightarrow> Goal option \<times> string" where
  "apply_action now current Show =
     (case current of
        Some g \<Rightarrow> (current, Goal_summary g)
      | None \<Rightarrow> (current, ''No active goal. Start one with /goal <objective>.''))"
| "apply_action now current (StartGoal objective) =
     (if trim_str objective = []
      then (current, ''Goal error: objective cannot be empty. Usage: /goal <objective>'')
      else if (case current of Some g \<Rightarrow> \<not> is_terminal (go_status g) | None \<Rightarrow> False)
      then (current, ''Goal error: goal already exists. Use /goal to inspect it, /goal complete if done, or /goal clear before starting a different objective.'')
      else let g = Goal_new now objective in (Some g, ''Goal set: '' @ go_objective g))"
| "apply_action now current (Edit objective) =
     (if trim_str objective = []
      then (current, ''Goal error: objective cannot be empty. Usage: /goal edit <objective>'')
      else case current of
             Some g \<Rightarrow>
               if \<not> is_terminal (go_status g)
               then let g' = Goal_edit now objective g in (Some g', ''Goal updated: '' @ go_objective g')
               else (Some g, ''Goal error: goal is already complete. Clear it before editing.'')
           | None \<Rightarrow> (None, goal_not_found))"
| "apply_action now current (Pause note) =
     (case current of
        Some g \<Rightarrow>
          if goal_is_active (go_status g) then (Some (set_status now GPaused note g), ''Goal paused.'')
          else (current, ''Goal error: cannot pause a '' @ GoalStatus_as_str (go_status g) @ '' goal.'')
      | None \<Rightarrow> (None, goal_not_found))"
| "apply_action now current (Resume note) =
     (case current of
        Some g \<Rightarrow>
          if can_resume (go_status g) then (Some (set_status now GActive note g), ''Goal resumed.'')
          else if goal_is_active (go_status g) then (current, ''Goal is already active.'')
          else (current, ''Goal error: cannot resume a '' @ GoalStatus_as_str (go_status g) @ '' goal.'')
      | None \<Rightarrow> (None, goal_not_found))"
| "apply_action now current (Complete note) =
     (case current of
        Some g \<Rightarrow>
          if \<not> is_terminal (go_status g) then (Some (set_status now GComplete note g), ''Goal completed.'')
          else (Some g, ''Goal error: goal is already complete.'')
      | None \<Rightarrow> (None, goal_not_found))"
| "apply_action now current (Block note) =
     (case current of
        Some g \<Rightarrow>
          if \<not> is_terminal (go_status g) then (Some (set_status now GBlocked note g), ''Goal marked as blocked.'')
          else (Some g, ''Goal error: goal is already complete.'')
      | None \<Rightarrow> (None, goal_not_found))"
| "apply_action now current Clear =
     (if current \<noteq> None then (None, ''Goal cleared.'') else (None, ''No active goal to clear.''))"

subsection \<open>The store\<close>

datatype GoalError = GoalIo io_error | GoalJson string | InvalidSessionKey

fun GoalError_display :: "GoalError \<Rightarrow> string" where
  "GoalError_display (GoalIo (InvalidData e)) = ''I/O error: '' @ e"
| "GoalError_display (GoalIo (OsError e)) = ''I/O error: '' @ e"
| "GoalError_display (GoalJson e) = ''JSON error: '' @ e"
| "GoalError_display InvalidSessionKey = ''invalid session key''"

text \<open>\<open>gs_from_str\<close> reads an optional goal: the text \<open>null\<close> is no goal.\<close>

record GoalStore =
  gs_base_dir :: string
  gs_faults :: faults
  gs_stamp :: "nat \<times> nat"
  gs_from_str :: "string \<Rightarrow> (string, Goal option) result"
  gs_to_string_pretty :: "Goal \<Rightarrow> (string, string) result"

definition goal_path_for :: "string \<Rightarrow> string \<Rightarrow> (GoalError, string) result" where
  "goal_path_for base_dir session_key =
     (case parse_session_key session_key of
        None \<Rightarrow> Inl InvalidSessionKey
      | Some parts \<Rightarrow>
          if \<not> is_safe_segment (sk_agent_id parts) \<or> \<not> is_safe_segment (sk_peer_id parts)
          then Inl InvalidSessionKey
          else Inr (path_join (path_join (path_join (path_join base_dir ''agents'') (sk_agent_id parts)) ''goals'')
                 (sk_peer_id parts @ ''.json'')))"

definition goal_load :: "GoalStore \<Rightarrow> string \<Rightarrow> files \<Rightarrow> (GoalError, Goal option) result" where
  "goal_load store session_key fs =
     bind_result (goal_path_for (gs_base_dir store) session_key) (\<lambda>path.
       if \<not> fs_exists (path_components path) fs then Inr None
       else case fs_read (gs_faults store) (path_components path) fs of
              Inl e \<Rightarrow> Inl (GoalIo e)
            | Inr content \<Rightarrow>
                (case gs_from_str store content of Inl e \<Rightarrow> Inl (GoalJson e) | Inr g \<Rightarrow> Inr g))"

definition goal_save :: "GoalStore \<Rightarrow> string \<Rightarrow> Goal \<Rightarrow> files \<Rightarrow> (GoalError, unit) result \<times> files" where
  "goal_save store session_key goal fs =
     (case goal_path_for (gs_base_dir store) session_key of
        Inl e \<Rightarrow> (Inl e, fs)
      | Inr path \<Rightarrow>
          (case fs_create_dir_all (gs_faults store) (butlast (path_components path)) of
             Inl e \<Rightarrow> (Inl (GoalIo e), fs)
           | Inr _ \<Rightarrow>
               (case gs_to_string_pretty store goal of
                  Inl e \<Rightarrow> (Inl (GoalJson e), fs)
                | Inr content \<Rightarrow>
                    (case atomic_write (gs_faults store) (gs_stamp store) (path_components path) content fs of
                       (Inl e, fs') \<Rightarrow> (Inl (GoalIo e), fs')
                     | (Inr _, fs') \<Rightarrow> (Inr (), fs')))))"

definition goal_remove :: "GoalStore \<Rightarrow> string \<Rightarrow> files \<Rightarrow> (GoalError, unit) result \<times> files" where
  "goal_remove store session_key fs =
     (case goal_path_for (gs_base_dir store) session_key of
        Inl e \<Rightarrow> (Inl e, fs)
      | Inr path \<Rightarrow>
          if fs_exists (path_components path) fs then
            (case gs_faults store (Fs_remove (path_components path)) of
               Some (e, _) \<Rightarrow> (Inl (GoalIo (OsError e)), fs)
             | None \<Rightarrow> (Inr (), fs(path_components path := None)))
          else (Inr (), fs))"

subsection \<open>The turn-end gate\<close>

datatype GoalGateResult = GoalPass | Continue string

record GoalGate =
  gg_store :: GoalStore
  gg_session_key :: string
  gg_enabled :: bool

definition GoalGate_new :: "GoalStore \<Rightarrow> string \<Rightarrow> GoalGate" where
  "GoalGate_new store session_key = \<lparr>gg_store = store, gg_session_key = session_key, gg_enabled = True\<rparr>"

definition GoalGate_disabled :: "GoalStore \<Rightarrow> GoalGate" where
  "GoalGate_disabled store = \<lparr>gg_store = store, gg_session_key = [], gg_enabled = False\<rparr>"

definition load_active_inner :: "GoalGate \<Rightarrow> files \<Rightarrow> Goal option" where
  "load_active_inner gate fs =
     (case goal_load (gg_store gate) (gg_session_key gate) fs of
        Inr (Some goal) \<Rightarrow> if goal_is_active (go_status goal) then Some goal else None
      | Inr None \<Rightarrow> None
      | Inl _ \<Rightarrow> None)"

definition load_active :: "GoalGate \<Rightarrow> files \<Rightarrow> Goal option" where
  "load_active gate fs = (if \<not> gg_enabled gate then None else load_active_inner gate fs)"

definition goal_turn_reminder :: "Goal \<Rightarrow> string" where
  "goal_turn_reminder goal =
     ''The session goal is still active '' @ em_dash @ '' '' @ go_objective goal @
     ''. Continue working toward it. When it is achieved, call update_goal with status='' @ dquoted ''complete'' @
     ''; if genuinely stuck, status='' @ dquoted ''blocked'' @ ''; if you need user input, status='' @ dquoted ''paused'' @
     ''. The turn will not end while the goal is active.''"

definition goal_gate_check :: "GoalGate \<Rightarrow> files \<Rightarrow> GoalGateResult" where
  "goal_gate_check gate fs =
     (if \<not> gg_enabled gate then GoalPass
      else case load_active_inner gate fs of
             None \<Rightarrow> GoalPass
           | Some goal \<Rightarrow> Continue (goal_turn_reminder goal))"

subsection \<open>The goal tools\<close>

definition check_session :: "string \<Rightarrow> string \<Rightarrow> (string, unit) result" where
  "check_session session_id agent_id =
     (case parse_session_key session_id of
        None \<Rightarrow> Inl (''invalid session key: '' @ session_id)
      | Some parts \<Rightarrow> if sk_agent_id parts \<noteq> agent_id then Inl ''cross-agent session access denied'' else Inr ())"

definition store_error :: "GoalError \<Rightarrow> ToolError" where
  "store_error e = Execution (''goal store: '' @ GoalError_display e)"

definition GetGoal_execute ::
  "GoalStore \<Rightarrow> int \<Rightarrow> string \<Rightarrow> string \<Rightarrow> files \<Rightarrow> (ToolError, ToolResult) result" where
  "GetGoal_execute store now session_id agent_id fs =
     (case check_session session_id agent_id of
        Inl msg \<Rightarrow> Inr (ToolResult_error msg)
      | Inr _ \<Rightarrow>
          (case goal_load store session_id fs of
             Inl e \<Rightarrow> Inl (store_error e)
           | Inr current \<Rightarrow> Inr (ToolResult_ok (snd (apply_action now current Show)))))"

definition CreateGoal_execute ::
  "GoalStore \<Rightarrow> int \<Rightarrow> string \<Rightarrow> string \<Rightarrow> json \<Rightarrow> files \<Rightarrow> (ToolError, ToolResult) result \<times> files" where
  "CreateGoal_execute store now session_id agent_id params fs =
     (case check_session session_id agent_id of
        Inl msg \<Rightarrow> (Inr (ToolResult_error msg), fs)
      | Inr _ \<Rightarrow>
          let objective = unwrap_or (Option.bind (json_get params ''objective'') json_as_str) []
          in (case goal_load store session_id fs of
                Inl e \<Rightarrow> (Inl (store_error e), fs)
              | Inr current \<Rightarrow>
                  (case apply_action now current (StartGoal objective) of
                     (None, reply) \<Rightarrow> (Inr (ToolResult_error reply), fs)
                   | (Some goal, reply) \<Rightarrow>
                       if current \<noteq> None \<and> \<not> prefix ''Goal set'' reply then (Inr (ToolResult_error reply), fs)
                       else (case goal_save store session_id goal fs of
                               (Inl e, fs') \<Rightarrow> (Inl (store_error e), fs')
                             | (Inr _, fs') \<Rightarrow> (Inr (ToolResult_ok reply), fs')))))"

text \<open>The requested actions, in their fixed order; \<open>Inl\<close> is the error message.\<close>

definition update_actions :: "(string \<Rightarrow> string) \<Rightarrow> json \<Rightarrow> (string, GoalAction list) result" where
  "update_actions dbg params =
     (let str = (\<lambda>k. Option.bind (json_get params k) json_as_str); note = str ''note'';
          edits = (case str ''objective'' of Some objective \<Rightarrow> [Edit objective] | None \<Rightarrow> [])
      in case str ''status'' of
           Some status \<Rightarrow>
             if status = ''active'' then Inr (edits @ [Resume note])
             else if status = ''paused'' then Inr (edits @ [Pause note])
             else if status = ''blocked'' then Inr (edits @ [Block note])
             else if status = ''complete'' then Inr (edits @ [Complete note])
             else Inl (''invalid status '' @ dbg status @ '' (expected active|paused|blocked|complete)'')
         | None \<Rightarrow>
             if note \<noteq> None then Inl ''note requires a status change''
             else if edits = [] then Inl ''no update fields provided (status or objective)''
             else Inr edits)"

text \<open>The loop over the actions: the goal and replies so far; \<open>Inl\<close> when one failed.\<close>

fun update_loop ::
  "int \<Rightarrow> Goal option \<Rightarrow> string list \<Rightarrow> GoalAction list \<Rightarrow> (string list, Goal option \<times> string list) result" where
  "update_loop now current replies [] = Inr (current, replies)"
| "update_loop now current replies (action # actions) =
     (let (nxt, reply) = apply_action now current action; replies' = replies @ [reply]
      in if prefix ''Goal error:'' reply then Inl replies' else update_loop now nxt replies' actions)"

definition UpdateGoal_execute ::
  "(string \<Rightarrow> string) \<Rightarrow> GoalStore \<Rightarrow> int \<Rightarrow> string \<Rightarrow> string \<Rightarrow> json \<Rightarrow> files \<Rightarrow>
     (ToolError, ToolResult) result \<times> files" where
  "UpdateGoal_execute dbg store now session_id agent_id params fs =
     (case check_session session_id agent_id of
        Inl msg \<Rightarrow> (Inr (ToolResult_error msg), fs)
      | Inr _ \<Rightarrow>
          (case update_actions dbg params of
             Inl msg \<Rightarrow> (Inr (ToolResult_error msg), fs)
           | Inr actions \<Rightarrow>
               (case goal_load store session_id fs of
                  Inl e \<Rightarrow> (Inl (store_error e), fs)
                | Inr current \<Rightarrow>
                    (case update_loop now current [] actions of
                       Inl replies \<Rightarrow> (Inr (ToolResult_error (join_with [CHR 0x0A] replies)), fs)
                     | Inr (Some goal, replies) \<Rightarrow>
                         (case goal_save store session_id goal fs of
                            (Inl e, fs') \<Rightarrow> (Inl (store_error e), fs')
                          | (Inr _, fs') \<Rightarrow> (Inr (ToolResult_ok (join_with [CHR 0x0A] replies)), fs'))
                     | Inr (None, replies) \<Rightarrow>
                         (case goal_remove store session_id fs of
                            (Inl e, fs') \<Rightarrow> (Inl (store_error e), fs')
                          | (Inr _, fs') \<Rightarrow> (Inr (ToolResult_ok (join_with [CHR 0x0A] replies)), fs'))))))"

subsection \<open>The lifecycle\<close>

text \<open>The legal moves of a session's goal: \<open>None\<close> is no goal.\<close>

inductive goal_step :: "GoalStatus option \<Rightarrow> GoalStatus option \<Rightarrow> bool" where
  stay: "goal_step s s"
| start: "goal_step None (Some GActive)"
| restart: "goal_step (Some GComplete) (Some GActive)"
| pause: "goal_step (Some GActive) (Some GPaused)"
| resume: "can_resume s \<Longrightarrow> goal_step (Some s) (Some GActive)"
| complete: "s \<noteq> GComplete \<Longrightarrow> goal_step (Some s) (Some GComplete)"
| block: "s \<noteq> GComplete \<Longrightarrow> goal_step (Some s) (Some GBlocked)"
| clear: "goal_step s None"

inductive_simps goal_step_from_complete: "goal_step (Some GComplete) t"

lemma apply_action_step:
  "apply_action now current action = (nxt, reply) \<Longrightarrow>
   goal_step (map_option go_status current) (map_option go_status nxt)"
  by (cases action; cases current)
    (auto simp: is_terminal_def goal_is_active_def Goal_new_def Goal_edit_def set_status_def Let_def
      intro: goal_step.intros split: if_splits)

lemma apply_action_error:
  "apply_action now current action = (nxt, reply) \<Longrightarrow> prefix ''Goal error:'' reply \<Longrightarrow> nxt = current"
  by (cases action; cases current)
    (auto simp: Goal_new_def Goal_edit_def goal_not_found_def Let_def split: if_splits)

definition stops :: "GoalAction \<Rightarrow> bool" where
  "stops a \<longleftrightarrow> (\<exists>note. a \<in> {Pause note, Block note, Complete note})"

lemma apply_stop:
  assumes "apply_action now current a = (nxt, reply)" and "stops a" and "\<not> prefix ''Goal error:'' reply"
  shows "\<exists>g. nxt = Some g \<and> \<not> goal_is_active (go_status g)"
  using assms
  by (cases a; cases current)
    (auto simp: stops_def set_status_def goal_is_active_def goal_not_found_def split: if_splits)

lemma update_loop_last:
  "update_loop now current replies (actions @ [a]) = Inr (g, replies') \<Longrightarrow>
   \<exists>c reply. apply_action now c a = (g, reply) \<and> \<not> prefix ''Goal error:'' reply"
proof (induction actions arbitrary: current replies)
  case Nil
  then show ?case by (auto simp: Let_def split: prod.splits if_splits)
next
  case (Cons b actions)
  then show ?case by (auto simp: Let_def split: prod.splits if_splits)
qed

lemma update_actions_stop:
  assumes "update_actions dbg params = Inr actions"
    and "json_get params ''status'' = Some (JString s)" and "s \<in> {''paused'', ''blocked'', ''complete''}"
  shows "\<exists>edits a. actions = edits @ [a] \<and> stops a"
proof -
  obtain edits a where "actions = edits @ [a]"
    and "a \<in> {Pause (Option.bind (json_get params ''note'') json_as_str), Block (Option.bind (json_get params ''note'') json_as_str),
          Complete (Option.bind (json_get params ''note'') json_as_str)}"
    using assms by (auto simp: update_actions_def Let_def)
  then show ?thesis by (auto simp: stops_def)
qed

subsection \<open>Facts on the store\<close>

lemma goal_save_load:
  assumes "goal_save store key goal fs = (Inr u, fs')"
    and "\<And>g s. gs_to_string_pretty store g = Inr s \<Longrightarrow> gs_from_str store s = Inr (Some g)"
    and "\<And>p. gs_faults store (Fs_read p) = None"
  shows "goal_load store key fs' = Inr (Some goal)"
proof -
  obtain path content where p: "goal_path_for (gs_base_dir store) key = Inr path"
    and c: "gs_to_string_pretty store goal = Inr content"
    and w: "\<exists>u. atomic_write (gs_faults store) (gs_stamp store) (path_components path) content fs = (Inr u, fs')"
    using assms(1) by (auto simp: goal_save_def split: sum.splits prod.splits)
  from w obtain u where w: "atomic_write (gs_faults store) (gs_stamp store) (path_components path) content fs = (Inr u, fs')" ..
  have "fs_exists (path_components path) fs' \<and> fs_read (gs_faults store) (path_components path) fs' = Inr content"
    by (rule atomic_write_read [OF w]) (rule assms(3))
  with p assms(2) [OF c] show ?thesis by (simp add: goal_load_def)
qed

lemma goal_gate_after_load:
  assumes "goal_load store key fs = Inr (Some g)"
  shows "goal_gate_check (GoalGate_new store key) fs =
     (if goal_is_active (go_status g) then Continue (goal_turn_reminder g) else GoalPass)"
  using assms by (simp add: goal_gate_check_def GoalGate_new_def load_active_inner_def)

subsection \<open>Properties\<close>

text \<open>Goals follow their lifecycle: whatever action is applied, the session's goal moves along
  one of the legal steps (start, pause, resume, complete, block, clear, or stay as it is);
  an action that answers with an error leaves the goal as it was; and a completed goal is left
  only by starting a new one or by clearing it.\<close>

theorem goal_lifecycle:
  assumes "apply_action now current action = (nxt, reply)"
  shows "goal_step (map_option go_status current) (map_option go_status nxt) \<and>
     (prefix ''Goal error:'' reply \<longrightarrow> nxt = current) \<and>
     ((\<exists>g. current = Some g \<and> go_status g = GComplete) \<and> nxt \<noteq> current \<longrightarrow>
        (\<exists>objective. action = StartGoal objective) \<or> action = Clear)"
proof -
  have "(\<exists>objective. action = StartGoal objective) \<or> action = Clear"
    if "current = Some g" "go_status g = GComplete" "nxt \<noteq> current" for g
    using assms that by (cases action) (auto simp: is_terminal_def goal_is_active_def can_resume_def split: if_splits)
  with apply_action_step [OF assms] apply_action_error [OF assms] show ?thesis by blast
qed

definition demo_goal :: Goal where
  "demo_goal = Goal_new 0 ''ship it''"

theorem goal_lifecycle_witness:
  "goal_step (Some GActive) (Some GPaused) \<and>
   apply_action 1 (Some demo_goal) (Pause None) = (Some (set_status 1 GPaused None demo_goal), ''Goal paused.'')"
proof -
  have run: "apply_action 1 (Some demo_goal) (Pause None) = (Some (set_status 1 GPaused None demo_goal), ''Goal paused.'')"
    by (simp add: demo_goal_def Goal_new_def goal_is_active_def)
  from goal_lifecycle [OF run] run show ?thesis by (simp add: demo_goal_def Goal_new_def set_status_def)
qed

text \<open>The update tool is all or nothing and ends the pursuit: when it answers with an error
  result the goal file is untouched, and when it succeeds with status paused, blocked or
  complete, the turn-end gate of that session lets the run end from then on (goal texts that
  were printed parse back, and the file can be read).\<close>

theorem update_goal_ends_pursuit:
  assumes "UpdateGoal_execute dbg store now session_id agent_id params fs = (Inr res, fs')"
    and "\<And>g s. gs_to_string_pretty store g = Inr s \<Longrightarrow> gs_from_str store s = Inr (Some g)"
    and "\<And>p. gs_faults store (Fs_read p) = None"
  shows "(tr_is_error res \<longrightarrow> fs' = fs) \<and>
     (\<forall>s. \<not> tr_is_error res \<and> json_get params ''status'' = Some (JString s) \<and> s \<in> {''paused'', ''blocked'', ''complete''} \<longrightarrow>
        goal_gate_check (GoalGate_new store session_id) fs' = GoalPass)"
proof -
  have "goal_gate_check (GoalGate_new store session_id) fs' = GoalPass"
    if ok: "\<not> tr_is_error res" and s: "json_get params ''status'' = Some (JString s)" "s \<in> {''paused'', ''blocked'', ''complete''}" for s
  proof -
    obtain actions current g replies where ua: "update_actions dbg params = Inr actions"
      and ul: "update_loop now current [] actions = Inr (g, replies)"
      and sv: "\<forall>goal. g = Some goal \<longrightarrow> (\<exists>u. goal_save store session_id goal fs = (Inr u, fs'))"
      using assms(1) ok
      by (auto simp: UpdateGoal_execute_def ToolResult_error_def split: sum.splits prod.splits option.splits)
    obtain edits a where a: "actions = edits @ [a]" "stops a" using update_actions_stop [OF ua s] by blast
    then obtain goal where goal: "g = Some goal" "\<not> goal_is_active (go_status goal)"
      using update_loop_last [of now current "[]" edits a g replies] ul apply_stop by blast
    with sv obtain u where "goal_save store session_id goal fs = (Inr u, fs')" by blast
    from goal_save_load [OF this assms(2,3)] goal(2) show ?thesis by (simp add: goal_gate_after_load)
  qed
  moreover have "fs' = fs" if "tr_is_error res"
    using assms(1) that
    by (auto simp: UpdateGoal_execute_def ToolResult_ok_def split: sum.splits prod.splits option.splits)
  ultimately show ?thesis by blast
qed

definition demo_store :: GoalStore where
  "demo_store = \<lparr>gs_base_dir = ''/h'', gs_faults = (\<lambda>_. None), gs_stamp = (1, 1),
     gs_from_str = (\<lambda>s. if s = ''active'' then Inr (Some demo_goal)
       else if s = ''complete'' then Inr (Some (set_status 1 GComplete None demo_goal)) else Inl ''bad''),
     gs_to_string_pretty = (\<lambda>g. if g = demo_goal then Inr ''active''
       else if g = set_status 1 GComplete None demo_goal then Inr ''complete'' else Inl ''bad'')\<rparr>"

definition demo_key :: string where
  "demo_key = ''agent:main:m:tg:a:direct:42''"

definition demo_goal_file :: path where
  "demo_goal_file = [RootDir, Normal ''h'', Normal ''agents'', Normal ''main'', Normal ''goals'', Normal ''42.json'']"

lemma demo_goal_path: "goal_path_for ''/h'' demo_key = Inr ''/h/agents/main/goals/42.json''"
  "path_components ''/h/agents/main/goals/42.json'' = demo_goal_file" "check_session demo_key ''main'' = Inr ()"
  by code_simp+

theorem update_goal_ends_pursuit_witness:
  "let fs = [demo_goal_file \<mapsto> ''active''];
       (r, fs') = UpdateGoal_execute (\<lambda>s. s) demo_store 1 demo_key ''main'' (JObject [(''status'', JString ''complete'')]) fs
   in r = Inr (ToolResult_ok ''Goal completed.'') \<and>
      goal_gate_check (GoalGate_new demo_store demo_key) fs = Continue (goal_turn_reminder demo_goal) \<and>
      goal_gate_check (GoalGate_new demo_store demo_key) fs' = GoalPass"
proof -
  let ?fs = "[demo_goal_file \<mapsto> ''active'']" and ?params = "JObject [(''status'', JString ''complete'')]"
  have ld: "goal_load demo_store demo_key ?fs = Inr (Some demo_goal)"
    by (simp add: goal_load_def demo_store_def demo_goal_path fs_exists_def fs_read_def)
  have ne: "set_status 1 GComplete None demo_goal \<noteq> demo_goal"
    by (simp add: demo_goal_def Goal_new_def set_status_def)
  obtain fs' where sv: "goal_save demo_store demo_key (set_status 1 GComplete None demo_goal) ?fs = (Inr (), fs')"
    using ne by (simp add: goal_save_def demo_store_def demo_goal_path fs_create_dir_all_def atomic_write_def fs_write_def
        fs_rename_def Let_def)
  have run: "UpdateGoal_execute (\<lambda>s. s) demo_store 1 demo_key ''main'' ?params ?fs = (Inr (ToolResult_ok ''Goal completed.''), fs')"
    using ld sv by (simp add: UpdateGoal_execute_def demo_goal_path update_actions_def Let_def)
      (simp add: demo_goal_def Goal_new_def is_terminal_def)
  have rt: "gs_from_str demo_store s = Inr (Some g)" if "gs_to_string_pretty demo_store g = Inr s" for g s
    using that by (auto simp: demo_store_def split: if_splits)
  have nf: "gs_faults demo_store (Fs_read p) = None" for p by (simp add: demo_store_def)
  from update_goal_ends_pursuit [OF run rt nf] run goal_gate_after_load [OF ld]
  show ?thesis by (simp add: ToolResult_ok_def) (simp add: demo_goal_def Goal_new_def goal_is_active_def)
qed

text \<open>The goal file depends on the agent and the peer only: two sessions of an agent whose keys
  differ in channel, account, scope or kind of peer, but name the same peer id, have one and
  the same goal file.\<close>

theorem goal_file_shared_across_channels:
  assumes "parse_session_key k1 = Some p1" and "parse_session_key k2 = Some p2"
    and "sk_agent_id p1 = sk_agent_id p2" and "sk_peer_id p1 = sk_peer_id p2"
  shows "goal_path_for base k1 = goal_path_for base k2"
  using assms by (simp add: goal_path_for_def)

theorem goal_file_shared_across_channels_witness:
  "goal_path_for ''/h'' ''agent:main:m:tg:a:direct:42'' = goal_path_for ''/h'' ''agent:main:m:discord:b:group:42''"
proof -
  have "parse_session_key ''agent:main:m:tg:a:direct:42'' = Some \<lparr>sk_agent_id = ''main'', sk_scope = ''m'', sk_channel = ''tg'',
      sk_account_id = ''a'', sk_peer_kind = Direct, sk_peer_id = ''42''\<rparr>"
    "parse_session_key ''agent:main:m:discord:b:group:42'' = Some \<lparr>sk_agent_id = ''main'', sk_scope = ''m'', sk_channel = ''discord'',
      sk_account_id = ''b'', sk_peer_kind = Group, sk_peer_id = ''42''\<rparr>"
    by code_simp+
  from goal_file_shared_across_channels [OF this] show ?thesis by simp
qed

end
