(* ===== verification/Skills.thy ===== *)
theory Skills
  imports Chat_Types "HOL-Library.Char_ord" "HOL-Library.List_Lexorder"
begin

text \<open>
  Skills: the data and the parser of \<^verbatim>\<open>legion-skills/src/lib.rs\<close>, the registry of
  \<^verbatim>\<open>legion-skills/src/registry.rs\<close> and the prompt block of
  \<^verbatim>\<open>legion-runtime/src/skills_prompt.rs\<close>. The YAML deserializer and the compiler of glob
  patterns are parameters; a directory is given by the list of its entries, each with what the
  file system answers about it.
\<close>

subsection \<open>Data\<close>

datatype Effort = LowEffort | MediumEffort | HighEffort

datatype SkillSource = Workspace | Bundled | Plugin

record SkillFrontmatter =
  sf_name :: string
  sf_description :: string
  sf_when_to_use :: "string option"
  sf_allowed_tools :: "string list"
  sf_paths :: "string list"
  sf_user_invocable :: bool
  sf_model :: "string option"
  sf_effort :: "Effort option"

record Skill =
  sk_frontmatter :: SkillFrontmatter
  sk_body :: string
  sk_source :: SkillSource
  sk_path :: string

abbreviation skill_name :: "Skill \<Rightarrow> string" where
  "skill_name s \<equiv> sf_name (sk_frontmatter s)"

definition Skill_summary :: "Skill \<Rightarrow> string" where
  "Skill_summary s = ''- '' @ skill_name s @ '': '' @ sf_description (sk_frontmatter s)"

datatype SkillError =
    SkillIo string string
  | InvalidFrontmatter string string
  | MissingFrontmatter string
  | InvalidName string string

subsection \<open>Parsing\<close>

definition split_frontmatter :: "string \<Rightarrow> string \<Rightarrow> (SkillError, string \<times> string) result" where
  "split_frontmatter content path =
     (let trimmed = trim_start content
      in if \<not> prefix ''---'' trimmed then Inl (MissingFrontmatter path)
         else
           let after_first = drop 3 trimmed
           in case find_str (CHR 0x0A # ''---'') after_first of
                None \<Rightarrow> Inl (MissingFrontmatter path)
              | Some end_idx \<Rightarrow>
                  Inr (trim_str (take end_idx after_first), trim_start (drop (end_idx + 4) after_first)))"

definition validate_name :: "string \<Rightarrow> string \<Rightarrow> (SkillError, unit) result" where
  "validate_name name path =
     (if name = [] \<or> CHR ''/'' \<in> set name \<or> CHR 0x5C \<in> set name \<or> CHR 0x00 \<in> set name \<or> CHR 0x0A \<in> set name
      then Inl (InvalidName name path) else Inr ())"

definition parse_skill_md ::
  "(string \<Rightarrow> (string, SkillFrontmatter) result) \<Rightarrow> string \<Rightarrow> string \<Rightarrow> SkillSource \<Rightarrow> (SkillError, Skill) result" where
  "parse_skill_md from_yaml content path source =
     bind_result (split_frontmatter content path) (\<lambda>(yaml, body).
       case from_yaml yaml of
         Inl e \<Rightarrow> Inl (InvalidFrontmatter path e)
       | Inr frontmatter \<Rightarrow>
           bind_result (validate_name (sf_name frontmatter) path) (\<lambda>_.
             Inr \<lparr>sk_frontmatter = frontmatter, sk_body = trim_str body, sk_source = source, sk_path = path\<rparr>))"

subsection \<open>The registry\<close>

type_synonym glob = "string \<Rightarrow> bool"

record SkillRegistryImpl =
  sr_skills :: "Skill list"
  sr_by_name :: "string \<rightharpoonup> nat"
  sr_path_patterns :: "(nat \<times> glob) list"

definition SkillRegistryImpl_new :: SkillRegistryImpl where
  "SkillRegistryImpl_new = \<lparr>sr_skills = [], sr_by_name = Map.empty, sr_path_patterns = []\<rparr>"

definition skill_add :: "(string \<Rightarrow> glob option) \<Rightarrow> SkillRegistryImpl \<Rightarrow> Skill \<Rightarrow> SkillRegistryImpl" where
  "skill_add glob_new reg skill =
     (let idx = length (sr_skills reg)
      in \<lparr>sr_skills = sr_skills reg @ [skill], sr_by_name = (sr_by_name reg)(skill_name skill \<mapsto> idx),
          sr_path_patterns = sr_path_patterns reg @
            map (Pair idx) (List.map_filter glob_new (sf_paths (sk_frontmatter skill)))\<rparr>)"

record dir_entry =
  de_skill_path :: string
  de_is_dir :: bool
  de_exists :: bool
  de_content :: "(string, string) result"

record LoadReport =
  lr_loaded :: "string list"
  lr_failed :: "(string \<times> SkillError) list"

definition load_entry ::
  "(string \<Rightarrow> glob option) \<Rightarrow> (string \<Rightarrow> (string, SkillFrontmatter) result) \<Rightarrow>
     SkillRegistryImpl \<times> LoadReport \<Rightarrow> dir_entry \<Rightarrow> SkillRegistryImpl \<times> LoadReport" where
  "load_entry glob_new from_yaml st e =
     (let (reg, report) = st; p = de_skill_path e
      in if \<not> de_is_dir e \<or> \<not> de_exists e then st
         else case de_content e of
                Inr content \<Rightarrow>
                  (case parse_skill_md from_yaml content p Workspace of
                     Inr skill \<Rightarrow> (skill_add glob_new reg skill,
                       report\<lparr>lr_loaded := lr_loaded report @ [skill_name skill]\<rparr>)
                   | Inl err \<Rightarrow> (reg, report\<lparr>lr_failed := lr_failed report @ [(p, err)]\<rparr>))
              | Inl err \<Rightarrow> (reg, report\<lparr>lr_failed := lr_failed report @ [(p, SkillIo p err)]\<rparr>))"

text \<open>A directory that cannot be listed is \<open>None\<close> and is skipped.\<close>

definition registry_load ::
  "(string \<Rightarrow> glob option) \<Rightarrow> (string \<Rightarrow> (string, SkillFrontmatter) result) \<Rightarrow>
     SkillRegistryImpl \<Rightarrow> dir_entry list option list \<Rightarrow> SkillRegistryImpl \<times> LoadReport" where
  "registry_load glob_new from_yaml reg dirs =
     foldl (load_entry glob_new from_yaml) (reg, \<lparr>lr_loaded = [], lr_failed = []\<rparr>)
       (concat (List.map_filter id dirs))"

text \<open>\<open>Vec::dedup_by\<close>: of each run of neighbours with one name the first stays.\<close>

fun dedup_skills :: "Skill list \<Rightarrow> Skill list" where
  "dedup_skills [] = []"
| "dedup_skills [s] = [s]"
| "dedup_skills (s # t # ss) =
     (if skill_name s = skill_name t then dedup_skills (s # ss) else s # dedup_skills (t # ss))"

definition path_hits :: "SkillRegistryImpl \<Rightarrow> string list \<Rightarrow> Skill list" where
  "path_hits reg touched_files =
     concat (map (\<lambda>file. map (\<lambda>(idx, _). sr_skills reg ! idx)
       (filter (\<lambda>(_, pattern). pattern file) (sr_path_patterns reg))) touched_files)"

definition match_paths :: "SkillRegistryImpl \<Rightarrow> string list \<Rightarrow> Skill list" where
  "match_paths reg touched_files = dedup_skills (sort_key skill_name (path_hits reg touched_files))"

definition relevance_score :: "string \<Rightarrow> Skill \<Rightarrow> nat" where
  "relevance_score lowered s =
     (let name_lower = to_lowercase (skill_name s); desc_lower = to_lowercase (sf_description (sk_frontmatter s))
      in (if contains_str name_lower lowered then 10 else 0) +
         (if contains_str desc_lower lowered then 5 else 0) +
         sum_list (map (\<lambda>word. (if contains_str name_lower word then 2 else 0) +
             (if contains_str desc_lower word then 1 else 0)) (split_whitespace lowered)))"

definition relevant :: "SkillRegistryImpl \<Rightarrow> string \<Rightarrow> nat \<Rightarrow> Skill list" where
  "relevant reg intent limit =
     (if trim_str intent = [] then []
      else
        let lowered = to_lowercase intent;
            scored = filter (\<lambda>(score, _). 0 < score) (map (\<lambda>s. (relevance_score lowered s, s)) (sr_skills reg))
        in take limit (map snd (sort_key (\<lambda>(score, _). - int score) scored)))"

definition skill_get :: "SkillRegistryImpl \<Rightarrow> string \<Rightarrow> Skill option" where
  "skill_get reg name = map_option (\<lambda>idx. sr_skills reg ! idx) (sr_by_name reg name)"

definition skill_summary_block :: "SkillRegistryImpl \<Rightarrow> nat \<Rightarrow> string" where
  "skill_summary_block reg max_lines =
     (if sr_skills reg = [] then []
      else ''## Skills'' @ [CHR 0x0A, CHR 0x0A] @
        concat (map (\<lambda>s. Skill_summary s @ [CHR 0x0A]) (take max_lines (sr_skills reg))))"

subsection \<open>The prompt block of skill bodies\<close>

definition render_skill :: "Skill \<Rightarrow> string" where
  "render_skill skill =
     ''### Skill: '' @ skill_name skill @ [CHR 0x0A, CHR 0x0A] @ sk_body skill @
     (if sf_allowed_tools (sk_frontmatter skill) \<noteq> []
      then [CHR 0x0A, CHR 0x0A] @ ''Allowed tools: '' @ join_with '', '' (sf_allowed_tools (sk_frontmatter skill))
      else [])"

text \<open>\<open>str::is_char_boundary\<close>: not in front of a continuation byte of UTF-8.\<close>

definition is_char_boundary :: "string \<Rightarrow> nat \<Rightarrow> bool" where
  "is_char_boundary s i \<longleftrightarrow> i = 0 \<or> i = length s \<or>
     (i < length s \<and> \<not> (128 \<le> (of_char (s ! i) :: nat) \<and> (of_char (s ! i) :: nat) < 192))"

function next_boundary :: "string \<Rightarrow> nat \<Rightarrow> nat" where
  "next_boundary s i = (if i < length s \<and> \<not> is_char_boundary s i then next_boundary s (i + 1) else i)"
  by auto
termination by (relation "measure (\<lambda>(s, i). length s - i)") auto

declare next_boundary.simps [simp del]

lemma next_boundary_ge: "i \<le> next_boundary s i"
proof (induction s i rule: next_boundary.induct)
  case (1 s i)
  then show ?case by (subst next_boundary.simps) auto
qed

definition truncated :: "string \<Rightarrow> nat \<Rightarrow> string" where
  "truncated rendered i = take i rendered @ ''... (truncated)''"

function truncate_search :: "(string \<Rightarrow> nat) option \<Rightarrow> string \<Rightarrow> nat \<Rightarrow> nat \<Rightarrow> nat \<Rightarrow> nat" where
  "truncate_search bpe rendered max_tokens low high =
     (if low < high then
        let mid = (low + high + 1) div 2
        in if \<not> is_char_boundary rendered mid then
             let nxt = next_boundary rendered mid
             in if nxt = mid then truncate_search bpe rendered max_tokens low (mid - 1)
                else if count_tokens bpe (truncated rendered nxt) \<le> max_tokens
                then truncate_search bpe rendered max_tokens nxt high
                else truncate_search bpe rendered max_tokens low (mid - 1)
           else if count_tokens bpe (truncated rendered mid) \<le> max_tokens
           then truncate_search bpe rendered max_tokens mid high
           else truncate_search bpe rendered max_tokens low (mid - 1)
      else low)"
  by auto
termination
proof (relation "measure (\<lambda>(bpe, r, m, low, high). high - low)", goal_cases)
  case (3 bpe r m low high mid nxt)
  have "low < mid" using 3(1,2) by simp
  with next_boundary_ge [of mid r] 3(1,4) have "high - nxt < high - low" by linarith
  then show ?case by simp
qed auto

declare truncate_search.simps [simp del]

fun back_to_boundary :: "string \<Rightarrow> nat \<Rightarrow> nat" where
  "back_to_boundary s 0 = 0"
| "back_to_boundary s (Suc n) = (if is_char_boundary s (Suc n) then Suc n else back_to_boundary s n)"

definition truncate_skill_body :: "(string \<Rightarrow> nat) option \<Rightarrow> string \<Rightarrow> nat \<Rightarrow> string" where
  "truncate_skill_body bpe rendered max_tokens =
     (if count_tokens bpe rendered \<le> max_tokens then rendered
      else truncated rendered
        (back_to_boundary rendered (truncate_search bpe rendered max_tokens 0 (length rendered))))"

fun body_loop :: "(string \<Rightarrow> nat) option \<Rightarrow> nat \<Rightarrow> string \<Rightarrow> Skill list \<Rightarrow> string" where
  "body_loop bpe max_tokens block [] = block"
| "body_loop bpe max_tokens block (skill # skills) =
     (let skill_text = render_skill skill; candidate = block @ skill_text @ [CHR 0x0A]
      in if count_tokens bpe candidate \<le> max_tokens then body_loop bpe max_tokens candidate skills
         else
           let remaining = max_tokens - count_tokens bpe block
           in if remaining = 0 then block
              else
                let candidate_with_truncated = block @ truncate_skill_body bpe skill_text remaining @ [CHR 0x0A]
                in if count_tokens bpe candidate_with_truncated \<le> max_tokens then candidate_with_truncated
                   else block)"

definition bodies_header :: string where
  "bodies_header = ''## Skill bodies'' @ [CHR 0x0A, CHR 0x0A]"

definition skill_body_block :: "(string \<Rightarrow> nat) option \<Rightarrow> Skill list \<Rightarrow> nat \<Rightarrow> string" where
  "skill_body_block bpe skills max_tokens =
     (if skills = [] \<or> max_tokens = 0 then [] else body_loop bpe max_tokens bodies_header skills)"

subsection \<open>Facts\<close>

text \<open>The indices of the registry are valid, and its name index holds the name of each skill.\<close>

definition registry_ok :: "SkillRegistryImpl \<Rightarrow> bool" where
  "registry_ok reg \<longleftrightarrow>
     (\<forall>n i. sr_by_name reg n = Some i \<longrightarrow> i < length (sr_skills reg) \<and> skill_name (sr_skills reg ! i) = n) \<and>
     (\<forall>ip\<in>set (sr_path_patterns reg). fst ip < length (sr_skills reg)) \<and>
     (\<forall>s\<in>set (sr_skills reg). sr_by_name reg (skill_name s) \<noteq> None)"

lemma registry_new_ok [legion_inv]: "registry_ok SkillRegistryImpl_new"
  by (simp add: registry_ok_def SkillRegistryImpl_new_def)

lemma skill_add_ok [legion_inv]: "registry_ok reg \<Longrightarrow> registry_ok (skill_add glob_new reg skill)"
  by (auto simp: registry_ok_def skill_add_def Let_def nth_append less_Suc_eq)

lemma load_entry_ok: "registry_ok (fst st) \<Longrightarrow> registry_ok (fst (load_entry glob_new from_yaml st e))"
  by (cases st) (auto simp: load_entry_def Let_def skill_add_ok split: sum.splits)

lemma registry_load_ok [legion_inv]:
  assumes "registry_ok reg"
  shows "registry_ok (fst (registry_load glob_new from_yaml reg dirs))"
proof -
  have "registry_ok (fst (foldl (load_entry glob_new from_yaml) st es))" if "registry_ok (fst st)" for st es
    using that by (induction es arbitrary: st) (auto simp: load_entry_ok)
  then show ?thesis using assms by (simp add: registry_load_def)
qed

definition build_registry :: "(string \<Rightarrow> glob option) \<Rightarrow> Skill list \<Rightarrow> SkillRegistryImpl" where
  "build_registry glob_new ss = foldl (skill_add glob_new) SkillRegistryImpl_new ss"

lemma build_registry_snoc: "build_registry g (ss @ [s]) = skill_add g (build_registry g ss) s"
  by (simp add: build_registry_def)

lemma build_registry_skills: "sr_skills (build_registry g ss) = ss"
  by (induction ss rule: rev_induct)
    (simp_all add: build_registry_snoc skill_add_def Let_def, simp add: build_registry_def SkillRegistryImpl_new_def)

lemma build_registry_ok: "registry_ok (build_registry g ss)"
  by (induction ss rule: rev_induct)
    (simp_all add: build_registry_snoc skill_add_ok, simp add: build_registry_def registry_new_ok)

lemma map_filter_set: "set (List.map_filter g ps) = {m. \<exists>p\<in>set ps. g p = Some m}"
  by (force simp: List.map_filter_def)

lemma build_registry_patterns:
  "(i, m) \<in> set (sr_path_patterns (build_registry g ss)) \<longleftrightarrow>
     i < length ss \<and> (\<exists>p\<in>set (sf_paths (sk_frontmatter (ss ! i))). g p = Some m)"
proof (induction ss rule: rev_induct)
  case Nil
  then show ?case by (simp add: build_registry_def SkillRegistryImpl_new_def)
next
  case (snoc s ss)
  then show ?case
    by (auto simp: build_registry_snoc skill_add_def Let_def build_registry_skills map_filter_set image_iff nth_append less_Suc_eq)
qed

lemma build_registry_get: "skill_get (build_registry g ss) n = find (\<lambda>s. skill_name s = n) (rev ss)"
proof (induction ss rule: rev_induct)
  case Nil
  then show ?case by (simp add: build_registry_def SkillRegistryImpl_new_def skill_get_def)
next
  case (snoc s ss)
  have "registry_ok (build_registry g ss)" by (rule build_registry_ok)
  then have "i < length ss" if "sr_by_name (build_registry g ss) n = Some i" for i
    using that by (simp add: registry_ok_def build_registry_skills)
  with snoc show ?case
    by (cases "sr_by_name (build_registry g ss) n")
      (auto simp: build_registry_snoc skill_add_def Let_def build_registry_skills skill_get_def nth_append)
qed

lemma path_hits_set:
  "set (path_hits (build_registry g ss) files) =
     {s. \<exists>p m f. s \<in> set ss \<and> p \<in> set (sf_paths (sk_frontmatter s)) \<and> g p = Some m \<and> f \<in> set files \<and> m f}"
proof -
  have "s \<in> set (path_hits (build_registry g ss) files) \<longleftrightarrow>
      (\<exists>f i m. f \<in> set files \<and> (i, m) \<in> set (sr_path_patterns (build_registry g ss)) \<and> m f \<and> s = ss ! i)" for s
    by (force simp: path_hits_def build_registry_skills)
  then show ?thesis
    by (simp add: build_registry_patterns set_eq_iff in_set_conv_nth [of _ ss]) blast
qed

lemma dedup_subset: "set (dedup_skills ss) \<subseteq> set ss"
  by (induction ss rule: dedup_skills.induct) auto

lemma dedup_names: "skill_name ` set (dedup_skills ss) = skill_name ` set ss"
proof (induction ss rule: dedup_skills.induct)
  case (3 s t ss)
  then show ?case by (cases "skill_name s = skill_name t") auto
qed auto

lemma dedup_sorted:
  "sorted (map skill_name ss) \<Longrightarrow> sorted_wrt (<) (map skill_name (dedup_skills ss))"
proof (induction ss rule: dedup_skills.induct)
  case (3 s t ss)
  show ?case
  proof (cases "skill_name s = skill_name t")
    case True
    with 3 show ?thesis by simp
  next
    case False
    have "skill_name s < skill_name u" if "u \<in> set (dedup_skills (t # ss))" for u
    proof -
      have "skill_name s < skill_name t" using 3(3) False by (simp add: order.strict_iff_order)
      moreover have "skill_name t \<le> skill_name u" using that dedup_subset [of "t # ss"] 3(3) by auto
      ultimately show ?thesis by (rule less_le_trans)
    qed
    with False 3 show ?thesis by simp
  qed
qed auto

lemma next_boundary_is: "i \<le> length s \<Longrightarrow> is_char_boundary s (next_boundary s i) \<and> next_boundary s i \<le> length s"
proof (induction s i rule: next_boundary.induct)
  case (1 s i)
  then show ?case by (subst (1 2) next_boundary.simps) (auto simp: is_char_boundary_def)
qed

lemma truncate_search_ok:
  assumes "is_char_boundary rendered low" and "low \<le> length rendered" and "high \<le> length rendered"
  shows "let i = truncate_search bpe rendered m low high
         in is_char_boundary rendered i \<and> i \<le> length rendered \<and>
            (i = low \<or> count_tokens bpe (truncated rendered i) \<le> m)"
  using assms
proof (induction bpe rendered m low high rule: truncate_search.induct)
  case (1 bpe r m low high)
  let ?mid = "(low + high + 1) div 2"
  show ?case
  proof (cases "low < high")
    case False
    then show ?thesis using 1(6,7) by (subst truncate_search.simps) simp
  next
    case True
    have nb: "is_char_boundary r (next_boundary r ?mid)" "next_boundary r ?mid \<le> length r"
      using next_boundary_is [of ?mid r] 1(8) True by auto
    have mid: "?mid \<le> length r" "?mid - 1 \<le> length r" using True 1(8) by auto
    show ?thesis
      using 1(1) [OF True refl _ refl] 1(2) [OF True refl _ refl] 1(3) [OF True refl _ refl]
        1(4) [OF True refl] 1(5) [OF True refl] nb mid 1(6-8) True
      by (subst truncate_search.simps) (auto simp: Let_def)
  qed
qed

lemma back_to_boundary_id: "is_char_boundary s n \<Longrightarrow> back_to_boundary s n = n"
  by (cases n) auto

lemma truncate_skill_body_shape:
  "\<exists>i. truncate_skill_body bpe r m = r \<or>
     is_char_boundary r i \<and> i \<le> length r \<and> truncate_skill_body bpe r m = truncated r i"
  using truncate_search_ok [of r 0 "length r" bpe m]
  by (auto simp: truncate_skill_body_def Let_def is_char_boundary_def [of _ 0] back_to_boundary_id)

lemma body_loop_shape:
  "\<exists>n t. body_loop bpe m block skills =
       block @ concat (map (\<lambda>s. render_skill s @ [CHR 0x0A]) (take n skills)) @ t \<and>
     n \<le> length skills \<and>
     (n = 0 \<and> t = [] \<or> count_tokens bpe (body_loop bpe m block skills) \<le> m) \<and>
     (t = [] \<or> n < length skills \<and> (\<exists>k. t = truncate_skill_body bpe (render_skill (skills ! n)) k @ [CHR 0x0A]))"
proof (induction bpe m block skills rule: body_loop.induct)
  case (2 bpe m block skill skills)
  let ?c = "block @ render_skill skill @ [CHR 0x0A]"
  show ?case
  proof (cases "count_tokens bpe ?c \<le> m")
    case True
    from 2(1) [OF refl refl True] obtain n t where
      nt: "body_loop bpe m ?c skills = ?c @ concat (map (\<lambda>s. render_skill s @ [CHR 0x0A]) (take n skills)) @ t"
        "n \<le> length skills" "n = 0 \<and> t = [] \<or> count_tokens bpe (body_loop bpe m ?c skills) \<le> m"
        "t = [] \<or> n < length skills \<and> (\<exists>k. t = truncate_skill_body bpe (render_skill (skills ! n)) k @ [CHR 0x0A])"
      by blast
    show ?thesis
      by (rule exI [of _ "Suc n"], rule exI [of _ t]) (use True nt in auto)
  next
    case False
    let ?k = "m - count_tokens bpe block"
    let ?t = "truncate_skill_body bpe (render_skill skill) ?k @ [CHR 0x0A]"
    show ?thesis
    proof (cases "?k \<noteq> 0 \<and> count_tokens bpe (block @ ?t) \<le> m")
      case True
      with False show ?thesis by (intro exI [of _ 0] exI [of _ ?t]) auto
    next
      case False
      with \<open>\<not> count_tokens bpe ?c \<le> m\<close> show ?thesis by (intro exI [of _ 0] exI [of _ "[]"]) auto
    qed
  qed
qed auto

subsection \<open>Properties\<close>

text \<open>The skill registry after any sequence of additions: a lookup by name gives the skill added
  last under that name, the skills matched by touched files have pairwise different names in
  ascending order, and a name is matched exactly when some skill of that name has a valid path
  pattern that matches one of the files; every matched skill is one that matches. All indices the
  registry keeps stay within its list of skills, so neither query panics.\<close>

theorem skill_registry_correct:
  "(let reg = foldl (skill_add glob_new) SkillRegistryImpl_new ss;
        hit = (\<lambda>s. \<exists>p m f. p \<in> set (sf_paths (sk_frontmatter s)) \<and> glob_new p = Some m \<and> f \<in> set files \<and> m f)
    in registry_ok reg \<and>
       skill_get reg name = find (\<lambda>s. skill_name s = name) (rev ss) \<and>
       sorted_wrt (<) (map skill_name (match_paths reg files)) \<and>
       set (match_paths reg files) \<subseteq> {s \<in> set ss. hit s} \<and>
       skill_name ` set (match_paths reg files) = skill_name ` {s \<in> set ss. hit s})"
proof -
  have "set (path_hits (build_registry glob_new ss) files) =
      {s \<in> set ss. \<exists>p m f. p \<in> set (sf_paths (sk_frontmatter s)) \<and> glob_new p = Some m \<and> f \<in> set files \<and> m f}"
    by (auto simp: path_hits_set)
  with build_registry_ok build_registry_get dedup_sorted dedup_subset dedup_names show ?thesis
    by (fastforce simp: Let_def match_paths_def simp flip: build_registry_def)
qed

text \<open>The block of skill bodies keeps to its token budget: it is empty, or the header followed by
  the whole rendering of the first skills and at most one rendering cut at a character boundary,
  and unless it is the header alone its token count is at most the budget.\<close>

theorem skill_bodies_within_budget:
  assumes "skill_body_block bpe skills m \<noteq> []"
  shows "\<exists>n t. n \<le> length skills \<and>
     skill_body_block bpe skills m =
       bodies_header @ concat (map (\<lambda>s. render_skill s @ [CHR 0x0A]) (take n skills)) @ t \<and>
     (t = [] \<or> n < length skills \<and> (\<exists>i. t = render_skill (skills ! n) @ [CHR 0x0A] \<or>
        is_char_boundary (render_skill (skills ! n)) i \<and> t = truncated (render_skill (skills ! n)) i @ [CHR 0x0A])) \<and>
     (skill_body_block bpe skills m = bodies_header \<or> count_tokens bpe (skill_body_block bpe skills m) \<le> m)"
proof -
  have b: "skill_body_block bpe skills m = body_loop bpe m bodies_header skills"
    using assms by (auto simp: skill_body_block_def split: if_splits)
  obtain n t where nt: "body_loop bpe m bodies_header skills =
        bodies_header @ concat (map (\<lambda>s. render_skill s @ [CHR 0x0A]) (take n skills)) @ t"
      "n \<le> length skills" "n = 0 \<and> t = [] \<or> count_tokens bpe (body_loop bpe m bodies_header skills) \<le> m"
      "t = [] \<or> n < length skills \<and> (\<exists>k. t = truncate_skill_body bpe (render_skill (skills ! n)) k @ [CHR 0x0A])"
    using body_loop_shape [of bpe m bodies_header skills] by blast
  moreover have "\<exists>i. t = render_skill (skills ! n) @ [CHR 0x0A] \<or>
        is_char_boundary (render_skill (skills ! n)) i \<and> t = truncated (render_skill (skills ! n)) i @ [CHR 0x0A]"
    if "t = truncate_skill_body bpe (render_skill (skills ! n)) k @ [CHR 0x0A]" for k
    using that truncate_skill_body_shape [of bpe "render_skill (skills ! n)" k] by auto
  ultimately show ?thesis unfolding b by (intro exI [of _ n] exI [of _ t]) auto
qed

definition demo_skill :: "string \<Rightarrow> string \<Rightarrow> Skill" where
  "demo_skill name body = \<lparr>sk_frontmatter = \<lparr>sf_name = name, sf_description = ''help'', sf_when_to_use = None,
     sf_allowed_tools = [], sf_paths = [''*.tf''], sf_user_invocable = True, sf_model = None, sf_effort = None\<rparr>,
     sk_body = body, sk_source = Workspace, sk_path = ''s/SKILL.md''\<rparr>"

theorem skill_bodies_within_budget_witness:
  "skill_body_block None [demo_skill ''tf'' ''plan'', demo_skill ''long'' (replicate 60 (CHR ''x''))] 20 \<noteq> [] \<and>
   (\<exists>n t. n \<le> 2 \<and>
     skill_body_block None [demo_skill ''tf'' ''plan'', demo_skill ''long'' (replicate 60 (CHR ''x''))] 20 =
       bodies_header @ concat (map (\<lambda>s. render_skill s @ [CHR 0x0A])
         (take n [demo_skill ''tf'' ''plan'', demo_skill ''long'' (replicate 60 (CHR ''x''))])) @ t)"
proof -
  have "skill_body_block None [demo_skill ''tf'' ''plan'', demo_skill ''long'' (replicate 60 (CHR ''x''))] 20 \<noteq> []"
    by code_simp
  from this skill_bodies_within_budget [OF this] show ?thesis by auto
qed

text \<open>Parsing recovers what a well-formed skill file holds: the front matter between the two
  delimiters is what the deserializer gives for the trimmed text between them, the body is the
  trimmed rest, and the name has passed validation.\<close>

theorem skill_file_parses:
  assumes "\<not> sublist (CHR 0x0A # ''---'') (CHR 0x0A # yaml @ CHR 0x0A # ''--'')"
    and "from_yaml (trim_str yaml) = Inr frontmatter"
    and "validate_name (sf_name frontmatter) path = Inr ()"
  shows "parse_skill_md from_yaml (''---'' @ [CHR 0x0A] @ yaml @ [CHR 0x0A] @ ''---'' @ [CHR 0x0A] @ body) path source =
     Inr \<lparr>sk_frontmatter = frontmatter, sk_body = trim_str body, sk_source = source, sk_path = path\<rparr>"
proof -
  let ?p = "CHR 0x0A # ''---''"
  have "find_str ?p ((CHR 0x0A # yaml) @ ?p @ CHR 0x0A # body) = Some (length (CHR 0x0A # yaml))"
    by (rule find_str_first) (use assms(1) in simp_all)
  moreover have "drop (length (CHR 0x0A # yaml) + 4) ((CHR 0x0A # yaml) @ ?p @ CHR 0x0A # body) = CHR 0x0A # body"
    unfolding drop_append by simp
  ultimately have "split_frontmatter (''---'' @ [CHR 0x0A] @ yaml @ [CHR 0x0A] @ ''---'' @ [CHR 0x0A] @ body) path =
      Inr (trim_str (CHR 0x0A # yaml), trim_start (CHR 0x0A # body))"
    by (simp add: split_frontmatter_def Let_def trim_start_def is_whitespace_def numeral_3_eq_3
        del: find_str.simps drop_append)
  moreover have "trim_str (CHR 0x0A # yaml) = trim_str yaml" "trim_str (trim_start (CHR 0x0A # body)) = trim_str body"
    by (simp_all add: trim_str_def trim_start_def is_whitespace_def)
  ultimately show ?thesis using assms(2,3) by (simp add: parse_skill_md_def)
qed

theorem skill_file_parses_witness:
  "parse_skill_md (\<lambda>y. if y = ''name: tf'' then Inr (sk_frontmatter (demo_skill ''tf'' [])) else Inl ''bad'')
     (''---'' @ [CHR 0x0A] @ ''name: tf'' @ [CHR 0x0A] @ ''---'' @ [CHR 0x0A] @ ''  plan '') ''p'' Workspace =
   Inr \<lparr>sk_frontmatter = sk_frontmatter (demo_skill ''tf'' []), sk_body = ''plan'', sk_source = Workspace, sk_path = ''p''\<rparr>"
proof -
  have "\<not> sublist (CHR 0x0A # ''---'') (CHR 0x0A # ''name: tf'' @ CHR 0x0A # ''--'')"
    unfolding contains_str_iff [symmetric] by code_simp
  moreover have "trim_str ''name: tf'' = ''name: tf''" "trim_str ''  plan '' = ''plan''"
    "validate_name ''tf'' ''p'' = Inr ()" by code_simp+
  ultimately show ?thesis
    using skill_file_parses [of "''name: tf''" "\<lambda>y. if y = ''name: tf'' then Inr (sk_frontmatter (demo_skill ''tf'' [])) else Inl ''bad''"
        "sk_frontmatter (demo_skill ''tf'' [])" "''p''" "''  plan ''" Workspace]
    by (simp add: demo_skill_def)
qed

end
