(* ===== verification/Run_Loop.thy ===== *)
theory Run_Loop
  imports Tool_Pipeline Compaction Goal Skills
begin

text \<open>
  The agent loop (\<^verbatim>\<open>legion-runtime/src/run_loop.rs\<close>): preparation of the turn, one iteration
  (compaction, the provider call with its retry on over-long prompts, the reply stream, the
  turn-end gates, the tool batch, re-triggered skills) and the loop with its iteration cap.

  The state of a run is that of the tool pipeline whose rest holds the files, the todo store,
  the compactor, the files viewed and whatever else the tools and the provider change. Skill
  selection, recall and the text of the system prompt are one parameter of the environment;
  telemetry, prompt dumps and the background extractors leave no trace in the model. The loop
  takes fuel, \<open>None\<close> meaning that it ran out.
\<close>

subsection \<open>State and environment\<close>

record 'x run_rest =
  rx_files :: files
  rx_todo :: "JsonTodoStore option"
  rx_compactor :: Compactor
  rx_viewed :: "string set"
  rx_other :: 'x

type_synonym 'x rworld = "'x run_rest pworld"

definition on_rest :: "('x run_rest \<Rightarrow> 'x run_rest) \<Rightarrow> 'x rworld \<Rightarrow> 'x rworld" where
  "on_rest f w = w\<lparr>pw_rest := f (pw_rest w)\<rparr>"

text \<open>The configuration a run reads, by agent and in general.\<close>

record agent_config =
  agc_id :: string
  agc_workspace :: "string option"
  agc_max_iterations :: "nat option"

record RunContext =
  rc_request :: RunRequest
  rc_max_iterations :: "nat option"
  rc_agents :: "agent_config list"
  rc_default_workspace :: string
  rc_goals_enabled :: bool
  rc_todos_enabled :: bool
  rc_max_triggered_skills :: nat
  rc_max_body_tokens :: nat
  rc_todo_gate :: "string list"
  rc_goal_store :: GoalStore
  rc_memory :: nat
  rc_spawner :: "nat option"
  rc_messenger :: "nat option"
  rc_swarm :: "nat option"

record PreparedTurn =
  pt_workspace :: string
  pt_current_todos :: TodoList
  pt_skill_registry :: "SkillRegistryImpl option"
  pt_injected_bodies :: "string set"
  pt_goal_gate :: GoalGate
  pt_messages :: "ChatMessage list"
  pt_system_prompt :: string
  pt_tools :: "ToolDefinition list"
  pt_query :: string
  pt_iteration_cap :: "nat option"

text \<open>What skill selection, recall and prompt assembly hand to the turn.\<close>

record prompt_parts =
  pp_system_prompt :: string
  pp_cache_blocks :: "(string \<times> bool) list"
  pp_skill_registry :: "SkillRegistryImpl option"
  pp_injected :: "string set"

record 'x run_env =
  rn_pipeline :: "'x run_rest pipeline_env"
  rn_compact :: "'x rworld compact_env"
  rn_registry :: "'x rworld registry"
  rn_tool_names :: "string list"
  rn_recall :: "string \<Rightarrow> RecallContext \<Rightarrow> 'x rworld \<Rightarrow> (MemoryError, MemoryNote list) result \<times> 'x rworld"
  rn_debug :: "string option \<Rightarrow> string"
  rn_home :: "string option"
  rn_faults :: faults
  rn_todo_from_str :: "string \<Rightarrow> (string, TodoList) result"
  rn_plan_from_str :: "string \<Rightarrow> (string, json) result"
  rn_plan_pretty :: "json \<Rightarrow> (string, string) result"
  rn_fresh_queue :: "'x rworld \<Rightarrow> nat"
  rn_hash_order :: "string set \<Rightarrow> string list"
  rn_assemble :: "RunContext \<Rightarrow> string \<Rightarrow> ToolDefinition list \<Rightarrow> 'x rworld \<Rightarrow> (RuntimeError, prompt_parts) result \<times> 'x rworld"

subsection \<open>Preparing the turn\<close>

definition expand_tilde :: "string option \<Rightarrow> string \<Rightarrow> string" where
  "expand_tilde home_dir path =
     (if prefix ''~/'' path then (case home_dir of Some home \<Rightarrow> path_join home (drop 2 path) | None \<Rightarrow> path)
      else path)"

definition agent_entry :: "RunContext \<Rightarrow> string \<Rightarrow> agent_config option" where
  "agent_entry ctx agent_id = List.find (\<lambda>a. agc_id a = agent_id) (rc_agents ctx)"

definition resolve_workspace :: "string option \<Rightarrow> RunContext \<Rightarrow> string \<Rightarrow> string option \<Rightarrow> string" where
  "resolve_workspace home_dir ctx agent_id override =
     (case override of
        Some path \<Rightarrow> expand_tilde home_dir path
      | None \<Rightarrow>
          expand_tilde home_dir (unwrap_or (Option.bind (agent_entry ctx agent_id) agc_workspace)
            (if agent_id = ''main'' then rc_default_workspace ctx
             else rc_default_workspace ctx @ ''-'' @ agent_id)))"

definition open_todo_store :: "'x run_env \<Rightarrow> RunContext \<Rightarrow> files \<Rightarrow> JsonTodoStore option" where
  "open_todo_store env ctx fs =
     (if rc_todos_enabled ctx then
        (case todo_open_with_event_tx (rn_faults env) (rn_todo_from_str env)
                (path_components (todo_path_for (expand_tilde (rn_home env) ''~/.legion'')
                   (rr_agent_id (rc_request ctx)) (rr_session_id (rc_request ctx)))) True fs of
           Inr store \<Rightarrow> Some store
         | Inl _ \<Rightarrow> None)
      else None)"

definition load_current_todos :: "JsonTodoStore option \<Rightarrow> TodoList" where
  "load_current_todos store = (case store of Some st \<Rightarrow> todo_load st | None \<Rightarrow> default_TodoList)"

definition open_plan_tracker :: "'x run_env \<Rightarrow> RunContext \<Rightarrow> 'x rworld \<Rightarrow> PlanModeTracker" where
  "open_plan_tracker env ctx w =
     (case rr_plan_mode_tracker (rc_request ctx) of
        Some _ \<Rightarrow> pw_plan w
      | None \<Rightarrow>
          let session_dir = expand_tilde (rn_home env) (''~/.legion/sessions/'' @ rr_session_id (rc_request ctx))
          in (case plan_load (rn_faults env) (rn_plan_from_str env) session_dir (rx_files (pw_rest w)) of
                Inr tracker \<Rightarrow> tracker
              | Inl _ \<Rightarrow> PlanModeTracker_new session_dir))"

definition turn_goal_gate :: "RunContext \<Rightarrow> GoalGate" where
  "turn_goal_gate ctx =
     (if rc_goals_enabled ctx \<and> rr_depth (rc_request ctx) = 0
      then GoalGate_new (rc_goal_store ctx) (rr_session_id (rc_request ctx))
      else GoalGate_disabled (rc_goal_store ctx))"

definition initial_messages :: "RunContext \<Rightarrow> prompt_parts \<Rightarrow> Goal option \<Rightarrow> ChatMessage list" where
  "initial_messages ctx parts active_goal =
     (if pp_system_prompt parts \<noteq> []
      then map (\<lambda>(block, breakpoint). if breakpoint then with_cache_breakpoint (ChatMessage_system block)
             else ChatMessage_system block) (pp_cache_blocks parts)
      else []) @
     rr_history (rc_request ctx) @
     [ChatMessage_user (case active_goal of
        Some goal \<Rightarrow> context_line goal @ [CHR 0x0A, CHR 0x0A] @ rr_user_message (rc_request ctx)
      | None \<Rightarrow> rr_user_message (rc_request ctx))]"

definition run_definitions :: "'x run_env \<Rightarrow> ToolDefinition list" where
  "run_definitions env = registry_definitions (rn_tool_names env) (rn_registry env)"

definition turn_tools :: "'x run_env \<Rightarrow> RunContext \<Rightarrow> ToolDefinition list" where
  "turn_tools env ctx =
     (case rr_allowed_tools (rc_request ctx) of
        Some allowed \<Rightarrow> filter (\<lambda>d. td_name d \<in> set allowed) (run_definitions env)
      | None \<Rightarrow> run_definitions env)"

text \<open>The session context of the turn: the viewed files are shared with the tools, the skill names are
  those of the registry, and the tool registry is the full one, also in a narrowed run.\<close>

definition session_ctx :: "'x run_env \<Rightarrow> PreparedTurn \<Rightarrow> 'x rworld SessionContext" where
  "session_ctx env turn =
     \<lparr>sc_viewed_files = (\<lambda>w. rn_hash_order env (rx_viewed (pw_rest w))),
      sc_active_skills = (case pt_skill_registry turn of Some registry \<Rightarrow> map skill_name (sr_skills registry) | None \<Rightarrow> []),
      sc_definitions = run_definitions env, sc_memory_backend = Some (rn_recall env)\<rparr>"

definition base_cap :: "RunContext \<Rightarrow> nat option" where
  "base_cap ctx =
     or_opt (or_opt (rr_max_iterations (rc_request ctx))
       (Option.bind (agent_entry ctx (rr_agent_id (rc_request ctx))) agc_max_iterations))
       (rc_max_iterations ctx)"

definition prepare_turn ::
  "'x run_env \<Rightarrow> RunContext \<Rightarrow> 'x rworld \<Rightarrow> (RuntimeError, PreparedTurn) result \<times> RunEvent list \<times> 'x rworld" where
  "prepare_turn env ctx w =
     (let started = [Lifecycle Start None];
          workspace = resolve_workspace (rn_home env) ctx (rr_agent_id (rc_request ctx))
            (rr_workspace_override (rc_request ctx));
          todo_store = open_todo_store env ctx (rx_files (pw_rest w));
          w1 = (on_rest (\<lambda>r. r\<lparr>rx_todo := todo_store, rx_viewed := {}\<rparr>) w)\<lparr>pw_plan := open_plan_tracker env ctx w\<rparr>
      in case rn_assemble env ctx workspace (run_definitions env) w1 of
           (Inl e, w2) \<Rightarrow> (Inl e, started, w2)
         | (Inr parts, w2) \<Rightarrow>
             let goal_gate = turn_goal_gate ctx;
                 active_goal = load_active goal_gate (rx_files (pw_rest w2))
             in (Inr \<lparr>pt_workspace = workspace, pt_current_todos = load_current_todos todo_store,
                   pt_skill_registry = pp_skill_registry parts, pt_injected_bodies = pp_injected parts,
                   pt_goal_gate = goal_gate, pt_messages = initial_messages ctx parts active_goal,
                   pt_system_prompt = pp_system_prompt parts, pt_tools = turn_tools env ctx,
                   pt_query = rr_user_message (rc_request ctx),
                   pt_iteration_cap = (if active_goal \<noteq> None then None else base_cap ctx)\<rparr>, started, w2))"

subsection \<open>The provider call\<close>

definition truncate_head_for_ptl :: "ChatMessage list \<Rightarrow> ChatMessage list" where
  "truncate_head_for_ptl messages =
     (let non_system_indices = map fst (filter (\<lambda>(_, m). cm_role m \<noteq> System) (enumerate 0 messages));
          n = length non_system_indices;
          remove_count = min (max ((n + 4) div 5) 1) n;
          remove = set (take remove_count non_system_indices)
      in map snd (filter (\<lambda>(i, _). i \<notin> remove) (enumerate 0 messages)))"

definition MAX_PTL_RETRIES :: nat where
  "MAX_PTL_RETRIES = 3"

fun ptl_loop ::
  "'w compact_env \<Rightarrow> string \<Rightarrow> ChatRequest \<Rightarrow> nat \<Rightarrow> ChatMessage list \<Rightarrow> 'w \<Rightarrow>
     (RuntimeError, chat_stream) result \<times> ChatMessage list \<times> 'w" where
  "ptl_loop env model_ref base_req 0 messages w = (Inl (ProviderErr PromptTooLong), messages, w)"
| "ptl_loop env model_ref base_req (Suc attempts) messages w =
     (case ce_chat env model_ref (base_req\<lparr>cq_messages := messages\<rparr>) w of
        (Inr stream, w') \<Rightarrow> (Inr stream, messages, w')
      | (Inl e, w') \<Rightarrow>
          if e = PromptTooLong
          then ptl_loop env model_ref base_req attempts (truncate_head_for_ptl messages) w'
          else (Inl (ProviderErr e), messages, w'))"

definition chat_with_ptl_retry ::
  "'w compact_env \<Rightarrow> string \<Rightarrow> ChatRequest \<Rightarrow> ChatMessage list \<Rightarrow> 'w \<Rightarrow>
     (RuntimeError, chat_stream) result \<times> ChatMessage list \<times> 'w" where
  "chat_with_ptl_retry env model_ref base_req messages w =
     ptl_loop env model_ref base_req MAX_PTL_RETRIES messages w"

fun consume_loop ::
  "string \<Rightarrow> ProviderToolCall list \<Rightarrow> RunEvent list \<Rightarrow> chat_stream \<Rightarrow>
     (RuntimeError, string \<times> ProviderToolCall list) result \<times> RunEvent list" where
  "consume_loop text pending events [] = (Inr (text, pending), events)"
| "consume_loop text pending events (Inl e # stream) = (Inl (ProviderErr e), events)"
| "consume_loop text pending events (Inr chunk # stream) =
     (let text' = text @ cc_delta chunk;
          events' = (if cc_delta chunk \<noteq> [] then events @ [AssistantDelta (cc_delta chunk)] else events);
          pending' = (case cc_tool_calls chunk of Some tcs \<Rightarrow> pending @ tcs | None \<Rightarrow> pending)
      in case cc_finish_reason chunk of
           None \<Rightarrow> consume_loop text' pending' events' stream
         | Some ContentFilter \<Rightarrow> (Inl (ContextErr ''content filtered by provider''), events')
         | Some _ \<Rightarrow> (Inr (text', pending'), events'))"

definition consume_assistant_stream ::
  "chat_stream \<Rightarrow> (RuntimeError, string \<times> ProviderToolCall list) result \<times> RunEvent list" where
  "consume_assistant_stream stream = consume_loop [] [] [] stream"

subsection \<open>One iteration\<close>

datatype iteration_outcome = IterDone | IterContinue | IterError RuntimeError | IterPanic

definition compaction_event :: "string \<times> BoundaryMark option \<Rightarrow> ChatMessage list \<Rightarrow> RunEvent" where
  "compaction_event sb messages =
     Compaction (fst sb) (snd sb)
       (case messages of first # rest \<Rightarrow> if cm_role first = System then rest else messages | [] \<Rightarrow> messages)"

definition push_message :: "ChatMessage \<Rightarrow> PreparedTurn \<Rightarrow> PreparedTurn" where
  "push_message m turn = turn\<lparr>pt_messages := pt_messages turn @ [m]\<rparr>"

text \<open>No tool call is pending: the todo gate, then the goal gate.\<close>

definition turn_end :: "RunContext \<Rightarrow> PreparedTurn \<Rightarrow> files \<Rightarrow> iteration_outcome \<times> PreparedTurn" where
  "turn_end ctx turn fs =
     (let todo = todo_gate_check (rc_todo_gate ctx) (pt_current_todos turn)
      in if todo = Pass then
           (case goal_gate_check (pt_goal_gate turn) fs of
              GoalPass \<Rightarrow> (IterDone, turn)
            | Continue reminder \<Rightarrow>
                (IterContinue, push_message (ChatMessage_system reminder) (turn\<lparr>pt_iteration_cap := None\<rparr>)))
         else
           (IterContinue,
            case todo_gate_reminder todo of
              Some reminder \<Rightarrow> push_message (ChatMessage_system reminder) turn
            | None \<Rightarrow> turn))"

definition tool_args :: "'x run_env \<Rightarrow> RunContext \<Rightarrow> PreparedTurn \<Rightarrow> 'x rworld \<Rightarrow> call_args" where
  "tool_args env ctx turn w =
     (let request = rc_request ctx
      in \<lparr>ca_workspace = pt_workspace turn, ca_session_id = rr_session_id request, ca_agent_id = rr_agent_id request,
          ca_sender = rr_sender request, ca_can_use_tool = Some (build_policy_decider (rn_debug env) (rn_registry env)),
          ca_memory = Some (rc_memory ctx), ca_viewed_files = Some 0,
          ca_approval = Some \<lparr>ac_interactive = rr_interactive request, ac_permission_mode = Default\<rparr>,
          ca_question = Some (unwrap_or (rr_question_gate request) 0), ca_allowed_tools = rr_allowed_tools request,
          ca_spawner = rc_spawner ctx, ca_messenger = rc_messenger ctx, ca_swarm = rc_swarm ctx,
          ca_depth = rr_depth request, ca_parent_history = Some (pt_messages turn),
          ca_todo_store = map_option (\<lambda>_. 0) (rx_todo (pw_rest w)), ca_background_tasks = None,
          ca_plan_mode_tracker = Some 0\<rparr>)"

text \<open>A run without a gate of its own gets a new one for every batch.\<close>

definition batch_gate :: "'x run_env \<Rightarrow> RunContext \<Rightarrow> 'x rworld \<Rightarrow> 'x rworld" where
  "batch_gate env ctx w =
     (case rr_approval_gate (rc_request ctx) of
        Some _ \<Rightarrow> w
      | None \<Rightarrow> w\<lparr>pw_gate := ApprovalGate_new (rn_fresh_queue env w)\<rparr>)"

definition narrow_calls :: "RunContext \<Rightarrow> ToolCall list \<Rightarrow> ToolCall list \<times> ToolCall list" where
  "narrow_calls ctx calls =
     (case rr_allowed_tools (rc_request ctx) of
        Some allowed \<Rightarrow> partition (\<lambda>c. tc_name c \<in> set allowed) calls
      | None \<Rightarrow> (calls, []))"

definition denied_result :: "ToolCall \<Rightarrow> ToolResult" where
  "denied_result call = ToolResult_error (''tool '' @ quoted (tc_name call) @ '' is not permitted in this sub-agent run'')"

definition denied_events :: "ToolCall \<Rightarrow> RunEvent list" where
  "denied_events call = [ToolStart call, ToolEnd call (denied_result call) None]"

definition finish_batch :: "'x run_env \<Rightarrow> PreparedTurn \<times> 'x rworld \<Rightarrow> PreparedTurn \<times> 'x rworld" where
  "finish_batch env tw =
     (let (turn, w) = tw;
          turn1 = (case rx_todo (pw_rest w) of
             Some store \<Rightarrow> turn\<lparr>pt_current_todos := todo_load store\<rparr> | None \<Rightarrow> turn);
          guard = finalize_exit_if_pending (pw_plan w);
          (_, fs) = plan_save (rn_faults env) (rn_plan_pretty env) guard (rx_files (pw_rest w))
      in (turn1, (on_rest (\<lambda>r. r\<lparr>rx_files := fs\<rparr>) w)\<lparr>pw_plan := guard\<rparr>))"

text \<open>\<open>Path::strip_prefix\<close> and \<open>Path::file_name\<close>, on the components.\<close>

fun component_str :: "path_component \<Rightarrow> string" where
  "component_str RootDir = ''/''"
| "component_str CurDir = ''.''"
| "component_str ParentDir = ''..''"
| "component_str (Normal n) = n"

definition relative_to :: "string \<Rightarrow> string \<Rightarrow> string option" where
  "relative_to base path =
     (let bs = path_components base; ps = path_components path
      in if prefix bs ps then Some (join_with ''/'' (map component_str (drop (length bs) ps))) else None)"

definition file_name :: "string \<Rightarrow> string option" where
  "file_name path =
     (let ps = path_components path
      in if ps = [] then None else (case last ps of Normal n \<Rightarrow> Some n | _ \<Rightarrow> None))"

definition touched_files :: "string \<Rightarrow> string set \<Rightarrow> string set" where
  "touched_files workspace viewed =
     (\<Union>path\<in>viewed. set_option (relative_to workspace path) \<union> set_option (file_name path))"

definition retrigger_skills :: "'x run_env \<Rightarrow> RunContext \<Rightarrow> string set \<Rightarrow> PreparedTurn \<Rightarrow> PreparedTurn" where
  "retrigger_skills env ctx viewed turn =
     (case pt_skill_registry turn of
        None \<Rightarrow> turn
      | Some registry \<Rightarrow>
          let touched = rn_hash_order env (touched_files (pt_workspace turn) viewed);
              new_matches = take (rc_max_triggered_skills ctx)
                (filter (\<lambda>s. skill_name s \<notin> pt_injected_bodies turn) (match_paths registry touched));
              body_block = skill_body_block (ce_bpe (rn_compact env)) new_matches (rc_max_body_tokens ctx)
          in if new_matches \<noteq> [] \<and> trim_str body_block \<noteq> []
             then push_message (ChatMessage_system body_block)
               (turn\<lparr>pt_injected_bodies := pt_injected_bodies turn \<union> skill_name ` set new_matches\<rparr>)
             else turn)"

text \<open>The batch of tool calls; no turn means that a panic of a tool unwinds the run.\<close>

definition tool_stage ::
  "'x run_env \<Rightarrow> RunContext \<Rightarrow> PreparedTurn \<Rightarrow> ProviderToolCall list \<Rightarrow> 'x rworld \<Rightarrow>
     PreparedTurn option \<times> RunEvent list \<times> 'x rworld" where
  "tool_stage env ctx turn pending w =
     (let (allowed_calls, denied_calls) = narrow_calls ctx (map ToolCall_from pending);
          batches = partition_tool_calls (pe_from_str (rn_pipeline env)) (rn_registry env) allowed_calls;
          w1 = batch_gate env ctx w;
          (results, events, w2) =
            run_tool_batches (rn_pipeline env) (rn_registry env) (tool_args env ctx turn w1) batches w1
      in case results of
           None \<Rightarrow> (None, events, w2)
         | Some tool_messages \<Rightarrow>
             let (turn1, w3) = finish_batch env (turn\<lparr>pt_messages := pt_messages turn @ tool_messages\<rparr>, w2);
                 turn2 = turn1\<lparr>pt_messages := pt_messages turn1 @
                   map (\<lambda>c. tool_result_message (tc_id c) (denied_result c)) denied_calls\<rparr>
             in (Some (retrigger_skills env ctx (rx_viewed (pw_rest w3)) turn2),
                 events @ concat (map denied_events denied_calls), w3))"

definition answer_stage ::
  "'x run_env \<Rightarrow> RunContext \<Rightarrow> PreparedTurn \<Rightarrow> string \<times> ProviderToolCall list \<Rightarrow> 'x rworld \<Rightarrow>
     iteration_outcome \<times> PreparedTurn \<times> RunEvent list \<times> 'x rworld" where
  "answer_stage env ctx turn answer w =
     (let (assistant_text, pending) = answer;
          assistant_msg = (ChatMessage_assistant assistant_text)
            \<lparr>cm_tool_calls := (if pending \<noteq> [] then Some pending else None)\<rparr>;
          turn1 = push_message assistant_msg turn
      in if pending = [] then
           (let (outcome, turn2) = turn_end ctx turn1 (rx_files (pw_rest w)) in (outcome, turn2, [], w))
         else case tool_stage env ctx turn1 pending w of
                (Some turn2, events, w') \<Rightarrow> (IterContinue, turn2, events, w')
              | (None, events, w') \<Rightarrow> (IterPanic, turn1, events, w'))"

definition chat_request :: "RunContext \<Rightarrow> PreparedTurn \<Rightarrow> ChatRequest" where
  "chat_request ctx turn =
     (let req = ChatRequest_new (rr_model_ref (rc_request ctx)) []
      in if pt_tools turn \<noteq> [] then req\<lparr>cq_tools := Some (pt_tools turn)\<rparr> else req)"

definition run_iteration ::
  "'x run_env \<Rightarrow> RunContext \<Rightarrow> PreparedTurn \<Rightarrow> 'x rworld \<Rightarrow>
     iteration_outcome \<times> PreparedTurn \<times> RunEvent list \<times> 'x rworld" where
  "run_iteration env ctx turn w =
     (case two_pass_compact_if_needed ((rn_compact env)\<lparr>ce_session := Some (session_ctx env turn)\<rparr>) (rx_compactor (pw_rest w)) (pt_messages turn)
             (pt_system_prompt turn) (rr_model_ref (rc_request ctx)) (pt_query turn) w of
        None \<Rightarrow> (IterPanic, turn, [], w)
      | Some (compacted, messages, compactor, w0) \<Rightarrow>
          let w1 = on_rest (\<lambda>r. r\<lparr>rx_compactor := compactor\<rparr>) w0; turn1 = turn\<lparr>pt_messages := messages\<rparr>
          in case compacted of
               Inl e \<Rightarrow> (IterError e, turn1, [], w1)
             | Inr sb \<Rightarrow>
                 let events1 = (case sb of Some sb \<Rightarrow> [compaction_event sb messages] | None \<Rightarrow> [])
                 in case chat_with_ptl_retry (rn_compact env) (rr_model_ref (rc_request ctx))
                           (chat_request ctx turn1) messages w1 of
                      (Inl e, messages2, w2) \<Rightarrow> (IterError e, turn1\<lparr>pt_messages := messages2\<rparr>, events1, w2)
                    | (Inr stream, messages2, w2) \<Rightarrow>
                        (case consume_assistant_stream stream of
                           (Inl e, events2) \<Rightarrow> (IterError e, turn1\<lparr>pt_messages := messages2\<rparr>, events1 @ events2, w2)
                         | (Inr answer, events2) \<Rightarrow>
                             let (outcome, turn3, events3, w3) =
                                   answer_stage env ctx (turn1\<lparr>pt_messages := messages2\<rparr>) answer w2
                             in (outcome, turn3, events1 @ events2 @ events3, w3)))"

subsection \<open>The loop\<close>

datatype run_end = RunOk | RunFailed RuntimeError | RunPanicked

fun iterate ::
  "nat \<Rightarrow> 'x run_env \<Rightarrow> RunContext \<Rightarrow> nat \<Rightarrow> PreparedTurn \<Rightarrow> 'x rworld \<Rightarrow>
     (run_end \<times> PreparedTurn \<times> RunEvent list \<times> 'x rworld) option" where
  "iterate 0 env ctx iteration turn w = None"
| "iterate (Suc fuel) env ctx iteration turn w =
     (if (case pt_iteration_cap turn of Some limit \<Rightarrow> limit \<le> iteration | None \<Rightarrow> False)
      then Some (RunFailed (MaxIterations (the (pt_iteration_cap turn))), turn, [], w)
      else
        case run_iteration env ctx turn w of
          (IterDone, turn', events, w') \<Rightarrow> Some (RunOk, turn', events, w')
        | (IterContinue, turn', events, w') \<Rightarrow>
            map_option (\<lambda>(r, turn'', events', w''). (r, turn'', events @ events', w''))
              (iterate fuel env ctx (Suc iteration) turn' w')
        | (IterError e, turn', events, w') \<Rightarrow> Some (RunFailed e, turn', events, w')
        | (IterPanic, turn', events, w') \<Rightarrow> Some (RunPanicked, turn', events, w'))"

definition finish_run :: "RunEvent list" where
  "finish_run = [Lifecycle End None]"

definition run_loop ::
  "nat \<Rightarrow> 'x run_env \<Rightarrow> RunContext \<Rightarrow> 'x rworld \<Rightarrow> (run_end \<times> RunEvent list \<times> 'x rworld) option" where
  "run_loop fuel env ctx w =
     (case prepare_turn env ctx w of
        (Inl e, events, w1) \<Rightarrow> Some (RunFailed e, events, w1)
      | (Inr turn, events, w1) \<Rightarrow>
          map_option (\<lambda>(r, turn', events', w2).
              (r, events @ events' @ (if r = RunOk then finish_run else []), w2))
            (iterate fuel env ctx 0 turn w1))"

subsection \<open>Facts\<close>

text \<open>What an iteration leaves alone.\<close>

lemma push_message_simps [simp]:
  "pt_iteration_cap (push_message m t) = pt_iteration_cap t" "pt_goal_gate (push_message m t) = pt_goal_gate t"
  "pt_messages (push_message m t) = pt_messages t @ [m]" "pt_current_todos (push_message m t) = pt_current_todos t"
  by (simp_all add: push_message_def)

lemma retrigger_keeps:
  "pt_iteration_cap (retrigger_skills env ctx v t) = pt_iteration_cap t \<and>
   pt_goal_gate (retrigger_skills env ctx v t) = pt_goal_gate t \<and>
   (\<exists>extra. pt_messages (retrigger_skills env ctx v t) = pt_messages t @ extra \<and>
      (\<forall>m\<in>set extra. cm_role m = System))"
  by (auto simp: retrigger_skills_def Let_def message_defs split: option.splits)

lemma finish_batch_keeps:
  "finish_batch env (t, w) = (t', w') \<Longrightarrow>
   pt_iteration_cap t' = pt_iteration_cap t \<and> pt_goal_gate t' = pt_goal_gate t \<and> pt_messages t' = pt_messages t"
  by (auto simp: finish_batch_def Let_def split: option.splits prod.splits)

lemma tool_stage_keeps:
  assumes "tool_stage env ctx t pending w = (Some t', events, w')"
  shows "pt_iteration_cap t' = pt_iteration_cap t \<and> pt_goal_gate t' = pt_goal_gate t"
  using assms retrigger_keeps [of env ctx]
  by (auto simp: tool_stage_def Let_def dest!: finish_batch_keeps split: prod.splits option.splits)

lemma turn_end_keeps:
  assumes "turn_end ctx t fs = (outcome, t')"
  shows "pt_goal_gate t' = pt_goal_gate t \<and> (\<not> gg_enabled (pt_goal_gate t) \<longrightarrow> pt_iteration_cap t' = pt_iteration_cap t)"
  using assms by (auto simp: turn_end_def goal_gate_check_def Let_def split: if_splits option.splits)

lemma answer_stage_keeps:
  assumes "answer_stage env ctx t answer w = (outcome, t', events, w')"
  shows "pt_goal_gate t' = pt_goal_gate t \<and> (\<not> gg_enabled (pt_goal_gate t) \<longrightarrow> pt_iteration_cap t' = pt_iteration_cap t)"
  using assms by (auto simp: answer_stage_def Let_def dest!: turn_end_keeps tool_stage_keeps split: prod.splits if_splits option.splits)

lemma run_iteration_keeps:
  assumes "run_iteration env ctx t w = (outcome, t', events, w')"
  shows "pt_goal_gate t' = pt_goal_gate t \<and> (\<not> gg_enabled (pt_goal_gate t) \<longrightarrow> pt_iteration_cap t' = pt_iteration_cap t)"
  using assms
  by (auto simp: run_iteration_def Let_def dest!: answer_stage_keeps split: prod.splits option.splits sum.splits)

lemma capped_iterate:
  assumes "pt_iteration_cap t = Some n" and "\<not> gg_enabled (pt_goal_gate t)" and "i \<le> n"
  shows "\<exists>r. \<forall>fuel > n - i. iterate fuel env ctx i t w = Some r"
  using assms
proof (induction "n - i" arbitrary: i t w)
  case 0
  then have "iterate fuel env ctx i t w = Some (RunFailed (MaxIterations n), t, [], w)" if "n - i < fuel" for fuel
    using that by (cases fuel) auto
  then show ?case by blast
next
  case (Suc k)
  obtain outcome t' events w' where it: "run_iteration env ctx t w = (outcome, t', events, w')" by (metis prod_cases4)
  have step: "iterate (Suc f) env ctx i t w = (case outcome of
      IterDone \<Rightarrow> Some (RunOk, t', events, w')
    | IterContinue \<Rightarrow> map_option (\<lambda>(r, turn'', events', w''). (r, turn'', events @ events', w'')) (iterate f env ctx (Suc i) t' w')
    | IterError e \<Rightarrow> Some (RunFailed e, t', events, w')
    | IterPanic \<Rightarrow> Some (RunPanicked, t', events, w'))" for f
    using Suc.hyps(2) Suc.prems it by (auto split: iteration_outcome.splits)
  have keep: "pt_iteration_cap t' = Some n" "\<not> gg_enabled (pt_goal_gate t')"
    using run_iteration_keeps [OF it] Suc.prems by auto
  have "k = n - Suc i" "Suc i \<le> n" using Suc.hyps(2) by linarith+
  then obtain r where r: "\<forall>fuel > n - Suc i. iterate fuel env ctx (Suc i) t' w' = Some r"
    using Suc.hyps(1) [of "Suc i" t' w'] keep by blast
  have *: "\<exists>r'. \<forall>f > n - Suc i. iterate (Suc f) env ctx i t w = Some r'"
    unfolding step using r by (cases outcome; cases r) auto
  then obtain r' where "\<forall>f > n - Suc i. iterate (Suc f) env ctx i t w = Some r'" by blast
  then have "iterate fuel env ctx i t w = Some r'" if "n - i < fuel" for fuel
    using that Suc.hyps(2) by (cases fuel) auto
  then show ?case by blast
qed

text \<open>What truncation removes: the first \<open>k\<close> messages that are not system messages.\<close>

fun drop_non_system :: "nat \<Rightarrow> ChatMessage list \<Rightarrow> ChatMessage list" where
  "drop_non_system 0 ms = ms"
| "drop_non_system (Suc k) [] = []"
| "drop_non_system (Suc k) (m # ms) =
     (if cm_role m = System then m # drop_non_system (Suc k) ms else drop_non_system k ms)"

lemma drop_non_system_Cons_System [simp]:
  "cm_role m = System \<Longrightarrow> drop_non_system k (m # ms) = m # drop_non_system k ms"
  by (cases k) auto

lemma enumerate_ge: "(i, m) \<in> set (enumerate j ms) \<Longrightarrow> j \<le> i"
  by (auto simp: in_set_enumerate_eq)

lemma truncate_by_index:
  "map snd (filter (\<lambda>(i, _). i \<notin> set (take k (map fst (filter (\<lambda>(_, m). cm_role m \<noteq> System) (enumerate j ms)))))
     (enumerate j ms)) = drop_non_system k ms"
proof (induction ms arbitrary: j k)
  case Nil
  then show ?case by (cases k) auto
next
  case (Cons m ms)
  let ?idx = "map fst (filter (\<lambda>(_, m). cm_role m \<noteq> System) (enumerate (Suc j) ms))"
  have fresh: "j \<notin> set (take l ?idx)" for l
    using enumerate_ge [of j _ "Suc j" ms] by (fastforce dest: in_set_takeD)
  have tail: "filter (\<lambda>(i, _). i \<notin> insert j A) (enumerate (Suc j) ms) = filter (\<lambda>(i, _). i \<notin> A) (enumerate (Suc j) ms)" for A
    using enumerate_ge [of j _ "Suc j" ms] by (intro filter_cong) auto
  show ?case
  proof (cases "cm_role m = System")
    case True
    then show ?thesis using Cons.IH [where j = "Suc j" and k = k] fresh by simp
  next
    case False
    then show ?thesis using Cons.IH [where j = "Suc j"] tail by (cases k) (simp_all add: filter_True)
  qed
qed

lemma truncate_is_drop:
  "truncate_head_for_ptl ms =
     drop_non_system ((length (filter (\<lambda>m. cm_role m \<noteq> System) ms) + 4) div 5) ms"
proof -
  have len: "length (map fst (filter (\<lambda>(_, m). cm_role m \<noteq> System) (enumerate 0 ms))) =
      length (filter (\<lambda>m. cm_role m \<noteq> System) ms)"
    by (simp add: enumerate_eq_zip length_filter_conv_card case_prod_beta cong: conj_cong)
  define n where "n = length (filter (\<lambda>m. cm_role m \<noteq> System) ms)"
  have "drop_non_system (min (max ((n + 4) div 5) 1) n) ms = drop_non_system ((n + 4) div 5) ms"
  proof (cases n)
    case (Suc k)
    then have "min (max ((n + 4) div 5) 1) n = (n + 4) div 5" by auto
    then show ?thesis by simp
  qed simp
  then show ?thesis unfolding truncate_head_for_ptl_def Let_def len n_def [symmetric] truncate_by_index .
qed

lemma drop_non_system_add: "drop_non_system a (drop_non_system b ms) = drop_non_system (a + b) ms"
proof (induction b ms arbitrary: a rule: drop_non_system.induct)
  case (2 k)
  then show ?case by (cases a) auto
qed auto

lemma drop_non_system_keeps_system:
  "filter (\<lambda>m. cm_role m = System) (drop_non_system k ms) = filter (\<lambda>m. cm_role m = System) ms"
  by (induction k ms rule: drop_non_system.induct) auto

lemma drop_non_system_rest:
  "filter (\<lambda>m. cm_role m \<noteq> System) (drop_non_system k ms) = drop k (filter (\<lambda>m. cm_role m \<noteq> System) ms)"
  by (induction k ms rule: drop_non_system.induct) auto

lemma ptl_loop_messages:
  "ptl_loop env mr req attempts ms w = (r, ms', w') \<Longrightarrow> \<exists>k. ms' = drop_non_system k ms"
proof (induction attempts arbitrary: ms w)
  case 0
  then show ?case by (auto intro: exI [of _ 0])
next
  case (Suc a)
  obtain res w1 where chat: "ce_chat env mr (req\<lparr>cq_messages := ms\<rparr>) w = (res, w1)" by fastforce
  show ?case
  proof (cases "res = Inl PromptTooLong")
    case True
    then have "ptl_loop env mr req a (truncate_head_for_ptl ms) w1 = (r, ms', w')" using Suc.prems chat by simp
    from Suc.IH [OF this] show ?thesis by (auto simp: truncate_is_drop drop_non_system_add)
  next
    case False
    then have "ms' = ms" using Suc.prems chat by (auto split: sum.splits if_splits)
    then show ?thesis by (auto intro: exI [of _ 0])
  qed
qed

lemma ptl_loop_accepts:
  "ptl_loop env mr req attempts ms w = (Inr stream, ms', w') \<Longrightarrow>
     \<exists>w1. ce_chat env mr (req\<lparr>cq_messages := ms'\<rparr>) w1 = (Inr stream, w')"
  by (induction attempts arbitrary: ms w) (auto split: prod.splits sum.splits if_splits)

text \<open>Messages of a batch, with the denied calls after the permitted ones.\<close>

lemma batches_messages:
  assumes "run_tool_batches env registry args (partition_tool_calls (pe_from_str env) registry calls) w = (Some ms, es, w')"
  shows "map cm_tool_call_id ms = map (\<lambda>c. Some (tc_id c)) calls \<and> (\<forall>m\<in>set ms. cm_role m = Tool)"
proof -
  obtain rs where rs: "length rs = length calls" "ms = map2 (\<lambda>call r. tool_result_message (tc_id call) r) calls rs"
    using run_calls_ran_all [OF assms] by (auto simp: ran_all_def)
  have "map cm_tool_call_id ms = map (\<lambda>(c, _). Some (tc_id c)) (zip calls rs)"
    unfolding rs(2) by (simp add: tool_result_message_def case_prod_beta)
  also have "\<dots> = map (\<lambda>c. Some (tc_id c)) calls"
    by (rule nth_equalityI) (simp_all add: rs(1))
  finally show ?thesis using rs(2) by (auto simp: tool_result_message_def)
qed

lemma tool_stage_messages:
  assumes "tool_stage env ctx t pending w = (Some t', events, w')"
  shows "\<exists>results extra. pt_messages t' = pt_messages t @ results @ extra \<and>
     (\<forall>m\<in>set extra. cm_role m = System) \<and> (\<forall>m\<in>set results. cm_role m = Tool) \<and>
     mset (map cm_tool_call_id results) = mset (map (\<lambda>c. Some (ptc_id c)) pending)"
proof -
  let ?calls = "map ToolCall_from pending"
  obtain ac dc where nc: "narrow_calls ctx ?calls = (ac, dc)" by fastforce
  have ms: "mset ac + mset dc = mset ?calls"
    using nc by (auto simp: narrow_calls_def comp_def split: option.splits)
  obtain ms es w2 where run: "run_tool_batches (rn_pipeline env) (rn_registry env)
      (tool_args env ctx t (batch_gate env ctx w))
      (partition_tool_calls (pe_from_str (rn_pipeline env)) (rn_registry env) ac) (batch_gate env ctx w) = (Some ms, es, w2)"
    using assms nc by (auto simp: tool_stage_def Let_def split: prod.splits option.splits)
  obtain t1 w3 where fb: "finish_batch env (t\<lparr>pt_messages := pt_messages t @ ms\<rparr>, w2) = (t1, w3)" by fastforce
  let ?denied = "map (\<lambda>c. tool_result_message (tc_id c) (denied_result c)) dc"
  obtain extra where extra: "pt_messages t' = pt_messages t1 @ ?denied @ extra" "\<forall>m\<in>set extra. cm_role m = System"
    using assms nc run fb retrigger_keeps [of env ctx "rx_viewed (pw_rest w3)"
        "t1\<lparr>pt_messages := pt_messages t1 @ ?denied\<rparr>"]
    by (auto simp: tool_stage_def Let_def)
  have "mset (map cm_tool_call_id (ms @ ?denied)) = image_mset (\<lambda>c. Some (tc_id c)) (mset ac + mset dc)"
    using batches_messages [OF run] by (simp add: comp_def tool_result_message_def flip: mset_map)
  also have "\<dots> = mset (map (\<lambda>c. Some (ptc_id c)) pending)"
    unfolding ms by (simp add: ToolCall_from_def comp_def flip: mset_map)
  finally show ?thesis
    using extra finish_batch_keeps [OF fb] batches_messages [OF run]
    by (intro exI [of _ "ms @ ?denied"] exI [of _ extra]) (auto simp: tool_result_message_def)
qed

text \<open>Two registries that agree on a set of names run the calls to those names alike.\<close>

definition agree_on :: "string set \<Rightarrow> 'w registry \<Rightarrow> 'w registry \<Rightarrow> bool" where
  "agree_on A r r' \<longleftrightarrow> (\<forall>n\<in>A. r' n = r n \<and> (\<forall>t. r n = Some t \<longrightarrow> t_name t = n))"

definition with_decider :: "(string option \<Rightarrow> string) \<Rightarrow> 'w registry \<Rightarrow> call_args \<Rightarrow> call_args" where
  "with_decider dbg r args = args\<lparr>ca_can_use_tool := Some (build_policy_decider dbg r)\<rparr>"

lemma decider_agrees: "agree_on A r r' \<Longrightarrow> n \<in> A \<Longrightarrow> build_policy_decider dbg r' n = build_policy_decider dbg r n"
  by (intro ext) (simp add: agree_on_def build_policy_decider_def)

lemma permission_stage_agrees:
  assumes "build_policy_decider dbg r' (t_name t) = build_policy_decider dbg r (t_name t)"
  shows "permission_stage env (with_decider dbg r' args) t input w = permission_stage env (with_decider dbg r args) t input w"
  using assms by (simp add: permission_stage_def with_decider_def Let_def cong: option.case_cong Permission.case_cong)

lemma execute_agrees:
  assumes "agree_on A r r'" and "tc_name call \<in> A"
  shows "execute_tool_call env r' (with_decider dbg r' args) call w = execute_tool_call env r (with_decider dbg r args) call w"
proof (cases "r (tc_name call)")
  case None
  then show ?thesis using assms by (simp add: agree_on_def execute_tool_call_def)
next
  case (Some t)
  then have r': "r' (tc_name call) = Some t" and nm: "t_name t = tc_name call" using assms by (auto simp: agree_on_def)
  have "permission_stage env (with_decider dbg r' args) t = permission_stage env (with_decider dbg r args) t"
    using decider_agrees [OF assms] nm by (intro ext permission_stage_agrees) simp
  moreover have "plan_stage env (with_decider dbg q args) = plan_stage env args"
    "tool_context (with_decider dbg q args) = tool_context args" for q :: "'a pworld registry"
    by (intro ext, simp_all add: plan_stage_def with_decider_def tool_context_def Let_def cong: option.case_cong)
  ultimately show ?thesis
    using Some r' by (simp add: execute_tool_call_def cong: sum.case_cong prod.case_cong option.case_cong)
qed

lemma events_agree:
  "agree_on A r r' \<Longrightarrow> tc_name call \<in> A \<Longrightarrow> call_events env r' call res = call_events env r call res"
  by (simp add: agree_on_def call_events_def call_meta_def)

lemma run_call_agrees:
  "agree_on A r r' \<Longrightarrow> tc_name call \<in> A \<Longrightarrow>
   run_call env r' (with_decider dbg r' args) call w = run_call env r (with_decider dbg r args) call w"
  by (simp add: run_call_def execute_agrees cong: option.case_cong)

lemma tasks_agree:
  assumes "agree_on A r r'" and "\<forall>c\<in>set calls. tc_name c \<in> A" and "\<forall>i\<in>set order. i < length calls"
  shows "run_tasks env r' (with_decider dbg r' args) calls order rw = run_tasks env r (with_decider dbg r args) calls order rw"
  using assms(3)
proof (induction order arbitrary: rw)
  case (Cons i order)
  then have "tc_name (calls ! i) \<in> A" using assms(2) by simp
  with Cons show ?case
    by (cases rw) (simp add: run_call_agrees [OF assms(1)])
qed simp

lemma concurrent_agrees:
  assumes "agree_on A r r'" and "\<forall>c\<in>set calls. tc_name c \<in> A"
  shows "run_concurrent_batch env r' (with_decider dbg r' args) calls w = run_concurrent_batch env r (with_decider dbg r args) calls w"
proof -
  let ?order = "schedule_of (length calls) (pe_schedule env calls w)"
  have "run_tasks env r' (with_decider dbg r' args) calls ?order = run_tasks env r (with_decider dbg r args) calls ?order"
    by (intro ext tasks_agree [OF assms]) (simp add: schedule_of_perm)
  moreover have "map2 (call_events env r') calls rs = map2 (call_events env r) calls rs" for rs
    using assms by (auto simp: events_agree dest: set_zip_leftD)
  ultimately show ?thesis by (simp only: run_concurrent_batch_def Let_def)
qed

lemma sequential_agrees:
  assumes "agree_on A r r'"
  shows "\<forall>c\<in>set calls. tc_name c \<in> A \<Longrightarrow>
    run_sequential_batch env r' (with_decider dbg r' args) calls w = run_sequential_batch env r (with_decider dbg r args) calls w"
  by (induction calls arbitrary: w) (simp_all add: run_call_agrees [OF assms] events_agree [OF assms] cong: prod.case_cong sum.case_cong)

lemma batches_agree:
  assumes "agree_on A r r'"
  shows "\<forall>b\<in>set bs. \<forall>c\<in>set (tb_calls b). tc_name c \<in> A \<Longrightarrow>
    run_tool_batches env r' (with_decider dbg r' args) bs w = run_tool_batches env r (with_decider dbg r args) bs w"
  by (induction bs arbitrary: w)
    (simp_all add: concurrent_agrees [OF assms] sequential_agrees [OF assms] cong: prod.case_cong option.case_cong)

lemma partition_loop_cong:
  "\<forall>c\<in>set calls. safe' c = safe c \<Longrightarrow> partition_loop safe' bs cur calls = partition_loop safe bs cur calls"
  by (induction calls arbitrary: bs cur) simp_all

lemma partition_agrees:
  assumes "agree_on A r r'" and "\<forall>c\<in>set calls. tc_name c \<in> A"
  shows "partition_tool_calls fs r' calls = partition_tool_calls fs r calls"
  unfolding partition_tool_calls_def
  by (rule partition_loop_cong) (use assms in \<open>auto simp: agree_on_def call_is_safe_def\<close>)

lemma partition_calls:
  assumes "b \<in> set (partition_tool_calls fs r calls)" and "c \<in> set (tb_calls b)"
  shows "c \<in> set calls"
proof -
  have "concat (map tb_calls (partition_tool_calls fs r calls)) = calls"
    using partition_loop_ok [of "[]" "call_is_safe fs r" calls] by (simp add: partition_tool_calls_def Let_def)
  moreover have "c \<in> set (concat (map tb_calls (partition_tool_calls fs r calls)))" using assms by auto
  ultimately show ?thesis by simp
qed

lemma tool_args_decider:
  "tool_args (env\<lparr>rn_registry := r\<rparr>) ctx t w = with_decider (rn_debug env) r (tool_args env ctx t w)"
  "tool_args env ctx t w = with_decider (rn_debug env) (rn_registry env) (tool_args env ctx t w)"
  by (simp_all add: tool_args_def with_decider_def Let_def)

lemma tool_stage_agrees:
  assumes "rr_allowed_tools (rc_request ctx) = Some allowed" and "agree_on (set allowed) (rn_registry env) r'"
  shows "tool_stage (env\<lparr>rn_registry := r'\<rparr>) ctx t pending w = tool_stage env ctx t pending w"
proof -
  let ?env = "env\<lparr>rn_registry := r'\<rparr>"
  have same: "batch_gate ?env = batch_gate env" "finish_batch ?env = finish_batch env" "retrigger_skills ?env = retrigger_skills env"
    by (intro ext, simp add: batch_gate_def finish_batch_def retrigger_skills_def Let_def
        cong: option.case_cong prod.case_cong)+
  obtain ac dc where nc: "narrow_calls ctx (map ToolCall_from pending) = (ac, dc)" by fastforce
  have ac: "\<forall>c\<in>set ac. tc_name c \<in> set allowed" using nc assms(1) by (auto simp: narrow_calls_def)
  let ?fs = "pe_from_str (rn_pipeline env)" and ?w = "batch_gate env ctx w"
  have "run_tool_batches (rn_pipeline env) r' (tool_args ?env ctx t ?w) (partition_tool_calls ?fs r' ac) ?w =
      run_tool_batches (rn_pipeline env) (rn_registry env) (tool_args env ctx t ?w)
        (partition_tool_calls ?fs (rn_registry env) ac) ?w"
    unfolding tool_args_decider(1) partition_agrees [OF assms(2) ac]
    by (subst (2) tool_args_decider(2), rule batches_agree [OF assms(2)]) (use ac partition_calls in blast)
  then show ?thesis by (simp add: tool_stage_def nc same Let_def cong: prod.case_cong option.case_cong)
qed

lemma answer_stage_agrees:
  assumes "rr_allowed_tools (rc_request ctx) = Some allowed" and "agree_on (set allowed) (rn_registry env) r'"
  shows "answer_stage (env\<lparr>rn_registry := r'\<rparr>) ctx t answer w = answer_stage env ctx t answer w"
  by (cases answer) (simp add: answer_stage_def tool_stage_agrees [OF assms] Let_def)

lemma run_iteration_agrees:
  assumes "rr_allowed_tools (rc_request ctx) = Some allowed" and "agree_on (set allowed) (rn_registry env) r'"
    and "run_definitions (env\<lparr>rn_registry := r'\<rparr>) = run_definitions env"
  shows "run_iteration (env\<lparr>rn_registry := r'\<rparr>) ctx turn w = run_iteration env ctx turn w"
proof -
  have "answer_stage (env\<lparr>rn_registry := r'\<rparr>) ctx = answer_stage env ctx" by (intro ext answer_stage_agrees [OF assms(1,2)])
  moreover have "session_ctx (env\<lparr>rn_registry := r'\<rparr>) turn = session_ctx env turn"
    by (simp add: session_ctx_def assms(3) cong: option.case_cong)
  ultimately show ?thesis by (simp add: run_iteration_def cong: option.case_cong prod.case_cong sum.case_cong)
qed

lemma iterate_agrees:
  assumes "rr_allowed_tools (rc_request ctx) = Some allowed" and "agree_on (set allowed) (rn_registry env) r'"
    and "run_definitions (env\<lparr>rn_registry := r'\<rparr>) = run_definitions env"
  shows "iterate fuel (env\<lparr>rn_registry := r'\<rparr>) ctx i turn w = iterate fuel env ctx i turn w"
  by (induction fuel arbitrary: i turn w)
    (simp_all add: run_iteration_agrees [OF assms] cong: option.case_cong prod.case_cong iteration_outcome.case_cong)

lemma iteration_ends_in_answer:
  assumes "run_iteration env ctx t w = (outcome, t', events, w')" and "outcome \<in> {IterDone, IterContinue}"
  shows "\<exists>t1 answer events' w1. answer_stage env ctx t1 answer w1 = (outcome, t', events', w') \<and>
     pt_current_todos t1 = pt_current_todos t \<and> pt_goal_gate t1 = pt_goal_gate t"
proof -
  have "\<exists>messages2 answer events' w1. answer_stage env ctx (t\<lparr>pt_messages := messages2\<rparr>) answer w1 = (outcome, t', events', w')"
    using assms by (auto simp: run_iteration_def Let_def split: option.splits prod.splits sum.splits, blast+)
  then show ?thesis by fastforce
qed

subsection \<open>A concrete run\<close>

text \<open>One tool, a provider that answers from a script kept in the state, an empty file system.\<close>

definition run_demo_chat ::
  "string \<Rightarrow> ChatRequest \<Rightarrow> (ProviderError, chat_stream) result list rworld \<Rightarrow>
     (ProviderError, chat_stream) result \<times> (ProviderError, chat_stream) result list rworld" where
  "run_demo_chat model req w =
     (case rx_other (pw_rest w) of
        [] \<Rightarrow> (Inl PromptTooLong, w)
      | a # as \<Rightarrow> (a, on_rest (\<lambda>r. r\<lparr>rx_other := as\<rparr>) w))"

definition run_demo_env :: "(ProviderError, chat_stream) result list run_env" where
  "run_demo_env = \<lparr>rn_pipeline = \<lparr>pe_from_str = (\<lambda>_. Inr JNull), pe_validator_for = (\<lambda>_. Inr (\<lambda>_. Inr ())),
       pe_canonicalize = (\<lambda>_ _. None), pe_await = (\<lambda>_ _ w. (True, w)), pe_schedule = (\<lambda>_ _. []), pe_panic = (\<lambda>_ _. None)\<rparr>,
     rn_compact = \<lparr>ce_chat = run_demo_chat, ce_session = None, ce_pretty = (\<lambda>_. []), ce_iso_now = ''now'', ce_bpe = None\<rparr>,
     rn_registry = [''read'' \<mapsto> tool_defaults ''read'' [] JNull \<lparr>po_approval = Off, po_permission_mode = None,
       po_allow_from = [], po_workspace_only = True\<rparr> (\<lambda>_ _ w. (Inr (ToolResult_ok ''text''), w))],
     rn_tool_names = [''read'', ''exec''], rn_recall = (\<lambda>_ _ w. (Inr [], w)),
     rn_debug = (\<lambda>_. []), rn_home = Some ''/h'', rn_faults = (\<lambda>_. None), rn_todo_from_str = (\<lambda>_. Inl []),
     rn_plan_from_str = (\<lambda>_. Inl []), rn_plan_pretty = (\<lambda>_. Inr ''plan''), rn_fresh_queue = (\<lambda>_. 0), rn_hash_order = (\<lambda>_. []),
     rn_assemble = (\<lambda>_ _ _ w. (Inr \<lparr>pp_system_prompt = ''sys'', pp_cache_blocks = [(''sys'', False)],
       pp_skill_registry = None, pp_injected = {}\<rparr>, w))\<rparr>"

definition demo_two_tools :: "(ProviderError, chat_stream) result list run_env" where
  "demo_two_tools = run_demo_env\<lparr>rn_registry := (rn_registry run_demo_env)(''exec'' \<mapsto>
     tool_defaults ''exec'' [] JNull \<lparr>po_approval = Off, po_permission_mode = None, po_allow_from = [], po_workspace_only = True\<rparr>
       (\<lambda>_ _ w. (Inr (ToolResult_ok ''ran''), w)))\<rparr>"

definition run_demo_ctx :: "string list option \<Rightarrow> RunContext" where
  "run_demo_ctx allowed = \<lparr>rc_request = (RunRequest_new demo_key ''main'' ''hello'' ''m'')\<lparr>rr_depth := 1, rr_allowed_tools := allowed\<rparr>,
     rc_max_iterations = Some 2, rc_agents = [], rc_default_workspace = ''/ws'', rc_goals_enabled = True,
     rc_todos_enabled = False, rc_max_triggered_skills = 2, rc_max_body_tokens = 100, rc_todo_gate = [],
     rc_goal_store = demo_store, rc_memory = 0, rc_spawner = None, rc_messenger = None, rc_swarm = None\<rparr>"

definition run_demo_world :: "(ProviderError, chat_stream) result list \<Rightarrow> (ProviderError, chat_stream) result list rworld" where
  "run_demo_world script = \<lparr>pw_gate = ApprovalGate_new 0, pw_heap = empty_heap, pw_notified = [],
     pw_plan = PlanModeTracker_new ''/h/s'', pw_rest = \<lparr>rx_files = Map.empty, rx_todo = None,
       rx_compactor = Compactor_new (demo_config\<lparr>cf_context_window := 1000\<rparr>), rx_viewed = {}, rx_other = script\<rparr>\<rparr>"

definition run_demo_turn :: "RunContext \<Rightarrow> PreparedTurn" where
  "run_demo_turn ctx = \<lparr>pt_workspace = ''/ws-main'', pt_current_todos = default_TodoList, pt_skill_registry = None,
     pt_injected_bodies = {}, pt_goal_gate = turn_goal_gate ctx, pt_messages = [ChatMessage_user ''hello''],
     pt_system_prompt = [], pt_tools = [], pt_query = ''hello'', pt_iteration_cap = Some 2\<rparr>"

definition say :: "string \<Rightarrow> ProviderToolCall list option \<Rightarrow> (ProviderError, chat_stream) result" where
  "say text calls = Inr [Inr \<lparr>cc_index = 0, cc_delta = text, cc_finish_reason = Some Stop, cc_tool_calls = calls\<rparr>]"

definition demo_read_call :: "string \<Rightarrow> string \<Rightarrow> ProviderToolCall" where
  "demo_read_call i name = \<lparr>ptc_id = i, ptc_kind = ''function'', ptc_function = \<lparr>fc_name = name, fc_arguments = []\<rparr>\<rparr>"

lemmas run_demo_defs = run_demo_env_def run_demo_ctx_def run_demo_world_def run_demo_turn_def say_def run_demo_chat_def

subsection \<open>Properties\<close>

text \<open>C3. A capped run ends. When the goal gate is off for the run (goals disabled, or a sub-agent
  run) and some iteration cap \<open>n\<close> applies, the run ends after at most \<open>n\<close> iterations: more than
  \<open>n\<close> units of fuel always suffice, and the outcome does not depend on how much more there is,
  whatever the provider and the tools do.\<close>

theorem capped_run_terminates:
  assumes "base_cap ctx = Some n" and "\<not> rc_goals_enabled ctx \<or> rr_depth (rc_request ctx) \<noteq> 0"
  shows "\<exists>r. \<forall>fuel > n. run_loop fuel env ctx w = Some r"
proof (cases "prepare_turn env ctx w")
  case (fields res events w1)
  show ?thesis
  proof (cases res)
    case (Inl e)
    then show ?thesis using fields by (simp add: run_loop_def)
  next
    case (Inr t)
    have "\<not> gg_enabled (turn_goal_gate ctx)" using assms(2) by (auto simp: turn_goal_gate_def GoalGate_disabled_def)
    then have "pt_iteration_cap t = Some n" "\<not> gg_enabled (pt_goal_gate t)"
      using fields Inr assms(1) by (auto simp: prepare_turn_def Let_def load_active_def split: prod.splits sum.splits)
    from capped_iterate [OF this, of 0 env ctx w1] obtain r where "\<forall>fuel > n. iterate fuel env ctx 0 t w1 = Some r" by auto
    then show ?thesis using fields Inr by (cases r) (auto simp: run_loop_def)
  qed
qed

theorem capped_run_terminates_witness:
  "base_cap (run_demo_ctx None) = Some 2 \<and>
   (\<exists>r. \<forall>fuel > 2. run_loop fuel run_demo_env (run_demo_ctx None)
      (run_demo_world [say [] (Some [demo_read_call ''c1'' ''read'']), say ''done'' None]) = Some r)"
proof -
  have "base_cap (run_demo_ctx None) = Some 2" by code_simp
  with capped_run_terminates [OF this] show ?thesis by (simp add: run_demo_ctx_def)
qed

text \<open>C4. Every tool call of the model is answered exactly once. After an iteration that does not
  fail, the conversation ends with the model's message, then tool messages whose call ids are,
  as a multiset, the ids of the calls that message makes (permitted or not), then system messages
  only.\<close>

theorem tool_calls_all_answered:
  assumes "run_iteration env ctx turn w = (outcome, turn', events, w')" and "outcome \<in> {IterDone, IterContinue}"
  shows "\<exists>history text calls results extra.
     pt_messages turn' = history @ [(ChatMessage_assistant text)
       \<lparr>cm_tool_calls := (if calls \<noteq> [] then Some calls else None)\<rparr>] @ results @ extra \<and>
     (\<forall>m\<in>set extra. cm_role m = System) \<and> (\<forall>m\<in>set results. cm_role m = Tool) \<and>
     mset (map cm_tool_call_id results) = mset (map (\<lambda>c. Some (ptc_id c)) calls)"
proof -
  obtain t1 reply calls evs w1 where an: "answer_stage env ctx t1 (reply, calls) w1 = (outcome, turn', evs, w')"
    using iteration_ends_in_answer [OF assms] by fastforce
  let ?m = "(ChatMessage_assistant reply)\<lparr>cm_tool_calls := (if calls \<noteq> [] then Some calls else None)\<rparr>"
  show ?thesis
  proof (cases "calls = []")
    case True
    have "\<exists>extra. pt_messages (snd (turn_end ctx t fs)) = pt_messages t @ extra \<and> (\<forall>m\<in>set extra. cm_role m = System)" for t fs
      by (auto simp: turn_end_def Let_def message_defs split: GoalGateResult.splits option.splits)
    from this [of "push_message ?m t1" "rx_files (pw_rest w1)"] obtain extra where
      "pt_messages turn' = (pt_messages t1 @ [?m]) @ extra" "\<forall>m\<in>set extra. cm_role m = System"
      using an True by (auto simp: answer_stage_def Let_def split: prod.splits)
    with True show ?thesis
      by - (rule exI [of _ "pt_messages t1"], rule exI [of _ reply], rule exI [of _ calls], rule exI [of _ "[]"],
          rule exI [of _ extra], simp)
  next
    case False
    then obtain evs' where "tool_stage env ctx (push_message ?m t1) calls w1 = (Some turn', evs', w')"
      using an assms(2) by (auto simp: answer_stage_def Let_def split: prod.splits option.splits)
    from tool_stage_messages [OF this] obtain results extra where
      "pt_messages turn' = (pt_messages t1 @ [?m]) @ results @ extra" "\<forall>m\<in>set extra. cm_role m = System"
      "\<forall>m\<in>set results. cm_role m = Tool"
      "mset (map cm_tool_call_id results) = mset (map (\<lambda>c. Some (ptc_id c)) calls)" by auto
    then show ?thesis
      by - (rule exI [of _ "pt_messages t1"], rule exI [of _ reply], rule exI [of _ calls], rule exI [of _ results],
          rule exI [of _ extra], simp)
  qed
qed

theorem tool_calls_all_answered_witness:
  "\<exists>outcome turn' events w'.
     run_iteration run_demo_env (run_demo_ctx (Some [''read''])) (run_demo_turn (run_demo_ctx (Some [''read''])))
       (run_demo_world [say ''ok'' (Some [demo_read_call ''c1'' ''write'', demo_read_call ''c2'' ''read''])]) =
       (outcome, turn', events, w') \<and>
     (\<exists>history text calls results extra.
        pt_messages turn' = history @ [(ChatMessage_assistant text)
          \<lparr>cm_tool_calls := (if calls \<noteq> [] then Some calls else None)\<rparr>] @ results @ extra \<and>
        mset (map cm_tool_call_id results) = mset (map (\<lambda>c. Some (ptc_id c)) calls))"
proof -
  let ?it = "run_iteration run_demo_env (run_demo_ctx (Some [''read''])) (run_demo_turn (run_demo_ctx (Some [''read''])))
       (run_demo_world [say ''ok'' (Some [demo_read_call ''c1'' ''write'', demo_read_call ''c2'' ''read''])])"
  obtain outcome turn' events w' where it: "?it = (outcome, turn', events, w')" by (metis prod_cases4)
  have "fst ?it = IterContinue" by code_simp
  with it have "outcome \<in> {IterDone, IterContinue}" by simp
  from tool_calls_all_answered [OF it this] it show ?thesis by blast
qed

text \<open>C5. Tool narrowing confines a run. In a run restricted to a set of tools, replace every other tool by one
  with the same definition (name, description and schema) that otherwise does anything: executes
  differently, has another policy or other flags. The whole run is the same, in its outcome, its events and the state it
  leaves, compactions included: the tools outside the set never run. Their definitions do reach
  the model, since the manifest put back after a compaction lists the full registry.\<close>

theorem narrowing_confines_run:
  assumes "rr_allowed_tools (rc_request ctx) = Some allowed"
    and "\<And>n. n \<in> set allowed \<Longrightarrow> registry' n = rn_registry env n"
    and "\<And>n. map_option tool_definition (registry' n) = map_option tool_definition (rn_registry env n)"
    and "\<And>n t. rn_registry env n = Some t \<Longrightarrow> t_name t = n"
  shows "run_loop fuel (env\<lparr>rn_registry := registry'\<rparr>) ctx w = run_loop fuel env ctx w"
proof -
  have ag: "agree_on (set allowed) (rn_registry env) registry'" using assms(2,4) by (auto simp: agree_on_def)
  have defs: "run_definitions (env\<lparr>rn_registry := registry'\<rparr>) = run_definitions env"
    using registry_definitions_cong [OF assms(3)] by (simp add: run_definitions_def)
  have "open_todo_store (env\<lparr>rn_registry := registry'\<rparr>) = open_todo_store env"
    "open_plan_tracker (env\<lparr>rn_registry := registry'\<rparr>) = open_plan_tracker env"
    "turn_tools (env\<lparr>rn_registry := registry'\<rparr>) = turn_tools env"
    by (intro ext, simp add: turn_tools_def defs open_todo_store_def open_plan_tracker_def cong: option.case_cong)+
  then have "prepare_turn (env\<lparr>rn_registry := registry'\<rparr>) ctx w = prepare_turn env ctx w"
    by (simp add: prepare_turn_def defs cong: option.case_cong prod.case_cong sum.case_cong)
  then show ?thesis by (simp add: run_loop_def iterate_agrees [OF assms(1) ag defs] cong: prod.case_cong sum.case_cong)
qed

theorem narrowing_confines_run_witness:
  "run_loop 5 (run_demo_env\<lparr>rn_registry := (rn_registry demo_two_tools)(''exec'' \<mapsto>
       tool_defaults ''exec'' [] JNull undefined (\<lambda>_ _ w. (Inr (ToolResult_ok ''boom''), w\<lparr>pw_notified := []\<rparr>)))\<rparr>)
     (run_demo_ctx (Some [''read'']))
     (run_demo_world [say [] (Some [demo_read_call ''c1'' ''exec'']), say ''done'' None]) =
   run_loop 5 demo_two_tools (run_demo_ctx (Some [''read'']))
     (run_demo_world [say [] (Some [demo_read_call ''c1'' ''exec'']), say ''done'' None])"
proof -
  let ?r = "(rn_registry demo_two_tools)(''exec'' \<mapsto>
       tool_defaults ''exec'' [] JNull undefined (\<lambda>_ _ w. (Inr (ToolResult_ok ''boom''), w\<lparr>pw_notified := []\<rparr>)))"
  have "run_loop 5 (demo_two_tools\<lparr>rn_registry := ?r\<rparr>) (run_demo_ctx (Some [''read''])) w =
      run_loop 5 demo_two_tools (run_demo_ctx (Some [''read''])) w" for w
    by (rule narrowing_confines_run [where allowed = "[''read'']"])
      (auto simp: demo_two_tools_def run_demo_env_def run_demo_ctx_def tool_defaults_def tool_definition_def split: if_splits)
  then show ?thesis by (simp add: demo_two_tools_def)
qed

text \<open>The narrowing does not reach the manifest: after a compaction of a narrowed run the conversation
  can hold the definition of a tool the run may not use.\<close>

theorem narrowed_run_shows_manifest:
  "turn_tools run_demo_env (run_demo_ctx (Some [])) = [] \<and>
   build_reattachments (session_ctx run_demo_env (run_demo_turn (run_demo_ctx (Some [])))) ''q'' (run_demo_world []) =
     (Inr [ToolManifest [\<lparr>td_name = ''read'', td_description = [], td_parameters = JNull\<rparr>]], run_demo_world [])"
  by (simp add: turn_tools_def run_definitions_def registry_definitions_def List.map_filter_simps session_ctx_def
      build_reattachments_def recalled_reattachment_def run_demo_defs tool_defaults_def tool_definition_def)

text \<open>C6. A run ends with a final answer only when its gates let it: if an iteration is the last, the
  todo gate passed on the current list, no goal of the session is active (or the goal gate is
  off), and the last message is the model's and calls no tool.\<close>

theorem run_ends_only_when_gates_pass:
  assumes "run_iteration env ctx turn w = (IterDone, turn', events, w')"
  shows "todo_gate_check (rc_todo_gate ctx) (pt_current_todos turn) = Pass \<and>
     load_active (pt_goal_gate turn) (rx_files (pw_rest w')) = None \<and>
     pt_messages turn' \<noteq> [] \<and> cm_role (last (pt_messages turn')) = Assistant \<and>
     cm_tool_calls (last (pt_messages turn')) = None"
proof -
  obtain t1 reply calls evs w1 where an: "answer_stage env ctx t1 (reply, calls) w1 = (IterDone, turn', evs, w')"
    and t1: "pt_current_todos t1 = pt_current_todos turn" "pt_goal_gate t1 = pt_goal_gate turn"
    using iteration_ends_in_answer [OF assms] by fastforce
  show ?thesis
    using an t1
    by (auto simp: answer_stage_def turn_end_def goal_gate_check_def load_active_def message_defs Let_def
        split: prod.splits if_splits option.splits GoalGateResult.splits)
qed

theorem run_ends_only_when_gates_pass_witness:
  "fst (run_iteration run_demo_env (run_demo_ctx None) (run_demo_turn (run_demo_ctx None)) (run_demo_world [say ''done'' None])) = IterDone \<and>
   load_active (pt_goal_gate (run_demo_turn (run_demo_ctx None))) (rx_files (pw_rest (snd (snd (snd
     (run_iteration run_demo_env (run_demo_ctx None) (run_demo_turn (run_demo_ctx None)) (run_demo_world [say ''done'' None]))))))) = None"
proof -
  let ?it = "run_iteration run_demo_env (run_demo_ctx None) (run_demo_turn (run_demo_ctx None)) (run_demo_world [say ''done'' None])"
  have "fst ?it = IterDone" by code_simp
  then have "?it = (IterDone, fst (snd ?it), fst (snd (snd ?it)), snd (snd (snd ?it)))" by (metis prod.collapse)
  from run_ends_only_when_gates_pass [OF this] \<open>fst ?it = IterDone\<close> show ?thesis by blast
qed

text \<open>Recovery from an over-long prompt. Each retry removes exactly the oldest fifth, rounded up, of
  the messages that are not system messages; so the conversation after the call holds all its
  system messages and a most recent part of the rest, in order, and when the provider accepts it
  was given exactly that conversation.\<close>

theorem ptl_retry_keeps_recent:
  assumes "chat_with_ptl_retry env model_ref req messages w = (r, messages', w')"
  shows "\<exists>k. filter (\<lambda>m. cm_role m = System) messages' = filter (\<lambda>m. cm_role m = System) messages \<and>
     filter (\<lambda>m. cm_role m \<noteq> System) messages' = drop k (filter (\<lambda>m. cm_role m \<noteq> System) messages) \<and>
     length (filter (\<lambda>m. cm_role m \<noteq> System) (truncate_head_for_ptl messages)) =
       length (filter (\<lambda>m. cm_role m \<noteq> System) messages) - (length (filter (\<lambda>m. cm_role m \<noteq> System) messages) + 4) div 5 \<and>
     (\<forall>stream. r = Inr stream \<longrightarrow> (\<exists>w1. ce_chat env model_ref (req\<lparr>cq_messages := messages'\<rparr>) w1 = (Inr stream, w')))"
proof -
  obtain k where "messages' = drop_non_system k messages"
    using ptl_loop_messages [of env model_ref req MAX_PTL_RETRIES] assms unfolding chat_with_ptl_retry_def by blast
  then show ?thesis
    using ptl_loop_accepts assms
    by (intro exI [of _ k])
      (auto simp: chat_with_ptl_retry_def drop_non_system_keeps_system drop_non_system_rest truncate_is_drop)
qed

theorem ptl_retry_keeps_recent_witness:
  "\<exists>r messages' w'. chat_with_ptl_retry (rn_compact run_demo_env) ''m'' (ChatRequest_new ''m'' [])
       [ChatMessage_system ''s'', ChatMessage_user ''a'', ChatMessage_user ''b'']
       (run_demo_world [Inl PromptTooLong, say ''done'' None]) = (r, messages', w') \<and>
     filter (\<lambda>m. cm_role m = System) messages' = [ChatMessage_system ''s'']"
proof -
  let ?ms = "[ChatMessage_system ''s'', ChatMessage_user ''a'', ChatMessage_user ''b'']"
  obtain r messages' w' where c: "chat_with_ptl_retry (rn_compact run_demo_env) ''m'' (ChatRequest_new ''m'' []) ?ms
      (run_demo_world [Inl PromptTooLong, say ''done'' None]) = (r, messages', w')" by (metis prod_cases3)
  from ptl_retry_keeps_recent [OF c] c show ?thesis by (auto simp: message_defs)
qed

text \<open>The recovery can orphan a tool result: when the oldest message that is not a system message
  calls a tool and at most five such messages remain, exactly that message is removed and the
  tool's result stays at the head of the conversation without its call.\<close>

theorem ptl_truncation_orphans_result:
  assumes "\<forall>m\<in>set sys. cm_role m = System" and "cm_role use \<noteq> System" and "\<forall>m\<in>set rest. cm_role m \<noteq> System"
    and "length rest \<le> 4"
  shows "truncate_head_for_ptl (sys @ use # rest) = sys @ rest"
proof -
  have "length (filter (\<lambda>m. cm_role m \<noteq> System) (sys @ use # rest)) = Suc (length rest)"
    using assms(1-3) by (simp add: filter_empty_conv [THEN iffD2])
  moreover have "drop_non_system 1 (sys @ use # rest) = sys @ rest"
    using assms(1,2) by (induction sys) auto
  moreover have "(Suc (length rest) + 4) div 5 = 1" using assms(4) by simp
  ultimately show ?thesis by (simp add: truncate_is_drop)
qed

theorem ptl_truncation_orphans_result_witness:
  "truncate_head_for_ptl [ChatMessage_system ''s'', demo_tool_use, demo_tool_result, ChatMessage_user ''next''] =
     [ChatMessage_system ''s'', demo_tool_result, ChatMessage_user ''next'']"
  using ptl_truncation_orphans_result [of "[ChatMessage_system ''s'']" demo_tool_use "[demo_tool_result, ChatMessage_user ''next'']"]
  by (simp add: demo_tool_use_def demo_tool_result_def message_defs)

end
