(* ===== verification/Agent_Routing.thy ===== *)
theory Agent_Routing
  imports Session_Key
begin

text \<open>
  Binding-based routing, from \<^verbatim>\<open>legion-host/src/routing.rs\<close>, with the binding types of
  \<^verbatim>\<open>legion-core/src/config.rs\<close> and the provisional key of
  \<^verbatim>\<open>legion-host/src/channel_inbound.rs\<close>: which agent answers a message, and how a session
  key is rebuilt with that agent.
\<close>

subsection \<open>Data\<close>

record PeerMatch =
  pm_kind :: string
  pm_id :: string

record BindingMatch =
  bm_channel :: "string option"
  bm_account_id :: "string option"
  bm_peer :: "PeerMatch option"
  bm_guild_id :: "string option"
  bm_team_id :: "string option"

record Binding =
  bi_agent_id :: string
  bi_match :: BindingMatch

record Router =
  ro_bindings :: "Binding list"

subsection \<open>Operations\<close>

definition binding_matches :: "BindingMatch \<Rightarrow> InboundMessage \<Rightarrow> bool" where
  "binding_matches m msg \<longleftrightarrow>
     (case bm_channel m of None \<Rightarrow> True | Some c \<Rightarrow> c = im_channel msg) \<and>
     (case bm_account_id m of None \<Rightarrow> True | Some a \<Rightarrow> a = ''*'' \<or> a = im_account_id msg) \<and>
     (case bm_peer m of None \<Rightarrow> True
      | Some p \<Rightarrow> pm_kind p = peer_kind_str (pe_kind (im_peer msg)) \<and> pm_id p = pe_id (im_peer msg)) \<and>
     (case bm_guild_id m of None \<Rightarrow> True | Some g \<Rightarrow> im_guild_id msg = Some g) \<and>
     (case bm_team_id m of None \<Rightarrow> True | Some t \<Rightarrow> im_team_id msg = Some t)"

fun resolve_bindings :: "Binding list \<Rightarrow> InboundMessage \<Rightarrow> string" where
  "resolve_bindings [] msg = ''main''"
| "resolve_bindings (b # bs) msg =
     (if binding_matches (bi_match b) msg then bi_agent_id b else resolve_bindings bs msg)"

definition resolve_agent :: "Router \<Rightarrow> InboundMessage \<Rightarrow> string" where
  "resolve_agent r msg = resolve_bindings (ro_bindings r) msg"

text \<open>The synthetic message a session key is routed with; \<open>now\<close> is the wall-clock stamp.\<close>

definition build_router_message :: "string \<Rightarrow> SessionKeyParts \<Rightarrow> string \<Rightarrow> InboundMessage" where
  "build_router_message now parts content =
     \<lparr>im_channel = sk_channel parts, im_account_id = sk_account_id parts,
      im_peer = \<lparr>pe_kind = sk_peer_kind parts, pe_id = sk_peer_id parts, pe_name = None,
                 pe_thread_id = None\<rparr>,
      im_sender = \<lparr>se_id = sk_peer_id parts, se_display_name = None, se_username = None\<rparr>,
      im_message_id = ''rpc'', im_text = Some content, im_media = [], im_reply_to = None,
      im_timestamp = now, im_is_mentioned = False, im_ambient = False,
      im_guild_id = None, im_team_id = None\<rparr>"

definition resolve_session_key :: "string \<Rightarrow> string \<Rightarrow> Router \<Rightarrow> string option" where
  "resolve_session_key now session_key router =
     (case parse_session_key session_key of
        None \<Rightarrow> None
      | Some parts \<Rightarrow>
          Some (build_session_key
            (resolve_agent router (build_router_message now parts [])) parts))"

definition channel_session_key :: "string \<Rightarrow> string \<Rightarrow> InboundMessage \<Rightarrow> string" where
  "channel_session_key agent_id scope msg =
     build_session_key agent_id
       \<lparr>sk_agent_id = agent_id, sk_scope = scope, sk_channel = im_channel msg,
        sk_account_id = im_account_id msg, sk_peer_kind = pe_kind (im_peer msg),
        sk_peer_id = pe_id (im_peer msg)\<rparr>"

subsection \<open>Facts\<close>

lemma resolve_bindings_find:
  "resolve_bindings bs msg =
     (case find (\<lambda>b. binding_matches (bi_match b) msg) bs of
        None \<Rightarrow> ''main'' | Some b \<Rightarrow> bi_agent_id b)"
  by (induction bs) auto

text \<open>Matching looks at channel, account, peer, guild and team only.\<close>

lemma binding_matches_cong:
  assumes "im_channel m1 = im_channel m2" and "im_account_id m1 = im_account_id m2"
    and "pe_kind (im_peer m1) = pe_kind (im_peer m2)" and "pe_id (im_peer m1) = pe_id (im_peer m2)"
    and "im_guild_id m1 = im_guild_id m2" and "im_team_id m1 = im_team_id m2"
  shows "binding_matches b m1 = binding_matches b m2"
  unfolding binding_matches_def assms by (rule refl)

lemma resolve_agent_cong:
  assumes "\<And>b. binding_matches b m1 = binding_matches b m2"
  shows "resolve_agent r m1 = resolve_agent r m2"
  using assms by (simp add: resolve_agent_def resolve_bindings_find)

definition router_ok :: "Router \<Rightarrow> bool" where
  "router_ok r \<longleftrightarrow> (\<forall>b\<in>set (ro_bindings r). colon_free (bi_agent_id b))"

lemma resolve_agent_colon_free: "router_ok r \<Longrightarrow> colon_free (resolve_agent r msg)"
proof -
  have "\<forall>b\<in>set bs. colon_free (bi_agent_id b) \<Longrightarrow> colon_free (resolve_bindings bs msg)" for bs
    by (induction bs) auto
  then show "router_ok r \<Longrightarrow> ?thesis" by (simp add: router_ok_def resolve_agent_def)
qed

lemma resolve_agent_router_message:
  "resolve_agent r (build_router_message t1 (p\<lparr>sk_agent_id := a\<rparr>) c1) =
   resolve_agent r (build_router_message t2 p c2)"
  by (rule resolve_agent_cong, rule binding_matches_cong) (auto simp: build_router_message_def)

lemma resolve_session_key_Some:
  "resolve_session_key now key r = Some key' \<Longrightarrow>
     \<exists>p. parse_session_key key = Some p \<and>
         key' = build_session_key (resolve_agent r (build_router_message now p [])) p"
  by (auto simp: resolve_session_key_def split: option.splits)

text \<open>A guild or team binding never matches a message rebuilt from a session key.\<close>

lemma guild_binding_never_matches_rpc:
  "bm_guild_id m \<noteq> None \<or> bm_team_id m \<noteq> None \<Longrightarrow>
     \<not> binding_matches m (build_router_message now p c)"
  by (auto simp: binding_matches_def build_router_message_def split: option.splits)

subsection \<open>Properties\<close>

text \<open>First match wins: the agent of a message is that of the first binding, in
  configuration order, all of whose given fields agree with the message; \<open>main\<close> answers
  exactly when no binding before it decides otherwise.\<close>

theorem resolve_agent_first_match:
  "(resolve_agent r msg = a) \<longleftrightarrow>
     (\<exists>i<length (ro_bindings r).
        binding_matches (bi_match (ro_bindings r ! i)) msg \<and>
        bi_agent_id (ro_bindings r ! i) = a \<and>
        (\<forall>j<i. \<not> binding_matches (bi_match (ro_bindings r ! j)) msg)) \<or>
     a = ''main'' \<and> (\<forall>b\<in>set (ro_bindings r). \<not> binding_matches (bi_match b) msg)"
proof (cases "find (\<lambda>b. binding_matches (bi_match b) msg) (ro_bindings r)")
  case None
  then have none: "\<forall>b\<in>set (ro_bindings r). \<not> binding_matches (bi_match b) msg"
    by (auto simp: find_None_iff)
  moreover from None have "resolve_agent r msg = ''main''"
    by (simp add: resolve_agent_def resolve_bindings_find)
  ultimately show ?thesis by (metis nth_mem)
next
  case (Some b)
  then obtain i where i: "i < length (ro_bindings r)" "ro_bindings r ! i = b"
      "binding_matches (bi_match b) msg"
      "\<forall>j<i. \<not> binding_matches (bi_match (ro_bindings r ! j)) msg"
    by (auto simp: find_Some_iff)
  have uniq: "j = i" if "j < length (ro_bindings r)"
      "binding_matches (bi_match (ro_bindings r ! j)) msg"
      "\<forall>k<j. \<not> binding_matches (bi_match (ro_bindings r ! k)) msg" for j
    using that i by (meson linorder_neqE_nat)
  from Some i have agent: "resolve_agent r msg = bi_agent_id b"
    by (simp add: resolve_agent_def resolve_bindings_find)
  have some: "\<not> (\<forall>b\<in>set (ro_bindings r). \<not> binding_matches (bi_match b) msg)"
    using i(1,2,3) nth_mem by blast
  show ?thesis
  proof
    assume "resolve_agent r msg = a"
    then show "(\<exists>i<length (ro_bindings r).
        binding_matches (bi_match (ro_bindings r ! i)) msg \<and>
        bi_agent_id (ro_bindings r ! i) = a \<and>
        (\<forall>j<i. \<not> binding_matches (bi_match (ro_bindings r ! j)) msg)) \<or>
     a = ''main'' \<and> (\<forall>b\<in>set (ro_bindings r). \<not> binding_matches (bi_match b) msg)"
      using i agent by (intro disjI1 exI [of _ i]) simp
  qed (use uniq some agent i(2) in auto)
qed

theorem resolve_agent_first_match_witness:
  "resolve_agent \<lparr>ro_bindings =
       [\<lparr>bi_agent_id = ''ops'', bi_match = \<lparr>bm_channel = Some ''slack'', bm_account_id = None,
          bm_peer = None, bm_guild_id = None, bm_team_id = None\<rparr>\<rparr>]\<rparr>
     (build_router_message ''now'' (SessionKeyParts_direct ''x'' ''dm'' ''slack'' ''a'' ''p'') ''hi'')
     = ''ops''"
proof -
  let ?b = "\<lparr>bi_agent_id = ''ops'', bi_match = \<lparr>bm_channel = Some ''slack'',
      bm_account_id = None, bm_peer = None, bm_guild_id = None, bm_team_id = None\<rparr>\<rparr>"
  let ?m = "build_router_message ''now'' (SessionKeyParts_direct ''x'' ''dm'' ''slack'' ''a'' ''p'') ''hi''"
  show ?thesis
    using resolve_agent_first_match [of "\<lparr>ro_bindings = [?b]\<rparr>" ?m "''ops''"]
    by (simp add: binding_matches_def build_router_message_def SessionKeyParts_direct_def)
qed

text \<open>Resolving a session key is stable: the resolved key parses, keeps every part but the
  agent, and resolving it again (at any later time) gives the same key, so the resume path and
  the run path agree on the transcript they use.\<close>

theorem resolve_session_key_stable:
  assumes "router_ok r" and "resolve_session_key now key r = Some key'"
  shows "resolve_session_key later key' r = Some key' \<and>
     (\<exists>p a. parse_session_key key = Some p \<and> parse_session_key key' = Some (p\<lparr>sk_agent_id := a\<rparr>))"
proof -
  from resolve_session_key_Some [OF assms(2)] obtain p where
    p: "parse_session_key key = Some p" and
    key': "key' = build_session_key (resolve_agent r (build_router_message now p [])) p"
    by blast
  let ?a = "resolve_agent r (build_router_message now p [])"
  have parse': "parse_session_key key' = Some (p\<lparr>sk_agent_id := ?a\<rparr>)"
    unfolding key'
    by (rule parse_build_session_key)
      (use assms(1) p in \<open>auto intro: resolve_agent_colon_free dest: parse_session_key_SomeD\<close>)
  have "resolve_agent r (build_router_message later (p\<lparr>sk_agent_id := ?a\<rparr>) []) = ?a"
    by (rule resolve_agent_router_message)
  then have "resolve_session_key later key' r = Some key'"
    by (simp add: resolve_session_key_def parse') (simp add: key' build_session_key_def)
  with p parse' show ?thesis by blast
qed

theorem resolve_session_key_stable_witness:
  "resolve_session_key ''t1'' ''agent:main:dm:slack:a:direct:p''
     \<lparr>ro_bindings = [\<lparr>bi_agent_id = ''ops'', bi_match = \<lparr>bm_channel = Some ''slack'',
        bm_account_id = None, bm_peer = None, bm_guild_id = None, bm_team_id = None\<rparr>\<rparr>]\<rparr>
   = Some ''agent:ops:dm:slack:a:direct:p'' \<and>
   resolve_session_key ''t2'' ''agent:ops:dm:slack:a:direct:p''
     \<lparr>ro_bindings = [\<lparr>bi_agent_id = ''ops'', bi_match = \<lparr>bm_channel = Some ''slack'',
        bm_account_id = None, bm_peer = None, bm_guild_id = None, bm_team_id = None\<rparr>\<rparr>]\<rparr>
   = Some ''agent:ops:dm:slack:a:direct:p''"
proof -
  let ?r = "\<lparr>ro_bindings = [\<lparr>bi_agent_id = ''ops'', bi_match = \<lparr>bm_channel = Some ''slack'',
        bm_account_id = None, bm_peer = None, bm_guild_id = None, bm_team_id = None\<rparr>\<rparr>]\<rparr>"
  have res: "resolve_session_key ''t1'' ''agent:main:dm:slack:a:direct:p'' ?r
      = Some ''agent:ops:dm:slack:a:direct:p''"
    by (simp add: resolve_session_key_def parse_session_key_def SESSION_KEY_SEGMENTS_def
        parse_peer_kind_def resolve_agent_def binding_matches_def build_router_message_def
        build_session_key_def)
  have "router_ok ?r" by (simp add: router_ok_def)
  from resolve_session_key_stable [OF this res, of "''t2''"] res show ?thesis by blast
qed

text \<open>Bindings on a guild or a team do not survive the run path. A channel message is routed
  with its guild and team, but the session key it produces carries neither, so re-resolving the
  key takes the first binding among those without guild and team criteria.\<close>

theorem guild_bindings_dropped_on_resume:
  "resolve_agent r (build_router_message now p c) =
   resolve_agent (r\<lparr>ro_bindings := filter (\<lambda>b. bm_guild_id (bi_match b) = None \<and>
       bm_team_id (bi_match b) = None) (ro_bindings r)\<rparr>) (build_router_message now p c)"
proof -
  have "resolve_bindings bs (build_router_message now p c) =
      resolve_bindings (filter (\<lambda>b. bm_guild_id (bi_match b) = None \<and>
        bm_team_id (bi_match b) = None) bs) (build_router_message now p c)" for bs
    by (induction bs) (use guild_binding_never_matches_rpc in auto)
  then show ?thesis by (simp add: resolve_agent_def)
qed

end
