(* ===== verification/Channel_Access.thy ===== *)
theory Channel_Access
  imports Session_Key
begin

text \<open>
  Channel access control, from \<^verbatim>\<open>legion-channel/src/access.rs\<close>: the policy evaluated
  against each inbound message and the guard against agent-to-agent reply loops. Clock readings
  are natural numbers; \<open>Instant::duration_since\<close> saturates at zero, as subtraction on
  \<^typ>\<open>nat\<close> does.
\<close>

subsection \<open>Policies\<close>

datatype DmPolicy = Open | Allowlist | Pairing

record GroupPolicy =
  gp_require_mention :: bool
  gp_allowlist :: "string list"

record AccessPolicy =
  ap_dm_policy :: DmPolicy
  ap_allowlist :: "string list"
  ap_groups :: GroupPolicy

datatype DenyReason = NotInAllowlist | NotPaired | BotLoop

datatype AccessDecision = Allow | Deny DenyReason | RequireMention

definition default_GroupPolicy :: GroupPolicy where
  "default_GroupPolicy = \<lparr>gp_require_mention = True, gp_allowlist = []\<rparr>"

definition default_AccessPolicy :: AccessPolicy where
  "default_AccessPolicy =
     \<lparr>ap_dm_policy = Allowlist, ap_allowlist = [], ap_groups = default_GroupPolicy\<rparr>"

text \<open>\<open>channels\<close> is the channel section of the configuration and \<open>from_value\<close> the derived
  deserializer of the policy type (\<open>None\<close> when the value does not fit).\<close>

definition policy_for ::
  "(json \<Rightarrow> AccessPolicy option) \<Rightarrow> (string \<rightharpoonup> json) \<Rightarrow> string \<Rightarrow> AccessPolicy" where
  "policy_for from_value channels channel =
     unwrap_or (Option.bind (Option.bind (channels channel) (\<lambda>v. json_get v ''access'')) from_value)
       default_AccessPolicy"

definition evaluate :: "InboundMessage \<Rightarrow> AccessPolicy \<Rightarrow> AccessDecision" where
  "evaluate msg policy =
     (case pe_kind (im_peer msg) of
        Direct \<Rightarrow>
          (case ap_dm_policy policy of
             Open \<Rightarrow> Allow
           | Allowlist \<Rightarrow>
               (if se_id (im_sender msg) \<in> set (ap_allowlist policy) then Allow
                else Deny NotInAllowlist)
           | Pairing \<Rightarrow>
               (if se_id (im_sender msg) \<in> set (ap_allowlist policy) then Allow
                else Deny NotPaired))
      | _ \<Rightarrow>
          (if gp_allowlist (ap_groups policy) \<noteq> [] \<and>
              pe_id (im_peer msg) \<notin> set (gp_allowlist (ap_groups policy))
           then Deny NotInAllowlist
           else if gp_require_mention (ap_groups policy) \<and> \<not> im_is_mentioned msg
           then RequireMention
           else Allow))"

subsection \<open>The reply-loop guard\<close>

type_synonym instant = nat

record BotLoopGuard =
  bg_window :: nat
  bg_max_replies :: nat
  bg_recent :: "(string \<times> string) \<rightharpoonup> instant list"

definition BotLoopGuard_new :: "nat \<Rightarrow> nat \<Rightarrow> BotLoopGuard" where
  "BotLoopGuard_new window max_replies =
     \<lparr>bg_window = window, bg_max_replies = max_replies, bg_recent = Map.empty\<rparr>"

definition check_inbound :: "BotLoopGuard \<Rightarrow> instant \<Rightarrow> string \<Rightarrow> string \<Rightarrow> bool" where
  "check_inbound g now channel peer_id =
     (case bg_recent g (channel, peer_id) of
        None \<Rightarrow> True
      | Some queue \<Rightarrow> length (filter (\<lambda>t. now - t \<le> bg_window g) queue) < bg_max_replies g)"

definition record_outbound :: "BotLoopGuard \<Rightarrow> instant \<Rightarrow> string \<Rightarrow> string \<Rightarrow> BotLoopGuard" where
  "record_outbound g now channel peer_id =
     (let queue = unwrap_or (bg_recent g (channel, peer_id)) [] @ [now]
      in g\<lparr>bg_recent := (bg_recent g)((channel, peer_id) \<mapsto>
             dropWhile (\<lambda>t. now - t > bg_window g) queue)\<rparr>)"

text \<open>A history of replies, oldest first: the guard after recording all of them.\<close>

type_synonym reply = "instant \<times> string \<times> string"

definition guard_after :: "nat \<Rightarrow> nat \<Rightarrow> reply list \<Rightarrow> BotLoopGuard" where
  "guard_after window max_replies hist =
     foldl (\<lambda>g (t, c, p). record_outbound g t c p) (BotLoopGuard_new window max_replies) hist"

text \<open>The specification: the reply times of one conversation.\<close>

definition replies_to :: "reply list \<Rightarrow> string \<Rightarrow> string \<Rightarrow> instant list" where
  "replies_to hist c p = map fst (filter (\<lambda>(t, c', p'). c' = c \<and> p' = p) hist)"

definition loop_free :: "nat \<Rightarrow> nat \<Rightarrow> reply list \<Rightarrow> instant \<Rightarrow> string \<Rightarrow> string \<Rightarrow> bool" where
  "loop_free window max_replies hist now c p \<longleftrightarrow>
     replies_to hist c p = [] \<or>
     length (filter (\<lambda>t. now - t \<le> window) (replies_to hist c p)) < max_replies"

subsection \<open>The guard implements its specification\<close>

lemma guard_after_snoc [simp]:
  "guard_after w m (hist @ [(t, c, p)]) = record_outbound (guard_after w m hist) t c p"
  by (simp add: guard_after_def)

lemma guard_after_frame [simp]:
  "bg_window (guard_after w m hist) = w" "bg_max_replies (guard_after w m hist) = m"
proof -
  have "bg_window (foldl (\<lambda>g (t, c, p). record_outbound g t c p) g hist) = bg_window g \<and>
      bg_max_replies (foldl (\<lambda>g (t, c, p). record_outbound g t c p) g hist) = bg_max_replies g" for g
    by (induction hist arbitrary: g) (auto simp: record_outbound_def Let_def)
  then show "bg_window (guard_after w m hist) = w" "bg_max_replies (guard_after w m hist) = m"
    by (simp_all add: guard_after_def BotLoopGuard_new_def)
qed

lemma replies_to_snoc [simp]:
  "replies_to (hist @ [(t, c', p')]) c p =
     replies_to hist c p @ (if c' = c \<and> p' = p then [t] else [])"
  by (simp add: replies_to_def)

text \<open>What the queue of a conversation holds: a suffix of its reply times, none of the dropped
  ones inside the window of the latest reply.\<close>

definition queue_covers :: "nat \<Rightarrow> instant list \<Rightarrow> instant list \<Rightarrow> bool" where
  "queue_covers w ts q \<longleftrightarrow>
     (\<exists>old. ts = old @ q \<and> (\<forall>t\<in>set old. w < last ts - t)) \<and> q \<noteq> []"

lemma queue_covers_extend:
  assumes "ts = [] \<and> q = [] \<or> queue_covers w ts q" and "\<forall>t\<in>set ts. t \<le> now"
  shows "queue_covers w (ts @ [now]) (dropWhile (\<lambda>t. now - t > w) (q @ [now]))"
proof -
  let ?P = "\<lambda>t. now - t > w"
  from assms(1) obtain old where old: "ts = old @ q" "\<forall>t\<in>set old. w < last ts - t"
    by (auto simp: queue_covers_def)
  have "\<forall>t\<in>set old. w < now - t"
  proof
    fix t assume t: "t \<in> set old"
    with old(1) have "ts \<noteq> []" by auto
    then have "last ts \<le> now" using assms(2) last_in_set by blast
    with old(2) t show "w < now - t" by (meson diff_le_mono less_le_trans)
  qed
  moreover have "\<forall>t\<in>set (takeWhile ?P (q @ [now])). w < now - t"
    by (auto dest: set_takeWhileD)
  moreover have "ts @ [now] = (old @ takeWhile ?P (q @ [now])) @ dropWhile ?P (q @ [now])"
    using old(1) by simp
  moreover have "dropWhile ?P (q @ [now]) \<noteq> []" by (simp add: dropWhile_append)
  ultimately show ?thesis unfolding queue_covers_def
    by (metis (no_types, lifting) Un_iff last_snoc set_append)
qed

lemma guard_after_queue:
  assumes "sorted (map fst hist)"
  shows "case bg_recent (guard_after w m hist) (c, p) of
           None \<Rightarrow> replies_to hist c p = []
         | Some q \<Rightarrow> queue_covers w (replies_to hist c p) q"
  using assms
proof (induction hist rule: rev_induct)
  case Nil
  then show ?case by (simp add: guard_after_def BotLoopGuard_new_def replies_to_def)
next
  case (snoc r hist)
  obtain t c' p' where r: "r = (t, c', p')" by (cases r)
  from snoc.prems have "\<forall>x\<in>set hist. fst x \<le> t" and sorted: "sorted (map fst hist)"
    by (auto simp: r sorted_append)
  then have le: "\<forall>u\<in>set (replies_to hist c p). u \<le> t" by (auto simp: replies_to_def)
  note IH = snoc.IH [OF sorted]
  show ?case
  proof (cases "c' = c \<and> p' = p")
    case True
    have "replies_to hist c p = [] \<and> unwrap_or (bg_recent (guard_after w m hist) (c, p)) [] = []
        \<or> queue_covers w (replies_to hist c p) (unwrap_or (bg_recent (guard_after w m hist) (c, p)) [])"
      using IH by (auto split: option.splits)
    from queue_covers_extend [OF this le] True show ?thesis
      by (simp add: r record_outbound_def Let_def)
  next
    case False
    with IH show ?thesis by (auto simp: r record_outbound_def Let_def split: option.splits)
  qed
qed

lemma queue_covers_count:
  assumes "queue_covers w ts q" and "\<forall>t\<in>set ts. t \<le> now"
  shows "filter (\<lambda>t. now - t \<le> w) ts = filter (\<lambda>t. now - t \<le> w) q" and "ts \<noteq> []"
proof -
  from assms(1) obtain old where old: "ts = old @ q" "\<forall>t\<in>set old. w < last ts - t" "q \<noteq> []"
    by (auto simp: queue_covers_def)
  then show "ts \<noteq> []" by simp
  then have "last ts \<le> now" using assms(2) by simp
  then have "\<forall>t\<in>set old. w < now - t" using old(2) by (meson diff_le_mono less_le_trans)
  then have "filter (\<lambda>t. now - t \<le> w) old = []" by (auto simp: filter_empty_conv not_le)
  with old(1) show "filter (\<lambda>t. now - t \<le> w) ts = filter (\<lambda>t. now - t \<le> w) q" by simp
qed

lemma evaluate_group_Allow:
  "evaluate msg policy = Allow \<Longrightarrow> pe_kind (im_peer msg) \<noteq> Direct \<Longrightarrow>
     (gp_allowlist (ap_groups policy) = [] \<or> pe_id (im_peer msg) \<in> set (gp_allowlist (ap_groups policy)))
     \<and> (gp_require_mention (ap_groups policy) \<longrightarrow> im_is_mentioned msg)"
  by (auto simp: evaluate_def split: PeerKind.splits if_splits)

subsection \<open>Properties\<close>

text \<open>C39. The reply-loop guard refines its specification: although it discards old reply times,
  on any history of replies in clock order and at any later moment it admits an inbound message
  exactly when no reply was ever sent to that conversation or fewer than the maximum number of
  all replies ever sent to it lie within the window.\<close>

theorem bot_loop_guard_refines:
  assumes "sorted (map fst hist)" and "\<forall>r\<in>set hist. fst r \<le> now"
  shows "check_inbound (guard_after w m hist) now c p \<longleftrightarrow> loop_free w m hist now c p"
proof -
  have le: "\<forall>t\<in>set (replies_to hist c p). t \<le> now"
    using assms(2) by (auto simp: replies_to_def)
  show ?thesis
  proof (cases "bg_recent (guard_after w m hist) (c, p)")
    case None
    with guard_after_queue [OF assms(1), where w = w and m = m and c = c and p = p] show ?thesis
      by (simp add: check_inbound_def loop_free_def)
  next
    case (Some q)
    with guard_after_queue [OF assms(1), where w = w and m = m and c = c and p = p]
    have "queue_covers w (replies_to hist c p) q" by simp
    from queue_covers_count [OF this le] Some show ?thesis
      by (simp add: check_inbound_def loop_free_def)
  qed
qed

theorem bot_loop_guard_refines_witness:
  "\<not> check_inbound (guard_after 10 2 [(0, ''tg'', ''p''), (95, ''tg'', ''p''), (97, ''tg'', ''q''),
       (99, ''tg'', ''p'')]) 100 ''tg'' ''p'' \<and>
   check_inbound (guard_after 10 2 [(0, ''tg'', ''p''), (95, ''tg'', ''p''), (97, ''tg'', ''q''),
       (99, ''tg'', ''p'')]) 108 ''tg'' ''p''"
  using bot_loop_guard_refines [of "[(0, ''tg'', ''p''), (95, ''tg'', ''p''), (97, ''tg'', ''q''),
       (99, ''tg'', ''p'')]" 100 10 2 "''tg''" "''p''"]
    bot_loop_guard_refines [of "[(0, ''tg'', ''p''), (95, ''tg'', ''p''), (97, ''tg'', ''q''),
       (99, ''tg'', ''p'')]" 108 10 2 "''tg''" "''p''"]
  by (simp add: loop_free_def replies_to_def)

text \<open>Access control is closed by default and sound: a direct message is let through only
  under the open policy or from a listed sender; a group or thread message only from a listed
  group (when groups are listed) and with a mention (when one is required); and a channel without
  a readable access block, whatever the rest of its configuration, answers no direct message and
  no group message without a mention.\<close>

theorem access_closed_by_default:
  "(evaluate msg policy = Allow \<longleftrightarrow>
      (if pe_kind (im_peer msg) = Direct
       then ap_dm_policy policy = Open \<or> se_id (im_sender msg) \<in> set (ap_allowlist policy)
       else (gp_allowlist (ap_groups policy) = [] \<or>
               pe_id (im_peer msg) \<in> set (gp_allowlist (ap_groups policy))) \<and>
            (gp_require_mention (ap_groups policy) \<longrightarrow> im_is_mentioned msg))) \<and>
   ((\<forall>v a. channels ch = Some v \<and> json_get v ''access'' = Some a \<longrightarrow> from_value a = None) \<longrightarrow>
      evaluate msg (policy_for from_value channels ch) \<noteq> Allow \<or>
      pe_kind (im_peer msg) \<noteq> Direct \<and> im_is_mentioned msg)"
proof (rule conjI)
  show "evaluate msg policy = Allow \<longleftrightarrow>
      (if pe_kind (im_peer msg) = Direct
       then ap_dm_policy policy = Open \<or> se_id (im_sender msg) \<in> set (ap_allowlist policy)
       else (gp_allowlist (ap_groups policy) = [] \<or>
               pe_id (im_peer msg) \<in> set (gp_allowlist (ap_groups policy))) \<and>
            (gp_require_mention (ap_groups policy) \<longrightarrow> im_is_mentioned msg))"
    by (cases "pe_kind (im_peer msg)"; cases "ap_dm_policy policy") (simp_all add: evaluate_def)
next
  show "(\<forall>v a. channels ch = Some v \<and> json_get v ''access'' = Some a \<longrightarrow> from_value a = None) \<longrightarrow>
      evaluate msg (policy_for from_value channels ch) \<noteq> Allow \<or>
      pe_kind (im_peer msg) \<noteq> Direct \<and> im_is_mentioned msg"
  proof
    assume unreadable: "\<forall>v a. channels ch = Some v \<and> json_get v ''access'' = Some a \<longrightarrow> from_value a = None"
    have "policy_for from_value channels ch = default_AccessPolicy"
    proof (cases "channels ch")
      case (Some v)
      with unreadable show ?thesis
        by (cases "json_get v ''access''") (simp_all add: policy_for_def)
    qed (simp add: policy_for_def)
    then show "evaluate msg (policy_for from_value channels ch) \<noteq> Allow \<or>
        pe_kind (im_peer msg) \<noteq> Direct \<and> im_is_mentioned msg"
      by (cases "pe_kind (im_peer msg)")
        (simp_all add: evaluate_def default_AccessPolicy_def default_GroupPolicy_def)
  qed
qed

theorem access_closed_by_default_witness:
  "evaluate \<lparr>im_channel = ''tg'', im_account_id = ''a'',
      im_peer = \<lparr>pe_kind = Direct, pe_id = ''eve'', pe_name = None, pe_thread_id = None\<rparr>,
      im_sender = \<lparr>se_id = ''eve'', se_display_name = None, se_username = None\<rparr>,
      im_message_id = ''1'', im_text = None, im_media = [], im_reply_to = None,
      im_timestamp = ''t'', im_is_mentioned = False, im_ambient = False,
      im_guild_id = None, im_team_id = None\<rparr>
     (policy_for (\<lambda>_. None) [''tg'' \<mapsto> JObject [(''access'', JBool True)]] ''tg'') \<noteq> Allow"
  (is "evaluate ?msg (policy_for ?fv ?ch ''tg'') \<noteq> Allow")
  using access_closed_by_default [of ?msg default_AccessPolicy ?ch "''tg''" ?fv] by simp

end
