(* ===== verification/Channel_Inbound.thy ===== *)
theory Channel_Inbound
  imports Agent_Routing Channel_Access Approval_Gate
begin

text \<open>
  Messages from channels: the text protocol of approvals of \<^verbatim>\<open>legion-channel/src/lib.rs\<close> and the
  inbound route of \<^verbatim>\<open>legion-host/src/channel_inbound.rs\<close>, from the message to the decision what
  to do with it, and from the events of the run to the reply. The run between the two is the
  agent loop. A provider is its capabilities and the answers its calls give; what is sent to it is
  output. Typing indicators and reactions are not modelled.
\<close>

subsection \<open>Approvals in a channel\<close>

record OutboundMessage =
  om_channel :: string
  om_account_id :: string
  om_peer :: Peer
  om_text :: "string option"
  om_media :: "Media list"
  om_reply_to :: "string option"

definition strip_prefix :: "string \<Rightarrow> string \<Rightarrow> string option" where
  "strip_prefix p s = (if prefix p s then Some (drop (length p) s) else None)"

definition parse_approval_reply :: "string \<Rightarrow> (string \<times> bool) option" where
  "parse_approval_reply text =
     (let text = trim_str text
      in case strip_prefix ''approve:'' text of
           Some rest \<Rightarrow> Some (trim_str rest, True)
         | None \<Rightarrow>
             (case strip_prefix ''deny:'' text of
                Some rest \<Rightarrow> Some (trim_str rest, False)
              | None \<Rightarrow> None))"

text \<open>\<open>card\<close>: what \<open>send_approval_card\<close> answers, \<open>Inr True\<close> when the card was sent.\<close>

record ChannelApprovalNotifier =
  cn_channel :: string
  cn_account_id :: string
  cn_peer :: Peer
  cn_buttons :: bool
  cn_card :: "Peer \<Rightarrow> string \<Rightarrow> string \<Rightarrow> (string, bool) result"

definition approval_text :: "string \<Rightarrow> string \<Rightarrow> string" where
  "approval_text tool prompt_id =
     ''Approval required for tool '' @ quoted tool @ ''. Reply '' @ quoted (''approve:'' @ prompt_id) @
     '' to allow or '' @ quoted (''deny:'' @ prompt_id) @ '' to refuse.''"

text \<open>The text message sent, if any.\<close>

definition notify :: "ChannelApprovalNotifier \<Rightarrow> ApprovalRequest \<Rightarrow> string \<Rightarrow> OutboundMessage option" where
  "notify n req prompt_id =
     (if cn_buttons n \<and> cn_card n (cn_peer n) (ar_tool req) prompt_id = Inr True then None
      else Some \<lparr>om_channel = cn_channel n, om_account_id = cn_account_id n, om_peer = cn_peer n,
             om_text = Some (approval_text (ar_tool req) prompt_id), om_media = [], om_reply_to = None\<rparr>)"

subsection \<open>Thinking blocks\<close>

function strip_think_loop :: "bool \<Rightarrow> string \<Rightarrow> string \<Rightarrow> string" where
  "strip_think_loop in_think out rest =
     (if rest = [] then out
      else
        let tag = (if in_think then ''</think>'' else ''<think>'')
        in case find_str tag rest of
             Some idx \<Rightarrow>
               strip_think_loop (\<not> in_think) (if in_think then out else out @ take idx rest)
                 (drop (idx + length tag) rest)
           | None \<Rightarrow> if in_think then out else out @ rest)"
  by auto
termination by (relation "measure (\<lambda>(_, _, rest). length rest)") (auto simp: Let_def)

declare strip_think_loop.simps [simp del]

definition tidy_lines :: "string \<Rightarrow> string" where
  "tidy_lines out = trim_str (join_with [LF] (filter (\<lambda>l. l \<noteq> []) (map trim_end (str_lines out))))"

definition strip_think_blocks :: "string \<Rightarrow> string" where
  "strip_think_blocks text = tidy_lines (strip_think_loop False [] text)"

subsection \<open>The inbound decision\<close>

datatype inbound_outcome =
    ApprovalReply string bool bool
  | ApprovalIgnored
  | AccessDenied DenyReason
  | MentionRequired
  | SuspectedLoop
  | Routed string string string

text \<open>\<open>ApprovalReply\<close>: the prompt, the answer and whether a prompt was found. \<open>Routed\<close>: agent,
  session key and text. The registry of approvals is optional, as is the loop guard.\<close>

record inbound_config =
  ic_router :: Router
  ic_channels :: "string \<rightharpoonup> json"
  ic_from_value :: "json \<Rightarrow> AccessPolicy option"
  ic_dm_scope :: string
  ic_registry :: bool
  ic_guard :: bool

definition route_inbound ::
  "inbound_config \<Rightarrow> BotLoopGuard \<Rightarrow> instant \<Rightarrow> InboundMessage \<Rightarrow> bool prompt_heap \<Rightarrow>
     inbound_outcome \<times> bool prompt_heap" where
  "route_inbound cfg guard now msg h =
     (case Option.bind (im_text msg) parse_approval_reply of
        Some (prompt_id, allow) \<Rightarrow>
          if ic_registry cfg
          then (let (resolved, h') = ApprovalQueueRegistry_resolve prompt_id allow h
                in (ApprovalReply prompt_id allow resolved, h'))
          else (ApprovalIgnored, h)
      | None \<Rightarrow>
          (case evaluate msg (policy_for (ic_from_value cfg) (ic_channels cfg) (im_channel msg)) of
             Deny reason \<Rightarrow> (AccessDenied reason, h)
           | RequireMention \<Rightarrow> (MentionRequired, h)
           | Allow \<Rightarrow>
               if ic_guard cfg \<and> \<not> check_inbound guard now (im_channel msg) (pe_id (im_peer msg))
               then (SuspectedLoop, h)
               else
                 let agent_id = resolve_agent (ic_router cfg) msg
                 in (Routed agent_id (channel_session_key agent_id (ic_dm_scope cfg) msg) (unwrap_or (im_text msg) []), h)))"

subsection \<open>The reply\<close>

text \<open>The payloads of the run's event frames, collected by the \<open>emit\<close> closure: the reply text and
  the message it answers.\<close>

definition emit_step :: "string \<Rightarrow> string \<times> string option \<Rightarrow> json \<Rightarrow> string \<times> string option" where
  "emit_step message_id st payload =
     (let (reply_text, reply_to) = st; str = (\<lambda>k. Option.bind (json_get payload k) json_as_str)
      in if str ''stream'' = Some ''assistant''
         then (case str ''delta'' of Some delta \<Rightarrow> (reply_text @ delta, reply_to) | None \<Rightarrow> st)
         else if str ''stream'' = Some ''lifecycle'' \<and> str ''phase'' = Some ''end'' \<and> reply_text \<noteq> []
         then (reply_text, Some message_id)
         else st)"

definition collect_reply :: "string \<Rightarrow> json list \<Rightarrow> string \<times> string option" where
  "collect_reply message_id payloads = foldl (emit_step message_id) ([], None) payloads"

definition outbound_reply :: "InboundMessage \<Rightarrow> json list \<Rightarrow> OutboundMessage option" where
  "outbound_reply msg payloads =
     (let (reply_text, reply_to) = collect_reply (im_message_id msg) payloads
      in if reply_text = [] then None
         else
           let stripped = strip_think_blocks reply_text
           in if stripped = [] then None
              else Some \<lparr>om_channel = im_channel msg, om_account_id = im_account_id msg, om_peer = im_peer msg,
                     om_text = Some stripped, om_media = [], om_reply_to = reply_to\<rparr>)"

text \<open>The loop guard after the reply; \<open>send\<close> is the provider's answer, \<open>None\<close> without a provider.\<close>

definition after_reply ::
  "inbound_config \<Rightarrow> (OutboundMessage \<Rightarrow> (string, unit) result) option \<Rightarrow> instant \<Rightarrow> InboundMessage \<Rightarrow> json list \<Rightarrow>
     BotLoopGuard \<Rightarrow> OutboundMessage option \<times> BotLoopGuard" where
  "after_reply cfg send now msg payloads guard =
     (case (outbound_reply msg payloads, send) of
        (Some out, Some f) \<Rightarrow>
          (Some out, if ic_guard cfg \<and> f out = Inr () then record_outbound guard now (im_channel msg) (pe_id (im_peer msg)) else guard)
      | _ \<Rightarrow> (None, guard))"

subsection \<open>Facts\<close>

lemma trim_padded:
  assumes "\<forall>c\<in>set u. is_whitespace c" and "\<forall>c\<in>set v. is_whitespace c" and "s \<noteq> []"
    and "\<not> is_whitespace (hd s)" and "\<not> is_whitespace (last s)"
  shows "trim_str (u @ s @ v) = s"
proof -
  have "dropWhile is_whitespace (s @ v) = s @ v" using assms(3,4) by (cases s) auto
  then have a: "trim_start (u @ s @ v) = s @ v" using assms(1) by (simp add: trim_start_def dropWhile_append)
  have "dropWhile is_whitespace (rev s) = rev s" using assms(3,5) by (cases s rule: rev_cases) auto
  then have "trim_end (s @ v) = s" using assms(2) by (simp add: trim_end_def dropWhile_append)
  then show ?thesis by (simp add: trim_str_def a)
qed

lemma prompt_id_chars: "\<forall>c\<in>set (prompt_id_of n). \<not> is_whitespace c"
  by (auto simp: prompt_id_of_def dest: show_nat_digits digit_not_whitespace) (auto simp: is_whitespace_def)

lemma prompt_id_not_Nil [simp]: "prompt_id_of n \<noteq> []"
  by (simp add: prompt_id_of_def)

text \<open>A reply with its thinking blocks: what is said before each block and what is thought in it.\<close>

definition blocks_text :: "(string \<times> string) list \<Rightarrow> string" where
  "blocks_text bs = concat (map (\<lambda>(said, thought). said @ ''<think>'' @ thought @ ''</think>'') bs)"

definition block_ok :: "string \<times> string \<Rightarrow> bool" where
  "block_ok b \<longleftrightarrow> \<not> contains_str (fst b @ ''<think'') ''<think>'' \<and> \<not> contains_str (snd b @ ''</think'') ''</think>''"

lemma strip_open:
  assumes "\<not> contains_str (said @ ''<think'') ''<think>''"
  shows "strip_think_loop False out (said @ ''<think>'' @ rest) = strip_think_loop True (out @ said) rest"
proof -
  have "find_str ''<think>'' (said @ ''<think>'' @ rest) = Some (length said)"
    by (rule find_str_first) (use assms in \<open>simp_all add: contains_str_iff\<close>)
  then show ?thesis by (subst strip_think_loop.simps) (simp add: Let_def)
qed

lemma strip_close:
  assumes "\<not> contains_str (thought @ ''</think'') ''</think>''"
  shows "strip_think_loop True out (thought @ ''</think>'' @ rest) = strip_think_loop False out rest"
proof -
  have "find_str ''</think>'' (thought @ ''</think>'' @ rest) = Some (length thought)"
    by (rule find_str_first) (use assms in \<open>simp_all add: contains_str_iff\<close>)
  then show ?thesis by (subst strip_think_loop.simps) (simp add: Let_def)
qed

lemma strip_last:
  "\<not> contains_str rest ''<think>'' \<Longrightarrow> strip_think_loop False out rest = out @ rest"
  "\<not> contains_str rest ''</think>'' \<Longrightarrow> strip_think_loop True out rest = out"
  by (subst strip_think_loop.simps; auto simp: contains_str_def Let_def split: option.splits)+

lemma strip_blocks:
  "\<forall>b\<in>set bs. block_ok b \<Longrightarrow>
   strip_think_loop False out (blocks_text bs @ rest) = strip_think_loop False (out @ concat (map fst bs)) rest"
proof (induction bs arbitrary: out)
  case (Cons b bs)
  obtain said thought where b: "b = (said, thought)" by (cases b)
  have ok: "\<not> contains_str (said @ ''<think'') ''<think>''" "\<not> contains_str (thought @ ''</think'') ''</think>''"
    using Cons.prems b by (simp_all add: block_ok_def)
  have "blocks_text (b # bs) @ rest = said @ ''<think>'' @ thought @ ''</think>'' @ blocks_text bs @ rest"
    by (simp add: blocks_text_def b)
  with Cons.IH [of "out @ said"] Cons.prems b show ?case
    by (simp only: strip_open [OF ok(1)] strip_close [OF ok(2)]) simp
qed (simp add: blocks_text_def)

text \<open>What a reply may show, as a specification: the characters outside thinking blocks, read from left to right; of
  them the lines that are not blank, without white space at their ends.\<close>

function spoken :: "bool \<Rightarrow> string \<Rightarrow> string" where
  "spoken thinking [] = []"
| "spoken thinking (c # s) =
     (let tag = (if thinking then ''</think>'' else ''<think>'')
      in if prefix tag (c # s) then spoken (\<not> thinking) (drop (length tag) (c # s))
         else (if thinking then [] else [c]) @ spoken thinking s)"
  by pat_completeness auto
termination by (relation "measure (\<lambda>(_, s). length s)") (auto simp: Let_def)

declare spoken.simps(2) [simp del]

definition visible_lines :: "string \<Rightarrow> string list" where
  "visible_lines t = map trim_end (filter (\<lambda>l. \<exists>c\<in>set l. \<not> is_whitespace c) (split_on LF t))"

definition reply_shown :: "string \<Rightarrow> string" where
  "reply_shown t = trim_start (join_with [LF] (visible_lines (spoken False t)))"

lemma spoken_None:
  "find_str (if thinking then ''</think>'' else ''<think>'') s = None \<Longrightarrow> spoken thinking s = (if thinking then [] else s)"
  by (induction s) (auto simp: spoken.simps(2) Let_def split: if_splits)

lemma spoken_Some:
  "find_str tag s = Some i \<Longrightarrow> tag = (if thinking then ''</think>'' else ''<think>'') \<Longrightarrow>
   spoken thinking s = (if thinking then [] else take i s) @ spoken (\<not> thinking) (drop (i + length tag) s)"
proof (induction s arbitrary: i)
  case (Cons c s)
  show ?case
  proof (cases "prefix tag (c # s)")
    case True
    then have "i = 0" using Cons.prems(1) by simp
    with True Cons.prems(2) show ?thesis by (simp add: spoken.simps(2))
  next
    case False
    then obtain j where j: "find_str tag s = Some j" "i = Suc j" using Cons.prems(1) by auto
    have "spoken thinking (c # s) = (if thinking then [] else [c]) @ spoken thinking s"
      using False Cons.prems(2) by (simp add: spoken.simps(2) Let_def)
    with Cons.IH [OF j(1) Cons.prems(2)] j(2) show ?thesis by simp
  qed
qed (simp split: if_splits)

lemma strip_loop_spoken: "strip_think_loop in_think out rest = out @ spoken in_think rest"
proof (induction in_think out rest rule: strip_think_loop.induct)
  case (1 in_think out rest)
  let ?tag = "if in_think then ''</think>'' else ''<think>''"
  show ?case
  proof (cases "rest = []")
    case False
    show ?thesis
    proof (cases "find_str ?tag rest")
      case None
      then show ?thesis using False spoken_None [OF None] by (subst strip_think_loop.simps) (auto simp: Let_def)
    next
      case (Some i)
      have "strip_think_loop in_think out rest =
          strip_think_loop (\<not> in_think) (if in_think then out else out @ take i rest) (drop (i + length ?tag) rest)"
        using False Some by (subst strip_think_loop.simps) (simp add: Let_def)
      with 1 [OF False refl Some] spoken_Some [OF Some refl] show ?thesis by simp
    qed
  qed (simp add: strip_think_loop.simps)
qed

lemma trim_end_strip_cr: "trim_end (strip_cr l) = trim_end l"
proof (cases "l \<noteq> [] \<and> last l = CR")
  case True
  then obtain l' where "l = l' @ [CR]" by (metis append_butlast_last_id)
  moreover have "is_whitespace CR" by code_simp
  ultimately show ?thesis by (simp add: strip_cr_def trim_end_def)
qed (auto simp: strip_cr_def)

lemma shown_lines: "filter (\<lambda>l. l \<noteq> []) (map trim_end (str_lines t)) = visible_lines t"
proof -
  let ?ps = "split_on LF t" and ?blank = "\<lambda>l. \<exists>c\<in>set l. \<not> is_whitespace c"
  have "filter (\<lambda>l. l \<noteq> []) (map trim_end ls) = map trim_end (filter ?blank ls)" for ls
    by (induction ls) (auto simp: trim_end_Nil_iff)
  note blank = this
  have lines: "map trim_end (str_lines t) = map trim_end (butlast ?ps) @ (if last ?ps = [] then [] else [trim_end (last ?ps)])"
    by (simp add: str_lines_def Let_def trim_end_strip_cr)
  have "map trim_end ?ps = map trim_end (butlast ?ps) @ [trim_end (last ?ps)]"
    by (metis append_butlast_last_id list.simps(8,9) map_append split_on_not_Nil)
  then have "filter (\<lambda>l. l \<noteq> []) (map trim_end (str_lines t)) = filter (\<lambda>l. l \<noteq> []) (map trim_end ?ps)"
    unfolding lines by (simp add: trim_end_def)
  then show ?thesis by (simp only: blank visible_lines_def)
qed

lemma trim_end_join:
  assumes "\<forall>l\<in>set ls. l \<noteq> [] \<and> \<not> is_whitespace (last l)"
  shows "trim_end (trim_start (join_with [LF] ls)) = trim_start (join_with [LF] ls)"
proof -
  let ?j = "join_with [LF] ls"
  have "?j = [] \<or> \<not> is_whitespace (last ?j)"
    using assms
  proof (induction "[LF]" ls rule: join_with.induct)
    case (3 p q ps)
    have "join_with [LF] (q # ps) \<noteq> []" using "3.prems" by (cases ps) auto
    with 3 show ?case by simp
  qed auto
  moreover have "trim_start ?j = [] \<or> last (trim_start ?j) = last ?j"
    by (metis append_is_Nil_conv last_appendR takeWhile_dropWhile_id trim_start_def)
  ultimately have ok: "trim_start ?j = [] \<or> \<not> is_whitespace (last (trim_start ?j))" by (metis dropWhile.simps(1) trim_start_def)
  show ?thesis
  proof (cases "trim_start ?j" rule: rev_cases)
    case (snoc ys y)
    then show ?thesis using ok by (simp add: trim_end_def)
  qed (simp add: trim_end_def)
qed

lemma strip_think_shown: "strip_think_blocks t = reply_shown t"
proof -
  have "l \<noteq> [] \<and> \<not> is_whitespace (last l)" if "l \<in> set (visible_lines u)" for l u
    using that trim_end_last by (auto simp: visible_lines_def trim_end_Nil_iff)
  then show ?thesis
    by (simp add: strip_think_blocks_def strip_loop_spoken tidy_lines_def shown_lines trim_str_def reply_shown_def trim_end_join)
qed

subsection \<open>Properties\<close>

text \<open>Reasoning never reaches the channel: from a reply with any number of complete thinking blocks
  and possibly an unterminated last one, only what is said outside the blocks is sent, with line
  ends trimmed and empty lines dropped.\<close>

theorem think_blocks_stripped:
  assumes "\<forall>b\<in>set bs. block_ok b" and "\<not> contains_str (final @ ''<think'') ''<think>''"
    and "\<not> contains_str secret ''</think>''"
  shows "strip_think_blocks (blocks_text bs @ final) = tidy_lines (concat (map fst bs) @ final) \<and>
     strip_think_blocks (blocks_text bs @ final @ ''<think>'' @ secret) = tidy_lines (concat (map fst bs) @ final)"
proof -
  have "\<not> contains_str final ''<think>''"
    using assms(2) by (simp add: contains_str_iff sublist_append)
  then show ?thesis
    using assms by (simp add: strip_think_blocks_def strip_blocks strip_open strip_last del: append_Cons)
qed

theorem think_blocks_stripped_witness:
  "strip_think_blocks (''Hi'' @ ''<think>'' @ ''hm'' @ ''</think>'' @ '' there'' @ ''<think>'' @ ''cut'') = ''Hi there''"
proof -
  have "block_ok (''Hi'', ''hm'')" "\<not> contains_str ('' there'' @ ''<think'') ''<think>''" "\<not> contains_str ''cut'' ''</think>''"
    by code_simp+
  from think_blocks_stripped [of "[(''Hi'', ''hm'')]", OF _ this(2,3)] this(1)
  have "strip_think_blocks (''Hi'' @ ''<think>'' @ ''hm'' @ ''</think>'' @ '' there'' @ ''<think>'' @ ''cut'') =
      tidy_lines (''Hi'' @ '' there'')" by (simp add: blocks_text_def)
  moreover have "tidy_lines (''Hi'' @ '' there'') = ''Hi there''" by code_simp
  ultimately show ?thesis by simp
qed

text \<open>The answers a prompt asks for are understood: the two replies spelled out in the message for a
  prompt parse, with any white space around them, to that prompt and the intended answer.\<close>

theorem approval_reply_roundtrip:
  assumes "\<forall>c\<in>set u. is_whitespace c" and "\<forall>c\<in>set v. is_whitespace c"
  shows "parse_approval_reply (u @ ''approve:'' @ prompt_id_of n @ v) = Some (prompt_id_of n, True) \<and>
     parse_approval_reply (u @ ''deny:'' @ prompt_id_of n @ v) = Some (prompt_id_of n, False)"
proof -
  have "trim_str (u @ (p @ prompt_id_of n) @ v) = p @ prompt_id_of n" if "p \<noteq> []" "\<not> is_whitespace (hd p)" for p
    by (rule trim_padded [OF assms]) (use that prompt_id_chars [of n] last_in_set [OF prompt_id_not_Nil, of n] in auto)
  from this [of "''approve:''"] this [of "''deny:''"] show ?thesis
    by (simp add: parse_approval_reply_def strip_prefix_def Let_def is_whitespace_def trim_str_id [OF prompt_id_chars])
qed

theorem approval_reply_roundtrip_witness:
  "parse_approval_reply ('' '' @ ''approve:'' @ prompt_id_of 7 @ []) = Some (prompt_id_of 7, True)"
  using approval_reply_roundtrip [of "'' ''" "[]" 7] by (simp add: is_whitespace_def)

text \<open>An approval reply is not subject to access control: a message that the channel's access policy
  rejects, from whatever sender and peer, still answers a pending prompt of any session if it
  names it, and the request that waits for the answer receives it.\<close>

theorem approval_reply_bypasses_access:
  assumes "ic_registry cfg" and "im_text msg = Some (''approve:'' @ prompt_id_of n)"
    and "evaluate msg (policy_for (ic_from_value cfg) (ic_channels cfg) (im_channel msg)) \<noteq> Allow"
    and "ph_registry h (prompt_id_of n) = Some q" and "ph_queues h q (prompt_id_of n) = Some c" and "ph_chans h c = Some Waiting"
  shows "\<exists>h'. route_inbound cfg guard now msg h = (ApprovalReply (prompt_id_of n) True True, h') \<and>
     ph_chans h' c = Some (Delivered True)"
proof -
  have "parse_approval_reply (''approve:'' @ prompt_id_of n) = Some (prompt_id_of n, True)"
    using trim_str_id [of "''approve:'' @ prompt_id_of n"] prompt_id_chars [of n]
    by (simp add: parse_approval_reply_def strip_prefix_def Let_def trim_str_id [OF prompt_id_chars] is_whitespace_def)
  with assms show ?thesis
    by (simp add: route_inbound_def ApprovalQueueRegistry_resolve_def ApprovalQueue_resolve_def heap_defs Let_def split: prod.splits)
qed

text \<open>A pending prompt of a session, and a direct message of a stranger to a channel without a
  configured access block.\<close>

definition demo_pending :: "bool prompt_heap" where
  "demo_pending = snd (snd (request_begin (with_registry (ApprovalGate_new 0))
     \<lparr>ar_tool = ''exec'', ar_agent_id = ''main'', ar_session_key = ''k'', ar_interactive = True\<rparr> empty_heap))"

definition demo_stranger :: InboundMessage where
  "demo_stranger = \<lparr>im_channel = ''tg'', im_account_id = ''a'',
     im_peer = \<lparr>pe_kind = Direct, pe_id = ''666'', pe_name = None, pe_thread_id = None\<rparr>,
     im_sender = \<lparr>se_id = ''666'', se_display_name = None, se_username = None\<rparr>, im_message_id = ''m'',
     im_text = Some (''approve:'' @ prompt_id_of 0), im_media = [], im_reply_to = None, im_timestamp = [],
     im_is_mentioned = False, im_ambient = False, im_guild_id = None, im_team_id = None\<rparr>"

definition demo_inbound :: inbound_config where
  "demo_inbound = \<lparr>ic_router = \<lparr>ro_bindings = []\<rparr>, ic_channels = Map.empty, ic_from_value = (\<lambda>_. None),
     ic_dm_scope = ''dm'', ic_registry = True, ic_guard = False\<rparr>"

theorem approval_reply_bypasses_access_witness:
  "\<exists>h'. route_inbound demo_inbound (BotLoopGuard_new 60 5) 0 demo_stranger demo_pending =
     (ApprovalReply (prompt_id_of 0) True True, h') \<and> ph_chans h' 0 = Some (Delivered True)"
proof (rule approval_reply_bypasses_access)
  show "evaluate demo_stranger (policy_for (ic_from_value demo_inbound) (ic_channels demo_inbound) (im_channel demo_stranger)) \<noteq> Allow"
    by code_simp
  show "ph_registry demo_pending (prompt_id_of 0) = Some 0" by code_simp
  show "ph_queues demo_pending 0 (prompt_id_of 0) = Some 0" by code_simp
  show "ph_chans demo_pending 0 = Some Waiting" by code_simp
qed (simp_all add: demo_inbound_def demo_stranger_def)

end
