(* ===== verification/Session_Store.thy ===== *)
theory Session_Store
  imports Session_Key File_Store Run_Types
begin

text \<open>
  The append-only transcript store (\<^verbatim>\<open>legion-host/src/session.rs\<close>): JSON lines under
  \<open>agents/<agent>/sessions/<peer>.jsonl\<close>, the full and the resumable load, the head-only and
  tail-only reads, statistics and archiving. The JSON text of an entry, the clock and the order in
  which the system lists a directory are parameters. The per-session lock makes each operation one
  step; text is read as it is, so the lossy decoding of the partial reads is the identity.
\<close>

subsection \<open>Definitions\<close>

record TranscriptEntry =
  te_message :: "ChatMessage option"
  te_boundary :: "BoundaryMark option"
  te_timestamp :: nat

record SessionStore =
  ss_base_dir :: string
  ss_faults :: faults
  ss_to_string :: "TranscriptEntry \<Rightarrow> (string, string) result"
  ss_from_str :: "string \<Rightarrow> TranscriptEntry option"

definition agent_sessions_dir :: "SessionStore \<Rightarrow> string \<Rightarrow> string" where
  "agent_sessions_dir store agent_id = path_join (path_join (path_join (ss_base_dir store) ''agents'') agent_id) ''sessions''"

definition transcript_path :: "SessionStore \<Rightarrow> string \<Rightarrow> string \<Rightarrow> path" where
  "transcript_path store agent_id peer_id =
     path_components (path_join (agent_sessions_dir store agent_id) (peer_id @ ''.jsonl''))"

definition session_path :: "SessionStore \<Rightarrow> string \<Rightarrow> path option" where
  "session_path store session_key =
     (case parse_session_key session_key of
        None \<Rightarrow> None
      | Some parts \<Rightarrow>
          if \<not> is_safe_segment (sk_agent_id parts) \<or> \<not> is_safe_segment (sk_peer_id parts) then None
          else Some (transcript_path store (sk_agent_id parts) (sk_peer_id parts)))"

definition is_not_found :: "io_error \<Rightarrow> bool" where
  "is_not_found e \<longleftrightarrow> e = OsError ''not found''"

definition parse_lines :: "SessionStore \<Rightarrow> string \<Rightarrow> TranscriptEntry list" where
  "parse_lines store content =
     List.map_filter (ss_from_str store) (filter (\<lambda>l. trim_str l \<noteq> []) (str_lines content))"

definition load_entries :: "SessionStore \<Rightarrow> path \<Rightarrow> files \<Rightarrow> (io_error, TranscriptEntry list) result" where
  "load_entries store path fs =
     (case fs_read (ss_faults store) path fs of
        Inr content \<Rightarrow> Inr (parse_lines store content)
      | Inl err \<Rightarrow> if is_not_found err then Inr [] else Inl err)"

definition count_existing_lines :: "SessionStore \<Rightarrow> path \<Rightarrow> files \<Rightarrow> nat" where
  "count_existing_lines store path fs =
     (case fs_read (ss_faults store) path fs of Inr content \<Rightarrow> length (str_lines content) | Inl _ \<Rightarrow> 0)"

definition entry_messages :: "TranscriptEntry list \<Rightarrow> ChatMessage list" where
  "entry_messages entries = List.map_filter te_message entries"

definition session_load :: "SessionStore \<Rightarrow> string \<Rightarrow> files \<Rightarrow> ChatMessage list" where
  "session_load store session_key fs =
     (case session_path store session_key of
        None \<Rightarrow> []
      | Some path \<Rightarrow> (case load_entries store path fs of Inr entries \<Rightarrow> entry_messages entries | Inl _ \<Rightarrow> []))"

fun rposition :: "('a \<Rightarrow> bool) \<Rightarrow> 'a list \<Rightarrow> nat option" where
  "rposition P [] = None"
| "rposition P (x # xs) =
     (case rposition P xs of Some i \<Rightarrow> Some (Suc i) | None \<Rightarrow> if P x then Some 0 else None)"

definition resume_start :: "TranscriptEntry list \<Rightarrow> nat" where
  "resume_start entries =
     (case rposition (\<lambda>e. te_boundary e \<noteq> None) entries of Some i \<Rightarrow> i + 1 | None \<Rightarrow> 0)"

definition load_for_resume :: "SessionStore \<Rightarrow> string \<Rightarrow> files \<Rightarrow> ChatMessage list" where
  "load_for_resume store session_key fs =
     (case session_path store session_key of
        None \<Rightarrow> []
      | Some path \<Rightarrow>
          (case load_entries store path fs of
             Inr entries \<Rightarrow> entry_messages (drop (resume_start entries) entries)
           | Inl _ \<Rightarrow> []))"

text \<open>Opening with \<open>create\<close> and \<open>append\<close> and writing: a failing write leaves a prefix.\<close>

definition write_lines :: "SessionStore \<Rightarrow> path \<Rightarrow> string \<Rightarrow> files \<Rightarrow> (io_error, unit) result \<times> files" where
  "write_lines store path lines fs =
     (let old = unwrap_or (fs path) []
      in case ss_faults store (Fs_write path) of
           Some (e, None) \<Rightarrow> (Inl (OsError e), fs)
         | Some (e, Some n) \<Rightarrow> (Inl (OsError e), fs(path \<mapsto> old @ take n lines))
         | None \<Rightarrow> (Inr (), fs(path \<mapsto> old @ lines)))"

definition message_entry :: "nat \<Rightarrow> ChatMessage \<Rightarrow> TranscriptEntry" where
  "message_entry now msg = \<lparr>te_message = Some msg, te_boundary = None, te_timestamp = now\<rparr>"

definition boundary_entry :: "nat \<Rightarrow> BoundaryMark \<Rightarrow> nat \<Rightarrow> TranscriptEntry" where
  "boundary_entry now boundary entry_index =
     \<lparr>te_message = None, te_boundary = Some (boundary\<lparr>bm_entry_index := entry_index\<rparr>), te_timestamp = now\<rparr>"

fun entry_lines :: "SessionStore \<Rightarrow> TranscriptEntry list \<Rightarrow> (io_error, string) result" where
  "entry_lines store [] = Inr []"
| "entry_lines store (e # es) =
     (case ss_to_string store e of
        Inl err \<Rightarrow> Inl (InvalidData (''JSON error: '' @ err))
      | Inr json \<Rightarrow> bind_result (entry_lines store es) (\<lambda>rest. Inr (json @ LF # rest)))"

definition session_append ::
  "SessionStore \<Rightarrow> nat \<Rightarrow> string \<Rightarrow> ChatMessage list \<Rightarrow> files \<Rightarrow> (io_error, unit) result \<times> files" where
  "session_append store now session_key messages fs =
     (if messages = [] then (Inr (), fs)
      else case session_path store session_key of
        None \<Rightarrow> (Inl (InvalidInput ''invalid session key''), fs)
      | Some path \<Rightarrow>
          (case fs_create_dir_all (ss_faults store) (butlast path) of
             Inl e \<Rightarrow> (Inl e, fs)
           | Inr _ \<Rightarrow>
               (case entry_lines store (map (message_entry now) messages) of
                  Inl e \<Rightarrow> (Inl e, fs)
                | Inr lines \<Rightarrow> if lines = [] then (Inr (), fs) else write_lines store path lines fs)))"

definition append_boundary ::
  "SessionStore \<Rightarrow> nat \<Rightarrow> string \<Rightarrow> BoundaryMark \<Rightarrow> files \<Rightarrow> (io_error, unit) result \<times> files" where
  "append_boundary store now session_key boundary fs =
     (case session_path store session_key of
        None \<Rightarrow> (Inl (InvalidInput ''invalid session key''), fs)
      | Some path \<Rightarrow>
          (case fs_create_dir_all (ss_faults store) (butlast path) of
             Inl e \<Rightarrow> (Inl e, fs)
           | Inr _ \<Rightarrow>
               (case ss_to_string store (boundary_entry now boundary (count_existing_lines store path fs)) of
                  Inl err \<Rightarrow> (Inl (InvalidData (''JSON error: '' @ err)), fs)
                | Inr json \<Rightarrow> write_lines store path (json @ [LF]) fs)))"

subsection \<open>Reading without a full load\<close>

text \<open>\<open>listing\<close> is the names in the agent's session directory, in the system's order, or \<open>None\<close>
  when it cannot be read.\<close>

definition strip_suffix :: "string \<Rightarrow> string \<Rightarrow> string option" where
  "strip_suffix suf s = (if suffix suf s then Some (take (length s - length suf) s) else None)"

definition list_sessions :: "string list option \<Rightarrow> string list" where
  "list_sessions listing =
     (case listing of None \<Rightarrow> [] | Some names \<Rightarrow> List.map_filter (strip_suffix ''.jsonl'') names)"

record SessionSummary =
  sy_peer_id :: string
  sy_first_prompt :: "string option"
  sy_truncated :: bool

fun find_map :: "('a \<Rightarrow> 'b option) \<Rightarrow> 'a list \<Rightarrow> 'b option" where
  "find_map f [] = None"
| "find_map f (x # xs) = (case f x of Some y \<Rightarrow> Some y | None \<Rightarrow> find_map f xs)"

definition user_prompt :: "SessionStore \<Rightarrow> string \<Rightarrow> string option" where
  "user_prompt store line =
     (case ss_from_str store line of
        None \<Rightarrow> None
      | Some entry \<Rightarrow>
          (case te_message entry of
             None \<Rightarrow> None
           | Some msg \<Rightarrow> if cm_role msg = User then Some (take_chars 200 (cm_content msg)) else None))"

definition lite_read :: "SessionStore \<Rightarrow> string \<Rightarrow> string \<Rightarrow> nat \<Rightarrow> files \<Rightarrow> SessionSummary option" where
  "lite_read store agent_id peer_id buffer_bytes fs =
     (case fs_read (ss_faults store) (transcript_path store agent_id peer_id) fs of
        Inl _ \<Rightarrow> None
      | Inr content \<Rightarrow>
          let buf = take (max buffer_bytes 1) content
          in Some \<lparr>sy_peer_id = peer_id,
               sy_first_prompt = find_map (user_prompt store) (filter (\<lambda>l. trim_str l \<noteq> []) (str_lines buf)),
               sy_truncated = (length content > length buf)\<rparr>)"

definition list_session_summaries ::
  "SessionStore \<Rightarrow> string list option \<Rightarrow> string \<Rightarrow> nat \<Rightarrow> files \<Rightarrow> SessionSummary list" where
  "list_session_summaries store listing agent_id buffer_bytes fs =
     List.map_filter (\<lambda>peer. lite_read store agent_id peer buffer_bytes fs) (list_sessions listing)"

record SessionStats =
  sa_entries :: nat
  sa_user_messages :: nat
  sa_assistant_messages :: nat
  sa_tool_messages :: nat
  sa_system_messages :: nat
  sa_boundary_marks :: nat
  sa_last_timestamp :: "nat option"
  sa_file_bytes :: nat

definition count_role :: "ChatRole \<Rightarrow> SessionStats \<Rightarrow> SessionStats" where
  "count_role role s =
     (case role of
        User \<Rightarrow> s\<lparr>sa_user_messages := sa_user_messages s + 1\<rparr>
      | Assistant \<Rightarrow> s\<lparr>sa_assistant_messages := sa_assistant_messages s + 1\<rparr>
      | Tool \<Rightarrow> s\<lparr>sa_tool_messages := sa_tool_messages s + 1\<rparr>
      | System \<Rightarrow> s\<lparr>sa_system_messages := sa_system_messages s + 1\<rparr>)"

definition count_entry :: "SessionStats \<Rightarrow> TranscriptEntry \<Rightarrow> SessionStats" where
  "count_entry s entry =
     (let s1 = s\<lparr>sa_entries := sa_entries s + 1\<rparr>;
          s2 = (if te_boundary entry \<noteq> None then s1\<lparr>sa_boundary_marks := sa_boundary_marks s1 + 1\<rparr> else s1)
      in case te_message entry of None \<Rightarrow> s2 | Some msg \<Rightarrow> count_role (cm_role msg) s2)"

definition session_stats :: "SessionStore \<Rightarrow> string \<Rightarrow> files \<Rightarrow> SessionStats option" where
  "session_stats store session_key fs =
     (case session_path store session_key of
        None \<Rightarrow> None
      | Some path \<Rightarrow>
          (case fs path of
             None \<Rightarrow> None
           | Some content \<Rightarrow>
               (case load_entries store path fs of
                  Inl _ \<Rightarrow> None
                | Inr entries \<Rightarrow>
                    Some ((foldl count_entry \<lparr>sa_entries = 0, sa_user_messages = 0, sa_assistant_messages = 0,
                        sa_tool_messages = 0, sa_system_messages = 0, sa_boundary_marks = 0,
                        sa_last_timestamp = None, sa_file_bytes = length content\<rparr> entries)
                      \<lparr>sa_last_timestamp := (if entries = [] then None else Some (te_timestamp (last entries)))\<rparr>))))"

definition transcript_messages :: "SessionStore \<Rightarrow> string \<Rightarrow> string \<Rightarrow> files \<Rightarrow> ChatMessage list option" where
  "transcript_messages store agent_id peer_id fs =
     (let path = transcript_path store agent_id peer_id
      in if fs path = None then None
         else case load_entries store path fs of Inr entries \<Rightarrow> Some (entry_messages entries) | Inl _ \<Rightarrow> None)"

subsection \<open>Archiving\<close>

definition last_entry_timestamp :: "SessionStore \<Rightarrow> path \<Rightarrow> files \<Rightarrow> nat option" where
  "last_entry_timestamp store path fs =
     (case fs_read (ss_faults store) path fs of
        Inl _ \<Rightarrow> None
      | Inr content \<Rightarrow>
          map_option te_timestamp (find_map (ss_from_str store)
            (filter (\<lambda>l. trim_str l \<noteq> []) (rev (str_lines (drop (length content - 8192) content))))))"

text \<open>\<open>Path::extension\<close> of a file name: what follows the last dot, unless the dot is the first
  character.\<close>

definition has_jsonl_extension :: "string \<Rightarrow> bool" where
  "has_jsonl_extension name \<longleftrightarrow> suffix ''.jsonl'' name \<and> name \<noteq> ''.jsonl''"

definition archive_file ::
  "SessionStore \<Rightarrow> nat \<Rightarrow> string \<Rightarrow> string \<Rightarrow> string \<Rightarrow> files \<Rightarrow> path list \<times> files" where
  "archive_file store cutoff archive_dir agent_name name fs =
     (let path = path_components (path_join (agent_sessions_dir store agent_name) name)
      in if \<not> has_jsonl_extension name then ([], fs)
         else case last_entry_timestamp store path fs of
           None \<Rightarrow> ([], fs)
         | Some last_ts \<Rightarrow>
             if last_ts \<ge> cutoff then ([], fs)
             else
               let dest_dir = path_join (path_join (path_join archive_dir ''agents'') agent_name) ''sessions'';
                   dest = path_components (path_join dest_dir name)
               in case fs_create_dir_all (ss_faults store) (path_components dest_dir) of
                    Inl _ \<Rightarrow> ([], fs)
                  | Inr _ \<Rightarrow>
                      (case fs_rename (ss_faults store) path dest fs of
                         (Inr _, fs') \<Rightarrow> ([dest], fs')
                       | (Inl _, fs') \<Rightarrow> ([], fs')))"

fun archive_files ::
  "SessionStore \<Rightarrow> nat \<Rightarrow> string \<Rightarrow> (string \<times> string) list \<Rightarrow> files \<Rightarrow> path list \<times> files" where
  "archive_files store cutoff archive_dir [] fs = ([], fs)"
| "archive_files store cutoff archive_dir ((agent_name, name) # rest) fs =
     (let (done, fs1) = archive_file store cutoff archive_dir agent_name name fs;
          (more, fs2) = archive_files store cutoff archive_dir rest fs1
      in (done @ more, fs2))"

text \<open>\<open>listing\<close> pairs each agent directory with the files in its session directory.\<close>

definition archive_expired ::
  "SessionStore \<Rightarrow> nat \<Rightarrow> (string \<times> string list) list \<Rightarrow> nat \<Rightarrow> string \<Rightarrow> files \<Rightarrow> path list \<times> files" where
  "archive_expired store now listing ttl_days archive_dir fs =
     (if ttl_days = 0 then ([], fs)
      else
        let cutoff = now - min (ttl_days * 86400) (2 ^ 64 - 1)
        in archive_files store cutoff archive_dir
             (concat (map (\<lambda>(agent, names). map (\<lambda>n. (agent, n)) names) listing)) fs)"

subsection \<open>The abstract transcript\<close>

text \<open>What the store relies on of the JSON text format: an entry prints as one line that is not
  blank and parses back to the entry.\<close>

definition codec_ok :: "SessionStore \<Rightarrow> bool" where
  "codec_ok store \<longleftrightarrow> (\<forall>e s. ss_to_string store e = Inr s \<longrightarrow>
     plain_line s \<and> trim_str s \<noteq> [] \<and> ss_from_str store s = Some e)"

definition line_ok :: "SessionStore \<Rightarrow> string \<Rightarrow> TranscriptEntry \<Rightarrow> bool" where
  "line_ok store l e \<longleftrightarrow> plain_line l \<and> trim_str l \<noteq> [] \<and> ss_from_str store l = Some e"

definition file_ok :: "SessionStore \<Rightarrow> string \<Rightarrow> TranscriptEntry list \<Rightarrow> bool" where
  "file_ok store t es \<longleftrightarrow> (\<exists>ls. t = text_of ls \<and> list_all2 (line_ok store) ls es)"

text \<open>A state of the store: to each file its entries. The operations append to one file.\<close>

type_synonym transcripts = "path \<Rightarrow> TranscriptEntry list"

datatype StoreOp = AppendOp nat string "ChatMessage list" | BoundaryOp nat string BoundaryMark

definition run_op :: "SessionStore \<Rightarrow> files \<Rightarrow> StoreOp \<Rightarrow> files" where
  "run_op store fs op =
     (case op of
        AppendOp now key msgs \<Rightarrow> snd (session_append store now key msgs fs)
      | BoundaryOp now key mark \<Rightarrow> snd (append_boundary store now key mark fs))"

definition op_entries :: "TranscriptEntry list \<Rightarrow> StoreOp \<Rightarrow> TranscriptEntry list" where
  "op_entries es op =
     (case op of
        AppendOp now key msgs \<Rightarrow> map (message_entry now) msgs
      | BoundaryOp now key mark \<Rightarrow> [boundary_entry now mark (length es)])"

fun op_key :: "StoreOp \<Rightarrow> string" where
  "op_key (AppendOp now key msgs) = key"
| "op_key (BoundaryOp now key mark) = key"

definition serialisable :: "SessionStore \<Rightarrow> TranscriptEntry list \<Rightarrow> bool" where
  "serialisable store es \<longleftrightarrow> (\<forall>e\<in>set es. \<not> isl (ss_to_string store e))"

definition spec_op :: "SessionStore \<Rightarrow> transcripts \<Rightarrow> StoreOp \<Rightarrow> transcripts" where
  "spec_op store T op =
     (case session_path store (op_key op) of
        None \<Rightarrow> T
      | Some p \<Rightarrow> if serialisable store (op_entries (T p) op) then T(p := T p @ op_entries (T p) op) else T)"

definition since_boundary :: "TranscriptEntry list \<Rightarrow> TranscriptEntry list" where
  "since_boundary es = rev (takeWhile (\<lambda>e. te_boundary e = None) (rev es))"

definition transcripts_ok :: "SessionStore \<Rightarrow> files \<Rightarrow> transcripts \<Rightarrow> bool" where
  "transcripts_ok store fs T \<longleftrightarrow>
     (\<forall>key p. session_path store key = Some p \<longrightarrow> file_ok store (unwrap_or (fs p) []) (T p))"

subsection \<open>Facts\<close>

lemma map_filter_app: "List.map_filter f (xs @ ys) = List.map_filter f xs @ List.map_filter f ys"
  by (simp add: List.map_filter_def)

lemma text_of_append [simp]: "text_of (xs @ ys) = text_of xs @ text_of ys"
  by (simp add: text_of_def)

lemma text_of_Cons [simp]: "text_of (l # ls) = l @ LF # text_of ls"
  by (simp add: text_of_def)

lemma text_of_Nil [simp]: "text_of [] = []" "text_of ls = [] \<longleftrightarrow> ls = []"
  by (auto simp: text_of_def)

lemma str_lines_tail: "\<forall>l\<in>set ls. plain_line l \<Longrightarrow> str_lines (text_of ls @ t) = ls @ str_lines t"
  by (induction ls) (simp_all add: str_lines_Cons)

lemma line_ok_all:
  "list_all2 (line_ok store) ls es \<Longrightarrow> (\<forall>l\<in>set ls. plain_line l) \<and>
     List.map_filter (ss_from_str store) (filter (\<lambda>l. trim_str l \<noteq> []) ls) = es"
  by (induction rule: list_all2_induct) (auto simp: line_ok_def map_filter_simps)

lemma file_ok_parse:
  assumes "file_ok store t es"
  shows "parse_lines store t = es" and "length (str_lines t) = length es"
  using assms line_ok_all by (auto simp: file_ok_def parse_lines_def str_lines_text_of list_all2_lengthD)

lemma file_ok_append: "file_ok store t es \<Longrightarrow> file_ok store t' es' \<Longrightarrow> file_ok store (t @ t') (es @ es')"
  unfolding file_ok_def by (metis list_all2_appendI text_of_append)

lemma file_ok_Nil [simp]: "file_ok store [] []"
  by (auto simp: file_ok_def)

lemma file_ok_line: "codec_ok store \<Longrightarrow> ss_to_string store e = Inr s \<Longrightarrow> file_ok store (s @ [LF]) [e]"
  unfolding file_ok_def by (rule exI [of _ "[s]"]) (auto simp: codec_ok_def line_ok_def)

lemma entry_lines_ok:
  "codec_ok store \<Longrightarrow> entry_lines store es = Inr t \<Longrightarrow> file_ok store t es"
proof (induction es arbitrary: t)
  case (Cons e es)
  then obtain s rest where "ss_to_string store e = Inr s" "entry_lines store es = Inr rest" "t = (s @ [LF]) @ rest"
    by (auto split: sum.splits)
  with Cons show ?case using file_ok_append [OF file_ok_line] by (metis append_Cons append_Nil)
qed simp

lemma entry_lines_serialisable: "(\<exists>t. entry_lines store es = Inr t) \<longleftrightarrow> serialisable store es"
  by (induction es) (auto simp: serialisable_def split: sum.splits)

lemma entry_lines_Nil_iff: "entry_lines store es = Inr [] \<Longrightarrow> es = []"
  by (cases es) (auto split: sum.splits)

lemma rposition_drop:
  "drop (case rposition P xs of Some i \<Rightarrow> i + 1 | None \<Rightarrow> 0) xs = rev (takeWhile (\<lambda>x. \<not> P x) (rev xs))"
proof (induction xs)
  case (Cons x xs)
  have "rposition P xs = None \<longleftrightarrow> (\<forall>x\<in>set xs. \<not> P x)" by (induction xs) (auto split: option.splits)
  then show ?case using Cons by (auto simp: takeWhile_append split: option.splits)
qed simp

lemma drop_resume_start: "drop (resume_start es) es = since_boundary es"
  using rposition_drop [of "\<lambda>e. te_boundary e \<noteq> None" es] by (simp add: resume_start_def since_boundary_def)

lemma write_lines_ok:
  "ss_faults store = (\<lambda>_. None) \<Longrightarrow>
     write_lines store p lines fs = (Inr (), fs(p \<mapsto> unwrap_or (fs p) [] @ lines))"
  by (simp add: write_lines_def)

lemma load_entries_no_faults:
  "ss_faults store = (\<lambda>_. None) \<Longrightarrow> load_entries store p fs = Inr (parse_lines store (unwrap_or (fs p) []))"
  by (auto simp: load_entries_def fs_read_def is_not_found_def parse_lines_def str_lines_def map_filter_simps split: option.splits)

lemma count_lines_no_faults:
  "ss_faults store = (\<lambda>_. None) \<Longrightarrow> count_existing_lines store p fs = length (str_lines (unwrap_or (fs p) []))"
  by (auto simp: count_existing_lines_def fs_read_def str_lines_def split: option.splits)

lemma append_ok_text:
  assumes "ss_faults store = (\<lambda>_. None)" and "session_path store key = Some p"
    and "entry_lines store (map (message_entry now) msgs) = Inr t"
  shows "session_append store now key msgs fs =
     (Inr (), if msgs = [] then fs else fs(p \<mapsto> unwrap_or (fs p) [] @ t))"
  using assms entry_lines_Nil_iff [of store "map (message_entry now) msgs"]
  by (auto simp: session_append_def fs_create_dir_all_def write_lines_ok)

lemma transcripts_ok_load:
  assumes "ss_faults store = (\<lambda>_. None)" and "transcripts_ok store fs T" and "session_path store key = Some p"
  shows "session_load store key fs = entry_messages (T p)"
    and "load_for_resume store key fs = entry_messages (since_boundary (T p))"
proof -
  have "parse_lines store (unwrap_or (fs p) []) = T p"
    using assms(2,3) file_ok_parse(1) by (auto simp: transcripts_ok_def)
  with assms show "session_load store key fs = entry_messages (T p)"
    "load_for_resume store key fs = entry_messages (since_boundary (T p))"
    by (simp_all add: session_load_def load_for_resume_def load_entries_no_faults drop_resume_start)
qed

lemma transcripts_ok_extend:
  assumes "transcripts_ok store fs T" and "session_path store key = Some p" and "file_ok store t es"
  shows "transcripts_ok store (fs(p \<mapsto> unwrap_or (fs p) [] @ t)) (T(p := T p @ es))"
  using assms file_ok_append [of store "unwrap_or (fs p) []" "T p" t es] by (auto simp: transcripts_ok_def)

lemma run_op_ok:
  assumes store: "codec_ok store" "ss_faults store = (\<lambda>_. None)" and ok: "transcripts_ok store fs T"
  shows "transcripts_ok store (run_op store fs op) (spec_op store T op)"
proof (cases "session_path store (op_key op)")
  case None
  with ok show ?thesis
    by (cases op) (auto simp: run_op_def spec_op_def session_append_def append_boundary_def)
next
  case (Some p)
  let ?es = "op_entries (T p) op"
  have count: "count_existing_lines store p fs = length (T p)"
    using file_ok_parse(2) [of store "unwrap_or (fs p) []" "T p"] ok Some
    by (auto simp: count_lines_no_faults [OF store(2)] transcripts_ok_def)
  show ?thesis
  proof (cases "entry_lines store ?es")
    case (Inl e)
    then have "\<not> serialisable store ?es" using entry_lines_serialisable [of store ?es] by simp
    moreover have "run_op store fs op = fs"
      using Inl Some count by (cases op) (auto simp: run_op_def op_entries_def session_append_def append_boundary_def
        fs_create_dir_all_def store(2) split: sum.splits)
    ultimately show ?thesis using Some ok by (simp add: spec_op_def)
  next
    case (Inr t)
    note lines = entry_lines_ok [OF store(1) Inr]
    have "run_op store fs op = (if ?es = [] then fs else fs(p \<mapsto> unwrap_or (fs p) [] @ t))"
    proof (cases op)
      case (AppendOp now key msgs)
      then show ?thesis using append_ok_text [OF store(2), of key p now msgs t fs] Inr Some
        by (simp add: run_op_def op_entries_def)
    next
      case (BoundaryOp now key mark)
      then show ?thesis using Inr Some count store(2)
        by (auto simp: run_op_def op_entries_def append_boundary_def fs_create_dir_all_def write_lines_ok split: sum.splits)
    qed
    moreover have "serialisable store ?es" using Inr entry_lines_serialisable by blast
    ultimately show ?thesis using Some ok transcripts_ok_extend [OF ok Some lines] by (auto simp: spec_op_def)
  qed
qed

lemma run_ops_ok:
  assumes "codec_ok store" and "ss_faults store = (\<lambda>_. None)" and "transcripts_ok store fs T"
  shows "transcripts_ok store (foldl (run_op store) fs ops) (foldl (spec_op store) T ops)"
  using assms by (induction ops arbitrary: fs T) (simp_all add: run_op_ok)

lemma path_join_base:
  assumes "base \<noteq> []" and "p \<noteq> []" shows "path_join base p \<noteq> []"
  using assms by (auto simp: path_join_def)

lemma safe_no_slash: "is_safe_segment s \<Longrightarrow> CHR ''/'' \<notin> set s"
  using safe_segment_chars(2) by blast

lemma transcript_path_eq:
  assumes "ss_base_dir store \<noteq> []" and "is_safe_segment agent" and "agent \<notin> {''.'', ''..''}" and "CHR ''/'' \<notin> set peer"
  shows "transcript_path store agent peer =
     path_components (ss_base_dir store) @ [Normal ''agents'', Normal agent, Normal ''sessions'', Normal (peer @ ''.jsonl'')]"
proof -
  have a: "agent \<notin> {[], ''.'', ''..''}" using assms(2,3) by (auto simp: is_safe_segment_def)
  have b: "path_join (ss_base_dir store) ''agents'' \<noteq> []" "path_join (path_join (ss_base_dir store) ''agents'') agent \<noteq> []"
    "path_join (path_join (path_join (ss_base_dir store) ''agents'') agent) ''sessions'' \<noteq> []"
    using assms(1) a by (simp_all add: path_join_base)
  have p: "peer @ ''.jsonl'' \<notin> {[], ''.'', ''..''}" by (auto simp: append_eq_Cons_conv)
  show ?thesis unfolding transcript_path_def agent_sessions_dir_def
    using assms(1,4) safe_no_slash [OF assms(2)] a b p by (simp add: path_components_join)
qed

lemma session_path_SomeD:
  assumes "session_path store key = Some p"
  obtains parts where "parse_session_key key = Some parts" "is_safe_segment (sk_agent_id parts)"
    "is_safe_segment (sk_peer_id parts)" "p = transcript_path store (sk_agent_id parts) (sk_peer_id parts)"
  using assms by (auto simp: session_path_def split: option.splits if_splits)

text \<open>A codec given by a table of lines, for concrete stores.\<close>

definition table_store :: "string \<Rightarrow> faults \<Rightarrow> (string \<times> TranscriptEntry) list \<Rightarrow> SessionStore" where
  "table_store base faults tbl = \<lparr>ss_base_dir = base, ss_faults = faults,
     ss_to_string = (\<lambda>e. case find (\<lambda>(s, e'). e' = e) tbl of Some (s, _) \<Rightarrow> Inr s | None \<Rightarrow> Inl ''unsupported''),
     ss_from_str = map_of tbl\<rparr>"

lemma table_store_simps [simp]:
  "ss_base_dir (table_store base faults tbl) = base" "ss_faults (table_store base faults tbl) = faults"
  by (simp_all add: table_store_def)

lemma table_codec_ok:
  assumes "distinct (map fst tbl)" and "\<forall>(s, e)\<in>set tbl. plain_line s \<and> trim_str s \<noteq> []"
  shows "codec_ok (table_store base faults tbl)"
proof -
  have "(s, e') \<in> set tbl \<and> e' = e" if "find (\<lambda>(s, e'). e' = e) tbl = Some (s, e')" for s e e'
    using that by (auto simp: find_Some_iff in_set_conv_nth)
  then show ?thesis using assms by (fastforce simp: codec_ok_def table_store_def split: option.splits)
qed

subsection \<open>Properties\<close>

text \<open>C9. Without file faults the store implements an append-only transcript per file. Assume that every file operation
  succeeds, that an entry that serialises gives one non-blank line which reads back as that entry, and that every
  transcript file holds whole lines to begin with. Then after any sequence of appends and boundary marks
  each file holds exactly the entries of the abstract
  transcript (the appended messages in order, each mark with the number of entries before it), a
  full load returns all their messages and a resuming load those after the last mark. Operations
  on other files, with invalid keys or with entries that do not serialise change nothing. (A write that fails half-way is
  excluded: it can cost the next append its first message.)\<close>

theorem transcript_store_refines:
  assumes "codec_ok store" and "ss_faults store = (\<lambda>_. None)" and "transcripts_ok store fs T"
    and "session_path store key = Some p"
  shows "let fs' = foldl (run_op store) fs ops; T' = foldl (spec_op store) T ops
     in transcripts_ok store fs' T' \<and> session_load store key fs' = entry_messages (T' p) \<and>
        load_for_resume store key fs' = entry_messages (since_boundary (T' p))"
  using run_ops_ok [OF assms(1-3), of ops] transcripts_ok_load [OF assms(2) _ assms(4)] by (simp add: Let_def)

definition ss_key :: string where
  "ss_key = ''agent:main:dm:tg:acct:direct:42''"

definition ss_mark :: BoundaryMark where
  "ss_mark = \<lparr>bm_entry_index = 0, bm_timestamp_iso = ''t'', bm_tokens_compacted = 9\<rparr>"

definition ss_table :: "(string \<times> TranscriptEntry) list" where
  "ss_table = [(''a'', message_entry 5 (ChatMessage_user ''hi'')), (''b'', boundary_entry 6 ss_mark 1),
     (''c'', message_entry 7 (ChatMessage_user ''sum''))]"

definition ss_store :: SessionStore where
  "ss_store = table_store ''/l'' (\<lambda>_. None) ss_table"

lemma ss_store_ok: "codec_ok ss_store" "ss_faults ss_store = (\<lambda>_. None)" "ss_base_dir ss_store = ''/l''"
proof -
  have "list_all (\<lambda>(s, e). plain_line s \<and> trim_str s \<noteq> []) ss_table" by code_simp
  then show "codec_ok ss_store" unfolding ss_store_def
    by (intro table_codec_ok) (auto simp: ss_table_def list_all_iff)
qed (simp_all add: ss_store_def)

abbreviation ss_file :: path where
  "ss_file \<equiv> [RootDir, Normal ''l'', Normal ''agents'', Normal ''main'', Normal ''sessions'', Normal ''42.jsonl'']"

lemma ss_session_path: "session_path ss_store ss_key = Some ss_file"
  by code_simp

theorem transcript_store_refines_witness:
  "load_for_resume ss_store ss_key (foldl (run_op ss_store) (\<lambda>_. None)
     [AppendOp 5 ss_key [ChatMessage_user ''hi''], BoundaryOp 6 ss_key ss_mark,
      AppendOp 7 ss_key [ChatMessage_user ''sum'']]) = [ChatMessage_user ''sum'']"
proof -
  have "transcripts_ok ss_store (\<lambda>_. None) (\<lambda>_. [])" by (simp add: transcripts_ok_def)
  moreover have "entry_messages (since_boundary (foldl (spec_op ss_store) (\<lambda>_. [])
     [AppendOp 5 ss_key [ChatMessage_user ''hi''], BoundaryOp 6 ss_key ss_mark,
      AppendOp 7 ss_key [ChatMessage_user ''sum'']] ss_file)) = [ChatMessage_user ''sum'']"
    by code_simp
  ultimately show ?thesis
    using transcript_store_refines [OF ss_store_ok(1,2) _ ss_session_path] by (simp only: Let_def)
qed

text \<open>Transcripts are kept per agent and peer: the file of a key lies directly in the session directory
  of its agent below the base directory, and two keys reach the same file exactly when agent and
  peer agree. The channel, the account and the scope of a key do not take part, so a peer id used
  on two channels names one transcript.\<close>

theorem transcript_per_agent_and_peer:
  assumes "ss_base_dir store \<noteq> []" and "parse_session_key k1 = Some a" and "parse_session_key k2 = Some b"
    and "session_path store k1 = Some p" and "session_path store k2 = Some q"
    and "sk_agent_id a \<notin> {''.'', ''..''}" and "sk_agent_id b \<notin> {''.'', ''..''}"
  shows "p = path_components (ss_base_dir store) @
       [Normal ''agents'', Normal (sk_agent_id a), Normal ''sessions'', Normal (sk_peer_id a @ ''.jsonl'')] \<and>
     (p = q \<longleftrightarrow> sk_agent_id a = sk_agent_id b \<and> sk_peer_id a = sk_peer_id b)"
proof -
  have eq: "r = path_components (ss_base_dir store) @
       [Normal ''agents'', Normal (sk_agent_id c), Normal ''sessions'', Normal (sk_peer_id c @ ''.jsonl'')]"
    if "parse_session_key k = Some c" "session_path store k = Some r" "sk_agent_id c \<notin> {''.'', ''..''}" for k c r
    using that assms(1) safe_no_slash by (auto simp: transcript_path_eq elim!: session_path_SomeD)
  show ?thesis using eq [OF assms(2,4,6)] eq [OF assms(3,5,7)] by simp
qed

theorem transcript_per_agent_and_peer_witness:
  "session_path ss_store ss_key = session_path ss_store ''agent:main:dm:discord:other:direct:42''"
proof -
  let ?k = "''agent:main:dm:discord:other:direct:42''"
  have p: "parse_session_key ss_key = Some (SessionKeyParts_direct ''main'' ''dm'' ''tg'' ''acct'' ''42'')"
    "parse_session_key ?k = Some (SessionKeyParts_direct ''main'' ''dm'' ''discord'' ''other'' ''42'')"
    by code_simp+
  have q: "session_path ss_store ?k = Some ss_file" by code_simp
  show ?thesis
    using transcript_per_agent_and_peer [OF _ p ss_session_path q] q ss_session_path ss_store_ok(3)
    by (simp add: SessionKeyParts_direct_def)
qed

text \<open>A write cut short spoils the next append too: when the file ends in the torn start of a line,
  the next append succeeds, and yet its first message is not loaded, because its line continues
  the torn one. The messages before the tear and the later ones of the append are kept.\<close>

theorem torn_line_swallows_next_message:
  assumes "codec_ok store" and "ss_faults store = (\<lambda>_. None)" and "session_path store key = Some p"
    and "fs p = Some (t @ torn)" and "file_ok store t es" and "plain_line torn" and "trim_str torn \<noteq> []"
    and "ss_to_string store (message_entry now m) = Inr l" and "ss_from_str store (torn @ l) = None"
    and "serialisable store (map (message_entry now) ms)"
  shows "fst (session_append store now key (m # ms) fs) = Inr () \<and>
     session_load store key (snd (session_append store now key (m # ms) fs)) = entry_messages es @ ms"
proof -
  obtain rest where rest: "entry_lines store (map (message_entry now) ms) = Inr rest"
    using assms(10) entry_lines_serialisable by blast
  then have lines: "entry_lines store (map (message_entry now) (m # ms)) = Inr (l @ LF # rest)"
    using assms(8) by simp
  have l: "plain_line l" "trim_str (torn @ l) \<noteq> []"
    using assms(1,7,8) by (auto simp: codec_ok_def trim_str_Nil_iff)
  have msgs: "entry_messages (map (message_entry now) ms) = ms"
    by (induction ms) (simp_all add: entry_messages_def message_entry_def map_filter_simps)
  obtain ls where ls: "t = text_of ls" "list_all2 (line_ok store) ls es" using assms(5) by (auto simp: file_ok_def)
  note ok = line_ok_all [OF ls(2)]
  have torn: "plain_line (torn @ l)" using l(1) assms(6) by (auto simp: plain_line_def)
  have "str_lines ((t @ torn) @ l @ LF # rest) = ls @ (torn @ l) # str_lines rest"
    using str_lines_tail [of ls "(torn @ l) @ LF # rest"] ok str_lines_Cons [OF torn, of rest] by (simp add: ls(1))
  then have "parse_lines store ((t @ torn) @ l @ LF # rest) = es @ map (message_entry now) ms"
    using ok l(2) assms(9) file_ok_parse(1) [OF entry_lines_ok [OF assms(1) rest]]
    by (simp add: parse_lines_def map_filter_simps map_filter_app)
  then show ?thesis
    using append_ok_text [OF assms(2,3) lines, of fs] assms(2-4) msgs
    by (simp add: session_load_def load_entries_no_faults entry_messages_def map_filter_app)
qed

theorem torn_line_swallows_next_message_witness:
  "session_load ss_store ss_key (snd (session_append ss_store 7 ss_key [ChatMessage_user ''sum'']
     (\<lambda>p. if p = ss_file then Some (''a'' @ [LF] @ ''x'') else None))) = [ChatMessage_user ''hi'']"
proof -
  have line: "file_ok ss_store (''a'' @ [LF]) [message_entry 5 (ChatMessage_user ''hi'')]"
    by (rule file_ok_line [OF ss_store_ok(1)]) code_simp
  have l: "ss_to_string ss_store (message_entry 7 (ChatMessage_user ''sum'')) = Inr ''c''"
    "ss_from_str ss_store (''x'' @ ''c'') = None" "plain_line ''x''" "trim_str ''x'' \<noteq> []"
    by code_simp+
  show ?thesis
    using torn_line_swallows_next_message [OF ss_store_ok(1,2) ss_session_path _ line l(3,4,1,2),
        of "\<lambda>p. if p = ss_file then Some (''a'' @ [LF] @ ''x'') else None" "[]"]
    by (simp add: serialisable_def entry_messages_def map_filter_simps message_entry_def)
qed

text \<open>Archiving moves an expired transcript with its text unchanged and leaves every other file
  alone, but it overwrites: when the archive already holds a file of that agent and peer, from an
  earlier expiry of the same session, that earlier text is gone from the archive, although files
  are said to be moved and never deleted.\<close>

theorem archive_replaces_earlier_archive:
  assumes "ss_faults store = (\<lambda>_. None)" and "ttl_days \<noteq> 0" and "has_jsonl_extension name"
    and "path = path_components (path_join (agent_sessions_dir store agent) name)"
    and "dest = path_components (path_join (path_join (path_join (path_join archive_dir ''agents'') agent) ''sessions'') name)"
    and "fs path = Some c" and "last_entry_timestamp store path fs = Some ts"
    and "ts < now - min (ttl_days * 86400) (2 ^ 64 - 1)"
  shows "archive_expired store now [(agent, [name])] ttl_days archive_dir fs = ([dest], (fs(path := None))(dest \<mapsto> c))"
  using assms by (simp add: archive_expired_def archive_file_def Let_def fs_create_dir_all_def fs_rename_def)

theorem archive_replaces_earlier_archive_witness:
  "snd (archive_expired ss_store 200000 [(''main'', [''42.jsonl''])] 1 ''/ar''
     (\<lambda>p. if p = ss_file then Some (''a'' @ [LF])
          else if p = path_components ''/ar/agents/main/sessions/42.jsonl'' then Some ''old'' else None))
     (path_components ''/ar/agents/main/sessions/42.jsonl'') = Some (''a'' @ [LF])"
proof -
  let ?fs = "\<lambda>p. if p = ss_file then Some (''a'' @ [LF])
          else if p = path_components ''/ar/agents/main/sessions/42.jsonl'' then Some ''old'' else None"
  have h: "has_jsonl_extension ''42.jsonl''"
    "ss_file = path_components (path_join (agent_sessions_dir ss_store ''main'') ''42.jsonl'')"
    "path_components ''/ar/agents/main/sessions/42.jsonl'' =
       path_components (path_join (path_join (path_join (path_join ''/ar'' ''agents'') ''main'') ''sessions'') ''42.jsonl'')"
    "last_entry_timestamp ss_store ss_file ?fs = Some 5"
    by code_simp+
  show ?thesis
    using archive_replaces_earlier_archive [OF ss_store_ok(2) _ h(1-3), of 1 ?fs "''a'' @ [LF]" 5 200000] h(4) by simp
qed

end
