(* ===== verification/Fs_Tools.thy ===== *)
theory Fs_Tools
  imports Tool_Policy File_Store
begin

text \<open>
  The file tools (\<^verbatim>\<open>legion-tools/src/tools/fs.rs\<close>): resolution of a path against the workspace,
  and the \<open>read\<close>, \<open>write\<close>, \<open>edit\<close> and \<open>apply_patch\<close> tools with the unified-diff
  interpreter. The operating system's view of a path is a parameter: \<open>canonicalize\<close> (defined on
  existing files) and \<open>os_path\<close> (the file that an open of the path reaches, links followed).
  \<open>dbg\<close> is the \<open>Debug\<close> form of a string.
\<close>

subsection \<open>Parameters\<close>

definition trim_matches :: "char \<Rightarrow> string \<Rightarrow> string" where
  "trim_matches c s = rev (dropWhile (\<lambda>d. d = c) (rev (dropWhile (\<lambda>d. d = c) s)))"

definition param_str :: "json \<Rightarrow> string \<Rightarrow> string option" where
  "param_str params key = Option.bind (json_get params key) json_as_str"

definition missing_param :: "string \<Rightarrow> ToolError" where
  "missing_param key = InvalidParams (''missing '' @ quoted key @ '' parameter'')"

subsection \<open>Path resolution\<close>

definition resolve_tool_path ::
  "(string \<Rightarrow> string option) \<Rightarrow> string \<Rightarrow> string \<Rightarrow> bool \<Rightarrow> (ToolError, string) result" where
  "resolve_tool_path canonicalize workspace path workspace_only =
     (if workspace_only \<and> ParentDir \<in> set (path_components path)
      then Inl (Execution (''paths containing '' @ quoted ''..'' @ '' are not allowed''))
      else
        let resolved = (if is_absolute path then path else path_join workspace path)
        in if workspace_only \<and>
             \<not> prefix (path_components (unwrap_or (canonicalize workspace) workspace))
                 (path_components (unwrap_or (canonicalize resolved) resolved))
           then Inl (Execution ''absolute paths outside the workspace are not allowed'')
           else Inr resolved)"

subsection \<open>The tools\<close>

text \<open>The operating system a tool sees and the policy it runs under.\<close>

record fs_env =
  fe_canonicalize :: "string \<Rightarrow> string option"
  fe_os_path :: "string \<Rightarrow> path"
  fe_faults :: faults
  fe_workspace :: string
  fe_workspace_only :: bool

definition io_failed :: "string \<Rightarrow> string \<Rightarrow> io_error \<Rightarrow> ToolError" where
  "io_failed what resolved e = Execution (what @ quoted resolved @ '': '' @
     (case e of InvalidData m \<Rightarrow> m | OsError m \<Rightarrow> m))"

definition read_file :: "fs_env \<Rightarrow> string \<Rightarrow> files \<Rightarrow> (ToolError, string) result" where
  "read_file env resolved fs =
     (case fs_read (fe_faults env) (fe_os_path env resolved) fs of
        Inl e \<Rightarrow> Inl (io_failed ''failed to read '' resolved e)
      | Inr content \<Rightarrow> Inr content)"

definition write_file :: "fs_env \<Rightarrow> string \<Rightarrow> string \<Rightarrow> string \<Rightarrow> files \<Rightarrow> (ToolError, ToolResult) result \<times> files" where
  "write_file env done_text resolved content fs =
     (case fs_write (fe_faults env) (fe_os_path env resolved) content fs of
        (Inl e, fs') \<Rightarrow> (Inl (io_failed ''failed to write '' resolved e), fs')
      | (Inr _, fs') \<Rightarrow> (Inr (ToolResult_ok (done_text @ resolved)), fs'))"

definition resolve_in :: "fs_env \<Rightarrow> string \<Rightarrow> (ToolError, string) result" where
  "resolve_in env path = resolve_tool_path (fe_canonicalize env) (fe_workspace env) path (fe_workspace_only env)"

text \<open>\<open>usize\<close> is 64 bits wide. \<open>viewed\<close> is the sink of files read.\<close>

definition line_range :: "nat option \<Rightarrow> nat option \<Rightarrow> string \<Rightarrow> string" where
  "line_range start_line end_line content =
     (case (start_line, end_line) of
        (None, None) \<Rightarrow> content
      | _ \<Rightarrow>
          let first = unwrap_or start_line 1 - 1; final = unwrap_or end_line (2 ^ 64 - 1) - 1
          in join_with [LF] (map snd (filter (\<lambda>(idx, _). first \<le> idx \<and> idx \<le> final)
               (enumerate 0 (str_lines content)))))"

definition ReadTool_execute ::
  "fs_env \<Rightarrow> json \<Rightarrow> files \<Rightarrow> string set option \<Rightarrow> (ToolError, ToolResult) result \<times> string set option" where
  "ReadTool_execute env params fs viewed =
     (case param_str params ''path'' of
        None \<Rightarrow> (Inl (missing_param ''path''), viewed)
      | Some path \<Rightarrow>
          (case resolve_in env path of
             Inl e \<Rightarrow> (Inl e, viewed)
           | Inr resolved \<Rightarrow>
               (case read_file env resolved fs of
                  Inl e \<Rightarrow> (Inl e, viewed)
                | Inr content \<Rightarrow>
                    (Inr (ToolResult_ok (line_range
                       (Option.bind (json_get params ''start_line'') json_as_u64)
                       (Option.bind (json_get params ''end_line'') json_as_u64) content)),
                     map_option (insert resolved) viewed))))"

definition WriteTool_execute :: "fs_env \<Rightarrow> json \<Rightarrow> files \<Rightarrow> (ToolError, ToolResult) result \<times> files" where
  "WriteTool_execute env params fs =
     (case param_str params ''path'' of
        None \<Rightarrow> (Inl (missing_param ''path''), fs)
      | Some path \<Rightarrow>
          (case param_str params ''content'' of
             None \<Rightarrow> (Inl (missing_param ''content''), fs)
           | Some content \<Rightarrow>
               (case resolve_in env path of
                  Inl e \<Rightarrow> (Inl e, fs)
                | Inr resolved \<Rightarrow>
                    (case (if fe_os_path env resolved \<in> {[], [RootDir]} then Inr ()
                           else fs_create_dir_all (fe_faults env) (butlast (fe_os_path env resolved))) of
                       Inl e \<Rightarrow> (Inl (io_failed ''failed to create parent directories for '' resolved e), fs)
                     | Inr _ \<Rightarrow> write_file env ''wrote '' resolved content fs))))"

definition EditTool_validate_input :: "json \<Rightarrow> (ToolError, unit) result" where
  "EditTool_validate_input input =
     (if unwrap_or (param_str input ''old_string'') [] = unwrap_or (param_str input ''new_string'') []
      then Inl (InvalidParams ''old_string and new_string are identical; nothing to replace'')
      else Inr ())"

text \<open>\<open>str::replacen(old, new, 1)\<close>.\<close>

definition replace_first :: "string \<Rightarrow> string \<Rightarrow> string \<Rightarrow> string" where
  "replace_first old new s =
     (case find_str old s of
        None \<Rightarrow> s
      | Some i \<Rightarrow> take i s @ new @ drop (i + length old) s)"

definition EditTool_execute :: "fs_env \<Rightarrow> json \<Rightarrow> files \<Rightarrow> (ToolError, ToolResult) result \<times> files" where
  "EditTool_execute env params fs =
     (case param_str params ''path'' of
        None \<Rightarrow> (Inl (missing_param ''path''), fs)
      | Some path \<Rightarrow>
          (case (param_str params ''old_string'', param_str params ''new_string'') of
             (None, _) \<Rightarrow> (Inl (missing_param ''old_string''), fs)
           | (_, None) \<Rightarrow> (Inl (missing_param ''new_string''), fs)
           | (Some old_string, Some new_string) \<Rightarrow>
               (case resolve_in env path of
                  Inl e \<Rightarrow> (Inl e, fs)
                | Inr resolved \<Rightarrow>
                    (case read_file env resolved fs of
                       Inl e \<Rightarrow> (Inl e, fs)
                     | Inr content \<Rightarrow>
                         if \<not> contains_str content old_string
                         then (Inl (Execution ''old_string was not found in the file''), fs)
                         else write_file env ''edited '' resolved (replace_first old_string new_string content) fs))))"

subsection \<open>The unified-diff interpreter\<close>

text \<open>Splitting a line after its first byte panics when the line starts with a multi-byte
  character.\<close>

datatype diff_error = DiffErr string | DiffPanic

definition hunk_start :: "string \<Rightarrow> (diff_error, nat) result" where
  "hunk_start raw_line =
     (let inner = trim_str (trim_matches (CHR ''@'') raw_line); parts = split_whitespace inner
      in if length parts < 2 then Inl (DiffErr ''malformed hunk header'')
         else case parse_usize (hd (split_on (CHR '','') (parts ! 1))) of
                None \<Rightarrow> Inl (DiffErr ''invalid hunk start'')
              | Some n \<Rightarrow> Inr n)"

text \<open>One line of a hunk: the next line index and the lines it adds to the result.\<close>

definition hunk_line ::
  "(string \<Rightarrow> string) \<Rightarrow> string list \<Rightarrow> nat \<Rightarrow> string \<Rightarrow> (diff_error, nat \<times> string list) result" where
  "hunk_line dbg file_lines idx raw_line =
     (case raw_line of
        [] \<Rightarrow> Inr (if idx < length file_lines then (idx + 1, [file_lines ! idx]) else (idx, []))
      | marker # rest \<Rightarrow>
          if marker = CHR '' '' then
            (if length file_lines \<le> idx then Inl (DiffErr (''context line exceeds file length: '' @ rest))
             else if file_lines ! idx \<noteq> rest then
               Inl (DiffErr (''context mismatch at line '' @ show_nat (idx + 1) @ '': expected '' @ dbg rest @
                 '', got '' @ dbg (file_lines ! idx)))
             else Inr (idx + 1, [file_lines ! idx]))
          else if marker = CHR ''-'' then
            (if length file_lines \<le> idx then Inl (DiffErr (''removal line exceeds file length: '' @ rest))
             else if file_lines ! idx \<noteq> rest then
               Inl (DiffErr (''removal mismatch at line '' @ show_nat (idx + 1) @ '': expected '' @ dbg rest @
                 '', got '' @ dbg (file_lines ! idx)))
             else Inr (idx + 1, []))
          else if marker = CHR ''+'' then Inr (idx, [rest])
          else if marker = CHR 0x5C then Inr (idx, [])
          else if 128 \<le> (of_char marker :: nat) then Inl DiffPanic
          else Inl (DiffErr (''unknown diff marker: '' @ [marker])))"

definition is_hunk_header :: "string \<Rightarrow> bool" where
  "is_hunk_header raw_line \<longleftrightarrow> prefix ''@@'' raw_line \<and> suffix ''@@'' raw_line"

fun diff_loop ::
  "(string \<Rightarrow> string) \<Rightarrow> string list \<Rightarrow> bool \<Rightarrow> nat \<Rightarrow> string list \<Rightarrow> string list \<Rightarrow>
   (diff_error, nat \<times> string list) result" where
  "diff_loop dbg file_lines in_hunk idx result [] = Inr (idx, result)"
| "diff_loop dbg file_lines in_hunk idx result (raw_line # diff) =
     (if prefix ''---'' raw_line \<or> prefix ''+++'' raw_line
      then diff_loop dbg file_lines in_hunk idx result diff
      else if is_hunk_header raw_line
      then bind_result (hunk_start raw_line) (\<lambda>start. diff_loop dbg file_lines True (start - 1) result diff)
      else if \<not> in_hunk then diff_loop dbg file_lines in_hunk idx result diff
      else bind_result (hunk_line dbg file_lines idx raw_line)
        (\<lambda>(idx', added). diff_loop dbg file_lines in_hunk idx' (result @ added) diff))"

definition apply_unified_diff :: "(string \<Rightarrow> string) \<Rightarrow> string \<Rightarrow> string \<Rightarrow> (diff_error, string) result" where
  "apply_unified_diff dbg content diff =
     (let file_lines = str_lines content
      in bind_result (diff_loop dbg file_lines False 0 [] (str_lines diff))
           (\<lambda>(idx, result). Inr (join_with [LF] (result @ drop idx file_lines))))"

definition ApplyPatchTool_execute ::
  "(string \<Rightarrow> string) \<Rightarrow> fs_env \<Rightarrow> json \<Rightarrow> files \<Rightarrow> ((ToolError, ToolResult) result \<times> files) option" where
  "ApplyPatchTool_execute dbg env params fs =
     (case param_str params ''path'' of
        None \<Rightarrow> Some (Inl (missing_param ''path''), fs)
      | Some path \<Rightarrow>
          (case param_str params ''diff'' of
             None \<Rightarrow> Some (Inl (missing_param ''diff''), fs)
           | Some diff \<Rightarrow>
               (case resolve_in env path of
                  Inl e \<Rightarrow> Some (Inl e, fs)
                | Inr resolved \<Rightarrow>
                    (case read_file env resolved fs of
                       Inl e \<Rightarrow> Some (Inl e, fs)
                     | Inr content \<Rightarrow>
                         (case apply_unified_diff dbg content diff of
                            Inl DiffPanic \<Rightarrow> None
                          | Inl (DiffErr e) \<Rightarrow> Some (Inl (Execution e), fs)
                          | Inr new_content \<Rightarrow> Some (write_file env ''patched '' resolved new_content fs))))))"

subsection \<open>Facts\<close>

lemma split_by_free: "\<forall>c\<in>set p. \<not> P c \<Longrightarrow> split_by P p = [p]"
  by (induction p) auto

lemma split_by_append: "\<forall>c\<in>set p. \<not> P c \<Longrightarrow> P d \<Longrightarrow> split_by P (p @ d # s) = p # split_by P s"
  by (induction p) auto

subsubsection \<open>A reference meaning of a hunk\<close>

datatype hunk_op = Keep string | Remove string | Add string

fun render_op :: "hunk_op \<Rightarrow> string" where
  "render_op (Keep s) = CHR '' '' # s"
| "render_op (Remove s) = CHR ''-'' # s"
| "render_op (Add s) = CHR ''+'' # s"

fun old_side :: "hunk_op list \<Rightarrow> string list" where
  "old_side [] = []"
| "old_side (Keep s # ops) = s # old_side ops"
| "old_side (Remove s # ops) = s # old_side ops"
| "old_side (Add s # ops) = old_side ops"

fun new_side :: "hunk_op list \<Rightarrow> string list" where
  "new_side [] = []"
| "new_side (Keep s # ops) = s # new_side ops"
| "new_side (Remove s # ops) = new_side ops"
| "new_side (Add s # ops) = s # new_side ops"

text \<open>A line that the interpreter does not mistake for a file header.\<close>

definition op_ok :: "hunk_op \<Rightarrow> bool" where
  "op_ok op \<longleftrightarrow> plain_line (render_op op) \<and> \<not> prefix ''---'' (render_op op) \<and> \<not> prefix ''+++'' (render_op op)"

lemma op_not_header: "\<not> is_hunk_header (render_op op)"
  by (cases op) (simp_all add: is_hunk_header_def)

lemma diff_loop_hunk:
  "file_lines = pre @ old_side ops @ post \<Longrightarrow> \<forall>op\<in>set ops. op_ok op \<Longrightarrow>
   diff_loop dbg file_lines True (length pre) result (map render_op ops) =
     Inr (length pre + length (old_side ops), result @ new_side ops)"
proof (induction ops arbitrary: pre result rule: old_side.induct)
  case (2 s ops)
  have "file_lines = (pre @ [s]) @ old_side ops @ post" using 2 by simp
  with 2 have "diff_loop dbg file_lines True (length (pre @ [s])) (result @ [s]) (map render_op ops) =
      Inr (length (pre @ [s]) + length (old_side ops), (result @ [s]) @ new_side ops)" by (intro 2) auto
  with 2 show ?case using op_not_header [of "Keep s"]
    by (simp add: op_ok_def hunk_line_def nth_append)
next
  case (3 s ops)
  have "file_lines = (pre @ [s]) @ old_side ops @ post" using 3 by simp
  with 3 have "diff_loop dbg file_lines True (length (pre @ [s])) result (map render_op ops) =
      Inr (length (pre @ [s]) + length (old_side ops), result @ new_side ops)" by (intro 3) auto
  with 3 show ?case using op_not_header [of "Remove s"]
    by (simp add: op_ok_def hunk_line_def nth_append)
next
  case (4 s ops)
  then show ?case using op_not_header [of "Add s"] by (simp add: op_ok_def hunk_line_def)
qed simp

definition hunk_header :: "nat \<Rightarrow> nat \<Rightarrow> nat \<Rightarrow> nat \<Rightarrow> string" where
  "hunk_header a b c d = ''@@ -'' @ show_nat a @ '','' @ show_nat b @ '' +'' @ show_nat c @ '','' @ show_nat d @ '' @@''"

lemma digit_not_special:
  assumes "is_ascii_digit c"
  shows "\<not> is_whitespace c" "c \<noteq> CHR '',''" "c \<noteq> CHR ''@''" "c \<noteq> CHR ''+''" "c \<noteq> LF" "c \<noteq> CR"
  using assms by (auto simp: is_ascii_digit_def is_whitespace_def LF_def CR_def)

lemma show_nat_not_special:
  assumes "c \<in> set (show_nat n)"
  shows "\<not> is_whitespace c" "c \<noteq> CHR '',''" "c \<noteq> CHR ''@''" "c \<noteq> CHR ''+''" "c \<noteq> LF" "c \<noteq> CR"
  using digit_not_special [OF show_nat_digits [OF assms]] by blast+

lemma parse_plus_show: "n < 2 ^ 64 \<Longrightarrow> parse_usize (CHR ''+'' # show_nat n) = Some n"
  by (simp add: parse_usize_def list_all_iff show_nat_digits)

lemma dropWhile_hd: "xs \<noteq> [] \<Longrightarrow> \<not> P (hd xs) \<Longrightarrow> dropWhile P xs = xs"
  by (cases xs) auto

lemma hunk_start_header:
  assumes "c < 2 ^ 64"
  shows "hunk_start (hunk_header a b c d) = Inr c"
proof -
  let ?old = "CHR ''-'' # show_nat a @ '','' @ show_nat b"
  let ?new = "CHR ''+'' # show_nat c @ '','' @ show_nat d"
  have w: "\<forall>x\<in>set ?old. \<not> is_whitespace x" "\<forall>x\<in>set ?new. \<not> is_whitespace x"
    by (auto dest: show_nat_not_special simp: is_whitespace_def)
  have inner: "trim_matches (CHR ''@'') (hunk_header a b c d) = '' '' @ ?old @ '' '' @ ?new @ '' ''"
    by (simp add: trim_matches_def hunk_header_def)
  have sp: "is_whitespace (CHR '' '')" by (simp add: is_whitespace_def)
  have ends: "\<not> is_whitespace (CHR ''-'')" by (simp add: is_whitespace_def)
  have nw: "\<not> is_whitespace (last (show_nat d))"
    using show_nat_not_special(1) [of "last (show_nat d)" d] by simp
  have "trim_str ('' '' @ ?old @ '' '' @ ?new @ '' '') = ?old @ '' '' @ ?new"
  proof -
    have "trim_start ('' '' @ ?old @ '' '' @ ?new @ '' '') = ?old @ '' '' @ ?new @ '' ''"
      using sp ends by (simp add: trim_start_def)
    moreover have "trim_end ((?old @ '' '' @ ?new) @ '' '') = ?old @ '' '' @ ?new"
    proof -
      have "rev (?old @ '' '' @ ?new) \<noteq> []" "hd (rev (?old @ '' '' @ ?new)) = last (show_nat d)"
        by (simp_all add: hd_rev)
      with nw have "dropWhile is_whitespace (rev (?old @ '' '' @ ?new)) = rev (?old @ '' '' @ ?new)"
        by (intro dropWhile_hd) auto
      with sp show ?thesis by (simp add: trim_end_def)
    qed
    ultimately show ?thesis by (simp add: trim_str_def)
  qed
  moreover have "split_whitespace (?old @ '' '' @ ?new) = [?old, ?new]"
    using split_by_append [OF w(1) sp, of ?new] split_by_free [OF w(2)]
    by (simp add: split_whitespace_def)
  moreover have "split_on (CHR '','') ?new = [CHR ''+'' # show_nat c, show_nat d]"
  proof -
    have "CHR '','' \<notin> set (CHR ''+'' # show_nat c)" "CHR '','' \<notin> set (show_nat d)"
      using show_nat_not_special(2) by auto
    then show ?thesis using split_on_append [of "CHR '',''" "CHR ''+'' # show_nat c" "show_nat d"]
      by (simp add: split_on_free)
  qed
  ultimately show ?thesis
    using parse_plus_show [OF assms] inner by (simp add: hunk_start_def Let_def)
qed

lemma header_is_header: "is_hunk_header (hunk_header a b c d)" "plain_line (hunk_header a b c d)"
  "\<not> prefix ''---'' (hunk_header a b c d)" "\<not> prefix ''+++'' (hunk_header a b c d)"
proof -
  have "suffix ''@@'' (hunk_header a b c d)"
    unfolding hunk_header_def suffix_def
    by (rule exI [of _ "''@@ -'' @ show_nat a @ '','' @ show_nat b @ '' +'' @ show_nat c @ '','' @ show_nat d @ '' ''"]) simp
  then show "is_hunk_header (hunk_header a b c d)" by (simp add: is_hunk_header_def hunk_header_def)
  show "plain_line (hunk_header a b c d)"
    using show_nat_not_special(5,6) by (auto simp: plain_line_def hunk_header_def LF_def CR_def)
qed (simp_all add: hunk_header_def)

text \<open>What the interpreter makes of a file and a diff with one hunk that matches it.\<close>

lemma apply_single_hunk:
  assumes "\<forall>l\<in>set (pre @ old_side ops @ post). plain_line l" and "\<forall>op\<in>set ops. op_ok op"
    and "length pre + 1 < 2 ^ 64"
  shows "apply_unified_diff dbg (text_of (pre @ old_side ops @ post))
      (text_of (hunk_header a b (length pre + 1) d # map render_op ops)) =
    Inr (join_with [LF] (new_side ops @ post))"
proof -
  let ?file = "pre @ old_side ops @ post"
  have "\<forall>l\<in>set (hunk_header a b (length pre + 1) d # map render_op ops). plain_line l"
    using header_is_header(2) assms(2) by (auto simp: op_ok_def)
  note lines = str_lines_text_of [OF this] str_lines_text_of [OF assms(1)]
  have "diff_loop dbg ?file False 0 [] (hunk_header a b (length pre + 1) d # map render_op ops) =
      diff_loop dbg ?file True (length pre) [] (map render_op ops)"
    using header_is_header [of a b "length pre + 1" d] hunk_start_header [OF assms(3)] by simp
  also have "\<dots> = Inr (length pre + length (old_side ops), new_side ops)"
    using diff_loop_hunk [OF refl assms(2)] by simp
  finally have loop: "diff_loop dbg ?file False 0 [] (hunk_header a b (length pre + 1) d # map render_op ops) =
      Inr (length pre + length (old_side ops), new_side ops)" .
  show ?thesis unfolding apply_unified_diff_def lines Let_def loop by simp
qed

lemma join_longer:
  assumes "xs \<noteq> []" and "pre \<noteq> []"
  shows "length (join_with [LF] xs) < length (join_with [LF] (pre @ xs))"
  using assms
proof (induction pre)
  case (Cons p pre)
  then obtain y ys where "pre @ xs = y # ys" by (cases "pre @ xs") auto
  then have "length (join_with [LF] ((p # pre) @ xs)) = length p + 1 + length (join_with [LF] (pre @ xs))"
    by simp
  with Cons show ?case by (cases "pre = []") auto
qed simp

subsection \<open>Properties\<close>

text \<open>C40. Existing files outside the workspace are out of reach of a tool restricted to it: when path
  resolution accepts a path that names an existing file, the file that opening it reaches lies
  below the workspace, links followed, and a path with a \<open>..\<close> component is always refused.\<close>

theorem workspace_confines_existing_files:
  assumes "resolve_tool_path canonicalize workspace path True = r"
    and "\<And>p c. canonicalize p = Some c \<Longrightarrow> path_components c = os_path p"
    and "canonicalize workspace = Some ws"
  shows "(ParentDir \<in> set (path_components path) \<longrightarrow> (\<exists>e. r = Inl e)) \<and>
     (\<forall>resolved c. r = Inr resolved \<and> canonicalize resolved = Some c \<longrightarrow>
        prefix (os_path workspace) (os_path resolved))"
proof -
  have "prefix (os_path workspace) (os_path resolved)"
    if "r = Inr resolved" "canonicalize resolved = Some c" for resolved c
    using assms(1) that assms(2) [OF that(2)] assms(2) [OF assms(3)] assms(3)
    by (auto simp: resolve_tool_path_def Let_def split: if_splits)
  then show ?thesis using assms(1) by (auto simp: resolve_tool_path_def)
qed

definition demo_canon :: "string \<Rightarrow> string option" where
  "demo_canon p = (if p \<in> {''/ws'', ''/ws/a''} then Some p else if p = ''/ws/link'' then Some ''/etc'' else None)"

definition demo_os_path :: "string \<Rightarrow> path" where
  "demo_os_path p = (if p = ''/ws/link'' then [RootDir, Normal ''etc'']
     else if p = ''/ws/link/new'' then [RootDir, Normal ''etc'', Normal ''new''] else path_components p)"

lemma demo_canon_os: "demo_canon p = Some c \<Longrightarrow> path_components c = demo_os_path p"
proof -
  have "path_components ''/etc'' = [RootDir, Normal ''etc'']" by code_simp
  then show "demo_canon p = Some c \<Longrightarrow> path_components c = demo_os_path p"
    by (auto simp: demo_canon_def demo_os_path_def split: if_splits)
qed

theorem workspace_confines_existing_files_witness:
  "resolve_tool_path demo_canon ''/ws'' ''a'' True = Inr ''/ws/a'' \<and>
   prefix (demo_os_path ''/ws'') (demo_os_path ''/ws/a'') \<and>
   (\<exists>e. resolve_tool_path demo_canon ''/ws'' ''../x'' True = Inl e)"
proof -
  have r: "resolve_tool_path demo_canon ''/ws'' ''a'' True = Inr ''/ws/a''" by code_simp
  have d: "ParentDir \<in> set (path_components ''../x'')" by code_simp
  have ws: "demo_canon ''/ws'' = Some ''/ws''" "demo_canon ''/ws/a'' = Some ''/ws/a''" by (simp_all add: demo_canon_def)
  note conf = workspace_confines_existing_files [where canonicalize = demo_canon and workspace = "''/ws''"
      and os_path = demo_os_path, OF _ demo_canon_os ws(1)]
  from conf [OF r] conf [of "''../x''", OF refl] r ws(2) d show ?thesis by blast
qed

text \<open>The workspace restriction does not hold for files that do not exist yet: a path through a
  link inside the workspace that leads elsewhere is accepted when its last name is new, because
  canonicalization fails and the unresolved text is compared instead, and \<open>write\<close> creates the
  file behind the link.\<close>

theorem write_escapes_through_link:
  assumes "fe_workspace_only env" and "fe_canonicalize env (fe_workspace env) = Some (fe_workspace env)"
    and "param_str params ''path'' = Some path" and "param_str params ''content'' = Some content"
    and "\<not> is_absolute path" and "ParentDir \<notin> set (path_components path)"
    and "prefix (path_components (fe_workspace env)) (path_components (path_join (fe_workspace env) path))"
    and "fe_canonicalize env (path_join (fe_workspace env) path) = None"
    and "\<And>c. fe_faults env c = None"
  shows "snd (WriteTool_execute env params fs) (fe_os_path env (path_join (fe_workspace env) path)) = Some content \<and>
     (\<exists>res. fst (WriteTool_execute env params fs) = Inr res)"
  using assms
  by (simp add: WriteTool_execute_def resolve_in_def resolve_tool_path_def write_file_def fs_write_def
      fs_create_dir_all_def)

theorem write_escapes_through_link_witness:
  "let env = \<lparr>fe_canonicalize = demo_canon, fe_os_path = demo_os_path, fe_faults = (\<lambda>_. None),
         fe_workspace = ''/ws'', fe_workspace_only = True\<rparr>;
       params = JObject [(''path'', JString ''link/new''), (''content'', JString ''x'')]
   in snd (WriteTool_execute env params Map.empty) [RootDir, Normal ''etc'', Normal ''new''] = Some ''x''"
proof -
  let ?env = "\<lparr>fe_canonicalize = demo_canon, fe_os_path = demo_os_path, fe_faults = (\<lambda>_. None),
         fe_workspace = ''/ws'', fe_workspace_only = True\<rparr>"
  let ?params = "JObject [(''path'', JString ''link/new''), (''content'', JString ''x'')]"
  have "path_join ''/ws'' ''link/new'' = ''/ws/link/new''" "path_components ''link/new'' = [Normal ''link'', Normal ''new'']"
    "path_components ''/ws'' = [RootDir, Normal ''ws'']"
    "path_components ''/ws/link/new'' = [RootDir, Normal ''ws'', Normal ''link'', Normal ''new'']"
    by code_simp+
  with write_escapes_through_link [of ?env ?params "''link/new''" "''x''" Map.empty]
  show ?thesis by (simp add: demo_canon_def demo_os_path_def param_str_def is_absolute_def)
qed

text \<open>The edit tool replaces exactly the first occurrence: when it succeeds, the old text occurs
  in the file, and the file now holds what was before its first occurrence, the new text and
  what came after; when the old text does not occur, it reports an error and writes nothing.\<close>

theorem edit_replaces_first:
  assumes "EditTool_execute env params fs = (r, fs')"
    and "param_str params ''path'' = Some path" and "resolve_in env path = Inr resolved"
    and "param_str params ''old_string'' = Some old" and "param_str params ''new_string'' = Some new"
    and "fs_read (fe_faults env) (fe_os_path env resolved) fs = Inr content"
  shows "(\<forall>res. r = Inr res \<longrightarrow> (\<exists>before after. content = before @ old @ after \<and>
       fs' = fs(fe_os_path env resolved \<mapsto> before @ new @ after) \<and>
       (\<forall>k < length before. \<not> prefix old (drop k content)))) \<and>
     (\<not> sublist old content \<longrightarrow> (\<exists>e. r = Inl e) \<and> fs' = fs)"
proof (cases "find_str old content")
  case None
  then have "\<not> sublist old content" by (simp add: find_str_None_iff)
  with None assms show ?thesis
    by (auto simp: EditTool_execute_def read_file_def contains_str_def)
next
  case (Some i)
  then have at: "prefix old (drop i content)" "i + length old \<le> length content" by (auto dest: find_str_Some)
  have first: "\<not> prefix old (drop k content)" if "k < i" for k
    using Some that
  proof (induction old content arbitrary: i k rule: find_str.induct)
    case (2 p c s)
    then show ?case by (cases k) (auto split: if_splits)
  qed (auto split: if_splits)
  have split: "content = take i content @ old @ drop (i + length old) content"
    using at by (metis append_take_drop_id drop_drop add.commute prefix_def append_eq_conv_conj)
  have sub: "sublist old content" using split by (metis sublist_appendI)
  have "fs' = fs(fe_os_path env resolved \<mapsto> take i content @ new @ drop (i + length old) content)" if "r = Inr res" for res
    using assms that Some
    by (auto simp: EditTool_execute_def read_file_def contains_str_def write_file_def fs_write_def replace_first_def
        split: option.splits prod.splits)
  then have "\<exists>before after. content = before @ old @ after \<and> fs' = fs(fe_os_path env resolved \<mapsto> before @ new @ after) \<and>
      (\<forall>k < length before. \<not> prefix old (drop k content))" if "r = Inr res" for res
    using that split first at(2) by (intro exI [of _ "take i content"] exI [of _ "drop (i + length old) content"]) auto
  with sub show ?thesis by blast
qed

theorem edit_replaces_first_witness:
  "let env = \<lparr>fe_canonicalize = (\<lambda>_. None), fe_os_path = path_components, fe_faults = (\<lambda>_. None),
         fe_workspace = ''/ws'', fe_workspace_only = False\<rparr>;
       params = JObject [(''path'', JString ''/f''), (''old_string'', JString ''a''), (''new_string'', JString ''b'')]
   in snd (EditTool_execute env params [[RootDir, Normal ''f''] \<mapsto> ''xaxa'']) [RootDir, Normal ''f''] = Some ''xbxa''"
proof -
  let ?env = "\<lparr>fe_canonicalize = (\<lambda>_. None), fe_os_path = path_components, fe_faults = (\<lambda>_. None),
         fe_workspace = ''/ws'', fe_workspace_only = False\<rparr>"
  let ?params = "JObject [(''path'', JString ''/f''), (''old_string'', JString ''a''), (''new_string'', JString ''b'')]"
  let ?fs = "[[RootDir, Normal ''f''] \<mapsto> ''xaxa'']"
  have f: "path_components ''/f'' = [RootDir, Normal ''f'']" by code_simp
  obtain r fs' where run: "EditTool_execute ?env ?params ?fs = (r, fs')" by fastforce
  have ok: "\<exists>res. r = Inr res"
    using run f by (auto simp: EditTool_execute_def param_str_def resolve_in_def resolve_tool_path_def is_absolute_def
        read_file_def fs_read_def contains_str_def write_file_def fs_write_def)
  have pre: "param_str ?params ''path'' = Some ''/f''" "resolve_in ?env ''/f'' = Inr ''/f''"
    "param_str ?params ''old_string'' = Some ''a''" "param_str ?params ''new_string'' = Some ''b''"
    "fs_read (fe_faults ?env) (fe_os_path ?env ''/f'') ?fs = Inr ''xaxa''"
    using f by (simp_all add: param_str_def resolve_in_def resolve_tool_path_def is_absolute_def fs_read_def)
  from edit_replaces_first [OF run pre] ok obtain before after where ba: "''xaxa'' = before @ ''a'' @ after"
    "fs' = ?fs(fe_os_path ?env ''/f'' \<mapsto> before @ ''b'' @ after)" "\<forall>k < length before. \<not> prefix ''a'' (drop k ''xaxa'')"
    by blast
  have "\<not> 1 < length before" using ba(3) by auto
  with ba(1) have "before = ''x''" "after = ''xa''" by (auto simp: Cons_eq_append_conv)
  with ba(2) run f show ?thesis by simp
qed

text \<open>A patch whose only hunk matches the top of the file is applied as it reads: the lines it
  keeps and removes are replaced by the lines it keeps and adds, the rest of the file follows
  unchanged (without the final line feed).\<close>

theorem patch_at_top_applies:
  assumes "\<forall>l\<in>set (old_side ops @ post). plain_line l" and "\<forall>op\<in>set ops. op_ok op"
  shows "apply_unified_diff dbg (text_of (old_side ops @ post)) (text_of (hunk_header 1 b 1 d # map render_op ops)) =
    Inr (join_with [LF] (new_side ops @ post))"
  using apply_single_hunk [of "[]" ops post dbg 1 b d] assms by simp

theorem patch_at_top_applies_witness:
  "apply_unified_diff (\<lambda>s. s) (text_of [''one'', ''two'', ''three''])
     (text_of [hunk_header 1 2 1 2, '' one'', ''-two'', ''+TWO'']) = Inr (join_with [LF] [''one'', ''TWO'', ''three''])"
  using patch_at_top_applies [of "[Keep ''one'', Remove ''two'', Add ''TWO'']" "[''three'']" "\<lambda>s. s" 2 2]
  by (simp add: plain_line_def op_ok_def LF_def CR_def)

text \<open>A patch whose hunk starts further down deletes everything above it: for a correct hunk that
  matches the file after \<open>n\<close> lines, the tool reports success and the file loses its first \<open>n\<close>
  lines.\<close>

theorem patch_drops_preceding_lines:
  assumes "\<forall>l\<in>set (pre @ old_side ops @ post). plain_line l" and "\<forall>op\<in>set ops. op_ok op"
    and "length pre + 1 < 2 ^ 64" and "pre \<noteq> []" and "new_side ops @ post \<noteq> []"
  shows "apply_unified_diff dbg (text_of (pre @ old_side ops @ post))
      (text_of (hunk_header (length pre + 1) b (length pre + 1) d # map render_op ops)) =
    Inr (join_with [LF] (new_side ops @ post)) \<and>
    join_with [LF] (new_side ops @ post) \<noteq> join_with [LF] (pre @ new_side ops @ post)"
  using apply_single_hunk [OF assms(1-3)] join_longer [OF assms(5,4)] by auto

theorem patch_drops_preceding_lines_witness:
  "apply_unified_diff (\<lambda>s. s) (text_of [''one'', ''two'', ''three''])
     (text_of [hunk_header 2 1 2 1, ''-two'', ''+TWO'']) = Inr (join_with [LF] [''TWO'', ''three''])"
proof -
  let ?ops = "[Remove ''two'', Add ''TWO'']"
  have c: "\<forall>l\<in>set ([''one''] @ old_side ?ops @ [''three'']). plain_line l" "\<forall>op\<in>set ?ops. op_ok op"
    "length [''one''] + 1 < (2::nat) ^ 64" "[''one''] \<noteq> []" "new_side ?ops @ [''three''] \<noteq> []"
    by (simp_all add: plain_line_def op_ok_def LF_def CR_def)
  have e: "length [''one''] + 1 = (2::nat)" by simp
  from patch_drops_preceding_lines [OF c, where dbg = "\<lambda>s. s" and b = 1 and d = 1] show ?thesis
    unfolding e by simp
qed

end
