(* ===== verification/Session_Tools.thy ===== *)
theory Session_Tools
  imports Session_Store Fs_Tools "HOL-Library.Char_ord" "HOL-Library.List_Lexorder"
begin

text \<open>
  The read-only session tools (\<^verbatim>\<open>legion-host/src/session_tools.rs\<close>): \<open>session_status\<close>,
  \<open>sessions_list\<close> and \<open>sessions_history\<close>. \<open>render\<close> is the compact JSON text of a value;
  \<open>listing\<close> gives the names in the session directory of an agent. Object keys are in the sorted
  order the JSON library keeps.
\<close>

subsection \<open>Definitions\<close>

definition DEFAULT_LIST_LIMIT :: nat where
  "DEFAULT_LIST_LIMIT = 20"

definition MAX_LIST_LIMIT :: nat where
  "MAX_LIST_LIMIT = 100"

definition DEFAULT_HISTORY_LIMIT :: nat where
  "DEFAULT_HISTORY_LIMIT = 50"

definition MAX_HISTORY_LIMIT :: nat where
  "MAX_HISTORY_LIMIT = 200"

definition MAX_MESSAGE_CHARS :: nat where
  "MAX_MESSAGE_CHARS = 2000"

definition parse_agent_and_peer :: "string \<Rightarrow> (string \<times> string) option" where
  "parse_agent_and_peer session_key =
     map_option (\<lambda>parts. (sk_agent_id parts, sk_peer_id parts)) (parse_session_key session_key)"

definition is_safe_peer_id :: "string \<Rightarrow> bool" where
  "is_safe_peer_id peer_id = is_safe_segment peer_id"

definition usize_param :: "json \<Rightarrow> string \<Rightarrow> nat \<Rightarrow> nat \<Rightarrow> nat" where
  "usize_param params key dflt mx =
     (case Option.bind (json_get params key) json_as_u64 of Some v \<Rightarrow> min v mx | None \<Rightarrow> min dflt mx)"

fun role_str :: "ChatRole \<Rightarrow> string" where
  "role_str System = ''system''"
| "role_str User = ''user''"
| "role_str Assistant = ''assistant''"
| "role_str Tool = ''tool''"

definition json_nat :: "nat \<Rightarrow> json" where
  "json_nat n = JNum (show_nat n)"

definition json_option :: "('a \<Rightarrow> json) \<Rightarrow> 'a option \<Rightarrow> json" where
  "json_option f v = (case v of None \<Rightarrow> JNull | Some x \<Rightarrow> f x)"

definition stats_json :: "string \<Rightarrow> string \<Rightarrow> string \<Rightarrow> SessionStats \<Rightarrow> json" where
  "stats_json session_id agent_id peer_id stats = JObject
     [(''agentId'', JString agent_id), (''assistantMessages'', json_nat (sa_assistant_messages stats)),
      (''boundaryMarks'', json_nat (sa_boundary_marks stats)), (''entries'', json_nat (sa_entries stats)),
      (''fileBytes'', json_nat (sa_file_bytes stats)), (''lastTimestamp'', json_option json_nat (sa_last_timestamp stats)),
      (''peerId'', JString peer_id), (''sessionKey'', JString session_id),
      (''systemMessages'', json_nat (sa_system_messages stats)), (''toolMessages'', json_nat (sa_tool_messages stats)),
      (''userMessages'', json_nat (sa_user_messages stats))]"

definition session_status_execute ::
  "SessionStore \<Rightarrow> (json \<Rightarrow> string) \<Rightarrow> ToolContext \<Rightarrow> files \<Rightarrow> (ToolError, ToolResult) result" where
  "session_status_execute store render ctx fs =
     (case parse_agent_and_peer (tx_session_id ctx) of
        None \<Rightarrow> Inr (ToolResult_error (''invalid session key: '' @ tx_session_id ctx))
      | Some (agent_id, peer_id) \<Rightarrow>
          if agent_id \<noteq> tx_agent_id ctx then Inr (ToolResult_error ''cross-agent session access denied'')
          else case session_stats store (tx_session_id ctx) fs of
                 None \<Rightarrow> Inr (ToolResult_error (''session transcript not found: '' @ tx_session_id ctx))
               | Some stats \<Rightarrow> Inr (ToolResult_ok (render (stats_json (tx_session_id ctx) agent_id peer_id stats))))"

definition summary_json :: "SessionSummary \<Rightarrow> json" where
  "summary_json s = JObject [(''firstPrompt'', json_option JString (sy_first_prompt s)),
     (''peerId'', JString (sy_peer_id s)), (''truncated'', JBool (sy_truncated s))]"

definition sessions_list_execute ::
  "SessionStore \<Rightarrow> (json \<Rightarrow> string) \<Rightarrow> (string \<Rightarrow> string list option) \<Rightarrow> nat \<Rightarrow> json \<Rightarrow> ToolContext \<Rightarrow> files \<Rightarrow>
     (ToolError, ToolResult) result" where
  "sessions_list_execute store render listing lite_read_buffer_bytes params ctx fs =
     (let limit = usize_param params ''limit'' DEFAULT_LIST_LIMIT MAX_LIST_LIMIT;
          summaries = list_session_summaries store (listing (tx_agent_id ctx)) (tx_agent_id ctx) lite_read_buffer_bytes fs
      in Inr (ToolResult_ok (render (JArray (map summary_json (take limit (sort_key sy_peer_id summaries)))))))"

definition history_json :: "ChatMessage \<Rightarrow> json" where
  "history_json m = JObject [(''content'', JString (take_chars MAX_MESSAGE_CHARS (cm_content m))),
     (''hasToolCalls'', JBool (case cm_tool_calls m of None \<Rightarrow> False | Some tc \<Rightarrow> tc \<noteq> [])),
     (''role'', JString (role_str (cm_role m)))]"

definition history_page :: "nat \<Rightarrow> nat \<Rightarrow> ChatMessage list \<Rightarrow> ChatMessage list" where
  "history_page offset limit messages = take limit (drop offset messages)"

definition sessions_history_execute ::
  "SessionStore \<Rightarrow> (json \<Rightarrow> string) \<Rightarrow> json \<Rightarrow> ToolContext \<Rightarrow> files \<Rightarrow> (ToolError, ToolResult) result" where
  "sessions_history_execute store render params ctx fs =
     (let peer = (case Option.bind (json_get params ''peerId'') json_as_str of
                    Some peer \<Rightarrow> Some peer
                  | None \<Rightarrow> map_option snd (parse_agent_and_peer (tx_session_id ctx)))
      in case peer of
           None \<Rightarrow> Inr (ToolResult_error (''invalid session key: '' @ tx_session_id ctx))
         | Some peer_id \<Rightarrow>
             if \<not> is_safe_peer_id peer_id
             then Inr (ToolResult_error (''invalid peerId: '' @ peer_id @ '' (allowed: letters, digits, '' @
                    quoted ''.'' @ '', '' @ quoted ''_'' @ '', '' @ quoted ''-'' @ '')''))
             else
               let offset = usize_param params ''offset'' 0 (2 ^ 64 - 1);
                   limit = usize_param params ''limit'' DEFAULT_HISTORY_LIMIT MAX_HISTORY_LIMIT
               in case transcript_messages store (tx_agent_id ctx) peer_id fs of
                    None \<Rightarrow> Inr (ToolResult_error (''session transcript not found for peer: '' @ peer_id))
                  | Some messages \<Rightarrow>
                      Inr (ToolResult_ok (render (JObject
                        [(''messages'', JArray (map history_json (history_page offset limit messages))),
                         (''offset'', json_nat offset), (''peerId'', JString peer_id),
                         (''total'', json_nat (length messages))]))))"

subsection \<open>Facts\<close>

definition agent_files :: "SessionStore \<Rightarrow> string \<Rightarrow> path set" where
  "agent_files store agent =
     {path_components (ss_base_dir store) @ [Normal ''agents'', Normal agent, Normal ''sessions'', Normal name] | name. True}"

definition agree_on :: "path set \<Rightarrow> files \<Rightarrow> files \<Rightarrow> bool" where
  "agree_on ps fs1 fs2 \<longleftrightarrow> (\<forall>p\<in>ps. fs1 p = fs2 p)"

lemma fs_read_agree: "fs1 p = fs2 p \<Longrightarrow> fs_read faults p fs1 = fs_read faults p fs2"
  by (simp only: fs_read_def)

lemma load_entries_agree: "fs1 p = fs2 p \<Longrightarrow> load_entries store p fs1 = load_entries store p fs2"
  using fs_read_agree [of fs1 p fs2] by (simp only: load_entries_def)

lemma stats_agree:
  assumes "session_path store key = Some p" and "fs1 p = fs2 p"
  shows "session_stats store key fs1 = session_stats store key fs2"
  by (simp only: session_stats_def assms option.case load_entries_agree [of fs1 p fs2, OF assms(2)])

lemma messages_agree:
  assumes "fs1 (transcript_path store agent peer) = fs2 (transcript_path store agent peer)"
  shows "transcript_messages store agent peer fs1 = transcript_messages store agent peer fs2"
  by (simp only: transcript_messages_def Let_def assms load_entries_agree [of fs1 _ fs2, OF assms])

lemma agent_file:
  assumes "ss_base_dir store \<noteq> []" and "is_safe_segment agent" and "agent \<notin> {''.'', ''..''}"
    and "agree_on (agent_files store agent) fs1 fs2" and "CHR ''/'' \<notin> set peer"
  shows "fs1 (transcript_path store agent peer) = fs2 (transcript_path store agent peer)"
  using assms transcript_path_eq [OF assms(1-3,5)] by (auto simp: agree_on_def agent_files_def)

lemma strip_suffix_set: "strip_suffix suf s = Some r \<Longrightarrow> set r \<subseteq> set s"
  by (auto simp: strip_suffix_def dest: in_set_takeD split: if_splits)

lemma map_filter_cong_set: "(\<And>x. x \<in> set xs \<Longrightarrow> f x = g x) \<Longrightarrow> List.map_filter f xs = List.map_filter g xs"
  by (simp add: List.map_filter_def cong: filter_cong map_cong)

lemma list_sessions_slash:
  assumes "\<forall>names. listing = Some names \<longrightarrow> (\<forall>n\<in>set names. CHR ''/'' \<notin> set n)" and "peer \<in> set (list_sessions listing)"
  shows "CHR ''/'' \<notin> set peer"
  using assms strip_suffix_set
  by (fastforce simp: list_sessions_def List.map_filter_def split: option.splits)

subsection \<open>Properties\<close>

text \<open>The session tools are confined to the calling agent: if two states of the file system agree on
  the files in the session directory of the calling agent, each of the three tools gives the same
  answer in both, whatever its parameters; nothing of another agent's transcripts, or of any other
  file, reaches the result. Directory entries are names without a separator.\<close>

theorem session_tools_confined:
  assumes "ss_base_dir store \<noteq> []" and "is_safe_segment (tx_agent_id ctx)" and "tx_agent_id ctx \<notin> {''.'', ''..''}"
    and "\<forall>names. listing (tx_agent_id ctx) = Some names \<longrightarrow> (\<forall>n\<in>set names. CHR ''/'' \<notin> set n)"
    and "agree_on (agent_files store (tx_agent_id ctx)) fs1 fs2"
  shows "session_status_execute store render ctx fs1 = session_status_execute store render ctx fs2 \<and>
     sessions_list_execute store render listing n params ctx fs1 = sessions_list_execute store render listing n params ctx fs2 \<and>
     sessions_history_execute store render params ctx fs1 = sessions_history_execute store render params ctx fs2"
proof (intro conjI)
  note same = agent_file [OF assms(1-3,5)]
  show "session_status_execute store render ctx fs1 = session_status_execute store render ctx fs2"
  proof (cases "parse_session_key (tx_session_id ctx)")
    case (Some parts)
    have "session_stats store (tx_session_id ctx) fs1 = session_stats store (tx_session_id ctx) fs2"
      if agent: "sk_agent_id parts = tx_agent_id ctx"
    proof (cases "session_path store (tx_session_id ctx)")
      case (Some p)
      with \<open>parse_session_key (tx_session_id ctx) = Some parts\<close> agent
      have "p = transcript_path store (tx_agent_id ctx) (sk_peer_id parts)" "is_safe_segment (sk_peer_id parts)"
        by (auto elim: session_path_SomeD)
      then have "fs1 p = fs2 p" using same [OF safe_no_slash, of "sk_peer_id parts"] by (simp only:)
      then show ?thesis by (rule stats_agree [OF Some])
    qed (simp add: session_stats_def)
    with Some show ?thesis by (auto simp: session_status_execute_def parse_agent_and_peer_def)
  qed (simp add: session_status_execute_def parse_agent_and_peer_def)
  have "lite_read store (tx_agent_id ctx) peer n fs1 = lite_read store (tx_agent_id ctx) peer n fs2"
    if "peer \<in> set (list_sessions (listing (tx_agent_id ctx)))" for peer
    using fs_read_agree [of fs1 "transcript_path store (tx_agent_id ctx) peer" fs2]
      same [OF list_sessions_slash [OF assms(4) that]] by (simp only: lite_read_def)
  then have "list_session_summaries store (listing (tx_agent_id ctx)) (tx_agent_id ctx) n fs1 =
      list_session_summaries store (listing (tx_agent_id ctx)) (tx_agent_id ctx) n fs2"
    unfolding list_session_summaries_def by (rule map_filter_cong_set)
  then show "sessions_list_execute store render listing n params ctx fs1 = sessions_list_execute store render listing n params ctx fs2"
    by (simp add: sessions_list_execute_def)
  have "transcript_messages store (tx_agent_id ctx) peer fs1 = transcript_messages store (tx_agent_id ctx) peer fs2"
    if "is_safe_peer_id peer" for peer
    using that by (intro messages_agree same safe_no_slash) (simp add: is_safe_peer_id_def)
  then show "sessions_history_execute store render params ctx fs1 = sessions_history_execute store render params ctx fs2"
    by (simp add: sessions_history_execute_def Let_def split: option.split)
qed

definition st_ctx :: ToolContext where
  "st_ctx = \<lparr>tx_workspace = ''/w'', tx_session_id = ss_key, tx_agent_id = ''main'', tx_sender = None, tx_memory = None,
     tx_viewed_files = None, tx_allowed_tools = None, tx_spawner = None, tx_messenger = None, tx_swarm = None,
     tx_depth = 0, tx_parent_history = None, tx_question_gate = None, tx_todo_store = None,
     tx_background_tasks = None, tx_plan_mode_tracker = None\<rparr>"

theorem session_tools_confined_witness:
  "sessions_history_execute ss_store (\<lambda>_. []) (JObject [(''peerId'', JString ''42'')]) st_ctx
     [path_components ''/l/agents/ops/sessions/42.jsonl'' \<mapsto> ''a'' @ [LF]] =
   sessions_history_execute ss_store (\<lambda>_. []) (JObject [(''peerId'', JString ''42'')]) st_ctx (\<lambda>_. None)"
proof -
  have "path_components ''/l/agents/ops/sessions/42.jsonl'' =
      [RootDir, Normal ''l'', Normal ''agents'', Normal ''ops'', Normal ''sessions'', Normal ''42.jsonl'']"
    "path_components ''/l'' = [RootDir, Normal ''l'']" "is_safe_segment ''main''"
    by code_simp+
  then show ?thesis
    using session_tools_confined [of ss_store st_ctx "\<lambda>_. None" "[path_components ''/l/agents/ops/sessions/42.jsonl'' \<mapsto> ''a'' @ [LF]]"
        "\<lambda>_. None" "\<lambda>_. []" 0 "JObject [(''peerId'', JString ''42'')]"]
    by (simp add: st_ctx_def ss_store_ok(3) agree_on_def agent_files_def)
qed

end
