(* ===== verification/Session_Repair.thy ===== *)
theory Session_Repair
  imports Chat_Types
begin

text \<open>
  Repair of a resumed transcript (\<^verbatim>\<open>legion-host/src/session/repair.rs\<close>): the consistency check and
  the repair of tool calls without results and of results without calls. The loop of the repair,
  which walks an index over the list it edits, is recursion on the messages from that index on.
\<close>

subsection \<open>Definitions\<close>

datatype OrphanPolicy = DropOrphan | Synthesize

definition INTERRUPTED_PLACEHOLDER :: string where
  "INTERRUPTED_PLACEHOLDER = ''[interrupted]''"

record ConsistencyReport =
  cr_orphan_tool_uses :: nat
  cr_orphan_tool_results :: nat
  cr_empty_assistant :: nat
  cr_drift :: "string list"

definition default_ConsistencyReport :: ConsistencyReport where
  "default_ConsistencyReport = \<lparr>cr_orphan_tool_uses = 0, cr_orphan_tool_results = 0, cr_empty_assistant = 0, cr_drift = []\<rparr>"

definition is_clean :: "ConsistencyReport \<Rightarrow> bool" where
  "is_clean r \<longleftrightarrow> cr_orphan_tool_uses r = 0 \<and> cr_orphan_tool_results r = 0 \<and> cr_empty_assistant r = 0 \<and> cr_drift r = []"

abbreviation is_tool :: "ChatMessage \<Rightarrow> bool" where
  "is_tool m \<equiv> cm_role m = Tool"

abbreviation empty_drift :: string where
  "empty_drift \<equiv> ''assistant message with neither content nor tool calls''"

definition message_calls :: "ChatMessage \<Rightarrow> ProviderToolCall list" where
  "message_calls m = (if cm_role m = Assistant then unwrap_or (cm_tool_calls m) [] else [])"

definition collect_tool_use_ids :: "ChatMessage list \<Rightarrow> string set" where
  "collect_tool_use_ids msgs = set (map ptc_id (concat (map message_calls msgs)))"

definition add_drift :: "string \<Rightarrow> ConsistencyReport \<Rightarrow> ConsistencyReport" where
  "add_drift d r = r\<lparr>cr_drift := cr_drift r @ [d]\<rparr>"

definition result_id :: "ChatMessage \<Rightarrow> string" where
  "result_id m = unwrap_or (cm_tool_call_id m) []"

definition result_ids :: "ChatMessage list \<Rightarrow> string set" where
  "result_ids msgs = set (List.map_filter (\<lambda>m. if is_tool m then cm_tool_call_id m else None) msgs)"

definition check_calls :: "string set \<Rightarrow> ProviderToolCall list \<Rightarrow> ConsistencyReport \<Rightarrow> ConsistencyReport" where
  "check_calls answered calls r =
     foldl (\<lambda>r call. if ptc_id call \<notin> answered
         then add_drift (''tool_use '' @ ptc_id call @ '' has no tool_result'')
           (r\<lparr>cr_orphan_tool_uses := cr_orphan_tool_uses r + 1\<rparr>)
         else r) r calls"

definition check_message ::
  "string set \<Rightarrow> string set \<Rightarrow> ConsistencyReport \<Rightarrow> ChatMessage \<Rightarrow> ConsistencyReport" where
  "check_message use_ids answered report msg =
     (case cm_role msg of
        Assistant \<Rightarrow>
          let calls = unwrap_or (cm_tool_calls msg) [];
              report1 = (if calls = [] \<and> trim_str (cm_content msg) = []
                then add_drift empty_drift (report\<lparr>cr_empty_assistant := cr_empty_assistant report + 1\<rparr>) else report)
          in check_calls answered calls report1
      | Tool \<Rightarrow>
          if result_id msg \<notin> use_ids
          then add_drift (''tool_result '' @ result_id msg @ '' has no tool_use'')
            (report\<lparr>cr_orphan_tool_results := cr_orphan_tool_results report + 1\<rparr>)
          else report
      | _ \<Rightarrow> report)"

definition check_resume_consistency :: "ChatMessage list \<Rightarrow> ConsistencyReport" where
  "check_resume_consistency msgs =
     foldl (check_message (collect_tool_use_ids msgs) (result_ids msgs)) default_ConsistencyReport msgs"

text \<open>The first pass: results without a call anywhere are dropped.\<close>

definition drop_orphan_results ::
  "string set \<Rightarrow> ChatMessage list \<Rightarrow> ConsistencyReport \<Rightarrow> ChatMessage list \<times> ConsistencyReport" where
  "drop_orphan_results use_ids msgs report =
     (let orphan = (\<lambda>m. is_tool m \<and> result_id m \<notin> use_ids)
      in (filter (\<lambda>m. \<not> orphan m) msgs,
          foldl (\<lambda>r m. add_drift (''dropped orphan tool_result '' @ result_id m)
              (r\<lparr>cr_orphan_tool_results := cr_orphan_tool_results r + 1\<rparr>)) report (filter orphan msgs)))"

definition interrupted_result :: "string \<Rightarrow> ChatMessage" where
  "interrupted_result i = \<lparr>cm_role = Tool, cm_content = INTERRUPTED_PLACEHOLDER, cm_name = None, cm_tool_calls = None,
     cm_tool_call_id = Some i, cm_cache_breakpoint = False\<rparr>"

definition missing_ids :: "ChatMessage \<Rightarrow> ChatMessage list \<Rightarrow> string list" where
  "missing_ids m following =
     filter (\<lambda>i. i \<notin> result_ids (takeWhile is_tool following)) (map ptc_id (message_calls m))"

definition strip_calls :: "string list \<Rightarrow> ChatMessage \<Rightarrow> ChatMessage" where
  "strip_calls missing m =
     (let calls = filter (\<lambda>c. ptc_id c \<notin> set missing) (message_calls m)
      in m\<lparr>cm_tool_calls := (if calls = [] then None else Some calls)\<rparr>)"

function repair_loop ::
  "OrphanPolicy \<Rightarrow> ChatMessage list \<Rightarrow> ConsistencyReport \<Rightarrow> ChatMessage list \<times> ConsistencyReport" where
  "repair_loop policy [] report = ([], report)"
| "repair_loop policy (m # ms) report =
     (if message_calls m = [] then
        (let report1 = (if cm_role m = Assistant \<and> trim_str (cm_content m) = [] \<and> cm_tool_calls m = None
               then add_drift empty_drift (report\<lparr>cr_empty_assistant := cr_empty_assistant report + 1\<rparr>) else report);
             (out, report2) = repair_loop policy ms report1
         in (m # out, report2))
      else
        let missing = missing_ids m ms
        in if missing = [] then (let (out, report2) = repair_loop policy ms report in (m # out, report2))
           else
             let report1 = report\<lparr>cr_orphan_tool_uses := cr_orphan_tool_uses report + length missing\<rparr>
             in (case policy of
                   Synthesize \<Rightarrow>
                     (let (out, report2) = repair_loop policy (dropWhile is_tool ms)
                        (add_drift (''synthesized '' @ show_nat (length missing) @ '' interrupted tool_result(s)'') report1)
                      in (m # takeWhile is_tool ms @ map interrupted_result missing @ out, report2))
                 | DropOrphan \<Rightarrow>
                     (let report2 = add_drift (''dropped '' @ show_nat (length missing) @ '' tool_use(s) without results'') report1;
                          m' = strip_calls missing m
                      in if trim_str (cm_content m') = [] \<and> cm_tool_calls m' = None
                         then repair_loop policy ms (add_drift ''dropped emptied assistant message'' report2)
                         else (let (out, report3) = repair_loop policy ms report2 in (m' # out, report3)))))"
  by pat_completeness auto
termination
  by (relation "measure (\<lambda>(_, ms, _). length ms)") (auto simp: le_imp_less_Suc length_dropWhile_le)

definition recover_orphaned_tool_results ::
  "ChatMessage list \<Rightarrow> OrphanPolicy \<Rightarrow> ChatMessage list \<times> ConsistencyReport" where
  "recover_orphaned_tool_results msgs policy =
     (let (kept, report) = drop_orphan_results (collect_tool_use_ids msgs) msgs default_ConsistencyReport
      in repair_loop policy kept report)"

subsection \<open>Facts\<close>

text \<open>The provider's invariant on calls: each is answered in the tool messages that follow at once.\<close>

fun calls_answered :: "ChatMessage list \<Rightarrow> bool" where
  "calls_answered [] \<longleftrightarrow> True"
| "calls_answered (m # ms) \<longleftrightarrow> missing_ids m ms = [] \<and> calls_answered ms"

text \<open>The invariant on results: each answers a call made anywhere.\<close>

definition results_anchored :: "ChatMessage list \<Rightarrow> bool" where
  "results_anchored msgs \<longleftrightarrow> (\<forall>m\<in>set msgs. is_tool m \<longrightarrow> result_id m \<in> collect_tool_use_ids msgs)"

lemma result_ids_iff: "result_ids msgs = {i. \<exists>m\<in>set msgs. is_tool m \<and> cm_tool_call_id m = Some i}"
  by (induction msgs) (auto simp: result_ids_def map_filter_simps split: option.splits)

lemma missing_ids_no_calls [simp]: "message_calls m = [] \<Longrightarrow> missing_ids m ms = []"
  by (simp add: missing_ids_def)

lemma tool_no_calls [simp]: "is_tool m \<Longrightarrow> message_calls m = []"
  by (simp add: message_calls_def)

lemma result_ids_append [simp]: "result_ids (xs @ ys) = result_ids xs \<union> result_ids ys"
  by (auto simp: result_ids_iff)

lemma result_ids_interrupted [simp]: "result_ids (map interrupted_result ids) = set ids"
  by (auto simp: result_ids_iff interrupted_result_def)

lemma result_ids_mono: "set xs \<subseteq> set ys \<Longrightarrow> result_ids xs \<subseteq> result_ids ys"
  by (auto simp: result_ids_iff)

lemma missing_ids_Nil: "missing_ids m ms = [] \<longleftrightarrow> ptc_id ` set (message_calls m) \<subseteq> result_ids (takeWhile is_tool ms)"
  by (auto simp: missing_ids_def filter_empty_conv)

lemma missing_ids_mono:
  "set (takeWhile is_tool ms) \<subseteq> set (takeWhile is_tool ms') \<Longrightarrow> missing_ids m ms = [] \<Longrightarrow> missing_ids m ms' = []"
  unfolding missing_ids_Nil by (blast dest: result_ids_mono)

lemma calls_answered_tools: "\<forall>m\<in>set ts. is_tool m \<Longrightarrow> calls_answered (ts @ ms) = calls_answered ms"
  by (induction ts) auto

lemma repair_keeps_tools:
  "fst (repair_loop policy ms report) = takeWhile is_tool ms @ fst (repair_loop policy (dropWhile is_tool ms) report)"
proof (induction ms arbitrary: report)
  case (Cons m ms)
  show ?case
  proof (cases "is_tool m")
    case True
    then show ?thesis using Cons.IH [of report] by (simp add: case_prod_beta)
  qed simp
qed simp

lemma repair_keep:
  "missing_ids m ms = [] \<Longrightarrow> \<exists>r. fst (repair_loop policy (m # ms) report) = m # fst (repair_loop policy ms r)"
  by (cases "message_calls m = []") (auto simp: case_prod_beta Let_def)

lemma repair_synth:
  "missing_ids m ms \<noteq> [] \<Longrightarrow> \<exists>r. fst (repair_loop Synthesize (m # ms) report) =
     m # takeWhile is_tool ms @ map interrupted_result (missing_ids m ms) @ fst (repair_loop Synthesize (dropWhile is_tool ms) r)"
  by (cases "message_calls m = []") (auto simp: case_prod_beta Let_def)

lemma repair_drop:
  "missing_ids m ms \<noteq> [] \<Longrightarrow> \<exists>r. fst (repair_loop DropOrphan (m # ms) report) = fst (repair_loop DropOrphan ms r) \<or>
     fst (repair_loop DropOrphan (m # ms) report) = strip_calls (missing_ids m ms) m # fst (repair_loop DropOrphan ms r)"
  by (cases "message_calls m = []") (auto simp: case_prod_beta Let_def)

lemma takeWhile_sub: "set (takeWhile is_tool ms) \<subseteq> set (takeWhile is_tool (takeWhile is_tool ms @ xs))"
  by (induction ms) auto

lemma missing_after_repair:
  "missing_ids m ms = [] \<Longrightarrow> missing_ids m (fst (repair_loop policy ms report)) = []"
  by (rule missing_ids_mono [of ms]) (use takeWhile_sub repair_keeps_tools in metis)

lemma missing_after_strip: "missing_ids (strip_calls (missing_ids m ms) m) ms = []"
  by (auto simp: missing_ids_def strip_calls_def message_calls_def Let_def filter_empty_conv)

lemma missing_synthesized:
  "missing_ids m (takeWhile is_tool ms @ map interrupted_result (missing_ids m ms) @ out) = []"
proof -
  have "takeWhile is_tool (takeWhile is_tool ms @ map interrupted_result ids @ out) =
      takeWhile is_tool ms @ map interrupted_result ids @ takeWhile is_tool out" for ids
    by (simp add: takeWhile_append interrupted_result_def comp_def) (auto dest: set_takeWhileD)
  then show ?thesis by (auto simp: missing_ids_Nil) (auto simp: missing_ids_def)
qed

lemma repair_calls_answered: "calls_answered (fst (repair_loop policy ms report))"
proof (induction policy ms report rule: repair_loop.induct)
  case (2 policy m ms report)
  show ?case
  proof (cases "missing_ids m ms = []")
    case True
    then show ?thesis using 2 missing_after_repair [OF True] by (simp add: case_prod_beta Let_def)
  next
    case False
    then have calls: "message_calls m \<noteq> []" by auto
    show ?thesis
    proof (cases policy)
      case Synthesize
      have "\<forall>t\<in>set (takeWhile is_tool ms @ map interrupted_result (missing_ids m ms)). is_tool t"
        by (auto simp: interrupted_result_def dest: set_takeWhileD)
      from calls_answered_tools [OF this] show ?thesis
        using 2 False calls Synthesize missing_synthesized [of m ms] by (simp add: case_prod_beta Let_def)
    next
      case DropOrphan
      then show ?thesis
        using 2 False calls missing_after_repair [OF missing_after_strip [of m ms]] by (simp add: case_prod_beta Let_def)
    qed
  qed
qed simp

declare repair_loop.simps(2) [simp del]

lemma calls_answered_ids:
  "calls_answered ms \<Longrightarrow> m \<in> set ms \<Longrightarrow> c \<in> set (message_calls m) \<Longrightarrow> ptc_id c \<in> result_ids ms"
proof (induction ms)
  case (Cons x ms)
  have sub: "result_ids (takeWhile is_tool ms) \<subseteq> result_ids (x # ms)" "result_ids ms \<subseteq> result_ids (x # ms)"
    by (auto simp: result_ids_iff dest: set_takeWhileD)
  show ?case
  proof (cases "m = x")
    case True
    then have "ptc_id c \<in> result_ids (takeWhile is_tool ms)" using Cons.prems by (auto simp: missing_ids_Nil)
    with sub show ?thesis by blast
  next
    case False
    with Cons sub show ?thesis by auto
  qed
qed simp

lemma use_ids_append [simp]: "collect_tool_use_ids (xs @ ys) = collect_tool_use_ids xs \<union> collect_tool_use_ids ys"
  by (simp add: collect_tool_use_ids_def)

lemma use_ids_Cons: "collect_tool_use_ids (m # ms) = ptc_id ` set (message_calls m) \<union> collect_tool_use_ids ms"
  by (auto simp: collect_tool_use_ids_def)

lemma use_ids_tools: "\<forall>m\<in>set ts. is_tool m \<Longrightarrow> collect_tool_use_ids ts = {}"
  by (auto simp: collect_tool_use_ids_def)

lemma interrupted_tools: "\<forall>m\<in>set (map interrupted_result ids). is_tool m"
  by (simp add: interrupted_result_def)

lemma take_tools: "\<forall>m\<in>set (takeWhile is_tool ms). is_tool m"
  by (auto dest: set_takeWhileD)

lemma repair_synthesize:
  "collect_tool_use_ids (fst (repair_loop Synthesize ms report)) = collect_tool_use_ids ms \<and>
   (\<forall>t\<in>set (fst (repair_loop Synthesize ms report)). is_tool t \<longrightarrow>
      t \<in> set ms \<or> (\<exists>i\<in>collect_tool_use_ids ms. t = interrupted_result i))"
proof (induction ms arbitrary: report rule: length_induct)
  case (1 ms)
  show ?case
  proof (cases ms)
    case (Cons m ms')
    let ?rest = "dropWhile is_tool ms'"
    show ?thesis
    proof (cases "missing_ids m ms' = []")
      case True
      then obtain r where "fst (repair_loop Synthesize (m # ms') report) = m # fst (repair_loop Synthesize ms' r)"
        using repair_keep by blast
      with 1 [rule_format, of ms' r] Cons show ?thesis by (auto simp: use_ids_Cons)
    next
      case False
      then obtain r where out: "fst (repair_loop Synthesize (m # ms') report) = m # takeWhile is_tool ms' @
          map interrupted_result (missing_ids m ms') @ fst (repair_loop Synthesize ?rest r)"
        using repair_synth by blast
      have uses: "collect_tool_use_ids (takeWhile is_tool ms') = {}" "collect_tool_use_ids (map interrupted_result ids) = {}" for ids
        using use_ids_tools take_tools interrupted_tools by blast+
      then have split: "collect_tool_use_ids ms' = collect_tool_use_ids ?rest"
        using use_ids_append [of "takeWhile is_tool ms'" ?rest] by simp
      have miss: "set (missing_ids m ms') \<subseteq> ptc_id ` set (message_calls m)" by (auto simp: missing_ids_def)
      have "length ?rest < length ms" using Cons by (simp add: le_imp_less_Suc length_dropWhile_le)
      with 1 [rule_format, of ?rest r] miss show ?thesis unfolding Cons out
        by (auto simp: use_ids_Cons uses split dest: set_takeWhileD set_dropWhileD)
    qed
  qed simp
qed

lemma check_message_clean:
  assumes "ptc_id ` set (message_calls m) \<subseteq> answered" and "is_tool m \<longrightarrow> result_id m \<in> use_ids"
  shows "cr_orphan_tool_uses (check_message use_ids answered r m) = cr_orphan_tool_uses r \<and>
     cr_orphan_tool_results (check_message use_ids answered r m) = cr_orphan_tool_results r"
proof -
  have "check_calls answered calls r = r" if "ptc_id ` set calls \<subseteq> answered" for calls r
    using that by (induction calls) (auto simp: check_calls_def)
  then show ?thesis
    using assms by (cases "cm_role m") (auto simp: check_message_def add_drift_def message_calls_def Let_def)
qed

lemma check_fold_clean:
  "\<forall>m\<in>set ms. ptc_id ` set (message_calls m) \<subseteq> answered \<and> (is_tool m \<longrightarrow> result_id m \<in> use_ids) \<Longrightarrow>
   cr_orphan_tool_uses (foldl (check_message use_ids answered) r ms) = cr_orphan_tool_uses r \<and>
   cr_orphan_tool_results (foldl (check_message use_ids answered) r ms) = cr_orphan_tool_results r"
  by (induction ms arbitrary: r) (auto simp: check_message_clean)

lemma drop_results_fst:
  "fst (drop_orphan_results use_ids msgs r) = filter (\<lambda>m. \<not> (is_tool m \<and> result_id m \<notin> use_ids)) msgs"
  by (simp add: drop_orphan_results_def Let_def)

lemma recover_fst:
  "fst (recover_orphaned_tool_results msgs policy) =
     fst (repair_loop policy (fst (drop_orphan_results (collect_tool_use_ids msgs) msgs default_ConsistencyReport))
       (snd (drop_orphan_results (collect_tool_use_ids msgs) msgs default_ConsistencyReport)))"
  by (simp add: recover_orphaned_tool_results_def case_prod_beta)

lemma use_ids_filter: "collect_tool_use_ids (filter (\<lambda>m. \<not> (is_tool m \<and> P m)) msgs) = collect_tool_use_ids msgs"
  by (induction msgs) (auto simp: use_ids_Cons)

abbreviation plain :: "ChatMessage \<Rightarrow> bool" where
  "plain m \<equiv> cm_role m \<in> {User, System}"

lemma calls_assistant: "missing_ids m ms \<noteq> [] \<Longrightarrow> cm_role m = Assistant"
  by (auto simp: missing_ids_def message_calls_def split: if_splits)

lemma repair_plain: "filter plain (fst (repair_loop policy ms report)) = filter plain ms"
proof (induction ms arbitrary: report rule: length_induct)
  case (1 ms)
  show ?case
  proof (cases ms)
    case (Cons m ms')
    have t: "filter plain (takeWhile is_tool ms') = []" "filter plain (map interrupted_result ids) = []" for ids
      by (auto simp: filter_empty_conv interrupted_result_def dest: set_takeWhileD)
    then have d: "filter plain (dropWhile is_tool ms') = filter plain ms'"
      using filter_append [of plain "takeWhile is_tool ms'" "dropWhile is_tool ms'"] by simp
    have IH: "filter plain (fst (repair_loop policy ms' r)) = filter plain ms'"
      "filter plain (fst (repair_loop policy (dropWhile is_tool ms') r)) = filter plain (dropWhile is_tool ms')" for r
      using 1 Cons by (simp_all add: le_imp_less_Suc length_dropWhile_le)
    show ?thesis
    proof (cases "missing_ids m ms' = []")
      case True
      then show ?thesis using repair_keep [OF True, of policy report] IH(1) Cons by auto
    next
      case False
      note role = calls_assistant [OF False]
      have strip: "cm_role (strip_calls ids m) = cm_role m" for ids by (simp add: strip_calls_def Let_def)
      show ?thesis
      proof (cases policy)
        case Synthesize
        then obtain r where "fst (repair_loop policy (m # ms') report) = m # takeWhile is_tool ms' @
            map interrupted_result (missing_ids m ms') @ fst (repair_loop policy (dropWhile is_tool ms') r)"
          using repair_synth [OF False] by blast
        then show ?thesis using IH(2) [of r] t d role Cons by simp
      next
        case DropOrphan
        then show ?thesis using repair_drop [OF False, of report] IH(1) role strip Cons by auto
      qed
    qed
  qed simp
qed

lemma repair_unchanged: "calls_answered ms \<Longrightarrow> fst (repair_loop policy ms report) = ms"
proof (induction ms arbitrary: report)
  case (Cons m ms)
  then show ?case using repair_keep [of m ms policy report] by auto
qed simp

lemma recover_synthesize_anchored: "results_anchored (fst (recover_orphaned_tool_results msgs Synthesize))"
proof -
  let ?kept = "filter (\<lambda>m. \<not> (is_tool m \<and> result_id m \<notin> collect_tool_use_ids msgs)) msgs"
  obtain r where "fst (recover_orphaned_tool_results msgs Synthesize) = fst (repair_loop Synthesize ?kept r)"
    using recover_fst [of msgs Synthesize] drop_results_fst by metis
  then show ?thesis using repair_synthesize [of ?kept r] use_ids_filter [of "\<lambda>m. result_id m \<notin> collect_tool_use_ids msgs" msgs]
    by (auto simp: results_anchored_def interrupted_result_def result_id_def)
qed

subsection \<open>Properties\<close>

text \<open>C10. The repair restores what providers require of tool calls: in a repaired history every tool call
  is answered by a tool message in the run of tool messages right after it, under both policies;
  user and system messages are kept as they were and in order; a history that was in order is not
  changed; and under the default policy the repaired history passes the consistency check, with
  no call without result and no result without call.\<close>

theorem repaired_history_answers_calls:
  "(let out = fst (recover_orphaned_tool_results msgs policy)
    in calls_answered out \<and>
       filter (\<lambda>m. cm_role m \<in> {User, System}) out = filter (\<lambda>m. cm_role m \<in> {User, System}) msgs \<and>
       (calls_answered msgs \<and> results_anchored msgs \<longrightarrow> out = msgs) \<and>
       (policy = Synthesize \<longrightarrow> cr_orphan_tool_uses (check_resume_consistency out) = 0 \<and>
          cr_orphan_tool_results (check_resume_consistency out) = 0))"
proof -
  let ?kept = "filter (\<lambda>m. \<not> (is_tool m \<and> result_id m \<notin> collect_tool_use_ids msgs)) msgs"
  obtain r where out: "fst (recover_orphaned_tool_results msgs policy) = fst (repair_loop policy ?kept r)"
    using recover_fst [of msgs policy] drop_results_fst by metis
  have uses: "collect_tool_use_ids ?kept = collect_tool_use_ids msgs" by (rule use_ids_filter)
  have kept_plain: "filter plain ?kept = filter plain msgs" by (auto intro!: filter_cong)
  have kept_all: "?kept = msgs" if "results_anchored msgs"
    using that by (auto simp: results_anchored_def filter_id_conv)
  have clean: "cr_orphan_tool_uses (check_resume_consistency (fst (repair_loop Synthesize ?kept r))) = 0 \<and>
      cr_orphan_tool_results (check_resume_consistency (fst (repair_loop Synthesize ?kept r))) = 0"
  proof -
    let ?o = "fst (repair_loop Synthesize ?kept r)"
    have "ptc_id ` set (message_calls m) \<subseteq> result_ids ?o" if "m \<in> set ?o" for m
      using calls_answered_ids [OF repair_calls_answered that] by auto
    moreover have "result_id m \<in> collect_tool_use_ids ?o" if "m \<in> set ?o" "is_tool m" for m
      using repair_synthesize [of ?kept r] that uses by (auto simp: interrupted_result_def result_id_def)
    ultimately show ?thesis
      using check_fold_clean [of ?o "result_ids ?o" "collect_tool_use_ids ?o" default_ConsistencyReport]
      by (simp add: check_resume_consistency_def default_ConsistencyReport_def)
  qed
  have "fst (repair_loop policy ?kept r) = msgs" if "calls_answered msgs" "results_anchored msgs"
    unfolding kept_all [OF that(2)] by (rule repair_unchanged [OF that(1)])
  moreover have "filter plain (fst (repair_loop policy ?kept r)) = filter plain msgs"
    unfolding repair_plain by (rule kept_plain)
  moreover have "cr_orphan_tool_uses (check_resume_consistency (fst (repair_loop policy ?kept r))) = 0 \<and>
      cr_orphan_tool_results (check_resume_consistency (fst (repair_loop policy ?kept r))) = 0" if "policy = Synthesize"
    unfolding that by (rule clean)
  ultimately show ?thesis unfolding out Let_def using repair_calls_answered [of policy ?kept r] by blast
qed

definition repair_demo_calls :: "string list \<Rightarrow> ChatMessage" where
  "repair_demo_calls ids = (ChatMessage_assistant [])\<lparr>cm_tool_calls := Some (map (\<lambda>i. \<lparr>ptc_id = i, ptc_kind = ''function'',
     ptc_function = \<lparr>fc_name = ''read'', fc_arguments = []\<rparr>\<rparr>) ids)\<rparr>"

theorem repaired_history_answers_calls_witness:
  "fst (recover_orphaned_tool_results [ChatMessage_user ''go'', repair_demo_calls [''a'', ''b''], interrupted_result ''a'', interrupted_result ''b''] DropOrphan) =
     [ChatMessage_user ''go'', repair_demo_calls [''a'', ''b''], interrupted_result ''a'', interrupted_result ''b'']"
proof -
  let ?ms = "[ChatMessage_user ''go'', repair_demo_calls [''a'', ''b''], interrupted_result ''a'', interrupted_result ''b'']"
  have "calls_answered ?ms" by code_simp
  moreover have "results_anchored ?ms" by code_simp
  ultimately show ?thesis using repaired_history_answers_calls [of ?ms DropOrphan] by (simp add: Let_def)
qed

text \<open>Dropping unanswered calls can leave a result without its call: a result that is separated from
  its call is kept because the call exists, then the call is removed because no result follows it,
  and the consistency check finds the result orphaned.\<close>

theorem drop_policy_leaves_orphan:
  "let msgs = [repair_demo_calls [''a'']\<lparr>cm_content := ''x''\<rparr>, ChatMessage_user ''stop'', interrupted_result ''a''];
       out = fst (recover_orphaned_tool_results msgs DropOrphan)
   in out = [ChatMessage_assistant ''x'', ChatMessage_user ''stop'', interrupted_result ''a''] \<and>
      cr_orphan_tool_results (check_resume_consistency out) = 1"
  by code_simp

end
