(* ===== verification/Turn.thy ===== *)
theory Turn
  imports Session_Store Session_Repair Agent_Routing Model_Ref
begin

text \<open>
  The life of one turn in the host (\<^verbatim>\<open>legion-host/src/turn.rs\<close>): resolving the session, loading and
  repairing its history and starting the run; turning run events into client frames; persisting
  the transcript while the run streams; and the accumulator that rebuilds messages from events.
  The runtime is a parameter that starts a run for a request; a run's stream is the list of its
  events, each with the time it arrives. The derived serializers of tool metadata and todo items
  are parameters.
\<close>

subsection \<open>Starting a run\<close>

record UserMessage =
  um_role :: string
  um_content :: string

record AgentParams =
  ap_session_key :: string
  ap_message :: UserMessage
  ap_idempotency_key :: "string option"
  ap_wait :: bool
  ap_history :: "ChatMessage list"
  ap_dump_prompts :: bool
  ap_yolo :: bool
  ap_workspace :: "string option"
  ap_sender :: "string option"

record AgentAccepted =
  aa_run_id :: string
  aa_accepted_at :: string

definition run_request :: "AgentsConfig \<Rightarrow> string \<Rightarrow> string \<Rightarrow> AgentParams \<Rightarrow> nat option \<Rightarrow> nat option \<Rightarrow> RunRequest" where
  "run_request config session_key agent_id params approval_gate question_gate =
     (RunRequest_new session_key agent_id (um_content (ap_message params)) (resolve_agent_model config agent_id))
       \<lparr>rr_history := ap_history params, rr_dump_prompts := ap_dump_prompts params,
        rr_workspace_override := ap_workspace params, rr_sender := ap_sender params,
        rr_approval_gate := approval_gate, rr_question_gate := question_gate\<rparr>"

text \<open>\<open>next_id\<close> is the fresh id and \<open>now\<close> the ISO time of the call.\<close>

definition start_agent_run ::
  "(RunRequest \<Rightarrow> (string, 's) result) \<Rightarrow> AgentsConfig \<Rightarrow> Router \<Rightarrow> string \<Rightarrow> string \<Rightarrow> AgentParams \<Rightarrow>
     nat option \<Rightarrow> nat option \<Rightarrow> (string, 's \<times> AgentAccepted) result" where
  "start_agent_run runtime_run config router next_id now params approval_gate question_gate =
     (case parse_session_key (ap_session_key params) of
        None \<Rightarrow> Inl (''invalid session key: '' @ ap_session_key params)
      | Some parts \<Rightarrow>
          let agent_id = resolve_agent router (build_router_message now parts (um_content (ap_message params)));
              session_key = build_session_key agent_id parts;
              run_id = unwrap_or (ap_idempotency_key params) (''run-'' @ next_id)
          in bind_result (runtime_run (run_request config session_key agent_id params approval_gate question_gate))
               (\<lambda>stream. Inr (stream, \<lparr>aa_run_id = run_id, aa_accepted_at = now\<rparr>)))"

definition prepare_run ::
  "(RunRequest \<Rightarrow> (string, 's) result) \<Rightarrow> AgentsConfig \<Rightarrow> OrphanPolicy \<Rightarrow> Router \<Rightarrow> SessionStore \<Rightarrow> string \<Rightarrow> string \<Rightarrow>
     AgentParams \<Rightarrow> nat option \<Rightarrow> nat option \<Rightarrow> files \<Rightarrow> (string, 's \<times> AgentAccepted \<times> string) result" where
  "prepare_run runtime_run config orphan_policy router store next_id now params approval_gate question_gate fs =
     (case resolve_session_key now (ap_session_key params) router of
        None \<Rightarrow> Inl (''invalid session key: '' @ ap_session_key params)
      | Some session_key \<Rightarrow>
          let history = fst (recover_orphaned_tool_results (load_for_resume store session_key fs) orphan_policy)
          in bind_result (start_agent_run runtime_run config router next_id now (params\<lparr>ap_history := history\<rparr>)
                 approval_gate question_gate)
               (\<lambda>(stream, accepted). Inr (stream, accepted, session_key)))"

definition load_session_history ::
  "string \<Rightarrow> Router \<Rightarrow> SessionStore \<Rightarrow> OrphanPolicy \<Rightarrow> string \<Rightarrow> files \<Rightarrow> (string, string \<times> ChatMessage list) result" where
  "load_session_history now router store orphan_policy session_key fs =
     (case resolve_session_key now session_key router of
        None \<Rightarrow> Inl (''invalid session key: '' @ session_key)
      | Some key \<Rightarrow>
          if case parse_session_key key of None \<Rightarrow> False | Some parts \<Rightarrow> is_safe_segment (sk_peer_id parts)
          then Inr (key, fst (recover_orphaned_tool_results (load_for_resume store key fs) orphan_policy))
          else Inl (''invalid session key: '' @ session_key))"

subsection \<open>Frames\<close>

fun LifecyclePhase_str :: "LifecyclePhase \<Rightarrow> string" where
  "LifecyclePhase_str Start = ''start''"
| "LifecyclePhase_str End = ''end''"
| "LifecyclePhase_str ErrorPhase = ''error''"

definition tool_call_json :: "ToolCall \<Rightarrow> json" where
  "tool_call_json c = JObject [(''arguments'', JString (tc_arguments c)), (''id'', JString (tc_id c)), (''name'', JString (tc_name c))]"

definition tool_result_json :: "ToolResult \<Rightarrow> json" where
  "tool_result_json r = JObject [(''content'', JString (tr_content r)), (''is_error'', JBool (tr_is_error r))]"

text \<open>Keys are in the sorted order the JSON library keeps.\<close>

fun run_event_to_payload ::
  "(CanonicalToolMeta \<Rightarrow> json) \<Rightarrow> (TodoItem list \<Rightarrow> json) \<Rightarrow> string \<Rightarrow> RunEvent \<Rightarrow> json" where
  "run_event_to_payload meta_value items_value run_id (Lifecycle phase error) =
     JObject ((case error of Some e \<Rightarrow> [(''error'', JString e)] | None \<Rightarrow> []) @
       [(''phase'', JString (LifecyclePhase_str phase)), (''run_id'', JString run_id), (''stream'', JString ''lifecycle'')])"
| "run_event_to_payload meta_value items_value run_id (AssistantDelta delta) =
     JObject [(''delta'', JString delta), (''run_id'', JString run_id), (''stream'', JString ''assistant'')]"
| "run_event_to_payload meta_value items_value run_id (ToolStart call) =
     JObject [(''run_id'', JString run_id), (''state'', JString ''start''), (''stream'', JString ''tool''),
       (''tool_call'', tool_call_json call)]"
| "run_event_to_payload meta_value items_value run_id (ToolEnd call res cmeta) =
     JObject ((case cmeta of Some meta \<Rightarrow> [(''canonical_meta'', meta_value meta)] | None \<Rightarrow> []) @
       [(''result'', tool_result_json res), (''run_id'', JString run_id), (''state'', JString ''end''),
        (''stream'', JString ''tool''), (''tool_call'', tool_call_json call)])"
| "run_event_to_payload meta_value items_value run_id (Compaction summary boundary resume_head) =
     JObject ([(''run_id'', JString run_id), (''stream'', JString ''compaction''), (''summary'', JString summary)] @
       (case boundary of Some b \<Rightarrow> [(''tokens_compacted'', JNum (show_nat (bm_tokens_compacted b)))] | None \<Rightarrow> []))"
| "run_event_to_payload meta_value items_value run_id (TodoUpdate todo_list) =
     JObject [(''items'', items_value (tl_items todo_list)), (''run_id'', JString run_id), (''stream'', JString ''todo_update'')]"

subsection \<open>The accumulator\<close>

record SessionAccumulator =
  sc_history :: "ChatMessage list"
  sc_current_assistant_text :: string
  sc_current_tool_calls :: "ProviderToolCall list"
  sc_pending_tool_results :: "ChatMessage list"
  sc_seen_tool_end_this_turn :: bool

definition SessionAccumulator_new :: SessionAccumulator where
  "SessionAccumulator_new = \<lparr>sc_history = [], sc_current_assistant_text = [], sc_current_tool_calls = [],
     sc_pending_tool_results = [], sc_seen_tool_end_this_turn = False\<rparr>"

definition assistant_message :: "string \<Rightarrow> ProviderToolCall list \<Rightarrow> ChatMessage" where
  "assistant_message content calls = (ChatMessage_assistant content)\<lparr>cm_tool_calls := (if calls = [] then None else Some calls)\<rparr>"

definition flush_turn :: "SessionAccumulator \<Rightarrow> SessionAccumulator" where
  "flush_turn acc =
     (let said = sc_current_assistant_text acc \<noteq> [] \<or> sc_current_tool_calls acc \<noteq> [];
          msg = assistant_message (sc_current_assistant_text acc) (sc_current_tool_calls acc)
      in \<lparr>sc_history = sc_history acc @ (if said then [msg] else []) @ sc_pending_tool_results acc,
          sc_current_assistant_text = [], sc_current_tool_calls = [], sc_pending_tool_results = [],
          sc_seen_tool_end_this_turn = False\<rparr>)"

definition provider_call :: "ToolCall \<Rightarrow> ProviderToolCall" where
  "provider_call c = \<lparr>ptc_id = tc_id c, ptc_kind = ''function'',
     ptc_function = \<lparr>fc_name = tc_name c, fc_arguments = tc_arguments c\<rparr>\<rparr>"

definition tool_message :: "ToolCall \<Rightarrow> ToolResult \<Rightarrow> ChatMessage" where
  "tool_message c r = \<lparr>cm_role = Tool, cm_content = tr_content r, cm_name = None, cm_tool_calls = None,
     cm_tool_call_id = Some (tc_id c), cm_cache_breakpoint = False\<rparr>"

fun on_event :: "SessionAccumulator \<Rightarrow> RunEvent \<Rightarrow> SessionAccumulator" where
  "on_event acc (AssistantDelta delta) =
     (let acc = (if sc_seen_tool_end_this_turn acc then flush_turn acc else acc)
      in acc\<lparr>sc_current_assistant_text := sc_current_assistant_text acc @ delta\<rparr>)"
| "on_event acc (ToolStart c) = acc\<lparr>sc_current_tool_calls := sc_current_tool_calls acc @ [provider_call c]\<rparr>"
| "on_event acc (ToolEnd c r _) =
     acc\<lparr>sc_seen_tool_end_this_turn := True, sc_pending_tool_results := sc_pending_tool_results acc @ [tool_message c r]\<rparr>"
| "on_event acc (Lifecycle phase _) = (if phase = End then flush_turn acc else acc)"
| "on_event acc (Compaction _ _ _) = acc"
| "on_event acc (TodoUpdate _) = acc"

definition into_history :: "SessionAccumulator \<Rightarrow> ChatMessage list" where
  "into_history acc = sc_history (flush_turn acc)"

subsection \<open>Driving a run\<close>

fun is_end_event :: "RunEvent \<Rightarrow> bool" where
  "is_end_event (Lifecycle phase _) = (phase = End)"
| "is_end_event _ = False"

text \<open>A compaction writes its mark, then the compacted head.\<close>

fun persist_compaction :: "SessionStore \<Rightarrow> string \<Rightarrow> nat \<Rightarrow> RunEvent \<Rightarrow> files \<Rightarrow> (io_error, unit) result \<times> files" where
  "persist_compaction store session_key now (Compaction _ (Some boundary) resume_head) fs =
     (case append_boundary store now session_key boundary fs of
        (Inl e, fs1) \<Rightarrow> (Inl e, fs1)
      | (Inr _, fs1) \<Rightarrow> session_append store now session_key resume_head fs1)"
| "persist_compaction store session_key now _ fs = (Inr (), fs)"

text \<open>The loop returns the accumulator and the end event, with the events emitted so far.\<close>

fun drive_loop ::
  "SessionStore \<Rightarrow> string \<Rightarrow> (nat \<times> RunEvent) list \<Rightarrow> SessionAccumulator \<Rightarrow> RunEvent list \<Rightarrow> files \<Rightarrow>
     (io_error, SessionAccumulator \<times> RunEvent option) result \<times> files \<times> RunEvent list" where
  "drive_loop store session_key [] acc emitted fs = (Inr (acc, None), fs, emitted)"
| "drive_loop store session_key ((now, event) # stream) acc emitted fs =
     (if is_end_event event then (Inr (acc, Some event), fs, emitted)
      else case persist_compaction store session_key now event fs of
             (Inl e, fs1) \<Rightarrow> (Inl e, fs1, emitted)
           | (Inr _, fs1) \<Rightarrow> drive_loop store session_key stream (on_event acc event) (emitted @ [event]) fs1)"

text \<open>The frames are the payloads of the emitted events.\<close>

definition drive_run_stream ::
  "(RunEvent \<Rightarrow> json) \<Rightarrow> SessionStore \<Rightarrow> string \<Rightarrow> string \<Rightarrow> nat \<Rightarrow> (nat \<times> RunEvent) list \<Rightarrow> nat \<Rightarrow> files \<Rightarrow>
     (io_error, unit) result \<times> files \<times> json list" where
  "drive_run_stream payload store session_key user_content start stream finish fs =
     (case session_append store start session_key [ChatMessage_user user_content] fs of
        (Inl e, fs1) \<Rightarrow> (Inl e, fs1, [])
      | (Inr _, fs1) \<Rightarrow>
          (case drive_loop store session_key stream SessionAccumulator_new [] fs1 of
             (Inl e, fs2, emitted) \<Rightarrow> (Inl e, fs2, map payload emitted)
           | (Inr (acc, end_event), fs2, emitted) \<Rightarrow>
               (case session_append store finish session_key (into_history acc) fs2 of
                  (Inl e, fs3) \<Rightarrow> (Inl e, fs3, map payload emitted)
                | (Inr _, fs3) \<Rightarrow>
                    (Inr (), fs3, map payload (emitted @ (case end_event of None \<Rightarrow> [] | Some ev \<Rightarrow> [ev]))))))"

subsection \<open>Facts\<close>

text \<open>A turn of the run as the events show it: text deltas, then tool events.\<close>

type_synonym turn = "string list \<times> RunEvent list"

fun is_tool_event :: "RunEvent \<Rightarrow> bool" where
  "is_tool_event (ToolStart _) = True"
| "is_tool_event (ToolEnd _ _ _) = True"
| "is_tool_event _ = False"

fun is_tool_end :: "RunEvent \<Rightarrow> bool" where
  "is_tool_end (ToolEnd _ _ _) = True"
| "is_tool_end _ = False"

fun is_delta :: "RunEvent \<Rightarrow> bool" where
  "is_delta (AssistantDelta _) = True"
| "is_delta _ = False"

fun started_call :: "RunEvent \<Rightarrow> ProviderToolCall option" where
  "started_call (ToolStart c) = Some (provider_call c)"
| "started_call _ = None"

fun ended_result :: "RunEvent \<Rightarrow> ChatMessage option" where
  "ended_result (ToolEnd c r _) = Some (tool_message c r)"
| "ended_result _ = None"

definition turn_events :: "turn \<Rightarrow> RunEvent list" where
  "turn_events t = map AssistantDelta (fst t) @ snd t"

definition turn_calls :: "RunEvent list \<Rightarrow> ProviderToolCall list" where
  "turn_calls tevs = List.map_filter started_call tevs"

definition turn_results :: "RunEvent list \<Rightarrow> ChatMessage list" where
  "turn_results tevs = List.map_filter ended_result tevs"

definition turn_messages :: "turn \<Rightarrow> ChatMessage list" where
  "turn_messages t =
     (if concat (fst t) = [] \<and> turn_calls (snd t) = [] then []
      else [assistant_message (concat (fst t)) (turn_calls (snd t))]) @ turn_results (snd t)"

text \<open>Turns the accumulator can tell apart: each turn but the last ends a tool call and the next
  one says something.\<close>

fun turns_ok :: "turn list \<Rightarrow> bool" where
  "turns_ok [] \<longleftrightarrow> True"
| "turns_ok (t # ts) \<longleftrightarrow> list_all is_tool_event (snd t) \<and>
     (ts \<noteq> [] \<longrightarrow> list_ex is_tool_end (snd t) \<and> fst (hd ts) \<noteq> []) \<and> turns_ok ts"

definition fresh :: "ChatMessage list \<Rightarrow> SessionAccumulator" where
  "fresh H = \<lparr>sc_history = H, sc_current_assistant_text = [], sc_current_tool_calls = [],
     sc_pending_tool_results = [], sc_seen_tool_end_this_turn = False\<rparr>"

definition during :: "ChatMessage list \<Rightarrow> turn \<Rightarrow> SessionAccumulator" where
  "during H t = \<lparr>sc_history = H, sc_current_assistant_text = concat (fst t), sc_current_tool_calls = turn_calls (snd t),
     sc_pending_tool_results = turn_results (snd t), sc_seen_tool_end_this_turn = list_ex is_tool_end (snd t)\<rparr>"

lemma flush_during: "flush_turn (during H t) = fresh (H @ turn_messages t)"
  by (simp add: flush_turn_def during_def fresh_def turn_messages_def Let_def)

lemma fold_deltas:
  "\<not> sc_seen_tool_end_this_turn acc \<Longrightarrow> foldl on_event acc (map AssistantDelta ds) =
     acc\<lparr>sc_current_assistant_text := sc_current_assistant_text acc @ concat ds\<rparr>"
  by (induction ds arbitrary: acc) simp_all

lemma fold_tools:
  "list_all is_tool_event tevs \<Longrightarrow> foldl on_event acc tevs =
     acc\<lparr>sc_current_tool_calls := sc_current_tool_calls acc @ turn_calls tevs,
         sc_pending_tool_results := sc_pending_tool_results acc @ turn_results tevs,
         sc_seen_tool_end_this_turn := sc_seen_tool_end_this_turn acc \<or> list_ex is_tool_end tevs\<rparr>"
proof (induction tevs arbitrary: acc)
  case (Cons e tevs)
  then show ?case by (cases e) (simp_all add: turn_calls_def turn_results_def map_filter_simps)
qed (simp add: turn_calls_def turn_results_def map_filter_simps)

lemma fold_turn_fresh: "list_all is_tool_event (snd t) \<Longrightarrow> foldl on_event (fresh H) (turn_events t) = during H t"
  by (simp add: turn_events_def fold_deltas fold_tools fresh_def during_def)

lemma fold_turn_next:
  assumes "list_ex is_tool_end (snd t0)" and "fst t \<noteq> []" and "list_all is_tool_event (snd t)"
  shows "foldl on_event (during H t0) (turn_events t) = during (H @ turn_messages t0) t"
proof -
  obtain d ds where ds: "fst t = d # ds" using assms(2) by (cases "fst t") auto
  have seen: "sc_seen_tool_end_this_turn (during H t0)" using assms(1) by (simp add: during_def)
  have "on_event (during H t0) (AssistantDelta d) = on_event (fresh (H @ turn_messages t0)) (AssistantDelta d)"
    using seen by (simp add: flush_during) (simp add: fresh_def)
  then show ?thesis using fold_turn_fresh [OF assms(3), of "H @ turn_messages t0"] ds by (simp add: turn_events_def)
qed

lemma fold_turns:
  "turns_ok (t0 # ts) \<Longrightarrow> into_history (foldl on_event (during H t0) (concat (map turn_events ts))) =
     H @ turn_messages t0 @ concat (map turn_messages ts)"
proof (induction ts arbitrary: H t0)
  case Nil
  show ?case by (simp add: into_history_def flush_during fresh_def)
next
  case (Cons t ts)
  then show ?case using fold_turn_next [of t0 t H] by simp
qed

lemma fold_relevant:
  "\<forall>e\<in>set evs. \<not> is_end_event e \<Longrightarrow>
     foldl on_event acc evs = foldl on_event acc (filter (\<lambda>e. is_delta e \<or> is_tool_event e) evs)"
proof (induction evs arbitrary: acc)
  case (Cons e evs)
  then show ?case by (cases e) simp_all
qed simp

text \<open>The effect of the stream on what a resume sees.\<close>

fun resume_after :: "ChatMessage list \<Rightarrow> RunEvent list \<Rightarrow> ChatMessage list" where
  "resume_after base [] = base"
| "resume_after base (Compaction _ (Some _) head # evs) = resume_after head evs"
| "resume_after base (_ # evs) = resume_after base evs"

definition before_end :: "(nat \<times> RunEvent) list \<Rightarrow> RunEvent list" where
  "before_end stream = takeWhile (\<lambda>e. \<not> is_end_event e) (map snd stream)"

lemma since_boundary_messages:
  "entry_messages (since_boundary (es @ map (message_entry now) msgs)) = entry_messages (since_boundary es) @ msgs"
proof (induction msgs rule: rev_induct)
  case (snoc m msgs)
  then show ?case by (simp add: since_boundary_def entry_messages_def map_filter_app map_filter_simps message_entry_def)
qed simp

lemma since_boundary_mark: "since_boundary (es @ [boundary_entry now b i]) = []"
  by (simp add: since_boundary_def boundary_entry_def)

lemma since_boundary_head:
  "entry_messages (since_boundary (es @ boundary_entry now b i # map (message_entry now) msgs)) = msgs"
  using since_boundary_messages [of "es @ [boundary_entry now b i]" now msgs]
  by (simp add: since_boundary_mark) (simp add: entry_messages_def map_filter_simps)

lemma append_persists:
  assumes "codec_ok store" and "ss_faults store = (\<lambda>_. None)" and "transcripts_ok store fs T"
    and "session_path store key = Some p" and "session_append store now key msgs fs = (Inr u, fs')"
  shows "transcripts_ok store fs' (T(p := T p @ map (message_entry now) msgs))"
proof (cases "msgs = []")
  case False
  then have "\<exists>t. entry_lines store (map (message_entry now) msgs) = Inr t"
    using assms(4,5) by (auto simp: session_append_def split: sum.splits)
  then have "serialisable store (map (message_entry now) msgs)" using entry_lines_serialisable by blast
  then show ?thesis
    using run_op_ok [OF assms(1-3), of "AppendOp now key msgs"] assms(4,5) by (simp add: run_op_def spec_op_def op_entries_def)
qed (use assms in \<open>auto simp: session_append_def\<close>)

lemma boundary_persists:
  assumes "codec_ok store" and "ss_faults store = (\<lambda>_. None)" and "transcripts_ok store fs T"
    and "session_path store key = Some p" and "append_boundary store now key b fs = (Inr u, fs')"
  shows "transcripts_ok store fs' (T(p := T p @ [boundary_entry now b (length (T p))]))"
proof -
  have "count_existing_lines store p fs = length (T p)"
    using file_ok_parse(2) [of store "unwrap_or (fs p) []" "T p"] assms(3,4)
    by (auto simp: count_lines_no_faults [OF assms(2)] transcripts_ok_def)
  then have "serialisable store [boundary_entry now b (length (T p))]"
    using assms(4,5) by (auto simp: append_boundary_def serialisable_def split: sum.splits)
  then show ?thesis
    using run_op_ok [OF assms(1-3), of "BoundaryOp now key b"] assms(4,5) by (simp add: run_op_def spec_op_def op_entries_def)
qed

lemma persist_compaction_ok:
  assumes store: "codec_ok store" "ss_faults store = (\<lambda>_. None)" and "transcripts_ok store fs T"
    and path: "session_path store key = Some p" and "persist_compaction store key now ev fs = (Inr u, fs')"
  shows "\<exists>T'. transcripts_ok store fs' T' \<and>
     entry_messages (since_boundary (T' p)) = resume_after (entry_messages (since_boundary (T p))) [ev]"
  using assms(5)
proof (cases "(store, key, now, ev, fs)" rule: persist_compaction.cases)
  case (1 store' key' now' su b head fs'')
  with assms(5) obtain u1 fs1 where b: "append_boundary store now key b fs = (Inr u1, fs1)"
    and a: "session_append store now key head fs1 = (Inr u, fs')"
    by (auto split: prod.splits sum.splits)
  note T1 = boundary_persists [OF store assms(3) path b]
  show ?thesis using append_persists [OF store T1 path a] 1
    by (intro exI [of _ "T(p := (T p @ [boundary_entry now b (length (T p))]) @ map (message_entry now) head)"])
      (simp add: since_boundary_head)
qed (use assms(3,5) in auto)

lemma resume_after_Cons: "resume_after base (ev # evs) = resume_after (resume_after base [ev]) evs"
  by (cases "(base, ev # evs)" rule: resume_after.cases) auto

lemma drive_loop_events:
  "drive_loop store key stream acc emitted fs = (Inr (acc', en), fs', out) \<Longrightarrow>
     acc' = foldl on_event acc (before_end stream) \<and> out = emitted @ before_end stream \<and>
     en = List.find is_end_event (map snd stream)"
proof (induction stream arbitrary: acc emitted fs)
  case (Cons x stream)
  obtain now ev where x: "x = (now, ev)" by fastforce
  show ?case
  proof (cases "is_end_event ev")
    case True
    with Cons.prems x show ?thesis by (auto simp: before_end_def)
  next
    case False
    with Cons.prems x obtain fs1 where
      "drive_loop store key stream (on_event acc ev) (emitted @ [ev]) fs1 = (Inr (acc', en), fs', out)"
      by (auto split: prod.splits sum.splits)
    from Cons.IH [OF this] False x show ?thesis by (simp add: before_end_def)
  qed
qed (auto simp: before_end_def)

lemma drive_loop_ok:
  assumes store: "codec_ok store" "ss_faults store = (\<lambda>_. None)" and path: "session_path store key = Some p"
  shows "transcripts_ok store fs T \<Longrightarrow> drive_loop store key stream acc emitted fs = (Inr r, fs', out) \<Longrightarrow>
     \<exists>T'. transcripts_ok store fs' T' \<and> entry_messages (since_boundary (T' p)) =
        resume_after (entry_messages (since_boundary (T p))) (before_end stream)"
proof (induction stream arbitrary: acc emitted fs T)
  case Nil
  then show ?case by (auto simp: before_end_def)
next
  case (Cons x stream)
  obtain now ev where x: "x = (now, ev)" by fastforce
  show ?case
  proof (cases "is_end_event ev")
    case True
    with Cons.prems x show ?thesis by (auto simp: before_end_def)
  next
    case False
    with Cons.prems(2) x obtain u fs1 where c: "persist_compaction store key now ev fs = (Inr u, fs1)"
      and l: "drive_loop store key stream (on_event acc ev) (emitted @ [ev]) fs1 = (Inr r, fs', out)"
      by (auto split: prod.splits sum.splits)
    obtain T1 where T1: "transcripts_ok store fs1 T1" "entry_messages (since_boundary (T1 p)) =
        resume_after (entry_messages (since_boundary (T p))) [ev]"
      using persist_compaction_ok [OF store Cons.prems(1) path c] by blast
    have "before_end (x # stream) = ev # before_end stream" using x False by (simp add: before_end_def)
    then show ?thesis using Cons.IH [OF T1(1) l] T1(2)
        resume_after_Cons [of "entry_messages (since_boundary (T p))" ev "before_end stream"] by simp
  qed
qed

lemma drive_run_cases:
  assumes "drive_run_stream payload store key content start stream finish fs = (Inr u, fs', frames)"
  obtains u1 fs1 acc en fs2 out u3 where
    "session_append store start key [ChatMessage_user content] fs = (Inr u1, fs1)"
    "drive_loop store key stream SessionAccumulator_new [] fs1 = (Inr (acc, en), fs2, out)"
    "session_append store finish key (into_history acc) fs2 = (Inr u3, fs')"
    "acc = foldl on_event SessionAccumulator_new (before_end stream)"
    "frames = map payload (before_end stream @
       (case List.find is_end_event (map snd stream) of None \<Rightarrow> [] | Some ev \<Rightarrow> [ev]))"
  using assms drive_loop_events [of store key stream SessionAccumulator_new "[]"]
  by (fastforce simp: drive_run_stream_def split: prod.splits sum.splits)

subsection \<open>Properties\<close>

text \<open>A run resumes exactly the session it belongs to: when a run is prepared, the key returned is the
  one the request carries and the one whose transcript was loaded; the history handed to the
  runtime is that transcript after the repair, so every tool call in it is answered at once; the
  sender and the workspace of the caller are passed on as they came.\<close>

theorem prepared_run_resumes_session:
  assumes "prepare_run runtime_run config policy router store next_id now params ag qg fs = Inr (stream, accepted, key)"
  shows "resolve_session_key now (ap_session_key params) router = Some key \<and>
    (\<exists>req. runtime_run req = Inr stream \<and> rr_session_id req = key \<and>
       rr_history req = fst (recover_orphaned_tool_results (load_for_resume store key fs) policy) \<and>
       calls_answered (rr_history req) \<and> rr_user_message req = um_content (ap_message params) \<and>
       rr_workspace_override req = ap_workspace params \<and> rr_sender req = ap_sender params)"
proof -
  obtain parts where p: "parse_session_key (ap_session_key params) = Some parts"
    using assms by (auto simp: prepare_run_def resolve_session_key_def split: option.splits)
  let ?agent = "\<lambda>c. resolve_agent router (build_router_message now parts c)"
  have agent: "?agent c = ?agent []" for c
    using resolve_agent_router_message [of router now "sk_agent_id parts" parts c now "[]"] by simp
  have r: "resolve_session_key now (ap_session_key params) router = Some (build_session_key (?agent []) parts)"
    using p by (simp add: resolve_session_key_def)
  let ?h = "fst (recover_orphaned_tool_results (load_for_resume store (build_session_key (?agent []) parts) fs) policy)"
  let ?req = "run_request config (build_session_key (?agent []) parts) (?agent []) (params\<lparr>ap_history := ?h\<rparr>) ag qg"
  have "key = build_session_key (?agent []) parts \<and> runtime_run ?req = Inr stream"
    using assms p agent [of "um_content (ap_message params)"] r
    by (auto simp: prepare_run_def start_agent_run_def Let_def split: sum.splits elim!: bind_result.elims)
  moreover have "calls_answered ?h" by (simp add: recover_fst repair_calls_answered)
  ultimately show ?thesis using r by (intro conjI exI [of _ ?req]) (simp_all add: run_request_def RunRequest_new_def)
qed

theorem prepared_run_resumes_session_witness:
  "\<exists>req :: RunRequest. rr_session_id req = ss_key \<and> rr_user_message req = ''hi'' \<and> calls_answered (rr_history req)"
proof -
  have "prepare_run (\<lambda>r. Inr (rr_session_id r)) \<lparr>as_default_model = None, as_list = []\<rparr> Synthesize \<lparr>ro_bindings = []\<rparr> ss_store
      ''1'' ''now'' \<lparr>ap_session_key = ss_key, ap_message = \<lparr>um_role = ''user'', um_content = ''hi''\<rparr>, ap_idempotency_key = None,
        ap_wait = False, ap_history = [], ap_dump_prompts = False, ap_yolo = False, ap_workspace = None, ap_sender = None\<rparr>
      None None (\<lambda>_. None) = Inr (ss_key, \<lparr>aa_run_id = ''run-1'', aa_accepted_at = ''now''\<rparr>, ss_key)"
    by code_simp
  from prepared_run_resumes_session [OF this] show ?thesis by auto
qed

text \<open>C8. The accumulator rebuilds the conversation from the event stream: if the deltas and tool events of
  a run are those of a sequence of turns, each but the last ending a tool call and each but the
  first opening with text, its history is, turn by turn, the assistant message with all its calls
  followed by the results, whatever other events are mixed in and however starts and ends of
  the tools of one turn interleave.\<close>

theorem accumulator_rebuilds_turns:
  assumes "filter (\<lambda>e. is_delta e \<or> is_tool_event e) evs = concat (map turn_events ts)" and "turns_ok ts"
    and "\<forall>e\<in>set evs. \<not> is_end_event e"
  shows "into_history (foldl on_event SessionAccumulator_new evs) = concat (map turn_messages ts)"
proof (cases ts)
  case Nil
  then show ?thesis using assms(1) fold_relevant [OF assms(3)] by (simp add: into_history_def flush_turn_def SessionAccumulator_new_def)
next
  case (Cons t ts')
  have "SessionAccumulator_new = fresh []" by (simp add: SessionAccumulator_new_def fresh_def)
  then show ?thesis
    using Cons assms fold_relevant [OF assms(3)] fold_turn_fresh [of t "[]"] fold_turns [of t ts' "[]"] by simp
qed

definition td_call :: "string \<Rightarrow> ToolCall" where
  "td_call i = \<lparr>tc_id = i, tc_name = ''read'', tc_arguments = ''{}''\<rparr>"

theorem accumulator_rebuilds_turns_witness:
  "into_history (foldl on_event SessionAccumulator_new
     [Lifecycle Start None, AssistantDelta ''a'', ToolStart (td_call ''1''), ToolEnd (td_call ''1'') (ToolResult_ok ''r'') None,
      AssistantDelta ''b'']) =
   [assistant_message ''a'' [provider_call (td_call ''1'')], tool_message (td_call ''1'') (ToolResult_ok ''r''),
    ChatMessage_assistant ''b'']"
proof -
  let ?evs = "[Lifecycle Start None, AssistantDelta ''a'', ToolStart (td_call ''1''), ToolEnd (td_call ''1'') (ToolResult_ok ''r'') None,
      AssistantDelta ''b'']"
  let ?ts = "[([''a''], [ToolStart (td_call ''1''), ToolEnd (td_call ''1'') (ToolResult_ok ''r'') None]), ([''b''], [])]"
  have "concat (map turn_messages ?ts) = [assistant_message ''a'' [provider_call (td_call ''1'')],
      tool_message (td_call ''1'') (ToolResult_ok ''r''), ChatMessage_assistant ''b'']"
    by (simp add: turn_messages_def turn_calls_def turn_results_def map_filter_simps assistant_message_def message_defs)
  then show ?thesis using accumulator_rebuilds_turns [of ?evs ?ts] by (simp add: turn_events_def)
qed

text \<open>Two turns that only call tools are stored as one: without a text delta between them the
  accumulator cannot see the second turn begin, and the transcript shows both calls in one
  assistant message, made before either result was known.\<close>

theorem textless_turns_merge:
  "into_history (foldl on_event SessionAccumulator_new
     [ToolStart c1, ToolEnd c1 r1 m1, ToolStart c2, ToolEnd c2 r2 m2]) =
   [assistant_message [] [provider_call c1, provider_call c2], tool_message c1 r1, tool_message c2 r2]"
  by (simp add: into_history_def flush_turn_def SessionAccumulator_new_def Let_def)


definition td_table :: "(string \<times> TranscriptEntry) list" where
  "td_table = [(''a'', message_entry 5 (ChatMessage_user ''hi'')), (''b'', boundary_entry 6 ss_mark 1),
     (''c'', message_entry 6 (ChatMessage_user ''sum'')), (''d'', message_entry 8 (ChatMessage_assistant ''yes''))]"

definition td_store :: SessionStore where
  "td_store = table_store ''/l'' (\<lambda>_. None) td_table"

definition td_stream :: "(nat \<times> RunEvent) list" where
  "td_stream = [(5, AssistantDelta ''yes''), (6, Compaction ''s'' (Some ss_mark) [ChatMessage_user ''sum'']), (7, Lifecycle End None)]"


end
