(* ===== verification/Provider_Ops.thy ===== *)
theory Provider_Ops
  imports Complex_Main Chat_Types File_Store "HOL-Library.AList"
begin

text \<open>
  Operational concerns of provider calls (\<^verbatim>\<open>legion-provider/src/ops.rs\<close> and the status mapping of
  \<^verbatim>\<open>http.rs\<close>): retry classification and backoff, the token buckets of the rate limiter, and cost
  accounting. Durations of the buckets and costs are rationals where the code has \<open>f64\<close>, so
  rounding is not modelled; milliseconds are numbers. The clock is an argument. What is asked of
  an HTTP error of the client library is a parameter.
\<close>

subsection \<open>Tokens\<close>

definition estimate_tokens :: "(string \<Rightarrow> nat) option \<Rightarrow> string \<Rightarrow> nat" where
  "estimate_tokens bpe s = (case bpe of Some encode_len \<Rightarrow> encode_len s | None \<Rightarrow> char_count s div 4 + 1)"

definition estimate_chat_tokens :: "(string \<Rightarrow> nat) option \<Rightarrow> ChatRequest \<Rightarrow> nat" where
  "estimate_chat_tokens bpe req =
     sum_list (map (\<lambda>m. estimate_tokens bpe (cm_content m)) (cq_messages req)) +
     (case cq_tools req of
        None \<Rightarrow> 0
      | Some defs \<Rightarrow> sum_list (map (\<lambda>d. estimate_tokens bpe (td_name d) + estimate_tokens bpe (td_description d)) defs))"

subsection \<open>HTTP status\<close>

text \<open>What the client library says of its error, and the part of a response that is read.\<close>

record http_info =
  hi_is_timeout :: bool
  hi_is_connect :: bool
  hi_status :: "nat option"

record http_response =
  hr_status :: nat
  hr_reason :: string
  hr_body :: string

definition is_prompt_too_long :: "string \<Rightarrow> bool" where
  "is_prompt_too_long body =
     (let lower = to_lowercase body
      in list_ex (\<lambda>k. contains_str k lower)
           [''context_length_exceeded'', ''maximum context length'', ''prompt is too long'', ''context overflow'',
            ''context_overflow'', ''context length'', ''max tokens''])"

definition check_status :: "http_response \<Rightarrow> bool \<Rightarrow> (ProviderError, http_response) result" where
  "check_status response prompt_too_long =
     (if 200 \<le> hr_status response \<and> hr_status response < 300 then Inr response
      else if prompt_too_long \<and> is_prompt_too_long (hr_body response) then Inl PromptTooLong
      else Inl (StreamAborted (''HTTP '' @ show_nat (hr_status response) @ '' '' @ hr_reason response @ '': '' @ hr_body response)))"

definition is_retryable :: "(string \<Rightarrow> http_info) \<Rightarrow> ProviderError \<Rightarrow> bool" where
  "is_retryable info err =
     (case err of
        Http e \<Rightarrow> hi_is_timeout (info e) \<or> hi_is_connect (info e) \<or>
          (case hi_status (info e) of None \<Rightarrow> False | Some s \<Rightarrow> s = 429 \<or> 500 \<le> s \<and> s < 600)
      | Timeout _ \<Rightarrow> True
      | _ \<Rightarrow> False)"

subsection \<open>Retry policy\<close>

datatype BackoffConfig = Exponential nat nat | Fixed nat

record RetryConfig =
  rt_max_attempts :: nat
  rt_backoff :: BackoffConfig

definition RetryPolicy_from_config :: "RetryConfig \<Rightarrow> RetryConfig" where
  "RetryPolicy_from_config config = config\<lparr>rt_max_attempts := max (rt_max_attempts config) 1\<rparr>"

abbreviation U64_MAX :: nat where
  "U64_MAX \<equiv> 2 ^ 64 - 1"

text \<open>\<open>1u64.checked_shl\<close> fails from a shift by 64 on; the product saturates.\<close>

definition backoff_delay :: "RetryConfig \<Rightarrow> nat \<Rightarrow> nat" where
  "backoff_delay policy attempt =
     (case rt_backoff policy of
        Exponential base_ms max_ms \<Rightarrow>
          let factor = (if attempt - 1 < 64 then 2 ^ (attempt - 1) else U64_MAX)
          in min (min (base_ms * factor) U64_MAX) max_ms
      | Fixed ms \<Rightarrow> ms)"

subsection \<open>Token buckets\<close>

definition MAX_RATE_LIMIT_WAIT :: rat where
  "MAX_RATE_LIMIT_WAIT = 30"

definition F64_MAX :: rat where
  "F64_MAX = (2 ^ 53 - 1) * 2 ^ 971"

record Bucket =
  bk_capacity :: rat
  bk_tokens :: rat
  bk_last_refill :: rat

definition Bucket_new :: "rat \<Rightarrow> rat \<Rightarrow> Bucket" where
  "Bucket_new capacity now = \<lparr>bk_capacity = capacity, bk_tokens = capacity, bk_last_refill = now\<rparr>"

definition seconds_until :: "Bucket \<Rightarrow> rat \<Rightarrow> rat \<Rightarrow> rat \<times> Bucket" where
  "seconds_until b needed now =
     (if bk_capacity b \<le> 0 then (F64_MAX, b)
      else
        let elapsed = now - bk_last_refill b;
            tokens = min (bk_tokens b + elapsed * bk_capacity b / 60) (bk_capacity b);
            b' = b\<lparr>bk_tokens := tokens, bk_last_refill := now\<rparr>
        in (if tokens \<ge> needed then 0 else (needed - tokens) * 60 / bk_capacity b, b'))"

definition bucket_consume :: "Bucket \<Rightarrow> rat \<Rightarrow> Bucket" where
  "bucket_consume b amount = b\<lparr>bk_tokens := bk_tokens b - amount\<rparr>"

record ProviderBuckets =
  pb_rpm :: "Bucket option"
  pb_tpm :: "Bucket option"

type_synonym RateLimiter = "string \<rightharpoonup> ProviderBuckets"

record RateLimitConfig =
  rl_rpm :: "nat option"
  rl_tpm :: "nat option"

definition configure :: "string \<Rightarrow> RateLimitConfig \<Rightarrow> rat \<Rightarrow> RateLimiter \<Rightarrow> RateLimiter" where
  "configure provider_id config now buckets =
     buckets(provider_id \<mapsto> \<lparr>pb_rpm = map_option (\<lambda>n. Bucket_new (of_nat n) now) (rl_rpm config),
                          pb_tpm = map_option (\<lambda>n. Bucket_new (of_nat n) now) (rl_tpm config)\<rparr>)"

definition is_configured :: "string \<Rightarrow> RateLimiter \<Rightarrow> bool" where
  "is_configured provider_id buckets \<longleftrightarrow> buckets provider_id \<noteq> None"

definition bucket_wait :: "Bucket option \<Rightarrow> rat \<Rightarrow> rat \<Rightarrow> rat \<times> Bucket option" where
  "bucket_wait b needed now =
     (case b of None \<Rightarrow> (0, None) | Some b \<Rightarrow> let (w, b') = seconds_until b needed now in (w, Some b'))"

text \<open>The two critical sections of \<open>acquire\<close>: refilling and computing the wait, and consuming.\<close>

definition acquire_check :: "ProviderBuckets \<Rightarrow> nat \<Rightarrow> rat \<Rightarrow> rat \<times> ProviderBuckets" where
  "acquire_check p est_tokens now =
     (let (rpm_wait, rpm) = bucket_wait (pb_rpm p) 1 now;
          (tpm_wait, tpm) = bucket_wait (pb_tpm p) (of_nat est_tokens) now
      in (max rpm_wait tpm_wait, \<lparr>pb_rpm = rpm, pb_tpm = tpm\<rparr>))"

definition acquire_take :: "nat \<Rightarrow> ProviderBuckets \<Rightarrow> ProviderBuckets" where
  "acquire_take est_tokens p =
     \<lparr>pb_rpm = map_option (\<lambda>b. bucket_consume b 1) (pb_rpm p),
      pb_tpm = map_option (\<lambda>b. bucket_consume b (of_nat est_tokens)) (pb_tpm p)\<rparr>"

text \<open>The loop of one task, with fuel. A sleep lasts as long as asked for and \<open>late\<close> on top.\<close>

fun acquire_loop ::
  "nat \<Rightarrow> string \<Rightarrow> nat \<Rightarrow> (nat \<Rightarrow> rat) \<Rightarrow> rat \<Rightarrow> rat \<Rightarrow> RateLimiter \<Rightarrow>
     ((ProviderError, unit) result \<times> rat \<times> RateLimiter) option" where
  "acquire_loop 0 provider_id est_tokens late waited now buckets = None"
| "acquire_loop (Suc n) provider_id est_tokens late waited now buckets =
     (case buckets provider_id of
        None \<Rightarrow> Some (Inr (), now, buckets)
      | Some p \<Rightarrow>
          let (wait_secs, p') = acquire_check p est_tokens now; buckets' = buckets(provider_id \<mapsto> p')
          in if wait_secs \<le> 0 then Some (Inr (), now, buckets(provider_id \<mapsto> acquire_take est_tokens p'))
             else
               let wait = min wait_secs 60
               in if waited + wait > MAX_RATE_LIMIT_WAIT then Some (Inl (RateLimited provider_id), now, buckets')
                  else acquire_loop n provider_id est_tokens late (waited + wait) (now + wait + late n) buckets')"

text \<open>Enough fuel: two rounds, or for a request larger than a bucket as many as fit the budget.\<close>

definition oversize_wait :: "rat \<Rightarrow> Bucket \<Rightarrow> rat" where
  "oversize_wait needed b =
     (if bk_capacity b \<le> 0 then 60 else min 60 ((needed - bk_capacity b) * 60 / bk_capacity b))"

definition bucket_fuel :: "rat \<Rightarrow> Bucket option \<Rightarrow> nat" where
  "bucket_fuel needed b =
     (case b of
        None \<Rightarrow> 0
      | Some b \<Rightarrow> if bk_capacity b < needed then nat \<lceil>30 / oversize_wait needed b\<rceil> + 1 else 0)"

definition acquire_fuel :: "nat \<Rightarrow> ProviderBuckets option \<Rightarrow> nat" where
  "acquire_fuel est_tokens p =
     2 + (case p of None \<Rightarrow> 0 | Some p \<Rightarrow> bucket_fuel 1 (pb_rpm p) + bucket_fuel (of_nat est_tokens) (pb_tpm p))"

definition acquire ::
  "string \<Rightarrow> nat \<Rightarrow> (nat \<Rightarrow> rat) \<Rightarrow> rat \<Rightarrow> RateLimiter \<Rightarrow> ((ProviderError, unit) result \<times> rat \<times> RateLimiter) option" where
  "acquire provider_id est_tokens late now buckets =
     acquire_loop (acquire_fuel est_tokens (buckets provider_id)) provider_id est_tokens late 0 now buckets"

subsection \<open>Costs\<close>

record ModelCost =
  mc_input_per_1k :: rat
  mc_output_per_1k :: rat

record ModelCostStats =
  ms_calls :: nat
  ms_input_tokens :: nat
  ms_output_tokens :: nat
  ms_cost_usd :: rat
  ms_estimated_calls :: nat

definition default_ModelCostStats :: ModelCostStats where
  "default_ModelCostStats = \<lparr>ms_calls = 0, ms_input_tokens = 0, ms_output_tokens = 0, ms_cost_usd = 0, ms_estimated_calls = 0\<rparr>"

record CostSnapshot =
  cs_models :: "(string \<times> ModelCostStats) list"
  cs_total_cost_usd :: rat

text \<open>The tables are association lists; \<open>persist\<close> is the file with the means to write it.\<close>

record cost_file =
  cf_path :: string
  cf_faults :: faults
  cf_stamp :: "nat \<times> nat"
  cf_from_str :: "string \<Rightarrow> CostSnapshot option"
  cf_to_string_pretty :: "CostSnapshot \<Rightarrow> string option"

record CostTracker =
  ctr_rates :: "string \<rightharpoonup> ModelCost"
  ctr_inner :: "(string \<times> ModelCostStats) list"
  ctr_persist :: "cost_file option"

definition cost_snapshot :: "(string \<times> ModelCostStats) list \<Rightarrow> CostSnapshot" where
  "cost_snapshot inner = \<lparr>cs_models = inner, cs_total_cost_usd = sum_list (map (ms_cost_usd \<circ> snd) inner)\<rparr>"

definition CostTracker_new :: "(string \<rightharpoonup> ModelCost) \<Rightarrow> cost_file option \<Rightarrow> files \<Rightarrow> CostTracker" where
  "CostTracker_new rates persist fs =
     (let initial = (case persist of
            None \<Rightarrow> []
          | Some f \<Rightarrow>
              if fs_exists (path_components (cf_path f)) fs then
                (case fs_read (cf_faults f) (path_components (cf_path f)) fs of
                   Inl _ \<Rightarrow> []
                 | Inr content \<Rightarrow> (case cf_from_str f content of None \<Rightarrow> [] | Some s \<Rightarrow> cs_models s))
              else [])
      in \<lparr>ctr_rates = rates, ctr_inner = initial, ctr_persist = persist\<rparr>)"

definition rate_for :: "CostTracker \<Rightarrow> string \<Rightarrow> ModelCost option" where
  "rate_for t model_key =
     or_opt (ctr_rates t model_key) (ctr_rates t (last (split_on (CHR ''/'') model_key)))"

definition call_cost :: "CostTracker \<Rightarrow> string \<Rightarrow> nat \<Rightarrow> nat \<Rightarrow> rat" where
  "call_cost t model_key input_tokens output_tokens =
     (case rate_for t model_key of
        None \<Rightarrow> 0
      | Some rate \<Rightarrow> of_nat input_tokens / 1000 * mc_input_per_1k rate + of_nat output_tokens / 1000 * mc_output_per_1k rate)"

definition persist_costs :: "cost_file \<Rightarrow> (string \<times> ModelCostStats) list \<Rightarrow> files \<Rightarrow> files" where
  "persist_costs f inner fs =
     (case cf_to_string_pretty f (cost_snapshot inner) of
        None \<Rightarrow> fs
      | Some s \<Rightarrow> snd (atomic_write (cf_faults f) (cf_stamp f) (path_components (cf_path f)) s fs))"

definition record_cost :: "CostTracker \<Rightarrow> string \<Rightarrow> nat \<Rightarrow> nat \<Rightarrow> bool \<Rightarrow> files \<Rightarrow> CostTracker \<times> files" where
  "record_cost t model_key input_tokens output_tokens estimated fs =
     (let entry = unwrap_or (map_of (ctr_inner t) model_key) default_ModelCostStats;
          entry' = \<lparr>ms_calls = ms_calls entry + 1, ms_input_tokens = ms_input_tokens entry + input_tokens,
            ms_output_tokens = ms_output_tokens entry + output_tokens,
            ms_cost_usd = ms_cost_usd entry + call_cost t model_key input_tokens output_tokens,
            ms_estimated_calls = ms_estimated_calls entry + (if estimated then 1 else 0)\<rparr>;
          inner = AList.update model_key entry' (ctr_inner t)
      in (t\<lparr>ctr_inner := inner\<rparr>, case ctr_persist t of None \<Rightarrow> fs | Some f \<Rightarrow> persist_costs f inner fs))"

text \<open>A tracked stream that is polled \<open>polls\<close> times: the items it yields, and the tracker, which
  records when the end of the stream is seen.\<close>

definition stream_text :: "chat_stream \<Rightarrow> string" where
  "stream_text items = concat (map (\<lambda>r. case r of Inr c \<Rightarrow> cc_delta c | Inl _ \<Rightarrow> []) items)"

definition track_chat_cost ::
  "(string \<Rightarrow> nat) option \<Rightarrow> chat_stream \<Rightarrow> nat \<Rightarrow> string \<Rightarrow> nat \<Rightarrow> CostTracker \<Rightarrow> files \<Rightarrow> chat_stream \<times> CostTracker \<times> files" where
  "track_chat_cost bpe stream polls model_key input_tokens t fs =
     (if length stream < polls
      then (stream, record_cost t model_key input_tokens (estimate_tokens bpe (stream_text stream)) True fs)
      else (take polls stream, t, fs))"

subsection \<open>Facts\<close>

definition bucket_ok :: "rat \<Rightarrow> Bucket \<Rightarrow> bool" where
  "bucket_ok now b \<longleftrightarrow> 0 \<le> bk_capacity b \<and> bk_last_refill b \<le> now"

lemma seconds_until_capacity [simp]: "bk_capacity (snd (seconds_until b needed now)) = bk_capacity b"
  by (simp add: seconds_until_def Let_def)

lemma seconds_until_ok: "bucket_ok now b \<Longrightarrow> now \<le> now' \<Longrightarrow> bucket_ok now' (snd (seconds_until b needed now))"
  by (auto simp: bucket_ok_def seconds_until_def Let_def)

text \<open>A request that fits the bucket is served after the wait it was told.\<close>

lemma seconds_until_fits:
  assumes "needed \<le> bk_capacity b" and "0 < needed \<or> 0 < bk_capacity b" and "seconds_until b needed now = (w, b')" and "now + w \<le> now'"
  shows "fst (seconds_until b' needed now') = 0"
proof -
  let ?t = "min (bk_tokens b + (now - bk_last_refill b) * bk_capacity b / 60) (bk_capacity b)"
  have cap: "0 < bk_capacity b" using assms(1,2) by auto
  then have b': "b' = b\<lparr>bk_tokens := ?t, bk_last_refill := now\<rparr>" and w: "w = (if ?t \<ge> needed then 0 else (needed - ?t) * 60 / bk_capacity b)"
    using assms(3) by (auto simp: seconds_until_def Let_def)
  have "needed - ?t \<le> w * bk_capacity b / 60" using cap w by auto
  also have "\<dots> \<le> (now' - now) * bk_capacity b / 60" using assms(4) cap by (simp add: mult_right_mono)
  finally have "needed \<le> ?t + (now' - now) * bk_capacity b / 60" by simp
  then show ?thesis using cap assms(1) b' by (auto simp: seconds_until_def Let_def)
qed

lemma seconds_until_nonneg: "0 \<le> bk_capacity b \<Longrightarrow> 0 \<le> fst (seconds_until b needed now)"
  by (auto simp: seconds_until_def Let_def F64_MAX_def)

lemma F64_MAX_large: "60 \<le> F64_MAX"
  by (simp add: F64_MAX_def)

text \<open>A request larger than the bucket always waits at least the same time.\<close>

lemma seconds_until_oversize:
  assumes "bk_capacity b < needed"
  shows "oversize_wait needed b \<le> fst (seconds_until b needed now)" and "0 \<le> bk_capacity b \<Longrightarrow> 0 < oversize_wait needed b"
proof -
  let ?t = "min (bk_tokens b + (now - bk_last_refill b) * bk_capacity b / 60) (bk_capacity b)"
  have "(needed - bk_capacity b) * 60 / bk_capacity b \<le> (needed - ?t) * 60 / bk_capacity b" if "0 < bk_capacity b"
    using that by (intro divide_right_mono mult_right_mono) auto
  then show "oversize_wait needed b \<le> fst (seconds_until b needed now)"
    using assms F64_MAX_large by (auto simp: oversize_wait_def seconds_until_def Let_def min_def not_le)
  show "0 \<le> bk_capacity b \<Longrightarrow> 0 < oversize_wait needed b" using assms by (auto simp: oversize_wait_def)
qed

definition opt_ok :: "rat \<Rightarrow> Bucket option \<Rightarrow> bool" where
  "opt_ok now b \<longleftrightarrow> (case b of None \<Rightarrow> True | Some b \<Rightarrow> bucket_ok now b)"

definition opt_fits :: "rat \<Rightarrow> Bucket option \<Rightarrow> bool" where
  "opt_fits needed b \<longleftrightarrow> (case b of None \<Rightarrow> True | Some b \<Rightarrow> needed \<le> bk_capacity b \<and> 0 < bk_capacity b)"

definition buckets_ok :: "rat \<Rightarrow> ProviderBuckets \<Rightarrow> bool" where
  "buckets_ok now p \<longleftrightarrow> opt_ok now (pb_rpm p) \<and> opt_ok now (pb_tpm p)"

text \<open>The waits an acquisition that is too large for a bucket sees.\<close>

definition waits_at_least :: "nat \<Rightarrow> rat \<Rightarrow> ProviderBuckets \<Rightarrow> bool" where
  "waits_at_least est d p \<longleftrightarrow>
     (\<exists>b. pb_rpm p = Some b \<and> bk_capacity b < 1 \<and> d \<le> oversize_wait 1 b) \<or>
     (\<exists>b. pb_tpm p = Some b \<and> bk_capacity b < of_nat est \<and> d \<le> oversize_wait (of_nat est) b)"

lemma bucket_wait_fits:
  "opt_fits needed b \<Longrightarrow> bucket_wait b needed now = (w, b') \<Longrightarrow> now + w \<le> now' \<Longrightarrow> fst (bucket_wait b' needed now') = 0"
  using seconds_until_fits [of needed] by (fastforce simp: opt_fits_def bucket_wait_def split: option.splits prod.splits)

lemma bucket_wait_capacity:
  "map_option bk_capacity (snd (bucket_wait b needed now)) = map_option bk_capacity b"
  using seconds_until_capacity by (auto simp: bucket_wait_def case_prod_beta split: option.splits)

lemma bucket_wait_ok:
  "opt_ok now b \<Longrightarrow> now \<le> now' \<Longrightarrow> opt_ok now' (snd (bucket_wait b needed now)) \<and> 0 \<le> fst (bucket_wait b needed now)"
  using seconds_until_ok [of now _ now' needed] seconds_until_nonneg
  by (cases b) (auto simp: bucket_wait_def case_prod_beta opt_ok_def bucket_ok_def)

lemma acquire_check_parts:
  "acquire_check p est now = (max (fst (bucket_wait (pb_rpm p) 1 now)) (fst (bucket_wait (pb_tpm p) (of_nat est) now)),
     \<lparr>pb_rpm = snd (bucket_wait (pb_rpm p) 1 now), pb_tpm = snd (bucket_wait (pb_tpm p) (of_nat est) now)\<rparr>)"
  by (simp add: acquire_check_def case_prod_beta Let_def)

lemma acquire_check_ok:
  "buckets_ok now p \<Longrightarrow> now \<le> now' \<Longrightarrow> buckets_ok now' (snd (acquire_check p est now)) \<and> 0 \<le> fst (acquire_check p est now)"
  using bucket_wait_ok by (auto simp: acquire_check_parts buckets_ok_def le_max_iff_disj)

lemma oversize_wait_until [simp]: "oversize_wait n (snd (seconds_until b needed now)) = oversize_wait n b"
  by (simp add: oversize_wait_def)

lemma bucket_wait_Some:
  "bucket_wait (Some b) needed now = (fst (seconds_until b needed now), Some (snd (seconds_until b needed now)))"
  by (simp add: bucket_wait_def case_prod_beta)

lemma waits_at_least_check:
  assumes "waits_at_least est d p"
  shows "d \<le> fst (acquire_check p est now) \<and> waits_at_least est d (snd (acquire_check p est now))"
proof -
  from assms consider b where "pb_rpm p = Some b" "bk_capacity b < 1" "d \<le> oversize_wait 1 b"
    | b where "pb_tpm p = Some b" "bk_capacity b < of_nat est" "d \<le> oversize_wait (of_nat est) b"
    unfolding waits_at_least_def by blast
  then show ?thesis
    by cases (use seconds_until_oversize(1) order_trans in \<open>fastforce simp: waits_at_least_def acquire_check_parts
      bucket_wait_Some le_max_iff_disj\<close>)+
qed

lemma acquire_loop_oversize:
  assumes "0 < d" and "d \<le> 60" and "\<forall>i. 0 \<le> late i"
  shows "waited \<le> 30 \<Longrightarrow> 30 - waited < of_nat n * d \<Longrightarrow> buckets pid = Some p \<Longrightarrow> waits_at_least est d p \<Longrightarrow>
     \<exists>now' buckets'. acquire_loop n pid est late waited now buckets = Some (Inl (RateLimited pid), now', buckets')"
proof (induction n arbitrary: waited now buckets p)
  case (Suc n)
  obtain w p' where c: "acquire_check p est now = (w, p')" by fastforce
  with waits_at_least_check [OF Suc.prems(4), of now] have w: "d \<le> w" "waits_at_least est d p'" by auto
  then have wait: "d \<le> min w 60" using assms(2) by simp
  show ?case
  proof (cases "waited + min w 60 > MAX_RATE_LIMIT_WAIT")
    case True
    with w(1) assms(1) c Suc.prems(3) show ?thesis by auto
  next
    case False
    then have "waited + min w 60 \<le> 30" by (simp add: MAX_RATE_LIMIT_WAIT_def)
    moreover have "30 - waited < d + of_nat n * d" using Suc.prems(2) by (simp add: distrib_right)
    then have "30 - (waited + min w 60) < of_nat n * d" using wait by linarith
    ultimately obtain now' buckets' where
      "acquire_loop n pid est late (waited + min w 60) (now + min w 60 + late n) (buckets(pid \<mapsto> p')) =
         Some (Inl (RateLimited pid), now', buckets')"
      using Suc.IH [of "waited + min w 60" "buckets(pid \<mapsto> p')" p'] w(2) by fastforce
    then show ?thesis using False w(1) assms(1) c Suc.prems(3) by auto
  qed
qed auto

lemma acquire_loop_fits:
  assumes "\<forall>i. 0 \<le> late i" and "buckets pid = Some p" and "opt_fits 1 (pb_rpm p)" and "opt_fits (of_nat est) (pb_tpm p)"
  shows "\<exists>res x. acquire_loop (Suc (Suc n)) pid est late 0 now buckets = Some (res, x) \<and>
    (res = Inr () \<longleftrightarrow> fst (acquire_check p est now) \<le> 30)"
proof -
  obtain w1 b1 w2 b2 where b: "bucket_wait (pb_rpm p) 1 now = (w1, b1)" "bucket_wait (pb_tpm p) (of_nat est) now = (w2, b2)"
    by fastforce
  let ?w = "max w1 w2" and ?p = "\<lparr>pb_rpm = b1, pb_tpm = b2\<rparr>"
  have c: "acquire_check p est now = (?w, ?p)" by (simp add: acquire_check_parts b)
  show ?thesis
  proof (cases "?w \<le> 0 \<or> min ?w 60 > MAX_RATE_LIMIT_WAIT")
    case True
    then show ?thesis using assms(2) c by (auto simp: Let_def MAX_RATE_LIMIT_WAIT_def)
  next
    case False
    then have m: "min ?w 60 = ?w" by (auto simp: MAX_RATE_LIMIT_WAIT_def min_def)
    let ?now = "now + ?w + late (Suc n)"
    have "now + w1 \<le> ?now" "now + w2 \<le> ?now" using assms(1) by (auto simp: add_increasing2 max_def)
    then have "fst (acquire_check ?p est ?now) = 0"
      using bucket_wait_fits [OF assms(3) b(1)] bucket_wait_fits [OF assms(4) b(2)] by (simp add: acquire_check_parts)
    then obtain p' where "acquire_check ?p est ?now = (0, p')" by (cases "acquire_check ?p est ?now") auto
    then show ?thesis using False m assms(2) c by (auto simp: Let_def MAX_RATE_LIMIT_WAIT_def)
  qed
qed

definition limiter_ok :: "string \<Rightarrow> nat \<Rightarrow> RateLimiter \<Rightarrow> bool" where
  "limiter_ok pid est buckets \<longleftrightarrow>
     (\<forall>p b. buckets pid = Some p \<and> (pb_rpm p = Some b \<or> pb_tpm p = Some b) \<longrightarrow> 0 \<le> bk_capacity b)"

lemma fuel_enough:
  assumes "0 < (d::rat)" shows "30 < of_nat (2 + m + (nat \<lceil>30 / d\<rceil> + 1)) * d"
proof -
  have "30 / d \<le> of_int \<lceil>30 / d\<rceil>" by (rule le_of_int_ceiling)
  also have "\<dots> \<le> of_nat (nat \<lceil>30 / d\<rceil>)" by (simp add: of_nat_nat)
  also have "\<dots> < of_nat (2 + m + (nat \<lceil>30 / d\<rceil> + 1))" by simp
  finally show ?thesis using assms by (simp add: pos_divide_less_eq)
qed

lemma acquire_oversize:
  assumes "\<forall>i. 0 \<le> late i" and "buckets pid = Some p" and "limiter_ok pid est buckets"
    and "pb_rpm p = Some b \<and> bk_capacity b < 1 \<and> (n :: rat) = 1 \<or> pb_tpm p = Some b \<and> bk_capacity b < of_nat est \<and> n = of_nat est"
  shows "\<exists>now' buckets'. acquire pid est late now buckets = Some (Inl (RateLimited pid), now', buckets')"
proof -
  let ?d = "oversize_wait n b"
  have cap: "bk_capacity b < n" "0 \<le> bk_capacity b" using assms(2-4) by (auto simp: limiter_ok_def)
  have d: "0 < ?d" "?d \<le> 60" using seconds_until_oversize(2) [OF cap] by (auto simp: oversize_wait_def)
  have w: "waits_at_least est ?d p" using assms(4) by (auto simp: waits_at_least_def)
  have "\<exists>m. acquire_fuel est (buckets pid) = 2 + m + (nat \<lceil>30 / ?d\<rceil> + 1)"
    using assms(2,4) cap(1) by (auto simp: acquire_fuel_def bucket_fuel_def)
  then have "30 - 0 < of_nat (acquire_fuel est (buckets pid)) * ?d" using fuel_enough [OF d(1)] by auto
  then show ?thesis
    using acquire_loop_oversize [of ?d late 0 "acquire_fuel est (buckets pid)" buckets pid p est now] d assms(1,2) w
    by (simp add: acquire_def)
qed

lemma acquire_empty_bucket:
  assumes "buckets pid = Some p" and "pb_rpm p = Some b \<or> pb_tpm p = Some b" and "bk_capacity b \<le> 0"
  shows "\<exists>x. acquire_loop (Suc n) pid est late 0 now buckets = Some (Inl (RateLimited pid), x)"
proof -
  have "60 \<le> fst (acquire_check p est now)"
    using assms(2,3) F64_MAX_large by (auto simp: acquire_check_parts bucket_wait_Some seconds_until_def le_max_iff_disj)
  then have "MAX_RATE_LIMIT_WAIT < min (fst (acquire_check p est now)) 60" "\<not> fst (acquire_check p est now) \<le> 0"
    by (auto simp: MAX_RATE_LIMIT_WAIT_def)
  then show ?thesis using assms(1) by (simp add: case_prod_beta Let_def)
qed

text \<open>What a bucket holds at a time, and the decision of an acquisition: it is let through exactly when
  the buckets can hold what it needs and refill to it within thirty seconds.\<close>

definition level :: "Bucket \<Rightarrow> rat \<Rightarrow> rat" where
  "level b now = min (bk_capacity b) (bk_tokens b + (now - bk_last_refill b) * bk_capacity b / 60)"

definition within_reach :: "rat \<Rightarrow> Bucket \<Rightarrow> rat \<Rightarrow> bool" where
  "within_reach needed b now \<longleftrightarrow>
     0 < bk_capacity b \<and> needed \<le> bk_capacity b \<and> needed \<le> level b now + bk_capacity b * 30 / 60"

lemma seconds_until_level:
  assumes "0 < bk_capacity b"
  shows "fst (seconds_until b needed now) \<le> 30 \<longleftrightarrow> needed \<le> level b now + bk_capacity b * 30 / 60"
proof -
  have "fst (seconds_until b needed now) = (if needed \<le> level b now then 0 else (needed - level b now) * 60 / bk_capacity b)"
    using assms by (simp add: seconds_until_def level_def Let_def min.commute)
  then show ?thesis using assms by (auto simp: field_simps)
qed

lemma acquire_decides:
  assumes "\<forall>i. 0 \<le> late i" and "buckets pid = Some \<lparr>pb_rpm = Some b1, pb_tpm = Some b2\<rparr>" (is "_ = Some ?p")
    and "0 \<le> bk_capacity b1" and "0 \<le> bk_capacity b2"
  shows "\<exists>res x. acquire pid est late now buckets = Some (res, x) \<and>
    (res = Inr () \<longleftrightarrow> within_reach 1 b1 now \<and> within_reach (of_nat est) b2 now)"
proof -
  obtain n where fuel: "acquire_fuel est (buckets pid) = Suc (Suc n)" by (auto simp: acquire_fuel_def)
  have ok: "limiter_ok pid est buckets" using assms(2-4) by (auto simp: limiter_ok_def)
  consider "bk_capacity b1 \<le> 0" | "bk_capacity b2 \<le> 0" | "bk_capacity b1 < 1" | "bk_capacity b2 < of_nat est"
    | "opt_fits 1 (Some b1)" "opt_fits (of_nat est) (Some b2)" by (fastforce simp: opt_fits_def not_less)
  then show ?thesis
  proof cases
    case 1
    then show ?thesis using acquire_empty_bucket [of buckets pid ?p b1, OF assms(2)] fuel by (fastforce simp: acquire_def within_reach_def)
  next
    case 2
    then show ?thesis using acquire_empty_bucket [of buckets pid ?p b2, OF assms(2)] fuel by (fastforce simp: acquire_def within_reach_def)
  next
    case 3
    then show ?thesis using acquire_oversize [of late buckets pid ?p est b1 1 now, OF assms(1,2) ok] by (fastforce simp: within_reach_def)
  next
    case 4
    then show ?thesis using acquire_oversize [of late buckets pid ?p est b2 "of_nat est" now, OF assms(1,2) ok] by (fastforce simp: within_reach_def)
  next
    case 5
    have "fst (acquire_check ?p est now) \<le> 30 \<longleftrightarrow> within_reach 1 b1 now \<and> within_reach (of_nat est) b2 now"
      using 5 seconds_until_level by (simp add: acquire_check_parts bucket_wait_Some opt_fits_def within_reach_def)
    then show ?thesis using acquire_loop_fits [of late buckets pid ?p est n now, OF assms(1,2)] 5 fuel by (simp add: acquire_def)
  qed
qed

text \<open>Acquisitions of one provider, each made after the one before has returned: when it is called, the
  tokens it asks for and how late its sleeps end. The result lists the amounts that were let
  through, the time at which the last call returned and the limiter then.\<close>

fun acquisitions ::
  "string \<Rightarrow> (rat \<times> nat \<times> (nat \<Rightarrow> rat)) list \<Rightarrow> rat \<Rightarrow> RateLimiter \<Rightarrow> nat list \<times> rat \<times> RateLimiter" where
  "acquisitions pid [] now buckets = ([], now, buckets)"
| "acquisitions pid ((start, est, late) # rest) now buckets =
     (case acquire pid est late (max now start) buckets of
        None \<Rightarrow> ([], now, buckets)
      | Some (r, now', buckets') \<Rightarrow>
          let (granted, T, buckets'') = acquisitions pid rest now' buckets'
          in ((case r of Inr _ \<Rightarrow> est # granted | Inl _ \<Rightarrow> granted), T, buckets''))"

text \<open>The balance of a bucket: what is left and what was spent never exceed the initial filling and
  the refill since.\<close>

definition balanced :: "rat \<Rightarrow> rat \<Rightarrow> rat \<Rightarrow> rat \<Rightarrow> Bucket option \<Rightarrow> bool" where
  "balanced cap t0 spent now b \<longleftrightarrow>
     (\<exists>b'. b = Some b' \<and> bk_capacity b' = cap \<and> 0 \<le> bk_tokens b' \<and> bk_last_refill b' \<le> now \<and>
        bk_tokens b' + spent \<le> cap + cap * (bk_last_refill b' - t0) / 60)"

lemma balanced_wait:
  assumes "balanced cap t0 spent t b" and "t \<le> now" and "0 \<le> cap" and "0 \<le> needed"
  shows "balanced cap t0 spent now (snd (bucket_wait b needed now))"
    and "fst (bucket_wait b needed now) \<le> 0 \<Longrightarrow>
      balanced cap t0 (spent + needed) now (map_option (\<lambda>b. bucket_consume b needed) (snd (bucket_wait b needed now)))"
proof -
  obtain b' where b: "b = Some b'" "bk_capacity b' = cap" "0 \<le> bk_tokens b'" "bk_last_refill b' \<le> t"
    "bk_tokens b' + spent \<le> cap + cap * (bk_last_refill b' - t0) / 60" using assms(1) by (auto simp: balanced_def)
  let ?t = "min (bk_tokens b' + (now - bk_last_refill b') * cap / 60) cap"
  have pos: "0 \<le> (now - bk_last_refill b') * cap / 60" using assms(2,3) b(4) by simp
  have t: "0 \<le> ?t" "?t + spent \<le> cap + cap * (now - t0) / 60"
    using b(3,5) pos assms(3) by (auto simp: min_def field_simps)
  show "balanced cap t0 spent now (snd (bucket_wait b needed now))"
    using b t assms(2) by (auto simp: balanced_def bucket_wait_Some seconds_until_def Let_def)
  show "balanced cap t0 (spent + needed) now (map_option (\<lambda>b. bucket_consume b needed) (snd (bucket_wait b needed now)))"
    if "fst (bucket_wait b needed now) \<le> 0"
  proof -
    have cap: "0 < cap" using that F64_MAX_large b(1,2) assms(3) by (auto simp: bucket_wait_Some seconds_until_def split: if_splits)
    have "needed \<le> ?t"
    proof (rule ccontr)
      assume "\<not> needed \<le> ?t"
      then have "0 < needed - ?t" by linarith
      then have "0 < (needed - ?t) * 60 / cap" using cap by (intro divide_pos_pos mult_pos_pos) auto
      with that \<open>\<not> needed \<le> ?t\<close> cap b(1,2) show False by (auto simp: bucket_wait_Some seconds_until_def Let_def)
    qed
    then show ?thesis using b t cap by (auto simp: balanced_def bucket_wait_Some seconds_until_def bucket_consume_def Let_def)
  qed
qed

lemma balanced_bound:
  assumes "balanced cap t0 spent now b" and "0 \<le> cap" and "now \<le> T"
  shows "spent \<le> cap + cap * (T - t0) / 60"
proof -
  obtain b' :: Bucket where b: "0 \<le> bk_tokens b'" "bk_last_refill b' \<le> now"
    "bk_tokens b' + spent \<le> cap + cap * (bk_last_refill b' - t0) / 60" using assms(1) unfolding balanced_def by blast
  have "cap * (bk_last_refill b' - t0) / 60 \<le> cap * (T - t0) / 60"
    using b(2) assms(2,3) by (simp add: mult_left_mono)
  with b show ?thesis by linarith
qed

text \<open>Both buckets of a provider, after \<open>n\<close> requests of \<open>s\<close> tokens in all were let through.\<close>

definition limits_balanced :: "rat \<Rightarrow> rat \<Rightarrow> rat \<Rightarrow> nat \<Rightarrow> nat \<Rightarrow> rat \<Rightarrow> ProviderBuckets option \<Rightarrow> bool" where
  "limits_balanced r c t0 n s now p \<longleftrightarrow>
     (\<exists>p'. p = Some p' \<and> balanced r t0 (of_nat n) now (pb_rpm p') \<and> balanced c t0 (of_nat s) now (pb_tpm p'))"

lemma balanced_mono: "balanced cap t0 spent t b \<Longrightarrow> t \<le> now \<Longrightarrow> balanced cap t0 spent now b"
  by (force simp: balanced_def)

lemma limits_balanced_check:
  assumes "limits_balanced r c t0 n s t (Some p)" and "t \<le> now" and "0 \<le> r" and "0 \<le> c" and "acquire_check p est now = (w, p')"
  shows "limits_balanced r c t0 n s now (Some p')"
    and "w \<le> 0 \<Longrightarrow> limits_balanced r c t0 (Suc n) (s + est) now (Some (acquire_take est p'))"
proof -
  have b: "balanced r t0 (of_nat n) t (pb_rpm p)" "balanced c t0 (of_nat s) t (pb_tpm p)"
    using assms(1) by (auto simp: limits_balanced_def)
  note rpm = balanced_wait [OF b(1) assms(2,3), of 1] and tpm = balanced_wait [OF b(2) assms(2,4), of "of_nat est"]
  show "limits_balanced r c t0 n s now (Some p')"
    using rpm(1) tpm(1) assms(5) by (auto simp: limits_balanced_def acquire_check_parts)
  show "limits_balanced r c t0 (Suc n) (s + est) now (Some (acquire_take est p'))" if "w \<le> 0"
    using rpm(2) tpm(2) assms(5) that by (auto simp: limits_balanced_def acquire_check_parts acquire_take_def add.commute)
qed

lemma acquire_loop_balanced:
  assumes "acquire_loop m pid est late waited now buckets = Some (res, now', buckets')" and "\<forall>i. 0 \<le> late i"
    and "limits_balanced r c t0 n s now (buckets pid)" and "0 \<le> r" and "0 \<le> c"
  shows "now \<le> now' \<and> limits_balanced r c t0 (case res of Inr _ \<Rightarrow> Suc n | Inl _ \<Rightarrow> n)
    (case res of Inr _ \<Rightarrow> s + est | Inl _ \<Rightarrow> s) now' (buckets' pid)"
  using assms
proof (induction m arbitrary: waited now buckets)
  case (Suc m)
  obtain p where p: "buckets pid = Some p" using Suc.prems(3) by (auto simp: limits_balanced_def)
  obtain w p' where w: "acquire_check p est now = (w, p')" by fastforce
  note chk = limits_balanced_check [OF Suc.prems(3)[unfolded p] order_refl Suc.prems(4,5) w]
  consider "w \<le> 0" | "0 < w" "MAX_RATE_LIMIT_WAIT < waited + min w 60" | "0 < w" "\<not> MAX_RATE_LIMIT_WAIT < waited + min w 60"
    by linarith
  then show ?case
  proof cases
    case 3
    let ?now = "now + min w 60 + late m"
    have now: "now \<le> ?now" using 3(1) Suc.prems(2) by (simp add: add_increasing2)
    have "limits_balanced r c t0 n s ?now (Some p')"
      using chk(1) now balanced_mono by (fastforce simp: limits_balanced_def)
    moreover have "acquire_loop m pid est late (waited + min w 60) ?now (buckets(pid \<mapsto> p')) = Some (res, now', buckets')"
      using Suc.prems(1) 3 p w by (simp add: Let_def)
    ultimately show ?thesis using Suc.IH Suc.prems(2,4,5) now by fastforce
  qed (use Suc.prems(1) p w chk in \<open>auto simp: Let_def\<close>)
qed simp

lemma limits_balanced_parts:
  "limits_balanced r c t0 n s now p \<Longrightarrow>
     \<exists>b1 b2. p = Some \<lparr>pb_rpm = Some b1, pb_tpm = Some b2\<rparr> \<and> bk_capacity b1 = r \<and> bk_capacity b2 = c"
  by (intro exI [of _ "the (pb_rpm (the p))"] exI [of _ "the (pb_tpm (the p))"])
    (auto simp: limits_balanced_def balanced_def intro: ProviderBuckets.equality)

lemma acquisitions_balanced:
  assumes "0 \<le> r" and "0 \<le> c" and "\<forall>(start, est, late) \<in> set reqs. \<forall>i. 0 \<le> late i"
  shows "limits_balanced r c t0 n s now (buckets pid) \<Longrightarrow> acquisitions pid reqs now buckets = (granted, T, B) \<Longrightarrow>
     limits_balanced r c t0 (n + length granted) (s + sum_list granted) T (B pid)"
  using assms(3)
proof (induction reqs arbitrary: now n s buckets granted)
  case (Cons x reqs)
  obtain start est late where x: "x = (start, est, late)" by (cases x) auto
  have late: "\<forall>i. 0 \<le> late i" using Cons.prems(3) x by simp
  have bal: "limits_balanced r c t0 n s (max now start) (buckets pid)"
    using Cons.prems(1) balanced_mono by (fastforce simp: limits_balanced_def)
  obtain res now' buckets' where a: "acquire pid est late (max now start) buckets = Some (res, now', buckets')"
    using limits_balanced_parts [OF bal] acquire_decides [OF late] assms(1,2) by (metis surj_pair)
  obtain g where g: "acquisitions pid reqs now' buckets' = (g, T, B)"
    "granted = (case res of Inr _ \<Rightarrow> est # g | Inl _ \<Rightarrow> g)"
    using Cons.prems(2) x a by (auto split: prod.splits)
  from acquire_loop_balanced [OF a [unfolded acquire_def] late bal assms(1,2)]
  have "limits_balanced r c t0 (case res of Inr _ \<Rightarrow> Suc n | Inl _ \<Rightarrow> n)
    (case res of Inr _ \<Rightarrow> s + est | Inl _ \<Rightarrow> s) now' (buckets' pid)" by simp
  from Cons.IH [OF this g(1)] Cons.prems(3) g(2) show ?case by (cases res) (auto simp: add.assoc)
qed simp

definition call_of :: "CostTracker \<Rightarrow> string \<times> nat \<times> nat \<times> bool \<Rightarrow> files \<Rightarrow> CostTracker \<times> files" where
  "call_of t = (\<lambda>(key, i, o', e) fs. record_cost t key i o' e fs)"

definition record_calls :: "(string \<times> nat \<times> nat \<times> bool) list \<Rightarrow> CostTracker \<Rightarrow> files \<Rightarrow> CostTracker \<times> files" where
  "record_calls calls t fs = foldl (\<lambda>(t, fs) c. call_of t c fs) (t, fs) calls"

definition stats_of :: "CostTracker \<Rightarrow> string \<Rightarrow> ModelCostStats" where
  "stats_of t key = unwrap_or (map_of (ctr_inner t) key) default_ModelCostStats"

lemma record_cost_parts:
  "ctr_rates (fst (record_cost t key i out e fs)) = ctr_rates t"
  "ctr_persist (fst (record_cost t key i out e fs)) = ctr_persist t"
  by (simp_all add: record_cost_def Let_def)

lemma snoc_record:
  "record_calls (calls @ [c]) t fs = call_of (fst (record_calls calls t fs)) c (snd (record_calls calls t fs))"
  by (simp add: record_calls_def case_prod_beta)

lemma record_calls_parts:
  "ctr_rates (fst (record_calls calls t fs)) = ctr_rates t \<and> ctr_persist (fst (record_calls calls t fs)) = ctr_persist t"
proof (induction calls rule: rev_induct)
  case (snoc c calls)
  then show ?case by (cases c) (simp add: snoc_record call_of_def record_cost_parts)
qed (simp add: record_calls_def)

lemma call_cost_cong: "ctr_rates t = ctr_rates t' \<Longrightarrow> call_cost t = call_cost t'"
  by (simp add: call_cost_def rate_for_def fun_eq_iff)

lemma stats_of_record:
  "stats_of (fst (record_cost t key i out e fs)) k =
     (if k = key
      then \<lparr>ms_calls = ms_calls (stats_of t k) + 1, ms_input_tokens = ms_input_tokens (stats_of t k) + i,
             ms_output_tokens = ms_output_tokens (stats_of t k) + out,
             ms_cost_usd = ms_cost_usd (stats_of t k) + call_cost t key i out,
             ms_estimated_calls = ms_estimated_calls (stats_of t k) + (if e then 1 else 0)\<rparr>
      else stats_of t k)"
  by (simp add: stats_of_def record_cost_def Let_def update_conv')

subsection \<open>Properties\<close>

text \<open>No HTTP status is ever retried: whatever a provider answers with an error status, the error made
  of the answer is classified as not retryable, also for 429 and the 5xx codes that the
  classification names, because the status is turned into text before it is looked at.\<close>

theorem http_status_never_retried:
  "check_status response prompt_too_long = Inl err \<Longrightarrow> \<not> is_retryable info err"
  by (auto simp: check_status_def is_retryable_def split: if_splits)

theorem http_status_never_retried_witness:
  "\<not> is_retryable (\<lambda>_. \<lparr>hi_is_timeout = False, hi_is_connect = False, hi_status = Some 429\<rparr>)
     (StreamAborted ''HTTP 429 Too Many Requests: slow down'')"
proof -
  have "check_status \<lparr>hr_status = 429, hr_reason = ''Too Many Requests'', hr_body = ''slow down''\<rparr> True =
      Inl (StreamAborted ''HTTP 429 Too Many Requests: slow down'')" by code_simp
  from http_status_never_retried [OF this] show ?thesis by blast
qed

text \<open>Backoff delays never shrink from one attempt to the next and stay within the configured maximum,
  also where the shift and the product saturate.\<close>

theorem backoff_delay_bounded:
  "(rt_backoff policy = Exponential base_ms max_ms \<longrightarrow> backoff_delay policy attempt \<le> max_ms) \<and>
   (attempt \<le> attempt' \<longrightarrow> backoff_delay policy attempt \<le> backoff_delay policy attempt')"
proof -
  have "(2::nat) ^ (a - 1) \<le> U64_MAX" if "a - 1 < 64" for a :: nat
  proof -
    have "(2::nat) ^ (a - 1) \<le> 2 ^ 63" using that by (intro power_increasing) auto
    then show ?thesis by simp
  qed
  then have "(if attempt - 1 < 64 then (2::nat) ^ (attempt - 1) else U64_MAX) \<le>
      (if attempt' - 1 < 64 then 2 ^ (attempt' - 1) else U64_MAX)" if "attempt \<le> attempt'"
    using that by (auto intro: power_increasing)
  then show ?thesis
    by (auto simp: backoff_delay_def Let_def min_le_iff_disj split: BackoffConfig.splits)
qed

theorem backoff_delay_bounded_witness:
  "backoff_delay \<lparr>rt_max_attempts = 6, rt_backoff = Exponential 500 8000\<rparr> 100 \<le> 8000 \<and>
   backoff_delay \<lparr>rt_max_attempts = 6, rt_backoff = Exponential 500 8000\<rparr> 2 \<le>
     backoff_delay \<lparr>rt_max_attempts = 6, rt_backoff = Exponential 500 8000\<rparr> 3"
  using backoff_delay_bounded [of "\<lparr>rt_max_attempts = 6, rt_backoff = Exponential 500 8000\<rparr>" 500 8000 100 100]
    backoff_delay_bounded [of "\<lparr>rt_max_attempts = 6, rt_backoff = Exponential 500 8000\<rparr>" 500 8000 2 3] by simp

text \<open>Acquiring always ends: an acquisition that no other task interferes with returns, however late
  its sleeps end, within the rounds the fuel allows; a request that is larger than the whole token
  bucket of its provider is refused.\<close>

theorem acquire_returns:
  assumes "\<forall>i. 0 \<le> late i" and "limiter_ok pid est buckets"
  shows "(\<exists>r. acquire pid est late now buckets = Some r) \<and>
    (\<forall>p b. buckets pid = Some p \<and> pb_tpm p = Some b \<and> bk_capacity b < of_nat est \<longrightarrow>
       (\<exists>now' buckets'. acquire pid est late now buckets = Some (Inl (RateLimited pid), now', buckets')))"
proof (intro conjI allI impI)
  show "\<exists>now' buckets'. acquire pid est late now buckets = Some (Inl (RateLimited pid), now', buckets')"
    if "buckets pid = Some p \<and> pb_tpm p = Some b \<and> bk_capacity b < of_nat est" for p b
    using acquire_oversize [OF assms(1) _ assms(2)] that by blast
  show "\<exists>r. acquire pid est late now buckets = Some r"
  proof (cases "buckets pid")
    case (Some p)
    obtain n where fuel: "acquire_fuel est (buckets pid) = Suc (Suc n)" by (auto simp: acquire_fuel_def)
    consider b where "pb_rpm p = Some b \<or> pb_tpm p = Some b" "bk_capacity b \<le> 0"
      | b where "pb_rpm p = Some b \<and> bk_capacity b < 1 \<or> pb_tpm p = Some b \<and> bk_capacity b < of_nat est"
      | "opt_fits 1 (pb_rpm p)" "opt_fits (of_nat est) (pb_tpm p)"
      by (fastforce simp: opt_fits_def not_less split: option.splits)
    then show ?thesis
    proof cases
      case (1 b)
      then show ?thesis using acquire_empty_bucket [of buckets pid, OF Some, of b "Suc n"] fuel by (fastforce simp: acquire_def)
    next
      case (2 b)
      then show ?thesis using acquire_oversize [of late buckets pid, OF assms(1) Some assms(2)] by blast
    next
      case 3
      then show ?thesis using acquire_loop_fits [of late buckets pid, OF assms(1) Some] fuel by (fastforce simp: acquire_def)
    qed
  qed (simp add: acquire_def acquire_fuel_def numeral_2_eq_2)
qed

theorem acquire_returns_witness:
  "\<exists>now' buckets'. acquire ''p'' 20 (\<lambda>_. 0) 0 (configure ''p'' \<lparr>rl_rpm = None, rl_tpm = Some 10\<rparr> 0 Map.empty) =
     Some (Inl (RateLimited ''p''), now', buckets')"
  using acquire_returns [of "\<lambda>_. 0" "''p''" 20 "configure ''p'' \<lparr>rl_rpm = None, rl_tpm = Some 10\<rparr> 0 Map.empty" 0]
  by (auto simp: limiter_ok_def configure_def Bucket_new_def)

text \<open>C35. The limiter keeps the rates between calls that do not overlap. Let any sequence of acquisitions
  of a provider be made one after another from the moment its limits are configured, with sleeps that
  end on time or late. Until the time the last one returns, at most one filling of each bucket and
  its refill over the elapsed time are let through, in requests and in tokens; and a further call
  returns, and is let through exactly when both buckets can hold what it needs and will have refilled
  to it within thirty seconds. (Acquisitions that overlap can overrun the bound: checking and
  consuming are separate critical sections.)\<close>

theorem rate_limits_kept:
  assumes "acquisitions pid reqs t0 (configure pid \<lparr>rl_rpm = Some r, rl_tpm = Some c\<rparr> t0 buckets) = (granted, T, B)"
    and "\<forall>(start, est, late) \<in> set reqs. \<forall>i. 0 \<le> late i"
  shows "of_nat (length granted) \<le> of_nat r + of_nat r * (T - t0) / (60 :: rat) \<and>
    of_nat (sum_list granted) \<le> of_nat c + of_nat c * (T - t0) / (60 :: rat) \<and>
    (\<exists>b1 b2. B pid = Some \<lparr>pb_rpm = Some b1, pb_tpm = Some b2\<rparr> \<and>
       (\<forall>est late now. (\<forall>i. 0 \<le> late i) \<longrightarrow>
          (\<exists>res x. acquire pid est late now B = Some (res, x) \<and>
             (res = Inr () \<longleftrightarrow> within_reach 1 b1 now \<and> within_reach (of_nat est) b2 now))))"
proof -
  have "limits_balanced (of_nat r) (of_nat c) t0 0 0 t0 (configure pid \<lparr>rl_rpm = Some r, rl_tpm = Some c\<rparr> t0 buckets pid)"
    by (simp add: limits_balanced_def configure_def Bucket_new_def balanced_def)
  from acquisitions_balanced [OF _ _ assms(2) this assms(1)]
  have bal: "limits_balanced (of_nat r) (of_nat c) t0 (length granted) (sum_list granted) T (B pid)" by simp
  then have "of_nat (length granted) \<le> of_nat r + of_nat r * (T - t0) / (60 :: rat)"
    "of_nat (sum_list granted) \<le> of_nat c + of_nat c * (T - t0) / (60 :: rat)"
    using balanced_bound [OF _ _ order_refl] by (auto simp: limits_balanced_def)
  then show ?thesis using limits_balanced_parts [OF bal] acquire_decides by fastforce
qed

theorem rate_limits_kept_witness:
  "let run = acquisitions ''p'' [(0, 1, \<lambda>_. 0), (0, 1, \<lambda>_. 0), (20, 1, \<lambda>_. 0)] 0
               (configure ''p'' \<lparr>rl_rpm = Some 2, rl_tpm = Some 9\<rparr> 0 Map.empty)
   in fst run = [1, 1, 1] \<and> fst (snd run) = 30 \<and> of_nat (length (fst run)) \<le> (2 :: rat) + 2 * (fst (snd run) - 0) / 60"
proof -
  let ?reqs = "[(0, 1, \<lambda>_. 0), (0, 1, \<lambda>_. 0), (20, 1, \<lambda>_. 0)] :: (rat \<times> nat \<times> (nat \<Rightarrow> rat)) list"
  let ?B = "configure ''p'' \<lparr>rl_rpm = Some 2, rl_tpm = Some 9\<rparr> 0 Map.empty"
  obtain granted T B where run: "acquisitions ''p'' ?reqs 0 ?B = (granted, T, B)" by (metis surj_pair)
  have "granted = [1, 1, 1] \<and> T = 30"
    using run by (simp add: configure_def Bucket_new_def acquire_def acquire_fuel_def bucket_fuel_def numeral_2_eq_2
        acquire_check_def acquire_take_def bucket_wait_def seconds_until_def bucket_consume_def MAX_RATE_LIMIT_WAIT_def
        Let_def min_def max_def)
  then show ?thesis using rate_limits_kept [of "''p''" ?reqs 0 2 9 Map.empty, OF run] run by simp
qed

text \<open>Overlapping acquisitions: checking and consuming are separate critical sections,
  so two tasks that check before either consumes are both let through by a bucket for one.\<close>

theorem rate_limit_overadmits:
  "let p = the (configure ''p'' \<lparr>rl_rpm = Some 1, rl_tpm = None\<rparr> 0 Map.empty ''p'');
       (w1, p1) = acquire_check p 5 0; (w2, p2) = acquire_check p1 5 0
   in w1 \<le> 0 \<and> w2 \<le> 0 \<and> map_option bk_tokens (pb_rpm (acquire_take 5 (acquire_take 5 p2))) = Some (- 1)"
  by (simp add: configure_def Bucket_new_def acquire_check_parts bucket_wait_def seconds_until_def acquire_take_def
      bucket_consume_def Let_def)

text \<open>Costs add up: after any calls are recorded, the statistics of a model are those before plus the
  number, the tokens and the costs of exactly its own calls; and when they are persisted, a tracker
  opened on the file has the same table.\<close>

theorem costs_add_up:
  assumes "ctr_persist t = Some f" and "cf_faults f = (\<lambda>_. None)"
    and "\<forall>sn x. cf_to_string_pretty f sn = Some x \<longrightarrow> cf_from_str f x = Some sn"
    and "cf_to_string_pretty f (cost_snapshot (ctr_inner (fst (record_calls (calls @ [c]) t fs)))) \<noteq> None"
  shows "let (t', fs') = record_calls (calls @ [c]) t fs; mine = filter (\<lambda>(k, _). k = key) (calls @ [c])
    in ms_calls (stats_of t' key) = ms_calls (stats_of t key) + length mine \<and>
       ms_input_tokens (stats_of t' key) = ms_input_tokens (stats_of t key) + sum_list (map (\<lambda>(k, i, o', e). i) mine) \<and>
       ms_output_tokens (stats_of t' key) = ms_output_tokens (stats_of t key) + sum_list (map (\<lambda>(k, i, o', e). o') mine) \<and>
       ms_cost_usd (stats_of t' key) = ms_cost_usd (stats_of t key) + sum_list (map (\<lambda>(k, i, o', e). call_cost t k i o') mine) \<and>
       ctr_inner (CostTracker_new rates (Some f) fs') = ctr_inner t'"
proof -
  have cost: "call_cost (fst (record_calls xs t fs)) = call_cost t" for xs
    using record_calls_parts by (intro call_cost_cong) blast
  have sums: "let t' = fst (record_calls xs t fs); mine = filter (\<lambda>(k, _). k = key) xs
    in ms_calls (stats_of t' key) = ms_calls (stats_of t key) + length mine \<and>
       ms_input_tokens (stats_of t' key) = ms_input_tokens (stats_of t key) + sum_list (map (\<lambda>(k, i, o', e). i) mine) \<and>
       ms_output_tokens (stats_of t' key) = ms_output_tokens (stats_of t key) + sum_list (map (\<lambda>(k, i, o', e). o') mine) \<and>
       ms_cost_usd (stats_of t' key) = ms_cost_usd (stats_of t key) + sum_list (map (\<lambda>(k, i, o', e). call_cost t k i o') mine)" for xs
  proof (induction xs rule: rev_induct)
    case (snoc x xs)
    then show ?case
      by (cases x) (auto simp: snoc_record call_of_def stats_of_record cost Let_def)
  qed (simp add: record_calls_def)
  obtain t1 fs1 where r: "record_calls calls t fs = (t1, fs1)" by fastforce
  obtain k i out e where c: "c = (k, i, out, e)" by (metis prod_cases4)
  have pers: "ctr_persist t1 = Some f" using record_calls_parts [of calls t fs] r assms(1) by simp
  obtain t' fs' where r': "record_calls (calls @ [c]) t fs = (t', fs')" by fastforce
  obtain x where x: "cf_to_string_pretty f (cost_snapshot (ctr_inner t')) = Some x" using assms(4) r' by auto
  have "fs' = snd (atomic_write (cf_faults f) (cf_stamp f) (path_components (cf_path f)) x fs1)"
    using r r' c pers x by (auto simp: snoc_record call_of_def record_cost_def persist_costs_def Let_def)
  then have "fs' (path_components (cf_path f)) = Some x"
    using assms(2) by (simp add: atomic_write_def fs_write_def fs_rename_def Let_def)
  then have "ctr_inner (CostTracker_new rates (Some f) fs') = ctr_inner t'"
    using assms(2,3) x by (simp add: CostTracker_new_def fs_exists_def fs_read_def cost_snapshot_def)
  then show ?thesis using sums [of "calls @ [c]"] r' by (simp add: Let_def)
qed

definition demo_costs :: "(string \<times> ModelCostStats) list" where
  "demo_costs = [(''m'', \<lparr>ms_calls = 1, ms_input_tokens = 3, ms_output_tokens = 4, ms_cost_usd = 0, ms_estimated_calls = 1\<rparr>)]"

definition demo_cost_file :: cost_file where
  "demo_cost_file = \<lparr>cf_path = ''/c'', cf_faults = (\<lambda>_. None), cf_stamp = (1, 1),
     cf_from_str = (\<lambda>s. if s = ''x'' then Some (cost_snapshot demo_costs) else None),
     cf_to_string_pretty = (\<lambda>sn. if sn = cost_snapshot demo_costs then Some ''x'' else None)\<rparr>"

theorem costs_add_up_witness:
  "ctr_inner (CostTracker_new Map.empty (Some demo_cost_file)
     (snd (record_calls [(''m'', 3, 4, True)] \<lparr>ctr_rates = Map.empty, ctr_inner = [], ctr_persist = Some demo_cost_file\<rparr> Map.empty))) =
   demo_costs"
proof -
  let ?t = "\<lparr>ctr_rates = Map.empty, ctr_inner = [], ctr_persist = Some demo_cost_file\<rparr>"
  have r: "ctr_inner (fst (record_calls ([] @ [(''m'', 3, 4, True)]) ?t Map.empty)) = demo_costs"
    by (simp add: record_calls_def call_of_def record_cost_def default_ModelCostStats_def call_cost_def rate_for_def
        demo_costs_def Let_def)
  show ?thesis
    using costs_add_up [of ?t demo_cost_file "[]" "(''m'', 3, 4, True)" Map.empty "''m''" Map.empty] r
    by (simp add: demo_cost_file_def case_prod_beta Let_def)
qed

end
