(* ===== verification/Provider_Router.thy ===== *)
theory Provider_Router
  imports Provider_Ops Model_Ref
begin

text \<open>
  Routing of model calls (\<^verbatim>\<open>legion-provider/src/router.rs\<close>): the chain of candidates, retries within
  a provider, timeouts, rate limits, and the fallback loops of chat, embedding and one-shot calls;
  and the idle timeout of streams (\<^verbatim>\<open>http.rs\<close>). A provider is its calls on a state of the outside
  world, each giving its result and how many milliseconds it took. A stream is the list of its
  items, each with the milliseconds it kept the reader waiting.
\<close>

subsection \<open>Definitions\<close>

type_synonym timed_stream = "(nat \<times> (ProviderError, ChatChunk) result) list"
type_synonym ('a, 'w) outcome = "((ProviderError, 'a) result \<times> nat) \<times> 'w"

record EmbedRequest =
  eq_model :: string
  eq_input :: "string list"
  eq_extra :: "string \<rightharpoonup> json"

record Embedding =
  em_index :: nat
  em_embedding :: "32 word list"

record 'w Provider =
  pv_chat :: "ChatRequest \<Rightarrow> 'w \<Rightarrow> (timed_stream, 'w) outcome"
  pv_embed :: "EmbedRequest \<Rightarrow> 'w \<Rightarrow> (Embedding list, 'w) outcome"

record 'w ProviderRouter =
  pr_providers :: "string \<rightharpoonup> 'w Provider"
  pr_aliases :: "string \<rightharpoonup> string"
  pr_fallbacks :: "string list"
  pr_retry :: "string \<rightharpoonup> RetryConfig"
  pr_timeouts :: "string \<rightharpoonup> nat"

record 'w router_state =
  rs_world :: 'w
  rs_now :: rat
  rs_limiter :: RateLimiter
  rs_cost :: CostTracker
  rs_files :: files

text \<open>The environment: the classification of HTTP errors, the tokenizer and how late sleeps end.\<close>

record router_env =
  re_info :: "string \<Rightarrow> http_info"
  re_bpe :: "(string \<Rightarrow> nat) option"
  re_late :: "nat \<Rightarrow> rat"

definition ProviderRouter_new :: "'w ProviderRouter" where
  "ProviderRouter_new = \<lparr>pr_providers = Map.empty, pr_aliases = Map.empty, pr_fallbacks = [], pr_retry = Map.empty,
     pr_timeouts = Map.empty\<rparr>"

definition register_provider :: "string \<Rightarrow> 'w Provider \<Rightarrow> 'w ProviderRouter \<Rightarrow> 'w ProviderRouter" where
  "register_provider i p router = router\<lparr>pr_providers := (pr_providers router)(i \<mapsto> p)\<rparr>"

record ProviderConfig =
  pc_id :: string
  pc_kind :: string
  pc_base_url :: "string option"
  pc_auth_profile :: string
  pc_timeout_seconds :: "nat option"
  pc_default_model :: "string option"
  pc_retry :: "RetryConfig option"
  pc_rate_limit :: "RateLimitConfig option"

text \<open>\<open>client\<close> constructs the client of a kind with its authentication profile; it may reject the
  configuration.\<close>

fun router_from_configs ::
  "(ProviderConfig \<Rightarrow> (ProviderError, 'w Provider) result) \<Rightarrow> rat \<Rightarrow> ProviderConfig list \<Rightarrow> 'w ProviderRouter \<times> RateLimiter \<Rightarrow>
     (ProviderError, 'w ProviderRouter \<times> RateLimiter) result" where
  "router_from_configs client now [] acc = Inr acc"
| "router_from_configs client now (config # configs) (router, buckets) =
     (if pc_kind config \<notin> {''openai'', ''generic-openai'', ''openrouter'', ''anthropic'', ''gemini'', ''ollama'', ''bedrock''}
      then Inl (ProviderNotFound (''unsupported provider kind '' @ quoted (pc_kind config)))
      else bind_result (client config) (\<lambda>provider.
        let retry = (case pc_retry config of
                None \<Rightarrow> pr_retry router | Some r \<Rightarrow> (pr_retry router)(pc_id config \<mapsto> RetryPolicy_from_config r));
            buckets' = (case pc_rate_limit config of None \<Rightarrow> buckets | Some r \<Rightarrow> configure (pc_id config) r now buckets);
            timeouts = (case pc_timeout_seconds config of
                None \<Rightarrow> pr_timeouts router | Some s \<Rightarrow> (pr_timeouts router)(pc_id config \<mapsto> s * 1000))
        in router_from_configs client now configs
             (register_provider (pc_id config) provider (router\<lparr>pr_retry := retry, pr_timeouts := timeouts\<rparr>), buckets')))"

definition timeout_error :: "string \<Rightarrow> nat \<Rightarrow> ProviderError" where
  "timeout_error provider_id limit =
     Timeout (''provider '' @ quoted provider_id @ '' exceeded timeout of '' @ show_nat limit @ ''ms'')"

definition tick :: "nat \<Rightarrow> 'w router_state \<Rightarrow> 'w router_state" where
  "tick ms st = st\<lparr>rs_now := rs_now st + of_nat ms / 1000\<rparr>"

definition timed_call ::
  "string \<Rightarrow> nat option \<Rightarrow> ('w \<Rightarrow> ('a, 'w) outcome) \<Rightarrow> 'w router_state \<Rightarrow> (ProviderError, 'a) result \<times> 'w router_state" where
  "timed_call provider_id timeout call st =
     (let ((res, ms), w) = call (rs_world st); st' = st\<lparr>rs_world := w\<rparr>
      in case timeout of
           None \<Rightarrow> (res, tick ms st')
         | Some limit \<Rightarrow> if ms \<le> limit then (res, tick ms st') else (Inl (timeout_error provider_id limit), tick limit st'))"

function retry_loop ::
  "(string \<Rightarrow> http_info) \<Rightarrow> RetryConfig option \<Rightarrow> nat \<Rightarrow> ('s \<Rightarrow> (ProviderError, 'a) result \<times> 's) \<Rightarrow> (nat \<Rightarrow> 's \<Rightarrow> 's) \<Rightarrow>
     nat \<Rightarrow> 's \<Rightarrow> (ProviderError, 'a) result \<times> 's" where
  "retry_loop info policy max_attempts call sleep attempt st =
     (case call st of
        (Inr v, st1) \<Rightarrow> (Inr v, st1)
      | (Inl err, st1) \<Rightarrow>
          if attempt < max_attempts \<and> is_retryable info err
          then retry_loop info policy max_attempts call sleep (attempt + 1)
                 (sleep (case policy of None \<Rightarrow> 0 | Some p \<Rightarrow> backoff_delay p attempt) st1)
          else (Inl err, st1))"
  by auto
termination by (relation "measure (\<lambda>(_, _, m, _, _, a, _). m - a)") auto

declare retry_loop.simps [simp del]

definition call_with_retry ::
  "router_env \<Rightarrow> 'w ProviderRouter \<Rightarrow> string \<Rightarrow> ('w \<Rightarrow> ('a, 'w) outcome) \<Rightarrow> 'w router_state \<Rightarrow>
     (ProviderError, 'a) result \<times> 'w router_state" where
  "call_with_retry env router provider_id call st =
     (let policy = pr_retry router provider_id;
          max_attempts = (case policy of None \<Rightarrow> 1 | Some p \<Rightarrow> rt_max_attempts p)
      in retry_loop (re_info env) policy max_attempts (timed_call provider_id (pr_timeouts router provider_id) call) tick 1 st)"

fun idle_items :: "string \<Rightarrow> nat \<Rightarrow> timed_stream \<Rightarrow> timed_stream" where
  "idle_items provider_id limit [] = []"
| "idle_items provider_id limit ((gap, item) # rest) =
     (if gap \<le> limit then (gap, item) # idle_items provider_id limit rest
      else [(limit, Inl (timeout_error provider_id limit))])"

definition with_idle_timeout :: "timed_stream \<Rightarrow> nat option \<Rightarrow> string \<Rightarrow> timed_stream" where
  "with_idle_timeout stream limit provider_id =
     (case limit of None \<Rightarrow> stream | Some l \<Rightarrow> idle_items provider_id l stream)"

fun add_fallbacks :: "string list \<Rightarrow> ResolvedModelRef list \<Rightarrow> (ProviderError, ResolvedModelRef list) result" where
  "add_fallbacks [] chain = Inr chain"
| "add_fallbacks (fallback # fallbacks) chain =
     bind_result (parse_model_ref fallback) (\<lambda>resolved.
       add_fallbacks fallbacks (if resolved \<in> set chain then chain else chain @ [resolved]))"

definition resolve_chain :: "'w ProviderRouter \<Rightarrow> string \<Rightarrow> (ProviderError, ResolvedModelRef list) result" where
  "resolve_chain router model_ref =
     bind_result (resolve_model_ref model_ref (pr_aliases router)) (\<lambda>primary. add_fallbacks (pr_fallbacks router) [primary])"

definition validate_model_ref :: "'w ProviderRouter \<Rightarrow> string \<Rightarrow> (ProviderError, unit) result" where
  "validate_model_ref router model_ref =
     bind_result (resolve_model_ref model_ref (pr_aliases router)) (\<lambda>primary.
       if pr_providers router (mr_provider_id primary) \<noteq> None then Inr ()
       else Inl (ProviderNotFound (mr_provider_id primary)))"

text \<open>The fallback loop that chat, embedding and one-shot calls share; \<open>last_error\<close> is the error of
  the candidate before.\<close>

fun try_chain ::
  "(string \<rightharpoonup> 'p) \<Rightarrow> ('p \<Rightarrow> ResolvedModelRef \<Rightarrow> 's \<Rightarrow> (ProviderError, 'a) result \<times> 's) \<Rightarrow> ProviderError option \<Rightarrow>
     ResolvedModelRef list \<Rightarrow> 's \<Rightarrow> (ProviderError, 'a) result \<times> 's" where
  "try_chain providers attempt last_error [] st = (Inl (unwrap_or last_error AllProvidersFailed), st)"
| "try_chain providers attempt last_error (candidate # chain) st =
     (case providers (mr_provider_id candidate) of
        None \<Rightarrow> (Inl (ProviderNotFound (mr_provider_id candidate)), st)
      | Some provider \<Rightarrow>
          (case attempt provider candidate st of
             (Inr v, st') \<Rightarrow> (Inr v, st')
           | (Inl err, st') \<Rightarrow> try_chain providers attempt (Some err) chain st'))"

definition route_chain ::
  "'w ProviderRouter \<Rightarrow> ('w Provider \<Rightarrow> ResolvedModelRef \<Rightarrow> 's \<Rightarrow> (ProviderError, 'a) result \<times> 's) \<Rightarrow> string \<Rightarrow> 's \<Rightarrow>
     (ProviderError, 'a) result \<times> 's" where
  "route_chain router attempt model_ref st =
     (case resolve_chain router model_ref of
        Inl e \<Rightarrow> (Inl e, st)
      | Inr chain \<Rightarrow> if chain = [] then (Inl AllProvidersFailed, st) else try_chain (pr_providers router) attempt None chain st)"

definition model_key :: "ResolvedModelRef \<Rightarrow> string" where
  "model_key c = mr_provider_id c @ ''/'' @ mr_model_name c"

text \<open>Taking the rate limit, then the call.\<close>

definition limited ::
  "router_env \<Rightarrow> string \<Rightarrow> nat \<Rightarrow> ('w router_state \<Rightarrow> (ProviderError, 'a) result \<times> 'w router_state) \<Rightarrow> 'w router_state \<Rightarrow>
     (ProviderError, 'a) result \<times> 'w router_state" where
  "limited env provider_id input_tokens call st =
     (case acquire provider_id input_tokens (re_late env) (rs_now st) (rs_limiter st) of
        Some (Inr _, now, buckets) \<Rightarrow> call (st\<lparr>rs_now := now, rs_limiter := buckets\<rparr>)
      | Some (Inl err, now, buckets) \<Rightarrow> (Inl err, st\<lparr>rs_now := now, rs_limiter := buckets\<rparr>)
      | None \<Rightarrow> (Inl (RateLimited provider_id), st))"

text \<open>The stream handed out, with what its cost will be recorded under.\<close>

record tracked_stream =
  ts_items :: timed_stream
  ts_model_key :: string
  ts_input_tokens :: nat

definition chat_candidate ::
  "router_env \<Rightarrow> 'w ProviderRouter \<Rightarrow> ChatRequest \<Rightarrow> 'w Provider \<Rightarrow> ResolvedModelRef \<Rightarrow> 'w router_state \<Rightarrow>
     (ProviderError, tracked_stream) result \<times> 'w router_state" where
  "chat_candidate env router req provider candidate st =
     (let pid = mr_provider_id candidate;
          req' = req\<lparr>cq_model := mr_model_name candidate\<rparr>;
          input_tokens = estimate_chat_tokens (re_bpe env) req'
      in limited env pid input_tokens (\<lambda>st.
           (case call_with_retry env router pid (pv_chat provider req') st of
              (Inr stream, st') \<Rightarrow>
                (Inr \<lparr>ts_items = with_idle_timeout stream (pr_timeouts router pid) pid,
                      ts_model_key = model_key candidate, ts_input_tokens = input_tokens\<rparr>, st')
            | (Inl err, st') \<Rightarrow> (Inl err, st'))) st)"

definition router_chat ::
  "router_env \<Rightarrow> 'w ProviderRouter \<Rightarrow> string \<Rightarrow> ChatRequest \<Rightarrow> 'w router_state \<Rightarrow> (ProviderError, tracked_stream) result \<times> 'w router_state" where
  "router_chat env router model_ref req st = route_chain router (chat_candidate env router req) model_ref st"

definition embed_candidate ::
  "router_env \<Rightarrow> 'w ProviderRouter \<Rightarrow> EmbedRequest \<Rightarrow> 'w Provider \<Rightarrow> ResolvedModelRef \<Rightarrow> 'w router_state \<Rightarrow>
     (ProviderError, Embedding list) result \<times> 'w router_state" where
  "embed_candidate env router req provider candidate st =
     (let pid = mr_provider_id candidate;
          req' = req\<lparr>eq_model := mr_model_name candidate\<rparr>;
          input_tokens = sum_list (map (estimate_tokens (re_bpe env)) (eq_input req'))
      in limited env pid input_tokens (\<lambda>st.
           (case call_with_retry env router pid (pv_embed provider req') st of
              (Inr embeddings, st') \<Rightarrow>
                (let (t, fs) = record_cost (rs_cost st') (model_key candidate) input_tokens 0 True (rs_files st')
                 in (Inr embeddings, st'\<lparr>rs_cost := t, rs_files := fs\<rparr>))
            | (Inl err, st') \<Rightarrow> (Inl err, st'))) st)"

definition router_embed ::
  "router_env \<Rightarrow> 'w ProviderRouter \<Rightarrow> string \<Rightarrow> EmbedRequest \<Rightarrow> 'w router_state \<Rightarrow> (ProviderError, Embedding list) result \<times> 'w router_state" where
  "router_embed env router model_ref req st = route_chain router (embed_candidate env router req) model_ref st"

text \<open>Image, speech and video calls: \<open>set_model\<close> of the request and the call to client.\<close>

definition one_shot ::
  "'w ProviderRouter \<Rightarrow> string \<Rightarrow> 'r \<Rightarrow> (string \<Rightarrow> 'r \<Rightarrow> 'r) \<Rightarrow> ('w Provider \<Rightarrow> 'r \<Rightarrow> 'w \<Rightarrow> (ProviderError, 'a) result \<times> 'w) \<Rightarrow> 'w \<Rightarrow>
     (ProviderError, 'a) result \<times> 'w" where
  "one_shot router model_ref req set_model call w =
     route_chain router (\<lambda>provider candidate w. call provider (set_model (mr_model_name candidate) req) w) model_ref w"

subsection \<open>Facts\<close>

text \<open>A provider whose calls are numbered: call \<open>n\<close> has the result \<open>f n\<close>.\<close>

definition numbered :: "(nat \<Rightarrow> 'r) \<Rightarrow> nat \<Rightarrow> 'r \<times> nat" where
  "numbered f n = (f n, Suc n)"

definition retried :: "(string \<Rightarrow> http_info) \<Rightarrow> (ProviderError, 'a) result \<Rightarrow> bool" where
  "retried info r \<longleftrightarrow> (\<exists>e. r = Inl e \<and> is_retryable info e)"

lemma retry_loop_numbered:
  assumes "attempt \<le> max_attempts"
  shows "\<exists>k. retry_loop info policy max_attempts (numbered f) (\<lambda>_ n. n) attempt n = (f (n + k), Suc (n + k)) \<and>
     attempt + k \<le> max_attempts \<and> (\<forall>i<k. retried info (f (n + i))) \<and>
     (\<not> retried info (f (n + k)) \<or> attempt + k = max_attempts)"
  using assms
proof (induction "max_attempts - attempt" arbitrary: attempt n)
  case 0
  then show ?case
    by (intro exI [of _ 0]) (auto simp: retry_loop.simps [of _ _ _ _ _ attempt] numbered_def split: sum.splits)
next
  case (Suc d)
  show ?case
  proof (cases "retried info (f n)")
    case True
    then obtain e where e: "f n = Inl e" "is_retryable info e" by (auto simp: retried_def)
    have d: "d = max_attempts - (attempt + 1)" "attempt + 1 \<le> max_attempts" using Suc.hyps(2) by auto
    obtain k where k: "retry_loop info policy max_attempts (numbered f) (\<lambda>_ n. n) (attempt + 1) (Suc n) = (f (Suc n + k), Suc (Suc n + k))"
      "attempt + 1 + k \<le> max_attempts" "\<forall>i<k. retried info (f (Suc n + i))"
      "\<not> retried info (f (Suc n + k)) \<or> attempt + 1 + k = max_attempts"
      using Suc.hyps(1) [OF d, of "Suc n"] by blast
    have "\<forall>i<Suc k. retried info (f (n + i))" using k(3) True by (auto simp: less_Suc_eq_0_disj)
    then show ?thesis
      using k e d(2) by (intro exI [of _ "Suc k"]) (auto simp: retry_loop.simps [of _ _ _ _ _ attempt] numbered_def)
  next
    case False
    then show ?thesis using Suc.prems
      by (intro exI [of _ 0]) (auto simp: retry_loop.simps [of _ _ _ _ _ attempt] numbered_def retried_def split: sum.splits)
  qed
qed

text \<open>All candidates tried in order, whatever they give.\<close>

fun run_all :: "(string \<rightharpoonup> 'p) \<Rightarrow> ('p \<Rightarrow> ResolvedModelRef \<Rightarrow> 's \<Rightarrow> 'r \<times> 's) \<Rightarrow> ResolvedModelRef list \<Rightarrow> 's \<Rightarrow> 'r list" where
  "run_all providers attempt [] st = []"
| "run_all providers attempt (c # cs) st =
     (let (r, st') = attempt (the (providers (mr_provider_id c))) c st in r # run_all providers attempt cs st')"

definition registered :: "(string \<rightharpoonup> 'p) \<Rightarrow> ResolvedModelRef \<Rightarrow> bool" where
  "registered providers c \<longleftrightarrow> providers (mr_provider_id c) \<noteq> None"

lemma try_chain_unregistered:
  assumes "list_all (registered providers) pre" and "\<not> registered providers c"
    and "\<forall>r\<in>set (run_all providers attempt pre st). \<exists>e. r = Inl e"
  shows "fst (try_chain providers attempt last_error (pre @ c # post) st) = Inl (ProviderNotFound (mr_provider_id c))"
  using assms
proof (induction pre arbitrary: last_error st)
  case (Cons x pre)
  obtain y where y: "providers (mr_provider_id x) = Some y" using Cons.prems(1) by (auto simp: registered_def)
  obtain r st' where a: "attempt y x st = (r, st')" by fastforce
  with Cons.prems(3) y obtain e where "r = Inl e" by auto
  with Cons y a show ?case by simp
qed (simp add: registered_def)

lemma remdups_skip: "y \<in> set ys \<Longrightarrow> remdups (xs @ y # ys) = remdups (xs @ ys)"
  by (induction xs) auto

text \<open>The chain is the list of first occurrences.\<close>

lemma add_fallbacks_firsts:
  "distinct chain \<Longrightarrow> map parse_model_ref fallbacks = map Inr refs \<Longrightarrow>
     add_fallbacks fallbacks chain = Inr (rev (remdups (rev (chain @ refs))))"
proof (induction fallbacks arbitrary: chain refs)
  case Nil
  then show ?case by (simp add: distinct_remdups_id)
next
  case (Cons f fs)
  then obtain r rs where r: "refs = r # rs" "parse_model_ref f = Inr r" "map parse_model_ref fs = map Inr rs" by (cases refs) auto
  let ?chain = "if r \<in> set chain then chain else chain @ [r]"
  have "add_fallbacks fs ?chain = Inr (rev (remdups (rev (?chain @ rs))))" using Cons.IH [OF _ r(3), of ?chain] Cons.prems(1) by simp
  moreover have "remdups (rev (chain @ refs)) = remdups (rev (?chain @ rs))"
    using remdups_skip [of r "rev chain" "rev rs"] by (simp add: r(1))
  ultimately show ?case using r(2) by simp
qed

lemma try_chain_trace:
  "chain \<noteq> [] \<Longrightarrow> list_all (registered providers) chain \<Longrightarrow>
   \<exists>k outcomes states. k < length chain \<and> states 0 = st \<and>
     (\<forall>i\<le>k. \<exists>provider. providers (mr_provider_id (chain ! i)) = Some provider \<and>
        attempt provider (chain ! i) (states i) = (outcomes i, states (Suc i))) \<and>
     (\<forall>i<k. \<exists>e. outcomes i = Inl e) \<and> ((\<exists>v. outcomes k = Inr v) \<or> Suc k = length chain) \<and>
     try_chain providers attempt last_error chain st = (outcomes k, states (Suc k))"
proof (induction chain arbitrary: st last_error)
  case (Cons c chain)
  obtain p where p: "providers (mr_provider_id c) = Some p" using Cons.prems(2) by (auto simp: registered_def)
  obtain r st' where a: "attempt p c st = (r, st')" by fastforce
  show ?case
  proof (cases "(\<exists>v. r = Inr v) \<or> chain = []")
    case True
    then have "try_chain providers attempt last_error (c # chain) st = (r, st')" using p a by (cases r) auto
    then show ?thesis using p a True
      by (intro exI [of _ 0] exI [of _ "\<lambda>_. r"] exI [of _ "case_nat st (\<lambda>_. st')"]) auto
  next
    case False
    then obtain e where e: "r = Inl e" by (cases r) auto
    from False Cons.IH [of st' "Some e"] Cons.prems(2) obtain k outcomes states where
      k: "k < length chain" "states 0 = st'" "\<forall>i\<le>k. \<exists>provider. providers (mr_provider_id (chain ! i)) = Some provider \<and>
        attempt provider (chain ! i) (states i) = (outcomes i, states (Suc i))" "\<forall>i<k. \<exists>e. outcomes i = Inl e"
        "(\<exists>v. outcomes k = Inr v) \<or> Suc k = length chain" "try_chain providers attempt (Some e) chain st' = (outcomes k, states (Suc k))"
      by auto
    have "\<forall>i\<le>Suc k. \<exists>provider. providers (mr_provider_id ((c # chain) ! i)) = Some provider \<and>
        attempt provider ((c # chain) ! i) (case_nat st states i) = (case_nat r outcomes i, case_nat st states (Suc i))"
      using k(2,3) p a by (auto simp: all_conj_distrib split: nat.split)
    moreover have "\<forall>i<Suc k. \<exists>e. case_nat r outcomes i = Inl e" using k(4) e by (auto split: nat.split)
    ultimately show ?thesis using k p a e
      by (intro exI [of _ "Suc k"] exI [of _ "case_nat r outcomes"] exI [of _ "case_nat st states"]) auto
  qed
qed simp

lemma add_fallbacks_error:
  "(\<exists>f\<in>set fallbacks. \<exists>e. parse_model_ref f = Inl e) \<Longrightarrow> \<exists>e. add_fallbacks fallbacks chain = Inl e"
proof (induction fallbacks arbitrary: chain)
  case (Cons f fs)
  then show ?case by (cases "parse_model_ref f") auto
qed simp

subsection \<open>Properties\<close>

text \<open>Retries are bounded and stop for good reasons: of a provider whose calls are numbered, the first
  calls up to some call within the allowed attempts are made, in order and no further; each but the
  last ended in a retryable error; the last is a success, a final error or the last attempt
  allowed, and its result is what is returned.\<close>

theorem retries_bounded:
  assumes "1 \<le> max_attempts"
  shows "\<exists>k<max_attempts.
     retry_loop info policy max_attempts (numbered f) (\<lambda>_ n. n) 1 0 = (f k, Suc k) \<and>
     (\<forall>i<k. \<exists>e. f i = Inl e \<and> is_retryable info e) \<and>
     ((\<exists>v. f k = Inr v) \<or> (\<exists>e. f k = Inl e \<and> \<not> is_retryable info e) \<or> Suc k = max_attempts)"
proof -
  obtain k where "retry_loop info policy max_attempts (numbered f) (\<lambda>_ n. n) 1 0 = (f k, Suc k)" "1 + k \<le> max_attempts"
    "\<forall>i<k. retried info (f i)" "\<not> retried info (f k) \<or> 1 + k = max_attempts"
    using retry_loop_numbered [OF assms, of info policy f 0] by auto
  then show ?thesis by (intro exI [of _ k]) (cases "f k"; auto simp: retried_def)
qed

definition no_info :: "string \<Rightarrow> http_info" where
  "no_info _ = \<lparr>hi_is_timeout = False, hi_is_connect = False, hi_status = None\<rparr>"

definition demo_results :: "nat \<Rightarrow> (ProviderError, string) result" where
  "demo_results n = (if n < 1 then Inl (Timeout []) else Inr ''ok'')"

theorem retries_bounded_witness:
  "\<exists>k<3. retry_loop no_info None 3 (numbered demo_results) (\<lambda>_ n. n) 1 0 = (demo_results k, Suc k) \<and>
     (\<forall>i<k. \<exists>e. demo_results i = Inl e \<and> is_retryable no_info e)"
  using retries_bounded [of 3 no_info None demo_results] by auto

definition demo_chat :: "(ProviderError, timed_stream) result \<Rightarrow> nat Provider" where
  "demo_chat r = \<lparr>pv_chat = (\<lambda>_ n. ((r, 0), Suc n)), pv_embed = (\<lambda>_ n. ((Inr [], 0), n))\<rparr>"

definition demo_router :: "string list \<Rightarrow> nat ProviderRouter" where
  "demo_router fallbacks = \<lparr>pr_providers = [''a'' \<mapsto> demo_chat (Inl PromptTooLong), ''b'' \<mapsto> demo_chat (Inr [])],
     pr_aliases = Map.empty, pr_fallbacks = fallbacks, pr_retry = Map.empty, pr_timeouts = Map.empty\<rparr>"

definition demo_router_env :: router_env where
  "demo_router_env = \<lparr>re_info = no_info, re_bpe = None, re_late = (\<lambda>_. 0)\<rparr>"

definition demo_router_state :: "nat router_state" where
  "demo_router_state = \<lparr>rs_world = 0, rs_now = 0, rs_limiter = Map.empty,
     rs_cost = \<lparr>ctr_rates = Map.empty, ctr_inner = [], ctr_persist = None\<rparr>, rs_files = Map.empty\<rparr>"

lemma demo_runs:
  "run_all (pr_providers (demo_router fs)) (chat_candidate demo_router_env (demo_router fs) (ChatRequest_new [] []))
     [\<lparr>mr_provider_id = ''a'', mr_model_name = ''m''\<rparr>] demo_router_state = [Inl PromptTooLong]"
  "run_all (pr_providers (demo_router fs)) (chat_candidate demo_router_env (demo_router fs) (ChatRequest_new [] []))
     [\<lparr>mr_provider_id = ''a'', mr_model_name = ''m''\<rparr>, \<lparr>mr_provider_id = ''b'', mr_model_name = ''n''\<rparr>] demo_router_state =
     [Inl PromptTooLong, Inr \<lparr>ts_items = [], ts_model_key = ''b/n'', ts_input_tokens = 0\<rparr>]"
  by (simp_all add: demo_router_def demo_chat_def demo_router_env_def demo_router_state_def chat_candidate_def limited_def
      acquire_def acquire_fuel_def numeral_2_eq_2 call_with_retry_def timed_call_def retry_loop.simps is_retryable_def
      with_idle_timeout_def model_key_def estimate_chat_tokens_def ChatRequest_new_def tick_def Let_def)

text \<open>C34. Fallback takes the first success. Let the model reference resolve, the configured fallbacks parse and all their
  providers be registered. The candidates are the reference and then the fallbacks in the configured order, each at its first
  occurrence. A chat tries them in this order, each in the state the one before has left, and stops at the first that
  succeeds, or else after the last; what it returns, and the state it leaves, are those of the candidate it stopped at.\<close>

theorem chat_takes_first_success:
  assumes "resolve_model_ref model_ref (pr_aliases router) = Inr primary"
    and "map parse_model_ref (pr_fallbacks router) = map Inr refs"
    and "list_all (registered (pr_providers router)) (primary # refs)"
  shows "let chain = rev (remdups (rev (primary # refs)))
    in hd chain = primary \<and>
       (\<exists>k outcomes states. k < length chain \<and> states 0 = st \<and>
          (\<forall>i\<le>k. \<exists>provider. pr_providers router (mr_provider_id (chain ! i)) = Some provider \<and>
             chat_candidate env router req provider (chain ! i) (states i) = (outcomes i, states (Suc i))) \<and>
          (\<forall>i<k. \<exists>e. outcomes i = Inl e) \<and> ((\<exists>v. outcomes k = Inr v) \<or> Suc k = length chain) \<and>
          router_chat env router model_ref req st = (outcomes k, states (Suc k)))"
proof -
  let ?chain = "rev (remdups (rev (primary # refs)))"
  have "resolve_chain router model_ref = Inr ?chain"
    using assms(1) add_fallbacks_firsts [OF _ assms(2), of "[primary]"] by (simp add: resolve_chain_def)
  then have run: "router_chat env router model_ref req st = try_chain (pr_providers router) (chat_candidate env router req) None ?chain st"
    by (simp add: router_chat_def route_chain_def del: remdups.simps)
  have "list_all (registered (pr_providers router)) ?chain" using assms(3) by (simp add: list_all_iff)
  moreover have "?chain \<noteq> []" by simp
  moreover have "hd ?chain = primary"
  proof -
    have "last (remdups (xs @ [primary])) = primary" for xs by (induction xs) auto
    then show ?thesis by (simp add: hd_rev)
  qed
  ultimately show ?thesis unfolding run Let_def
    using try_chain_trace [of ?chain "pr_providers router" st "chat_candidate env router req" None] by (intro conjI) assumption+
qed

text \<open>The fallback that repeats the reference is skipped; the other one is asked after the reference failed.\<close>

theorem chat_takes_first_success_witness:
  "\<exists>k outcomes states. k < 2 \<and> ((\<exists>v. outcomes k = Inr v) \<or> Suc k = 2) \<and>
     router_chat demo_router_env (demo_router [''a/m'', ''b/n'']) ''a/m'' (ChatRequest_new [] []) demo_router_state = (outcomes k, states (Suc k))"
proof -
  let ?a = "\<lparr>mr_provider_id = ''a'', mr_model_name = ''m''\<rparr>" and ?b = "\<lparr>mr_provider_id = ''b'', mr_model_name = ''n''\<rparr>"
  have "resolve_model_ref ''a/m'' (pr_aliases (demo_router [''a/m'', ''b/n''])) = Inr ?a"
    "map parse_model_ref (pr_fallbacks (demo_router [''a/m'', ''b/n''])) = map Inr [?a, ?b]" by code_simp+
  moreover have "list_all (registered (pr_providers (demo_router [''a/m'', ''b/n'']))) [?a, ?a, ?b]"
    by (simp add: registered_def demo_router_def)
  ultimately obtain k outcomes states where "k < length (rev (remdups (rev [?a, ?a, ?b])))"
    "(\<exists>v. outcomes k = Inr v) \<or> Suc k = length (rev (remdups (rev [?a, ?a, ?b])))"
    "router_chat demo_router_env (demo_router [''a/m'', ''b/n'']) ''a/m'' (ChatRequest_new [] []) demo_router_state = (outcomes k, states (Suc k))"
    using chat_takes_first_success [of "''a/m''" "demo_router [''a/m'', ''b/n'']" ?a "[?a, ?b]" demo_router_state demo_router_env "ChatRequest_new [] []"]
    unfolding Let_def by metis
  moreover have "length (rev (remdups (rev [?a, ?a, ?b]))) = 2" by simp
  ultimately show ?thesis by metis
qed

text \<open>A fallback whose provider is not registered ends the search: when the candidates before it have
  failed, the call is answered with an unknown provider and the later candidates are not tried,
  nor is the error of the earlier ones reported.\<close>

theorem unregistered_fallback_aborts:
  assumes "resolve_chain router model_ref = Inr (pre @ c # post)" and "list_all (registered (pr_providers router)) pre"
    and "pr_providers router (mr_provider_id c) = None"
    and "\<forall>r\<in>set (run_all (pr_providers router) (chat_candidate env router req) pre st). \<exists>e. r = Inl e"
  shows "fst (router_chat env router model_ref req st) = Inl (ProviderNotFound (mr_provider_id c))"
  using assms try_chain_unregistered [OF assms(2) _ assms(4)] by (simp add: router_chat_def route_chain_def registered_def)

theorem unregistered_fallback_aborts_witness:
  "fst (router_chat demo_router_env (demo_router [''x/n'', ''b/n'']) ''a/m'' (ChatRequest_new [] []) demo_router_state) =
     Inl (ProviderNotFound ''x'')"
proof -
  have "resolve_chain (demo_router [''x/n'', ''b/n'']) ''a/m'' =
      Inr ([\<lparr>mr_provider_id = ''a'', mr_model_name = ''m''\<rparr>] @ \<lparr>mr_provider_id = ''x'', mr_model_name = ''n''\<rparr> #
        [\<lparr>mr_provider_id = ''b'', mr_model_name = ''n''\<rparr>])" by code_simp
  from unregistered_fallback_aborts [OF this, of demo_router_env "ChatRequest_new [] []" demo_router_state] show ?thesis
    by (simp only: demo_runs) (simp add: registered_def demo_router_def)
qed

text \<open>One malformed fallback disables the router: if any entry of the fallback list is not of the form
  provider and model, aliases included, every chat fails before a provider is called, whatever the
  model asked for.\<close>

theorem malformed_fallback_blocks_chat:
  assumes "f \<in> set (pr_fallbacks router)" and "parse_model_ref f = Inl e"
  shows "\<exists>err. router_chat env router model_ref req st = (Inl err, st)"
proof (cases "resolve_model_ref model_ref (pr_aliases router)")
  case (Inr primary)
  obtain err where "add_fallbacks (pr_fallbacks router) [primary] = Inl err"
    using assms add_fallbacks_error [of "pr_fallbacks router" "[primary]"] by auto
  with Inr show ?thesis by (simp add: router_chat_def route_chain_def resolve_chain_def)
qed (simp add: router_chat_def route_chain_def resolve_chain_def)

theorem malformed_fallback_blocks_chat_witness:
  "\<exists>err. router_chat demo_router_env (demo_router [''fast'']) ''b/n'' (ChatRequest_new [] []) demo_router_state = (Inl err, demo_router_state)"
proof -
  have "parse_model_ref ''fast'' = Inl (InvalidModelRef (''model reference '' @ quoted ''fast'' @ '' is missing a model name''))"
    by code_simp
  from malformed_fallback_blocks_chat [OF _ this, of "demo_router [''fast'']"] show ?thesis by (simp add: demo_router_def)
qed

end
