(* ===== verification/Provider_Wire.thy ===== *)
theory Provider_Wire
  imports Session_Repair "HOL-Library.List_Lexorder" "HOL-Library.Char_ord"
begin

text \<open>
  The wire formats of the chat providers (\<^verbatim>\<open>legion-provider/src/openai.rs\<close>, \<^verbatim>\<open>anthropic.rs\<close>, \<^verbatim>\<open>gemini.rs\<close>): the JSON body of
  a request and the mapping of streamed events to chunks. Parsing and printing of JSON text and of
  floating-point numbers are parameters; an event of a stream is the data the SSE library hands over
  (\<^verbatim>\<open>Inl\<close> a framing error).
\<close>

subsection \<open>JSON objects\<close>

text \<open>Objects are kept sorted by key, as \<^verbatim>\<open>serde_json\<close>'s map does.\<close>

fun obj_put :: "string \<Rightarrow> json \<Rightarrow> (string \<times> json) list \<Rightarrow> (string \<times> json) list" where
  "obj_put k v [] = [(k, v)]"
| "obj_put k v ((k', v') # kvs) =
     (if k = k' then (k, v) # kvs else if k < k' then (k, v) # (k', v') # kvs else (k', v') # obj_put k v kvs)"

definition json_object :: "(string \<times> json) list \<Rightarrow> json" where
  "json_object kvs = JObject (foldl (\<lambda>kvs (k, v). obj_put k v kvs) [] kvs)"

text \<open>\<open>v[k] = x\<close> on an object; null becomes one.\<close>

fun json_set :: "json \<Rightarrow> string \<Rightarrow> json \<Rightarrow> json" where
  "json_set (JObject kvs) k x = JObject (obj_put k x kvs)"
| "json_set _ k x = JObject [(k, x)]"

definition opt_set :: "string \<Rightarrow> ('a \<Rightarrow> json) \<Rightarrow> 'a option \<Rightarrow> json \<Rightarrow> json" where
  "opt_set k f x body = (case x of None \<Rightarrow> body | Some a \<Rightarrow> json_set body k (f a))"

definition json_word :: "32 word \<Rightarrow> json" where
  "json_word n = JNum (show_nat (unat n))"

definition json_strings :: "string list \<Rightarrow> json" where
  "json_strings ss = JArray (map JString ss)"

definition apply_extra_to :: "ChatRequest \<Rightarrow> json \<Rightarrow> json" where
  "apply_extra_to req body = foldl (\<lambda>body (k, v). json_set body k v) body (cq_extra req)"

fun provider_role_str :: "ChatRole \<Rightarrow> string" where
  "provider_role_str System = ''system''"
| "provider_role_str User = ''user''"
| "provider_role_str Assistant = ''assistant''"
| "provider_role_str Tool = ''tool''"

definition parse_tool_arguments :: "(string \<Rightarrow> json option) \<Rightarrow> string \<Rightarrow> json" where
  "parse_tool_arguments from_str arguments = unwrap_or (from_str arguments) (JObject [])"

subsection \<open>The stream of server-sent events\<close>

text \<open>\<open>handle\<close> maps the data of an event and the state to a chunk, an error or nothing.\<close>

fun sse_stream ::
  "('s \<Rightarrow> string \<Rightarrow> (ProviderError, ChatChunk) result option \<times> 's) \<Rightarrow> 's \<Rightarrow> (string, string) result list \<Rightarrow> chat_stream" where
  "sse_stream handle state [] = []"
| "sse_stream handle state (Inl e # events) = Inl (SseParse e) # sse_stream handle state events"
| "sse_stream handle state (Inr d # events) =
     (let (out, state') = handle state d
      in (case out of None \<Rightarrow> [] | Some r \<Rightarrow> [r]) @ sse_stream handle state' events)"

definition parse_sse_json :: "(string \<Rightarrow> (string, 'a) result) \<Rightarrow> string \<Rightarrow> (ProviderError, 'a) result" where
  "parse_sse_json from_str d = (case from_str d of Inl e \<Rightarrow> Inl (JsonParse e) | Inr a \<Rightarrow> Inr a)"

definition default_ChatChunk :: ChatChunk where
  "default_ChatChunk = \<lparr>cc_index = 0, cc_delta = [], cc_finish_reason = None, cc_tool_calls = None\<rparr>"

subsection \<open>OpenAI\<close>

definition tool_calls_json :: "ProviderToolCall list \<Rightarrow> json" where
  "tool_calls_json calls = JArray (map (\<lambda>c. json_object [(''id'', JString (ptc_id c)), (''type'', JString (ptc_kind c)),
     (''function'', json_object [(''name'', JString (fc_name (ptc_function c))), (''arguments'', JString (fc_arguments (ptc_function c)))])]) calls)"

definition openai_message :: "ChatMessage \<Rightarrow> json" where
  "openai_message m =
     opt_set ''tool_call_id'' JString (cm_tool_call_id m)
       (opt_set ''tool_calls'' tool_calls_json (cm_tool_calls m)
         (opt_set ''name'' JString (cm_name m)
           (json_object [(''role'', JString (provider_role_str (cm_role m))), (''content'', JString (cm_content m))])))"

definition openai_tool :: "ToolDefinition \<Rightarrow> json" where
  "openai_tool t = json_object [(''type'', JString ''function''),
     (''function'', json_object [(''name'', JString (td_name t)), (''description'', JString (td_description t)), (''parameters'', td_parameters t)])]"

definition openai_body :: "(32 word \<Rightarrow> json) \<Rightarrow> ChatRequest \<Rightarrow> json" where
  "openai_body f32 req =
     apply_extra_to req
       (opt_set ''tools'' (\<lambda>ts. JArray (map openai_tool ts)) (cq_tools req)
         (opt_set ''stop'' json_strings (cq_stop req)
           (opt_set ''top_p'' f32 (cq_top_p req)
             (opt_set ''max_tokens'' json_word (cq_max_tokens req)
               (opt_set ''temperature'' f32 (cq_temperature req)
                 (json_object [(''model'', JString (cq_model req)), (''messages'', JArray (map openai_message (cq_messages req))), (''stream'', JBool True)]))))))"

record OpenAiFunctionDelta =
  of_name :: "string option"
  of_arguments :: "string option"

record OpenAiToolCallDelta =
  ot_index :: nat
  ot_id :: "string option"
  ot_kind :: "string option"
  ot_function :: "OpenAiFunctionDelta option"

record OpenAiDelta =
  od_content :: "string option"
  od_tool_calls :: "OpenAiToolCallDelta list option"

record OpenAiChoice =
  oc_index :: nat
  oc_delta :: OpenAiDelta
  oc_finish_reason :: "string option"

definition default_OpenAiChoice :: OpenAiChoice where
  "default_OpenAiChoice = \<lparr>oc_index = 0, oc_delta = \<lparr>od_content = None, od_tool_calls = None\<rparr>, oc_finish_reason = None\<rparr>"

definition apply_delta :: "OpenAiToolCallDelta \<Rightarrow> PartialToolCall \<Rightarrow> PartialToolCall" where
  "apply_delta d p =
     (let p = (case ot_id d of None \<Rightarrow> p | Some i \<Rightarrow> p\<lparr>pt_id := i\<rparr>);
          p = (case ot_kind d of None \<Rightarrow> p | Some k \<Rightarrow> p\<lparr>pt_kind := k\<rparr>)
      in case ot_function d of
           None \<Rightarrow> p
         | Some f \<Rightarrow>
             (let p = (case of_name f of None \<Rightarrow> p | Some n \<Rightarrow> p\<lparr>pt_name := n\<rparr>)
              in case of_arguments f of None \<Rightarrow> p | Some a \<Rightarrow> p\<lparr>pt_arguments := pt_arguments p @ a\<rparr>))"

definition apply_tool_deltas :: "ToolCallAccumulator \<Rightarrow> OpenAiToolCallDelta list \<Rightarrow> ToolCallAccumulator" where
  "apply_tool_deltas state deltas = fold (\<lambda>d. acc_entry (ot_index d) (apply_delta d)) deltas state"

definition openai_finish_reason :: "string \<Rightarrow> FinishReason option" where
  "openai_finish_reason r =
     (if r = ''stop'' then Some Stop else if r = ''length'' then Some Length else if r = ''tool_calls'' then Some ToolCalls
      else if r = ''content_filter'' then Some ContentFilter else None)"

definition openai_chunk :: "OpenAiChoice list \<Rightarrow> ToolCallAccumulator \<Rightarrow> (ProviderError, ChatChunk) result \<times> ToolCallAccumulator" where
  "openai_chunk choices state =
     (let choice = (case choices of c # _ \<Rightarrow> c | [] \<Rightarrow> default_OpenAiChoice);
          finish_reason = Option.bind (oc_finish_reason choice) openai_finish_reason;
          state = (case od_tool_calls (oc_delta choice) of None \<Rightarrow> state | Some ds \<Rightarrow> apply_tool_deltas state ds);
          chunk = \<lparr>cc_index = oc_index choice, cc_delta = unwrap_or (od_content (oc_delta choice)) [], cc_finish_reason = finish_reason, cc_tool_calls = None\<rparr>
      in if finish_reason = Some ToolCalls then
           (let calls = into_complete_calls state
            in if calls = [] then (Inl (StreamAborted ''tool_calls finish reason with no complete tool calls''), [])
               else (Inr (chunk\<lparr>cc_tool_calls := Some calls\<rparr>), []))
         else (Inr chunk, state))"

definition openai_handle ::
  "(string \<Rightarrow> (string, OpenAiChoice list) result) \<Rightarrow> ToolCallAccumulator \<Rightarrow> string \<Rightarrow> (ProviderError, ChatChunk) result option \<times> ToolCallAccumulator" where
  "openai_handle from_str state d =
     (if d = ''[DONE]'' then (Some (Inr (default_ChatChunk\<lparr>cc_finish_reason := Some Stop\<rparr>)), state)
      else case parse_sse_json from_str d of
        Inl e \<Rightarrow> (Some (Inl e), state)
      | Inr choices \<Rightarrow> (let (r, state') = openai_chunk choices state in (Some r, state')))"

subsection \<open>Anthropic\<close>

definition text_block :: "string \<Rightarrow> json" where
  "text_block s = json_object [(''type'', JString ''text''), (''text'', JString s)]"

definition tool_result_block :: "ChatMessage \<Rightarrow> json" where
  "tool_result_block m = json_object [(''type'', JString ''tool_result''), (''tool_use_id'', JString (unwrap_or (cm_tool_call_id m) [])), (''content'', JString (cm_content m))]"

definition tool_use_block :: "(string \<Rightarrow> json option) \<Rightarrow> ProviderToolCall \<Rightarrow> json" where
  "tool_use_block from_str c = json_object [(''type'', JString ''tool_use''), (''id'', JString (ptc_id c)),
     (''name'', JString (fc_name (ptc_function c))), (''input'', parse_tool_arguments from_str (fc_arguments (ptc_function c)))]"

definition build_assistant_message :: "(string \<Rightarrow> json option) \<Rightarrow> ChatMessage \<Rightarrow> json" where
  "build_assistant_message from_str m =
     (case cm_tool_calls m of
        Some (c # cs) \<Rightarrow>
          json_object [(''role'', JString ''assistant''),
            (''content'', JArray ((if cm_content m \<noteq> [] then [text_block (cm_content m)] else []) @ map (tool_use_block from_str) (c # cs)))]
      | _ \<Rightarrow> json_object [(''role'', JString ''assistant''), (''content'', JString (cm_content m))])"

definition system_part :: "ChatMessage \<Rightarrow> json" where
  "system_part m =
     (if cm_cache_breakpoint m then json_set (text_block (cm_content m)) ''cache_control'' (json_object [(''type'', JString ''ephemeral'')])
      else text_block (cm_content m))"

text \<open>The loop over the messages: the system parts and the wire messages. The index of the source is the
  part of the list that is left.\<close>

function anthropic_loop :: "(string \<Rightarrow> json option) \<Rightarrow> ChatMessage list \<Rightarrow> json list \<times> json list" where
  "anthropic_loop from_str [] = ([], [])"
| "anthropic_loop from_str (m # rest) =
     (if cm_role m = System then (let (sys, msgs) = anthropic_loop from_str rest in (system_part m # sys, msgs))
      else if cm_role m = Assistant then
        (let (sys, msgs) = anthropic_loop from_str rest in (sys, build_assistant_message from_str m # msgs))
      else
        (let last = tool_run_end rest 0;
             content_blocks = (if cm_role m = User \<and> cm_content m \<noteq> [] then [text_block (cm_content m)] else []) @
               (if cm_role m = Tool then [tool_result_block m] else []) @ map tool_result_block (take last rest);
             (sys, msgs) = anthropic_loop from_str (drop last rest)
         in (sys, (if content_blocks \<noteq> [] then [json_object [(''role'', JString ''user''), (''content'', JArray content_blocks)]] else []) @ msgs)))"
  by pat_completeness auto
termination by (relation "measure (length \<circ> snd)") auto

definition anthropic_tool :: "ToolDefinition \<Rightarrow> json" where
  "anthropic_tool t = json_object [(''name'', JString (td_name t)), (''description'', JString (td_description t)), (''input_schema'', td_parameters t)]"

definition anthropic_body :: "(string \<Rightarrow> json option) \<Rightarrow> (32 word \<Rightarrow> json) \<Rightarrow> ChatRequest \<Rightarrow> json" where
  "anthropic_body from_str f32 req =
     (let (sys, msgs) = anthropic_loop from_str (cq_messages req);
          body = json_object [(''model'', JString (cq_model req)), (''messages'', JArray msgs),
            (''max_tokens'', json_word (unwrap_or (cq_max_tokens req) 4096)), (''stream'', JBool True)];
          body = (if sys \<noteq> [] then json_set body ''system'' (JArray sys) else body)
      in apply_extra_to req
           (opt_set ''tools'' (\<lambda>ts. JArray (map anthropic_tool ts)) (cq_tools req)
             (opt_set ''stop_sequences'' json_strings (cq_stop req)
               (opt_set ''top_p'' f32 (cq_top_p req) (opt_set ''temperature'' f32 (cq_temperature req) body)))))"

record AnthropicStreamState =
  as_current_tool :: "PartialToolCall option"
  as_completed_tools :: "ProviderToolCall list"

record AnthropicContentBlockStart =
  ab_block_type :: string
  ab_id :: "string option"
  ab_name :: "string option"

record AnthropicDelta =
  ad_text :: "string option"
  ad_delta_type :: "string option"
  ad_partial_json :: "string option"
  ad_stop_reason :: "string option"

record AnthropicEventData =
  ae_event_type :: string
  ae_content_block :: "AnthropicContentBlockStart option"
  ae_delta :: "AnthropicDelta option"

definition anthropic_stop_reason :: "string \<Rightarrow> FinishReason option" where
  "anthropic_stop_reason r =
     (if r = ''end_turn'' then Some Stop else if r = ''max_tokens'' then Some Length else if r = ''tool_use'' then Some ToolCalls else None)"

definition block_start :: "AnthropicContentBlockStart option \<Rightarrow> AnthropicStreamState \<Rightarrow> AnthropicStreamState" where
  "block_start b state =
     (case b of
        Some block \<Rightarrow>
          if ab_block_type block = ''tool_use''
          then state\<lparr>as_current_tool := Some \<lparr>pt_id = unwrap_or (ab_id block) [], pt_kind = ''function'', pt_name = unwrap_or (ab_name block) [], pt_arguments = []\<rparr>\<rparr>
          else state
      | None \<Rightarrow> state)"

definition block_delta :: "AnthropicDelta option \<Rightarrow> AnthropicStreamState \<Rightarrow> (ProviderError, ChatChunk) result option \<times> AnthropicStreamState" where
  "block_delta d state =
     (case d of
        None \<Rightarrow> (None, state)
      | Some delta \<Rightarrow>
          (case ad_text delta of
             Some t \<Rightarrow> (Some (Inr (default_ChatChunk\<lparr>cc_delta := t\<rparr>)), state)
           | None \<Rightarrow>
               (None,
                if ad_delta_type delta = Some ''input_json_delta'' then
                  (case ad_partial_json delta of
                     Some parts \<Rightarrow> state\<lparr>as_current_tool := map_option (\<lambda>t. t\<lparr>pt_arguments := pt_arguments t @ parts\<rparr>) (as_current_tool state)\<rparr>
                   | None \<Rightarrow> state)
                else state)))"

definition block_stop :: "(string \<Rightarrow> json option) \<Rightarrow> (json \<Rightarrow> string) \<Rightarrow> AnthropicStreamState \<Rightarrow> AnthropicStreamState" where
  "block_stop from_str to_str state =
     (case as_current_tool state of
        Some tool \<Rightarrow>
          state\<lparr>as_current_tool := None,
            as_completed_tools := as_completed_tools state @
              [\<lparr>ptc_id = pt_id tool, ptc_kind = ''function'',
                ptc_function = \<lparr>fc_name = pt_name tool, fc_arguments = to_str (parse_tool_arguments from_str (pt_arguments tool))\<rparr>\<rparr>]\<rparr>
      | None \<Rightarrow> state)"

definition message_delta :: "AnthropicDelta option \<Rightarrow> AnthropicStreamState \<Rightarrow> (ProviderError, ChatChunk) result option \<times> AnthropicStreamState" where
  "message_delta d state =
     (case d of
        None \<Rightarrow> (None, state)
      | Some delta \<Rightarrow>
          (let finish_reason = Option.bind (ad_stop_reason delta) anthropic_stop_reason;
               chunk = default_ChatChunk\<lparr>cc_finish_reason := finish_reason\<rparr>
           in if finish_reason = Some ToolCalls then
                (if as_completed_tools state = []
                 then (Some (Inl (StreamAborted ''tool_use stop reason with no completed tool calls'')), state\<lparr>as_completed_tools := []\<rparr>)
                 else (Some (Inr (chunk\<lparr>cc_tool_calls := Some (as_completed_tools state)\<rparr>)), state\<lparr>as_completed_tools := []\<rparr>))
              else if finish_reason \<noteq> None then (Some (Inr chunk), state)
              else (None, state)))"

definition anthropic_chunk ::
  "(string \<Rightarrow> json option) \<Rightarrow> (json \<Rightarrow> string) \<Rightarrow> AnthropicEventData \<Rightarrow> AnthropicStreamState \<Rightarrow>
     (ProviderError, ChatChunk) result option \<times> AnthropicStreamState" where
  "anthropic_chunk from_str to_str ev state =
     (if ae_event_type ev = ''content_block_start'' then (None, block_start (ae_content_block ev) state)
      else if ae_event_type ev = ''content_block_delta'' then block_delta (ae_delta ev) state
      else if ae_event_type ev = ''content_block_stop'' then (None, block_stop from_str to_str state)
      else if ae_event_type ev = ''message_delta'' then message_delta (ae_delta ev) state
      else (None, state))"

definition default_AnthropicStreamState :: AnthropicStreamState where
  "default_AnthropicStreamState = \<lparr>as_current_tool = None, as_completed_tools = []\<rparr>"

definition anthropic_handle ::
  "(string \<Rightarrow> (string, AnthropicEventData) result) \<Rightarrow> (string \<Rightarrow> json option) \<Rightarrow> (json \<Rightarrow> string) \<Rightarrow> AnthropicStreamState \<Rightarrow> string \<Rightarrow>
     (ProviderError, ChatChunk) result option \<times> AnthropicStreamState" where
  "anthropic_handle from_event from_str to_str state d =
     (case parse_sse_json from_event d of Inl e \<Rightarrow> (Some (Inl e), state) | Inr ev \<Rightarrow> anthropic_chunk from_str to_str ev state)"

subsection \<open>Gemini\<close>

definition call_names :: "ChatMessage list \<Rightarrow> string \<rightharpoonup> string" where
  "call_names messages =
     map_of (rev (concat (map (\<lambda>m. map (\<lambda>c. (ptc_id c, fc_name (ptc_function c))) (unwrap_or (cm_tool_calls m) [])) messages)))"

definition gemini_content :: "string option \<Rightarrow> json list \<Rightarrow> json" where
  "gemini_content role parts = opt_set ''role'' JString role (json_object [(''parts'', JArray parts)])"

definition gemini_text :: "string \<Rightarrow> json" where
  "gemini_text s = json_object [(''text'', JString s)]"

definition response_name :: "(string \<rightharpoonup> string) \<Rightarrow> ChatMessage \<Rightarrow> string" where
  "response_name names m =
     (case cm_tool_call_id m of Some i \<Rightarrow> unwrap_or (names i) i | None \<Rightarrow> unwrap_or (cm_name m) ''tool'')"

definition gemini_message :: "(string \<Rightarrow> json option) \<Rightarrow> (string \<rightharpoonup> string) \<Rightarrow> ChatMessage \<Rightarrow> json list" where
  "gemini_message from_str names m =
     (case cm_role m of
        System \<Rightarrow> []
      | User \<Rightarrow> [gemini_content (Some ''user'') [gemini_text (cm_content m)]]
      | Assistant \<Rightarrow>
          [gemini_content (Some ''model'')
             ((if cm_content m \<noteq> [] then [gemini_text (cm_content m)] else []) @
              map (\<lambda>c. json_object [(''functionCall'', json_object [(''name'', JString (fc_name (ptc_function c))),
                (''args'', parse_tool_arguments from_str (fc_arguments (ptc_function c)))])]) (unwrap_or (cm_tool_calls m) []))]
      | Tool \<Rightarrow>
          [gemini_content (Some ''user'')
             [json_object [(''functionResponse'', json_object [(''name'', JString (response_name names m)),
                (''response'', json_object [(''content'', JString (cm_content m))])])]]])"

definition gemini_tools :: "ToolDefinition list \<Rightarrow> json" where
  "gemini_tools ts = JArray [json_object [(''functionDeclarations'', JArray (map (\<lambda>t.
     json_object [(''name'', JString (td_name t)), (''description'', JString (td_description t)), (''parameters'', td_parameters t)]) ts))]]"

definition generation_config :: "(32 word \<Rightarrow> json) \<Rightarrow> ChatRequest \<Rightarrow> json option" where
  "generation_config f32 req =
     (if cq_temperature req \<noteq> None \<or> cq_max_tokens req \<noteq> None \<or> cq_top_p req \<noteq> None \<or> cq_stop req \<noteq> None
      then Some (opt_set ''stopSequences'' json_strings (cq_stop req) (opt_set ''topP'' f32 (cq_top_p req)
        (opt_set ''maxOutputTokens'' json_word (cq_max_tokens req) (opt_set ''temperature'' f32 (cq_temperature req) (JObject [])))))
      else None)"

definition to_gemini_request :: "(string \<Rightarrow> json option) \<Rightarrow> (32 word \<Rightarrow> json) \<Rightarrow> ChatRequest \<Rightarrow> json" where
  "to_gemini_request from_str f32 req =
     (let names = call_names (cq_messages req); sys = merged_system_text (cq_messages req)
      in opt_set ''generationConfig'' id (generation_config f32 req)
           (opt_set ''tools'' gemini_tools (cq_tools req)
             (opt_set ''systemInstruction'' id (if sys = [] then None else Some (gemini_content None [gemini_text sys]))
               (json_object [(''contents'', JArray (concat (map (gemini_message from_str names) (cq_messages req))))]))))"

definition gemini_body :: "(string \<Rightarrow> json option) \<Rightarrow> (32 word \<Rightarrow> json) \<Rightarrow> ChatRequest \<Rightarrow> json" where
  "gemini_body from_str f32 req = apply_extra_to req (to_gemini_request from_str f32 req)"

record GeminiResponsePart =
  gp_text :: "string option"
  gp_function_call :: "(string \<times> json) option"

record GeminiCandidate =
  gc_index :: nat
  gc_content :: "GeminiResponsePart list option"
  gc_finish_reason :: "string option"

definition gemini_finish_reason :: "string \<Rightarrow> FinishReason option" where
  "gemini_finish_reason r =
     (if r = ''STOP'' then Some Stop else if r = ''MAX_TOKENS'' then Some Length else if r = ''SAFETY'' then Some ContentFilter else None)"

definition gemini_call :: "(json \<Rightarrow> string) \<Rightarrow> nat \<Rightarrow> string \<times> json \<Rightarrow> ProviderToolCall" where
  "gemini_call to_str part_index call =
     \<lparr>ptc_id = ''call_'' @ fst call @ ''_'' @ show_nat part_index, ptc_kind = ''function'',
      ptc_function = \<lparr>fc_name = fst call, fc_arguments = to_str (snd call)\<rparr>\<rparr>"

definition gemini_chunk :: "(json \<Rightarrow> string) \<Rightarrow> GeminiCandidate list \<Rightarrow> ChatChunk" where
  "gemini_chunk to_str candidates =
     (let candidate = (case candidates of c # _ \<Rightarrow> c | [] \<Rightarrow> \<lparr>gc_index = 0, gc_content = None, gc_finish_reason = None\<rparr>);
          parts = unwrap_or (gc_content candidate) [];
          calls = concat (map (\<lambda>(i, p). case gp_function_call p of None \<Rightarrow> [] | Some c \<Rightarrow> [gemini_call to_str i c]) (enumerate 0 parts))
      in \<lparr>cc_index = gc_index candidate, cc_delta = concat (map (\<lambda>p. unwrap_or (gp_text p) []) parts),
          cc_finish_reason = Option.bind (gc_finish_reason candidate) gemini_finish_reason,
          cc_tool_calls = (if calls = [] then None else Some calls)\<rparr>)"

definition gemini_handle :: "(string \<Rightarrow> (string, GeminiCandidate list) result) \<Rightarrow> (json \<Rightarrow> string) \<Rightarrow> unit \<Rightarrow> string \<Rightarrow> (ProviderError, ChatChunk) result option \<times> unit" where
  "gemini_handle from_str to_str state d =
     (Some (case parse_sse_json from_str d of Inl e \<Rightarrow> Inl e | Inr c \<Rightarrow> Inr (gemini_chunk to_str c)), ())"

subsection \<open>Reading a body back\<close>

lemma map_of_obj_put: "map_of (obj_put k v kvs) = (map_of kvs)(k \<mapsto> v)"
  by (induction kvs) (auto simp: fun_eq_iff)

lemma json_get_object: "json_get (json_object kvs) k = map_of (rev kvs) k"
proof -
  have "map_of (foldl (\<lambda>kvs (k, v). obj_put k v kvs) acc kvs) = map_of acc ++ map_of (rev kvs)" for acc
  proof (induction kvs arbitrary: acc)
    case (Cons p kvs)
    obtain k' v' where p: "p = (k', v')" by fastforce
    show ?case by (simp add: Cons p map_of_obj_put map_add_def fun_eq_iff split: option.splits)
  qed simp
  from this [of "[]"] show ?thesis by (simp add: json_object_def)
qed

lemma json_get_set: "json_get (json_set (JObject kvs) k v) k' = (if k' = k then Some v else map_of kvs k')"
  by (simp add: map_of_obj_put)

text \<open>What a conversation says, and what is read from the messages of a body.\<close>

datatype wire_item = Said string | Answered string "(string \<times> string \<times> json) list" | Returned string string

definition conversation_item :: "(string \<Rightarrow> json option) \<Rightarrow> ChatMessage \<Rightarrow> wire_item list" where
  "conversation_item from_str m =
     (case cm_role m of
        System \<Rightarrow> []
      | User \<Rightarrow> if cm_content m = [] then [] else [Said (cm_content m)]
      | Assistant \<Rightarrow> [Answered (cm_content m) (map (\<lambda>c. (ptc_id c, fc_name (ptc_function c),
          parse_tool_arguments from_str (fc_arguments (ptc_function c)))) (unwrap_or (cm_tool_calls m) []))]
      | Tool \<Rightarrow> [Returned (unwrap_or (cm_tool_call_id m) []) (cm_content m)])"

definition str_at :: "json \<Rightarrow> string \<Rightarrow> string" where
  "str_at v k = unwrap_or (json_as_str (json_index v k)) []"

definition read_user_block :: "json \<Rightarrow> wire_item list" where
  "read_user_block b =
     (if str_at b ''type'' = ''text'' then [Said (str_at b ''text'')]
      else if str_at b ''type'' = ''tool_result'' then [Returned (str_at b ''tool_use_id'') (str_at b ''content'')]
      else [])"

definition block_texts :: "json list \<Rightarrow> string" where
  "block_texts bs = concat (map (\<lambda>b. if str_at b ''type'' = ''text'' then str_at b ''text'' else []) bs)"

definition block_uses :: "json list \<Rightarrow> (string \<times> string \<times> json) list" where
  "block_uses bs = concat (map (\<lambda>b. if str_at b ''type'' = ''tool_use'' then [(str_at b ''id'', str_at b ''name'', json_index b ''input'')] else []) bs)"

definition read_message :: "json \<Rightarrow> wire_item list" where
  "read_message m =
     (if str_at m ''role'' = ''assistant'' then
        (case json_index m ''content'' of
           JString s \<Rightarrow> [Answered s []]
         | JArray bs \<Rightarrow> [Answered (block_texts bs) (block_uses bs)]
         | _ \<Rightarrow> [])
      else concat (map read_user_block (unwrap_or (json_as_array (json_index m ''content'')) [])))"

lemmas read_defs = str_at_def json_index_def json_get_object

lemma tool_run_takeWhile: "i \<le> length ms \<Longrightarrow> tool_run_end ms i = i + length (takeWhile is_tool (drop i ms))"
proof (induction ms i rule: tool_run_end.induct)
  case (1 ms i)
  show ?case
  proof (cases "i < length ms \<and> is_tool (ms ! i)")
    case True
    then show ?thesis using 1 by (subst tool_run_end.simps) (simp add: Cons_nth_drop_Suc [symmetric])
  next
    case False
    then have "takeWhile is_tool (drop i ms) = []" by (cases "i < length ms") (simp_all add: Cons_nth_drop_Suc [symmetric])
    then show ?thesis using False by (subst tool_run_end.simps) auto
  qed
qed

lemma tool_run:
  "take (tool_run_end ms 0) ms = takeWhile is_tool ms" "drop (tool_run_end ms 0) ms = dropWhile is_tool ms"
  by (simp_all add: tool_run_takeWhile takeWhile_eq_take [symmetric] dropWhile_eq_drop [symmetric])

lemma read_block [simp]:
  "read_user_block (text_block t) = [Said t]"
  "read_user_block (tool_result_block m) = [Returned (unwrap_or (cm_tool_call_id m) []) (cm_content m)]"
  by (simp_all add: read_user_block_def text_block_def tool_result_block_def read_defs)

lemma read_use_blocks:
  "block_texts (map (tool_use_block from_str) cs) = []"
  "block_uses (map (tool_use_block from_str) cs) =
     map (\<lambda>c. (ptc_id c, fc_name (ptc_function c), parse_tool_arguments from_str (fc_arguments (ptc_function c)))) cs"
  by (induction cs) (simp_all add: block_texts_def block_uses_def tool_use_block_def read_defs)

lemma read_text_blocks [simp]:
  "block_texts (text_block t # bs) = t @ block_texts bs" "block_uses (text_block t # bs) = block_uses bs"
  by (simp_all add: block_texts_def block_uses_def text_block_def read_defs)

lemma read_assistant:
  "cm_role m = Assistant \<Longrightarrow> read_message (build_assistant_message from_str m) = conversation_item from_str m"
proof (cases "cm_tool_calls m")
  case (Some calls)
  assume "cm_role m = Assistant"
  then show ?thesis
    using Some read_use_blocks [of from_str calls]
    by (cases calls) (simp_all add: build_assistant_message_def read_message_def conversation_item_def read_defs del: list.map)
qed (simp add: build_assistant_message_def read_message_def conversation_item_def read_defs)

lemma read_user: "read_message (json_object [(''role'', JString ''user''), (''content'', JArray bs)]) = concat (map read_user_block bs)"
  by (simp add: read_message_def read_defs)

lemma conversation_tools:
  "\<forall>m\<in>set ts. is_tool m \<Longrightarrow> concat (map (conversation_item from_str) ts) = concat (map read_user_block (map tool_result_block ts))"
  by (induction ts) (auto simp: conversation_item_def)

definition user_blocks :: "ChatMessage \<Rightarrow> ChatMessage list \<Rightarrow> json list" where
  "user_blocks m rest =
     (if cm_role m = User \<and> cm_content m \<noteq> [] then [text_block (cm_content m)] else []) @
     (if cm_role m = Tool then [tool_result_block m] else []) @ map tool_result_block (takeWhile is_tool rest)"

lemma anthropic_loop_user:
  "cm_role m = User \<or> cm_role m = Tool \<Longrightarrow> snd (anthropic_loop from_str (m # rest)) =
     (if user_blocks m rest \<noteq> [] then [json_object [(''role'', JString ''user''), (''content'', JArray (user_blocks m rest))]] else []) @
     snd (anthropic_loop from_str (dropWhile is_tool rest))"
  unfolding anthropic_loop.simps Let_def tool_run case_prod_beta user_blocks_def by auto

lemma anthropic_loop_reads: "concat (map read_message (snd (anthropic_loop from_str ms))) = concat (map (conversation_item from_str) ms)"
proof (induction from_str ms rule: anthropic_loop.induct)
  case (2 from_str m rest)
  consider "cm_role m = System" | "cm_role m = Assistant" | "cm_role m = User \<or> cm_role m = Tool" by (cases "cm_role m") auto
  then show ?case
  proof cases
    case 1
    then show ?thesis using 2 by (simp add: conversation_item_def case_prod_beta)
  next
    case 2
    then show ?thesis using "2.IH" by (simp add: read_assistant case_prod_beta)
  next
    case 3
    let ?ts = "takeWhile is_tool rest"
    have tools: "\<forall>m\<in>set ?ts. is_tool m" by (auto dest: set_takeWhileD)
    have IH: "concat (map read_message (snd (anthropic_loop from_str (dropWhile is_tool rest)))) = concat (map (conversation_item from_str) (dropWhile is_tool rest))"
      using "2.IH"(3) 3 by (auto simp: tool_run)
    have "concat (map read_message (snd (anthropic_loop from_str (m # rest)))) =
        concat (map read_user_block (user_blocks m rest)) @ concat (map (conversation_item from_str) (dropWhile is_tool rest))"
      unfolding anthropic_loop_user [OF 3] by (simp add: read_user IH)
    also have "concat (map read_user_block (user_blocks m rest)) = conversation_item from_str m @ concat (map (conversation_item from_str) ?ts)"
      using 3 conversation_tools [OF tools, of from_str] by (auto simp: user_blocks_def conversation_item_def)
    finally show ?thesis by (metis append.assoc concat.simps(2) concat_append list.simps(9) map_append takeWhile_dropWhile_id)
  qed
qed simp

text \<open>Tool calls on the wire, and that each is answered in the message that follows.\<close>

definition wire_uses :: "json \<Rightarrow> string set" where
  "wire_uses m = (\<Union>item\<in>set (read_message m). case item of Answered _ uses \<Rightarrow> fst ` set uses | _ \<Rightarrow> {})"

definition wire_results :: "json \<Rightarrow> string set" where
  "wire_results m = (\<Union>item\<in>set (read_message m). case item of Returned i _ \<Rightarrow> {i} | _ \<Rightarrow> {})"

fun wire_answered :: "json list \<Rightarrow> bool" where
  "wire_answered [] \<longleftrightarrow> True"
| "wire_answered (m # ms) \<longleftrightarrow> wire_uses m \<subseteq> (case ms of [] \<Rightarrow> {} | m' # _ \<Rightarrow> wire_results m') \<and> wire_answered ms"

lemma wire_uses_assistant: "cm_role m = Assistant \<Longrightarrow> wire_uses (build_assistant_message from_str m) = ptc_id ` set (message_calls m)"
  by (simp add: wire_uses_def read_assistant conversation_item_def message_calls_def image_image)

lemma wire_user_blocks:
  defines "wire \<equiv> \<lambda>m rest. json_object [(''role'', JString ''user''), (''content'', JArray (user_blocks m rest))]"
  shows "wire_uses (wire m rest) = {}" "is_tool m \<Longrightarrow> result_ids (m # takeWhile is_tool rest) \<subseteq> wire_results (wire m rest)"
  by (auto simp: wire_def wire_uses_def wire_results_def read_user user_blocks_def result_ids_iff split: if_splits)

lemma wire_answered_loop: "calls_answered ms \<Longrightarrow> wire_answered (snd (anthropic_loop from_str ms))"
proof (induction from_str ms rule: anthropic_loop.induct)
  case (2 from_str m rest)
  consider "cm_role m = System" | "cm_role m = Assistant" | "cm_role m = User \<or> cm_role m = Tool" by (cases "cm_role m") auto
  then show ?case
  proof cases
    case 1
    then show ?thesis using 2 by (simp add: case_prod_beta)
  next
    case 2
    have IH: "wire_answered (snd (anthropic_loop from_str rest))" using "2.IH" "2.prems" 2 by simp
    have "wire_uses (build_assistant_message from_str m) \<subseteq> (case snd (anthropic_loop from_str rest) of [] \<Rightarrow> {} | m' # _ \<Rightarrow> wire_results m')"
    proof (cases "message_calls m = []")
      case True
      then show ?thesis using 2 by (simp add: wire_uses_assistant)
    next
      case False
      have sub: "ptc_id ` set (message_calls m) \<subseteq> result_ids (takeWhile is_tool rest)" using "2.prems" by (simp add: missing_ids_Nil)
      then have "takeWhile is_tool rest \<noteq> []" using False by (auto simp: result_ids_iff)
      then obtain t rest' where t: "rest = t # rest'" "is_tool t" by (cases rest) (auto split: if_splits)
      then have "snd (anthropic_loop from_str rest) = json_object [(''role'', JString ''user''), (''content'', JArray (user_blocks t rest'))] # snd (anthropic_loop from_str (dropWhile is_tool rest'))"
        using anthropic_loop_user [of t from_str rest'] by (simp add: user_blocks_def)
      then show ?thesis using 2 sub t wire_user_blocks(2) [of t rest'] by (auto simp: wire_uses_assistant)
    qed
    then show ?thesis using 2 IH by (simp add: case_prod_beta)
  next
    case 3
    have "calls_answered (takeWhile is_tool rest @ dropWhile is_tool rest)" using "2.prems" by simp
    then have "calls_answered (dropWhile is_tool rest)" by (subst (asm) calls_answered_tools) (auto dest: set_takeWhileD)
    then have "wire_answered (snd (anthropic_loop from_str (dropWhile is_tool rest)))" using "2.IH"(3) 3 by (auto simp: tool_run)
    then show ?thesis unfolding anthropic_loop_user [OF 3] by (simp add: wire_user_blocks(1))
  qed
qed simp

text \<open>The messages of a body, unless the caller's extra settings replace them.\<close>

definition is_object :: "json \<Rightarrow> bool" where
  "is_object v \<longleftrightarrow> (\<exists>kvs. v = JObject kvs)"

lemma set_get:
  assumes "is_object v"
  shows "is_object (json_set v k x)" "json_index (json_set v k x) k' = (if k' = k then x else json_index v k')"
  using assms by (auto simp: is_object_def json_index_def map_of_obj_put)

lemma opt_set_get:
  assumes "is_object v"
  shows "is_object (opt_set k f x v)" "k \<noteq> k' \<Longrightarrow> json_index (opt_set k f x v) k' = json_index v k'"
  using assms by (auto simp: opt_set_def set_get split: option.splits)

lemma extra_get:
  assumes "is_object v" "k \<notin> fst ` set (cq_extra req)"
  shows "json_index (apply_extra_to req v) k = json_index v k"
proof -
  have "k \<notin> fst ` set kvs \<Longrightarrow> is_object v \<Longrightarrow> json_index (foldl (\<lambda>body (k, v). json_set body k v) v kvs) k = json_index v k" for kvs v
    by (induction kvs arbitrary: v) (auto simp: set_get)
  then show ?thesis using assms by (simp add: apply_extra_to_def)
qed

lemma anthropic_messages:
  "''messages'' \<notin> fst ` set (cq_extra req) \<Longrightarrow>
     json_index (anthropic_body from_str f32 req) ''messages'' = JArray (snd (anthropic_loop from_str (cq_messages req)))"
proof -
  assume no: "''messages'' \<notin> fst ` set (cq_extra req)"
  obtain sys msgs where l: "anthropic_loop from_str (cq_messages req) = (sys, msgs)" by fastforce
  let ?b0 = "json_object [(''model'', JString (cq_model req)), (''messages'', JArray msgs),
     (''max_tokens'', json_word (unwrap_or (cq_max_tokens req) 4096)), (''stream'', JBool True)]"
  let ?b1 = "if sys \<noteq> [] then json_set ?b0 ''system'' (JArray sys) else ?b0"
  have "is_object ?b0" unfolding is_object_def json_object_def by blast
  moreover have "json_index ?b0 ''messages'' = JArray msgs" by (simp add: json_index_def json_get_object)
  ultimately have b1: "is_object ?b1" "json_index ?b1 ''messages'' = JArray msgs" by (simp_all add: set_get)
  show ?thesis unfolding anthropic_body_def l Let_def prod.case
    by (simp add: extra_get [OF _ no] opt_set_get b1 del: json_set.simps)
qed

lemma wire_results_anchored:
  fixes from_str
  assumes "results_anchored ms"
  defines "msgs \<equiv> snd (anthropic_loop from_str ms)"
  shows "(\<Union>m\<in>set msgs. wire_results m) \<subseteq> (\<Union>m\<in>set msgs. wire_uses m)"
proof -
  have items: "set (concat (map read_message msgs)) = set (concat (map (conversation_item from_str) ms))"
    unfolding msgs_def anthropic_loop_reads ..
  have "(\<Union>m\<in>set msgs. wire_results m) = (\<Union>item\<in>set (concat (map read_message msgs)). case item of Returned i _ \<Rightarrow> {i} | _ \<Rightarrow> {})"
    by (simp add: wire_results_def)
  also have "\<dots> \<subseteq> result_id ` {m \<in> set ms. is_tool m}"
    unfolding items by (auto simp: conversation_item_def result_id_def split: ChatRole.splits if_splits)
  also have "\<dots> \<subseteq> collect_tool_use_ids ms" using assms(1) by (auto simp: results_anchored_def)
  also have "\<dots> \<subseteq> (\<Union>item\<in>set (concat (map read_message msgs)). case item of Answered _ uses \<Rightarrow> fst ` set uses | _ \<Rightarrow> {})"
    unfolding items by (force simp: collect_tool_use_ids_def message_calls_def conversation_item_def split: if_splits)
  also have "\<dots> = (\<Union>m\<in>set msgs. wire_uses m)" by (simp add: wire_uses_def)
  finally show ?thesis .
qed

lemma calls_answered_append: "calls_answered xs \<Longrightarrow> calls_answered ys \<Longrightarrow> calls_answered (xs @ ys)"
proof (induction xs)
  case (Cons x xs)
  have "set (takeWhile is_tool xs) \<subseteq> set (takeWhile is_tool (xs @ ys))" by (induction xs) auto
  then have "missing_ids x (xs @ ys) = []" using Cons.prems missing_ids_mono by simp
  then show ?case using Cons by simp
qed simp

subsection \<open>Reading a reply\<close>

text \<open>A reply as the service sends it: blocks of text and of tool use, in fragments.\<close>

datatype reply_block = TextBlock "string list" | ToolBlock string string "string list"

definition event :: "string \<Rightarrow> AnthropicContentBlockStart option \<Rightarrow> AnthropicDelta option \<Rightarrow> AnthropicEventData" where
  "event t b d = \<lparr>ae_event_type = t, ae_content_block = b, ae_delta = d\<rparr>"

definition text_delta :: "string \<Rightarrow> AnthropicEventData" where
  "text_delta t = event ''content_block_delta'' None (Some \<lparr>ad_text = Some t, ad_delta_type = Some ''text_delta'', ad_partial_json = None, ad_stop_reason = None\<rparr>)"

definition json_delta :: "string \<Rightarrow> AnthropicEventData" where
  "json_delta t = event ''content_block_delta'' None (Some \<lparr>ad_text = None, ad_delta_type = Some ''input_json_delta'', ad_partial_json = Some t, ad_stop_reason = None\<rparr>)"

definition stop_event :: "string \<Rightarrow> AnthropicEventData" where
  "stop_event r = event ''message_delta'' None (Some \<lparr>ad_text = None, ad_delta_type = None, ad_partial_json = None, ad_stop_reason = Some r\<rparr>)"

fun block_events :: "reply_block \<Rightarrow> AnthropicEventData list" where
  "block_events (TextBlock ts) =
     event ''content_block_start'' (Some \<lparr>ab_block_type = ''text'', ab_id = None, ab_name = None\<rparr>) None # map text_delta ts @
     [event ''content_block_stop'' None None]"
| "block_events (ToolBlock i n js) =
     event ''content_block_start'' (Some \<lparr>ab_block_type = ''tool_use'', ab_id = Some i, ab_name = Some n\<rparr>) None # map json_delta js @
     [event ''content_block_stop'' None None]"

fun block_chunks :: "reply_block \<Rightarrow> chat_stream" where
  "block_chunks (TextBlock ts) = map (\<lambda>t. Inr (default_ChatChunk\<lparr>cc_delta := t\<rparr>)) ts"
| "block_chunks (ToolBlock _ _ _) = []"

fun block_calls :: "(string \<Rightarrow> json option) \<Rightarrow> (json \<Rightarrow> string) \<Rightarrow> reply_block \<Rightarrow> ProviderToolCall list" where
  "block_calls from_str to_str (TextBlock ts) = []"
| "block_calls from_str to_str (ToolBlock i n js) =
     [\<lparr>ptc_id = i, ptc_kind = ''function'', ptc_function = \<lparr>fc_name = n, fc_arguments = to_str (parse_tool_arguments from_str (concat js))\<rparr>\<rparr>]"

fun event_chunks :: "(string \<Rightarrow> json option) \<Rightarrow> (json \<Rightarrow> string) \<Rightarrow> AnthropicEventData list \<Rightarrow> AnthropicStreamState \<Rightarrow> chat_stream \<times> AnthropicStreamState" where
  "event_chunks from_str to_str [] st = ([], st)"
| "event_chunks from_str to_str (ev # evs) st =
     (let (out, st') = anthropic_chunk from_str to_str ev st; (outs, st'') = event_chunks from_str to_str evs st'
      in ((case out of None \<Rightarrow> [] | Some r \<Rightarrow> [r]) @ outs, st''))"

lemma event_chunks_append:
  "event_chunks from_str to_str (xs @ ys) st =
     (let (o1, st1) = event_chunks from_str to_str xs st; (o2, st2) = event_chunks from_str to_str ys st1 in (o1 @ o2, st2))"
  by (induction xs arbitrary: st) (auto simp: case_prod_beta Let_def)

lemma sse_events:
  "list_all2 (\<lambda>d ev. from_event d = Inr ev) ds evs \<Longrightarrow>
     sse_stream (anthropic_handle from_event from_str to_str) st (map Inr ds) = fst (event_chunks from_str to_str evs st)"
  by (induction ds evs arbitrary: st rule: list_all2_induct)
     (auto simp: anthropic_handle_def parse_sse_json_def case_prod_beta Let_def)

text \<open>The events the handler acts on; every other type is ignored.\<close>

definition handled_event :: "AnthropicEventData \<Rightarrow> bool" where
  "handled_event ev \<longleftrightarrow>
     ae_event_type ev \<in> {''content_block_start'', ''content_block_delta'', ''content_block_stop'', ''message_delta''}"

lemma event_chunks_handled: "event_chunks from_str to_str evs st = event_chunks from_str to_str (filter handled_event evs) st"
  by (induction evs arbitrary: st) (auto simp: handled_event_def anthropic_chunk_def case_prod_beta Let_def)

lemma text_chunks: "event_chunks from_str to_str (map text_delta ts) st = (block_chunks (TextBlock ts), st)"
  by (induction ts) (simp_all add: text_delta_def event_def anthropic_chunk_def block_delta_def)

lemma json_chunks:
  "as_current_tool st = Some t \<Longrightarrow>
     event_chunks from_str to_str (map json_delta js) st = ([], st\<lparr>as_current_tool := Some (t\<lparr>pt_arguments := pt_arguments t @ concat js\<rparr>)\<rparr>)"
proof (induction js arbitrary: st t)
  case (Cons j js)
  then show ?case by (simp add: json_delta_def event_def anthropic_chunk_def block_delta_def)
qed simp

lemma block_done:
  "event_chunks from_str to_str (block_events b) \<lparr>as_current_tool = None, as_completed_tools = cs\<rparr> =
     (block_chunks b, \<lparr>as_current_tool = None, as_completed_tools = cs @ block_calls from_str to_str b\<rparr>)"
proof (cases b)
  case (TextBlock ts)
  then show ?thesis
    by (simp add: event_chunks_append text_chunks event_def anthropic_chunk_def block_start_def block_stop_def)
next
  case (ToolBlock i n js)
  then show ?thesis
    by (simp add: event_chunks_append json_chunks event_def anthropic_chunk_def block_start_def block_stop_def)
qed

lemma blocks_done:
  "event_chunks from_str to_str (concat (map block_events bs)) \<lparr>as_current_tool = None, as_completed_tools = cs\<rparr> =
     (concat (map block_chunks bs), \<lparr>as_current_tool = None, as_completed_tools = cs @ concat (map (block_calls from_str to_str) bs)\<rparr>)"
  by (induction bs arbitrary: cs) (simp_all add: event_chunks_append block_done)

subsection \<open>Properties\<close>

text \<open>C12. An Anthropic request carries the whole conversation: reading its messages back gives every user text,
  every answer with its tool calls and every tool result, in order; only system messages, which travel in
  their own field, and empty user texts are not among them.\<close>

theorem anthropic_body_keeps_conversation:
  assumes "''messages'' \<notin> fst ` set (cq_extra req)"
  shows "\<exists>msgs. json_index (anthropic_body from_str f32 req) ''messages'' = JArray msgs \<and>
    concat (map read_message msgs) = concat (map (conversation_item from_str) (cq_messages req))"
  using anthropic_messages [OF assms] anthropic_loop_reads by blast

text \<open>C11. A resumed session leaves no tool call of the request unanswered, whatever was lost of it. After the repair of the
  history, under both policies, every message of the Anthropic body that makes tool calls is followed at once by a message with the
  results of all of them. Under the placeholder policy, moreover, every tool result of the body carries the id of
  a tool call of the body. (Where that call stands is not claimed, and the dropping policy can keep a result whose call it removed.)\<close>

theorem resumed_request_well_formed:
  assumes "cq_messages req = sys @ fst (recover_orphaned_tool_results history policy) @ [ChatMessage_user prompt]"
    and "list_all (\<lambda>m. cm_role m = System) sys" "''messages'' \<notin> fst ` set (cq_extra req)"
  shows "\<exists>msgs. json_index (anthropic_body from_str f32 req) ''messages'' = JArray msgs \<and> wire_answered msgs \<and>
    (policy = Synthesize \<longrightarrow> (\<Union>m\<in>set msgs. wire_results m) \<subseteq> (\<Union>m\<in>set msgs. wire_uses m))"
proof -
  let ?msgs = "snd (anthropic_loop from_str (cq_messages req))" and ?h = "fst (recover_orphaned_tool_results history policy)"
  have "calls_answered sys" using assms(2) by (induction sys) (auto simp: message_calls_def)
  moreover have "calls_answered [ChatMessage_user prompt]" by (simp add: message_calls_def message_defs)
  ultimately have "calls_answered (cq_messages req)"
    unfolding assms(1) recover_fst by (intro calls_answered_append repair_calls_answered)
  then have answered: "wire_answered ?msgs" by (rule wire_answered_loop)
  have "results_anchored (cq_messages req)" if "results_anchored ?h"
    unfolding assms(1) results_anchored_def using that assms(2)
    by (fastforce simp: results_anchored_def list_all_iff message_defs)
  then have "(\<Union>m\<in>set ?msgs. wire_results m) \<subseteq> (\<Union>m\<in>set ?msgs. wire_uses m)" if "policy = Synthesize"
    using recover_synthesize_anchored [of history] unfolding that by (intro wire_results_anchored) blast
  with answered anthropic_messages [OF assms(3)] show ?thesis by blast
qed

text \<open>C13. A streamed reply is rebuilt. The stream is any sequence of text and tool-use blocks, each cut into any fragments,
  possibly followed by a stop reason, with events of other types (\<^verbatim>\<open>message_start\<close>, \<^verbatim>\<open>ping\<close>, \<^verbatim>\<open>message_stop\<close>, unknown ones) anywhere in it.
  The chunks are the text fragments in order, followed by one chunk with the finish reason if the stop reason is a known one;
  for tool use that chunk carries one call per tool-use block, in order, with its id and name and with the fragments of its
  arguments put together, parsed and printed again (an empty object when they are no JSON); and a tool-use stop without a
  tool-use block is the error of an aborted stream.\<close>

theorem anthropic_reply_rebuilt:
  assumes "list_all2 (\<lambda>d ev. from_event d = Inr ev) ds evs"
    and "filter handled_event evs = concat (map block_events blocks) @ (case stop of None \<Rightarrow> [] | Some r \<Rightarrow> [stop_event r])"
  shows "sse_stream (anthropic_handle from_event from_str to_str) default_AnthropicStreamState (map Inr ds) =
    concat (map block_chunks blocks) @
    (case Option.bind stop anthropic_stop_reason of
       None \<Rightarrow> []
     | Some reason \<Rightarrow>
         [let calls = concat (map (block_calls from_str to_str) blocks); chunk = default_ChatChunk\<lparr>cc_finish_reason := Some reason\<rparr>
          in if reason \<noteq> ToolCalls then Inr chunk
             else if calls = [] then Inl (StreamAborted ''tool_use stop reason with no completed tool calls'')
             else Inr (chunk\<lparr>cc_tool_calls := Some calls\<rparr>)])"
proof -
  let ?calls = "concat (map (block_calls from_str to_str) blocks)"
  let ?st = "\<lparr>as_current_tool = None, as_completed_tools = ?calls\<rparr>"
  have "event_chunks from_str to_str (filter handled_event evs) default_AnthropicStreamState =
      (concat (map block_chunks blocks) @ fst (event_chunks from_str to_str (case stop of None \<Rightarrow> [] | Some r \<Rightarrow> [stop_event r]) ?st),
       snd (event_chunks from_str to_str (case stop of None \<Rightarrow> [] | Some r \<Rightarrow> [stop_event r]) ?st))"
    unfolding assms(2) event_chunks_append default_AnthropicStreamState_def blocks_done by (simp add: case_prod_beta Let_def)
  then have chunks: "sse_stream (anthropic_handle from_event from_str to_str) default_AnthropicStreamState (map Inr ds) =
      concat (map block_chunks blocks) @ fst (event_chunks from_str to_str (case stop of None \<Rightarrow> [] | Some r \<Rightarrow> [stop_event r]) ?st)"
    unfolding sse_events [OF assms(1)] by (subst event_chunks_handled) simp
  show ?thesis
  proof (cases stop)
    case (Some r)
    show ?thesis unfolding chunks Some
      by (cases "anthropic_stop_reason r") (auto simp: stop_event_def event_def anthropic_chunk_def message_delta_def Let_def)
  qed (simp add: chunks)
qed

definition wire_request :: "ChatMessage list \<Rightarrow> ChatRequest" where
  "wire_request ms = ChatRequest_new ''m'' ms"

definition wire_call :: ProviderToolCall where
  "wire_call = \<lparr>ptc_id = ''c1'', ptc_kind = ''function'', ptc_function = \<lparr>fc_name = ''read'', fc_arguments = ''{}''\<rparr>\<rparr>"

definition demo_asking :: ChatMessage where
  "demo_asking = (ChatMessage_assistant ''look'')\<lparr>cm_tool_calls := Some [wire_call]\<rparr>"

theorem anthropic_body_keeps_conversation_witness:
  "\<exists>msgs. json_index (anthropic_body (\<lambda>_. None) (\<lambda>_. JNull) (wire_request [ChatMessage_user ''hi'', demo_asking])) ''messages'' = JArray msgs \<and>
    concat (map read_message msgs) = [Said ''hi'', Answered ''look'' [(''c1'', ''read'', JObject [])]]"
proof -
  have "concat (map (conversation_item (\<lambda>_. None)) [ChatMessage_user ''hi'', demo_asking]) = [Said ''hi'', Answered ''look'' [(''c1'', ''read'', JObject [])]]"
    by code_simp
  then show ?thesis
    using anthropic_body_keeps_conversation [of "wire_request [ChatMessage_user ''hi'', demo_asking]" "\<lambda>_. None" "\<lambda>_. JNull"]
    by (simp add: wire_request_def ChatRequest_new_def)
qed

theorem resumed_request_well_formed_witness:
  "\<exists>msgs. json_index (anthropic_body (\<lambda>_. None) (\<lambda>_. JNull)
     (wire_request ([ChatMessage_system ''s''] @ fst (recover_orphaned_tool_results [demo_asking] Synthesize) @ [ChatMessage_user ''go'']))) ''messages'' = JArray msgs \<and>
    wire_answered msgs \<and> (\<Union>m\<in>set msgs. wire_results m) \<subseteq> (\<Union>m\<in>set msgs. wire_uses m)"
proof -
  let ?req = "wire_request ([ChatMessage_system ''s''] @ fst (recover_orphaned_tool_results [demo_asking] Synthesize) @ [ChatMessage_user ''go''])"
  have "cq_messages ?req = [ChatMessage_system ''s''] @ fst (recover_orphaned_tool_results [demo_asking] Synthesize) @ [ChatMessage_user ''go'']"
    "''messages'' \<notin> fst ` set (cq_extra ?req)" by (simp_all add: wire_request_def ChatRequest_new_def)
  from resumed_request_well_formed [OF this(1) _ this(2)] show ?thesis by (simp add: message_defs)
qed

definition demo_blocks :: "reply_block list" where
  "demo_blocks = [TextBlock [''a'', ''b''], ToolBlock ''c1'' ''read'' [''{'', ''}'']]"

definition demo_events :: "AnthropicEventData list" where
  "demo_events = [event ''message_start'' None None] @ block_events (hd demo_blocks) @ [event ''ping'' None None] @
     concat (map block_events (tl demo_blocks)) @ [stop_event ''tool_use'', event ''message_stop'' None None]"

definition wire_parse :: "string \<Rightarrow> (string, AnthropicEventData) result" where
  "wire_parse d = Inr (demo_events ! length d)"

theorem anthropic_reply_rebuilt_witness:
  "sse_stream (anthropic_handle wire_parse (\<lambda>_. None) (\<lambda>_. ''{}'')) default_AnthropicStreamState
     (map Inr (map (\<lambda>i. replicate i CHR ''x'') [0..<12])) =
   [Inr (default_ChatChunk\<lparr>cc_delta := ''a''\<rparr>), Inr (default_ChatChunk\<lparr>cc_delta := ''b''\<rparr>),
    Inr (default_ChatChunk\<lparr>cc_finish_reason := Some ToolCalls, cc_tool_calls := Some [wire_call]\<rparr>)]"
proof -
  have parsed: "list_all2 (\<lambda>d ev. wire_parse d = Inr ev) (map (\<lambda>i. replicate i CHR ''x'') [0..<12]) demo_events"
    by code_simp
  have handled: "filter handled_event demo_events = concat (map block_events demo_blocks) @ (case Some ''tool_use'' of None \<Rightarrow> [] | Some r \<Rightarrow> [stop_event r])"
    by code_simp
  show ?thesis
    unfolding anthropic_reply_rebuilt [OF parsed handled] by (simp add: demo_blocks_def wire_call_def anthropic_stop_reason_def)
qed

text \<open>The ids Gemini calls get are made from the function name and the position in the chunk only: two calls of one
  function in two chunks of a reply get the same id, and so do calls in different turns.\<close>

theorem gemini_call_ids_repeat:
  "let chunk = gemini_chunk to_str [\<lparr>gc_index = 0, gc_content = Some [\<lparr>gp_text = None, gp_function_call = Some (name, args)\<rparr>], gc_finish_reason = None\<rparr>];
       other = gemini_chunk to_str [\<lparr>gc_index = 0, gc_content = Some [\<lparr>gp_text = None, gp_function_call = Some (name, args')\<rparr>], gc_finish_reason = None\<rparr>]
   in \<exists>c c'. cc_tool_calls chunk = Some [c] \<and> cc_tool_calls other = Some [c'] \<and> ptc_id c = ptc_id c' \<and>
        fc_arguments (ptc_function c) = to_str args \<and> fc_arguments (ptc_function c') = to_str args'"
  by (simp add: gemini_chunk_def gemini_call_def Let_def)

end
