(* ===== verification/Event_Stream.thy ===== *)
theory Event_Stream
  imports Chat_Types
begin

text \<open>
  The AWS event-stream framing (\<^verbatim>\<open>legion-provider/src/eventstream.rs\<close>): the table-driven CRC, the decoder of one
  frame with its header block, and the buffering decoder that is fed with whatever pieces the network
  delivers. \<^verbatim>\<open>String::from_utf8_lossy\<close> is written out: a byte sequence is valid UTF-8 when it is left as it is.
\<close>

unbundle bit_operations_syntax

subsection \<open>Definitions\<close>

definition PRELUDE_LEN :: nat where
  "PRELUDE_LEN = 12"

definition TRAILER_LEN :: nat where
  "TRAILER_LEN = 4"

definition crc_round :: "32 word \<Rightarrow> 32 word" where
  "crc_round c = (if c AND 1 \<noteq> 0 then 0xEDB88320 XOR drop_bit 1 c else drop_bit 1 c)"

definition CRC32_TABLE :: "32 word list" where
  "CRC32_TABLE = map (\<lambda>i. (crc_round ^^ 8) (word_of_nat i)) [0..<256]"

definition crc_step :: "32 word \<Rightarrow> byte \<Rightarrow> 32 word" where
  "crc_step crc b = CRC32_TABLE ! unat ((crc XOR ucast b) AND 0xFF) XOR drop_bit 8 crc"

definition crc32 :: "byte list \<Rightarrow> 32 word" where
  "crc32 bytes = foldl crc_step 0xFFFFFFFF bytes XOR 0xFFFFFFFF"

text \<open>Big-endian integers: the value of a list of bytes, and the bytes of a value.\<close>

definition be_nat :: "byte list \<Rightarrow> nat" where
  "be_nat = foldl (\<lambda>n b. n * 256 + unat b) 0"

fun be_bytes :: "nat \<Rightarrow> nat \<Rightarrow> byte list" where
  "be_bytes 0 n = []"
| "be_bytes (Suc k) n = be_bytes k (n div 256) @ [word_of_nat (n mod 256)]"

definition be_u32 :: "byte list \<Rightarrow> 32 word" where
  "be_u32 buf = word_of_nat (be_nat (take 4 buf))"

text \<open>\<open>String::from_utf8_lossy\<close>: the width of the character a byte starts (0 if none), the bytes its
  second byte may be, and the number of bytes that continue it.\<close>

definition utf8_width :: "byte \<Rightarrow> nat" where
  "utf8_width b = (if 0xC2 \<le> b \<and> b \<le> 0xDF then 2 else if 0xE0 \<le> b \<and> b \<le> 0xEF then 3 else if 0xF0 \<le> b \<and> b \<le> 0xF4 then 4 else 0)"

definition is_cont :: "byte \<Rightarrow> bool" where
  "is_cont b \<longleftrightarrow> 0x80 \<le> b \<and> b \<le> 0xBF"

definition second_ok :: "byte \<Rightarrow> byte \<Rightarrow> bool" where
  "second_ok b c \<longleftrightarrow> is_cont c \<and> (b = 0xE0 \<longrightarrow> 0xA0 \<le> c) \<and> (b = 0xED \<longrightarrow> c \<le> 0x9F) \<and> (b = 0xF0 \<longrightarrow> 0x90 \<le> c) \<and> (b = 0xF4 \<longrightarrow> c \<le> 0x8F)"

definition utf8_tail :: "byte \<Rightarrow> byte list \<Rightarrow> nat" where
  "utf8_tail b bs =
     (case bs of
        c # cs \<Rightarrow> if utf8_width b \<noteq> 0 \<and> second_ok b c then Suc (length (takeWhile is_cont (take (utf8_width b - 2) cs))) else 0
      | [] \<Rightarrow> 0)"

function utf8_lossy :: "byte list \<Rightarrow> byte list" where
  "utf8_lossy [] = []"
| "utf8_lossy (b # bs) =
     (if b < 0x80 then b # utf8_lossy bs
      else if utf8_width b \<noteq> 0 \<and> Suc (utf8_tail b bs) = utf8_width b
      then b # take (utf8_tail b bs) bs @ utf8_lossy (drop (utf8_tail b bs) bs)
      else [0xEF, 0xBF, 0xBD] @ utf8_lossy (drop (utf8_tail b bs) bs))"
  by pat_completeness auto
termination by (relation "measure length") auto

definition from_utf8_lossy :: "byte list \<Rightarrow> string" where
  "from_utf8_lossy bs = map (\<lambda>b. char_of (unat b)) (utf8_lossy bs)"

text \<open>The two's-complement value of \<open>n\<close> big-endian bytes.\<close>

definition be_signed :: "byte list \<Rightarrow> int" where
  "be_signed bs = (let w = 8 * length bs; n = int (be_nat bs) in if n < 2 ^ (w - 1) then n else n - 2 ^ w)"

definition take_bytes :: "byte list \<Rightarrow> nat \<Rightarrow> (ProviderError, byte list \<times> byte list) result" where
  "take_bytes buf n =
     (if length buf < n then Inl (StreamAborted ''event stream header truncated'') else Inr (take n buf, drop n buf))"

text \<open>The value of a header and the rest of the block.\<close>

definition header_value :: "byte \<Rightarrow> byte list \<Rightarrow> (ProviderError, string \<times> byte list) result" where
  "header_value value_type buf =
     (if value_type = 0 then Inr (''true'', buf)
      else if value_type = 1 then Inr (''false'', buf)
      else if value_type = 2 then bind_result (take_bytes buf 1) (\<lambda>(v, rest). Inr (show_nat (be_nat v), rest))
      else if value_type = 3 then bind_result (take_bytes buf 2) (\<lambda>(v, rest). Inr (show_int (be_signed v), rest))
      else if value_type = 4 then bind_result (take_bytes buf 4) (\<lambda>(v, rest). Inr (show_int (be_signed v), rest))
      else if value_type = 5 \<or> value_type = 8 then bind_result (take_bytes buf 8) (\<lambda>(v, rest). Inr (show_int (be_signed v), rest))
      else if value_type = 6 \<or> value_type = 7 then
        bind_result (take_bytes buf 2) (\<lambda>(l, rest).
        bind_result (take_bytes rest (be_nat l)) (\<lambda>(v, rest). Inr (from_utf8_lossy v, rest)))
      else if value_type = 9 then bind_result (take_bytes buf 16) (\<lambda>(_, rest). Inr ([], rest))
      else Inl (StreamAborted (''unknown event stream header type '' @ show_nat (unat value_type))))"

text \<open>One turn of the header loop: a name, a type and a value.\<close>

definition parse_header :: "byte list \<Rightarrow> (ProviderError, string \<times> string \<times> byte list) result" where
  "parse_header buf =
     bind_result (take_bytes buf 1) (\<lambda>(l, buf).
     bind_result (take_bytes buf (be_nat l)) (\<lambda>(name, buf).
     bind_result (take_bytes buf 1) (\<lambda>(t, buf).
     bind_result (header_value (hd t) buf) (\<lambda>(v, buf). Inr (from_utf8_lossy name, v, buf)))))"

lemma take_bytes_rest: "take_bytes buf n = Inr (v, rest) \<Longrightarrow> length rest = length buf - n \<and> n \<le> length buf"
  by (auto simp: take_bytes_def split: if_splits)

lemma header_value_rest: "header_value t buf = Inr (v, rest) \<Longrightarrow> length rest \<le> length buf"
  by (auto simp: header_value_def dest!: take_bytes_rest split: if_splits)

lemma parse_header_rest: "parse_header buf = Inr (name, v, rest) \<Longrightarrow> length rest < length buf"
  by (auto simp: parse_header_def dest!: take_bytes_rest header_value_rest)

function parse_headers_loop :: "(string \<rightharpoonup> string) \<Rightarrow> byte list \<Rightarrow> (ProviderError, string \<rightharpoonup> string) result" where
  "parse_headers_loop headers buf =
     (if buf = [] then Inr headers
      else case parse_header buf of
        Inl e \<Rightarrow> Inl e
      | Inr (name, v, rest) \<Rightarrow> parse_headers_loop (headers(name \<mapsto> v)) rest)"
  by pat_completeness auto
termination
  by (relation "measure (length \<circ> snd)") (auto dest: parse_header_rest)

declare parse_headers_loop.simps [simp del]

definition parse_headers :: "byte list \<Rightarrow> (ProviderError, string \<rightharpoonup> string) result" where
  "parse_headers = parse_headers_loop (\<lambda>_. None)"

definition decode_frame :: "byte list \<Rightarrow> (ProviderError, (string \<times> byte list \<times> nat) option) result" where
  "decode_frame buf =
     (if length buf < PRELUDE_LEN then Inr None
      else
        (let total_len = unat (be_u32 buf); headers_len = unat (be_u32 (drop 4 buf))
         in if total_len < PRELUDE_LEN + TRAILER_LEN \<or> total_len - PRELUDE_LEN - TRAILER_LEN < headers_len
            then Inl (StreamAborted ''event stream frame length invalid'')
            else if crc32 (take 8 buf) \<noteq> be_u32 (drop 8 buf) then Inl (StreamAborted ''event stream crc mismatch'')
            else if length buf < total_len then Inr None
            else if crc32 (take (total_len - TRAILER_LEN) buf) \<noteq> be_u32 (drop (total_len - TRAILER_LEN) buf)
            then Inl (StreamAborted ''event stream crc mismatch'')
            else
              bind_result (parse_headers (take headers_len (drop PRELUDE_LEN buf))) (\<lambda>headers.
              Inr (Some (case headers '':event-type'' of None \<Rightarrow> [] | Some t \<Rightarrow> t,
                         take (total_len - TRAILER_LEN - (PRELUDE_LEN + headers_len)) (drop (PRELUDE_LEN + headers_len) buf),
                         total_len)))))"

record EventStreamDecoder =
  esd_buf :: "byte list"

definition EventStreamDecoder_new :: EventStreamDecoder where
  "EventStreamDecoder_new = \<lparr>esd_buf = []\<rparr>"

definition esd_push :: "byte list \<Rightarrow> EventStreamDecoder \<Rightarrow> EventStreamDecoder" where
  "esd_push bytes d = d\<lparr>esd_buf := esd_buf d @ bytes\<rparr>"

definition next_frame :: "EventStreamDecoder \<Rightarrow> (ProviderError, (string \<times> byte list) option) result \<times> EventStreamDecoder" where
  "next_frame d =
     (case decode_frame (esd_buf d) of
        Inl e \<Rightarrow> (Inl e, d)
      | Inr None \<Rightarrow> (Inr None, d)
      | Inr (Some (event_type, payload, consumed)) \<Rightarrow> (Inr (Some (event_type, payload)), d\<lparr>esd_buf := drop consumed (esd_buf d)\<rparr>))"

text \<open>The encoder the source keeps beside the decoder.\<close>

definition encode_header :: "string \<times> string \<Rightarrow> byte list" where
  "encode_header h =
     (case h of (name, v) \<Rightarrow> word_of_nat (length name) # map of_char name @ [7] @ be_bytes 2 (length v) @ map of_char v)"

definition encode_frame :: "(string \<times> string) list \<Rightarrow> byte list \<Rightarrow> byte list" where
  "encode_frame headers payload =
     (let header_bytes = concat (map encode_header headers);
          total_len = PRELUDE_LEN + length header_bytes + length payload + TRAILER_LEN;
          prelude = be_bytes 4 total_len @ be_bytes 4 (length header_bytes);
          frame = prelude @ be_bytes 4 (unat (crc32 prelude)) @ header_bytes @ payload
      in frame @ be_bytes 4 (unat (crc32 frame)))"

subsection \<open>The checksum\<close>

text \<open>A round is linear and, because the polynomial has its top bit set, injective.\<close>

lemma crc_round_bit: "crc_round c = (if bit c 0 then 0xEDB88320 else 0) XOR drop_bit 1 c"
proof -
  have "c AND 1 \<noteq> 0 \<longleftrightarrow> bit c 0" by (simp add: and_one_eq bit_0 even_iff_mod_2_eq_zero)
  then show ?thesis by (simp add: crc_round_def)
qed

lemma crc_round_xor: "crc_round (a XOR b) = crc_round a XOR crc_round b"
  by (auto simp: crc_round_bit bit_xor_iff drop_bit_xor ac_simps xor.left_commute)

lemma rounds_xor: "(crc_round ^^ n) (a XOR b) = (crc_round ^^ n) a XOR (crc_round ^^ n) b"
  by (induction n) (simp_all add: crc_round_xor)

lemma crc_round_inj: "crc_round a = crc_round b \<Longrightarrow> a = b"
proof -
  assume eq: "crc_round a = crc_round b"
  have top: "bit (crc_round c) 31 = bit c 0" for c :: "32 word"
    by (simp add: crc_round_bit bit_xor_iff bit_drop_bit_eq) (auto dest: bit_imp_le_length)
  from top [of a] top [of b] eq have b0: "bit a 0 = bit b 0" by simp
  have cancel: "x XOR y = x XOR z \<Longrightarrow> y = z" for x y z :: "32 word" by (metis xor.left_commute xor_self_eq xor.right_neutral)
  have "drop_bit 1 a = drop_bit 1 b" using eq b0 unfolding crc_round_bit by (auto dest: cancel split: if_splits)
  then have "bit (drop_bit 1 a) n = bit (drop_bit 1 b) n" for n by simp
  then have "bit a (Suc n) = bit b (Suc n)" for n by (simp add: bit_drop_bit_eq)
  then show "a = b" using b0 by (auto simp: bit_eq_iff) (metis not0_implies_Suc)+
qed

lemma rounds_inj: "(crc_round ^^ n) a = (crc_round ^^ n) b \<Longrightarrow> a = b"
  by (induction n) (auto dest: crc_round_inj)

lemma rounds_shift: "\<forall>i<n. \<not> bit c i \<Longrightarrow> (crc_round ^^ n) c = drop_bit n c"
proof (induction n)
  case (Suc n)
  then have "(crc_round ^^ n) c = drop_bit n c" by simp
  moreover have "\<not> bit (drop_bit n c) 0" using Suc.prems by (simp add: bit_drop_bit_eq)
  ultimately show ?case by (simp add: crc_round_bit [of "drop_bit n c"])
qed simp

text \<open>A step of the table is eight rounds on the state with the byte mixed in.\<close>

lemma crc_step_rounds: "crc_step crc b = (crc_round ^^ 8) (crc XOR ucast b)"
proof -
  let ?x = "crc XOR ucast b" let ?lo = "?x AND 0xFF" let ?hi = "?x AND NOT 0xFF"
  have mask: "(0xFF :: 32 word) = mask 8" by (simp add: mask_eq_exp_minus_1)
  have lt: "unat ?lo < 256" unfolding mask by (simp add: take_bit_eq_mask [symmetric] take_bit_eq_mod unat_mod)
  have "CRC32_TABLE ! unat ?lo = (crc_round ^^ 8) ?lo" using lt by (simp add: CRC32_TABLE_def)
  moreover have "(crc_round ^^ 8) ?hi = drop_bit 8 ?hi" by (rule rounds_shift) (auto simp: mask bit_simps)
  moreover have "drop_bit 8 ?hi = drop_bit 8 crc" unfolding mask
    by (auto simp: bit_eq_iff bit_simps dest: bit_imp_le_length)
  moreover have "?x = ?lo XOR ?hi" by (auto simp: bit_eq_iff bit_simps)
  ultimately show ?thesis by (metis crc_step_def rounds_xor)
qed

text \<open>Up to four bytes act on the state as one little-endian word.\<close>

fun le_word :: "byte list \<Rightarrow> 32 word" where
  "le_word [] = 0"
| "le_word (b # bs) = ucast b XOR push_bit 8 (le_word bs)"

lemma le_word_bits: "bit (le_word bs) n \<longleftrightarrow> n < 32 \<and> n div 8 < length bs \<and> bit (bs ! (n div 8)) (n mod 8)"
proof (induction bs arbitrary: n)
  case (Cons b bs)
  show ?case
  proof (cases "n < 8")
    case True
    then show ?thesis by (auto simp: bit_simps)
  next
    case False
    then obtain m where m: "n = m + 8" by (metis add.commute le_Suc_ex not_less)
    have "\<not> bit b n" using False by (auto dest: bit_imp_le_length)
    moreover have "(m + 8) div 8 = Suc (m div 8)" by simp
    ultimately show ?thesis using Cons [of m] by (auto simp: m bit_simps)
  qed
qed simp

lemma le_word_inj:
  assumes "length us = length vs" "length us \<le> 4" "le_word us = le_word vs"
  shows "us = vs"
proof (rule nth_equalityI [OF assms(1)])
  fix i assume i: "i < length us"
  have "bit (us ! i) j = bit (vs ! i) j" if j: "j < 8" for j
  proof -
    have "8 * i + j < 32" "(8 * i + j) div 8 = i" "(8 * i + j) mod 8 = j" using i j assms(2) by auto
    then show ?thesis using le_word_bits [of us "8 * i + j"] le_word_bits [of vs "8 * i + j"] i assms(1,3) by simp
  qed
  then show "us ! i = vs ! i" by (auto simp: bit_eq_iff)
qed

lemma steps_word: "length bs \<le> 4 \<Longrightarrow> foldl crc_step s bs = (crc_round ^^ (8 * length bs)) (s XOR le_word bs)"
proof (induction bs arbitrary: s)
  case (Cons b bs)
  have "(crc_round ^^ 8) (push_bit 8 (le_word bs)) = drop_bit 8 (push_bit 8 (le_word bs))"
    by (rule rounds_shift) (simp add: bit_simps)
  also have "\<dots> = le_word bs" using Cons.prems
    by (auto simp: bit_eq_iff bit_simps le_word_bits)
  finally have shift: "(crc_round ^^ 8) (push_bit 8 (le_word bs)) = le_word bs" .
  have "foldl crc_step s (b # bs) = (crc_round ^^ (8 * length bs)) ((crc_round ^^ 8) (s XOR ucast b) XOR le_word bs)"
    using Cons by (simp add: crc_step_rounds [of s])
  also have "\<dots> = (crc_round ^^ (8 * length bs)) ((crc_round ^^ 8) (s XOR le_word (b # bs)))"
    using shift rounds_xor [of 8 "s XOR ucast b" "push_bit 8 (le_word bs)"] by (simp add: xor.assoc)
  also have "\<dots> = (crc_round ^^ (8 * length bs + 8)) (s XOR le_word (b # bs))" by (simp only: funpow_add comp_apply)
  also have "8 * length bs + 8 = 8 * length (b # bs)" by simp
  finally show ?case .
qed simp

lemma xor_cancel: "x XOR z = y XOR z \<Longrightarrow> x = y" for x y z :: "32 word"
  by (metis xor.assoc xor_self_eq xor.right_neutral)

lemma crc_step_inj: "crc_step s b = crc_step t b \<Longrightarrow> s = t"
  unfolding crc_step_rounds by (rule xor_cancel) (rule rounds_inj)

lemma steps_inj: "foldl crc_step s bs = foldl crc_step t bs \<Longrightarrow> s = t"
  by (induction bs arbitrary: s t) (auto dest: crc_step_inj)

lemma crc32_burst:
  assumes "length us = length vs" "length us \<le> 4" "us \<noteq> vs"
  shows "crc32 (xs @ us @ ys) \<noteq> crc32 (xs @ vs @ ys)"
proof
  let ?s = "foldl crc_step 0xFFFFFFFF xs"
  assume "crc32 (xs @ us @ ys) = crc32 (xs @ vs @ ys)"
  then have "foldl crc_step ?s us = foldl crc_step ?s vs" by (auto simp: crc32_def dest!: xor_cancel steps_inj)
  then have "?s XOR le_word us = ?s XOR le_word vs" using assms(1,2) by (auto simp: steps_word dest: rounds_inj)
  then have "le_word us = le_word vs" using xor_cancel [of "le_word us" ?s "le_word vs"] by (simp add: xor.commute)
  then show False using le_word_inj [OF assms(1,2)] assms(3) by simp
qed

subsection \<open>Frames\<close>

lemma be_nat_snoc [simp]: "be_nat (bs @ [b]) = be_nat bs * 256 + unat b"
  by (simp add: be_nat_def)

lemma be_nat_bytes: "be_nat (be_bytes k n) = n mod 256 ^ k"
proof (induction k arbitrary: n)
  case (Suc k)
  have "unat (word_of_nat (n mod 256) :: byte) = n mod 256" by (simp add: unsigned_of_nat take_bit_eq_mod)
  moreover have "n mod (256 * 256 ^ k) = 256 * (n div 256 mod 256 ^ k) + n mod 256" by (rule mod_mult2_eq)
  ultimately show ?case using Suc [of "n div 256"] by (simp add: mult.commute)
qed (simp add: be_nat_def)

lemma length_be_bytes [simp]: "length (be_bytes k n) = k"
  by (induction k arbitrary: n) simp_all

lemma be_u32_bytes [simp]: "be_u32 (be_bytes 4 n @ rest) = word_of_nat n"
  by (simp add: be_u32_def be_nat_bytes word_of_nat_eq_iff take_bit_eq_mod)

lemma take_bytes_append [simp]: "take_bytes (xs @ ys) (length xs) = Inr (xs, ys)" "n = length xs \<Longrightarrow> take_bytes (xs @ ys) n = Inr (xs, ys)"
  by (simp_all add: take_bytes_def)

definition valid_utf8 :: "string \<Rightarrow> bool" where
  "valid_utf8 s \<longleftrightarrow> utf8_lossy (map of_char s) = map of_char s"

lemma char_byte: "char_of (unat (of_char c :: byte)) = c"
proof -
  have "unat (word_of_nat (of_char c) :: byte) = of_char c" by (simp add: unsigned_of_nat take_bit_eq_mod)
  then show ?thesis by (simp add: of_nat_of_char)
qed

lemma from_utf8_valid: "valid_utf8 s \<Longrightarrow> from_utf8_lossy (map of_char s) = s"
  by (simp add: valid_utf8_def from_utf8_lossy_def o_def char_byte)

definition header_fits :: "string \<times> string \<Rightarrow> bool" where
  "header_fits h \<longleftrightarrow> length (fst h) < 256 \<and> length (snd h) < 65536 \<and> valid_utf8 (fst h) \<and> valid_utf8 (snd h)"

lemma parse_header_encode:
  assumes "header_fits (name, v)"
  shows "parse_header (encode_header (name, v) @ rest) = Inr (name, v, rest)"
proof -
  have 1: "be_nat [word_of_nat (length name)] = length name"
    using assms by (simp add: be_nat_def header_fits_def unsigned_of_nat take_bit_eq_mod)
  have 2: "be_nat (be_bytes 2 (length v)) = length v" using assms by (simp add: be_nat_bytes header_fits_def)
  have s1: "take_bytes (encode_header (name, v) @ rest) 1 = Inr ([word_of_nat (length name)], map of_char name @ 7 # be_bytes 2 (length v) @ map of_char v @ rest)"
    by (simp add: encode_header_def take_bytes_def)
  have s2: "take_bytes (map of_char name @ 7 # be_bytes 2 (length v) @ map of_char v @ rest) (length name)
      = Inr (map of_char name, 7 # be_bytes 2 (length v) @ map of_char v @ rest)" by (intro take_bytes_append) simp
  have s3: "take_bytes (7 # be_bytes 2 (length v) @ map of_char v @ rest) 1 = Inr ([7], be_bytes 2 (length v) @ map of_char v @ rest)"
    by (simp add: take_bytes_def)
  have s4: "header_value 7 (be_bytes 2 (length v) @ map of_char v @ rest) = Inr (v, rest)"
    using assms 2 by (simp add: header_value_def from_utf8_valid header_fits_def)
  show ?thesis using assms unfolding parse_header_def s1 by (simp add: 1 s2 s3 s4 from_utf8_valid header_fits_def del: One_nat_def)
qed

lemma encode_header_not_Nil [simp]: "encode_header h \<noteq> []"
  by (cases h) (simp add: encode_header_def)

lemma parse_headers_encode:
  "list_all header_fits headers \<Longrightarrow>
     parse_headers_loop m (concat (map encode_header headers)) = Inr (m ++ map_of (rev headers))"
proof (induction headers arbitrary: m)
  case (Cons h headers)
  obtain name v where h: "h = (name, v)" by fastforce
  have "parse_headers_loop m (concat (map encode_header (h # headers))) = parse_headers_loop (m(name \<mapsto> v)) (concat (map encode_header headers))"
    using Cons.prems parse_header_encode [of name v] by (subst parse_headers_loop.simps) (simp add: h)
  then show ?case using Cons by (simp add: h map_add_def fun_eq_iff split: option.splits)
qed (simp add: parse_headers_loop.simps)

definition frame_fits :: "(string \<times> string) list \<times> byte list \<Rightarrow> bool" where
  "frame_fits f \<longleftrightarrow> list_all header_fits (fst f) \<and> length (encode_frame (fst f) (snd f)) < 2 ^ 32"

definition event_of :: "(string \<times> string) list \<times> byte list \<Rightarrow> string \<times> byte list" where
  "event_of f = (case map_of (rev (fst f)) '':event-type'' of None \<Rightarrow> [] | Some t \<Rightarrow> t, snd f)"

text \<open>The parts of an encoded frame.\<close>

lemma encode_frame_parts:
  obtains hb prelude where "hb = concat (map encode_header headers)"
    "prelude = be_bytes 4 (12 + length hb + length payload + 4) @ be_bytes 4 (length hb)"
    "encode_frame headers payload = prelude @ be_bytes 4 (unat (crc32 prelude)) @ hb @ payload @
       be_bytes 4 (unat (crc32 (prelude @ be_bytes 4 (unat (crc32 prelude)) @ hb @ payload)))"
    "length (encode_frame headers payload) = 12 + length hb + length payload + 4"
  by (rule that [OF refl refl]) (simp_all add: encode_frame_def Let_def PRELUDE_LEN_def TRAILER_LEN_def)

lemma unat_small: "n < 2 ^ 32 \<Longrightarrow> unat (word_of_nat n :: 32 word) = n"
  by (simp add: unsigned_of_nat take_bit_eq_mod)

text \<open>The decoder on a buffer whose prelude is that of a frame with \<open>h\<close> bytes of headers and \<open>p\<close> of payload.\<close>

lemma decode_prelude:
  assumes "prelude = be_bytes 4 (12 + h + p + 4) @ be_bytes 4 h" "12 + h + p + 4 < 2 ^ 32"
    and "buf = prelude @ be_bytes 4 (unat (crc32 prelude)) @ tail"
  shows "decode_frame buf =
    (if length tail < h + p + 4 then Inr None
     else if crc32 (take (12 + h + p) buf) \<noteq> be_u32 (drop (h + p) tail) then Inl (StreamAborted ''event stream crc mismatch'')
     else bind_result (parse_headers (take h tail)) (\<lambda>headers.
       Inr (Some (case headers '':event-type'' of None \<Rightarrow> [] | Some t \<Rightarrow> t, take p (drop h tail), 12 + h + p + 4))))"
proof -
  have "take 8 buf = prelude" "drop 8 buf = be_bytes 4 (unat (crc32 prelude)) @ tail" "drop 12 buf = tail"
    using assms(1,3) by simp_all
  moreover have "drop (12 + k) buf = drop k tail" for k using assms(1,3) by simp
  moreover have "unat (be_u32 buf) = 12 + h + p + 4" using assms unat_small [of "12 + h + p + 4"] by (simp del: unsigned_of_nat)
  moreover have "unat (be_u32 (drop 4 buf)) = h" using assms unat_small [of h] by (simp del: unsigned_of_nat)
  moreover have "length buf = 12 + length tail" using assms by simp
  ultimately show ?thesis unfolding decode_frame_def Let_def PRELUDE_LEN_def TRAILER_LEN_def by (simp add: add.assoc)
qed

lemma decode_complete:
  assumes "frame_fits f"
  shows "decode_frame (encode_frame (fst f) (snd f) @ rest) =
    Inr (Some (fst (event_of f), snd f, length (encode_frame (fst f) (snd f))))"
proof -
  obtain hb prelude where p: "hb = concat (map encode_header (fst f))"
    "prelude = be_bytes 4 (12 + length hb + length (snd f) + 4) @ be_bytes 4 (length hb)"
    "encode_frame (fst f) (snd f) = prelude @ be_bytes 4 (unat (crc32 prelude)) @ hb @ snd f @
       be_bytes 4 (unat (crc32 (prelude @ be_bytes 4 (unat (crc32 prelude)) @ hb @ snd f)))"
    "length (encode_frame (fst f) (snd f)) = 12 + length hb + length (snd f) + 4"
    using encode_frame_parts .
  let ?tail = "hb @ snd f @ be_bytes 4 (unat (crc32 (prelude @ be_bytes 4 (unat (crc32 prelude)) @ hb @ snd f))) @ rest"
  have "parse_headers hb = Inr (map_of (rev (fst f)))"
    using assms by (simp add: parse_headers_def p(1) parse_headers_encode frame_fits_def)
  moreover have "take (12 + length hb + length (snd f)) (encode_frame (fst f) (snd f) @ rest) =
      prelude @ be_bytes 4 (unat (crc32 prelude)) @ hb @ snd f"
    by (simp add: p(2,3))
  ultimately show ?thesis
    using decode_prelude [OF p(2), of "encode_frame (fst f) (snd f) @ rest" ?tail] assms p(3,4)
    by (simp add: frame_fits_def event_of_def)
qed

lemma decode_partial:
  assumes "frame_fits f" "strict_prefix buf (encode_frame (fst f) (snd f))"
  shows "decode_frame buf = Inr None"
proof (cases "length buf < 12")
  case False
  obtain hb prelude where p: "hb = concat (map encode_header (fst f))"
    "prelude = be_bytes 4 (12 + length hb + length (snd f) + 4) @ be_bytes 4 (length hb)"
    "encode_frame (fst f) (snd f) = prelude @ be_bytes 4 (unat (crc32 prelude)) @ hb @ snd f @
       be_bytes 4 (unat (crc32 (prelude @ be_bytes 4 (unat (crc32 prelude)) @ hb @ snd f)))"
    "length (encode_frame (fst f) (snd f)) = 12 + length hb + length (snd f) + 4"
    using encode_frame_parts .
  obtain more where more: "encode_frame (fst f) (snd f) = buf @ more" "more \<noteq> []" using assms(2) by (auto simp: strict_prefix_def prefix_def)
  have "take 12 buf = take 12 (encode_frame (fst f) (snd f))" using False more(1) by simp
  also have "\<dots> = prelude @ be_bytes 4 (unat (crc32 prelude))" by (simp add: p(2,3))
  finally have "buf = prelude @ be_bytes 4 (unat (crc32 prelude)) @ drop 12 buf" by (metis append.assoc append_take_drop_id)
  moreover have "length (drop 12 buf) < length hb + length (snd f) + 4" using p(4) more False by (cases more) simp_all
  ultimately show ?thesis using decode_prelude [OF p(2), of buf "drop 12 buf"] assms(1) p(4) by (simp add: frame_fits_def)
qed (simp add: decode_frame_def PRELUDE_LEN_def)

subsection \<open>Streams\<close>

text \<open>All complete frames at the front of the buffer, then what is left of it; a frame consumes at least
  sixteen bytes.\<close>

lemma decode_consumes: "decode_frame buf = Inr (Some (t, p, n)) \<Longrightarrow> 16 \<le> n \<and> n \<le> length buf"
  by (auto simp: decode_frame_def Let_def PRELUDE_LEN_def TRAILER_LEN_def split: if_splits)

function drain_frames :: "EventStreamDecoder \<Rightarrow> (ProviderError option \<times> (string \<times> byte list) list) \<times> EventStreamDecoder" where
  "drain_frames d =
     (case next_frame d of
        (Inl e, d') \<Rightarrow> ((Some e, []), d')
      | (Inr None, d') \<Rightarrow> ((None, []), d')
      | (Inr (Some f), d') \<Rightarrow> (let ((e, fs), d'') = drain_frames d' in ((e, f # fs), d'')))"
  by pat_completeness auto
termination
  by (relation "measure (length \<circ> esd_buf)")
     (auto simp: next_frame_def dest: decode_consumes split: sum.splits option.splits)

declare drain_frames.simps [simp del]

text \<open>The loop of the reader: push a piece, drain, and stop at the first error.\<close>

fun decode_chunks :: "byte list list \<Rightarrow> EventStreamDecoder \<Rightarrow> (ProviderError option \<times> (string \<times> byte list) list) \<times> EventStreamDecoder" where
  "decode_chunks [] d = ((None, []), d)"
| "decode_chunks (c # cs) d =
     (case drain_frames (esd_push c d) of
        ((Some e, fs), d') \<Rightarrow> ((Some e, fs), d')
      | ((None, fs), d') \<Rightarrow> (let ((e, fs'), d'') = decode_chunks cs d' in ((e, fs @ fs'), d'')))"

abbreviation frame_bytes :: "(string \<times> string) list \<times> byte list \<Rightarrow> byte list" where
  "frame_bytes f \<equiv> encode_frame (fst f) (snd f)"

definition cut_before :: "byte list \<Rightarrow> ((string \<times> string) list \<times> byte list) list \<Rightarrow> bool" where
  "cut_before part frames \<longleftrightarrow> part = [] \<or> (\<exists>f rest. frames = f # rest \<and> strict_prefix part (frame_bytes f))"

lemma drain_cut:
  assumes "list_all frame_fits (fs @ gs)" "cut_before part gs"
  shows "drain_frames \<lparr>esd_buf = concat (map frame_bytes fs) @ part\<rparr> = ((None, map event_of fs), \<lparr>esd_buf = part\<rparr>)"
  using assms(1)
proof (induction fs)
  case Nil
  have "decode_frame part = Inr None" using assms(2) Nil
    by (auto simp: cut_before_def decode_partial) (simp add: decode_frame_def PRELUDE_LEN_def)
  then show ?case by (subst drain_frames.simps) (simp add: next_frame_def)
next
  case (Cons f fs)
  have "next_frame \<lparr>esd_buf = concat (map frame_bytes (f # fs)) @ part\<rparr> = (Inr (Some (event_of f)), \<lparr>esd_buf = concat (map frame_bytes fs) @ part\<rparr>)"
    using Cons.prems decode_complete [of f "concat (map frame_bytes fs) @ part"] by (simp add: next_frame_def event_of_def)
  then show ?case using Cons by (subst drain_frames.simps) simp
qed

text \<open>Where a prefix of a stream ends.\<close>

lemma stream_prefix_cut:
  "prefix bs (concat (map frame_bytes frames)) \<Longrightarrow>
     \<exists>k part. k \<le> length frames \<and> bs = concat (map frame_bytes (take k frames)) @ part \<and> cut_before part (drop k frames)"
proof (induction frames arbitrary: bs)
  case (Cons f frames)
  show ?case
  proof (cases "prefix (frame_bytes f) bs")
    case True
    then obtain cs where cs: "bs = frame_bytes f @ cs" by (auto simp: prefix_def)
    then have "prefix cs (concat (map frame_bytes frames))" using Cons.prems by simp
    from Cons.IH [OF this] obtain k part where "k \<le> length frames" "cs = concat (map frame_bytes (take k frames)) @ part" "cut_before part (drop k frames)"
      by blast
    then show ?thesis using cs by (intro exI [of _ "Suc k"] exI [of _ part]) simp
  next
    case False
    then have "strict_prefix bs (frame_bytes f)" using Cons.prems by (auto simp: prefix_append strict_prefix_def)
    then show ?thesis by (intro exI [of _ 0] exI [of _ bs]) (simp add: cut_before_def)
  qed
qed (auto simp: cut_before_def)

lemma decode_chunks_cut:
  assumes "list_all frame_fits frames" "prefix (esd_buf d @ concat chunks) (concat (map frame_bytes frames))" "cut_before (esd_buf d) frames"
  shows "\<exists>k part. k \<le> length frames \<and> decode_chunks chunks d = ((None, map event_of (take k frames)), \<lparr>esd_buf = part\<rparr>) \<and>
    esd_buf d @ concat chunks = concat (map frame_bytes (take k frames)) @ part \<and> cut_before part (drop k frames)"
  using assms
proof (induction chunks arbitrary: d frames)
  case Nil
  then show ?case by (intro exI [of _ 0] exI [of _ "esd_buf d"]) simp
next
  case (Cons c cs)
  have "prefix (esd_buf d @ c) (concat (map frame_bytes frames))" using Cons.prems(2) by (auto simp: prefix_def)
  then obtain j part where j: "j \<le> length frames" "esd_buf d @ c = concat (map frame_bytes (take j frames)) @ part" "cut_before part (drop j frames)"
    using stream_prefix_cut by blast
  have fits: "list_all frame_fits (take j frames @ drop j frames)" using Cons.prems(1) by simp
  have split: "concat (map frame_bytes frames) = concat (map frame_bytes (take j frames)) @ concat (map frame_bytes (drop j frames))"
    by (metis append_take_drop_id concat_append map_append)
  have drain: "drain_frames (esd_push c d) = ((None, map event_of (take j frames)), \<lparr>esd_buf = part\<rparr>)"
    using drain_cut [OF fits j(3)] by (cases d) (use j(2) in \<open>simp add: esd_push_def\<close>)
  have whole: "esd_buf d @ concat (c # cs) = concat (map frame_bytes (take j frames)) @ part @ concat cs"
    unfolding append.assoc [symmetric] j(2) [symmetric] by simp
  have "prefix (part @ concat cs) (concat (map frame_bytes (drop j frames)))"
    using Cons.prems(2) unfolding split whole by simp
  then obtain k part' where k: "k \<le> length (drop j frames)" "decode_chunks cs \<lparr>esd_buf = part\<rparr> = ((None, map event_of (take k (drop j frames))), \<lparr>esd_buf = part'\<rparr>)"
    "part @ concat cs = concat (map frame_bytes (take k (drop j frames))) @ part'" "cut_before part' (drop k (drop j frames))"
    using Cons.IH [of "drop j frames" "\<lparr>esd_buf = part\<rparr>"] fits [unfolded list_all_append] j(3) by auto
  have "take (j + k) frames = take j frames @ take k (drop j frames)" by (simp add: take_add)
  then show ?case using drain j(1) k whole
    by (intro exI [of _ "j + k"] exI [of _ part']) (simp add: add.commute)
qed

subsection \<open>Properties\<close>

text \<open>However the network cuts a stream of frames into pieces, the decoder delivers exactly the frames that
  have arrived completely, in order, with their event type and payload; it never fails, and the buffer
  keeps the bytes of the frame that is still on its way.\<close>

theorem frames_survive_chunking:
  assumes "list_all frame_fits frames" "prefix (concat chunks) (concat (map frame_bytes frames))"
  shows "\<exists>k part. k \<le> length frames \<and>
    decode_chunks chunks EventStreamDecoder_new = ((None, map event_of (take k frames)), \<lparr>esd_buf = part\<rparr>) \<and>
    concat chunks = concat (map frame_bytes (take k frames)) @ part \<and>
    (if k = length frames then part = [] else strict_prefix part (frame_bytes (frames ! k)))"
proof -
  obtain k part where k: "k \<le> length frames" "decode_chunks chunks EventStreamDecoder_new = ((None, map event_of (take k frames)), \<lparr>esd_buf = part\<rparr>)"
    "concat chunks = concat (map frame_bytes (take k frames)) @ part" "cut_before part (drop k frames)"
    using decode_chunks_cut [OF assms(1), of EventStreamDecoder_new chunks] assms(2)
    by (auto simp: EventStreamDecoder_new_def cut_before_def)
  have "frame_bytes (frames ! k) \<noteq> []" by (metis add_is_0 encode_frame_parts list.size(3) zero_neq_numeral)
  then have "if k = length frames then part = [] else strict_prefix part (frame_bytes (frames ! k))"
    using k(1,4) by (cases "k = length frames") (auto simp: cut_before_def strict_prefix_def Cons_nth_drop_Suc [symmetric])
  with k show ?thesis by blast
qed

text \<open>C15. The checksums catch damage: a frame in which up to four consecutive bytes were changed, within the
  two length fields or within headers and payload, is never decoded; the decoder reports an error.\<close>

theorem damaged_frame_rejected:
  assumes "frame_fits f" "frame_bytes f = xs @ us @ ys" "length vs = length us" "length us \<le> 4" "vs \<noteq> us"
    and "length xs + length us \<le> 8 \<or> 12 \<le> length xs \<and> 4 \<le> length ys"
  shows "\<exists>msg. decode_frame (xs @ vs @ ys @ rest) = Inl (StreamAborted msg)"
proof -
  obtain hb prelude where p: "hb = concat (map encode_header (fst f))"
    "prelude = be_bytes 4 (12 + length hb + length (snd f) + 4) @ be_bytes 4 (length hb)"
    "frame_bytes f = prelude @ be_bytes 4 (unat (crc32 prelude)) @ hb @ snd f @
       be_bytes 4 (unat (crc32 (prelude @ be_bytes 4 (unat (crc32 prelude)) @ hb @ snd f)))"
    "length (frame_bytes f) = 12 + length hb + length (snd f) + 4"
    using encode_frame_parts .
  let ?buf = "xs @ vs @ ys @ rest" let ?n = "12 + length hb + length (snd f)"
  have len: "length xs + length us + length ys = ?n + 4" using p(4) assms(2) by simp
  consider "length xs + length us \<le> 8" | "12 \<le> length xs" "4 \<le> length ys" using assms(6) by blast
  then show ?thesis
  proof cases
    case 1
    let ?m = "8 - length xs - length us"
    have "prelude = take 8 (frame_bytes f)" using p(2,3) by simp
    also have "\<dots> = xs @ us @ take ?m ys" using 1 by (simp add: assms(2))
    finally have "crc32 (take 8 ?buf) \<noteq> crc32 prelude"
      using crc32_burst [of vs us xs "take ?m ys"] 1 assms(3,4,5) len by simp
    moreover have "drop 8 (frame_bytes f) = be_bytes 4 (unat (crc32 prelude)) @ hb @ snd f @
       be_bytes 4 (unat (crc32 (prelude @ be_bytes 4 (unat (crc32 prelude)) @ hb @ snd f)))" using p(2,3) by simp
    then have "be_u32 (drop ?m ys @ rest) = crc32 prelude" using 1 by (simp add: assms(2))
    ultimately show ?thesis using 1 len assms(3) by (simp add: decode_frame_def Let_def PRELUDE_LEN_def TRAILER_LEN_def)
  next
    case 2
    have "take 12 xs = take 12 (frame_bytes f)" using 2 by (simp add: assms(2))
    also have "\<dots> = prelude @ be_bytes 4 (unat (crc32 prelude))" by (simp add: p(2,3))
    finally have xs: "xs = prelude @ be_bytes 4 (unat (crc32 prelude)) @ drop 12 xs" by (metis append.assoc append_take_drop_id)
    have n: "?n = length xs + length us + (length ys - 4)" and m: "length hb + length (snd f) = length xs - 12 + length vs + (length ys - 4)"
      using 2 len assms(3) by simp_all
    let ?body = "xs @ us @ take (length ys - 4) ys"
    have body: "?body = prelude @ be_bytes 4 (unat (crc32 prelude)) @ hb @ snd f" and trailer: "drop (length ys - 4) ys = be_bytes 4 (unat (crc32 ?body))"
    proof -
      have "take ?n (frame_bytes f) = ?body" unfolding n assms(2) by simp
      then show b: "?body = prelude @ be_bytes 4 (unat (crc32 prelude)) @ hb @ snd f" using p(2,3) by simp
      have "drop ?n (frame_bytes f) = drop (length ys - 4) ys" unfolding n assms(2) by simp
      then show "drop (length ys - 4) ys = be_bytes 4 (unat (crc32 ?body))" unfolding b using p(2,3) by simp
    qed
    let ?tail = "drop 12 xs @ vs @ ys @ rest"
    have "take ?n ?buf = xs @ vs @ take (length ys - 4) ys" unfolding n using assms(3) by simp
    then have "crc32 (take ?n ?buf) \<noteq> crc32 ?body" using crc32_burst [of vs us xs "take (length ys - 4) ys"] assms(3,4,5) by simp
    moreover have "drop (length hb + length (snd f)) ?tail = drop (length ys - 4) ys @ rest" unfolding m using 2 by simp
    then have "be_u32 (drop (length hb + length (snd f)) ?tail) = crc32 ?body" by (simp add: trailer)
    ultimately have bad: "crc32 (take ?n ?buf) \<noteq> be_u32 (drop (length hb + length (snd f)) ?tail)" by simp
    have buf: "?buf = prelude @ be_bytes 4 (unat (crc32 prelude)) @ ?tail" using xs by (metis append.assoc)
    have long: "\<not> length ?tail < length hb + length (snd f) + 4" using 2 len assms(3) by simp
    have fits: "?n + 4 < 2 ^ 32" using assms(1) p(4) by (simp add: frame_fits_def)
    show ?thesis unfolding decode_prelude [OF p(2) fits buf] if_not_P [OF long] if_P [OF bad] by blast
  qed
qed

definition demo_frame :: "(string \<times> string) list \<times> byte list" where
  "demo_frame = ([('':event-type'', ''x'')], [1, 2])"

lemma demo_frame_fits: "frame_fits demo_frame"
proof -
  have "header_fits ('':event-type'', ''x'')" by code_simp
  moreover have "length (encode_header ('':event-type'', ''x'')) < 20" by code_simp
  moreover obtain hb prelude where "hb = concat (map encode_header (fst demo_frame))"
    "length (frame_bytes demo_frame) = 12 + length hb + length (snd demo_frame) + 4" using encode_frame_parts .
  ultimately show ?thesis by (simp add: frame_fits_def demo_frame_def)
qed

theorem frames_survive_chunking_witness:
  "decode_chunks (map (\<lambda>b. [b]) (frame_bytes demo_frame @ frame_bytes demo_frame)) EventStreamDecoder_new =
     ((None, [(''x'', [1, 2]), (''x'', [1, 2])]), \<lparr>esd_buf = []\<rparr>)"
proof -
  let ?frames = "[demo_frame, demo_frame]" let ?chunks = "map (\<lambda>b. [b]) (frame_bytes demo_frame @ frame_bytes demo_frame)"
  have fits: "list_all frame_fits ?frames" by (simp add: demo_frame_fits)
  have whole: "concat ?chunks = concat (map frame_bytes ?frames)" by simp
  obtain k part where k: "k \<le> length ?frames" "decode_chunks ?chunks EventStreamDecoder_new = ((None, map event_of (take k ?frames)), \<lparr>esd_buf = part\<rparr>)"
    "concat ?chunks = concat (map frame_bytes (take k ?frames)) @ part"
    "if k = length ?frames then part = [] else strict_prefix part (frame_bytes (?frames ! k))"
    using frames_survive_chunking [OF fits, of ?chunks] whole by auto
  have "k = 2"
  proof (rule ccontr)
    assume "k \<noteq> 2"
    then have "k = 0 \<or> k = 1" using k(1) by auto
    then show False using k(3,4) whole by (auto dest!: prefix_length_less)
  qed
  then show ?thesis using k(2,4) by (simp add: event_of_def demo_frame_def)
qed

theorem damaged_frame_rejected_witness:
  "\<exists>msg. decode_frame ((hd (frame_bytes demo_frame) + 1) # drop 1 (frame_bytes demo_frame)) = Inl (StreamAborted msg)"
proof -
  have "frame_bytes demo_frame \<noteq> []" by (metis add_is_0 encode_frame_parts list.size(3) zero_neq_numeral)
  then have "frame_bytes demo_frame = [] @ [hd (frame_bytes demo_frame)] @ drop 1 (frame_bytes demo_frame)"
    by (cases "frame_bytes demo_frame") auto
  from damaged_frame_rejected [OF demo_frame_fits this, of "[hd (frame_bytes demo_frame) + 1]" "[]"] show ?thesis by simp
qed

end
