(* ===== verification/Provider_Streams.thy ===== *)
theory Provider_Streams
  imports Provider_Wire Event_Stream
begin

text \<open>
  The two providers that frame their replies themselves: Bedrock (\<^verbatim>\<open>legion-provider/src/bedrock.rs\<close>), a binary
  event stream, and Ollama (\<^verbatim>\<open>ollama.rs\<close>), one JSON object per line. A reply is the list of pieces the
  network delivers, each some bytes or an error.
\<close>

subsection \<open>Bedrock\<close>

definition converse_text :: "string \<Rightarrow> json" where
  "converse_text s = json_object [(''text'', JString s)]"

definition tool_result_converse :: "ChatMessage \<Rightarrow> json" where
  "tool_result_converse m = json_object [(''toolResult'', json_object [(''toolUseId'', JString (unwrap_or (cm_tool_call_id m) [])),
     (''content'', JArray [converse_text (cm_content m)])])]"

definition converse_assistant :: "(string \<Rightarrow> json option) \<Rightarrow> ChatMessage \<Rightarrow> json" where
  "converse_assistant from_str m = json_object [(''role'', JString ''assistant''),
     (''content'', JArray ((if cm_content m \<noteq> [] then [converse_text (cm_content m)] else []) @
        map (\<lambda>c. json_object [(''toolUse'', json_object [(''toolUseId'', JString (ptc_id c)), (''name'', JString (fc_name (ptc_function c))),
          (''input'', parse_tool_arguments from_str (fc_arguments (ptc_function c)))])]) (unwrap_or (cm_tool_calls m) [])))]"

text \<open>The loop over the messages; a run of tool results starts at the message itself, so it is not empty.\<close>

function converse_messages :: "(string \<Rightarrow> json option) \<Rightarrow> ChatMessage list \<Rightarrow> json list" where
  "converse_messages from_str [] = []"
| "converse_messages from_str (m # rest) =
     (case cm_role m of
        System \<Rightarrow> converse_messages from_str rest
      | User \<Rightarrow> json_object [(''role'', JString ''user''), (''content'', JArray [converse_text (cm_content m)])] # converse_messages from_str rest
      | Assistant \<Rightarrow> converse_assistant from_str m # converse_messages from_str rest
      | Tool \<Rightarrow>
          (let last = tool_run_end (m # rest) 0
           in json_object [(''role'', JString ''user''), (''content'', JArray (map tool_result_converse (take last (m # rest))))] #
              converse_messages from_str (drop (last - 1) rest)))"
  by pat_completeness auto
termination by (relation "measure (length \<circ> snd)") auto

definition inference_config :: "(32 word \<Rightarrow> json) \<Rightarrow> ChatRequest \<Rightarrow> json" where
  "inference_config f32 req =
     opt_set ''stopSequences'' json_strings (cq_stop req) (opt_set ''topP'' f32 (cq_top_p req)
       (opt_set ''maxTokens'' json_word (cq_max_tokens req) (opt_set ''temperature'' f32 (cq_temperature req) (JObject []))))"

definition converse_tools :: "ToolDefinition list \<Rightarrow> json" where
  "converse_tools ts = json_object [(''tools'', JArray (map (\<lambda>t. json_object [(''toolSpec'', json_object [(''name'', JString (td_name t)),
     (''description'', JString (td_description t)), (''inputSchema'', json_object [(''json'', td_parameters t)])])]) ts))]"

definition to_converse_request :: "(string \<Rightarrow> json option) \<Rightarrow> (32 word \<Rightarrow> json) \<Rightarrow> ChatRequest \<Rightarrow> json" where
  "to_converse_request from_str f32 req =
     (let system_text = merged_system_text (cq_messages req); inference = inference_config f32 req;
          body = json_object [(''messages'', JArray (converse_messages from_str (cq_messages req)))];
          body = (if system_text \<noteq> [] then json_set body ''system'' (JArray [converse_text system_text]) else body);
          body = (if inference \<noteq> JObject [] then json_set body ''inferenceConfig'' inference else body)
      in apply_extra_to req (opt_set ''toolConfig'' converse_tools (cq_tools req) body))"

definition content_block_index :: "json \<Rightarrow> nat" where
  "content_block_index payload = unwrap_or (json_as_u64 (json_index payload ''contentBlockIndex'')) 0"

definition json_str :: "json \<Rightarrow> string" where
  "json_str v = unwrap_or (json_as_str v) []"

definition converse_stop_reason :: "string \<Rightarrow> FinishReason option" where
  "converse_stop_reason r =
     (if r = ''end_turn'' then Some Stop else if r = ''max_tokens'' then Some Length else if r = ''tool_use'' then Some ToolCalls
      else if r = ''content_filtered'' \<or> r = ''guardrail_intervened'' then Some ContentFilter else None)"

definition converse_event_to_chunk ::
  "string \<Rightarrow> json \<Rightarrow> ToolCallAccumulator \<Rightarrow> (ProviderError, ChatChunk) result option \<times> ToolCallAccumulator" where
  "converse_event_to_chunk event_type payload state =
     (let index = content_block_index payload
      in if event_type = ''contentBlockStart'' then
           (None,
            case Option.bind (json_get payload ''start'') (\<lambda>s. json_get s ''toolUse'') of
              Some tool_use \<Rightarrow> acc_start index \<lparr>pt_id = json_str (json_index tool_use ''toolUseId''), pt_kind = ''function'',
                pt_name = json_str (json_index tool_use ''name''), pt_arguments = []\<rparr> state
            | None \<Rightarrow> state)
         else if event_type = ''contentBlockDelta'' then
           (case json_as_str (json_index (json_index payload ''delta'') ''text'') of
              Some t \<Rightarrow> (Some (Inr (default_ChatChunk\<lparr>cc_index := index, cc_delta := t\<rparr>)), state)
            | None \<Rightarrow>
                (None,
                 case json_as_str (json_index (json_index (json_index payload ''delta'') ''toolUse'') ''input'') of
                   Some input \<Rightarrow> acc_append_arguments index input state
                 | None \<Rightarrow> state))
         else if event_type = ''contentBlockStop'' then
           (let (tool, state') = acc_finish index state
            in (map_option (\<lambda>t. Inr (default_ChatChunk\<lparr>cc_index := index, cc_tool_calls := Some [t]\<rparr>)) tool, state'))
         else if event_type = ''messageStop'' then
           (map_option (\<lambda>reason. Inr (default_ChatChunk\<lparr>cc_finish_reason := Some reason\<rparr>))
              (converse_stop_reason (json_str (json_index payload ''stopReason''))), state)
         else if suffix ''Exception'' event_type \<or> suffix ''Error'' event_type then
           (Some (Inl (StreamAborted (''bedrock stream error ('' @ event_type @ ''): '' @
              unwrap_or (json_as_str (json_index payload ''message'')) event_type))), state)
         else (None, state))"

text \<open>The reader: frames from the buffer while there are any, then the next piece.\<close>

function bedrock_stream ::
  "(byte list \<Rightarrow> (string, json) result) \<Rightarrow> (string, byte list) result list \<Rightarrow> EventStreamDecoder \<Rightarrow> ToolCallAccumulator \<Rightarrow> chat_stream" where
  "bedrock_stream from_slice bytes decoder state =
     (case next_frame decoder of
        (Inl err, _) \<Rightarrow> [Inl err]
      | (Inr (Some (event_type, payload)), decoder') \<Rightarrow>
          (case from_slice payload of
             Inl err \<Rightarrow> [Inl (JsonParse err)]
           | Inr js \<Rightarrow>
               (case converse_event_to_chunk event_type js state of
                  (Some (Inr chunk), state') \<Rightarrow>
                    Inr chunk # (if cc_finish_reason chunk \<noteq> None then [] else bedrock_stream from_slice bytes decoder' state')
                | (Some (Inl err), _) \<Rightarrow> [Inl err]
                | (None, state') \<Rightarrow> bedrock_stream from_slice bytes decoder' state'))
      | (Inr None, decoder') \<Rightarrow>
          (case bytes of
             [] \<Rightarrow> []
           | Inl err # _ \<Rightarrow> [Inl (Http err)]
           | Inr piece # bytes' \<Rightarrow> bedrock_stream from_slice bytes' (esd_push piece decoder') state))"
  by pat_completeness auto
termination
  by (relation "measures [\<lambda>(_, bytes, _, _). length bytes, \<lambda>(_, _, decoder, _). length (esd_buf decoder)]")
     (auto simp: next_frame_def dest: decode_consumes split: sum.splits option.splits)

declare bedrock_stream.simps [simp del]

definition bedrock_chat_stream :: "(byte list \<Rightarrow> (string, json) result) \<Rightarrow> (string, byte list) result list \<Rightarrow> chat_stream" where
  "bedrock_chat_stream from_slice bytes = bedrock_stream from_slice bytes EventStreamDecoder_new []"

subsection \<open>Ollama\<close>

definition ollama_message :: "ChatMessage \<Rightarrow> json" where
  "ollama_message m = opt_set ''tool_calls'' tool_calls_json (cm_tool_calls m)
     (json_object [(''role'', JString (provider_role_str (cm_role m))), (''content'', JString (cm_content m))])"

definition ollama_body :: "(32 word \<Rightarrow> json) \<Rightarrow> ChatRequest \<Rightarrow> json" where
  "ollama_body f32 req =
     (let options = opt_set ''stop'' json_strings (cq_stop req) (opt_set ''num_predict'' json_word (cq_max_tokens req)
        (opt_set ''top_p'' f32 (cq_top_p req) (opt_set ''temperature'' f32 (cq_temperature req) (JObject []))))
      in apply_extra_to req (opt_set ''tools'' (\<lambda>ts. JArray (map openai_tool ts)) (cq_tools req)
           (json_object [(''model'', JString (cq_model req)), (''messages'', JArray (map ollama_message (cq_messages req))),
              (''stream'', JBool True), (''options'', options)])))"

record OllamaChatLine =
  ol_content :: string
  ol_tool_calls :: "(string \<times> json) list option"
  ol_done :: bool
  ol_done_reason :: "string option"

definition take_ndjson_line :: "string \<Rightarrow> (string \<times> string) option" where
  "take_ndjson_line buf =
     (if LF \<in> set buf then Some (takeWhile (\<lambda>c. c \<noteq> LF) buf, tl (dropWhile (\<lambda>c. c \<noteq> LF) buf)) else None)"

definition ollama_call :: "(json \<Rightarrow> string) \<Rightarrow> nat \<Rightarrow> string \<times> json \<Rightarrow> ProviderToolCall" where
  "ollama_call to_str i call =
     \<lparr>ptc_id = ''call_'' @ show_nat i, ptc_kind = ''function'',
      ptc_function = \<lparr>fc_name = fst call, fc_arguments = (case snd call of JString s \<Rightarrow> s | other \<Rightarrow> to_str other)\<rparr>\<rparr>"

definition ollama_done_reason :: "string \<Rightarrow> FinishReason option" where
  "ollama_done_reason r = (if r = ''stop'' then Some Stop else if r = ''length'' then Some Length else None)"

definition parse_ollama_line_full ::
  "(string \<Rightarrow> (string, OllamaChatLine) result) \<Rightarrow> (json \<Rightarrow> string) \<Rightarrow> string \<Rightarrow> (ProviderError, ChatChunk \<times> bool) result option" where
  "parse_ollama_line_full from_str to_str line =
     (if trim_str line = [] then None
      else Some (case from_str (trim_str line) of
        Inl err \<Rightarrow> Inl (JsonParse err)
      | Inr parsed \<Rightarrow>
          (let calls = map (\<lambda>(i, c). ollama_call to_str i c) (enumerate 0 (unwrap_or (ol_tool_calls parsed) []))
           in Inr (\<lparr>cc_index = 0, cc_delta = ol_content parsed, cc_finish_reason = Option.bind (ol_done_reason parsed) ollama_done_reason,
                    cc_tool_calls = (if calls = [] then None else Some calls)\<rparr>, ol_done parsed))))"

lemma take_line_shorter: "take_ndjson_line buf = Some (line, buf') \<Longrightarrow> length buf' < length buf"
proof -
  have "length (tl (dropWhile (\<lambda>c. c \<noteq> LF) buf)) \<le> length buf - 1" using length_dropWhile_le [of "\<lambda>c. c \<noteq> LF" buf] by simp
  then show "take_ndjson_line buf = Some (line, buf') \<Longrightarrow> ?thesis" by (cases buf) (auto simp: take_ndjson_line_def split: if_splits)
qed

function ollama_stream ::
  "(string \<Rightarrow> (ProviderError, ChatChunk \<times> bool) result option) \<Rightarrow> (string, byte list) result list \<Rightarrow> string \<Rightarrow> bool \<Rightarrow> chat_stream" where
  "ollama_stream parse bytes buf done_seen =
     (if done_seen then []
      else case take_ndjson_line buf of
        Some (line, buf') \<Rightarrow>
          (case parse line of
             Some (Inr (chunk, done')) \<Rightarrow> Inr chunk # ollama_stream parse bytes buf' done'
           | Some (Inl err) \<Rightarrow> Inl err # ollama_stream parse bytes buf' done_seen
           | None \<Rightarrow> ollama_stream parse bytes buf' done_seen)
      | None \<Rightarrow>
          (case bytes of
             Inr piece # bytes' \<Rightarrow> ollama_stream parse bytes' (buf @ from_utf8_lossy piece) done_seen
           | Inl err # bytes' \<Rightarrow> Inl (Http err) # ollama_stream parse bytes' buf done_seen
           | [] \<Rightarrow>
               if trim_str buf = [] then []
               else (case parse buf of Some (Inr (chunk, _)) \<Rightarrow> [Inr chunk] | Some (Inl err) \<Rightarrow> [Inl err] | None \<Rightarrow> [])))"
  by pat_completeness auto
termination
  by (relation "measures [\<lambda>(_, bytes, _, _). length bytes, \<lambda>(_, _, buf, _). length buf]") (auto dest: take_line_shorter)

declare ollama_stream.simps [simp del]

definition ollama_chat_stream ::
  "(string \<Rightarrow> (string, OllamaChatLine) result) \<Rightarrow> (json \<Rightarrow> string) \<Rightarrow> (string, byte list) result list \<Rightarrow> chat_stream" where
  "ollama_chat_stream from_str to_str bytes = ollama_stream (parse_ollama_line_full from_str to_str) bytes [] False"

subsection \<open>Properties\<close>

text \<open>What a list of decoded frames means, without the network.\<close>

fun converse_run :: "(byte list \<Rightarrow> (string, json) result) \<Rightarrow> (string \<times> byte list) list \<Rightarrow> ToolCallAccumulator \<Rightarrow> chat_stream" where
  "converse_run from_slice [] state = []"
| "converse_run from_slice ((event_type, payload) # frames) state =
     (case from_slice payload of
        Inl err \<Rightarrow> [Inl (JsonParse err)]
      | Inr js \<Rightarrow>
          (case converse_event_to_chunk event_type js state of
             (Some (Inr chunk), state') \<Rightarrow> Inr chunk # (if cc_finish_reason chunk \<noteq> None then [] else converse_run from_slice frames state')
           | (Some (Inl err), _) \<Rightarrow> [Inl err]
           | (None, state') \<Rightarrow> converse_run from_slice frames state'))"

lemma next_frame_complete:
  "frame_fits f \<Longrightarrow> next_frame \<lparr>esd_buf = frame_bytes f @ rest\<rparr> = (Inr (Some (event_of f)), \<lparr>esd_buf = rest\<rparr>)"
  using decode_complete [of f rest] by (simp add: next_frame_def event_of_def)

lemma next_frame_partial:
  "frame_fits f \<Longrightarrow> strict_prefix buf (frame_bytes f) \<Longrightarrow> next_frame \<lparr>esd_buf = buf\<rparr> = (Inr None, \<lparr>esd_buf = buf\<rparr>)"
  using decode_partial [of f buf] by (simp add: next_frame_def)

lemma bedrock_run:
  "list_all frame_fits frames \<Longrightarrow> buf @ concat pieces = concat (map frame_bytes frames) \<Longrightarrow>
     bedrock_stream from_slice (map Inr pieces) \<lparr>esd_buf = buf\<rparr> state = converse_run from_slice (map event_of frames) state"
proof (induction "length pieces + length frames" arbitrary: pieces frames buf state rule: less_induct)
  case less
  show ?case
  proof (cases frames)
    case Nil
    then have "buf = []" "concat pieces = []" using less.prems(2) by simp_all
    then have none: "next_frame \<lparr>esd_buf = buf\<rparr> = (Inr None, \<lparr>esd_buf = buf\<rparr>)" by (simp add: next_frame_def decode_frame_def PRELUDE_LEN_def)
    show ?thesis
    proof (cases pieces)
      case (Cons c cs)
      then show ?thesis using less.hyps [of cs frames "buf @ c" state] less.prems none
        by (subst bedrock_stream.simps) (simp add: esd_push_def)
    qed (use none Nil in \<open>subst bedrock_stream.simps, simp\<close>)
  next
    case (Cons f fs)
    show ?thesis
    proof (cases "prefix (frame_bytes f) buf")
      case True
      then obtain rest where rest: "buf = frame_bytes f @ rest" by (auto simp: prefix_def)
      have IH: "bedrock_stream from_slice (map Inr pieces) \<lparr>esd_buf = rest\<rparr> st = converse_run from_slice (map event_of fs) st" for st
        using less.hyps [of pieces fs rest st] less.prems by (simp add: Cons rest)
      have "next_frame \<lparr>esd_buf = buf\<rparr> = (Inr (Some (event_of f)), \<lparr>esd_buf = rest\<rparr>)"
        using next_frame_complete [of f rest] less.prems(1) by (simp add: Cons rest)
      then show ?thesis
        by (subst bedrock_stream.simps) (cases "event_of f", simp add: Cons IH split: sum.split prod.split option.split)
    next
      case False
      then have part: "strict_prefix buf (frame_bytes f)"
        using less.prems(2) by (auto simp: Cons append_eq_append_conv2 strict_prefix_def prefix_def intro: sym)
      then obtain c cs where c: "pieces = c # cs"
        using less.prems(2) by (cases pieces) (auto simp: Cons strict_prefix_def prefix_def)
      have "next_frame \<lparr>esd_buf = buf\<rparr> = (Inr None, \<lparr>esd_buf = buf\<rparr>)" using next_frame_partial [OF _ part] less.prems(1) by (simp add: Cons)
      then show ?thesis using less.hyps [of cs frames "buf @ c" state] less.prems
        by (subst bedrock_stream.simps) (simp add: c esd_push_def)
    qed
  qed
qed

lemma demo_frame_chunks:
  "concat [take 5 (frame_bytes demo_frame), drop 5 (frame_bytes demo_frame)] = concat (map frame_bytes [demo_frame])"
  by simp

text \<open>C14. A Bedrock reply does not depend on how the network cut it. Whatever pieces the bytes of a
  sequence of well-formed frames arrive in, the stream of chunks is the one obtained by interpreting the
  frames one after the other: each event is decoded once, in order, and the stream stops at the first
  finish reason or error.\<close>

theorem bedrock_stream_ignores_chunking:
  assumes "list_all frame_fits frames" and "concat pieces = concat (map frame_bytes frames)"
  shows "bedrock_chat_stream from_slice (map Inr pieces) = converse_run from_slice (map event_of frames) []"
  using bedrock_run [of frames "[]" pieces from_slice "[]"] assms
  by (simp add: bedrock_chat_stream_def EventStreamDecoder_new_def)

theorem bedrock_stream_ignores_chunking_witness:
  "list_all frame_fits [demo_frame] \<and>
   bedrock_chat_stream (\<lambda>_. Inl ''expected value'') (map Inr [take 5 (frame_bytes demo_frame), drop 5 (frame_bytes demo_frame)]) =
     converse_run (\<lambda>_. Inl ''expected value'') (map event_of [demo_frame]) []"
  using bedrock_stream_ignores_chunking [OF _ demo_frame_chunks, of "\<lambda>_. Inl ''expected value''"] demo_frame_fits by simp

definition echo_line :: "string \<Rightarrow> (string, OllamaChatLine) result" where
  "echo_line s = Inr \<lparr>ol_content = s, ol_tool_calls = None, ol_done = False, ol_done_reason = None\<rparr>"

text \<open>The Ollama stream decodes each network piece on its own, so a character whose bytes are
  split over two pieces is replaced by U+FFFD twice: the same reply gives two different texts, depending
  only on where the network cut it.\<close>

theorem ollama_split_character_corrupted:
  "map (map_sum id cc_delta) (ollama_chat_stream echo_line (\<lambda>_. []) [Inr [0xC3, 0xA9, 0x0A]]) = [Inr (map char_of [0xC3, 0xA9 :: nat])] \<and>
   map (map_sum id cc_delta) (ollama_chat_stream echo_line (\<lambda>_. []) [Inr [0xC3], Inr [0xA9, 0x0A]]) =
     [Inr (map char_of [0xEF, 0xBF, 0xBD, 0xEF, 0xBF, 0xBD :: nat])]"
  by code_simp

end
