(* ===== verification/Sigv4.thy ===== *)
theory Sigv4
  imports Chat_Types "HOL-Library.Multiset" "HOL-Library.List_Lexorder" "HOL-Library.Char_ord"
begin

text \<open>
  Request signing (\<^verbatim>\<open>legion-provider/src/sigv4.rs\<close>): the canonical request, the key derivation and the calendar
  the timestamps are made with. The two hash functions are parameters; bytes are the characters of a string.
\<close>

subsection \<open>Definitions\<close>

record AwsCreds =
  ac_access_key :: string
  ac_secret_key :: string
  ac_session_token :: "string option"
  ac_region :: string

text \<open>\<open>split_once\<close> at a character.\<close>

definition split_once_at :: "char \<Rightarrow> string \<Rightarrow> (string \<times> string) option" where
  "split_once_at c s = (if c \<in> set s then Some (takeWhile (\<lambda>d. d \<noteq> c) s, tl (dropWhile (\<lambda>d. d \<noteq> c) s)) else None)"

definition canonical_query :: "string \<Rightarrow> string" where
  "canonical_query raw = (if raw = [] then [] else join_with ''&'' (sort (split_on CHR ''&'' raw)))"

definition split_url :: "string \<Rightarrow> (ProviderError, string \<times> string \<times> string) result" where
  "split_url url =
     (let rest = (if prefix ''https://'' url then drop 8 url else if prefix ''http://'' url then drop 7 url else url)
      in if rest = [] then Inl (InvalidAuth ''cannot sign request with empty URL'')
         else
           (let (host, path_and_query) = (case split_once_at CHR ''/'' rest of Some p \<Rightarrow> p | None \<Rightarrow> (rest, []));
                (path, query) = (case split_once_at CHR ''?'' path_and_query of Some p \<Rightarrow> p | None \<Rightarrow> (path_and_query, []))
            in Inr (host, CHR ''/'' # path, canonical_query query)))"

definition build_canonical_request :: "string \<Rightarrow> string \<Rightarrow> string \<Rightarrow> (string \<times> string) list \<Rightarrow> string \<Rightarrow> string \<times> string" where
  "build_canonical_request method_name path query headers payload_hash =
     (let canonical_headers = concat (map (\<lambda>(k, v). k @ '':'' @ v @ [LF]) headers);
          signed_headers = join_with '';'' (map fst headers)
      in (method_name @ [LF] @ path @ [LF] @ query @ [LF] @ canonical_headers @ [LF] @ signed_headers @ [LF] @ payload_hash, signed_headers))"

type_synonym mac = "string \<Rightarrow> string \<Rightarrow> (string, string) result"

definition hmac_sha256 :: "mac \<Rightarrow> string \<Rightarrow> string \<Rightarrow> (ProviderError, string) result" where
  "hmac_sha256 hmac key msg =
     (case hmac key msg of Inl e \<Rightarrow> Inl (InvalidAuth (''hmac key rejected: '' @ e)) | Inr m \<Rightarrow> Inr m)"

definition derive_signing_key :: "mac \<Rightarrow> string \<Rightarrow> string \<Rightarrow> string \<Rightarrow> string \<Rightarrow> (ProviderError, string) result" where
  "derive_signing_key hmac secret date region service =
     bind_result (hmac_sha256 hmac (''AWS4'' @ secret) date) (\<lambda>k_date.
     bind_result (hmac_sha256 hmac k_date region) (\<lambda>k_region.
     bind_result (hmac_sha256 hmac k_region service) (\<lambda>k_service.
     hmac_sha256 hmac k_service ''aws4_request'')))"

definition hex_char :: "nat \<Rightarrow> char" where
  "hex_char n = (if n < 10 then char_of (n + 48) else char_of (n + 87))"

definition hex_encode :: "string \<Rightarrow> string" where
  "hex_encode bytes = concat (map (\<lambda>c. [hex_char (of_char c div 16), hex_char (of_char c mod 16)]) bytes)"

text \<open>Division of signed integers rounds towards zero.\<close>

definition trunc_div :: "int \<Rightarrow> int \<Rightarrow> int" where
  "trunc_div a b = (if a < 0 then - ((- a) div b) else a div b)"

text \<open>The source computes in \<^verbatim>\<open>i64\<close>; a day number is at most \<open>2 ^ 64 div 86400\<close>, so nothing overflows there.\<close>

definition civil_from_days :: "int \<Rightarrow> int \<times> int \<times> int" where
  "civil_from_days days =
     (let z = days + 719468;
          era = trunc_div (if 0 \<le> z then z else z - 146096) 146097;
          doe = z - era * 146097;
          yoe = (doe - doe div 1460 + doe div 36524 - doe div 146096) div 365;
          year = yoe + era * 400;
          doy = doe - (365 * yoe + yoe div 4 - yoe div 100);
          mp = (5 * doy + 2) div 153;
          day = doy - (153 * mp + 2) div 5 + 1;
          month = (if mp < 10 then mp + 3 else mp - 9)
      in (if month \<le> 2 then year + 1 else year, month, day))"

text \<open>\<open>{n:02}\<close> and \<open>{y:04}\<close>.\<close>

definition pad_nat :: "nat \<Rightarrow> nat \<Rightarrow> string" where
  "pad_nat k n = replicate (k - length (show_nat n)) CHR ''0'' @ show_nat n"

definition pad_int :: "nat \<Rightarrow> int \<Rightarrow> string" where
  "pad_int k n = (if n < 0 then CHR ''-'' # pad_nat (k - 1) (nat (- n)) else pad_nat k (nat n))"

definition format_dates :: "nat \<Rightarrow> string \<times> string" where
  "format_dates secs =
     (let rem = secs mod 86400; (year, month, day) = civil_from_days (int (secs div 86400));
          date = pad_int 4 year @ pad_int 2 month @ pad_int 2 day
      in (date @ ''T'' @ pad_nat 2 (rem div 3600) @ pad_nat 2 (rem mod 3600 div 60) @ pad_nat 2 (rem mod 60) @ ''Z'', date))"

definition signing_headers :: "string \<Rightarrow> string \<Rightarrow> AwsCreds \<Rightarrow> (string \<times> string) list \<Rightarrow> (string \<times> string) list" where
  "signing_headers host amz_date creds headers =
     sort_key fst (map (\<lambda>(k, v). (to_lowercase k, trim_str v)) headers @ [(''host'', host), (''x-amz-date'', amz_date)] @
       (case ac_session_token creds of None \<Rightarrow> [] | Some token \<Rightarrow> [(''x-amz-security-token'', token)]))"

text \<open>\<open>now\<close> is the time in seconds, 0 before the epoch.\<close>

definition sign_request ::
  "(string \<Rightarrow> string) \<Rightarrow> mac \<Rightarrow> string \<Rightarrow> string \<Rightarrow> (string \<times> string) list \<Rightarrow> string \<Rightarrow> AwsCreds \<Rightarrow> string \<Rightarrow> nat \<Rightarrow>
     (ProviderError, (string \<times> string) list) result" where
  "sign_request sha256 hmac method_name url headers payload creds service now =
     bind_result (split_url url) (\<lambda>(host, path, query).
       let (amz_date, date) = format_dates now;
           payload_hash = hex_encode (sha256 payload);
           (canonical_request, signed_headers) =
             build_canonical_request method_name path query (signing_headers host amz_date creds headers) payload_hash;
           scope = date @ ''/'' @ ac_region creds @ ''/'' @ service @ ''/aws4_request'';
           string_to_sign = ''AWS4-HMAC-SHA256'' @ [LF] @ amz_date @ [LF] @ scope @ [LF] @ hex_encode (sha256 canonical_request)
       in bind_result (derive_signing_key hmac (ac_secret_key creds) date (ac_region creds) service) (\<lambda>signing_key.
          bind_result (hmac_sha256 hmac signing_key string_to_sign) (\<lambda>mac.
            Inr ([(''x-amz-date'', amz_date),
                  (''authorization'', ''AWS4-HMAC-SHA256 Credential='' @ ac_access_key creds @ ''/'' @ scope @ '', SignedHeaders='' @
                     signed_headers @ '', Signature='' @ hex_encode mac)] @
                 (case ac_session_token creds of None \<Rightarrow> [] | Some token \<Rightarrow> [(''x-amz-security-token'', token)]) @
                 [(''x-amz-content-sha256'', payload_hash)]))))"

subsection \<open>The calendar\<close>

definition leap :: "int \<Rightarrow> bool" where
  "leap y \<longleftrightarrow> y mod 4 = 0 \<and> (y mod 100 \<noteq> 0 \<or> y mod 400 = 0)"

definition days_in_month :: "int \<Rightarrow> int \<Rightarrow> int" where
  "days_in_month y m = (if m = 2 then (if leap y then 29 else 28) else if m \<in> {4, 6, 9, 11} then 30 else 31)"

definition next_day :: "int \<times> int \<times> int \<Rightarrow> int \<times> int \<times> int" where
  "next_day = (\<lambda>(y, m, d). if d < days_in_month y m then (y, m, d + 1) else if m < 12 then (y, m + 1, 1) else (y + 1, 1, 1))"

text \<open>Years are counted from March within eras of 400 years: the first and last day of a year of an era,
  the year of a day, and month and day of a day of the year.\<close>

definition year_start :: "int \<Rightarrow> int" where
  "year_start y = 365 * y + y div 4 - y div 100"

definition year_end :: "int \<Rightarrow> int" where
  "year_end y = (if y = 399 then 146096 else year_start (y + 1) - 1)"

definition days_before :: "int \<Rightarrow> int" where
  "days_before doe = doe - doe div 1460 + doe div 36524 - doe div 146096"

definition month_day :: "int \<Rightarrow> int \<times> int" where
  "month_day doy = (let mp = (5 * doy + 2) div 153 in (if mp < 10 then mp + 3 else mp - 9, doy - (153 * mp + 2) div 5 + 1))"

lemma minus_div_mono:
  fixes a b k :: int
  assumes "a \<le> b" "1 \<le> k"
  shows "a - a div k \<le> b - b div k"
proof -
  have "1 * (b - a) \<le> k * (b - a)" using assms by (intro mult_right_mono) auto
  then have "b div k \<le> (a + (b - a) * k) div k" using assms by (intro zdiv_mono1) (auto simp: mult.commute)
  also have "\<dots> = a div k + (b - a)" using assms by simp
  finally show ?thesis by simp
qed

lemma days_before_mono: "a \<le> b \<Longrightarrow> days_before a \<le> days_before b"
proof -
  assume ab: "a \<le> b"
  have "n div 146096 = n div 36524 div 4" for n :: int by (simp add: zdiv_zmult2_eq [symmetric])
  then show ?thesis
    using minus_div_mono [OF ab, of 1460] minus_div_mono [of "a div 36524" "b div 36524" 4] zdiv_mono1 [OF ab, of 36524]
    by (simp add: days_before_def)
qed

lemma year_table:
  "\<forall>y\<in>set [0..399]. days_before (year_start y) div 365 = y \<and> days_before (year_end y) div 365 = y \<and>
     year_start y \<le> year_end y \<and> year_end y - year_start y = (if leap (y + 1) then 365 else 364)"
  by code_simp

lemma month_table:
  "\<forall>doy\<in>set [0..364].
     (case month_day doy of (m, d) \<Rightarrow> 1 \<le> m \<and> m \<le> 12 \<and> (m = 2 \<longrightarrow> d \<le> 28 \<and> (d = 28 \<longleftrightarrow> doy = 364)) \<and>
       month_day (doy + 1) = (if m = 2 \<or> d < days_in_month 1 m then (m, d + 1) else if m = 12 then (1, 1) else (m + 1, 1)))"
  by code_simp

lemma yearD:
  assumes "0 \<le> y" "y < 400"
  shows "days_before (year_start y) div 365 = y" "days_before (year_end y) div 365 = y" "year_start y \<le> year_end y"
    "year_end y - year_start y = (if leap (y + 1) then 365 else 364)"
  using year_table assms by (auto simp del: leap_def)

lemma month_next:
  assumes "0 \<le> doy" "doy < 365" "month_day doy = (m, d)"
  shows "1 \<le> m" "m \<le> 12" "m = 2 \<Longrightarrow> d \<le> 28 \<and> (d = 28 \<longleftrightarrow> doy = 364)"
    "month_day (doy + 1) = (if m = 2 \<or> d < days_in_month 1 m then (m, d + 1) else if m = 12 then (1, 1) else (m + 1, 1))"
  using month_table assms by (auto dest!: bspec [of _ _ doy])

text \<open>The year found for a day is the one whose days it is among, and every day of an era is in a year.\<close>

lemma year_found:
  assumes "0 \<le> y" "y < 400" "year_start y \<le> doe" "doe \<le> year_end y"
  shows "days_before doe div 365 = y"
proof -
  have "days_before (year_start y) div 365 \<le> days_before doe div 365" "days_before doe div 365 \<le> days_before (year_end y) div 365"
    using assms by (intro zdiv_mono1 days_before_mono; simp)+
  then show ?thesis using yearD [OF assms(1,2)] by simp
qed

lemma in_some_year:
  assumes "0 \<le> doe" "doe \<le> 146096"
  obtains y where "0 \<le> y" "y < 400" "year_start y \<le> doe" "doe \<le> year_end y"
proof -
  have "\<exists>y. 0 \<le> y \<and> y < 400 \<and> year_start y \<le> doe \<and> doe \<le> year_end y"
    using assms
  proof (induction doe rule: int_ge_induct)
    case base
    then show ?case by (intro exI [of _ 0]) (simp add: year_start_def year_end_def)
  next
    case (step i)
    then obtain y where y: "0 \<le> y" "y < 400" "year_start y \<le> i" "i \<le> year_end y" by auto
    show ?case
    proof (cases "i + 1 \<le> year_end y")
      case True
      then show ?thesis using y by (intro exI [of _ y]) simp
    next
      case False
      then have i: "i = year_end y" using y(4) by simp
      then have "y \<noteq> 399" using step.prems by (auto simp: year_end_def)
      then have "y + 1 < 400" "i + 1 = year_start (y + 1)" using y(2) i by (auto simp: year_end_def)
      then show ?thesis using y(1) yearD(3) [of "y + 1"] by (intro exI [of _ "y + 1"]) simp
    qed
  qed
  then show thesis using that by blast
qed

definition civil :: "int \<Rightarrow> int \<Rightarrow> int \<times> int \<times> int" where
  "civil year doy = (case month_day doy of (m, d) \<Rightarrow> (if m \<le> 2 then year + 1 else year, m, d))"

lemma era_div: "trunc_div (if 0 \<le> z then z else z - 146096) 146097 = z div 146097"
proof (cases "0 \<le> z")
  case False
  have "146096 - z = 146097 * (- (z div 146097)) + (146096 - z mod 146097)" by (simp add: minus_div_mult_eq_mod [symmetric])
  then have "(146096 - z) div 146097 = - (z div 146097)"
    by (rule int_div_pos_eq) (use pos_mod_bound [of 146097 z] pos_mod_sign [of 146097 z] in simp_all)
  then show ?thesis using False by (simp add: trunc_div_def)
qed (simp add: trunc_div_def)

lemma civil_from_year:
  assumes "0 \<le> y" "y < 400" "year_start y \<le> doe" "doe \<le> year_end y" "days + 719468 = era * 146097 + doe" "0 \<le> doe" "doe \<le> 146096"
  shows "civil_from_days days = civil (y + era * 400) (doe - year_start y)"
proof -
  have "(days + 719468) div 146097 = era" using assms(5-7) by simp
  then have e: "trunc_div (if 0 \<le> days + 719468 then days + 719468 else days + 719468 - 146096) 146097 = era" by (simp only: era_div)
  have d: "days + 719468 - era * 146097 = doe" using assms(5) by simp
  have y: "(doe - doe div 1460 + doe div 36524 - doe div 146096) div 365 = y"
    using year_found [OF assms(1-4)] by (simp only: days_before_def)
  show ?thesis unfolding civil_from_days_def Let_def e d y civil_def month_day_def year_start_def prod.case ..
qed

lemma leap_era: "leap (y + era * 400 + 1) = leap (y + 1)"
proof -
  have "(y + era * 400 + 1) mod 4 = (y + 1) mod 4" "(y + era * 400 + 1) mod 100 = (y + 1) mod 100" "(y + era * 400 + 1) mod 400 = (y + 1) mod 400"
    using mod_mult_self1 [of "y + 1" "era * 100" 4] mod_mult_self1 [of "y + 1" "era * 4" 100] mod_mult_self1 [of "y + 1" era 400]
    by (simp_all add: algebra_simps)
  then show ?thesis by (simp only: leap_def)
qed

lemma civil_same_year:
  assumes "0 \<le> doy" "doy < 365" "doy = 364 \<Longrightarrow> leap (year + 1)"
  shows "civil year (doy + 1) = next_day (civil year doy)"
proof -
  obtain m d where md: "month_day doy = (m, d)" by fastforce
  note n = month_next [OF assms(1,2) md]
  show ?thesis
  proof (cases "m = 2")
    case True
    then show ?thesis using n assms(3) by (auto simp: civil_def md next_day_def days_in_month_def)
  next
    case False
    then have "days_in_month year m = days_in_month 1 m" "days_in_month (year + 1) m = days_in_month 1 m" by (simp_all add: days_in_month_def)
    then show ?thesis using n(1,2,4) False by (auto simp: civil_def md next_day_def)
  qed
qed

lemma civil_last_day: "month_day 365 = (2, 29)" "month_day 364 = (2, 28)" "month_day 0 = (3, 1)"
  by code_simp+

lemma civil_new_year: "civil (year + 1) 0 = next_day (civil year (if leap (year + 1) then 365 else 364))"
  by (simp add: civil_def civil_last_day next_day_def days_in_month_def)

lemma year_end_le: "0 \<le> y \<Longrightarrow> y < 400 \<Longrightarrow> year_end y \<le> 146096"
  by (auto simp: year_end_def year_start_def)

lemma civil_step: "civil_from_days (days + 1) = next_day (civil_from_days days)"
proof -
  define era where "era = (days + 719468) div 146097"
  define doe where "doe = (days + 719468) mod 146097"
  have z: "days + 719468 = era * 146097 + doe" by (simp add: era_def doe_def)
  have r: "0 \<le> doe" "doe \<le> 146096" using pos_mod_bound [of 146097 "days + 719468"] by (simp_all add: doe_def)
  obtain y where y: "0 \<le> y" "y < 400" "year_start y \<le> doe" "doe \<le> year_end y" using in_some_year [OF r] .
  note e = yearD(4) [OF y(1,2)]
  have now: "civil_from_days days = civil (y + era * 400) (doe - year_start y)" using civil_from_year [OF y z r] .
  consider "doe + 1 \<le> year_end y" | "doe = year_end y" "y < 399" | "doe = year_end y" "y = 399" using y(2,4) by linarith
  then show ?thesis
  proof cases
    case 1
    then have "civil_from_days (days + 1) = civil (y + era * 400) (doe + 1 - year_start y)"
      using y r z year_end_le [OF y(1,2)] by (intro civil_from_year) auto
    moreover have "doe - year_start y < 365" "doe - year_start y = 364 \<Longrightarrow> leap (y + era * 400 + 1)"
      using 1 e by (auto simp: leap_era split: if_splits)
    moreover have "doe + 1 - year_start y = doe - year_start y + 1" by simp
    ultimately show ?thesis using civil_same_year [of "doe - year_start y" "y + era * 400"] y(3) now by simp
  next
    case 2
    then have "civil_from_days (days + 1) = civil (y + 1 + era * 400) (doe + 1 - year_start (y + 1))"
      using y r z yearD(3) [of "y + 1"] year_end_le [of "y + 1"] by (intro civil_from_year) (auto simp: year_end_def)
    moreover have "doe + 1 - year_start (y + 1) = 0" using 2 by (simp add: year_end_def)
    moreover have "doe - year_start y = (if leap (y + era * 400 + 1) then 365 else 364)" using 2 e by (simp add: leap_era)
    ultimately show ?thesis using civil_new_year [of "y + era * 400"] now by (simp add: algebra_simps)
  next
    case 3
    have "civil_from_days (days + 1) = civil (0 + (era + 1) * 400) (0 - year_start 0)"
      using 3 z by (intro civil_from_year) (auto simp: year_end_def year_start_def)
    moreover have "doe - year_start y = (if leap (y + era * 400 + 1) then 365 else 364)" using 3(1) e by (simp only: leap_era)
    moreover have "0 + (era + 1) * 400 = y + era * 400 + 1" "0 - year_start 0 = 0" using 3 by (simp_all add: year_start_def)
    ultimately show ?thesis using civil_new_year [of "y + era * 400"] now by (simp only:)
  qed
qed

subsection \<open>Properties\<close>

text \<open>C36. The date of a day number is the date of the Gregorian calendar: day 0 is the first of January 1970, and
  the date of the next day number is the next calendar day, for every day before and after the epoch;
  so that day \<open>n\<close> is what \<open>n\<close> steps of the calendar reach.\<close>

theorem civil_dates_correct:
  "civil_from_days (days + 1) = next_day (civil_from_days days) \<and> civil_from_days (int n) = (next_day ^^ n) (1970, 1, 1)"
proof -
  have "civil_from_days 0 = (1970, 1, 1)" by code_simp
  then have "civil_from_days (int n) = (next_day ^^ n) (1970, 1, 1)" for n
    by (induction n) (use civil_step in \<open>auto simp: add.commute [of 1]\<close>)
  then show ?thesis using civil_step by simp
qed

lemma sort_key_perm:
  assumes "mset xs = mset ys" "distinct (map f xs)"
  shows "sort_key f xs = sort_key f ys"
proof (rule map_sorted_distinct_set_unique [of f])
  have "distinct (map f ys)" using assms by (metis mset_eq_imp_distinct_iff mset_map)
  then show "distinct (map f (sort_key f xs))" "distinct (map f (sort_key f ys))"
    using assms(2) by (metis mset_eq_imp_distinct_iff mset_map mset_sort)+
  have "set xs = set ys" using assms(1) by (metis set_mset_mset)
  then show "set (sort_key f xs) = set (sort_key f ys)" "inj_on f (set (sort_key f xs) \<union> set (sort_key f ys))"
    using assms(2) by (simp_all add: distinct_map)
qed simp_all

text \<open>The signature does not depend on the order in which the caller lists its headers, as long as their
  names are distinct and none of them is one that signing adds.\<close>

theorem signature_ignores_header_order:
  assumes "mset headers' = mset headers" "distinct (map (to_lowercase \<circ> fst) headers)"
    and "(to_lowercase \<circ> fst) ` set headers \<inter> {''host'', ''x-amz-date'', ''x-amz-security-token''} = {}"
  shows "sign_request sha256 hmac method_name url headers' payload creds service now =
    sign_request sha256 hmac method_name url headers payload creds service now"
proof -
  let ?low = "map (\<lambda>(k, v). (to_lowercase k, trim_str v))"
  let ?add = "\<lambda>host date. [(''host'', host), (''x-amz-date'', date)] @
    (case ac_session_token creds of None \<Rightarrow> [] | Some token \<Rightarrow> [(''x-amz-security-token'', token)])"
  have names: "map fst (?low hs) = map (to_lowercase \<circ> fst) hs" for hs by (simp add: case_prod_beta)
  have m: "mset (?low headers @ ?add host date) = mset (?low headers' @ ?add host date)" for host date using assms(1) by simp
  have d: "distinct (map fst (?low headers @ ?add host date))" for host date
    using assms(2,3) unfolding map_append names by (auto split: option.splits)
  have "signing_headers host date creds headers = signing_headers host date creds headers'" for host date
    unfolding signing_headers_def by (rule sort_key_perm [OF m d])
  then show ?thesis by (simp add: sign_request_def)
qed

theorem signature_ignores_header_order_witness:
  "sign_request (\<lambda>s. s) (\<lambda>k m. Inr (k @ m)) ''POST'' ''https://h/p'' [(''Accept'', ''a''), (''content-type'', ''b'')] [] creds ''bedrock'' 0 =
   sign_request (\<lambda>s. s) (\<lambda>k m. Inr (k @ m)) ''POST'' ''https://h/p'' [(''content-type'', ''b''), (''Accept'', ''a'')] [] creds ''bedrock'' 0"
proof -
  have "map to_lowercase [''content-type'', ''Accept''] = [''content-type'', ''accept'']" by code_simp
  then show ?thesis by (intro signature_ignores_header_order) (simp_all add: add_mset_commute)
qed

end
