(* ===== verification/Flow.thy ===== *)
theory Flow
  imports Session_Key Run_Types Model_Ref
begin

text \<open>Task flows (\<^verbatim>\<open>legion-automation/src/flow.rs\<close>): validation of a graph of steps, its execution layer
  by layer and the failure policies. The runtime is a parameter that gives the events of the run a
  request starts. The steps of a layer run concurrently; \<open>finish\<close> gives the time at which each ends,
  so every order of completion is an instance. The log lists the layers of requests started.
\<close>

subsection \<open>Definitions\<close>

record FlowStep =
  fl_name :: string
  fl_message :: string
  fl_depends_on :: "string list"

datatype FlowFailurePolicy = FlowAbort | FlowContinue

record TaskFlow =
  tf_id :: string
  tf_agent_id :: string
  tf_steps :: "FlowStep list"
  tf_on_failure :: FlowFailurePolicy

datatype FlowStatus = FlowCompleted | FlowFailed

datatype StepStatus = StepCompleted | StepFailed | StepSkipped

record StepOutcome =
  so_name :: string
  so_status :: StepStatus
  so_error :: "string option"

record FlowReport =
  fr_flow_id :: string
  fr_status :: FlowStatus
  fr_steps :: "StepOutcome list"

fun duplicate_name :: "string list \<Rightarrow> FlowStep list \<Rightarrow> string option" where
  "duplicate_name names [] = None"
| "duplicate_name names (step # steps) =
     (if fl_name step \<in> set names then Some (''duplicate step name '' @ quoted (fl_name step))
      else duplicate_name (fl_name step # names) steps)"

definition unknown_dependency :: "string list \<Rightarrow> FlowStep \<Rightarrow> string option" where
  "unknown_dependency names step =
     map_option (\<lambda>dep. ''step '' @ quoted (fl_name step) @ '' depends on unknown step '' @ quoted dep)
       (List.find (\<lambda>dep. dep \<notin> set names) (fl_depends_on step))"

fun first_unknown :: "string list \<Rightarrow> FlowStep list \<Rightarrow> string option" where
  "first_unknown names [] = None"
| "first_unknown names (step # steps) = or_opt (unknown_dependency names step) (first_unknown names steps)"

definition validate_flow :: "TaskFlow \<Rightarrow> string option" where
  "validate_flow flow =
     or_opt (duplicate_name [] (tf_steps flow)) (first_unknown (map fl_name (tf_steps flow)) (tf_steps flow))"

definition mark_dependent :: "string \<Rightarrow> string set \<Rightarrow> FlowStep \<Rightarrow> string set" where
  "mark_dependent failed skipped step =
     (if fl_name step = failed \<or> fl_name step \<in> skipped then skipped
      else if list_ex (\<lambda>d. d = failed \<or> d \<in> skipped) (fl_depends_on step) then insert (fl_name step) skipped
      else skipped)"

lemma mark_dependent_mono: "skipped \<subseteq> mark_dependent failed skipped step"
  by (auto simp: mark_dependent_def)

lemma mark_pass_mono: "skipped \<subseteq> foldl (mark_dependent failed) skipped steps"
proof (induction steps arbitrary: skipped)
  case (Cons step steps)
  then show ?case using mark_dependent_mono [of skipped failed step] by fastforce
qed simp

lemma mark_pass_names: "foldl (mark_dependent failed) skipped steps \<subseteq> skipped \<union> fl_name ` set steps"
proof (induction steps arbitrary: skipped)
  case (Cons step steps)
  have "mark_dependent failed skipped step \<subseteq> insert (fl_name step) skipped" by (auto simp: mark_dependent_def)
  then show ?case using Cons [of "mark_dependent failed skipped step"] by auto
qed simp

text \<open>Passes over the steps until one changes nothing.\<close>

function dependents_loop :: "FlowStep list \<Rightarrow> string \<Rightarrow> string set \<Rightarrow> string set" where
  "dependents_loop steps failed skipped =
     (let skipped' = foldl (mark_dependent failed) skipped steps
      in if skipped' = skipped then skipped else dependents_loop steps failed skipped')"
  by auto
termination
proof (relation "measure (\<lambda>(steps, _, skipped). card (fl_name ` set steps - skipped))", goal_cases)
  case (2 steps failed skipped skipped')
  have "skipped \<subset> skipped'" using 2 mark_pass_mono by blast
  moreover have "skipped' \<subseteq> skipped \<union> fl_name ` set steps" using 2 mark_pass_names by blast
  ultimately have "fl_name ` set steps - skipped' \<subset> fl_name ` set steps - skipped" by blast
  then show ?case by (simp add: psubset_card_mono)
qed simp

declare dependents_loop.simps [simp del]

definition transitive_dependents :: "FlowStep list \<Rightarrow> string \<Rightarrow> string set" where
  "transitive_dependents steps failed = dependents_loop steps failed {}"

definition step_request :: "AgentsConfig \<Rightarrow> TaskFlow \<Rightarrow> FlowStep \<Rightarrow> RunRequest" where
  "step_request config flow step =
     (RunRequest_new (direct_session_key (tf_agent_id flow) ''flow'' ''flow'' ''default'' (tf_id flow @ ''-'' @ fl_name step))
        (tf_agent_id flow) (fl_message step) (resolve_agent_model config (tf_agent_id flow)))
       \<lparr>rr_system_prompt := Some (''You are executing step '' @ quoted (fl_name step) @ '' of task flow '' @ quoted (tf_id flow) @
          ''. Complete the following instruction:'')\<rparr>"

fun first_error :: "RunEvent list \<Rightarrow> string option" where
  "first_error [] = None"
| "first_error (Lifecycle phase error # evs) =
     (if phase = ErrorPhase then Some (unwrap_or error ''flow step failed'') else first_error evs)"
| "first_error (_ # evs) = first_error evs"

definition run_step ::
  "(RunRequest \<Rightarrow> (string, RunEvent list) result) \<Rightarrow> AgentsConfig \<Rightarrow> TaskFlow \<Rightarrow> FlowStep \<Rightarrow> string \<times> (string, unit) result" where
  "run_step runtime config flow step =
     (fl_name step,
      case runtime (step_request config flow step) of
        Inl e \<Rightarrow> Inl e
      | Inr evs \<Rightarrow> (case first_error evs of Some e \<Rightarrow> Inl e | None \<Rightarrow> Inr ()))"

record flow_state =
  fw_statuses :: "string \<rightharpoonup> StepStatus"
  fw_errors :: "string \<rightharpoonup> string"
  fw_failed :: bool
  fw_aborted :: bool

definition skip_all :: "string set \<Rightarrow> (string \<rightharpoonup> StepStatus) \<Rightarrow> (string \<rightharpoonup> StepStatus)" where
  "skip_all names m = (\<lambda>n. if m n = None \<and> n \<in> names then Some StepSkipped else m n)"

definition step_done :: "TaskFlow \<Rightarrow> flow_state \<Rightarrow> string \<times> (string, unit) result \<Rightarrow> flow_state" where
  "step_done flow st done =
     (let (name, res) = done
      in case res of
           Inr _ \<Rightarrow> st\<lparr>fw_statuses := (fw_statuses st)(name \<mapsto> StepCompleted)\<rparr>
         | Inl error \<Rightarrow>
             let statuses = (fw_statuses st)(name \<mapsto> StepFailed);
                 st1 = st\<lparr>fw_errors := (fw_errors st)(name \<mapsto> error), fw_failed := True\<rparr>
             in (case tf_on_failure flow of
                   FlowAbort \<Rightarrow> st1\<lparr>fw_statuses := skip_all (fl_name ` set (tf_steps flow)) statuses, fw_aborted := True\<rparr>
                 | FlowContinue \<Rightarrow> st1\<lparr>fw_statuses := skip_all (transitive_dependents (tf_steps flow) name) statuses\<rparr>))"

definition ready_steps :: "TaskFlow \<Rightarrow> (string \<rightharpoonup> StepStatus) \<Rightarrow> FlowStep list" where
  "ready_steps flow statuses =
     filter (\<lambda>s. list_all (\<lambda>d. statuses d = Some StepCompleted) (fl_depends_on s))
       (filter (\<lambda>s. statuses (fl_name s) = None) (tf_steps flow))"

definition remaining_steps :: "TaskFlow \<Rightarrow> (string \<rightharpoonup> StepStatus) \<Rightarrow> string list" where
  "remaining_steps flow statuses = map fl_name (filter (\<lambda>s. statuses (fl_name s) = None) (tf_steps flow))"

definition run_layer ::
  "(FlowStep \<Rightarrow> (string, unit) result) \<Rightarrow> (FlowStep \<Rightarrow> nat) \<Rightarrow> TaskFlow \<Rightarrow> FlowStep list \<Rightarrow> flow_state \<Rightarrow> flow_state" where
  "run_layer outcome finish flow ready st =
     foldl (step_done flow) st (map (\<lambda>s. (fl_name s, outcome s)) (sort_key finish ready))"

lemma step_done_dom: "dom (fw_statuses (step_done flow st (n, r))) \<supseteq> insert n (dom (fw_statuses st))"
  by (auto simp: step_done_def skip_all_def dom_def Let_def split: sum.splits FlowFailurePolicy.splits)

lemma fold_done_dom: "dom (fw_statuses (foldl (step_done flow) st ds)) \<supseteq> fst ` set ds \<union> dom (fw_statuses st)"
proof (induction ds arbitrary: st)
  case (Cons d ds)
  obtain n r where d: "d = (n, r)" by fastforce
  have "fst ` set ds \<union> dom (fw_statuses (step_done flow st d)) \<subseteq> dom (fw_statuses (foldl (step_done flow) (step_done flow st d) ds))"
    by (rule Cons)
  moreover have "insert n (dom (fw_statuses st)) \<subseteq> dom (fw_statuses (step_done flow st d))"
    using step_done_dom d by blast
  ultimately show ?case using d by (simp only: foldl_Cons list.set image_insert fst_conv) blast
qed simp

lemma run_layer_dom:
  "dom (fw_statuses (run_layer outcome finish flow ready st)) \<supseteq> fl_name ` set ready \<union> dom (fw_statuses st)"
  using fold_done_dom [of "map (\<lambda>s. (fl_name s, outcome s)) (sort_key finish ready)" st flow]
  by (simp add: run_layer_def image_image)

function flow_loop ::
  "(FlowStep \<Rightarrow> (string, unit) result) \<Rightarrow> (FlowStep \<Rightarrow> nat) \<Rightarrow> TaskFlow \<Rightarrow> flow_state \<Rightarrow> FlowStep list list \<Rightarrow>
     flow_state \<times> FlowStep list list" where
  "flow_loop outcome finish flow st log =
     (if fw_failed st \<or> fw_aborted st then (st, log)
      else
        let ready = ready_steps flow (fw_statuses st)
        in if ready = [] then
             (let remaining = remaining_steps flow (fw_statuses st)
              in if remaining = [] then (st, log)
                 else (st\<lparr>fw_statuses := skip_all (set remaining) (fw_statuses st), fw_failed := True\<rparr>, log))
           else flow_loop outcome finish flow (run_layer outcome finish flow ready st) (log @ [ready]))"
  by auto
termination
proof (relation "measure (\<lambda>(_, _, flow, st, _). card (fl_name ` set (tf_steps flow) - dom (fw_statuses st)))", goal_cases)
  case (2 outcome finish flow st log ready)
  let ?N = "fl_name ` set (tf_steps flow)"
  have s: "hd ready \<in> set ready" using 2 by simp
  then have "fl_name (hd ready) \<in> ?N" "fl_name (hd ready) \<notin> dom (fw_statuses st)"
    using 2(2) by (auto simp: ready_steps_def)
  moreover have "fl_name ` set ready \<union> dom (fw_statuses st) \<subseteq> dom (fw_statuses (run_layer outcome finish flow ready st))"
    by (rule run_layer_dom)
  ultimately have "?N - dom (fw_statuses (run_layer outcome finish flow ready st)) \<subset> ?N - dom (fw_statuses st)"
    using s by blast
  then show ?case by (simp add: psubset_card_mono)
qed simp

declare flow_loop.simps [simp del]

definition flow_start :: "TaskFlow \<Rightarrow> flow_state" where
  "flow_start flow =
     (case validate_flow flow of
        Some reason \<Rightarrow> \<lparr>fw_statuses = (\<lambda>n. if n \<in> fl_name ` set (tf_steps flow) then Some StepSkipped else None),
          fw_errors = Map.empty, fw_failed = True, fw_aborted = False\<rparr>
      | None \<Rightarrow> \<lparr>fw_statuses = Map.empty, fw_errors = Map.empty, fw_failed = False, fw_aborted = False\<rparr>)"

definition step_outcome :: "flow_state \<Rightarrow> FlowStep \<Rightarrow> StepOutcome" where
  "step_outcome st s =
     \<lparr>so_name = fl_name s, so_status = unwrap_or (fw_statuses st (fl_name s)) StepCompleted, so_error = fw_errors st (fl_name s)\<rparr>"

definition run_flow ::
  "(RunRequest \<Rightarrow> (string, RunEvent list) result) \<Rightarrow> AgentsConfig \<Rightarrow> (FlowStep \<Rightarrow> nat) \<Rightarrow> TaskFlow \<Rightarrow> FlowReport \<times> FlowStep list list" where
  "run_flow runtime config finish flow =
     (let (st, log) = flow_loop (\<lambda>s. snd (run_step runtime config flow s)) finish flow (flow_start flow) []
      in (\<lparr>fr_flow_id = tf_id flow, fr_status = (if fw_failed st then FlowFailed else FlowCompleted),
           fr_steps = map (step_outcome st) (tf_steps flow)\<rparr>, log))"

subsection \<open>Facts\<close>

text \<open>The dependency graph: an edge from each step to those that depend on it.\<close>

definition depends :: "FlowStep list \<Rightarrow> (string \<times> string) set" where
  "depends steps = {(d, fl_name s) | d s. s \<in> set steps \<and> d \<in> set (fl_depends_on s)}"

lemma mark_dependent_sound:
  assumes "step \<in> set steps" and "\<forall>n\<in>skipped. (failed, n) \<in> (depends steps)\<^sup>+"
  shows "\<forall>n\<in>mark_dependent failed skipped step. (failed, n) \<in> (depends steps)\<^sup>+"
proof -
  have "(failed, fl_name step) \<in> (depends steps)\<^sup>+"
    if "list_ex (\<lambda>d. d = failed \<or> d \<in> skipped) (fl_depends_on step)"
  proof -
    from that obtain d where d: "d \<in> set (fl_depends_on step)" "d = failed \<or> d \<in> skipped" by (auto simp: list_ex_iff)
    then have "(d, fl_name step) \<in> depends steps" using assms(1) by (auto simp: depends_def)
    with d(2) assms(2) show ?thesis by (auto intro: trancl_into_trancl)
  qed
  then show ?thesis using assms(2) by (auto simp: mark_dependent_def)
qed

lemma mark_pass_sound:
  "set todo \<subseteq> set steps \<Longrightarrow> \<forall>n\<in>skipped. (failed, n) \<in> (depends steps)\<^sup>+ \<Longrightarrow>
     \<forall>n\<in>foldl (mark_dependent failed) skipped todo. (failed, n) \<in> (depends steps)\<^sup>+"
proof (induction todo arbitrary: skipped)
  case (Cons s todo)
  then have "s \<in> set steps" "set todo \<subseteq> set steps" by auto
  then show ?case unfolding foldl_Cons by (intro Cons.IH mark_dependent_sound Cons.prems(2))
qed simp

lemma mark_pass_names_neq: "failed \<notin> skipped \<Longrightarrow> failed \<notin> foldl (mark_dependent failed) skipped todo"
proof (induction todo arbitrary: skipped)
  case (Cons s todo)
  have "failed \<notin> mark_dependent failed skipped s" using Cons.prems by (auto simp: mark_dependent_def)
  with Cons.IH show ?case by simp
qed simp

lemma mark_pass_covers:
  "step \<in> set todo \<Longrightarrow> fl_name step \<noteq> failed \<Longrightarrow> \<exists>d\<in>set (fl_depends_on step). d = failed \<or> d \<in> skipped \<Longrightarrow>
     fl_name step \<in> foldl (mark_dependent failed) skipped todo"
proof (induction todo arbitrary: skipped)
  case (Cons s todo)
  show ?case
  proof (cases "s = step")
    case True
    then have "fl_name step \<in> mark_dependent failed skipped s" using Cons.prems by (auto simp: mark_dependent_def list_ex_iff)
    then show ?thesis using mark_pass_mono [of "mark_dependent failed skipped s" failed todo] by auto
  next
    case False
    moreover have "\<exists>d\<in>set (fl_depends_on step). d = failed \<or> d \<in> mark_dependent failed skipped s"
      using Cons.prems(3) mark_dependent_mono [of skipped failed s] by blast
    ultimately show ?thesis using Cons by simp
  qed
qed simp

lemma dependents_loop_spec:
  "\<forall>n\<in>skipped. (failed, n) \<in> (depends steps)\<^sup>+ \<Longrightarrow> failed \<notin> skipped \<Longrightarrow>
     dependents_loop steps failed skipped = {n. n \<noteq> failed \<and> (failed, n) \<in> (depends steps)\<^sup>+}"
proof (induction steps failed skipped rule: dependents_loop.induct)
  case (1 steps failed skipped)
  let ?next = "foldl (mark_dependent failed) skipped steps"
  show ?case
  proof (cases "?next = skipped")
    case True
    have "n \<noteq> failed \<longrightarrow> n \<in> skipped" if "(failed, n) \<in> (depends steps)\<^sup>+" for n
      using that
    proof (induction rule: trancl_induct)
      case (base n)
      then obtain s where "s \<in> set steps" "n = fl_name s" "failed \<in> set (fl_depends_on s)" by (auto simp: depends_def)
      then show ?case using mark_pass_covers [of s steps failed skipped] True by auto
    next
      case (step m n)
      then obtain s where "s \<in> set steps" "n = fl_name s" "m \<in> set (fl_depends_on s)" by (auto simp: depends_def)
      then show ?case using mark_pass_covers [of s steps failed skipped] step.IH True by auto
    qed
    then show ?thesis using True 1(2,3) by (subst dependents_loop.simps) (auto simp: Let_def)
  next
    case False
    have "\<forall>n\<in>?next. (failed, n) \<in> (depends steps)\<^sup>+" using mark_pass_sound [OF subset_refl 1(2)] .
    then show ?thesis
      using 1(1) [OF refl False] mark_pass_names_neq [OF 1(3)] False by (subst dependents_loop.simps) (simp add: Let_def)
  qed
qed

definition complete :: "string set \<Rightarrow> (string \<rightharpoonup> StepStatus) \<Rightarrow> (string \<rightharpoonup> StepStatus)" where
  "complete names m = (\<lambda>n. if n \<in> names then Some StepCompleted else m n)"

lemma fold_done_ok:
  "\<forall>s\<in>set ready. \<not> isl (outcome s) \<Longrightarrow> foldl (step_done flow) st (map (\<lambda>s. (fl_name s, outcome s)) ready) =
     st\<lparr>fw_statuses := complete (fl_name ` set ready) (fw_statuses st)\<rparr>"
proof (induction ready arbitrary: st)
  case (Cons s ready)
  then obtain u where "outcome s = Inr u" by (cases "outcome s") auto
  then have "step_done flow st (fl_name s, outcome s) = st\<lparr>fw_statuses := (fw_statuses st)(fl_name s \<mapsto> StepCompleted)\<rparr>"
    by (simp add: step_done_def)
  with Cons show ?case by (auto simp: complete_def fun_eq_iff)
qed (simp add: complete_def)

lemma run_layer_ok:
  "\<forall>s\<in>set ready. \<not> isl (outcome s) \<Longrightarrow>
     run_layer outcome finish flow ready st = st\<lparr>fw_statuses := complete (fl_name ` set ready) (fw_statuses st)\<rparr>"
  using fold_done_ok [of "sort_key finish ready" outcome flow st] by (simp add: run_layer_def)

lemma fold_done_failed:
  "fw_failed (foldl (step_done flow) st (map (\<lambda>s. (fl_name s, outcome s)) ready)) \<longleftrightarrow>
     fw_failed st \<or> (\<exists>s\<in>set ready. isl (outcome s))"
proof (induction ready arbitrary: st)
  case (Cons s ready)
  have "fw_failed (step_done flow st (fl_name s, outcome s)) \<longleftrightarrow> fw_failed st \<or> isl (outcome s)"
    by (auto simp: step_done_def Let_def split: sum.splits FlowFailurePolicy.splits)
  with Cons show ?case by auto
qed simp

lemma run_layer_failed:
  "fw_failed (run_layer outcome finish flow ready st) \<longleftrightarrow> fw_failed st \<or> (\<exists>s\<in>set ready. isl (outcome s))"
  using fold_done_failed [of flow st outcome "sort_key finish ready"] by (simp add: run_layer_def)

text \<open>Layers in order: what a layer starts was not started before and depends only on steps that
  succeeded in earlier layers, and a layer in which a step fails is the last.\<close>

fun layers_ok :: "(FlowStep \<Rightarrow> (string, unit) result) \<Rightarrow> string set \<Rightarrow> FlowStep list list \<Rightarrow> bool" where
  "layers_ok outcome finished [] \<longleftrightarrow> True"
| "layers_ok outcome finished (layer # rest) \<longleftrightarrow>
     (\<forall>s\<in>set layer. set (fl_depends_on s) \<subseteq> finished \<and> fl_name s \<notin> finished) \<and> distinct (map fl_name layer) \<and>
     ((\<exists>s\<in>set layer. isl (outcome s)) \<longrightarrow> rest = []) \<and>
     layers_ok outcome (finished \<union> fl_name ` {s \<in> set layer. \<not> isl (outcome s)}) rest"

definition running_state :: "flow_state \<Rightarrow> string set \<Rightarrow> bool" where
  "running_state st finished \<longleftrightarrow> \<not> fw_failed st \<and> \<not> fw_aborted st \<and> fw_statuses st = complete finished Map.empty"

lemma ready_steps_set:
  "fw_statuses st = complete finished Map.empty \<Longrightarrow>
     set (ready_steps flow (fw_statuses st)) =
       {s \<in> set (tf_steps flow). fl_name s \<notin> finished \<and> set (fl_depends_on s) \<subseteq> finished}"
  by (auto simp: ready_steps_def complete_def list_all_iff split: if_splits)

lemma remaining_set:
  "fw_statuses st = complete finished Map.empty \<Longrightarrow>
     set (remaining_steps flow (fw_statuses st)) = fl_name ` set (tf_steps flow) - finished"
  by (auto simp: remaining_steps_def complete_def split: if_splits)

lemma flow_loop_stop: "fw_failed st \<or> fw_aborted st \<Longrightarrow> flow_loop outcome finish flow st log = (st, log)"
  by (subst flow_loop.simps) simp

lemma flow_loop_layers:
  "distinct (map fl_name (tf_steps flow)) \<Longrightarrow> running_state st finished \<Longrightarrow> \<exists>new. snd (flow_loop outcome finish flow st log) = log @ new \<and>
     layers_ok outcome finished new \<and> set (concat new) \<subseteq> set (tf_steps flow) \<and>
     (\<not> fw_failed (fst (flow_loop outcome finish flow st log)) \<longrightarrow>
        finished \<union> fl_name ` set (concat new) \<supseteq> fl_name ` set (tf_steps flow) \<and> (\<forall>s\<in>set (concat new). \<not> isl (outcome s)) \<and>
        fw_statuses (fst (flow_loop outcome finish flow st log)) = complete (finished \<union> fl_name ` set (concat new)) Map.empty)"
proof (induction outcome finish flow st log arbitrary: finished rule: flow_loop.induct)
  case (1 outcome finish flow st log)
  let ?ready = "ready_steps flow (fw_statuses st)" and ?st = "run_layer outcome finish flow (ready_steps flow (fw_statuses st)) st"
  have run: "\<not> (fw_failed st \<or> fw_aborted st)" and stat: "fw_statuses st = complete finished Map.empty"
    using 1(3) by (auto simp: running_state_def)
  have set: "set ?ready = {s \<in> set (tf_steps flow). fl_name s \<notin> finished \<and> set (fl_depends_on s) \<subseteq> finished}"
    by (rule ready_steps_set [OF stat])
  show ?case
  proof (cases "?ready = []")
    case True
    then have loop: "flow_loop outcome finish flow st log = (let remaining = remaining_steps flow (fw_statuses st)
        in if remaining = [] then (st, log)
           else (st\<lparr>fw_statuses := skip_all (set remaining) (fw_statuses st), fw_failed := True\<rparr>, log))"
      using run by (subst flow_loop.simps) simp
    show ?thesis using remaining_set [OF stat, of flow] stat unfolding loop
      by (intro exI [of _ "[]"]) (auto simp: Let_def complete_def)
  next
    case False
    then have loop: "flow_loop outcome finish flow st log = flow_loop outcome finish flow ?st (log @ [?ready])"
      using run by (subst flow_loop.simps) (simp add: Let_def)
    have layer: "(\<forall>s\<in>set ?ready. set (fl_depends_on s) \<subseteq> finished \<and> fl_name s \<notin> finished)" using set by auto
    have dist: "distinct (map fl_name ?ready)" using 1(2)
      by (simp add: ready_steps_def distinct_map_filter)
    show ?thesis
    proof (cases "\<exists>s\<in>set ?ready. isl (outcome s)")
      case True
      then have "fw_failed ?st" by (simp add: run_layer_failed)
      then show ?thesis unfolding loop using layer dist set by (intro exI [of _ "[?ready]"]) (auto simp: flow_loop_stop)
    next
      case ok: False
      let ?finished = "finished \<union> fl_name ` set ?ready"
      have good: "{s \<in> set ?ready. \<not> isl (outcome s)} = set ?ready" using ok by auto
      have "running_state ?st ?finished"
        using ok run stat by (simp add: run_layer_ok running_state_def) (auto simp: complete_def fun_eq_iff)
      from 1(1) [OF run refl False 1(2) this] obtain new where new:
        "snd (flow_loop outcome finish flow ?st (log @ [?ready])) = (log @ [?ready]) @ new" "layers_ok outcome ?finished new"
        "set (concat new) \<subseteq> set (tf_steps flow)"
        "\<not> fw_failed (fst (flow_loop outcome finish flow ?st (log @ [?ready]))) \<longrightarrow>
          ?finished \<union> fl_name ` set (concat new) \<supseteq> fl_name ` set (tf_steps flow) \<and> (\<forall>s\<in>set (concat new). \<not> isl (outcome s)) \<and>
          fw_statuses (fst (flow_loop outcome finish flow ?st (log @ [?ready]))) = complete (?finished \<union> fl_name ` set (concat new)) Map.empty"
        by blast
      have ok': "layers_ok outcome finished (?ready # new)" using layer dist new(2) ok by (simp add: good)
      have sub: "set (concat (?ready # new)) \<subseteq> set (tf_steps flow)" using new(3) set by auto
      have names: "?finished \<union> fl_name ` set (concat new) = finished \<union> fl_name ` set (concat (?ready # new))" by auto
      have all: "(\<forall>s\<in>set (concat new). \<not> isl (outcome s)) \<longleftrightarrow> (\<forall>s\<in>set (concat (?ready # new)). \<not> isl (outcome s))"
        using ok by (simp add: ball_Un)
      have "snd (flow_loop outcome finish flow ?st (log @ [?ready])) = log @ (?ready # new)" using new(1) by simp
      then show ?thesis unfolding loop
        by (intro exI [of _ "?ready # new"] conjI ok' sub new(4) [unfolded names all])
    qed
  qed
qed

lemma layers_ok_distinct:
  "layers_ok outcome finished log \<Longrightarrow> distinct (map fl_name (concat log)) \<and> fl_name ` set (concat log) \<inter> finished = {}"
proof (induction log arbitrary: finished)
  case (Cons layer rest)
  show ?case
  proof (cases "\<exists>s\<in>set layer. isl (outcome s)")
    case False
    then have "{s \<in> set layer. \<not> isl (outcome s)} = set layer" by auto
    then show ?thesis using Cons.IH [of "finished \<union> fl_name ` set layer"] Cons.prems by auto
  qed (use Cons.prems in auto)
qed simp

text \<open>Layers that cover a set of steps are a topological order of them.\<close>

lemma layers_ok_rank:
  "layers_ok outcome finished log \<Longrightarrow> \<forall>s\<in>set (concat log). \<not> isl (outcome s) \<Longrightarrow>
     \<exists>f :: string \<Rightarrow> nat. (\<forall>n\<in>finished. f n = 0) \<and> (\<forall>s\<in>set (concat log). f (fl_name s) > 0 \<and> (\<forall>d\<in>set (fl_depends_on s). f d < f (fl_name s)))"
proof (induction log arbitrary: finished)
  case (Cons layer rest)
  let ?next = "finished \<union> fl_name ` set layer"
  have "{s \<in> set layer. \<not> isl (outcome s)} = set layer" using Cons.prems(2) by auto
  then obtain g :: "string \<Rightarrow> nat" where g: "\<forall>n\<in>?next. g n = 0"
    "\<forall>s\<in>set (concat rest). g (fl_name s) > 0 \<and> (\<forall>d\<in>set (fl_depends_on s). g d < g (fl_name s))"
    using Cons.IH [of ?next] Cons.prems by auto
  define f where "f n = (if n \<in> finished then 0 else Suc (g n))" for n
  have "f (fl_name s) > 0 \<and> (\<forall>d\<in>set (fl_depends_on s). f d < f (fl_name s))" if "s \<in> set layer" for s
    using that Cons.prems(1) by (auto simp: f_def)
  moreover have "f (fl_name s) > 0 \<and> (\<forall>d\<in>set (fl_depends_on s). f d < f (fl_name s))" if s: "s \<in> set (concat rest)" for s
  proof -
    have "fl_name s \<notin> finished" using g s by fastforce
    then show ?thesis using g(2) s by (auto simp: f_def)
  qed
  moreover have "\<forall>n\<in>finished. f n = 0" by (simp add: f_def)
  ultimately show ?case by (intro exI [of _ f]) auto
qed (auto intro: exI [of _ "\<lambda>_. 0"])

lemma or_opt_eq_None: "or_opt a b = None \<longleftrightarrow> a = None \<and> b = None"
  by (cases a) auto

lemma duplicate_name_None:
  "duplicate_name names steps = None \<longleftrightarrow> distinct (map fl_name steps) \<and> set names \<inter> fl_name ` set steps = {}"
  by (induction names steps rule: duplicate_name.induct) auto

lemma first_unknown_None:
  "first_unknown names steps = None \<longleftrightarrow> (\<forall>s\<in>set steps. set (fl_depends_on s) \<subseteq> set names)"
  by (induction names steps rule: first_unknown.induct)
    (auto simp: unknown_dependency_def find_None_iff or_opt_eq_None)

lemma validate_flow_None:
  "validate_flow flow = None \<longleftrightarrow> distinct (map fl_name (tf_steps flow)) \<and>
     (\<forall>s\<in>set (tf_steps flow). set (fl_depends_on s) \<subseteq> fl_name ` set (tf_steps flow))"
  by (auto simp: validate_flow_def or_opt_eq_None duplicate_name_None first_unknown_None)

text \<open>A loop that has not started every step finds a ready one when the graph has no cycle.\<close>

lemma stuck_cyclic:
  assumes "ready_steps flow (fw_statuses st) = []" and "fw_statuses st = complete finished Map.empty"
    and "fl_name ` set (tf_steps flow) - finished \<noteq> {}" and "acyclic (depends (tf_steps flow))"
    and "\<forall>s\<in>set (tf_steps flow). set (fl_depends_on s) \<subseteq> fl_name ` set (tf_steps flow)"
  shows False
proof -
  let ?D = "depends (tf_steps flow)" and ?R = "fl_name ` set (tf_steps flow) - finished"
  have "?D \<subseteq> (\<Union>s\<in>set (tf_steps flow). (\<lambda>d. (d, fl_name s)) ` set (fl_depends_on s))" by (auto simp: depends_def)
  then have "finite ?D" by (rule finite_subset) simp
  then have "wf ?D" using assms(4) by (rule finite_acyclic_wf)
  then obtain n where n: "n \<in> ?R" "\<And>m. (m, n) \<in> ?D \<Longrightarrow> m \<notin> ?R" using assms(3) by (meson ex_in_conv wfE_min)
  then obtain s where s: "s \<in> set (tf_steps flow)" "n = fl_name s" by auto
  have "set (fl_depends_on s) \<subseteq> finished" using n(2) s assms(5) unfolding depends_def by blast
  then have "s \<in> set (ready_steps flow (fw_statuses st))" using ready_steps_set [OF assms(2)] s n(1) by auto
  then show False using assms(1) by simp
qed

lemma flow_loop_no_failure:
  "running_state st finished \<Longrightarrow> \<forall>s\<in>set (tf_steps flow). \<not> isl (outcome s) \<Longrightarrow> acyclic (depends (tf_steps flow)) \<Longrightarrow>
     \<forall>s\<in>set (tf_steps flow). set (fl_depends_on s) \<subseteq> fl_name ` set (tf_steps flow) \<Longrightarrow>
     \<not> fw_failed (fst (flow_loop outcome finish flow st log))"
proof (induction outcome finish flow st log arbitrary: finished rule: flow_loop.induct)
  case (1 outcome finish flow st log)
  let ?ready = "ready_steps flow (fw_statuses st)"
  have run: "\<not> (fw_failed st \<or> fw_aborted st)" and stat: "fw_statuses st = complete finished Map.empty"
    using 1(2) by (auto simp: running_state_def)
  show ?case
  proof (cases "?ready = []")
    case True
    have "remaining_steps flow (fw_statuses st) = []"
      using stuck_cyclic [OF True stat _ 1(4) 1(5)] remaining_set [OF stat, of flow] by fastforce
    then show ?thesis using run True by (subst flow_loop.simps) simp
  next
    case False
    have ok: "\<forall>s\<in>set ?ready. \<not> isl (outcome s)" using 1(3) by (auto simp: ready_steps_def)
    have "running_state (run_layer outcome finish flow ?ready st) (finished \<union> fl_name ` set ?ready)"
      using ok run stat by (simp add: run_layer_ok running_state_def) (auto simp: complete_def fun_eq_iff)
    from 1(1) [OF run refl False this 1(3-5)] show ?thesis
      using run False by (subst flow_loop.simps) (simp add: Let_def)
  qed
qed

lemma flow_start_simps:
  "validate_flow flow = None \<Longrightarrow> running_state (flow_start flow) {}"
  "validate_flow flow \<noteq> None \<Longrightarrow> flow_loop outcome finish flow (flow_start flow) log = (flow_start flow, log)"
  by (auto simp: flow_start_def running_state_def complete_def flow_loop_stop)

definition step_result ::
  "(RunRequest \<Rightarrow> (string, RunEvent list) result) \<Rightarrow> AgentsConfig \<Rightarrow> TaskFlow \<Rightarrow> FlowStep \<Rightarrow> (string, unit) result" where
  "step_result runtime config flow s = snd (run_step runtime config flow s)"

text \<open>The state the loop of a flow ends in, from which the report is made.\<close>

lemma run_flow_loop:
  obtains st where "flow_loop (step_result runtime config flow) finish flow (flow_start flow) [] = (st, snd (run_flow runtime config finish flow))"
    and "fst (run_flow runtime config finish flow) =
      \<lparr>fr_flow_id = tf_id flow, fr_status = (if fw_failed st then FlowFailed else FlowCompleted), fr_steps = map (step_outcome st) (tf_steps flow)\<rparr>"
  by (cases "flow_loop (step_result runtime config flow) finish flow (flow_start flow) []")
    (auto simp: run_flow_def step_result_def [abs_def])

lemma flow_layers:
  assumes "flow_loop outcome finish flow (flow_start flow) [] = (st, log)"
  shows "layers_ok outcome {} log" and "set (concat log) \<subseteq> set (tf_steps flow)"
    and "\<not> fw_failed st \<Longrightarrow> validate_flow flow = None \<and> set (concat log) = set (tf_steps flow) \<and>
      (\<forall>s\<in>set (tf_steps flow). \<not> isl (outcome s) \<and> fw_statuses st (fl_name s) = Some StepCompleted)"
proof (atomize (full), cases "validate_flow flow")
  case None
  then have d: "distinct (map fl_name (tf_steps flow))" by (simp add: validate_flow_None)
  from flow_loop_layers [OF d flow_start_simps(1) [OF None], of outcome finish "[]"] assms
  have new: "layers_ok outcome {} log" "set (concat log) \<subseteq> set (tf_steps flow)"
    "\<not> fw_failed st \<longrightarrow> fl_name ` set (concat log) \<supseteq> fl_name ` set (tf_steps flow) \<and>
       (\<forall>s\<in>set (concat log). \<not> isl (outcome s)) \<and> fw_statuses st = complete (fl_name ` set (concat log)) Map.empty"
    by auto
  have "set (concat log) = set (tf_steps flow)" if "\<not> fw_failed st"
  proof -
    have "inj_on fl_name (set (tf_steps flow))" using d by (simp add: distinct_map)
    then show ?thesis using new(2) new(3) that by (metis inj_on_image_eq_iff order_refl subset_antisym image_mono)
  qed
  then show "layers_ok outcome {} log \<and> set (concat log) \<subseteq> set (tf_steps flow) \<and> (\<not> fw_failed st \<longrightarrow> validate_flow flow = None \<and>
      set (concat log) = set (tf_steps flow) \<and> (\<forall>s\<in>set (tf_steps flow). \<not> isl (outcome s) \<and> fw_statuses st (fl_name s) = Some StepCompleted))"
    using new None by (auto simp: complete_def)
next
  case (Some r)
  then show "layers_ok outcome {} log \<and> set (concat log) \<subseteq> set (tf_steps flow) \<and> (\<not> fw_failed st \<longrightarrow> validate_flow flow = None \<and>
      set (concat log) = set (tf_steps flow) \<and> (\<forall>s\<in>set (tf_steps flow). \<not> isl (outcome s) \<and> fw_statuses st (fl_name s) = Some StepCompleted))"
    using assms flow_start_simps(2) [of flow outcome finish "[]"] by (auto simp: flow_start_def)
qed


text \<open>C33. A flow completes exactly when it should: its status is completed if and only if it passes
  validation, its dependencies have no cycle and every step succeeds; and then every step has been
  started and is reported completed. The loop ends in every case (it is a total function).
\<close>

theorem flow_completes_iff:
  "(fr_status (fst (run_flow runtime config finish flow)) = FlowCompleted \<longleftrightarrow>
     validate_flow flow = None \<and> acyclic (depends (tf_steps flow)) \<and>
     (\<forall>s\<in>set (tf_steps flow). step_result runtime config flow s = Inr ())) \<and>
   (fr_status (fst (run_flow runtime config finish flow)) = FlowCompleted \<longrightarrow>
     set (concat (snd (run_flow runtime config finish flow))) = set (tf_steps flow) \<and>
     (\<forall>o'\<in>set (fr_steps (fst (run_flow runtime config finish flow))). so_status o' = StepCompleted))"
proof (rule run_flow_loop [of runtime config flow finish], goal_cases)
  case (1 st)
  let ?outcome = "step_result runtime config flow" and ?log = "snd (run_flow runtime config finish flow)"
  note layers = flow_layers [OF 1(1)]
  have ok: "\<not> isl (?outcome s) \<longleftrightarrow> ?outcome s = Inr ()" for s by (cases "?outcome s") auto
  have "acyclic (depends (tf_steps flow))" if run: "\<not> fw_failed st"
  proof -
    have "\<forall>s\<in>set (concat ?log). \<not> isl (?outcome s)" using layers(3) [OF run] by blast
    then obtain f :: "string \<Rightarrow> nat" where "\<forall>s\<in>set (concat ?log). \<forall>d\<in>set (fl_depends_on s). f d < f (fl_name s)"
      using layers_ok_rank [OF layers(1)] by blast
    then have "\<forall>s\<in>set (tf_steps flow). \<forall>d\<in>set (fl_depends_on s). f d < f (fl_name s)" using layers(3) [OF run] by blast
    then have "depends (tf_steps flow) \<subseteq> measure f" by (auto simp: depends_def)
    then show ?thesis by (meson wf_acyclic wf_measure wf_subset)
  qed
  moreover have "\<not> fw_failed st" if "validate_flow flow = None" "acyclic (depends (tf_steps flow))"
      "\<forall>s\<in>set (tf_steps flow). \<not> isl (?outcome s)"
    using flow_loop_no_failure [OF flow_start_simps(1) [OF that(1)] that(3) that(2), of finish "[]"] that(1) 1(1)
    by (simp add: validate_flow_None)
  ultimately show ?case using layers(3) 1(2) by (auto simp: ok step_outcome_def)
qed

text \<open>The steps the continue policy skips after a failure are exactly the other steps that depend on
  the failed one, directly or through a chain of dependencies.
\<close>

theorem transitive_dependents_correct:
  "transitive_dependents steps failed = {n. n \<noteq> failed \<and> (failed, n) \<in> (depends steps)\<^sup>+}"
  unfolding transitive_dependents_def by (rule dependents_loop_spec) simp_all

subsection \<open>The report under the abort policy\<close>

definition status_of :: "(string, unit) result \<Rightarrow> StepStatus" where
  "status_of r = (if isl r then StepFailed else StepCompleted)"

lemma abort_fold_statuses:
  assumes "tf_on_failure flow = FlowAbort"
  shows "distinct (map fl_name ready) \<Longrightarrow> fw_statuses (foldl (step_done flow) st (map (\<lambda>s. (fl_name s, outcome s)) ready)) n =
    (case List.find (\<lambda>s. fl_name s = n) ready of Some s \<Rightarrow> Some (status_of (outcome s))
     | None \<Rightarrow> if (\<exists>s\<in>set ready. isl (outcome s)) \<and> fw_statuses st n = None \<and> n \<in> fl_name ` set (tf_steps flow)
               then Some StepSkipped else fw_statuses st n)"
proof (induction ready arbitrary: st)
  case (Cons s ready)
  have none: "List.find (\<lambda>t. fl_name t = fl_name s) ready = None" using Cons.prems by (simp add: find_None_iff) (metis imageI)
  have st: "fw_statuses (step_done flow st (fl_name s, outcome s)) =
      (\<lambda>n. if n = fl_name s then Some (status_of (outcome s))
           else if isl (outcome s) \<and> fw_statuses st n = None \<and> n \<in> fl_name ` set (tf_steps flow) then Some StepSkipped
           else fw_statuses st n)"
    using assms by (cases "outcome s") (auto simp: step_done_def skip_all_def status_of_def fun_eq_iff)
  show ?case using Cons by (auto simp: st none split: option.splits)
qed simp

text \<open>What the report says when every step started has the status of its outcome and the others are skipped.\<close>

definition exact_statuses :: "(FlowStep \<Rightarrow> (string, unit) result) \<Rightarrow> TaskFlow \<Rightarrow> FlowStep set \<Rightarrow> (string \<rightharpoonup> StepStatus) \<Rightarrow> bool" where
  "exact_statuses outcome flow started m \<longleftrightarrow>
     (\<forall>s\<in>set (tf_steps flow). m (fl_name s) = Some (if s \<in> started then status_of (outcome s) else StepSkipped))"

lemma find_name: "distinct (map fl_name xs) \<Longrightarrow> s \<in> set xs \<Longrightarrow> List.find (\<lambda>t. fl_name t = fl_name s) xs = Some s"
  by (induction xs) (auto simp: rev_image_eqI)

lemma abort_loop_exact:
  "tf_on_failure flow = FlowAbort \<Longrightarrow> distinct (map fl_name (tf_steps flow)) \<Longrightarrow> running_state st (fl_name ` started) \<Longrightarrow>
   started \<subseteq> set (tf_steps flow) \<Longrightarrow> started = set (concat log) \<Longrightarrow> \<forall>s\<in>started. \<not> isl (outcome s) \<Longrightarrow>
     exact_statuses outcome flow (set (concat (snd (flow_loop outcome finish flow st log)))) (fw_statuses (fst (flow_loop outcome finish flow st log)))"
proof (induction outcome finish flow st log arbitrary: started rule: flow_loop.induct)
  case (1 outcome finish flow st log)
  let ?ready = "ready_steps flow (fw_statuses st)" and ?st = "run_layer outcome finish flow (ready_steps flow (fw_statuses st)) st"
  have run: "\<not> (fw_failed st \<or> fw_aborted st)" and stat: "fw_statuses st = complete (fl_name ` started) Map.empty"
    using 1(4) by (auto simp: running_state_def)
  have inj: "inj_on fl_name (set (tf_steps flow))" using 1(3) by (simp add: distinct_map)
  have mem: "fl_name s \<in> fl_name ` started \<longleftrightarrow> s \<in> started" if "s \<in> set (tf_steps flow)" for s
    using inj that 1(5) by (auto simp: inj_on_def)
  show ?case
  proof (cases "?ready = []")
    case True
    have rem: "set (remaining_steps flow (fw_statuses st)) = fl_name ` set (tf_steps flow) - fl_name ` started" by (rule remaining_set [OF stat])
    have "fw_statuses (fst (flow_loop outcome finish flow st log)) = skip_all (set (remaining_steps flow (fw_statuses st))) (fw_statuses st) \<and>
        snd (flow_loop outcome finish flow st log) = log"
      using run True by (subst (1 2) flow_loop.simps) (simp add: Let_def skip_all_def)
    moreover have "skip_all (fl_name ` set (tf_steps flow) - fl_name ` started) (fw_statuses st) (fl_name s) =
        Some (if s \<in> started then status_of (outcome s) else StepSkipped)" if "s \<in> set (tf_steps flow)" for s
      using mem [OF that] that 1(7) by (simp add: skip_all_def stat complete_def status_of_def)
    ultimately show ?thesis using rem 1(6) by (simp add: exact_statuses_def)
  next
    case False
    then have loop: "flow_loop outcome finish flow st log = flow_loop outcome finish flow ?st (log @ [?ready])"
      using run by (subst flow_loop.simps) (simp add: Let_def)
    have dist: "distinct (map fl_name ?ready)" using 1(3) by (simp add: ready_steps_def distinct_map_filter)
    have sub: "set ?ready \<subseteq> set (tf_steps flow)" by (auto simp: ready_steps_def)
    show ?thesis
    proof (cases "\<exists>s\<in>set ?ready. isl (outcome s)")
      case True
      then have "fw_failed ?st" by (simp add: run_layer_failed)
      moreover have "fw_statuses ?st (fl_name s) = Some (if s \<in> set (concat (log @ [?ready])) then status_of (outcome s) else StepSkipped)"
        if s: "s \<in> set (tf_steps flow)" for s
      proof -
        have "distinct (map fl_name (sort_key finish ?ready))" using dist by (simp add: distinct_map)
        note st = abort_fold_statuses [OF 1(2) this, of st outcome "fl_name s", folded run_layer_def]
        show ?thesis
        proof (cases "s \<in> set ?ready")
          case True
          then show ?thesis using st find_name [of "sort_key finish ?ready" s] dist by (simp add: distinct_map)
        next
          case False
          then have "List.find (\<lambda>t. fl_name t = fl_name s) (sort_key finish ?ready) = None"
            using inj s sub by (auto simp: find_None_iff inj_on_def)
          then show ?thesis using st True False s mem [OF s] 1(6,7) stat by (auto simp: complete_def status_of_def)
        qed
      qed
      ultimately show ?thesis unfolding loop by (simp add: flow_loop_stop exact_statuses_def)
    next
      case ok: False
      have "running_state ?st (fl_name ` (started \<union> set ?ready))"
        using ok run stat by (simp add: run_layer_ok running_state_def) (auto simp: complete_def fun_eq_iff)
      from 1(1) [OF run refl False 1(2,3) this] show ?thesis unfolding loop using ok 1(5,6,7) sub by auto
    qed
  qed
qed

text \<open>Under the abort policy the report is exact, in whatever order the steps of a layer finish: a step
  that started is reported completed or failed as its run ended, and a step that never started is
  reported skipped.
\<close>

theorem abort_report_exact:
  assumes "tf_on_failure flow = FlowAbort"
  shows "map (\<lambda>o'. (so_name o', so_status o')) (fr_steps (fst (run_flow runtime config finish flow))) =
    map (\<lambda>s. (fl_name s, if s \<in> set (concat (snd (run_flow runtime config finish flow)))
                         then status_of (step_result runtime config flow s) else StepSkipped)) (tf_steps flow)"
proof (rule run_flow_loop [of runtime config flow finish], goal_cases)
  case (1 st)
  let ?outcome = "step_result runtime config flow"
  have "exact_statuses ?outcome flow (set (concat (snd (run_flow runtime config finish flow)))) (fw_statuses st)"
  proof (cases "validate_flow flow")
    case None
    then have "distinct (map fl_name (tf_steps flow))" by (simp add: validate_flow_None)
    from abort_loop_exact [OF assms this, of "flow_start flow" "{}" "[]" ?outcome finish] flow_start_simps(1) [OF None] 1(1)
    show ?thesis by simp
  next
    case (Some r)
    then show ?thesis using 1(1) flow_start_simps(2) [of flow ?outcome finish "[]"]
      by (auto simp: exact_statuses_def flow_start_def)
  qed
  then show ?case using 1(2) by (auto simp: exact_statuses_def step_outcome_def)
qed

definition example_flow :: "FlowFailurePolicy \<Rightarrow> TaskFlow" where
  "example_flow policy = \<lparr>tf_id = ''f'', tf_agent_id = ''main'',
     tf_steps = [\<lparr>fl_name = ''a'', fl_message = ''boom'', fl_depends_on = []\<rparr>,
                 \<lparr>fl_name = ''b'', fl_message = ''go'', fl_depends_on = []\<rparr>,
                 \<lparr>fl_name = ''c'', fl_message = ''go'', fl_depends_on = [''b'']\<rparr>],
     tf_on_failure = policy\<rparr>"

definition empty_agents :: AgentsConfig where
  "empty_agents = \<lparr>as_default_model = None, as_list = []\<rparr>"

definition example_runtime :: "RunRequest \<Rightarrow> (string, RunEvent list) result" where
  "example_runtime req = (if rr_user_message req = ''boom'' then Inl ''down'' else Inr [])"

theorem flow_completes_iff_witness:
  "fr_status (fst (run_flow (\<lambda>_. Inr []) empty_agents (\<lambda>_. 0) (example_flow FlowAbort))) = FlowCompleted \<and>
   acyclic (depends (tf_steps (example_flow FlowAbort))) \<and>
   set (concat (snd (run_flow (\<lambda>_. Inr []) empty_agents (\<lambda>_. 0) (example_flow FlowAbort)))) = set (tf_steps (example_flow FlowAbort))"
proof -
  have "fr_status (fst (run_flow (\<lambda>_. Inr []) empty_agents (\<lambda>_. 0) (example_flow FlowAbort))) = FlowCompleted" by code_simp
  then show ?thesis using flow_completes_iff [of "\<lambda>_. Inr []" empty_agents "\<lambda>_. 0" "example_flow FlowAbort"] by blast
qed

theorem abort_report_exact_witness:
  "map (\<lambda>o'. (so_name o', so_status o')) (fr_steps (fst (run_flow example_runtime empty_agents (\<lambda>_. 0) (example_flow FlowAbort)))) =
    map (\<lambda>s. (fl_name s, if s \<in> set (concat (snd (run_flow example_runtime empty_agents (\<lambda>_. 0) (example_flow FlowAbort))))
       then status_of (step_result example_runtime empty_agents (example_flow FlowAbort) s) else StepSkipped)) (tf_steps (example_flow FlowAbort))"
  by (rule abort_report_exact) (simp add: example_flow_def)

text \<open>Under the continue policy the report is not exact. When one of two independent steps fails, a
  third step that depends only on the one that succeeded is never started, because the loop stops at
  the first layer with a failure, and it is reported completed, because a step without a status counts
  as completed.
\<close>

theorem continue_policy_reports_unrun_steps:
  "snd (run_flow example_runtime empty_agents (\<lambda>_. 0) (example_flow FlowContinue)) = [take 2 (tf_steps (example_flow FlowContinue))] \<and>
   map (\<lambda>o'. (so_name o', so_status o')) (fr_steps (fst (run_flow example_runtime empty_agents (\<lambda>_. 0) (example_flow FlowContinue)))) =
     [(''a'', StepFailed), (''b'', StepCompleted), (''c'', StepCompleted)]"
  by code_simp

end
