(* ===== verification/Task_Ledger.thy ===== *)
theory Task_Ledger
  imports Session_Key Run_Types Model_Ref File_Store
begin

text \<open>The task ledger (\<^verbatim>\<open>legion-automation/src/tasks.rs\<close>) and the runner that works it off
  (\<^verbatim>\<open>task_runner.rs\<close>). The ledger is a list in memory written whole to a file of JSON lines after
  every change. JSON text and UTF-8 validity are parameters, and so are the clock and the faults of
  the file system, both read at the number of store calls made so far. A run of the agent is a
  function of the request that may change the ledger through the tools it calls.
\<close>

subsection \<open>JSON-lines files\<close>

text \<open>A line that is not UTF-8 ends the reading loop; a blank or malformed line is skipped.\<close>

definition read_jsonl :: "(string \<Rightarrow> bool) \<Rightarrow> (string \<Rightarrow> 'a option) \<Rightarrow> string \<Rightarrow> 'a list" where
  "read_jsonl utf8 from_str content =
     List.map_filter from_str (filter (\<lambda>l. trim_str l \<noteq> []) (takeWhile utf8 (str_lines content)))"

fun write_jsonl :: "('a \<Rightarrow> (string, string) result) \<Rightarrow> 'a list \<Rightarrow> (string, string) result" where
  "write_jsonl to_string [] = Inr []"
| "write_jsonl to_string (x # xs) =
     bind_result (to_string x) (\<lambda>line. bind_result (write_jsonl to_string xs) (\<lambda>rest. Inr (line @ LF # rest)))"

subsection \<open>Tasks\<close>

datatype TaskKind = TaskCron | TaskSubagent | TaskAcp | TaskCli

fun TaskKind_as_str :: "TaskKind \<Rightarrow> string" where
  "TaskKind_as_str TaskCron = ''cron''"
| "TaskKind_as_str TaskSubagent = ''subagent''"
| "TaskKind_as_str TaskAcp = ''acp''"
| "TaskKind_as_str TaskCli = ''cli''"

datatype TaskStatus = TaskPending | TaskRunning | TaskCompleted | TaskFailed | TaskTimeout

record Task =
  tk_id :: string
  tk_kind :: TaskKind
  tk_status :: TaskStatus
  tk_agent_id :: string
  tk_session_id :: "string option"
  tk_run_id :: "string option"
  tk_created_at :: nat
  tk_started_at :: "nat option"
  tk_ended_at :: "nat option"
  tk_error :: "string option"
  tk_message :: "string option"
  tk_depends_on :: "string list"

definition Task_new :: "string \<Rightarrow> TaskKind \<Rightarrow> string \<Rightarrow> nat \<Rightarrow> Task" where
  "Task_new tid kind agent_id now =
     \<lparr>tk_id = tid, tk_kind = kind, tk_status = TaskPending, tk_agent_id = agent_id, tk_session_id = None,
      tk_run_id = None, tk_created_at = now, tk_started_at = None, tk_ended_at = None, tk_error = None,
      tk_message = None, tk_depends_on = []\<rparr>"

definition mark_running :: "nat \<Rightarrow> Task \<Rightarrow> Task" where
  "mark_running now t = t\<lparr>tk_status := TaskRunning, tk_started_at := Some now\<rparr>"

definition mark_completed :: "nat \<Rightarrow> Task \<Rightarrow> Task" where
  "mark_completed now t = t\<lparr>tk_status := TaskCompleted, tk_ended_at := Some now\<rparr>"

definition mark_failed :: "nat \<Rightarrow> string \<Rightarrow> Task \<Rightarrow> Task" where
  "mark_failed now error t = t\<lparr>tk_status := TaskFailed, tk_ended_at := Some now, tk_error := Some error\<rparr>"

datatype TaskStoreError = TaskIo io_error | TaskJson string | TaskNotFound string

subsection \<open>The ledger\<close>

record JsonlTaskStore =
  js_path :: path
  js_to_string :: "Task \<Rightarrow> (string, string) result"
  js_from_str :: "string \<Rightarrow> Task option"
  js_utf8 :: "string \<Rightarrow> bool"
  js_faults :: "nat \<Rightarrow> faults"
  js_stamp :: "nat \<Rightarrow> nat \<times> nat"
  js_now :: "nat \<Rightarrow> nat"

record task_world =
  tw_tasks :: "Task list"
  tw_files :: files
  tw_calls :: nat

definition task_now :: "JsonlTaskStore \<Rightarrow> task_world \<Rightarrow> nat" where
  "task_now store w = js_now store (tw_calls w)"

definition tasks_load :: "JsonlTaskStore \<Rightarrow> faults \<Rightarrow> files \<Rightarrow> (TaskStoreError, Task list) result" where
  "tasks_load store faults fs =
     (if \<not> fs_exists (js_path store) fs then Inr []
      else case fs_read faults (js_path store) fs of
             Inl e \<Rightarrow> Inl (TaskIo e)
           | Inr content \<Rightarrow> Inr (read_jsonl (js_utf8 store) (js_from_str store) content))"

definition tasks_open :: "JsonlTaskStore \<Rightarrow> faults \<Rightarrow> files \<Rightarrow> (TaskStoreError, task_world) result" where
  "tasks_open store faults fs =
     (case (if js_path store = [] then Inr () else fs_create_dir_all faults (butlast (js_path store))) of
        Inl e \<Rightarrow> Inl (TaskIo e)
      | Inr _ \<Rightarrow> bind_result (tasks_load store faults fs) (\<lambda>tasks. Inr \<lparr>tw_tasks = tasks, tw_files = fs, tw_calls = 0\<rparr>))"

definition tasks_save :: "JsonlTaskStore \<Rightarrow> task_world \<Rightarrow> (TaskStoreError, unit) result \<times> task_world" where
  "tasks_save store w =
     (case write_jsonl (js_to_string store) (tw_tasks w) of
        Inl e \<Rightarrow> (Inl (TaskJson e), w\<lparr>tw_calls := Suc (tw_calls w)\<rparr>)
      | Inr buf \<Rightarrow>
          (case atomic_write (js_faults store (tw_calls w)) (js_stamp store (tw_calls w)) (js_path store) buf (tw_files w) of
             (Inl e, fs) \<Rightarrow> (Inl (TaskIo e), w\<lparr>tw_files := fs, tw_calls := Suc (tw_calls w)\<rparr>)
           | (Inr _, fs) \<Rightarrow> (Inr (), w\<lparr>tw_files := fs, tw_calls := Suc (tw_calls w)\<rparr>)))"

definition task_create :: "JsonlTaskStore \<Rightarrow> Task \<Rightarrow> task_world \<Rightarrow> (TaskStoreError, unit) result \<times> task_world" where
  "task_create store task w = tasks_save store (w\<lparr>tw_tasks := tw_tasks w @ [task]\<rparr>)"

fun position :: "('a \<Rightarrow> bool) \<Rightarrow> 'a list \<Rightarrow> nat option" where
  "position P [] = None"
| "position P (x # xs) = (if P x then Some 0 else map_option Suc (position P xs))"

definition task_update :: "JsonlTaskStore \<Rightarrow> Task \<Rightarrow> task_world \<Rightarrow> (TaskStoreError, unit) result \<times> task_world" where
  "task_update store task w =
     (case position (\<lambda>t. tk_id t = tk_id task) (tw_tasks w) of
        None \<Rightarrow> (Inl (TaskNotFound (tk_id task)), w)
      | Some pos \<Rightarrow> tasks_save store (w\<lparr>tw_tasks := (tw_tasks w)[pos := task]\<rparr>))"

definition task_list :: "task_world \<Rightarrow> Task list" where
  "task_list w = rev (tw_tasks w)"

definition task_get :: "string \<Rightarrow> task_world \<Rightarrow> Task option" where
  "task_get tid w = List.find (\<lambda>t. tk_id t = tid) (tw_tasks w)"

definition list_pending :: "task_world \<Rightarrow> Task list" where
  "list_pending w = sort_key tk_created_at (filter (\<lambda>t. tk_status t = TaskPending) (tw_tasks w))"

subsection \<open>The runner\<close>

datatype TaskRunnerError =
    TaskStoreErr TaskStoreError
  | TaskRuntimeErr string
  | TaskRunNotFound string
  | DependenciesNotMet string

record EnqueueRequest =
  er_agent_id :: string
  er_message :: string
  er_kind :: TaskKind
  er_depends_on :: "string list"

type_synonym task_runtime = "RunRequest \<Rightarrow> task_world \<Rightarrow> (string, RunEvent list) result \<times> task_world"

text \<open>\<open>counter\<close> is the value of the process-wide counter.\<close>

definition task_enqueue ::
  "JsonlTaskStore \<Rightarrow> nat \<Rightarrow> EnqueueRequest \<Rightarrow> task_world \<Rightarrow> (TaskRunnerError, Task) result \<times> task_world" where
  "task_enqueue store counter req w =
     (let now = task_now store w;
          task = (Task_new (''task-'' @ show_nat now @ ''-'' @ show_nat (counter mod 2 ^ 32)) (er_kind req) (er_agent_id req) now)
                   \<lparr>tk_message := Some (er_message req), tk_depends_on := er_depends_on req\<rparr>
      in case task_create store task w of
           (Inl e, w') \<Rightarrow> (Inl (TaskStoreErr e), w')
         | (Inr _, w') \<Rightarrow> (Inr task, w'))"

definition session_key_for_task :: "Task \<Rightarrow> string" where
  "session_key_for_task t =
     direct_session_key (tk_agent_id t) ''task'' (TaskKind_as_str (tk_kind t)) ''default'' (tk_id t)"

text \<open>The error of the first error event; a later one is not read.\<close>

fun lifecycle_error :: "RunEvent list \<Rightarrow> string option" where
  "lifecycle_error [] = None"
| "lifecycle_error (Lifecycle phase error # evs) = (if phase = ErrorPhase then error else lifecycle_error evs)"
| "lifecycle_error (_ # evs) = lifecycle_error evs"

definition task_session :: "Task \<Rightarrow> string" where
  "task_session t = unwrap_or (tk_session_id t) (session_key_for_task t)"

definition task_request :: "AgentsConfig \<Rightarrow> Task \<Rightarrow> RunRequest" where
  "task_request config t =
     (RunRequest_new (task_session t) (tk_agent_id t) (unwrap_or (tk_message t) []) (resolve_agent_model config (tk_agent_id t)))
       \<lparr>rr_system_prompt := Some (''You are executing a background task ('' @ tk_id t @
          ''). Complete the following instruction:'')\<rparr>"

definition settle_task :: "nat \<Rightarrow> RunEvent list \<Rightarrow> Task \<Rightarrow> Task" where
  "settle_task now evs t =
     (case lifecycle_error evs of Some error \<Rightarrow> mark_failed now error t | None \<Rightarrow> mark_completed now t)"

definition task_execute ::
  "JsonlTaskStore \<Rightarrow> task_runtime \<Rightarrow> AgentsConfig \<Rightarrow> Task \<Rightarrow> task_world \<Rightarrow> (TaskRunnerError, Task) result \<times> task_world" where
  "task_execute store runtime config task w =
     (let task1 = mark_running (task_now store w) task
      in case task_update store task1 w of
           (Inl e, w1) \<Rightarrow> (Inl (TaskStoreErr e), w1)
         | (Inr _, w1) \<Rightarrow>
             (case runtime (task_request config task1) w1 of
                (Inl e, w2) \<Rightarrow>
                  (case task_update store (mark_failed (task_now store w2) e task1) w2 of
                     (Inl e', w3) \<Rightarrow> (Inl (TaskStoreErr e'), w3)
                   | (Inr _, w3) \<Rightarrow> (Inl (TaskRuntimeErr e), w3))
              | (Inr evs, w2) \<Rightarrow>
                  (let task2 = (settle_task (task_now store w2) evs task1)
                         \<lparr>tk_session_id := Some (task_session task1), tk_run_id := Some (tk_id task1)\<rparr>
                   in case task_update store task2 w2 of
                        (Inl e', w3) \<Rightarrow> (Inl (TaskStoreErr e'), w3)
                      | (Inr _, w3) \<Rightarrow> (Inr task2, w3))))"

definition task_run ::
  "JsonlTaskStore \<Rightarrow> task_runtime \<Rightarrow> AgentsConfig \<Rightarrow> string \<Rightarrow> task_world \<Rightarrow> (TaskRunnerError, Task) result \<times> task_world" where
  "task_run store runtime config tid w =
     (case task_get tid w of
        None \<Rightarrow> (Inl (TaskRunNotFound tid), w)
      | Some task \<Rightarrow> task_execute store runtime config task w)"

text \<open>One pending task of a poll, with the ids that existed and were completed when it began.\<close>

definition process_task ::
  "JsonlTaskStore \<Rightarrow> task_runtime \<Rightarrow> AgentsConfig \<Rightarrow> string set \<Rightarrow> string set \<Rightarrow> Task \<Rightarrow> task_world \<Rightarrow>
     (TaskRunnerError, Task) result \<times> task_world" where
  "process_task store runtime config all_ids completed_ids task w =
     (if tk_depends_on task \<noteq> [] \<and> \<not> list_all (\<lambda>d. d \<in> all_ids) (tk_depends_on task)
      then (case task_update store (mark_failed (task_now store w) ''dependency task does not exist'' task) w of
              (Inl e, w') \<Rightarrow> (Inl (TaskStoreErr e), w')
            | (Inr _, w') \<Rightarrow> (Inl (TaskRuntimeErr (''task '' @ quoted (tk_id task) @ '' has missing dependencies'')), w'))
      else if tk_depends_on task \<noteq> [] \<and> \<not> list_all (\<lambda>d. d \<in> completed_ids) (tk_depends_on task)
      then (Inl (DependenciesNotMet (tk_id task)), w)
      else task_execute store runtime config task w)"

fun process_tasks ::
  "JsonlTaskStore \<Rightarrow> task_runtime \<Rightarrow> AgentsConfig \<Rightarrow> string set \<Rightarrow> string set \<Rightarrow> Task list \<Rightarrow> task_world \<Rightarrow>
     (TaskRunnerError, Task) result list \<times> task_world" where
  "process_tasks store runtime config all_ids completed_ids [] w = ([], w)"
| "process_tasks store runtime config all_ids completed_ids (task # pending) w =
     (let (r, w1) = process_task store runtime config all_ids completed_ids task w;
          (rs, w2) = process_tasks store runtime config all_ids completed_ids pending w1
      in (r # rs, w2))"

definition process_pending ::
  "JsonlTaskStore \<Rightarrow> task_runtime \<Rightarrow> AgentsConfig \<Rightarrow> task_world \<Rightarrow> (TaskRunnerError, Task) result list \<times> task_world" where
  "process_pending store runtime config w =
     process_tasks store runtime config (tk_id ` set (task_list w))
       (tk_id ` {t \<in> set (task_list w). tk_status t = TaskCompleted}) (list_pending w) w"

text \<open>The background loop is polls in a row.\<close>

fun background_polls :: "JsonlTaskStore \<Rightarrow> task_runtime \<Rightarrow> AgentsConfig \<Rightarrow> nat \<Rightarrow> task_world \<Rightarrow> task_world" where
  "background_polls store runtime config 0 w = w"
| "background_polls store runtime config (Suc n) w =
     background_polls store runtime config n (snd (process_pending store runtime config w))"

subsection \<open>The contract of the ledger\<close>

text \<open>Writing a task replaces the one with its id.\<close>

definition put_task :: "Task \<Rightarrow> Task list \<Rightarrow> Task list" where
  "put_task t ts = map (\<lambda>s. if tk_id s = tk_id t then t else s) ts"

lemma put_task_ids [simp]: "map tk_id (put_task t ts) = map tk_id ts"
  by (induction ts) (auto simp: put_task_def)

lemma put_task_absent: "tk_id t \<notin> tk_id ` set ts \<Longrightarrow> put_task t ts = ts"
  by (induction ts) (auto simp: put_task_def)

lemma put_task_mem: "s \<in> set (put_task t ts) \<Longrightarrow> s = t \<or> s \<in> set ts"
  by (auto simp: put_task_def split: if_splits)

lemma put_task_other: "s \<in> set ts \<Longrightarrow> tk_id s \<noteq> tk_id t \<Longrightarrow> s \<in> set (put_task t ts)"
  by (force simp: put_task_def)

text \<open>What the \<open>TaskStore\<close> trait promises: an update replaces the record with its id, also when it
  cannot be written out, and fails for an id that does not exist.\<close>

locale task_ledger =
  fixes tasks :: "'w \<Rightarrow> Task list"
    and update :: "Task \<Rightarrow> 'w \<Rightarrow> (TaskStoreError, unit) result \<times> 'w"
  assumes update_tasks: "distinct (map tk_id (tasks w)) \<Longrightarrow> tasks (snd (update t w)) = put_task t (tasks w)"
    and update_missing: "tk_id t \<notin> tk_id ` set (tasks w) \<Longrightarrow> update t w = (Inl (TaskNotFound (tk_id t)), w)"
begin

lemma update_keeps_ids:
  "distinct (map tk_id (tasks w)) \<Longrightarrow> map tk_id (tasks (snd (update t w))) = map tk_id (tasks w)"
  by (simp add: update_tasks)

lemma update_keeps_others:
  "distinct (map tk_id (tasks w)) \<Longrightarrow> s \<in> set (tasks w) \<Longrightarrow> tk_id s \<noteq> tk_id t \<Longrightarrow> s \<in> set (tasks (snd (update t w)))"
  by (simp add: update_tasks put_task_other)

end

lemma position_put:
  "distinct (map tk_id ts) \<Longrightarrow> position (\<lambda>s. tk_id s = tk_id t) ts = Some i \<Longrightarrow> ts[i := t] = put_task t ts"
proof (induction ts arbitrary: i)
  case (Cons s ts)
  show ?case
  proof (cases "tk_id s = tk_id t")
    case True
    then have "tk_id t \<notin> tk_id ` set ts" using Cons.prems(1) by auto
    then show ?thesis using Cons.prems True put_task_absent [of t ts] by (simp add: put_task_def)
  next
    case False
    then obtain j where j: "position (\<lambda>s. tk_id s = tk_id t) ts = Some j" "i = Suc j" using Cons.prems(2) by auto
    then have "ts[j := t] = put_task t ts" using Cons by simp
    then show ?thesis using False j by (simp add: put_task_def)
  qed
qed simp

lemma position_None: "position P xs = None \<longleftrightarrow> (\<forall>x\<in>set xs. \<not> P x)"
  by (induction xs) auto

lemma tasks_save_tasks [simp]: "tw_tasks (snd (tasks_save store w)) = tw_tasks w"
  by (auto simp: tasks_save_def split: sum.splits prod.splits)

interpretation jl: task_ledger tw_tasks "task_update store" for store
proof (unfold_locales, goal_cases)
  case (1 w t)
  then show ?case
  proof (cases "position (\<lambda>s. tk_id s = tk_id t) (tw_tasks w)")
    case None
    then have "tk_id t \<notin> tk_id ` set (tw_tasks w)" by (auto simp: position_None)
    then show ?thesis using None by (simp add: task_update_def put_task_absent)
  qed (simp add: task_update_def position_put)
next
  case (2 t w)
  then have "\<forall>s\<in>set (tw_tasks w). tk_id s \<noteq> tk_id t" by (metis imageI)
  then have "position (\<lambda>s. tk_id s = tk_id t) (tw_tasks w) = None" by (simp add: position_None)
  then show ?case by (simp add: task_update_def)
qed

subsection \<open>Polls\<close>

text \<open>The faults of the file system never reach the ledger in memory; a runtime that leaves the
  ledger alone.\<close>

definition quiet :: "task_runtime \<Rightarrow> bool" where
  "quiet runtime \<longleftrightarrow> (\<forall>req w. tw_tasks (snd (runtime req w)) = tw_tasks w)"

lemma put_task_twice: "tk_id s = tk_id t \<Longrightarrow> put_task t (put_task s ts) = put_task t ts"
  by (auto simp: put_task_def)

lemma marks_id [simp]:
  "tk_id (mark_running n t) = tk_id t" "tk_id (mark_failed n e t) = tk_id t" "tk_id (mark_completed n t) = tk_id t"
  "tk_id (settle_task n evs t) = tk_id t"
  by (auto simp: mark_running_def mark_failed_def mark_completed_def settle_task_def split: option.splits)

lemma marks_deps [simp]:
  "tk_depends_on (mark_running n t) = tk_depends_on t" "tk_depends_on (mark_failed n e t) = tk_depends_on t"
  "tk_depends_on (mark_completed n t) = tk_depends_on t" "tk_depends_on (settle_task n evs t) = tk_depends_on t"
  by (auto simp: mark_running_def mark_failed_def mark_completed_def settle_task_def split: option.splits)

lemma execute_puts:
  assumes "quiet runtime" and d: "distinct (map tk_id (tw_tasks w))"
  shows "\<exists>t'. tk_id t' = tk_id t \<and> tk_depends_on t' = tk_depends_on t \<and>
    tw_tasks (snd (task_execute store runtime config t w)) = put_task t' (tw_tasks w)"
proof -
  let ?t1 = "mark_running (task_now store w) t"
  obtain r1 w1 where u1: "task_update store ?t1 w = (r1, w1)" by fastforce
  have w1: "tw_tasks w1 = put_task ?t1 (tw_tasks w)" using jl.update_tasks [OF d, of store ?t1] u1 by simp
  obtain r2 w2 where run: "runtime (task_request config ?t1) w1 = (r2, w2)" by fastforce
  have w2: "tw_tasks w2 = put_task ?t1 (tw_tasks w)" using assms(1) run w1 unfolding quiet_def by (metis snd_conv)
  then have d2: "distinct (map tk_id (tw_tasks w2))" using d by simp
  have up: "tw_tasks (snd (task_update store t' w2)) = put_task t' (tw_tasks w)" if "tk_id t' = tk_id t" for t'
    using jl.update_tasks [OF d2, of store t'] that by (simp add: w2 put_task_twice)
  show ?thesis
  proof (cases r1)
    case (Inl e)
    then show ?thesis using u1 w1 by (intro exI [of _ ?t1]) (simp add: task_execute_def)
  next
    case (Inr u)
    show ?thesis
    proof (cases r2)
      case (Inl e)
      let ?t' = "mark_failed (task_now store w2) e ?t1"
      have "snd (task_execute store runtime config t w) = snd (task_update store ?t' w2)"
        using Inr Inl u1 run by (auto simp: task_execute_def Let_def split: sum.splits prod.splits)
      then show ?thesis using up [of ?t'] by (intro exI [of _ ?t']) simp
    next
      case (Inr evs)
      let ?t' = "(settle_task (task_now store w2) evs ?t1)\<lparr>tk_session_id := Some (task_session ?t1), tk_run_id := Some (tk_id ?t1)\<rparr>"
      have "snd (task_execute store runtime config t w) = snd (task_update store ?t' w2)"
        using \<open>r1 = Inr u\<close> Inr u1 run by (auto simp: task_execute_def Let_def split: sum.splits prod.splits)
      then show ?thesis using up [of ?t'] by (intro exI [of _ ?t']) simp
    qed
  qed
qed

lemma process_task_world:
  "snd (process_task store runtime config A C t w) =
     (if \<not> set (tk_depends_on t) \<subseteq> A then snd (task_update store (mark_failed (task_now store w) ''dependency task does not exist'' t) w)
      else if \<not> set (tk_depends_on t) \<subseteq> C then w
      else snd (task_execute store runtime config t w))"
  by (auto simp: process_task_def list_all_iff subset_iff split: sum.splits prod.splits)

lemma put_task_self: "distinct (map tk_id ts) \<Longrightarrow> t \<in> set ts \<Longrightarrow> put_task t ts = ts"
  by (auto simp: put_task_def distinct_map inj_on_def intro!: map_idI)

lemma process_puts:
  assumes "quiet runtime" and "distinct (map tk_id (tw_tasks w))" and "t \<in> set (tw_tasks w)"
  shows "\<exists>t'. tk_id t' = tk_id t \<and> tk_depends_on t' = tk_depends_on t \<and>
    tw_tasks (snd (process_task store runtime config A C t w)) = put_task t' (tw_tasks w)"
proof -
  consider "\<not> set (tk_depends_on t) \<subseteq> A" | "set (tk_depends_on t) \<subseteq> A" "\<not> set (tk_depends_on t) \<subseteq> C"
    | "set (tk_depends_on t) \<subseteq> A" "set (tk_depends_on t) \<subseteq> C" by blast
  then show ?thesis
  proof cases
    case 1
    then show ?thesis
      by (intro exI [of _ "mark_failed (task_now store w) ''dependency task does not exist'' t"])
        (simp add: process_task_world jl.update_tasks [OF assms(2)])
  next
    case 2
    then show ?thesis by (intro exI [of _ t]) (simp add: process_task_world put_task_self [OF assms(2,3)])
  next
    case 3
    then show ?thesis using execute_puts [OF assms(1,2), of t store config] by (simp add: process_task_world)
  qed
qed

subsection \<open>A store without faults\<close>

definition reliable :: "JsonlTaskStore \<Rightarrow> bool" where
  "reliable store \<longleftrightarrow> (\<forall>n call. js_faults store n call = None) \<and> (\<forall>t. \<exists>l. js_to_string store t = Inr l)"

lemma write_jsonl_total: "\<forall>x. \<exists>l. to_string x = Inr l \<Longrightarrow> \<exists>buf. write_jsonl to_string xs = Inr buf"
proof (induction xs)
  case (Cons x xs)
  then obtain l buf where "to_string x = Inr l" "write_jsonl to_string xs = Inr buf" by blast
  then show ?case by simp
qed simp

lemma reliable_save: "reliable store \<Longrightarrow> fst (tasks_save store w) = Inr ()"
  using write_jsonl_total [of "js_to_string store" "tw_tasks w"]
  by (auto simp: reliable_def tasks_save_def atomic_write_def fs_write_def fs_rename_def Let_def)

lemma reliable_update:
  assumes "reliable store" and "tk_id t \<in> tk_id ` set (tw_tasks w)"
  shows "fst (task_update store t w) = Inr ()"
proof (cases "position (\<lambda>s. tk_id s = tk_id t) (tw_tasks w)")
  case None
  then show ?thesis using assms(2) by (auto simp: position_None)
qed (simp add: task_update_def reliable_save [OF assms(1)])

text \<open>The runs of tasks: which ids succeed.\<close>

definition run_succeeds :: "(string, RunEvent list) result \<Rightarrow> bool" where
  "run_succeeds r \<longleftrightarrow> (\<exists>evs. r = Inr evs \<and> lifecycle_error evs = None)"

definition runs_as :: "AgentsConfig \<Rightarrow> task_runtime \<Rightarrow> (string \<Rightarrow> bool) \<Rightarrow> bool" where
  "runs_as config runtime succeeds \<longleftrightarrow>
     quiet runtime \<and> (\<forall>t w. run_succeeds (fst (runtime (task_request config t) w)) \<longleftrightarrow> succeeds (tk_id t))"

definition run_status :: "(string \<Rightarrow> bool) \<Rightarrow> Task \<Rightarrow> TaskStatus" where
  "run_status succeeds t = (if succeeds (tk_id t) then TaskCompleted else TaskFailed)"

lemma execute_status:
  assumes "reliable store" "runs_as config runtime succeeds" and d: "distinct (map tk_id (tw_tasks w))" and t: "t \<in> set (tw_tasks w)"
  shows "\<exists>t'. tk_id t' = tk_id t \<and> tk_depends_on t' = tk_depends_on t \<and> tk_status t' = run_status succeeds t \<and>
    tw_tasks (snd (task_execute store runtime config t w)) = put_task t' (tw_tasks w)"
proof -
  let ?t1 = "mark_running (task_now store w) t"
  have q: "quiet runtime" using assms(2) by (simp add: runs_as_def)
  obtain w1 where u1: "task_update store ?t1 w = (Inr (), w1)"
    using reliable_update [OF assms(1), of ?t1 w] t by (metis image_eqI marks_id(1) prod.collapse)
  have w1: "tw_tasks w1 = put_task ?t1 (tw_tasks w)" using jl.update_tasks [OF d, of store ?t1] u1 by simp
  obtain r2 w2 where run: "runtime (task_request config ?t1) w1 = (r2, w2)" by fastforce
  have w2: "tw_tasks w2 = put_task ?t1 (tw_tasks w)" using q run w1 unfolding quiet_def by (metis snd_conv)
  then have d2: "distinct (map tk_id (tw_tasks w2))" using d by simp
  have up: "tw_tasks (snd (task_update store t' w2)) = put_task t' (tw_tasks w)" if "tk_id t' = tk_id t" for t'
    using jl.update_tasks [OF d2, of store t'] that by (simp add: w2 put_task_twice)
  have ok: "run_succeeds r2 \<longleftrightarrow> succeeds (tk_id t)"
    using assms(2) run unfolding runs_as_def by (metis fst_conv marks_id(1))
  show ?thesis
  proof (cases r2)
    case (Inl e)
    let ?t' = "mark_failed (task_now store w2) e ?t1"
    have "snd (task_execute store runtime config t w) = snd (task_update store ?t' w2)"
      using Inl u1 run by (auto simp: task_execute_def Let_def split: sum.splits prod.splits)
    moreover have "tk_status ?t' = run_status succeeds t" using ok Inl by (simp add: run_status_def run_succeeds_def mark_failed_def)
    ultimately show ?thesis using up [of ?t'] by (intro exI [of _ ?t']) simp
  next
    case (Inr evs)
    let ?t' = "(settle_task (task_now store w2) evs ?t1)\<lparr>tk_session_id := Some (task_session ?t1), tk_run_id := Some (tk_id ?t1)\<rparr>"
    have "snd (task_execute store runtime config t w) = snd (task_update store ?t' w2)"
      using Inr u1 run by (auto simp: task_execute_def Let_def split: sum.splits prod.splits)
    moreover have "tk_status ?t' = run_status succeeds t" using ok Inr
      by (auto simp: run_status_def run_succeeds_def settle_task_def mark_failed_def mark_completed_def split: option.splits)
    ultimately show ?thesis using up [of ?t'] by (intro exI [of _ ?t']) simp
  qed
qed

text \<open>The abstract poll: what becomes of a task, given the ids that exist and the completed ones.\<close>

definition poll_status :: "(string \<Rightarrow> bool) \<Rightarrow> string set \<Rightarrow> string set \<Rightarrow> Task \<Rightarrow> TaskStatus" where
  "poll_status succeeds A C t =
     (if tk_status t \<noteq> TaskPending then tk_status t
      else if \<not> set (tk_depends_on t) \<subseteq> A then TaskFailed
      else if \<not> set (tk_depends_on t) \<subseteq> C then TaskPending
      else run_status succeeds t)"

lemma process_status:
  assumes "reliable store" "runs_as config runtime succeeds" and "distinct (map tk_id (tw_tasks w))"
    and "t \<in> set (tw_tasks w)" "tk_status t = TaskPending"
  shows "\<exists>t'. tk_id t' = tk_id t \<and> tk_depends_on t' = tk_depends_on t \<and> tk_status t' = poll_status succeeds A C t \<and>
    tw_tasks (snd (process_task store runtime config A C t w)) = put_task t' (tw_tasks w)"
proof -
  have f: "tk_status (mark_failed n e t) = TaskFailed" for n e by (simp add: mark_failed_def)
  consider "\<not> set (tk_depends_on t) \<subseteq> A" | "set (tk_depends_on t) \<subseteq> A" "\<not> set (tk_depends_on t) \<subseteq> C"
    | "set (tk_depends_on t) \<subseteq> A" "set (tk_depends_on t) \<subseteq> C" by blast
  then show ?thesis
  proof cases
    case 1
    then show ?thesis
      by (intro exI [of _ "mark_failed (task_now store w) ''dependency task does not exist'' t"])
        (simp add: process_task_world jl.update_tasks [OF assms(3)] poll_status_def f assms(5))
  next
    case 2
    then show ?thesis
      by (intro exI [of _ t]) (simp add: process_task_world put_task_self [OF assms(3,4)] poll_status_def assms(5))
  next
    case 3
    then show ?thesis using execute_status [OF assms(1-4)] assms(5) by (simp add: process_task_world poll_status_def)
  qed
qed

text \<open>A poll settles every pending task by its fate.\<close>

definition fate :: "(Task \<Rightarrow> TaskStatus) \<Rightarrow> Task \<Rightarrow> Task \<Rightarrow> bool" where
  "fate st t t' \<longleftrightarrow> tk_id t' = tk_id t \<and> tk_depends_on t' = tk_depends_on t \<and> tk_status t' = st t"

lemma put_task_rel:
  "distinct (map tk_id ts) \<Longrightarrow> t \<in> set ts \<Longrightarrow> fate st t t' \<Longrightarrow>
     list_all2 (\<lambda>s s'. if tk_id s = tk_id t then fate st s s' else s' = s) ts (put_task t' ts)"
  by (auto simp: put_task_def list_all2_conv_all_nth fate_def distinct_map inj_on_def)

lemma process_tasks_fates:
  assumes "reliable store" "runs_as config runtime succeeds"
  shows "distinct (map tk_id (tw_tasks w)) \<Longrightarrow> set pending \<subseteq> {t \<in> set (tw_tasks w). tk_status t = TaskPending} \<Longrightarrow>
    distinct (map tk_id pending) \<Longrightarrow>
    list_all2 (\<lambda>t t'. if t \<in> set pending then fate (poll_status succeeds A C) t t' else t' = t)
      (tw_tasks w) (tw_tasks (snd (process_tasks store runtime config A C pending w)))"
proof (induction pending arbitrary: w)
  case Nil
  then show ?case by (simp add: list_all2_same)
next
  case (Cons t pending)
  let ?w = "snd (process_task store runtime config A C t w)"
  have t: "t \<in> set (tw_tasks w)" "tk_status t = TaskPending" using Cons.prems(2) by auto
  obtain t' where t': "fate (poll_status succeeds A C) t t'" "tw_tasks ?w = put_task t' (tw_tasks w)"
    using process_status [OF assms Cons.prems(1) t] unfolding fate_def by blast
  have inj: "inj_on tk_id (set (tw_tasks w))" using Cons.prems(1) by (simp add: distinct_map)
  have first: "list_all2 (\<lambda>s s'. if tk_id s = tk_id t then fate (poll_status succeeds A C) s s' else s' = s) (tw_tasks w) (tw_tasks ?w)"
    unfolding t'(2) by (rule put_task_rel [OF Cons.prems(1) t(1) t'(1)])
  have "tk_id t \<notin> tk_id ` set pending" using Cons.prems(3) by simp
  then have out: "tk_id s \<noteq> tk_id t" if "s \<in> set pending" for s using that by (metis imageI)
  have "set pending \<subseteq> {s \<in> set (tw_tasks ?w). tk_status s = TaskPending}"
  proof
    fix s assume s: "s \<in> set pending"
    then have "s \<in> set (tw_tasks w)" "tk_status s = TaskPending" using Cons.prems(2) by auto
    then show "s \<in> {s \<in> set (tw_tasks ?w). tk_status s = TaskPending}"
      using out [OF s] t' by (simp add: put_task_other fate_def)
  qed
  moreover have "distinct (map tk_id (tw_tasks ?w))" using Cons.prems(1) t'(2) by simp
  ultimately have rest: "list_all2 (\<lambda>s s'. if s \<in> set pending then fate (poll_status succeeds A C) s s' else s' = s) (tw_tasks ?w)
      (tw_tasks (snd (process_tasks store runtime config A C pending ?w)))"
    using Cons.IH Cons.prems(3) by simp
  have step: "snd (process_tasks store runtime config A C (t # pending) w) = snd (process_tasks store runtime config A C pending ?w)"
    by (simp add: case_prod_beta Let_def)
  show ?case unfolding step
  proof (rule list_all2I)
    show "length (tw_tasks w) = length (tw_tasks (snd (process_tasks store runtime config A C pending ?w)))"
      using list_all2_lengthD [OF first] list_all2_lengthD [OF rest] by simp
    show "\<forall>x\<in>set (zip (tw_tasks w) (tw_tasks (snd (process_tasks store runtime config A C pending ?w)))).
        case_prod (\<lambda>s s'. if s \<in> set (t # pending) then fate (poll_status succeeds A C) s s' else s' = s) x"
    proof (clarify, simp only: set_zip mem_Collect_eq, clarify)
      fix i assume i: "i < min (length (tw_tasks w)) (length (tw_tasks (snd (process_tasks store runtime config A C pending ?w))))"
      let ?s = "tw_tasks w ! i" and ?m = "tw_tasks ?w ! i" and ?e = "tw_tasks (snd (process_tasks store runtime config A C pending ?w)) ! i"
      have m: "if tk_id ?s = tk_id t then fate (poll_status succeeds A C) ?s ?m else ?m = ?s"
        using list_all2_nthD [OF first] i by simp
      have e: "if ?m \<in> set pending then fate (poll_status succeeds A C) ?m ?e else ?e = ?m"
        using list_all2_nthD [OF rest] i list_all2_lengthD [OF first] by simp
      have "?s = t \<longleftrightarrow> tk_id ?s = tk_id t" using inj t(1) i by (auto simp: inj_on_def)
      then show "if ?s \<in> set (t # pending) then fate (poll_status succeeds A C) ?s ?e else ?e = ?s"
        using m e out by (auto simp: fate_def split: if_splits)
    qed
  qed
qed

definition ledger_ids :: "task_world \<Rightarrow> string set" where
  "ledger_ids w = tk_id ` set (tw_tasks w)"

definition completed_ids :: "task_world \<Rightarrow> string set" where
  "completed_ids w = tk_id ` {t \<in> set (tw_tasks w). tk_status t = TaskCompleted}"

lemma list_all2_mono_in:
  "list_all2 P xs ys \<Longrightarrow> (\<And>x y. x \<in> set xs \<Longrightarrow> P x y \<Longrightarrow> Q x y) \<Longrightarrow> list_all2 Q xs ys"
  by (simp add: list_all2_conv_all_nth)

lemma poll_fates:
  assumes "reliable store" "runs_as config runtime succeeds" and d: "distinct (map tk_id (tw_tasks w))"
  shows "list_all2 (fate (poll_status succeeds (ledger_ids w) (completed_ids w))) (tw_tasks w)
    (tw_tasks (snd (process_pending store runtime config w)))"
proof -
  have p: "set (list_pending w) = {t \<in> set (tw_tasks w). tk_status t = TaskPending}" by (auto simp: list_pending_def)
  have "distinct (map tk_id (list_pending w))" using d by (simp add: list_pending_def distinct_map inj_on_def)
  from process_tasks_fates [OF assms(1,2) d equalityD1 [OF p] this, of "ledger_ids w" "completed_ids w"]
  show ?thesis
    unfolding process_pending_def task_list_def set_rev ledger_ids_def [symmetric] completed_ids_def [symmetric]
    by (rule list_all2_mono_in) (auto simp: p fate_def poll_status_def)
qed

lemma fates_map: "list_all2 (fate st) ts ts' \<Longrightarrow>
    map tk_id ts' = map tk_id ts \<and> map tk_depends_on ts' = map tk_depends_on ts \<and> map tk_status ts' = map st ts"
  by (induction ts ts' rule: list_all2_induct) (auto simp: fate_def)

text \<open>A poll of the task runner refines the abstract poll. With a store that does not fail, runs that
  leave the ledger alone and distinct ids, one poll leaves every task that is not pending alone, fails a
  pending task that depends on an unknown task, leaves one pending whose dependencies are not all
  completed, and runs every other pending task to its outcome, whatever the order of creation; ids and
  dependencies never change.
\<close>

theorem poll_refines:
  assumes "reliable store" and "runs_as config runtime succeeds" and "distinct (map tk_id (tw_tasks w))"
  shows "map (\<lambda>t. (tk_id t, tk_depends_on t, tk_status t)) (tw_tasks (snd (process_pending store runtime config w))) =
    map (\<lambda>t. (tk_id t, tk_depends_on t, poll_status succeeds (ledger_ids w) (completed_ids w) t)) (tw_tasks w)"
  using poll_fates [OF assms] by (induction rule: list_all2_induct) (auto simp: fate_def)

text \<open>The state in which every task is pending or completed and depends on tasks of the ledger.\<close>

definition runnable :: "task_world \<Rightarrow> bool" where
  "runnable w \<longleftrightarrow> distinct (map tk_id (tw_tasks w)) \<and>
     (\<forall>t\<in>set (tw_tasks w). tk_status t \<in> {TaskPending, TaskCompleted} \<and> set (tk_depends_on t) \<subseteq> ledger_ids w)"

definition task_order :: "task_world \<Rightarrow> (string \<times> string) set" where
  "task_order w = {(d, tk_id t) | d t. t \<in> set (tw_tasks w) \<and> d \<in> set (tk_depends_on t)}"

lemma fates_order:
  assumes "list_all2 (fate st) (tw_tasks w) (tw_tasks w')"
  shows "ledger_ids w' = ledger_ids w" and "task_order w' = task_order w"
proof -
  have "list_all2 (\<lambda>t t'. (tk_id t', tk_depends_on t') = (tk_id t, tk_depends_on t)) (tw_tasks w) (tw_tasks w')"
    using assms by (rule list_all2_mono) (simp add: fate_def)
  then have m: "map (\<lambda>t. (tk_id t, tk_depends_on t)) (tw_tasks w') = map (\<lambda>t. (tk_id t, tk_depends_on t)) (tw_tasks w)"
    by (induction rule: list_all2_induct) auto
  have order: "task_order w = (\<Union>(i, ds)\<in>set (map (\<lambda>t. (tk_id t, tk_depends_on t)) (tw_tasks w)). {(d, i) | d. d \<in> set ds})" for w
    by (auto simp: task_order_def)
  show "task_order w' = task_order w" by (simp only: order m)
  show "ledger_ids w' = ledger_ids w" using fates_map [OF assms] unfolding ledger_ids_def by (metis set_map)
qed

lemma finite_task_order [simp]: "finite (task_order w)"
proof -
  have "task_order w \<subseteq> (\<Union>t\<in>set (tw_tasks w). (\<lambda>d. (d, tk_id t)) ` set (tk_depends_on t))" by (auto simp: task_order_def)
  then show ?thesis by (rule finite_subset) simp
qed

text \<open>While something is pending a poll completes at least one task.\<close>

lemma poll_progress:
  assumes "reliable store" "runs_as config runtime (\<lambda>_. True)" "runnable w" "acyclic (task_order w)"
  defines "w' \<equiv> snd (process_pending store runtime config w)"
  shows "runnable w' \<and> task_order w' = task_order w \<and> ledger_ids w' = ledger_ids w \<and> completed_ids w \<subseteq> completed_ids w' \<and>
    (completed_ids w = ledger_ids w \<or> completed_ids w \<subset> completed_ids w')"
proof -
  have d: "distinct (map tk_id (tw_tasks w))" using assms(3) by (simp add: runnable_def)
  let ?st = "poll_status (\<lambda>_. True) (ledger_ids w) (completed_ids w)"
  note fates = poll_fates [OF assms(1,2) d, folded w'_def]
  have nth: "fate ?st (tw_tasks w ! i) (tw_tasks w' ! i)" if "i < length (tw_tasks w)" for i
    using list_all2_nthD [OF fates that] .
  have len: "length (tw_tasks w') = length (tw_tasks w)" using list_all2_lengthD [OF fates] by simp
  have st: "tk_status t \<in> {TaskPending, TaskCompleted}" "set (tk_depends_on t) \<subseteq> ledger_ids w" if "t \<in> set (tw_tasks w)" for t
    using assms(3) that by (auto simp: runnable_def)
  have "tk_status t' \<in> {TaskPending, TaskCompleted} \<and> set (tk_depends_on t') \<subseteq> ledger_ids w'" if t': "t' \<in> set (tw_tasks w')" for t'
  proof -
    obtain i where i: "i < length (tw_tasks w)" "t' = tw_tasks w' ! i" using t' len by (metis in_set_conv_nth)
    then show ?thesis using nth [OF i(1)] st [OF nth_mem [OF i(1)]] fates_order(1) [OF fates]
      by (auto simp: fate_def poll_status_def run_status_def split: if_splits)
  qed
  moreover have "distinct (map tk_id (tw_tasks w'))" using fates_map [OF fates] d by simp
  ultimately have run: "runnable w'" by (simp add: runnable_def)
  have done_: "tk_id t \<in> completed_ids w'" if t: "t \<in> set (tw_tasks w)" "?st t = TaskCompleted" for t
  proof -
    obtain i where i: "i < length (tw_tasks w)" "t = tw_tasks w ! i" using t(1) by (metis in_set_conv_nth)
    then have "tk_id (tw_tasks w' ! i) = tk_id t" "tk_status (tw_tasks w' ! i) = TaskCompleted" using nth [OF i(1)] t(2) by (auto simp: fate_def)
    moreover have "tw_tasks w' ! i \<in> set (tw_tasks w')" using i len by simp
    ultimately show ?thesis unfolding completed_ids_def by (metis (mono_tags, lifting) image_eqI mem_Collect_eq)
  qed
  have mono: "completed_ids w \<subseteq> completed_ids w'"
    using done_ by (auto simp: completed_ids_def [of w] poll_status_def)
  have "completed_ids w \<subset> completed_ids w'" if "completed_ids w \<noteq> ledger_ids w"
  proof -
    have "wf (task_order w)" using assms(4) by (simp add: finite_acyclic_wf)
    moreover have "ledger_ids w - completed_ids w \<noteq> {}" using that by (auto simp: completed_ids_def ledger_ids_def)
    ultimately obtain n where n: "n \<in> ledger_ids w - completed_ids w" "\<And>m. (m, n) \<in> task_order w \<Longrightarrow> m \<notin> ledger_ids w - completed_ids w"
      by (meson ex_in_conv wfE_min)
    then obtain t where t: "t \<in> set (tw_tasks w)" "n = tk_id t" by (auto simp: ledger_ids_def)
    have "set (tk_depends_on t) \<subseteq> completed_ids w" using n(2) t st(2) [OF t(1)] by (auto simp: task_order_def)
    then have "?st t = TaskCompleted" using st [OF t(1)] by (auto simp: poll_status_def run_status_def)
    then show ?thesis using done_ [OF t(1)] n(1) t(2) mono by blast
  qed
  then show ?thesis using run mono fates_order [OF fates] by blast
qed

lemma polls_complete:
  assumes "reliable store" "runs_as config runtime (\<lambda>_. True)"
  shows "runnable w \<Longrightarrow> acyclic (task_order w) \<Longrightarrow> card (ledger_ids w - completed_ids w) \<le> n \<Longrightarrow>
    runnable (background_polls store runtime config n w) \<and>
    ledger_ids (background_polls store runtime config n w) = ledger_ids w \<and>
    completed_ids (background_polls store runtime config n w) = ledger_ids w"
proof (induction n arbitrary: w)
  case 0
  have "completed_ids w \<subseteq> ledger_ids w" by (auto simp: completed_ids_def ledger_ids_def)
  moreover have "finite (ledger_ids w)" by (simp add: ledger_ids_def)
  ultimately show ?case using 0 by auto
next
  case (Suc n)
  let ?w = "snd (process_pending store runtime config w)"
  note poll = poll_progress [OF assms Suc.prems(1,2)]
  have fin: "finite (ledger_ids w)" by (simp add: ledger_ids_def)
  have sub: "completed_ids ?w \<subseteq> ledger_ids ?w" by (auto simp: completed_ids_def ledger_ids_def)
  have "card (ledger_ids ?w - completed_ids ?w) \<le> n"
  proof (cases "completed_ids w = ledger_ids w")
    case True
    then show ?thesis using poll sub by auto
  next
    case False
    then have more: "completed_ids w \<subset> completed_ids ?w" using poll by blast
    have "completed_ids ?w \<subseteq> ledger_ids w" using sub poll by simp
    with more have "ledger_ids w - completed_ids ?w \<subset> ledger_ids w - completed_ids w" by blast
    then have "card (ledger_ids w - completed_ids ?w) < card (ledger_ids w - completed_ids w)"
      using fin by (intro psubset_card_mono) auto
    then show ?thesis using Suc.prems(3) poll by simp
  qed
  then show ?case using Suc.IH [of ?w] poll Suc.prems(2) by simp
qed

text \<open>The background loop works a ledger off. When the store does not fail, every run succeeds, each task
  is pending or completed and depends only on tasks of the ledger, and the dependencies have no cycle,
  then after as many polls as there are tasks every task is completed.
\<close>

theorem background_loop_completes:
  assumes "reliable store" and "runs_as config runtime (\<lambda>_. True)" and "runnable w" and "acyclic (task_order w)"
  shows "\<forall>t\<in>set (tw_tasks (background_polls store runtime config (length (tw_tasks w)) w)). tk_status t = TaskCompleted"
proof -
  let ?w = "background_polls store runtime config (length (tw_tasks w)) w"
  have "card (ledger_ids w - completed_ids w) \<le> card (ledger_ids w)" by (simp add: ledger_ids_def card_mono)
  also have "\<dots> \<le> length (tw_tasks w)" using card_length [of "map tk_id (tw_tasks w)"] by (simp add: ledger_ids_def)
  finally have "runnable ?w" "completed_ids ?w = ledger_ids ?w"
    using polls_complete [OF assms(1-4)] by auto
  then show ?thesis by (auto simp: runnable_def completed_ids_def ledger_ids_def distinct_map inj_on_def image_iff)
qed

text \<open>A poll starts only what is ready: its outcome does not depend on what the runtime would do for any
  request other than those of tasks that were pending, and whose dependencies all existed and were
  completed, when the poll began. This holds whatever the runs do to the ledger and whatever fails.
\<close>

definition ready_tasks :: "task_world \<Rightarrow> Task set" where
  "ready_tasks w = {t \<in> set (tw_tasks w). tk_status t = TaskPending \<and> set (tk_depends_on t) \<subseteq> ledger_ids w \<inter> completed_ids w}"

lemma task_request_running [simp]: "task_request config (mark_running n t) = task_request config t"
  by (simp add: task_request_def task_session_def session_key_for_task_def mark_running_def)

lemma execute_cong:
  assumes "rt (task_request config t) = rt' (task_request config t)"
  shows "task_execute store rt config t w = task_execute store rt' config t w"
  unfolding task_execute_def Let_def task_request_running assms ..

lemma process_tasks_cong:
  "\<forall>t\<in>set pending. set (tk_depends_on t) \<subseteq> A \<inter> C \<longrightarrow> (\<forall>w. rt (task_request config t) w = rt' (task_request config t) w) \<Longrightarrow>
     process_tasks store rt config A C pending w = process_tasks store rt' config A C pending w"
proof (induction pending arbitrary: w)
  case (Cons t pending)
  have "process_task store rt config A C t w = process_task store rt' config A C t w" for w
  proof (cases "set (tk_depends_on t) \<subseteq> A \<inter> C")
    case True
    then have "rt (task_request config t) = rt' (task_request config t)" using Cons.prems by auto
    from execute_cong [of rt config t rt', OF this] show ?thesis by (simp add: process_task_def)
  qed (auto simp: process_task_def list_all_iff subset_iff)
  with Cons show ?case by simp
qed simp

theorem poll_runs_only_ready:
  assumes "\<forall>t\<in>ready_tasks w. \<forall>w'. runtime (task_request config t) w' = runtime' (task_request config t) w'"
  shows "process_pending store runtime config w = process_pending store runtime' config w"
  unfolding process_pending_def
  by (rule process_tasks_cong)
    (use assms in \<open>auto simp: ready_tasks_def list_pending_def task_list_def ledger_ids_def completed_ids_def\<close>)

text \<open>A task that depends on a failed task waits for ever: however many polls follow, and whatever the
  file system does, it stays pending, as long as the runs leave the ledger alone.
\<close>

lemma process_tasks_keeps:
  assumes "quiet runtime"
  shows "distinct (map tk_id (tw_tasks w)) \<Longrightarrow> set pending \<subseteq> set (tw_tasks w) \<Longrightarrow> distinct (map tk_id pending) \<Longrightarrow>
     s \<in> set (tw_tasks w) \<Longrightarrow> s \<notin> set pending \<or> \<not> set (tk_depends_on s) \<subseteq> C \<and> set (tk_depends_on s) \<subseteq> A \<Longrightarrow>
     s \<in> set (tw_tasks (snd (process_tasks store runtime config A C pending w))) \<and>
     map tk_id (tw_tasks (snd (process_tasks store runtime config A C pending w))) = map tk_id (tw_tasks w)"
proof (induction pending arbitrary: w)
  case (Cons t pending)
  let ?w = "snd (process_task store runtime config A C t w)"
  have t: "t \<in> set (tw_tasks w)" using Cons.prems(2) by simp
  obtain t' where t': "tk_id t' = tk_id t" "tw_tasks ?w = put_task t' (tw_tasks w)"
    using process_puts [OF assms Cons.prems(1) t] by blast
  have ids: "map tk_id (tw_tasks ?w) = map tk_id (tw_tasks w)" by (simp add: t'(2))
  have inj: "inj_on tk_id (set (tw_tasks w))" using Cons.prems(1) by (simp add: distinct_map)
  have out: "u \<in> set (tw_tasks ?w)" if "u \<in> set (tw_tasks w)" "u \<noteq> t" for u
    using that t inj by (auto simp: t' inj_on_def intro: put_task_other)
  have "s \<in> set (tw_tasks ?w)"
  proof (cases "s = t")
    case True
    then have "?w = w" using Cons.prems(5) by (auto simp: process_task_world)
    then show ?thesis using Cons.prems(4) by simp
  qed (rule out [OF Cons.prems(4)])
  moreover have "set pending \<subseteq> set (tw_tasks ?w)" using Cons.prems(2,3) out by auto
  moreover have "distinct (map tk_id (tw_tasks ?w))" "distinct (map tk_id pending)" using Cons.prems(1,3) ids by auto
  ultimately show ?case using Cons.IH [of ?w] Cons.prems(5) ids by (auto simp: case_prod_beta Let_def)
qed simp

lemma poll_keeps:
  assumes "quiet runtime" and d: "distinct (map tk_id (tw_tasks w))" and "s \<in> set (tw_tasks w)"
    and "tk_status s \<noteq> TaskPending \<or> \<not> set (tk_depends_on s) \<subseteq> completed_ids w \<and> set (tk_depends_on s) \<subseteq> ledger_ids w"
  shows "s \<in> set (tw_tasks (snd (process_pending store runtime config w))) \<and>
    map tk_id (tw_tasks (snd (process_pending store runtime config w))) = map tk_id (tw_tasks w)"
proof -
  have "distinct (map tk_id (list_pending w))" using d by (simp add: list_pending_def distinct_map inj_on_def)
  moreover have "set (list_pending w) \<subseteq> set (tw_tasks w)" by (auto simp: list_pending_def)
  moreover have "s \<notin> set (list_pending w) \<or> \<not> set (tk_depends_on s) \<subseteq> completed_ids w \<and> set (tk_depends_on s) \<subseteq> ledger_ids w"
    using assms(4) by (auto simp: list_pending_def)
  ultimately show ?thesis
    using process_tasks_keeps [OF assms(1) d, of "list_pending w" s "completed_ids w" "ledger_ids w"] assms(3)
    unfolding process_pending_def task_list_def set_rev ledger_ids_def [symmetric] completed_ids_def [symmetric] by blast
qed

theorem failed_dependency_blocks_forever:
  assumes "quiet runtime" and "distinct (map tk_id (tw_tasks w))"
    and "t \<in> set (tw_tasks w)" "tk_status t = TaskPending" "set (tk_depends_on t) \<subseteq> ledger_ids w"
    and "f \<in> set (tw_tasks w)" "tk_status f = TaskFailed" "tk_id f \<in> set (tk_depends_on t)"
  shows "t \<in> set (tw_tasks (background_polls store runtime config n w))"
  using assms
proof (induction n arbitrary: w)
  case (Suc n)
  let ?w = "snd (process_pending store runtime config w)"
  have "tk_id f \<notin> completed_ids w"
    using Suc.prems(2,6,7) by (auto simp: completed_ids_def distinct_map inj_on_def)
  then have t: "t \<in> set (tw_tasks ?w)" and ids: "map tk_id (tw_tasks ?w) = map tk_id (tw_tasks w)"
    using poll_keeps [OF Suc.prems(1,2,3)] Suc.prems(5,8) by auto
  have f: "f \<in> set (tw_tasks ?w)" using poll_keeps [OF Suc.prems(1,2,6)] Suc.prems(7) by simp
  have "ledger_ids ?w = ledger_ids w" using ids unfolding ledger_ids_def by (metis set_map)
  then show ?case using Suc.IH [OF Suc.prems(1) _ t Suc.prems(4) _ f Suc.prems(7,8)] Suc.prems(2,5) ids by simp
qed simp

subsection \<open>Persistence\<close>

text \<open>What serialization promises: a task is written as one non-blank line of UTF-8 and read back.\<close>

definition faithful_json :: "('a \<Rightarrow> (string, string) result) \<Rightarrow> (string \<Rightarrow> 'a option) \<Rightarrow> (string \<Rightarrow> bool) \<Rightarrow> bool" where
  "faithful_json to_string from_str utf8 \<longleftrightarrow>
     (\<forall>x l. to_string x = Inr l \<longrightarrow> plain_line l \<and> trim_str l \<noteq> [] \<and> utf8 l \<and> from_str l = Some x)"

lemma write_jsonl_lines:
  "faithful_json to_string from_str utf8 \<Longrightarrow> write_jsonl to_string xs = Inr buf \<Longrightarrow>
     \<exists>ls. buf = text_of ls \<and> list_all2 (\<lambda>x l. to_string x = Inr l) xs ls"
proof (induction xs arbitrary: buf)
  case (Cons x xs)
  then obtain l rest where l: "to_string x = Inr l" "write_jsonl to_string xs = Inr rest" "buf = l @ LF # rest" by auto
  obtain ls where "rest = text_of ls" "list_all2 (\<lambda>x l. to_string x = Inr l) xs ls" using Cons.IH [OF Cons.prems(1) l(2)] by blast
  then show ?case using l by (intro exI [of _ "l # ls"]) (simp add: text_of_def)
qed (simp add: text_of_def)

lemma jsonl_roundtrip:
  assumes "faithful_json to_string from_str utf8" and "write_jsonl to_string xs = Inr buf"
  shows "read_jsonl utf8 from_str buf = xs"
proof -
  obtain ls where ls: "buf = text_of ls" "list_all2 (\<lambda>x l. to_string x = Inr l) xs ls" using write_jsonl_lines [OF assms] by blast
  have good: "list_all2 (\<lambda>x l. plain_line l \<and> trim_str l \<noteq> [] \<and> utf8 l \<and> from_str l = Some x) xs ls"
    using ls(2) by (rule list_all2_mono) (use assms(1) in \<open>auto simp: faithful_json_def\<close>)
  have "\<forall>l\<in>set ls. plain_line l" using good by (induction rule: list_all2_induct) auto
  then have "str_lines buf = ls" by (simp add: ls(1) str_lines_text_of)
  moreover have "takeWhile utf8 ls = ls" "filter (\<lambda>l. trim_str l \<noteq> []) ls = ls" "List.map_filter from_str ls = xs"
    using good by (induction rule: list_all2_induct) auto
  ultimately show ?thesis by (simp only: read_jsonl_def)
qed

text \<open>What the ledger writes it reads back: after a create or an update that reports success, opening the
  file again gives exactly the tasks held in memory, in their order.
\<close>

theorem ledger_reopens:
  assumes "faithful_json (js_to_string store) (js_from_str store) (js_utf8 store)"
    and "task_create store t w = (Inr u, w') \<or> task_update store t w = (Inr u, w')"
    and "\<forall>call. faults call = None"
  shows "tasks_open store faults (tw_files w') = Inr \<lparr>tw_tasks = tw_tasks w', tw_files = tw_files w', tw_calls = 0\<rparr>"
proof -
  obtain w0 where "tasks_save store w0 = (Inr u, w')"
    using assms(2) by (auto simp: task_create_def task_update_def split: option.splits)
  then obtain buf fs where buf: "write_jsonl (js_to_string store) (tw_tasks w') = Inr buf"
    and fs: "atomic_write (js_faults store (tw_calls w0)) (js_stamp store (tw_calls w0)) (js_path store) buf (tw_files w0) = (Inr u, fs)"
    "tw_files w' = fs"
    by (auto simp: tasks_save_def split: sum.splits prod.splits)
  have "fs_exists (js_path store) (tw_files w') \<and> fs_read faults (js_path store) (tw_files w') = Inr buf"
    using atomic_write_read [OF fs(1), of faults] assms(3) fs(2) by simp
  then have "tasks_load store faults (tw_files w') = Inr (tw_tasks w')"
    by (simp add: tasks_load_def jsonl_roundtrip [OF assms(1) buf])
  then show ?thesis using assms(3) by (simp add: tasks_open_def fs_create_dir_all_def)
qed

subsection \<open>Instances\<close>

definition demo_task :: "string \<Rightarrow> TaskStatus \<Rightarrow> string list \<Rightarrow> Task" where
  "demo_task tid status deps = (Task_new tid TaskCli ''main'' 0)\<lparr>tk_status := status, tk_depends_on := deps\<rparr>"

definition demo_task_store :: JsonlTaskStore where
  "demo_task_store = \<lparr>js_path = [Normal ''tasks.jsonl''], js_to_string = (\<lambda>t. Inr (tk_id t)), js_from_str = (\<lambda>_. None),
     js_utf8 = (\<lambda>_. True), js_faults = (\<lambda>_ _. None), js_stamp = (\<lambda>n. (n, n)), js_now = (\<lambda>n. n)\<rparr>"

definition demo_ledger :: "TaskStatus \<Rightarrow> task_world" where
  "demo_ledger status = \<lparr>tw_tasks = [demo_task ''a'' status [], demo_task ''b'' TaskPending [''a'']], tw_files = Map.empty, tw_calls = 0\<rparr>"

definition demo_runtime :: task_runtime where
  "demo_runtime req w = (Inr [], w)"

definition no_agents :: AgentsConfig where
  "no_agents = \<lparr>as_default_model = None, as_list = []\<rparr>"

lemma demo_reliable: "reliable demo_task_store"
  by (simp add: reliable_def demo_task_store_def)

lemma demo_tasks_run: "runs_as no_agents demo_runtime (\<lambda>_. True)" "quiet demo_runtime"
  by (simp_all add: runs_as_def quiet_def demo_runtime_def run_succeeds_def)

lemma demo_distinct: "distinct (map tk_id (tw_tasks (demo_ledger status)))"
  by (simp add: demo_ledger_def demo_task_def Task_new_def)

lemma demo_runnable: "runnable (demo_ledger TaskPending)"
  by (simp add: runnable_def demo_distinct ledger_ids_def) (simp add: demo_ledger_def demo_task_def Task_new_def)

lemma demo_acyclic: "acyclic (task_order (demo_ledger status))"
proof -
  have "task_order (demo_ledger status) \<subseteq> measure (\<lambda>n. if n = ''b'' then 1 else 0)"
    by (auto simp: task_order_def demo_ledger_def demo_task_def Task_new_def)
  then show ?thesis by (meson wf_acyclic wf_measure wf_subset)
qed

theorem poll_refines_witness:
  "map (\<lambda>t. (tk_id t, tk_depends_on t, tk_status t)) (tw_tasks (snd (process_pending demo_task_store demo_runtime no_agents (demo_ledger TaskPending)))) =
    map (\<lambda>t. (tk_id t, tk_depends_on t, poll_status (\<lambda>_. True) (ledger_ids (demo_ledger TaskPending)) (completed_ids (demo_ledger TaskPending)) t))
      (tw_tasks (demo_ledger TaskPending))"
  by (rule poll_refines [OF demo_reliable demo_tasks_run(1) demo_distinct])

theorem background_loop_completes_witness:
  "list_all (\<lambda>t. tk_status t = TaskCompleted)
     (tw_tasks (background_polls demo_task_store demo_runtime no_agents (length (tw_tasks (demo_ledger TaskPending))) (demo_ledger TaskPending)))"
  unfolding list_all_iff by (rule background_loop_completes [OF demo_reliable demo_tasks_run(1) demo_runnable demo_acyclic])

theorem poll_runs_only_ready_witness:
  "process_pending demo_task_store demo_runtime no_agents (demo_ledger TaskFailed) =
   process_pending demo_task_store (\<lambda>_ w. (Inl ''down'', w)) no_agents (demo_ledger TaskFailed)"
  by (rule poll_runs_only_ready) (auto simp: ready_tasks_def completed_ids_def demo_ledger_def demo_task_def Task_new_def)

theorem failed_dependency_blocks_forever_witness:
  "demo_task ''b'' TaskPending [''a''] \<in> set (tw_tasks (background_polls demo_task_store demo_runtime no_agents 7 (demo_ledger TaskFailed)))"
  by (rule failed_dependency_blocks_forever [OF demo_tasks_run(2) demo_distinct, where f = "demo_task ''a'' TaskFailed []"])
    (simp_all add: demo_ledger_def demo_task_def Task_new_def ledger_ids_def)

definition demo_file_store :: JsonlTaskStore where
  "demo_file_store = demo_task_store\<lparr>js_to_string := (\<lambda>t. if t = demo_task ''a'' TaskPending [] then Inr ''a'' else Inl ''no''),
     js_from_str := (\<lambda>l. if l = ''a'' then Some (demo_task ''a'' TaskPending []) else None)\<rparr>"

theorem ledger_reopens_witness:
  "tasks_open demo_file_store (\<lambda>_. None) (tw_files (snd (task_create demo_file_store (demo_task ''a'' TaskPending [])
      \<lparr>tw_tasks = [], tw_files = Map.empty, tw_calls = 0\<rparr>))) =
     Inr \<lparr>tw_tasks = [demo_task ''a'' TaskPending []],
       tw_files = tw_files (snd (task_create demo_file_store (demo_task ''a'' TaskPending []) \<lparr>tw_tasks = [], tw_files = Map.empty, tw_calls = 0\<rparr>)),
       tw_calls = 0\<rparr>"
proof -
  let ?w = "\<lparr>tw_tasks = [], tw_files = Map.empty, tw_calls = 0\<rparr> :: task_world" and ?t = "demo_task ''a'' TaskPending []"
  have json: "faithful_json (js_to_string demo_file_store) (js_from_str demo_file_store) (js_utf8 demo_file_store)"
    by (auto simp: faithful_json_def demo_file_store_def demo_task_store_def plain_line_def LF_def CR_def trim_str_Nil_iff is_whitespace_def)
  have tasks: "tw_tasks (snd (task_create demo_file_store ?t ?w)) = [?t]" by (simp add: task_create_def)
  have "fst (task_create demo_file_store ?t ?w) = Inr ()"
    by (simp add: task_create_def tasks_save_def demo_file_store_def demo_task_store_def atomic_write_def fs_write_def fs_rename_def Let_def)
  then have "task_create demo_file_store ?t ?w = (Inr (), snd (task_create demo_file_store ?t ?w))" by (metis prod.collapse)
  from ledger_reopens [OF json disjI1 [OF this], of "\<lambda>_. None"] show ?thesis by (simp add: tasks)
qed

end
