(* ===== verification/Cron.thy ===== *)
theory Cron
  imports Task_Ledger Tool_Policy "HOL-Library.Multiset"
begin

unbundle bit_operations_syntax

text \<open>The cron scheduler (\<^verbatim>\<open>legion-automation/src/cron.rs\<close>, \<^verbatim>\<open>job_id.rs\<close>), its webhook
  (\<^verbatim>\<open>legion-gateway/src/http.rs\<close>) and the scheduler tools (\<^verbatim>\<open>legion-tools/src/scheduler.rs\<close>).
  Cron expressions are those of the \<open>cron\<close> crate: whether one parses and its next occurrence after
  an instant are parameters, as are HMAC-SHA256, the parser of date-times and the order in which a
  hash map is iterated. Instants are nanoseconds.
\<close>

subsection \<open>Jobs\<close>

record CronJob =
  cj_id :: string
  cj_agent_id :: string
  cj_message :: string
  cj_name :: string
  cj_schedule :: string
  cj_at :: "nat option"
  cj_enabled :: bool
  cj_created_at :: nat
  cj_next_run :: "nat option"
  cj_last_run :: "nat option"
  cj_webhook_secret :: "string option"

datatype CronError =
    InvalidExpression string
  | CronNotFound string
  | DuplicateId string
  | AlreadyRunning string
  | CronTaskStore TaskStoreError
  | CronIo io_error
  | CronJson string
  | CronRuntime string

text \<open>\<open>ce_parse\<close> is \<open>Schedule::from_str\<close> and \<open>ce_next\<close> the first occurrence of a schedule after an
  instant. \<open>ce_iter\<close> is the order in which the map of jobs is iterated.\<close>

record cron_env =
  ce_parse :: "string \<Rightarrow> (string, unit) result"
  ce_next :: "string \<Rightarrow> nat \<Rightarrow> nat option"
  ce_iter :: "CronJob list \<Rightarrow> CronJob list"
  ce_path :: path
  ce_to_string :: "CronJob \<Rightarrow> (string, string) result"
  ce_from_str :: "string \<Rightarrow> CronJob option"
  ce_ledger :: JsonlTaskStore
  ce_config :: AgentsConfig
  ce_sink :: bool
  ce_gate :: "nat option"

text \<open>The jobs are a map from ids, kept as a list with distinct ids. \<open>cw_sunk\<close> is what the event
  sink has been given and \<open>cw_counter\<close> the process-wide counter of job ids.\<close>

record cron_world =
  cw_jobs :: "CronJob list"
  cw_ledger :: task_world
  cw_in_flight :: "string set"
  cw_sunk :: "(string \<times> RunEvent) list"
  cw_counter :: nat

definition cron_now :: "cron_env \<Rightarrow> cron_world \<Rightarrow> nat" where
  "cron_now env w = task_now (ce_ledger env) (cw_ledger w)"

definition normalize_cron_expression :: "string \<Rightarrow> (CronError, string) result" where
  "normalize_cron_expression expression =
     (let trimmed = trim_str expression; field_count = length (split_whitespace trimmed)
      in if field_count = 5 then Inr (''0 '' @ trimmed)
         else if field_count = 6 then Inr trimmed
         else Inl (InvalidExpression (''cron expression must have 5 or 6 fields, got '' @ show_nat field_count)))"

definition compute_next_run :: "cron_env \<Rightarrow> CronJob \<Rightarrow> nat \<Rightarrow> nat option" where
  "compute_next_run env job after =
     (if cj_schedule job = ''__at__''
      then Option.bind (cj_at job) (\<lambda>t. if t > after then Some t else None)
      else case normalize_cron_expression (cj_schedule job) of
             Inl _ \<Rightarrow> None
           | Inr normalized \<Rightarrow> (case ce_parse env normalized of Inl _ \<Rightarrow> None | Inr _ \<Rightarrow> ce_next env normalized after))"

definition refresh_next_run :: "cron_env \<Rightarrow> nat \<Rightarrow> CronJob \<Rightarrow> CronJob" where
  "refresh_next_run env now job = job\<lparr>cj_next_run := compute_next_run env job now\<rparr>"

definition is_one_shot :: "CronJob \<Rightarrow> bool" where
  "is_one_shot job \<longleftrightarrow> cj_schedule job = ''__at__''"

definition validate_cron :: "cron_env \<Rightarrow> string \<Rightarrow> (CronError, unit) result" where
  "validate_cron env expression =
     bind_result (normalize_cron_expression expression) (\<lambda>normalized.
       case ce_parse env normalized of Inl e \<Rightarrow> Inl (InvalidExpression e) | Inr u \<Rightarrow> Inr ())"

definition MINUTE :: nat where
  "MINUTE = 60 * 10 ^ 9"

definition validate_at :: "nat \<Rightarrow> nat \<Rightarrow> (CronError, unit) result" where
  "validate_at now at =
     (if at < now - MINUTE then Inl (InvalidExpression ''one-shot time is in the past'') else Inr ())"

subsection \<open>The store of jobs\<close>

definition put_job :: "CronJob \<Rightarrow> CronJob list \<Rightarrow> CronJob list" where
  "put_job job jobs =
     (if cj_id job \<in> cj_id ` set jobs then map (\<lambda>j. if cj_id j = cj_id job then job else j) jobs else jobs @ [job])"

definition cron_load :: "cron_env \<Rightarrow> faults \<Rightarrow> files \<Rightarrow> (CronError, CronJob list) result" where
  "cron_load env faults fs =
     (if \<not> fs_exists (ce_path env) fs then Inr []
      else case fs_read faults (ce_path env) fs of
             Inl e \<Rightarrow> Inl (CronIo e)
           | Inr content \<Rightarrow> Inr (foldl (\<lambda>jobs j. put_job j jobs) []
               (read_jsonl (js_utf8 (ce_ledger env)) (ce_from_str env) content)))"

text \<open>A live handle of the same path shares its map; otherwise the file is read.\<close>

definition cron_open :: "cron_env \<Rightarrow> faults \<Rightarrow> CronJob list option \<Rightarrow> files \<Rightarrow> (CronError, CronJob list) result" where
  "cron_open env faults cached fs =
     (case (if ce_path env = [] then Inr () else fs_create_dir_all faults (butlast (ce_path env))) of
        Inl e \<Rightarrow> Inl (CronIo e)
      | Inr _ \<Rightarrow> (case cached of Some jobs \<Rightarrow> Inr jobs | None \<Rightarrow> cron_load env faults fs))"

definition cron_save :: "cron_env \<Rightarrow> cron_world \<Rightarrow> (CronError, unit) result \<times> cron_world" where
  "cron_save env w =
     (let n = tw_calls (cw_ledger w); store = ce_ledger env
      in case write_jsonl (ce_to_string env) (ce_iter env (cw_jobs w)) of
           Inl e \<Rightarrow> (Inl (CronJson e), w\<lparr>cw_ledger := (cw_ledger w)\<lparr>tw_calls := Suc n\<rparr>\<rparr>)
         | Inr buf \<Rightarrow>
             (case atomic_write (js_faults store n) (js_stamp store n) (ce_path env) buf (tw_files (cw_ledger w)) of
                (Inl e, fs) \<Rightarrow> (Inl (CronIo e), w\<lparr>cw_ledger := (cw_ledger w)\<lparr>tw_files := fs, tw_calls := Suc n\<rparr>\<rparr>)
              | (Inr _, fs) \<Rightarrow> (Inr (), w\<lparr>cw_ledger := (cw_ledger w)\<lparr>tw_files := fs, tw_calls := Suc n\<rparr>\<rparr>)))"

definition cron_create :: "cron_env \<Rightarrow> CronJob \<Rightarrow> cron_world \<Rightarrow> (CronError, unit) result \<times> cron_world" where
  "cron_create env job w =
     (if cj_id job \<in> cj_id ` set (cw_jobs w) then (Inl (DuplicateId (cj_id job)), w)
      else cron_save env (w\<lparr>cw_jobs := put_job job (cw_jobs w)\<rparr>))"

definition cron_update :: "cron_env \<Rightarrow> CronJob \<Rightarrow> cron_world \<Rightarrow> (CronError, unit) result \<times> cron_world" where
  "cron_update env job w =
     (if cj_id job \<notin> cj_id ` set (cw_jobs w) then (Inl (CronNotFound (cj_id job)), w)
      else cron_save env (w\<lparr>cw_jobs := put_job job (cw_jobs w)\<rparr>))"

definition cron_remove :: "cron_env \<Rightarrow> string \<Rightarrow> cron_world \<Rightarrow> (CronError, unit) result \<times> cron_world" where
  "cron_remove env jid w =
     (if jid \<notin> cj_id ` set (cw_jobs w) then (Inl (CronNotFound jid), w)
      else cron_save env (w\<lparr>cw_jobs := filter (\<lambda>j. cj_id j \<noteq> jid) (cw_jobs w)\<rparr>))"

definition cron_list :: "cron_env \<Rightarrow> cron_world \<Rightarrow> CronJob list" where
  "cron_list env w = ce_iter env (cw_jobs w)"

definition cron_get :: "string \<Rightarrow> cron_world \<Rightarrow> CronJob option" where
  "cron_get jid w = List.find (\<lambda>j. cj_id j = jid) (cw_jobs w)"

subsection \<open>Adding jobs\<close>

record AddJobRequest =
  aj_schedule :: string
  aj_agent_id :: string
  aj_message :: string
  aj_at :: "nat option"
  aj_name :: string
  aj_enabled :: bool
  aj_webhook_secret :: "string option"
  aj_id_prefix :: "string option"

definition default_AddJobRequest :: AddJobRequest where
  "default_AddJobRequest = \<lparr>aj_schedule = [], aj_agent_id = [], aj_message = [], aj_at = None, aj_name = [],
     aj_enabled = True, aj_webhook_secret = None, aj_id_prefix = None\<rparr>"

definition generate_job_id :: "string \<Rightarrow> nat \<Rightarrow> nat \<Rightarrow> string" where
  "generate_job_id pre now counter = pre @ ''-'' @ show_nat now @ ''-'' @ show_nat counter"

definition job_schedule :: "cron_env \<Rightarrow> nat \<Rightarrow> AddJobRequest \<Rightarrow> (CronError, string) result" where
  "job_schedule env now req =
     (case aj_at req of
        Some at \<Rightarrow>
          if aj_schedule req \<noteq> ''__at__'' then Inl (InvalidExpression ''one-shot job must use __at__ schedule'')
          else bind_result (validate_at now at) (\<lambda>_. Inr ''__at__'')
      | None \<Rightarrow>
          if aj_webhook_secret req \<noteq> None \<and> aj_schedule req = ''__webhook__'' then Inr ''__webhook__''
          else bind_result (validate_cron env (aj_schedule req)) (\<lambda>_. Inr (aj_schedule req)))"

definition create_job :: "cron_env \<Rightarrow> AddJobRequest \<Rightarrow> cron_world \<Rightarrow> (CronError, CronJob) result \<times> cron_world" where
  "create_job env req w =
     (let now = cron_now env w
      in case job_schedule env now req of
           Inl e \<Rightarrow> (Inl e, w)
         | Inr schedule \<Rightarrow>
             (let jid = generate_job_id (unwrap_or (aj_id_prefix req) ''cron'') now (cw_counter w);
                  job = refresh_next_run env now
                    \<lparr>cj_id = jid, cj_agent_id = aj_agent_id req, cj_message = aj_message req, cj_name = aj_name req,
                     cj_schedule = schedule, cj_at = aj_at req, cj_enabled = aj_enabled req, cj_created_at = now,
                     cj_next_run = None, cj_last_run = None, cj_webhook_secret = aj_webhook_secret req\<rparr>
              in case cron_create env job (w\<lparr>cw_counter := Suc (cw_counter w)\<rparr>) of
                   (Inl e, w') \<Rightarrow> (Inl e, w')
                 | (Inr _, w') \<Rightarrow> (Inr job, w')))"

subsection \<open>Running jobs\<close>

type_synonym cron_runtime = "RunRequest \<Rightarrow> cron_world \<Rightarrow> (string, RunEvent list) result \<times> cron_world"

definition session_key_for_cron :: "CronJob \<Rightarrow> string" where
  "session_key_for_cron job = direct_session_key (cj_agent_id job) ''cron'' ''cron'' ''default'' (cj_id job)"

definition on_ledger ::
  "(task_world \<Rightarrow> (TaskStoreError, unit) result \<times> task_world) \<Rightarrow> cron_world \<Rightarrow> (CronError, unit) result \<times> cron_world" where
  "on_ledger f w =
     (case f (cw_ledger w) of
        (Inl e, l) \<Rightarrow> (Inl (CronTaskStore e), w\<lparr>cw_ledger := l\<rparr>)
      | (Inr _, l) \<Rightarrow> (Inr (), w\<lparr>cw_ledger := l\<rparr>))"

text \<open>The events read: all of them, or up to the first error.\<close>

fun until_error :: "RunEvent list \<Rightarrow> RunEvent list" where
  "until_error [] = []"
| "until_error (Lifecycle phase error # evs) =
     Lifecycle phase error # (if phase = ErrorPhase then [] else until_error evs)"
| "until_error (ev # evs) = ev # until_error evs"

definition cron_request :: "cron_env \<Rightarrow> CronJob \<Rightarrow> RunRequest" where
  "cron_request env job =
     (RunRequest_new (session_key_for_cron job) (cj_agent_id job) (cj_message job)
        (resolve_agent_model (ce_config env) (cj_agent_id job)))
       \<lparr>rr_system_prompt := Some (''You are running a scheduled cron job ('' @ cj_id job @
          ''). Execute the following instruction:''), rr_interactive := False, rr_approval_gate := ce_gate env\<rparr>"

definition cron_task :: "nat \<Rightarrow> CronJob \<Rightarrow> Task" where
  "cron_task now job =
     mark_running now ((Task_new (''task-cron-'' @ show_nat now) TaskCron (cj_agent_id job) now)
       \<lparr>tk_session_id := Some (session_key_for_cron job)\<rparr>)"

definition cron_execute :: "cron_env \<Rightarrow> cron_runtime \<Rightarrow> CronJob \<Rightarrow> cron_world \<Rightarrow> (CronError, Task) result \<times> cron_world" where
  "cron_execute env runtime job w =
     (let task = cron_task (cron_now env w) job
      in case on_ledger (task_create (ce_ledger env) task) w of
           (Inl e, w1) \<Rightarrow> (Inl e, w1)
         | (Inr _, w1) \<Rightarrow>
             (case runtime (cron_request env job) w1 of
                (Inl e, w2) \<Rightarrow>
                  (case on_ledger (task_update (ce_ledger env) (mark_failed (cron_now env w2) e task)) w2 of
                     (Inl e', w3) \<Rightarrow> (Inl e', w3)
                   | (Inr _, w3) \<Rightarrow> (Inl (CronRuntime e), w3))
              | (Inr evs, w2) \<Rightarrow>
                  (let w2' = (if ce_sink env then w2\<lparr>cw_sunk := cw_sunk w2 @ map (Pair (tk_id task)) (until_error evs)\<rparr> else w2);
                       task' = (settle_task (cron_now env w2') evs task)\<lparr>tk_run_id := Some (tk_id task)\<rparr>
                   in case on_ledger (task_update (ce_ledger env) task') w2' of
                        (Inl e', w3) \<Rightarrow> (Inl e', w3)
                      | (Inr _, w3) \<Rightarrow> (Inr task', w3))))"

definition acquire_job :: "string \<Rightarrow> cron_world \<Rightarrow> bool \<times> cron_world" where
  "acquire_job jid w = (jid \<notin> cw_in_flight w, w\<lparr>cw_in_flight := insert jid (cw_in_flight w)\<rparr>)"

definition release_job :: "string \<Rightarrow> cron_world \<Rightarrow> cron_world" where
  "release_job jid w = w\<lparr>cw_in_flight := cw_in_flight w - {jid}\<rparr>"

text \<open>A manual run takes a copy of the job and then runs that copy; other runners may act in between.\<close>

definition run_copy ::
  "cron_env \<Rightarrow> cron_runtime \<Rightarrow> string \<Rightarrow> CronJob \<Rightarrow> cron_world \<Rightarrow> (CronError, Task) result \<times> cron_world" where
  "run_copy env runtime jid job w =
     (case acquire_job (cj_id job) w of
        (False, w1) \<Rightarrow> (Inl (AlreadyRunning (cj_id job)), w1)
      | (True, w1) \<Rightarrow> (let (r, w2) = cron_execute env runtime job w1 in (r, release_job jid w2)))"

definition cron_run :: "cron_env \<Rightarrow> cron_runtime \<Rightarrow> string \<Rightarrow> cron_world \<Rightarrow> (CronError, Task) result \<times> cron_world" where
  "cron_run env runtime jid w =
     (case cron_get jid w of
        None \<Rightarrow> (Inl (CronNotFound jid), w)
      | Some job \<Rightarrow> run_copy env runtime jid job w)"

text \<open>After the run of a due job: a one-shot job is removed, the others are rescheduled. Failures
  of the store are only logged.\<close>

definition settle_job :: "cron_env \<Rightarrow> nat \<Rightarrow> CronJob \<Rightarrow> cron_world \<Rightarrow> cron_world" where
  "settle_job env now job w =
     (if is_one_shot job then snd (cron_remove env (cj_id job) w)
      else snd (cron_update env (refresh_next_run env (cron_now env w) (job\<lparr>cj_last_run := Some now\<rparr>)) w))"

definition due :: "nat \<Rightarrow> CronJob \<Rightarrow> bool" where
  "due now job \<longleftrightarrow> cj_enabled job \<and> (case cj_next_run job of Some next \<Rightarrow> next \<le> now | None \<Rightarrow> False)"

fun tick_jobs ::
  "cron_env \<Rightarrow> cron_runtime \<Rightarrow> nat \<Rightarrow> CronJob list \<Rightarrow> cron_world \<Rightarrow> (CronError, Task) result list \<times> cron_world" where
  "tick_jobs env runtime now [] w = ([], w)"
| "tick_jobs env runtime now (job # jobs) w =
     (if \<not> due now job then tick_jobs env runtime now jobs w
      else case acquire_job (cj_id job) w of
             (False, w1) \<Rightarrow> tick_jobs env runtime now jobs w1
           | (True, w1) \<Rightarrow>
               (let (r, w2) = cron_execute env runtime job w1;
                    (rs, w3) = tick_jobs env runtime now jobs (settle_job env now job (release_job (cj_id job) w2))
                in (r # rs, w3)))"

definition cron_tick :: "cron_env \<Rightarrow> cron_runtime \<Rightarrow> cron_world \<Rightarrow> (CronError, Task) result list \<times> cron_world" where
  "cron_tick env runtime w = tick_jobs env runtime (cron_now env w) (cron_list env w) w"

subsection \<open>Webhooks\<close>

definition hex_value :: "byte \<Rightarrow> byte option" where
  "hex_value b =
     (if 48 \<le> b \<and> b \<le> 57 then Some (b - 48)
      else if 97 \<le> b \<and> b \<le> 102 then Some (b - 97 + 10)
      else if 65 \<le> b \<and> b \<le> 70 then Some (b - 65 + 10)
      else None)"

fun decode_pairs :: "byte list \<Rightarrow> byte list option" where
  "decode_pairs (h # l # rest) =
     Option.bind (hex_value h) (\<lambda>hi. Option.bind (hex_value l) (\<lambda>lo.
       map_option ((#) (push_bit 4 hi OR lo)) (decode_pairs rest)))"
| "decode_pairs _ = Some []"

definition decode_hex :: "string \<Rightarrow> byte list option" where
  "decode_hex s = (if odd (length s) then None else decode_pairs (map of_char s))"

definition constant_time_eq :: "byte list \<Rightarrow> byte list \<Rightarrow> bool" where
  "constant_time_eq a b \<longleftrightarrow>
     length a = length b \<and> foldl (\<lambda>diff (x, y). diff OR (x XOR y)) 0 (zip a b) = 0"

definition verify_webhook_signature :: "(string \<Rightarrow> string \<Rightarrow> byte list) \<Rightarrow> string \<Rightarrow> string \<Rightarrow> string \<Rightarrow> bool" where
  "verify_webhook_signature hmac secret body signature_header =
     (if prefix ''sha256='' signature_header
      then (case decode_hex (drop 7 signature_header) of
              None \<Rightarrow> False
            | Some provided \<Rightarrow> constant_time_eq (hmac secret body) provided)
      else False)"

datatype StatusCode = NOT_FOUND | UNAUTHORIZED | ACCEPTED | INTERNAL_SERVER_ERROR

text \<open>\<open>has_runner\<close> says whether the gateway has a task runner; \<open>counter\<close> is that of task ids. Looking up a
  job does not fail in the store modelled here, so the branch for that error is left out.\<close>

definition webhook_handler ::
  "cron_env \<Rightarrow> (string \<Rightarrow> string \<Rightarrow> byte list) \<Rightarrow> (TaskRunnerError \<Rightarrow> string) \<Rightarrow> bool \<Rightarrow> bool \<Rightarrow> nat \<Rightarrow> string \<Rightarrow> string option \<Rightarrow> string \<Rightarrow>
     cron_world \<Rightarrow> (StatusCode \<times> json) \<times> cron_world" where
  "webhook_handler env hmac display has_scheduler has_runner counter job_id header body w =
     (if \<not> has_scheduler then ((NOT_FOUND, JObject [(''error'', JString ''cron scheduler not available'')]), w)
      else case cron_get job_id w of
             None \<Rightarrow> ((NOT_FOUND, JObject [(''error'', JString ''job not found'')]), w)
           | Some job \<Rightarrow>
               (case cj_webhook_secret job of
                  None \<Rightarrow> ((NOT_FOUND, JObject [(''error'', JString ''job not found'')]), w)
                | Some secret \<Rightarrow>
                    if \<not> verify_webhook_signature hmac secret body (unwrap_or header [])
                    then ((UNAUTHORIZED, JObject [(''error'', JString ''invalid signature'')]), w)
                    else if \<not> has_runner then ((NOT_FOUND, JObject [(''error'', JString ''task runner not available'')]), w)
                    else (case task_enqueue (ce_ledger env) counter
                              \<lparr>er_agent_id = cj_agent_id job, er_message = cj_message job, er_kind = TaskCron, er_depends_on = []\<rparr> (cw_ledger w) of
                            (Inr task, l) \<Rightarrow>
                              ((ACCEPTED, JObject [(''status'', JString ''enqueued''), (''task_id'', JString (tk_id task))]), w\<lparr>cw_ledger := l\<rparr>)
                          | (Inl e, l) \<Rightarrow> ((INTERNAL_SERVER_ERROR, JObject [(''error'', JString (display e))]), w\<lparr>cw_ledger := l\<rparr>))))"

subsection \<open>The scheduler tools\<close>

text \<open>\<open>rfc3339\<close> and \<open>naive\<close> are the parsers of date-times, the latter by format; \<open>local\<close> gives the one
  instant of a local time, if there is exactly one.\<close>

definition parse_at ::
  "(string \<Rightarrow> nat option) \<Rightarrow> (string \<Rightarrow> string \<Rightarrow> 'n option) \<Rightarrow> ('n \<Rightarrow> nat option) \<Rightarrow> nat \<Rightarrow> string \<Rightarrow> (CronError, nat) result" where
  "parse_at rfc3339 naive local now input =
     (case rfc3339 input of
        Some t \<Rightarrow> Inr t
      | None \<Rightarrow>
          (case naive ''%Y-%m-%d %H:%M:%S'' input of
             Some n \<Rightarrow> Inr (unwrap_or (local n) now)
           | None \<Rightarrow>
               (case naive ''%Y-%m-%dT%H:%M:%S'' input of
                  Some n \<Rightarrow> Inr (unwrap_or (local n) now)
                | None \<Rightarrow> Inl (InvalidExpression (''unable to parse --at datetime: '' @ input)))))"

definition str_param :: "json \<Rightarrow> string \<Rightarrow> string option" where
  "str_param params k = Option.bind (json_get params k) json_as_str"

definition required_param :: "json \<Rightarrow> string \<Rightarrow> (ToolError, string) result" where
  "required_param params k =
     (case str_param params k of
        None \<Rightarrow> Inl (InvalidParams (''missing '' @ quoted k @ '' parameter''))
      | Some v \<Rightarrow> Inr v)"

definition open_cron_store :: "cron_env \<Rightarrow> (CronError \<Rightarrow> string) \<Rightarrow> cron_world \<Rightarrow> (ToolError, unit) result" where
  "open_cron_store env display w =
     (case cron_open env (js_faults (ce_ledger env) (tw_calls (cw_ledger w))) (Some (cw_jobs w)) (tw_files (cw_ledger w)) of
        Inl e \<Rightarrow> Inl (Execution (''failed to open cron store: '' @ display e))
      | Inr _ \<Rightarrow> Inr ())"

definition create_params ::
  "(string \<Rightarrow> (CronError, nat) result) \<Rightarrow> (CronError \<Rightarrow> string) \<Rightarrow> json \<Rightarrow> ToolContext \<Rightarrow> (ToolError, AddJobRequest) result" where
  "create_params parse display params ctx =
     bind_result (required_param params ''name'') (\<lambda>name.
     bind_result (required_param params ''prompt'') (\<lambda>prompt.
     bind_result (case str_param params ''at'' of
         Some at_raw \<Rightarrow>
           (case parse at_raw of
              Inl e \<Rightarrow> Inl (InvalidParams (''invalid '' @ quoted ''at'' @ '': '' @ display e))
            | Inr at \<Rightarrow> Inr (''__at__'', Some at))
       | None \<Rightarrow>
           (case str_param params ''cron'' of
              None \<Rightarrow> Inl (InvalidParams (''missing '' @ quoted ''cron'' @ '' parameter (required unless '' @ quoted ''at'' @ '' is set)''))
            | Some expr \<Rightarrow> Inr (expr, None)))
     (\<lambda>(schedule, at).
       Inr (default_AddJobRequest\<lparr>aj_schedule := schedule, aj_agent_id := unwrap_or (str_param params ''agent_type'') (tx_agent_id ctx),
         aj_message := prompt, aj_at := at, aj_name := name,
         aj_enabled := unwrap_or (Option.bind (json_get params ''enabled'') json_as_bool) True\<rparr>))))"

definition scheduler_create_execute ::
  "cron_env \<Rightarrow> (nat \<Rightarrow> string \<Rightarrow> (CronError, nat) result) \<Rightarrow> (CronError \<Rightarrow> string) \<Rightarrow> (json \<Rightarrow> string) \<Rightarrow> json \<Rightarrow> ToolContext \<Rightarrow>
     cron_world \<Rightarrow> (ToolError, ToolResult) result \<times> cron_world" where
  "scheduler_create_execute env parse display render params ctx w =
     (case create_params (parse (cron_now env w)) display params ctx of
        Inl e \<Rightarrow> (Inl e, w)
      | Inr req \<Rightarrow>
          (case open_cron_store env display w of
             Inl e \<Rightarrow> (Inl e, w)
           | Inr _ \<Rightarrow>
               (case create_job env req w of
                  (Inl e, w') \<Rightarrow> (Inl (Execution (''failed to create cron job: '' @ display e)), w')
                | (Inr job, w') \<Rightarrow> (Inr (ToolResult_ok (render (JObject [(''id'', JString (cj_id job))]))), w'))))"

definition scheduler_delete_execute ::
  "cron_env \<Rightarrow> (CronError \<Rightarrow> string) \<Rightarrow> json \<Rightarrow> cron_world \<Rightarrow> (ToolError, ToolResult) result \<times> cron_world" where
  "scheduler_delete_execute env display params w =
     (case required_param params ''id'' of
        Inl e \<Rightarrow> (Inl e, w)
      | Inr jid \<Rightarrow>
          (case open_cron_store env display w of
             Inl e \<Rightarrow> (Inl e, w)
           | Inr _ \<Rightarrow>
               (case cron_remove env jid w of
                  (Inl e, w') \<Rightarrow> (Inl (Execution (''failed to delete cron job '' @ quoted jid @ '': '' @ display e)), w')
                | (Inr _, w') \<Rightarrow> (Inr (ToolResult_ok (''deleted job '' @ quoted jid)), w'))))"

definition job_json :: "CronJob \<Rightarrow> json" where
  "job_json job = JObject [(''agent_type'', JString (cj_agent_id job)), (''cron'', JString (cj_schedule job)),
     (''enabled'', JBool (cj_enabled job)), (''id'', JString (cj_id job)), (''name'', JString (cj_name job)),
     (''prompt'', JString (cj_message job))]"

definition scheduler_list_execute ::
  "cron_env \<Rightarrow> (CronError \<Rightarrow> string) \<Rightarrow> (json \<Rightarrow> string) \<Rightarrow> cron_world \<Rightarrow> (ToolError, ToolResult) result" where
  "scheduler_list_execute env display render w =
     bind_result (open_cron_store env display w) (\<lambda>_.
       Inr (ToolResult_ok (render (JArray (map job_json (cron_list env w))))))"

subsection \<open>Webhook signatures\<close>

lemma diff_zero:
  "foldl (\<lambda>diff (x, y). diff OR (x XOR y)) d ps = (0 :: byte) \<longleftrightarrow> d = 0 \<and> (\<forall>(x, y)\<in>set ps. x = y)"
proof (induction ps arbitrary: d)
  case (Cons p ps)
  obtain x y where p: "p = (x, y)" by fastforce
  have "d OR x XOR y = 0 \<longleftrightarrow> d = 0 \<and> x = y" by (auto simp: bit_eq_iff bit_simps)
  then show ?case using Cons by (auto simp: p)
qed simp

lemma constant_time_eq_iff [simp]: "constant_time_eq a b \<longleftrightarrow> a = b"
proof -
  have "(\<forall>(x, y)\<in>set (zip a b). x = y) \<longleftrightarrow> a = b" if "length a = length b"
    using that by (induction a b rule: list_induct2) auto
  then show ?thesis by (auto simp: constant_time_eq_def diff_zero)
qed

text \<open>Lower-case hexadecimal, as the sender writes it.\<close>

definition hex_digit :: "byte \<Rightarrow> char" where
  "hex_digit n = (if n < 10 then char_of (unat n + 48) else char_of (unat n + 87))"

definition encode_hex :: "byte list \<Rightarrow> string" where
  "encode_hex bs = concat (map (\<lambda>b. [hex_digit (drop_bit 4 b), hex_digit (b AND 15)]) bs)"

lemma hex_digit_value: "\<forall>n\<in>set (map word_of_nat [0..<16]). hex_value (of_char (hex_digit n)) = Some (n :: byte)"
  by code_simp

lemma small_byte: "unat (n :: byte) < 16 \<Longrightarrow> n \<in> set (map word_of_nat [0..<16])"
proof -
  assume "unat n < 16"
  moreover have "n = word_of_nat (unat n)" by simp
  ultimately show ?thesis by (metis atLeastLessThan_iff image_eqI list.set_map set_upt zero_le)
qed

lemma nibbles:
  "drop_bit 4 (b :: byte) \<in> set (map word_of_nat [0..<16])" "b AND 15 \<in> set (map word_of_nat [0..<16])"
  "push_bit 4 (drop_bit 4 b) OR (b AND 15) = b"
proof -
  have mask: "b AND 15 = take_bit 4 b" by (simp add: take_bit_eq_mask mask_eq_exp_minus_1)
  have b: "unat b < 256" using unsigned_less [of b] by simp
  then show "drop_bit 4 b \<in> set (map word_of_nat [0..<16])"
    by (intro small_byte) (simp add: drop_bit_eq_div unat_div)
  show "b AND 15 \<in> set (map word_of_nat [0..<16])"
    unfolding mask by (intro small_byte) (simp add: take_bit_eq_mod unat_mod)
  show "push_bit 4 (drop_bit 4 b) OR (b AND 15) = b"
    unfolding mask by (auto simp: bit_eq_iff bit_simps)
qed

lemma decode_encode_hex: "decode_hex (encode_hex bs) = Some bs"
proof -
  have "decode_pairs (map of_char (encode_hex bs)) = Some bs"
  proof (induction bs)
    case (Cons b bs)
    note n = nibbles [of b]
    have "hex_value (of_char (hex_digit (drop_bit 4 b))) = Some (drop_bit 4 b)"
      "hex_value (of_char (hex_digit (b AND 15))) = Some (b AND 15)" using hex_digit_value n(1,2) by blast+
    then show ?case using Cons n(3) by (simp add: encode_hex_def)
  qed (simp add: encode_hex_def)
  moreover have "even (length (encode_hex bs))" by (induction bs) (simp_all add: encode_hex_def)
  ultimately show ?thesis by (simp add: decode_hex_def)
qed

lemma verify_iff:
  "verify_webhook_signature hmac secret body header \<longleftrightarrow>
     (\<exists>hex. header = ''sha256='' @ hex \<and> decode_hex hex = Some (hmac secret body))"
  by (auto simp: verify_webhook_signature_def prefix_def split: option.splits)

text \<open>C31. A webhook enqueues a task only for a job that has a secret and only when the header is
  \<open>sha256=\<close> followed by the hexadecimal form of the HMAC of the body under that secret; in every other
  case nothing changes. The signature an honest sender computes is always accepted.
\<close>

theorem webhook_authenticated:
  "((\<exists>job secret hex. cron_get job_id w = Some job \<and> cj_webhook_secret job = Some secret \<and>
      header = Some (''sha256='' @ hex) \<and> decode_hex hex = Some (hmac secret body) \<and>
      snd (webhook_handler env hmac display has_scheduler has_runner counter job_id header body w) =
        (if has_scheduler \<and> has_runner
         then w\<lparr>cw_ledger := snd (task_enqueue (ce_ledger env) counter
           \<lparr>er_agent_id = cj_agent_id job, er_message = cj_message job, er_kind = TaskCron, er_depends_on = []\<rparr> (cw_ledger w))\<rparr>
         else w)) \<or>
   (snd (webhook_handler env hmac display has_scheduler has_runner counter job_id header body w) = w \<and>
      fst (fst (webhook_handler env hmac display has_scheduler has_runner counter job_id header body w)) \<in> {NOT_FOUND, UNAUTHORIZED})) \<and>
   verify_webhook_signature hmac secret' body (''sha256='' @ encode_hex (hmac secret' body))"
proof (cases "\<exists>job secret. cron_get job_id w = Some job \<and> cj_webhook_secret job = Some secret \<and>
    verify_webhook_signature hmac secret body (unwrap_or header [])")
  case True
  then obtain job secret where job: "cron_get job_id w = Some job" "cj_webhook_secret job = Some secret"
    and v: "verify_webhook_signature hmac secret body (unwrap_or header [])" by blast
  then obtain hex where hex: "header = Some (''sha256='' @ hex)" "decode_hex hex = Some (hmac secret body)"
    by (cases header) (auto simp: verify_iff)
  have "snd (webhook_handler env hmac display has_scheduler has_runner counter job_id header body w) =
        (if has_scheduler \<and> has_runner
         then w\<lparr>cw_ledger := snd (task_enqueue (ce_ledger env) counter
           \<lparr>er_agent_id = cj_agent_id job, er_message = cj_message job, er_kind = TaskCron, er_depends_on = []\<rparr> (cw_ledger w))\<rparr>
         else w)"
    using job v by (auto simp: webhook_handler_def split: prod.splits sum.splits)
  then show ?thesis using job hex by (auto simp: verify_iff decode_encode_hex)
next
  case False
  then have "snd (webhook_handler env hmac display has_scheduler has_runner counter job_id header body w) = w \<and>
      fst (fst (webhook_handler env hmac display has_scheduler has_runner counter job_id header body w)) \<in> {NOT_FOUND, UNAUTHORIZED}"
    by (auto simp: webhook_handler_def split: option.splits)
  then show ?thesis by (simp add: verify_iff decode_encode_hex)
qed

subsection \<open>The store contract\<close>

text \<open>What the \<open>CronJobStore\<close> trait promises: \<open>create\<close> adds under a new id, \<open>update\<close> replaces and
  \<open>remove\<close> deletes, and no other job changes, whether or not the file could be written.\<close>

locale cron_job_store =
  fixes jobs :: "'w \<Rightarrow> CronJob list"
    and create :: "CronJob \<Rightarrow> 'w \<Rightarrow> (CronError, unit) result \<times> 'w"
    and update :: "CronJob \<Rightarrow> 'w \<Rightarrow> (CronError, unit) result \<times> 'w"
    and remove :: "string \<Rightarrow> 'w \<Rightarrow> (CronError, unit) result \<times> 'w"
  assumes create_jobs: "jobs (snd (create job w)) = (if cj_id job \<in> cj_id ` set (jobs w) then jobs w else jobs w @ [job])"
    and update_jobs: "jobs (snd (update job w)) = map (\<lambda>j. if cj_id j = cj_id job then job else j) (jobs w)"
    and remove_jobs: "jobs (snd (remove jid w)) = filter (\<lambda>j. cj_id j \<noteq> jid) (jobs w)"
begin

lemma create_distinct: "distinct (map cj_id (jobs w)) \<Longrightarrow> distinct (map cj_id (jobs (snd (create job w))))"
  by (auto simp: create_jobs)

lemma update_ids: "map cj_id (jobs (snd (update job w))) = map cj_id (jobs w)"
  by (simp add: update_jobs comp_def if_distrib cong: map_cong if_cong)

lemma update_distinct: "distinct (map cj_id (jobs w)) \<Longrightarrow> distinct (map cj_id (jobs (snd (update job w))))"
  by (simp add: update_ids)

lemma remove_distinct: "distinct (map cj_id (jobs w)) \<Longrightarrow> distinct (map cj_id (jobs (snd (remove jid w))))"
  by (simp add: remove_jobs distinct_map_filter)

end

lemma cron_save_simps [simp]:
  "cw_jobs (snd (cron_save env w)) = cw_jobs w" "cw_in_flight (snd (cron_save env w)) = cw_in_flight w"
  "tw_calls (cw_ledger (snd (cron_save env w))) = Suc (tw_calls (cw_ledger w))"
  by (auto simp: cron_save_def Let_def split: sum.splits prod.splits)

interpretation cron_jobs: cron_job_store cw_jobs "cron_create env" "cron_update env" "cron_remove env" for env
proof (unfold_locales, goal_cases)
  case (2 job w)
  have "map (\<lambda>j. if cj_id j = cj_id job then job else j) (cw_jobs w) = cw_jobs w" if new: "cj_id job \<notin> cj_id ` set (cw_jobs w)"
  proof -
    have "\<forall>j\<in>set (cw_jobs w). cj_id j \<noteq> cj_id job" using new by (metis imageI)
    then show ?thesis by (intro map_idI) simp
  qed
  then show ?case by (auto simp: cron_update_def put_job_def)
next
  case (3 jid w)
  have "filter (\<lambda>j. cj_id j \<noteq> jid) (cw_jobs w) = cw_jobs w" if "jid \<notin> cj_id ` set (cw_jobs w)"
    using that by (intro filter_True) force
  then show ?case by (auto simp: cron_remove_def)
qed (simp add: cron_create_def put_job_def)

subsection \<open>Ticks\<close>

lemma on_ledger_keeps [simp]:
  "cw_jobs (snd (on_ledger f w)) = cw_jobs w" "cw_in_flight (snd (on_ledger f w)) = cw_in_flight w"
  "cw_ledger (snd (on_ledger f w)) = snd (f (cw_ledger w))"
  by (auto simp: on_ledger_def split: prod.splits sum.splits)

lemma task_calls:
  "tw_calls w \<le> tw_calls (snd (task_create store t w))" "tw_calls w \<le> tw_calls (snd (task_update store t w))"
  by (auto simp: task_create_def task_update_def tasks_save_def split: option.splits sum.splits prod.splits)

text \<open>Runs that leave the jobs alone; they may well write tasks.\<close>

definition keeps_jobs :: "cron_runtime \<Rightarrow> bool" where
  "keeps_jobs runtime \<longleftrightarrow> (\<forall>req w. cw_jobs (snd (runtime req w)) = cw_jobs w \<and> cw_in_flight (snd (runtime req w)) = cw_in_flight w \<and>
     tw_calls (cw_ledger w) \<le> tw_calls (cw_ledger (snd (runtime req w))))"

lemma execute_keeps:
  assumes "keeps_jobs runtime"
  shows "cw_jobs (snd (cron_execute env runtime job w)) = cw_jobs w \<and> cw_in_flight (snd (cron_execute env runtime job w)) = cw_in_flight w \<and>
    tw_calls (cw_ledger w) \<le> tw_calls (cw_ledger (snd (cron_execute env runtime job w)))"
proof -
  let ?task = "cron_task (cron_now env w) job"
  obtain r1 w1 where c: "on_ledger (task_create (ce_ledger env) ?task) w = (r1, w1)" by fastforce
  then have w1: "cw_jobs w1 = cw_jobs w" "cw_in_flight w1 = cw_in_flight w" "tw_calls (cw_ledger w) \<le> tw_calls (cw_ledger w1)"
    using on_ledger_keeps [of "task_create (ce_ledger env) ?task" w] task_calls(1) [of "cw_ledger w" "ce_ledger env" ?task] by auto
  obtain r2 w2 where r: "runtime (cron_request env job) w1 = (r2, w2)" by fastforce
  have w2: "cw_jobs w2 = cw_jobs w" "cw_in_flight w2 = cw_in_flight w" "tw_calls (cw_ledger w) \<le> tw_calls (cw_ledger w2)"
    using assms r w1 unfolding keeps_jobs_def by (metis snd_conv order_trans)+
  have up: "cw_jobs (snd (on_ledger (task_update (ce_ledger env) t) v)) = cw_jobs v"
    "cw_in_flight (snd (on_ledger (task_update (ce_ledger env) t) v)) = cw_in_flight v"
    "tw_calls (cw_ledger v) \<le> tw_calls (cw_ledger (snd (on_ledger (task_update (ce_ledger env) t) v)))" for t v
    by (simp_all add: task_calls)
  show ?thesis
  proof (cases r1)
    case (Inl e)
    then show ?thesis using c w1 by (simp add: cron_execute_def)
  next
    case (Inr u)
    show ?thesis
    proof (cases r2)
      case (Inl e)
      have "snd (cron_execute env runtime job w) = snd (on_ledger (task_update (ce_ledger env) (mark_failed (cron_now env w2) e ?task)) w2)"
        using \<open>r1 = Inr u\<close> Inl c r by (auto simp: cron_execute_def Let_def split: prod.splits sum.splits)
      then show ?thesis using up [where t = "mark_failed (cron_now env w2) e ?task" and v = w2] w2 by auto
    next
      case (Inr evs)
      let ?v = "if ce_sink env then w2\<lparr>cw_sunk := cw_sunk w2 @ map (Pair (tk_id ?task)) (until_error evs)\<rparr> else w2"
      let ?t = "(settle_task (cron_now env ?v) evs ?task)\<lparr>tk_run_id := Some (tk_id ?task)\<rparr>"
      have "snd (cron_execute env runtime job w) = snd (on_ledger (task_update (ce_ledger env) ?t) ?v)"
        using \<open>r1 = Inr u\<close> Inr c r by (auto simp: cron_execute_def Let_def split: prod.splits sum.splits)
      then show ?thesis using up [where t = ?t and v = ?v] w2 by auto
    qed
  qed
qed

text \<open>What a tick makes of a job: the due ones of the list are rescheduled or, if one-shot, removed.\<close>

definition resched :: "cron_env \<Rightarrow> nat \<Rightarrow> nat \<Rightarrow> CronJob \<Rightarrow> CronJob" where
  "resched env now t j = refresh_next_run env t (j\<lparr>cj_last_run := Some now\<rparr>)"

definition settled :: "cron_env \<Rightarrow> nat \<Rightarrow> CronJob set \<Rightarrow> (CronJob \<Rightarrow> nat) \<Rightarrow> CronJob \<Rightarrow> CronJob option" where
  "settled env now L t x =
     (if x \<in> L \<and> due now x then (if is_one_shot x then None else Some (resched env now (t x) x)) else Some x)"

lemma resched_id [simp]: "cj_id (resched env now t j) = cj_id j"
  by (simp add: resched_def refresh_next_run_def)

lemma settle_job_jobs:
  assumes "distinct (map cj_id (cw_jobs w))" "j \<in> set (cw_jobs w)" "due now j"
  shows "cw_jobs (settle_job env now j w) = List.map_filter (settled env now {j} (\<lambda>_. cron_now env w)) (cw_jobs w)"
proof -
  have same: "cj_id x = cj_id j \<longleftrightarrow> x = j" if "x \<in> set (cw_jobs w)" for x
    using assms(1,2) that by (auto simp: distinct_map inj_on_def)
  show ?thesis
  proof (cases "is_one_shot j")
    case True
    have "filter (\<lambda>x. cj_id x \<noteq> cj_id j) xs = List.map_filter (settled env now {j} (\<lambda>_. cron_now env w)) xs" if "set xs \<subseteq> set (cw_jobs w)" for xs
      using that by (induction xs) (auto simp: same settled_def True assms(3))
    then show ?thesis using True by (simp add: settle_job_def cron_jobs.remove_jobs)
  next
    case False
    have "map (\<lambda>x. if cj_id x = cj_id j then resched env now (cron_now env w) j else x) xs =
        List.map_filter (settled env now {j} (\<lambda>_. cron_now env w)) xs" if "set xs \<subseteq> set (cw_jobs w)" for xs
      using that by (induction xs) (auto simp: same settled_def False assms(3))
    then show ?thesis using False
      by (simp add: settle_job_def cron_jobs.update_jobs resched_def [symmetric])
  qed
qed

lemma settle_job_keeps:
  "cw_in_flight (settle_job env now j w) = cw_in_flight w" "tw_calls (cw_ledger w) \<le> tw_calls (cw_ledger (settle_job env now j w))"
  by (auto simp: settle_job_def cron_remove_def cron_update_def)

lemma map_filter_settled:
  assumes "distinct (map cj_id xs)" "insert j L \<subseteq> set xs" "j \<notin> L" "due now j"
  shows "List.map_filter (settled env now L t) (List.map_filter (settled env now {j} (\<lambda>_. n)) xs) =
    List.map_filter (settled env now (insert j L) (t(j := n))) xs"
proof -
  have out: "resched env now n j \<notin> L"
  proof
    assume "resched env now n j \<in> L"
    then have "resched env now n j = j" using assms(1,2) by (auto simp: distinct_map inj_on_def)
    then show False using \<open>resched env now n j \<in> L\<close> assms(3) by simp
  qed
  show ?thesis using out assms(3,4) by (induction xs) (auto simp: settled_def)
qed

lemma settled_id: "settled env now L t x = Some y \<Longrightarrow> cj_id y = cj_id x"
  by (auto simp: settled_def split: if_splits)

lemma settled_ids: "cj_id ` set (List.map_filter (settled env now L t) xs) \<subseteq> cj_id ` set xs"
proof (induction xs)
  case (Cons x xs)
  show ?case
  proof (cases "settled env now L t x")
    case None
    then show ?thesis using Cons by auto
  next
    case (Some y)
    then show ?thesis using Cons settled_id [OF Some] by auto
  qed
qed simp

lemma settled_distinct:
  "distinct (map cj_id xs) \<Longrightarrow> distinct (map cj_id (List.map_filter (settled env now L t) xs))"
proof (induction xs)
  case (Cons x xs)
  have "cj_id x \<notin> cj_id ` set (List.map_filter (settled env now L t) xs)"
    using Cons.prems settled_ids [of env now L t xs] by auto
  note new = this
  show ?case
  proof (cases "settled env now L t x")
    case None
    then show ?thesis using Cons by simp
  next
    case (Some y)
    then show ?thesis using Cons new settled_id [OF Some] by simp
  qed
qed simp

lemma tick_jobs_settles:
  assumes "keeps_jobs runtime" "mono (js_now (ce_ledger env))"
  shows "distinct (map cj_id (cw_jobs w)) \<Longrightarrow> distinct L \<Longrightarrow> set L \<subseteq> set (cw_jobs w) \<Longrightarrow> cw_in_flight w \<inter> cj_id ` set L = {} \<Longrightarrow>
    now \<le> cron_now env w \<Longrightarrow>
    \<exists>t. (\<forall>x. now \<le> t x) \<and> cw_jobs (snd (tick_jobs env runtime now L w)) = List.map_filter (settled env now (set L) t) (cw_jobs w) \<and>
      cw_in_flight (snd (tick_jobs env runtime now L w)) = cw_in_flight w \<and>
      length (fst (tick_jobs env runtime now L w)) = length (filter (due now) L)"
proof (induction L arbitrary: w)
  case Nil
  have "List.map_filter (settled env now {} t) xs = xs" for t xs by (induction xs) (auto simp: settled_def)
  then show ?case by auto
next
  case (Cons j L)
  show ?case
  proof (cases "due now j")
    case False
    have "settled env now (insert j (set L)) t = settled env now (set L) t" for t using False by (auto simp: settled_def fun_eq_iff)
    then show ?thesis using Cons False by simp
  next
    case True
    have acq: "acquire_job (cj_id j) w = (True, w\<lparr>cw_in_flight := insert (cj_id j) (cw_in_flight w)\<rparr>)" (is "_ = (True, ?w1)")
      using Cons.prems(4) by (simp add: acquire_job_def)
    let ?w2 = "release_job (cj_id j) (snd (cron_execute env runtime j ?w1))"
    let ?w3 = "settle_job env now j ?w2"
    have w2: "cw_jobs ?w2 = cw_jobs w" "cw_in_flight ?w2 = cw_in_flight w" "tw_calls (cw_ledger w) \<le> tw_calls (cw_ledger ?w2)"
      using execute_keeps [OF assms(1), of env j ?w1] Cons.prems(4) by (auto simp: release_job_def)
    have clock: "cron_now env w \<le> cron_now env v" if "tw_calls (cw_ledger w) \<le> tw_calls (cw_ledger v)" for v
      using that assms(2) by (simp add: cron_now_def task_now_def monoD)
    have w3: "cw_jobs ?w3 = List.map_filter (settled env now {j} (\<lambda>_. cron_now env ?w2)) (cw_jobs w)"
      using settle_job_jobs [of ?w2 j now env] Cons.prems(1,3) True w2 by simp
    have fl3: "cw_in_flight ?w3 = cw_in_flight w" using settle_job_keeps(1) w2(2) by simp
    have c3: "tw_calls (cw_ledger w) \<le> tw_calls (cw_ledger ?w3)" using settle_job_keeps(2) w2(3) by (rule order_trans [rotated])
    have keep: "x \<in> set (cw_jobs ?w3)" if "x \<in> set L" for x
    proof -
      have x: "x \<in> set (cw_jobs w)" "x \<noteq> j" using that Cons.prems(2,3) by auto
      then have "settled env now {j} (\<lambda>_. cron_now env ?w2) x = Some x" by (simp add: settled_def)
      then show ?thesis unfolding w3 using x(1) by (force simp: List.map_filter_def image_iff)
    qed
    have "now \<le> cron_now env ?w3" using Cons.prems(5) clock [OF c3] by simp
    moreover have "distinct (map cj_id (cw_jobs ?w3))" unfolding w3 using Cons.prems(1) by (rule settled_distinct)
    ultimately obtain t where t: "\<forall>x. now \<le> t x"
      "cw_jobs (snd (tick_jobs env runtime now L ?w3)) = List.map_filter (settled env now (set L) t) (cw_jobs ?w3)"
      "cw_in_flight (snd (tick_jobs env runtime now L ?w3)) = cw_in_flight ?w3"
      "length (fst (tick_jobs env runtime now L ?w3)) = length (filter (due now) L)"
      using Cons.IH [of ?w3] keep fl3 Cons.prems(2,4) by auto
    let ?t = "t(j := cron_now env ?w2)"
    have jobs: "cw_jobs (snd (tick_jobs env runtime now L ?w3)) = List.map_filter (settled env now (set (j # L)) ?t) (cw_jobs w)"
      unfolding t(2) w3 using map_filter_settled [of "cw_jobs w" j "set L" now] Cons.prems(1,2,3) True by simp
    have later: "\<forall>x. now \<le> ?t x" using t(1) Cons.prems(5) clock [OF w2(3)] by auto
    have step: "tick_jobs env runtime now (j # L) w =
        (fst (cron_execute env runtime j ?w1) # fst (tick_jobs env runtime now L ?w3), snd (tick_jobs env runtime now L ?w3))"
      using True acq by (simp add: case_prod_beta Let_def)
    have len: "length (fst (cron_execute env runtime j ?w1) # fst (tick_jobs env runtime now L ?w3)) = length (filter (due now) (j # L))"
      using t(4) True by simp
    show ?thesis unfolding step fst_conv snd_conv
      using later jobs t(3) fl3 len by (intro exI [of _ ?t] conjI) (assumption | simp only:)+
  qed
qed

text \<open>What the sources rely on of the \<open>cron\<close> crate, the clock and the iteration of a map.\<close>

definition lawful :: "cron_env \<Rightarrow> bool" where
  "lawful env \<longleftrightarrow> (\<forall>s a n. ce_next env s a = Some n \<longrightarrow> a < n) \<and> mono (js_now (ce_ledger env)) \<and>
     (\<forall>xs. mset (ce_iter env xs) = mset xs)"

text \<open>A tick runs every due job once and leaves none due. When no job is in flight and the runs leave the
  jobs alone, a tick makes one run per job that is enabled and due; afterwards no job is due at the time of
  the tick, due one-shot jobs are gone, the other due jobs have this tick as their last run, jobs that were
  not due are unchanged, and nothing is in flight. This holds also when the file cannot be written.
\<close>

theorem tick_settles_due_jobs:
  assumes "lawful env" and "keeps_jobs runtime" and "distinct (map cj_id (cw_jobs w))" and "cw_in_flight w = {}"
  shows "length (fst (cron_tick env runtime w)) = length (filter (due (cron_now env w)) (cw_jobs w)) \<and>
    list_all (\<lambda>j. \<not> due (cron_now env w) j) (cw_jobs (snd (cron_tick env runtime w))) \<and>
    filter (\<lambda>j. cj_last_run j \<noteq> Some (cron_now env w)) (filter (\<lambda>j. \<not> due (cron_now env w) j) (cw_jobs w)) =
      filter (\<lambda>j. cj_last_run j \<noteq> Some (cron_now env w)) (cw_jobs (snd (cron_tick env runtime w))) \<and>
    map cj_id (cw_jobs (snd (cron_tick env runtime w))) =
      map cj_id (filter (\<lambda>j. \<not> (due (cron_now env w) j \<and> is_one_shot j)) (cw_jobs w)) \<and>
    cw_in_flight (snd (cron_tick env runtime w)) = {}"
proof -
  let ?now = "cron_now env w" and ?L = "cron_list env w"
  have m: "mset ?L = mset (cw_jobs w)" using assms(1) by (simp add: lawful_def cron_list_def)
  have L: "set ?L = set (cw_jobs w)" using m by (metis set_mset_mset)
  have "distinct (cw_jobs w)" using assms(3) by (simp add: distinct_map)
  then have d: "distinct ?L" using m by (metis mset_eq_imp_distinct_iff)
  have fl: "cw_in_flight w \<inter> cj_id ` set ?L = {}" using assms(4) by simp
  have "mono (js_now (ce_ledger env))" using assms(1) by (simp add: lawful_def)
  from tick_jobs_settles [OF assms(2) this assms(3) d _ fl order_refl] obtain t
    where t: "\<forall>x. ?now \<le> t x" "cw_jobs (snd (cron_tick env runtime w)) = List.map_filter (settled env ?now (set ?L) t) (cw_jobs w)"
      "cw_in_flight (snd (cron_tick env runtime w)) = {}" "length (fst (cron_tick env runtime w)) = length (filter (due ?now) ?L)"
    using L assms(4) by (auto simp: cron_tick_def)
  have len: "length (filter (due ?now) ?L) = length (filter (due ?now) (cw_jobs w))"
    using m by (metis mset_filter size_mset)
  have not_due: "\<not> due ?now (resched env ?now (t j) j)" if "\<not> is_one_shot j" for j
  proof -
    have "compute_next_run env (j\<lparr>cj_last_run := Some ?now\<rparr>) (t j) = Some n \<Longrightarrow> ?now < n" for n
      using that t(1) assms(1) unfolding compute_next_run_def lawful_def is_one_shot_def
      by (fastforce split: sum.splits intro: le_less_trans)
    then show ?thesis by (auto simp: due_def resched_def refresh_next_run_def split: option.splits)
  qed
  have last: "cj_last_run (resched env ?now n j) = Some ?now" for n j by (simp add: resched_def refresh_next_run_def)
  have jobs: "list_all (\<lambda>j. \<not> due ?now j) (List.map_filter (settled env ?now (set ?L) t) xs) \<and>
      filter (\<lambda>j. cj_last_run j \<noteq> Some ?now) (filter (\<lambda>j. \<not> due ?now j) xs) =
        filter (\<lambda>j. cj_last_run j \<noteq> Some ?now) (List.map_filter (settled env ?now (set ?L) t) xs) \<and>
      map cj_id (List.map_filter (settled env ?now (set ?L) t) xs) = map cj_id (filter (\<lambda>j. \<not> (due ?now j \<and> is_one_shot j)) xs)"
    if "set xs \<subseteq> set (cw_jobs w)" for xs
    using that by (induction xs) (auto simp: settled_def L not_due last)
  show ?thesis using t(2-4) len jobs [OF subset_refl] by simp
qed

subsection \<open>Overlapping runs\<close>

text \<open>The run of a job is a parameter that may change the state of the scheduler in any way, so it stands also for
  what other runners do meanwhile. A job is being executed by some runner as long as it is in flight.
\<close>

lemma cron_execute_cong:
  assumes "\<And>v. cw_in_flight v = cw_in_flight w \<Longrightarrow> runtime' (cron_request env job) v = runtime (cron_request env job) v"
  shows "cron_execute env runtime' job w = cron_execute env runtime job w"
proof -
  obtain r1 w1 where c: "on_ledger (task_create (ce_ledger env) (cron_task (cron_now env w) job)) w = (r1, w1)" by fastforce
  then have "cw_in_flight w1 = cw_in_flight w" using on_ledger_keeps(2) by (metis snd_conv)
  with assms have "runtime' (cron_request env job) w1 = runtime (cron_request env job) w1" by blast
  then show ?thesis by (cases r1) (simp_all add: cron_execute_def c Let_def)
qed

lemma execute_in_flight:
  assumes "\<And>req v. P (cw_in_flight v) \<Longrightarrow> P (cw_in_flight (snd (runtime req v)))" and "P (cw_in_flight w)"
  shows "P (cw_in_flight (snd (cron_execute env runtime job w)))"
proof -
  obtain r1 w1 where c: "on_ledger (task_create (ce_ledger env) (cron_task (cron_now env w) job)) w = (r1, w1)" by fastforce
  then have 1: "cw_in_flight w1 = cw_in_flight w" using on_ledger_keeps(2) by (metis snd_conv)
  obtain r2 w2 where r: "runtime (cron_request env job) w1 = (r2, w2)" by fastforce
  have 2: "P (cw_in_flight w2)" using assms 1 r by (metis snd_conv)
  have up: "on_ledger f v = (r3, w3) \<Longrightarrow> cw_in_flight w3 = cw_in_flight v" for f v r3 w3
    using on_ledger_keeps(2) by (metis snd_conv)
  show ?thesis using 1 2 assms(2) c r by (auto simp: cron_execute_def Let_def split: sum.split prod.split dest!: up)
qed

lemma tick_jobs_refuses:
  assumes stays: "\<And>req v. jid \<in> cw_in_flight v \<Longrightarrow> jid \<in> cw_in_flight (snd (runtime req v))"
    and others: "\<And>job v. cj_id job \<noteq> jid \<Longrightarrow> runtime' (cron_request env job) v = runtime (cron_request env job) v"
  shows "jid \<in> cw_in_flight w \<Longrightarrow> tick_jobs env runtime' now jobs w = tick_jobs env runtime now jobs w"
proof (induction jobs arbitrary: w)
  case (Cons job jobs)
  obtain free w1 where a: "acquire_job (cj_id job) w = (free, w1)" by fastforce
  then have w1: "jid \<in> cw_in_flight w1" "free \<longrightarrow> cj_id job \<noteq> jid" using Cons.prems by (auto simp: acquire_job_def)
  show ?case
  proof (cases "due now job \<and> free")
    case True
    then have "cj_id job \<noteq> jid" using w1 by simp
    then have eq: "cron_execute env runtime' job w1 = cron_execute env runtime job w1" using others by (intro cron_execute_cong) simp
    obtain res w2 where e: "cron_execute env runtime job w1 = (res, w2)" by fastforce
    have "jid \<in> cw_in_flight w2"
      using execute_in_flight [where P = "\<lambda>S. jid \<in> S" and runtime = runtime and env = env and job = job and w = w1] stays w1(1) e by simp
    then have "jid \<in> cw_in_flight (settle_job env now job (release_job (cj_id job) w2))"
      using \<open>cj_id job \<noteq> jid\<close> by (simp add: settle_job_keeps release_job_def)
    then show ?thesis using True a eq e Cons.IH by simp
  next
    case False
    then show ?thesis using a w1(1) Cons.IH Cons.prems by (cases free) auto
  qed
qed simp

lemma tick_jobs_acquired:
  assumes "\<And>job v. cj_id job \<in> cw_in_flight v \<Longrightarrow> runtime' (cron_request env job) v = runtime (cron_request env job) v"
  shows "tick_jobs env runtime' now jobs w = tick_jobs env runtime now jobs w"
proof (induction jobs arbitrary: w)
  case (Cons job jobs)
  obtain free w1 where a: "acquire_job (cj_id job) w = (free, w1)" by fastforce
  then have "cj_id job \<in> cw_in_flight w1" by (auto simp: acquire_job_def)
  then have "cron_execute env runtime' job w1 = cron_execute env runtime job w1" using assms by (intro cron_execute_cong) simp
  then show ?case using a Cons.IH by (cases free) simp_all
qed simp

lemma tick_jobs_releases:
  assumes "\<And>req v. cw_in_flight (snd (runtime req v)) = cw_in_flight v"
  shows "cw_in_flight (snd (tick_jobs env runtime now jobs w)) = cw_in_flight w"
proof (induction jobs arbitrary: w)
  case (Cons job jobs)
  obtain free w1 where a: "acquire_job (cj_id job) w = (free, w1)" by fastforce
  obtain res w2 where e: "cron_execute env runtime job w1 = (res, w2)" by fastforce
  have "cw_in_flight w2 = cw_in_flight w1"
    using execute_in_flight [where P = "\<lambda>S. S = cw_in_flight w1" and runtime = runtime and w = w1 and env = env and job = job] assms e
    by (metis snd_conv)
  moreover have "cw_in_flight w1 = insert (cj_id job) (cw_in_flight w)" "free \<longleftrightarrow> cj_id job \<notin> cw_in_flight w"
    using a by (auto simp: acquire_job_def)
  ultimately have "free \<Longrightarrow> cw_in_flight (settle_job env now job (release_job (cj_id job) w2)) = cw_in_flight w"
    "\<not> free \<Longrightarrow> cw_in_flight w1 = cw_in_flight w"
    by (simp_all add: settle_job_keeps release_job_def insert_absorb)
  then show ?case using a e Cons.IH [of "settle_job env now job (release_job (cj_id job) w2)"] Cons.IH [of w1] Cons.IH [of w]
    by (cases free) (simp_all add: case_prod_unfold Let_def)
qed simp

text \<open>C32. No job is executed by two runners at once, in manual runs and in ticks. (1) While a job is in flight,
  a manual run of it returns that it is already running and changes nothing, and neither a manual run of any job nor a tick depends on
  what running that job would do, provided the job stays in flight meanwhile. (2) A runner executes a job only after it has put it in flight: no operation depends on what a run would do
  in a state in which its job is not in flight. (3) A runner that has finished leaves the jobs in flight as
  it found them, if its runs do.\<close>

theorem job_executions_exclude:
  assumes flying: "jid \<in> cw_in_flight w" and stays: "\<And>req v. jid \<in> cw_in_flight v \<Longrightarrow> jid \<in> cw_in_flight (snd (runtime req v))"
    and others: "\<And>job v. cj_id job \<noteq> jid \<Longrightarrow> runtime' (cron_request env job) v = runtime (cron_request env job) v"
    and acquired: "\<And>job v. cj_id job \<in> cw_in_flight v \<Longrightarrow> runtime'' (cron_request env job) v = runtime (cron_request env job) v"
  shows "(cron_get jid w \<noteq> None \<longrightarrow> cron_run env runtime jid w = (Inl (AlreadyRunning jid), w)) \<and>
     cron_run env runtime' other w = cron_run env runtime other w \<and> cron_tick env runtime' w = cron_tick env runtime w \<and>
     cron_run env runtime'' other v = cron_run env runtime other v \<and> cron_tick env runtime'' v = cron_tick env runtime v \<and>
     ((\<forall>req u. cw_in_flight (snd (runtime req u)) = cw_in_flight u) \<longrightarrow>
        cw_in_flight (snd (cron_run env runtime other v)) = cw_in_flight v \<and> cw_in_flight (snd (cron_tick env runtime v)) = cw_in_flight v)"
proof (intro conjI impI)
  have get: "cj_id job = i" if "cron_get i u = Some job" for i u job using that by (auto simp: cron_get_def find_Some_iff)
  have refused: "run_copy env q jid job w = (Inl (AlreadyRunning jid), w)" if "cj_id job = jid" for q job
    using that flying by (simp add: run_copy_def acquire_job_def insert_absorb)
  then show "cron_run env runtime jid w = (Inl (AlreadyRunning jid), w)" if "cron_get jid w \<noteq> None"
    using that get by (auto simp: cron_run_def)
  show "cron_run env runtime' other w = cron_run env runtime other w"
  proof (cases "cron_get other w")
    case (Some job)
    have "run_copy env runtime' other job w = run_copy env runtime other job w"
    proof (cases "other = jid")
      case True
      then show ?thesis using refused get [OF Some] by simp
    next
      case False
      then have "cron_execute env runtime' job u = cron_execute env runtime job u" for u
        using others get [OF Some] by (intro cron_execute_cong) simp
      then show ?thesis by (cases "acquire_job (cj_id job) w") (simp add: run_copy_def split: bool.split)
    qed
    then show ?thesis using Some by (simp add: cron_run_def)
  qed (simp add: cron_run_def)
  show "cron_tick env runtime' w = cron_tick env runtime w"
    unfolding cron_tick_def by (rule tick_jobs_refuses [where jid = jid]) (use stays others flying in auto)
  have "run_copy env runtime'' other job u = run_copy env runtime other job u" for job u
  proof -
    obtain free w1 where a: "acquire_job (cj_id job) u = (free, w1)" by fastforce
    then have "cj_id job \<in> cw_in_flight w1" by (auto simp: acquire_job_def)
    then have "cron_execute env runtime'' job w1 = cron_execute env runtime job w1" using acquired by (intro cron_execute_cong) simp
    then show ?thesis by (cases free) (simp_all add: run_copy_def a)
  qed
  then show "cron_run env runtime'' other v = cron_run env runtime other v" by (simp add: cron_run_def cong: option.case_cong)
  show "cron_tick env runtime'' v = cron_tick env runtime v" unfolding cron_tick_def by (rule tick_jobs_acquired) (rule acquired)
  assume keeps: "\<forall>req u. cw_in_flight (snd (runtime req u)) = cw_in_flight u"
  have ex: "cw_in_flight (snd (cron_execute env runtime job u)) = cw_in_flight u" for job u
    using execute_in_flight [where P = "\<lambda>S. S = cw_in_flight u" and runtime = runtime and w = u] keeps by simp
  show "cw_in_flight (snd (cron_run env runtime other v)) = cw_in_flight v"
  proof (cases "cron_get other v")
    case (Some job)
    let ?v = "v\<lparr>cw_in_flight := insert other (cw_in_flight v)\<rparr>"
    obtain res u where e: "cron_execute env runtime job ?v = (res, u)" by fastforce
    then have u: "cw_in_flight u = insert other (cw_in_flight v)" using ex [of job ?v] by simp
    have "cw_in_flight (snd (run_copy env runtime other job v)) = cw_in_flight v"
      by (cases "other \<in> cw_in_flight v") (simp_all add: run_copy_def acquire_job_def get [OF Some] e u release_job_def insert_absorb)
    with Some show ?thesis by (simp add: cron_run_def)
  qed (simp add: cron_run_def)
  show "cw_in_flight (snd (cron_tick env runtime v)) = cw_in_flight v"
    unfolding cron_tick_def by (rule tick_jobs_releases) (use keeps in simp)
qed

text \<open>A one-shot job with an empty agent store to run in.\<close>

definition demo_job :: CronJob where
  "demo_job = \<lparr>cj_id = ''j'', cj_agent_id = ''main'', cj_message = ''hi'', cj_name = [], cj_schedule = ''__at__'', cj_at = Some 5,
     cj_enabled = True, cj_created_at = 0, cj_next_run = Some 5, cj_last_run = None, cj_webhook_secret = None\<rparr>"

definition demo_cron :: cron_env where
  "demo_cron = \<lparr>ce_parse = (\<lambda>_. Inr ()), ce_next = (\<lambda>_ a. Some (Suc a)), ce_iter = (\<lambda>xs. xs), ce_path = [Normal ''cron.jsonl''],
     ce_to_string = (\<lambda>j. Inr (cj_id j)), ce_from_str = (\<lambda>_. None), ce_ledger = demo_task_store, ce_config = no_agents,
     ce_sink = False, ce_gate = None\<rparr>"

definition demo_cron_world :: cron_world where
  "demo_cron_world = \<lparr>cw_jobs = [demo_job], cw_ledger = \<lparr>tw_tasks = [], tw_files = Map.empty, tw_calls = 9\<rparr>, cw_in_flight = {},
     cw_sunk = [], cw_counter = 1\<rparr>"

definition demo_cron_runtime :: cron_runtime where
  "demo_cron_runtime req w = (Inr [], w)"

lemma demo_cron_lawful: "lawful demo_cron" "keeps_jobs demo_cron_runtime"
  by (simp_all add: lawful_def demo_cron_def demo_task_store_def keeps_jobs_def demo_cron_runtime_def mono_def)

text \<open>A one-shot job can be executed twice: a manual run that took its copy of the job before a tick
  executed and removed it can still acquire and execute it afterwards.\<close>

theorem one_shot_runs_twice:
  "cron_get ''j'' demo_cron_world = Some demo_job \<and> is_one_shot demo_job \<and>
   (let (rs, w1) = cron_tick demo_cron demo_cron_runtime demo_cron_world
    in length rs = 1 \<and> cw_jobs w1 = [] \<and> (\<exists>task w2. run_copy demo_cron demo_cron_runtime ''j'' demo_job w1 = (Inr task, w2)))"
proof -
  let ?t = "cron_tick demo_cron demo_cron_runtime demo_cron_world"
  let ?r = "run_copy demo_cron demo_cron_runtime ''j'' demo_job (snd ?t)"
  have "cron_get ''j'' demo_cron_world = Some demo_job" "is_one_shot demo_job" by code_simp+
  moreover have "length (fst ?t) = 1" "cw_jobs (snd ?t) = []" "isl (fst ?r) = False" by code_simp+
  moreover have "\<exists>task w2. ?r = (Inr task, w2)" if "isl (fst ?r) = False" using that by (cases ?r; cases "fst ?r") auto
  ultimately show ?thesis by (auto simp: Let_def case_prod_unfold)
qed

text \<open>A one-shot job whose time has passed by less than a minute is accepted and then never run: it is
  created without a next run, and no tick will ever execute or remove it.
\<close>

theorem past_one_shot_never_runs:
  assumes "aj_schedule req = ''__at__''" and "aj_at req = Some a" and "a \<le> cron_now env w" and "cron_now env w - MINUTE \<le> a"
    and "create_job env req w = (r, w')"
    and "generate_job_id (unwrap_or (aj_id_prefix req) ''cron'') (cron_now env w) (cw_counter w) \<notin> cj_id ` set (cw_jobs w)"
  shows "\<exists>job. job \<in> set (cw_jobs w') \<and> cj_at job = Some a \<and> is_one_shot job \<and> cj_next_run job = None \<and>
    (\<forall>runtime now jobs w2. tick_jobs env runtime now (job # jobs) w2 = tick_jobs env runtime now jobs w2)"
proof -
  let ?now = "cron_now env w"
  let ?job = "refresh_next_run env ?now
     \<lparr>cj_id = generate_job_id (unwrap_or (aj_id_prefix req) ''cron'') ?now (cw_counter w), cj_agent_id = aj_agent_id req,
      cj_message = aj_message req, cj_name = aj_name req, cj_schedule = ''__at__'', cj_at = aj_at req, cj_enabled = aj_enabled req,
      cj_created_at = ?now, cj_next_run = None, cj_last_run = None, cj_webhook_secret = aj_webhook_secret req\<rparr>"
  let ?w = "w\<lparr>cw_counter := Suc (cw_counter w)\<rparr>"
  have "job_schedule env ?now req = Inr ''__at__''" using assms(1,2,4) by (simp add: job_schedule_def validate_at_def)
  then have "w' = snd (cron_create env ?job ?w)"
    using assms(5) by (auto simp: create_job_def Let_def split: prod.splits sum.splits)
  moreover have "cj_id ?job = generate_job_id (unwrap_or (aj_id_prefix req) ''cron'') ?now (cw_counter w)" by (simp add: refresh_next_run_def)
  ultimately have "cw_jobs w' = cw_jobs w @ [?job]" using assms(6) by (simp add: cron_jobs.create_jobs)
  moreover have next_none: "cj_next_run ?job = None" using assms(2,3) by (simp add: refresh_next_run_def compute_next_run_def)
  ultimately show ?thesis using assms(2)
    by (intro exI [of _ ?job]) (simp add: due_def is_one_shot_def refresh_next_run_def)
qed

definition demo_at_request :: AddJobRequest where
  "demo_at_request = default_AddJobRequest\<lparr>aj_schedule := ''__at__'', aj_at := Some 3\<rparr>"

theorem past_one_shot_never_runs_witness:
  "\<exists>job. job \<in> set (cw_jobs (snd (create_job demo_cron demo_at_request demo_cron_world))) \<and> cj_at job = Some 3 \<and>
     is_one_shot job \<and> cj_next_run job = None"
proof -
  have now: "cron_now demo_cron demo_cron_world = 9" by code_simp
  have r: "aj_schedule demo_at_request = ''__at__''" "aj_at demo_at_request = Some 3"
    "generate_job_id (unwrap_or (aj_id_prefix demo_at_request) ''cron'') 9 (cw_counter demo_cron_world) \<notin> cj_id ` set (cw_jobs demo_cron_world)"
    by code_simp+
  show ?thesis
    using past_one_shot_never_runs [of demo_at_request 3 demo_cron demo_cron_world
        "fst (create_job demo_cron demo_at_request demo_cron_world)" "snd (create_job demo_cron demo_at_request demo_cron_world)"] r
    unfolding now by (auto simp: MINUTE_def)
qed

theorem tick_settles_due_jobs_witness:
  "length (fst (cron_tick demo_cron demo_cron_runtime demo_cron_world)) = 1 \<and>
   list_all (\<lambda>j. \<not> due (cron_now demo_cron demo_cron_world) j) (cw_jobs (snd (cron_tick demo_cron demo_cron_runtime demo_cron_world))) \<and>
   map cj_id (cw_jobs (snd (cron_tick demo_cron demo_cron_runtime demo_cron_world))) = []"
proof -
  have "filter (due (cron_now demo_cron demo_cron_world)) (cw_jobs demo_cron_world) = [demo_job]"
    "filter (\<lambda>j. \<not> (due (cron_now demo_cron demo_cron_world) j \<and> is_one_shot j)) (cw_jobs demo_cron_world) = []" by code_simp+
  then show ?thesis
    using tick_settles_due_jobs [OF demo_cron_lawful, of demo_cron_world] by (simp add: demo_cron_world_def)
qed

definition busy_world :: cron_world where
  "busy_world = demo_cron_world\<lparr>cw_in_flight := {''j''}\<rparr>"

theorem job_executions_exclude_witness:
  "cron_run demo_cron demo_cron_runtime ''j'' busy_world = (Inl (AlreadyRunning ''j''), busy_world) \<and>
   cron_tick demo_cron (\<lambda>req v. if req = cron_request demo_cron demo_job then (Inl ''boom'', v) else (Inr [], v)) busy_world =
     cron_tick demo_cron demo_cron_runtime busy_world"
proof -
  let ?boom = "\<lambda>req v. if req = cron_request demo_cron demo_job then (Inl ''boom'', v) else (Inr [], v)"
  have flying: "''j'' \<in> cw_in_flight busy_world" and job: "cron_get ''j'' busy_world \<noteq> None" by code_simp+
  have "rr_system_prompt (cron_request demo_cron job) \<noteq> rr_system_prompt (cron_request demo_cron demo_job)" if "cj_id job \<noteq> ''j''" for job
    using that by (simp add: cron_request_def demo_job_def)
  then have others: "?boom (cron_request demo_cron job) v = demo_cron_runtime (cron_request demo_cron job) v" if "cj_id job \<noteq> ''j''" for job v
    using that by (metis demo_cron_runtime_def)
  have stays: "''j'' \<in> cw_in_flight (snd (demo_cron_runtime req v))" if "''j'' \<in> cw_in_flight v" for req v
    using that by (simp add: demo_cron_runtime_def)
  show ?thesis
    using job_executions_exclude [where runtime = demo_cron_runtime and runtime' = ?boom and runtime'' = demo_cron_runtime and env = demo_cron
        and w = busy_world and jid = "''j''", OF flying stays others refl] job by blast
qed

end
