(* ===== verification/Subagent.thy ===== *)
theory Subagent
  imports Session_Key Run_Types Provider_Router
begin

text \<open>Delegation to child agents (\<^verbatim>\<open>legion-runtime/src/subagent.rs\<close>): the depth limit, the semaphore
  of concurrent children, the request of a child run, the collection of its events under a deadline
  and the sidechain transcript. The stream of a run is the list of its events, each with the
  milliseconds it keeps the reader waiting, and the wait for its end.
\<close>

subsection \<open>Definitions\<close>

datatype SubagentKind = Typed string | Fork

record SubagentRequest =
  sq_kind :: SubagentKind
  sq_prompt :: string
  sq_model :: "string option"
  sq_allowed_tools :: "string list option"
  sq_parent_agent_id :: string
  sq_parent_depth :: "8 word"
  sq_system_prompt :: "string option"
  sq_history :: "ChatMessage list"
  sq_max_iterations :: "nat option"
  sq_timeout :: "nat option"

datatype SubagentStatus = SubCompleted | SubFailed string | SubTimedOut | SubAborted

fun SubagentStatus_display :: "SubagentStatus \<Rightarrow> string" where
  "SubagentStatus_display SubCompleted = ''completed''"
| "SubagentStatus_display (SubFailed e) = ''failed: '' @ e"
| "SubagentStatus_display SubTimedOut = ''timed_out''"
| "SubagentStatus_display SubAborted = ''aborted''"

record SubagentResult =
  sr_handle_id :: string
  sr_text :: string
  sr_tool_call_count :: nat
  sr_transcript_path :: "path option"
  sr_status :: SubagentStatus

datatype SubagentError = DepthLimit "8 word" "8 word" | Concurrency | Validation string | Join string

record SubagentConfig =
  sg_max_concurrent :: nat
  sg_default_timeout_ms :: nat
  sg_default_max_iterations :: "nat option"
  sg_max_depth :: "8 word"

text \<open>\<open>u8::saturating_add\<close>.\<close>

definition saturating_add :: "8 word \<Rightarrow> 8 word \<Rightarrow> 8 word" where
  "saturating_add a b = (if unat a + unat b < 256 then a + b else 255)"

record run_stream =
  rn_events :: "(nat \<times> RunEvent) list"
  rn_end_gap :: nat

type_synonym collected = "string \<times> nat \<times> RunEvent list \<times> string option \<times> bool"

fun stops :: "RunEvent \<Rightarrow> bool" where
  "stops (Lifecycle phase _) \<longleftrightarrow> phase = End \<or> phase = ErrorPhase"
| "stops _ \<longleftrightarrow> False"

fun note_event :: "RunEvent \<Rightarrow> string \<times> nat \<times> string option \<Rightarrow> string \<times> nat \<times> string option" where
  "note_event (AssistantDelta d) (t, c, err) = (t @ d, c, err)"
| "note_event (ToolEnd _ _ _) (t, c, err) = (t, c + 1, err)"
| "note_event (Lifecycle phase error) (t, c, err) = (t, c, if phase = ErrorPhase then error else err)"
| "note_event _ acc = acc"

text \<open>\<open>left\<close> is the time to the deadline.\<close>

fun collect_loop :: "nat \<Rightarrow> (nat \<times> RunEvent) list \<Rightarrow> nat \<Rightarrow> RunEvent list \<Rightarrow> string \<times> nat \<times> string option \<Rightarrow> collected" where
  "collect_loop left [] end_gap events (t, c, err) =
     (if end_gap \<le> left then (t, c, events, err, False) else ([], 0, events, None, True))"
| "collect_loop left ((gap, ev) # evs) end_gap events (t, c, err) =
     (if left < gap then ([], 0, events, None, True)
      else
        let (t', c', err') = note_event ev (t, c, err)
        in if stops ev then (t', c', events @ [ev], err', False)
           else collect_loop (left - gap) evs end_gap (events @ [ev]) (t', c', err'))"

definition collect :: "run_stream \<Rightarrow> nat \<Rightarrow> collected" where
  "collect stream timeout = collect_loop timeout (rn_events stream) (rn_end_gap stream) [] ([], 0, None)"

text \<open>The agent runtime, as far as a child run uses it: its routers by agent, its configuration, its
  session directories, the serialization of events, and its runs.\<close>

record 'w agent_runtime =
  ar_router :: "string \<Rightarrow> 'w ProviderRouter option"
  ar_config :: AgentsConfig
  ar_sessions :: "string \<Rightarrow> path"
  ar_event_line :: "RunEvent \<Rightarrow> (string, string) result"
  ar_run :: "RunRequest \<Rightarrow> (RuntimeError, run_stream) result"

definition drive :: "'w agent_runtime \<Rightarrow> RunRequest \<Rightarrow> nat \<Rightarrow> (string, collected) result" where
  "drive runtime request timeout =
     (case ar_run runtime request of
        Inl e \<Rightarrow> Inl (RuntimeError_display e)
      | Inr stream \<Rightarrow> Inr (collect stream timeout))"

text \<open>Events that cannot be serialized are left out.\<close>

definition sidechain_text :: "'w agent_runtime \<Rightarrow> RunEvent list \<Rightarrow> string" where
  "sidechain_text runtime events =
     concat (map (\<lambda>ev. case ar_event_line runtime ev of Inr line \<Rightarrow> line @ [LF] | Inl _ \<Rightarrow> []) events)"

definition write_sidechain ::
  "'w agent_runtime \<Rightarrow> faults \<Rightarrow> string \<Rightarrow> string \<Rightarrow> RunEvent list \<Rightarrow> files \<Rightarrow> path option \<times> files" where
  "write_sidechain runtime faults child handle_id events fs =
     (case fs_create_dir_all faults (ar_sessions runtime child) of
        Inl _ \<Rightarrow> (None, fs)
      | Inr _ \<Rightarrow>
          (let path = ar_sessions runtime child @ [Normal (''subagent-'' @ handle_id @ ''.jsonl'')]
           in case fs_write faults path (sidechain_text runtime events) fs of
                (Inr _, fs') \<Rightarrow> (Some path, fs')
              | (Inl _, fs') \<Rightarrow> (None, fs')))"

definition child_agent :: "SubagentRequest \<Rightarrow> string" where
  "child_agent req = (case sq_kind req of Typed name \<Rightarrow> name | Fork \<Rightarrow> sq_parent_agent_id req)"

definition invalid_model :: "'w agent_runtime \<Rightarrow> SubagentRequest \<Rightarrow> string option" where
  "invalid_model runtime req =
     Option.bind (sq_model req) (\<lambda>explicit.
       map_option (\<lambda>err. ''invalid model '' @ quoted explicit @ '': '' @ err @
           ''. Omit the model parameter to inherit the default model, or pass a configured alias / provider-model ref'')
         (case ar_router runtime (child_agent req) of
            Some router \<Rightarrow>
              (case validate_model_ref router explicit of Inl e \<Rightarrow> Some (ProviderError_display e) | Inr _ \<Rightarrow> None)
          | None \<Rightarrow> Some (''no provider router for agent '' @ quoted (child_agent req))))"

definition child_request :: "'w agent_runtime \<Rightarrow> SubagentConfig \<Rightarrow> SubagentRequest \<Rightarrow> string \<Rightarrow> RunRequest" where
  "child_request runtime cfg req handle_id =
     (let child = child_agent req
      in (RunRequest_new (direct_session_key child ''subagent'' ''spawn'' ''local'' handle_id) child (sq_prompt req)
            (unwrap_or (sq_model req) (resolve_agent_model (ar_config runtime) child)))
           \<lparr>rr_interactive := False, rr_depth := saturating_add (sq_parent_depth req) 1,
            rr_max_iterations := or_opt (sq_max_iterations req) (sg_default_max_iterations cfg),
            rr_history := sq_history req, rr_allowed_tools := sq_allowed_tools req, rr_system_prompt := sq_system_prompt req\<rparr>)"

definition eff_timeout :: "SubagentConfig \<Rightarrow> SubagentRequest \<Rightarrow> nat" where
  "eff_timeout cfg req = unwrap_or (sq_timeout req) (sg_default_timeout_ms cfg)"

fun child_outcome :: "(string, collected) result \<Rightarrow> string \<times> nat \<times> SubagentStatus \<times> RunEvent list" where
  "child_outcome (Inr (_, _, ev, _, True)) = ([], 0, SubTimedOut, ev)"
| "child_outcome (Inr (t, c, ev, None, False)) = (t, c, SubCompleted, ev)"
| "child_outcome (Inr (t, c, ev, Some err, False)) = (t, c, SubFailed err, ev)"
| "child_outcome (Inl err) = ([], 0, SubFailed err, [])"

definition run_child ::
  "'w agent_runtime \<Rightarrow> SubagentConfig \<Rightarrow> SubagentRequest \<Rightarrow> string \<Rightarrow> faults \<Rightarrow> files \<Rightarrow> SubagentResult \<times> files" where
  "run_child runtime cfg req handle_id faults fs =
     (case invalid_model runtime req of
        Some reason \<Rightarrow>
          (\<lparr>sr_handle_id = handle_id, sr_text = [], sr_tool_call_count = 0, sr_transcript_path = None, sr_status = SubFailed reason\<rparr>, fs)
      | None \<Rightarrow>
          (let (t, c, status, events) = child_outcome (drive runtime (child_request runtime cfg req handle_id) (eff_timeout cfg req));
               (path, fs') = write_sidechain runtime faults (child_agent req) handle_id events fs
           in (\<lparr>sr_handle_id = handle_id, sr_text = t, sr_tool_call_count = c, sr_transcript_path = path, sr_status = status\<rparr>, fs')))"

subsection \<open>The spawner\<close>

text \<open>The free permits, the counter of handles, and the children that run, by handle.\<close>

record spawner =
  sp_cfg :: SubagentConfig
  sp_permits :: nat
  sp_counter :: nat
  sp_running :: "(string \<times> SubagentRequest) list"

definition RuntimeSubagentSpawner_new :: "SubagentConfig \<Rightarrow> spawner" where
  "RuntimeSubagentSpawner_new cfg = \<lparr>sp_cfg = cfg, sp_permits = max (sg_max_concurrent cfg) 1, sp_counter = 1, sp_running = []\<rparr>"

definition next_handle_id :: "spawner \<Rightarrow> string" where
  "next_handle_id sp = ''sub-'' @ show_nat (sp_counter sp)"

definition depth_ok :: "SubagentConfig \<Rightarrow> SubagentRequest \<Rightarrow> bool" where
  "depth_ok cfg req \<longleftrightarrow> \<not> saturating_add (sq_parent_depth req) 1 > sg_max_depth cfg"

text \<open>A spawn: refused at once when too deep, otherwise it waits for a permit. \<open>granted\<close> says whether
  the wait ends with one; the caller that waits is resumed when a permit is free.\<close>

definition spawn_child :: "SubagentRequest \<Rightarrow> bool \<Rightarrow> spawner \<Rightarrow> (SubagentError, string) result \<times> spawner" where
  "spawn_child req granted sp =
     (if \<not> depth_ok (sp_cfg sp) req
      then (Inl (DepthLimit (saturating_add (sq_parent_depth req) 1) (sg_max_depth (sp_cfg sp))), sp)
      else if granted \<and> sp_permits sp > 0
      then (Inr (next_handle_id sp),
            sp\<lparr>sp_permits := sp_permits sp - 1, sp_counter := Suc (sp_counter sp), sp_running := (next_handle_id sp, req) # sp_running sp\<rparr>)
      else (Inl Concurrency, sp))"

text \<open>A child ends, by finishing or by a panic: its permit is dropped with its task.\<close>

definition child_ends :: "string \<Rightarrow> spawner \<Rightarrow> spawner" where
  "child_ends h sp =
     (if h \<in> fst ` set (sp_running sp)
      then sp\<lparr>sp_permits := Suc (sp_permits sp), sp_running := filter (\<lambda>c. fst c \<noteq> h) (sp_running sp)\<rparr> else sp)"

datatype spawner_op = SpawnOp SubagentRequest bool | EndOp string

fun spawner_step :: "spawner_op \<Rightarrow> spawner \<Rightarrow> spawner" where
  "spawner_step (SpawnOp req granted) sp = snd (spawn_child req granted sp)"
| "spawner_step (EndOp h) sp = child_ends h sp"

subsection \<open>Limits\<close>

definition permits :: "SubagentConfig \<Rightarrow> nat" where
  "permits cfg = max (sg_max_concurrent cfg) 1"

definition spawner_ok :: "SubagentConfig \<Rightarrow> spawner \<Rightarrow> bool" where
  "spawner_ok cfg sp \<longleftrightarrow> sp_cfg sp = cfg \<and> length (sp_running sp) + sp_permits sp = permits cfg \<and>
     distinct (map fst (sp_running sp)) \<and> (\<forall>h\<in>fst ` set (sp_running sp). \<exists>k < sp_counter sp. h = ''sub-'' @ show_nat k) \<and>
     (\<forall>c\<in>set (sp_running sp). depth_ok cfg (snd c))"

lemma filter_remove_one:
  "distinct (map fst xs) \<Longrightarrow> h \<in> fst ` set xs \<Longrightarrow> Suc (length (filter (\<lambda>c. fst c \<noteq> h) xs)) = length xs"
proof (induction xs)
  case (Cons x xs)
  show ?case
  proof (cases "fst x = h")
    case True
    then have "filter (\<lambda>c. fst c \<noteq> h) xs = xs" using Cons.prems(1) by (intro filter_True) (auto simp: image_iff)
    then show ?thesis using True by simp
  qed (use Cons in auto)
qed simp

lemma spawner_ok_step [legion_inv]:
  assumes "spawner_ok cfg sp"
  shows "spawner_ok cfg (spawner_step op sp)"
proof (cases op)
  case (SpawnOp req granted)
  show ?thesis
  proof (cases "depth_ok cfg req \<and> granted \<and> sp_permits sp > 0")
    case True
    have new: "next_handle_id sp \<notin> fst ` set (sp_running sp)"
    proof
      assume "next_handle_id sp \<in> fst ` set (sp_running sp)"
      then obtain k where "k < sp_counter sp" "next_handle_id sp = ''sub-'' @ show_nat k" using assms by (auto simp: spawner_ok_def)
      then show False by (simp add: next_handle_id_def)
    qed
    have old: "\<exists>k<Suc (sp_counter sp). h = ''sub-'' @ show_nat k" if "h \<in> fst ` set (sp_running sp)" for h
      using assms that less_SucI unfolding spawner_ok_def by meson
    have first: "\<exists>k<Suc (sp_counter sp). next_handle_id sp = ''sub-'' @ show_nat k" by (auto simp: next_handle_id_def)
    show ?thesis
      using True assms SpawnOp new old first by (auto simp: spawner_ok_def spawn_child_def)
  qed (use assms SpawnOp in \<open>auto simp: spawn_child_def spawner_ok_def\<close>)
next
  case (EndOp h)
  have "distinct (map fst (filter (\<lambda>c. fst c \<noteq> h) (sp_running sp)))" using assms by (simp add: spawner_ok_def distinct_map_filter)
  moreover have "Suc (length (filter (\<lambda>c. fst c \<noteq> h) (sp_running sp))) = length (sp_running sp)" if "h \<in> fst ` set (sp_running sp)"
    using filter_remove_one [OF _ that] assms by (simp add: spawner_ok_def)
  ultimately show ?thesis using assms EndOp
    by (cases "h \<in> fst ` set (sp_running sp)") (simp_all add: spawner_ok_def child_ends_def)
qed

lemma spawner_ok_run:
  "spawner_ok cfg sp \<Longrightarrow> spawner_ok cfg (fold spawner_step ops sp)"
  by (induction ops arbitrary: sp) (auto intro: spawner_ok_step)

text \<open>Over every sequence of spawns and ends of children, the children that run and the free permits
  always add up to the configured concurrency (at least one), so no more children run at once; running
  children have distinct handles and none is nested deeper than the configured depth.
\<close>

theorem children_bounded:
  "spawner_ok cfg (fold spawner_step ops (RuntimeSubagentSpawner_new cfg)) \<and>
   length (sp_running (fold spawner_step ops (RuntimeSubagentSpawner_new cfg))) \<le> permits cfg"
proof -
  have "spawner_ok cfg (RuntimeSubagentSpawner_new cfg)"
    by (simp add: spawner_ok_def RuntimeSubagentSpawner_new_def permits_def)
  from spawner_ok_run [OF this, of ops] show ?thesis by (auto simp: spawner_ok_def)
qed

text \<open>A chain of nested children: each is spawned by a run at the depth of the one before.\<close>

fun nested :: "SubagentConfig \<Rightarrow> 8 word \<Rightarrow> SubagentRequest list \<Rightarrow> bool" where
  "nested cfg depth [] \<longleftrightarrow> True"
| "nested cfg depth (req # reqs) \<longleftrightarrow>
     sq_parent_depth req = depth \<and> depth_ok cfg req \<and> nested cfg (saturating_add depth 1) reqs"

lemma saturating_add_small: "unat d < 255 \<Longrightarrow> unat (saturating_add d 1) = unat d + 1"
proof -
  assume d: "unat d < 255"
  then have "unat (d + 1) = unat d + 1" by (subst unat_add_lem [THEN iffD1]) simp_all
  then show ?thesis using d by (simp add: saturating_add_def)
qed

lemma nested_length:
  "nested cfg d reqs \<Longrightarrow> unat (sg_max_depth cfg) < 255 \<Longrightarrow> unat d \<le> unat (sg_max_depth cfg) \<Longrightarrow>
     unat d + length reqs \<le> unat (sg_max_depth cfg)"
proof (induction cfg d reqs rule: nested.induct)
  case (2 cfg d req reqs)
  have d: "unat (saturating_add d 1) = unat d + 1" using 2 by (intro saturating_add_small) simp
  have "unat (saturating_add d 1) \<le> unat (sg_max_depth cfg)"
    using 2(2) by (auto simp: depth_ok_def word_less_nat_alt)
  then show ?case using 2 d by simp
qed simp

text \<open>Nesting is bounded by the configured depth: from a run at depth 0, every chain of children of
  children has at most \<open>max_depth\<close> links, for every limit below 255.
\<close>

theorem nesting_bounded:
  assumes "sg_max_depth cfg < 255" and "nested cfg 0 reqs"
  shows "length reqs \<le> unat (sg_max_depth cfg)"
proof -
  have "unat (sg_max_depth cfg) < 255" using assms(1) by (simp add: word_less_nat_alt)
  then show ?thesis using nested_length [OF assms(2)] by simp
qed

text \<open>With the limit 255 nesting is not bounded at all: the depth counter saturates, so a child at depth
  255 may spawn again, and there are chains of every length.
\<close>

definition demo_spawn :: "8 word \<Rightarrow> SubagentRequest" where
  "demo_spawn depth = \<lparr>sq_kind = Fork, sq_prompt = ''go'', sq_model = None, sq_allowed_tools = None, sq_parent_agent_id = ''main'',
     sq_parent_depth = depth, sq_system_prompt = None, sq_history = [], sq_max_iterations = None, sq_timeout = None\<rparr>"

definition demo_limits :: "8 word \<Rightarrow> SubagentConfig" where
  "demo_limits max_depth = \<lparr>sg_max_concurrent = 4, sg_default_timeout_ms = 600000, sg_default_max_iterations = None, sg_max_depth = max_depth\<rparr>"

fun deep :: "nat \<Rightarrow> 8 word \<Rightarrow> SubagentRequest list" where
  "deep 0 d = []"
| "deep (Suc n) d = demo_spawn d # deep n (saturating_add d 1)"

lemma word_le_255: "(x :: 8 word) \<le> 255"
  using unsigned_less [of x, where ?'a = nat] by (simp add: word_le_nat_alt)

lemma deep_nested: "nested (demo_limits 255) d (deep n d) \<and> length (deep n d) = n"
  by (induction n arbitrary: d) (auto simp: depth_ok_def demo_limits_def demo_spawn_def word_le_255 not_less)

theorem depth_255_unbounded: "\<exists>reqs. length reqs = n \<and> nested (demo_limits 255) 0 reqs"
  using deep_nested [of 0 n] by blast

theorem nesting_bounded_witness: "nested (demo_limits 2) 0 (deep 2 0) \<and> length (deep 2 0) \<le> unat (sg_max_depth (demo_limits 2))"
proof -
  have "sg_max_depth (demo_limits 2) < 255" by (simp add: demo_limits_def)
  moreover have "nested (demo_limits 2) 0 (deep 2 0)"
    by (simp add: demo_limits_def demo_spawn_def depth_ok_def saturating_add_def numeral_2_eq_2)
  ultimately show ?thesis using nesting_bounded by blast
qed

subsection \<open>Collecting a run\<close>

text \<open>The events of a run up to and including the one that ends it.\<close>

fun upto_stop :: "(nat \<times> RunEvent) list \<Rightarrow> (nat \<times> RunEvent) list" where
  "upto_stop [] = []"
| "upto_stop ((gap, ev) # evs) = (gap, ev) # (if stops ev then [] else upto_stop evs)"

definition total_time :: "run_stream \<Rightarrow> nat" where
  "total_time stream = sum_list (map fst (upto_stop (rn_events stream))) +
     (if list_ex (stops \<circ> snd) (rn_events stream) then 0 else rn_end_gap stream)"

fun takeWhile_time :: "nat \<Rightarrow> (nat \<times> RunEvent) list \<Rightarrow> (nat \<times> RunEvent) list" where
  "takeWhile_time left [] = []"
| "takeWhile_time left ((gap, ev) # evs) = (if gap \<le> left then (gap, ev) # takeWhile_time (left - gap) evs else [])"

lemma collect_loop_spec:
  "collect_loop left evs end_gap events (t, c, err) =
     (if sum_list (map fst (upto_stop evs)) + (if list_ex (stops \<circ> snd) evs then 0 else end_gap) \<le> left
      then (let (t', c', err') = fold note_event (map snd (upto_stop evs)) (t, c, err)
            in (t', c', events @ map snd (upto_stop evs), err', False))
      else ([], 0, events @ map snd (takeWhile_time left evs), None, True))"
proof (induction evs arbitrary: left events t c err)
  case (Cons e evs)
  obtain gap ev where e: "e = (gap, ev)" by fastforce
  obtain t' c' err' where n: "note_event ev (t, c, err) = (t', c', err')" by (metis prod_cases3)
  show ?case
  proof (cases "left < gap \<or> stops ev")
    case True
    then show ?thesis using n e by auto
  next
    case False
    then show ?thesis using Cons [of "left - gap" "events @ [ev]" t' c' err'] n e by (auto simp: Let_def)
  qed
qed (auto simp: Let_def)

text \<open>What a child run reports is what it did. When the run ends within its time, all events up to the one
  that ends it are collected, the text is its deltas in order, the count that of its tool results, and it
  failed exactly if its error event carries a message; otherwise it is reported as timed out, with no text
  and with exactly the events that arrived before the deadline.
\<close>

theorem collect_exact:
  "collect stream timeout =
     (if total_time stream \<le> timeout
      then (let (t, c, err) = fold note_event (map snd (upto_stop (rn_events stream))) ([], 0, None)
            in (t, c, map snd (upto_stop (rn_events stream)), err, False))
      else ([], 0, map snd (takeWhile_time timeout (rn_events stream)), None, True))"
  by (simp add: collect_def total_time_def collect_loop_spec)

end
