(* ===== verification/Swarm.thy ===== *)
theory Swarm
  imports Subagent "HOL-Library.AList" "HOL-Library.List_Lexorder" "HOL-Library.Char_ord"
begin

text \<open>
  The swarm of named teammates (\<^verbatim>\<open>legion-runtime/src/swarm.rs\<close>): mailboxes, the supervisor task that
  drives a teammate through its turns, and the interleaving of supervisors with senders. Every section
  of the source that holds the lock is one step. The outcome of a turn is that of the spawner: the
  text of the child or an error.
\<close>

subsection \<open>Definitions\<close>

definition DEFAULT_MAX_TEAMMATES :: nat where
  "DEFAULT_MAX_TEAMMATES = 8"

definition DEFAULT_MAILBOX_CAPACITY :: nat where
  "DEFAULT_MAILBOX_CAPACITY = 16"

definition MAX_HISTORY_MESSAGES :: nat where
  "MAX_HISTORY_MESSAGES = 40"

definition LAST_RESULT_CHARS :: nat where
  "LAST_RESULT_CHARS = 500"

record SwarmMessage =
  sm_from :: string
  sm_text :: string

datatype TeammateStatus = TeammateRunning | TeammateIdle

record TeammateInfo =
  tf_name :: string
  tf_agent_type :: string
  tf_status :: TeammateStatus
  tf_turns :: "32 word"
  tf_mailbox_depth :: nat
  tf_last_result :: "string option"

datatype SwarmError =
    InvalidName string
  | AlreadyExists string
  | UnknownTeammate string
  | MailboxFull string nat
  | TooManyTeammates nat

record Teammate =
  tm_agent_type :: string
  tm_parent_agent_id :: string
  tm_parent_depth :: "8 word"
  tm_allowed_tools :: "string list option"
  tm_status :: TeammateStatus
  tm_mailbox :: "SwarmMessage list"
  tm_history :: "ChatMessage list"
  tm_last_result :: "string option"
  tm_turns :: "32 word"

record SwarmManager =
  sw_teammates :: "(string \<times> Teammate) list"
  sw_max_teammates :: nat
  sw_mailbox_capacity :: nat

definition SwarmManager_with_limits :: "nat \<Rightarrow> nat \<Rightarrow> SwarmManager" where
  "SwarmManager_with_limits max_teammates mailbox_capacity =
     \<lparr>sw_teammates = [], sw_max_teammates = max_teammates, sw_mailbox_capacity = mailbox_capacity\<rparr>"

definition SwarmManager_new :: SwarmManager where
  "SwarmManager_new = SwarmManager_with_limits DEFAULT_MAX_TEAMMATES DEFAULT_MAILBOX_CAPACITY"

definition name_char :: "char \<Rightarrow> bool" where
  "name_char c \<longleftrightarrow> is_ascii_upper c \<or> is_ascii_lower c \<or> is_ascii_digit c \<or> c \<in> {CHR ''.'', CHR ''_'', CHR ''-''}"

definition validate_teammate_name :: "string \<Rightarrow> (SwarmError, unit) result" where
  "validate_teammate_name name =
     (if name \<noteq> [] \<and> length name \<le> 32 \<and> list_all name_char name then Inr () else Inl (InvalidName name))"

definition render_mailbox :: "SwarmMessage list \<Rightarrow> string" where
  "render_mailbox messages =
     ''[swarm mailbox: '' @ show_nat (length messages) @ '' message(s)]'' @
     concat (map (\<lambda>m. [LF] @ ''from '' @ sm_from m @ '': '' @ sm_text m) messages)"

definition truncate_chars :: "string \<Rightarrow> nat \<Rightarrow> string" where
  "truncate_chars s n = (if char_count s \<le> n then s else take_chars n s)"

definition new_teammate :: "string \<Rightarrow> string \<Rightarrow> 8 word \<Rightarrow> string list option \<Rightarrow> Teammate" where
  "new_teammate agent_type parent_agent_id parent_depth allowed_tools =
     \<lparr>tm_agent_type = agent_type, tm_parent_agent_id = parent_agent_id, tm_parent_depth = parent_depth,
      tm_allowed_tools = allowed_tools, tm_status = TeammateRunning, tm_mailbox = [], tm_history = [],
      tm_last_result = None, tm_turns = 0\<rparr>"

text \<open>The supervisor to start is part of the result: the teammate and its first prompt, if any.\<close>

definition spawn_teammate ::
  "string \<Rightarrow> string \<Rightarrow> string \<Rightarrow> string \<Rightarrow> 8 word \<Rightarrow> string list option \<Rightarrow> SwarmManager \<Rightarrow>
     (SwarmError, (string \<times> string option) list) result \<times> SwarmManager" where
  "spawn_teammate name agent_type prompt parent_agent_id parent_depth allowed_tools sw =
     (case validate_teammate_name name of
        Inl e \<Rightarrow> (Inl e, sw)
      | Inr _ \<Rightarrow>
          if map_of (sw_teammates sw) name \<noteq> None then (Inl (AlreadyExists name), sw)
          else if sw_max_teammates sw \<le> length (sw_teammates sw) then (Inl (TooManyTeammates (sw_max_teammates sw)), sw)
          else (Inr [(name, Some prompt)],
                sw\<lparr>sw_teammates := AList.update name (new_teammate agent_type parent_agent_id parent_depth allowed_tools) (sw_teammates sw)\<rparr>))"

definition swarm_send ::
  "string \<Rightarrow> string \<Rightarrow> string \<Rightarrow> SwarmManager \<Rightarrow> (SwarmError, (string \<times> string option) list) result \<times> SwarmManager" where
  "swarm_send sender to msg sw =
     (case map_of (sw_teammates sw) to of
        None \<Rightarrow> (Inl (UnknownTeammate to), sw)
      | Some tm \<Rightarrow>
          if sw_mailbox_capacity sw \<le> length (tm_mailbox tm) then (Inl (MailboxFull to (sw_mailbox_capacity sw)), sw)
          else
            (let tm' = tm\<lparr>tm_mailbox := tm_mailbox tm @ [\<lparr>sm_from = sender, sm_text = msg\<rparr>], tm_status := TeammateRunning\<rparr>
             in (Inr (if tm_status tm = TeammateIdle then [(to, None)] else []),
                 sw\<lparr>sw_teammates := AList.update to tm' (sw_teammates sw)\<rparr>)))"

definition swarm_status :: "SwarmManager \<Rightarrow> TeammateInfo list" where
  "swarm_status sw = sort_key tf_name (map (\<lambda>(name, tm).
     \<lparr>tf_name = name, tf_agent_type = tm_agent_type tm, tf_status = tm_status tm, tf_turns = tm_turns tm,
      tf_mailbox_depth = length (tm_mailbox tm), tf_last_result = tm_last_result tm\<rparr>) (sw_teammates sw))"

definition history_len :: "string \<Rightarrow> SwarmManager \<Rightarrow> nat option" where
  "history_len name sw = map_option (length \<circ> tm_history) (map_of (sw_teammates sw) name)"

text \<open>The sections of a supervisor. The first drains the mailbox into a prompt or goes idle.\<close>

definition drain_or_idle :: "Teammate \<Rightarrow> string option \<times> Teammate" where
  "drain_or_idle tm =
     (if tm_mailbox tm = [] then (None, tm\<lparr>tm_status := TeammateIdle\<rparr>)
      else (Some (render_mailbox (tm_mailbox tm)), tm\<lparr>tm_mailbox := []\<rparr>))"

definition sup_resolve :: "string \<Rightarrow> SwarmManager \<Rightarrow> string option \<times> SwarmManager" where
  "sup_resolve name sw =
     (case map_of (sw_teammates sw) name of
        None \<Rightarrow> (None, sw)
      | Some tm \<Rightarrow> (let (next, tm') = drain_or_idle tm in (next, sw\<lparr>sw_teammates := AList.update name tm' (sw_teammates sw)\<rparr>)))"

definition sup_request :: "string \<Rightarrow> string \<Rightarrow> SwarmManager \<Rightarrow> SubagentRequest option" where
  "sup_request name prompt sw =
     map_option (\<lambda>tm. \<lparr>sq_kind = Typed (tm_agent_type tm), sq_prompt = prompt, sq_model = None, sq_allowed_tools = tm_allowed_tools tm,
        sq_parent_agent_id = tm_parent_agent_id tm, sq_parent_depth = tm_parent_depth tm, sq_system_prompt = None,
        sq_history = tm_history tm, sq_max_iterations = None, sq_timeout = None\<rparr>)
       (map_of (sw_teammates sw) name)"

definition record_turn :: "string \<Rightarrow> string \<Rightarrow> Teammate \<Rightarrow> Teammate" where
  "record_turn prompt result_text tm =
     (let history = tm_history tm @ [ChatMessage_user prompt, ChatMessage_assistant result_text]
      in tm\<lparr>tm_history := drop (length history - MAX_HISTORY_MESSAGES) history,
            tm_last_result := Some (truncate_chars result_text LAST_RESULT_CHARS), tm_turns := tm_turns tm + 1\<rparr>)"

definition sup_finish :: "string \<Rightarrow> string \<Rightarrow> (string, string) result \<Rightarrow> SwarmManager \<Rightarrow> string option \<times> SwarmManager" where
  "sup_finish name prompt outcome sw =
     (case map_of (sw_teammates sw) name of
        None \<Rightarrow> (None, sw)
      | Some tm \<Rightarrow>
          (case outcome of
             Inl err \<Rightarrow>
               (None, sw\<lparr>sw_teammates := AList.update name
                  (tm\<lparr>tm_last_result := Some (''turn failed: '' @ err), tm_status := TeammateIdle\<rparr>) (sw_teammates sw)\<rparr>)
           | Inr result_text \<Rightarrow>
               (let (next, tm') = drain_or_idle (record_turn prompt result_text tm)
                in (next, sw\<lparr>sw_teammates := AList.update name tm' (sw_teammates sw)\<rparr>))))"

subsection \<open>Interleaving\<close>

text \<open>Where a supervisor stands: about to take its prompt, about to make its request, waiting for the
  turn, or ended. The events are the calls of clients and the steps of supervisors, in any order; an
  event that does not apply changes nothing.\<close>

datatype sup = Awake "string option" | Prompted string | InTurn string SubagentRequest | Asleep

record swarm_state =
  wz_swarm :: SwarmManager
  wz_sups :: "(string \<times> sup) list"

datatype swarm_event =
    SpawnEv string string string string "8 word" "string list option"
  | SendEv string string string
  | ResolveEv nat
  | RequestEv nat
  | OutcomeEv nat "(string, string) result"

definition start_sups :: "(SwarmError, (string \<times> string option) list) result \<times> SwarmManager \<Rightarrow> swarm_state \<Rightarrow> swarm_state" where
  "start_sups r s =
     (case r of
        (Inl _, sw) \<Rightarrow> s\<lparr>wz_swarm := sw\<rparr>
      | (Inr new, sw) \<Rightarrow> s\<lparr>wz_swarm := sw, wz_sups := wz_sups s @ map (\<lambda>(n, p). (n, Awake p)) new\<rparr>)"

definition prompt_or_end :: "string option \<Rightarrow> sup" where
  "prompt_or_end next = (case next of Some p \<Rightarrow> Prompted p | None \<Rightarrow> Asleep)"

fun swarm_exec :: "swarm_event \<Rightarrow> swarm_state \<Rightarrow> swarm_state" where
  "swarm_exec (SpawnEv name agent_type prompt parent depth allowed) s =
     start_sups (spawn_teammate name agent_type prompt parent depth allowed (wz_swarm s)) s"
| "swarm_exec (SendEv sender to msg) s = start_sups (swarm_send sender to msg (wz_swarm s)) s"
| "swarm_exec (ResolveEv i) s =
     (if i < length (wz_sups s) then
        (case wz_sups s ! i of
           (name, Awake (Some p)) \<Rightarrow> s\<lparr>wz_sups := (wz_sups s)[i := (name, Prompted p)]\<rparr>
         | (name, Awake None) \<Rightarrow>
             (let (next, sw) = sup_resolve name (wz_swarm s)
              in s\<lparr>wz_swarm := sw, wz_sups := (wz_sups s)[i := (name, prompt_or_end next)]\<rparr>)
         | _ \<Rightarrow> s)
      else s)"
| "swarm_exec (RequestEv i) s =
     (if i < length (wz_sups s) then
        (case wz_sups s ! i of
           (name, Prompted p) \<Rightarrow>
             s\<lparr>wz_sups := (wz_sups s)[i := (name, case sup_request name p (wz_swarm s) of Some req \<Rightarrow> InTurn p req | None \<Rightarrow> Asleep)]\<rparr>
         | _ \<Rightarrow> s)
      else s)"
| "swarm_exec (OutcomeEv i outcome) s =
     (if i < length (wz_sups s) then
        (case wz_sups s ! i of
           (name, InTurn p req) \<Rightarrow>
             (let (next, sw) = sup_finish name p outcome (wz_swarm s)
              in s\<lparr>wz_swarm := sw, wz_sups := (wz_sups s)[i := (name, prompt_or_end next)]\<rparr>)
         | _ \<Rightarrow> s)
      else s)"

definition swarm_run :: "nat \<Rightarrow> nat \<Rightarrow> swarm_event list \<Rightarrow> swarm_state" where
  "swarm_run max_teammates capacity events =
     fold swarm_exec events \<lparr>wz_swarm = SwarmManager_with_limits max_teammates capacity, wz_sups = []\<rparr>"

subsection \<open>The invariant\<close>

abbreviation team :: "swarm_state \<Rightarrow> string \<Rightarrow> Teammate option" where
  "team s \<equiv> map_of (sw_teammates (wz_swarm s))"

definition live :: "string \<Rightarrow> (string \<times> sup) list \<Rightarrow> nat" where
  "live n sups = length (filter (\<lambda>(m, x). m = n \<and> x \<noteq> Asleep) sups)"

definition tm_ok :: "nat \<Rightarrow> Teammate \<Rightarrow> bool" where
  "tm_ok capacity tm \<longleftrightarrow> length (tm_mailbox tm) \<le> capacity \<and> length (tm_history tm) \<le> MAX_HISTORY_MESSAGES \<and> even (length (tm_history tm))"

definition running :: "Teammate \<Rightarrow> nat" where
  "running tm = (if tm_status tm = TeammateRunning then 1 else 0)"

definition swarm_ok :: "nat \<Rightarrow> nat \<Rightarrow> swarm_state \<Rightarrow> bool" where
  "swarm_ok max_teammates capacity s \<longleftrightarrow>
     sw_max_teammates (wz_swarm s) = max_teammates \<and> sw_mailbox_capacity (wz_swarm s) = capacity \<and>
     distinct (map fst (sw_teammates (wz_swarm s))) \<and> length (sw_teammates (wz_swarm s)) \<le> max_teammates \<and>
     (\<forall>n. case team s n of None \<Rightarrow> live n (wz_sups s) = 0 | Some tm \<Rightarrow> tm_ok capacity tm \<and> live n (wz_sups s) = running tm)"

lemma swarm_okD:
  assumes "swarm_ok mx cap s"
  shows "team s n = None \<Longrightarrow> live n (wz_sups s) = 0"
    and "team s n = Some tm \<Longrightarrow> tm_ok cap tm \<and> live n (wz_sups s) = running tm"
proof -
  have "case team s n of None \<Rightarrow> live n (wz_sups s) = 0 | Some tm \<Rightarrow> tm_ok cap tm \<and> live n (wz_sups s) = running tm"
    using assms unfolding swarm_ok_def by blast
  then show "team s n = None \<Longrightarrow> live n (wz_sups s) = 0"
    and "team s n = Some tm \<Longrightarrow> tm_ok cap tm \<and> live n (wz_sups s) = running tm" by simp_all
qed

lemma live_simps [simp]:
  "live n [] = 0" "live n (sups @ sups') = live n sups + live n sups'"
  "live n ((m, x) # sups) = (if m = n \<and> x \<noteq> Asleep then 1 else 0) + live n sups"
  by (simp_all add: live_def)

lemma live_update:
  "i < length sups \<Longrightarrow> sups ! i = (m, x) \<Longrightarrow> x \<noteq> Asleep \<Longrightarrow>
     live n (sups[i := (m, y)]) + (if m = n then 1 else 0) = live n sups + (if m = n \<and> y \<noteq> Asleep then 1 else 0)"
proof (induction sups arbitrary: i)
  case (Cons z sups)
  obtain m' x' where z: "z = (m', x')" by fastforce
  show ?case
  proof (cases i)
    case 0
    then show ?thesis using Cons.prems z by simp
  next
    case (Suc j)
    then show ?thesis using Cons.IH [of j] Cons.prems z by auto
  qed
qed simp

lemma length_alist_update:
  "length (AList.update k v al) = (if k \<in> fst ` set al then length al else Suc (length al))"
  by (induction al) auto

lemma swarm_ok_put:
  assumes "swarm_ok mx cap s" "tm_ok cap tm'"
    and "team s n = None \<Longrightarrow> length (sw_teammates (wz_swarm s)) < mx"
    and "live n sups = running tm'" "\<And>m. m \<noteq> n \<Longrightarrow> live m sups = live m (wz_sups s)"
  shows "swarm_ok mx cap (s\<lparr>wz_swarm := (wz_swarm s)\<lparr>sw_teammates := AList.update n tm' (sw_teammates (wz_swarm s))\<rparr>, wz_sups := sups\<rparr>)"
proof -
  let ?ts = "sw_teammates (wz_swarm s)"
  have "n \<in> fst ` set ?ts \<or> length ?ts < mx" using assms(3) by (force simp: map_of_eq_None_iff)
  then have "length (AList.update n tm' ?ts) \<le> mx" using assms(1) by (auto simp: length_alist_update swarm_ok_def)
  moreover have "distinct (map fst (AList.update n tm' ?ts))" using assms(1) by (simp add: swarm_ok_def distinct_update)
  moreover have "case ((team s)(n \<mapsto> tm')) m of None \<Rightarrow> live m sups = 0 | Some tm \<Rightarrow> tm_ok cap tm \<and> live m sups = running tm" for m
    using assms(2,4,5) swarm_okD [OF assms(1), of m] by (cases "m = n"; cases "team s m") auto
  ultimately show ?thesis using assms(1)
    by (simp add: swarm_ok_def update_conv' del: fun_upd_apply cong: option.case_cong)
qed

lemma drain_or_idle_ok:
  assumes "drain_or_idle tm = (next, tm')" "tm_ok cap tm" "tm_status tm = TeammateRunning"
  shows "tm_ok cap tm' \<and> running tm' = (if next = None then 0 else 1)"
  using assms by (auto simp: drain_or_idle_def tm_ok_def running_def split: if_splits)

lemma record_turn_ok: "tm_ok cap tm \<Longrightarrow> tm_ok cap (record_turn prompt result tm) \<and> tm_status (record_turn prompt result tm) = tm_status tm"
  by (auto simp: tm_ok_def record_turn_def Let_def MAX_HISTORY_MESSAGES_def)

text \<open>A supervisor that has not ended belongs to a teammate that runs, and is its only one.\<close>

lemma live_supervisor:
  assumes "swarm_ok mx cap s" "i < length (wz_sups s)" "wz_sups s ! i = (n, x)" "x \<noteq> Asleep"
  obtains tm where "team s n = Some tm" "tm_ok cap tm" "tm_status tm = TeammateRunning" "live n (wz_sups s) = 1"
proof -
  have "live n ((wz_sups s)[i := (n, Asleep)]) + 1 = live n (wz_sups s)" using live_update [OF assms(2,3,4), of n Asleep] by simp
  then have "live n (wz_sups s) > 0" by simp
  then show thesis using assms(1) that unfolding swarm_ok_def
    by (fastforce simp: running_def split: option.splits if_splits)
qed

lemma swarm_ok_sups:
  assumes "swarm_ok mx cap s" "i < length (wz_sups s)" "wz_sups s ! i = (n, x)" "x \<noteq> Asleep" "y \<noteq> Asleep"
  shows "swarm_ok mx cap (s\<lparr>wz_sups := (wz_sups s)[i := (n, y)]\<rparr>)"
proof -
  have "live m ((wz_sups s)[i := (n, y)]) = live m (wz_sups s)" for m using live_update [OF assms(2,3,4), of m y] assms(5) by (cases "n = m") auto
  then show ?thesis using assms(1) by (simp add: swarm_ok_def cong: option.case_cong)
qed

lemma swarm_ok_turn:
  assumes "swarm_ok mx cap s" "i < length (wz_sups s)" "wz_sups s ! i = (n, x)" "x \<noteq> Asleep"
    and "tm_ok cap tm'" "running tm' = (if next = None then 0 else 1)"
  shows "swarm_ok mx cap (s\<lparr>wz_swarm := (wz_swarm s)\<lparr>sw_teammates := AList.update n tm' (sw_teammates (wz_swarm s))\<rparr>,
    wz_sups := (wz_sups s)[i := (n, prompt_or_end next)]\<rparr>)"
proof -
  obtain tm where tm: "team s n = Some tm" "live n (wz_sups s) = 1" using live_supervisor [OF assms(1-4)] by blast
  have "live m ((wz_sups s)[i := (n, prompt_or_end next)]) =
      (if m = n then (if next = None then 0 else 1) else live m (wz_sups s))" for m
    using live_update [OF assms(2,3,4), of m "prompt_or_end next"] tm(2) by (auto simp: prompt_or_end_def split: option.splits if_splits)
  then show ?thesis using assms(5,6) tm(1) by (intro swarm_ok_put [OF assms(1)]) auto
qed

lemma swarm_ok_exec [legion_inv]:
  assumes ok: "swarm_ok mx cap s"
  shows "swarm_ok mx cap (swarm_exec ev s)"
proof (cases ev)
  case (SpawnEv name agent_type prompt parent depth allowed)
  let ?tm = "new_teammate agent_type parent depth allowed"
  show ?thesis
  proof (cases "validate_teammate_name name = Inr () \<and> team s name = None \<and> length (sw_teammates (wz_swarm s)) < sw_max_teammates (wz_swarm s)")
    case True
    have "live name (wz_sups s) = 0" using swarm_okD(1) [OF ok] True by blast
    then have "swarm_ok mx cap (s\<lparr>wz_swarm := (wz_swarm s)\<lparr>sw_teammates := AList.update name ?tm (sw_teammates (wz_swarm s))\<rparr>,
        wz_sups := wz_sups s @ [(name, Awake (Some prompt))]\<rparr>)"
      using True ok by (intro swarm_ok_put [OF ok]) (auto simp: tm_ok_def new_teammate_def running_def swarm_ok_def)
    then show ?thesis using True SpawnEv by (simp add: spawn_teammate_def start_sups_def)
  next
    case False
    then have "snd (spawn_teammate name agent_type prompt parent depth allowed (wz_swarm s)) = wz_swarm s \<and>
        isl (fst (spawn_teammate name agent_type prompt parent depth allowed (wz_swarm s)))"
      by (auto simp: spawn_teammate_def split: sum.splits)
    then show ?thesis using ok SpawnEv by (auto simp: start_sups_def split: prod.splits sum.splits)
  qed
next
  case (SendEv sender to msg)
  show ?thesis
  proof (cases "team s to")
    case None
    then show ?thesis using ok SendEv by (simp add: swarm_send_def start_sups_def)
  next
    case (Some tm)
    let ?tm = "tm\<lparr>tm_mailbox := tm_mailbox tm @ [\<lparr>sm_from = sender, sm_text = msg\<rparr>], tm_status := TeammateRunning\<rparr>"
    have tm: "tm_ok cap tm" "live to (wz_sups s) = running tm" "sw_mailbox_capacity (wz_swarm s) = cap"
      using ok Some by (auto simp: swarm_ok_def split: option.splits)
    show ?thesis
    proof (cases "cap \<le> length (tm_mailbox tm)")
      case True
      then show ?thesis using ok SendEv Some tm by (simp add: swarm_send_def start_sups_def)
    next
      case False
      let ?new = "if tm_status tm = TeammateIdle then [(to, Awake None)] else []"
      have "swarm_ok mx cap (s\<lparr>wz_swarm := (wz_swarm s)\<lparr>sw_teammates := AList.update to ?tm (sw_teammates (wz_swarm s))\<rparr>,
          wz_sups := wz_sups s @ ?new\<rparr>)"
        using False tm(1,2) Some by (intro swarm_ok_put [OF ok]) (cases "tm_status tm"; auto simp: tm_ok_def running_def)+
      then show ?thesis using False SendEv Some tm by (cases "tm_status tm") (auto simp: swarm_send_def start_sups_def Let_def)
    qed
  qed
next
  case (ResolveEv i)
  show ?thesis
  proof (cases "i < length (wz_sups s)")
    case True
    obtain n x where x: "wz_sups s ! i = (n, x)" by fastforce
    show ?thesis
    proof (cases x)
      case (Awake p)
      show ?thesis
      proof (cases p)
        case (Some q)
        then show ?thesis using swarm_ok_sups [OF ok True x, of "Prompted q"] Awake ResolveEv True x by simp
      next
        case None
        obtain tm where tm: "team s n = Some tm" "tm_ok cap tm" "tm_status tm = TeammateRunning"
          using live_supervisor [OF ok True x] Awake by blast
        obtain next' tm' where d: "drain_or_idle tm = (next', tm')" by fastforce
        from swarm_ok_turn [OF ok True x, of tm' next'] drain_or_idle_ok [OF d tm(2,3)] show ?thesis
          using Awake None ResolveEv True x tm(1) d by (simp add: sup_resolve_def)
      qed
    qed (use ok ResolveEv True x in auto)
  qed (use ok ResolveEv in auto)
next
  case (RequestEv i)
  show ?thesis
  proof (cases "i < length (wz_sups s)")
    case True
    obtain n x where x: "wz_sups s ! i = (n, x)" by fastforce
    show ?thesis
    proof (cases x)
      case (Prompted p)
      obtain tm where tm: "team s n = Some tm" using live_supervisor [OF ok True x] Prompted by blast
      then show ?thesis using swarm_ok_sups [OF ok True x] Prompted RequestEv True x by (simp add: sup_request_def)
    qed (use ok RequestEv True x in auto)
  qed (use ok RequestEv in auto)
next
  case (OutcomeEv i outcome)
  show ?thesis
  proof (cases "i < length (wz_sups s)")
    case True
    obtain n x where x: "wz_sups s ! i = (n, x)" by fastforce
    show ?thesis
    proof (cases x)
      case (InTurn p req)
      obtain tm where tm: "team s n = Some tm" "tm_ok cap tm" "tm_status tm = TeammateRunning"
        using live_supervisor [OF ok True x] InTurn by blast
      show ?thesis
      proof (cases outcome)
        case (Inl err)
        let ?tm = "tm\<lparr>tm_last_result := Some (''turn failed: '' @ err), tm_status := TeammateIdle\<rparr>"
        have "tm_ok cap ?tm" "running ?tm = 0" using tm by (simp_all add: tm_ok_def running_def)
        then show ?thesis using swarm_ok_turn [OF ok True x, of ?tm None] InTurn OutcomeEv True x tm(1) Inl
          by (simp add: sup_finish_def)
      next
        case (Inr result)
        obtain next' tm' where d: "drain_or_idle (record_turn p result tm) = (next', tm')" by fastforce
        have "tm_ok cap tm' \<and> running tm' = (if next' = None then 0 else 1)"
          using drain_or_idle_ok [OF d, of cap] record_turn_ok [OF tm(2), of p result] tm(3) by simp
        then show ?thesis using swarm_ok_turn [OF ok True x, of tm' next'] InTurn OutcomeEv True x tm(1) Inr d
          by (simp add: sup_finish_def)
      qed
    qed (use ok OutcomeEv True x in auto)
  qed (use ok OutcomeEv in auto)
qed

lemma swarm_ok_fold: "swarm_ok mx cap s \<Longrightarrow> swarm_ok mx cap (fold swarm_exec events s)"
  by (induction events arbitrary: s) (simp_all add: legion_inv)

lemma swarm_ok_run: "swarm_ok mx cap (swarm_run mx cap events)"
  unfolding swarm_run_def by (rule swarm_ok_fold) (simp add: swarm_ok_def SwarmManager_with_limits_def)

subsection \<open>Mailboxes\<close>

definition mailbox_of :: "string \<Rightarrow> swarm_state \<Rightarrow> SwarmMessage list" where
  "mailbox_of n s = (case team s n of None \<Rightarrow> [] | Some tm \<Rightarrow> tm_mailbox tm)"

text \<open>The message an event puts into a mailbox, and the batch it takes out of it.\<close>

definition accepted :: "string \<Rightarrow> swarm_event \<Rightarrow> swarm_state \<Rightarrow> SwarmMessage list" where
  "accepted n ev s =
     (case ev of
        SendEv sender to msg \<Rightarrow>
          if to = n \<and> \<not> isl (fst (swarm_send sender to msg (wz_swarm s))) then [\<lparr>sm_from = sender, sm_text = msg\<rparr>] else []
      | _ \<Rightarrow> [])"

definition takes :: "string \<Rightarrow> swarm_event \<Rightarrow> swarm_state \<Rightarrow> bool" where
  "takes n ev s =
     (case ev of
        ResolveEv i \<Rightarrow> i < length (wz_sups s) \<and> wz_sups s ! i = (n, Awake None)
      | OutcomeEv i (Inr _) \<Rightarrow>
          i < length (wz_sups s) \<and> fst (wz_sups s ! i) = n \<and> (case snd (wz_sups s ! i) of InTurn _ _ \<Rightarrow> True | _ \<Rightarrow> False)
      | _ \<Rightarrow> False)"

definition batch :: "string \<Rightarrow> swarm_event \<Rightarrow> swarm_state \<Rightarrow> SwarmMessage list" where
  "batch n ev s = (if takes n ev s then mailbox_of n s else [])"

fun along :: "(swarm_event \<Rightarrow> swarm_state \<Rightarrow> 'a list) \<Rightarrow> swarm_event list \<Rightarrow> swarm_state \<Rightarrow> 'a list" where
  "along f [] s = []"
| "along f (ev # events) s = f ev s @ along f events (swarm_exec ev s)"

definition prompted :: "string \<Rightarrow> string \<Rightarrow> swarm_state \<Rightarrow> bool" where
  "prompted n p s \<longleftrightarrow> (n, Prompted p) \<in> set (wz_sups s)"

lemma drain_or_idle_simps:
  "tm_mailbox (snd (drain_or_idle tm)) = []"
  "fst (drain_or_idle tm) = (if tm_mailbox tm = [] then None else Some (render_mailbox (tm_mailbox tm)))"
  "tm_status (snd (drain_or_idle tm)) = TeammateIdle \<Longrightarrow> tm_status tm \<noteq> TeammateIdle \<Longrightarrow> tm_mailbox tm = []"
  by (auto simp: drain_or_idle_def split: if_splits)

lemma record_turn_mailbox [simp]: "tm_mailbox (record_turn p r tm) = tm_mailbox tm"
  by (simp add: record_turn_def Let_def)

lemma sup_resolve_mailbox:
  "map_of (sw_teammates (snd (sup_resolve n sw))) m =
     (if m = n then map_option (snd \<circ> drain_or_idle) (map_of (sw_teammates sw) n) else map_of (sw_teammates sw) m)"
  by (auto simp: sup_resolve_def update_conv' split: option.splits prod.splits)

lemma sup_finish_mailbox:
  "map_of (sw_teammates (snd (sup_finish n p outcome sw))) m =
     (if m = n then
        map_option (\<lambda>tm. case outcome of
            Inl err \<Rightarrow> tm\<lparr>tm_last_result := Some (''turn failed: '' @ err), tm_status := TeammateIdle\<rparr>
          | Inr r \<Rightarrow> snd (drain_or_idle (record_turn p r tm))) (map_of (sw_teammates sw) n)
      else map_of (sw_teammates sw) m)"
  by (auto simp: sup_finish_def update_conv' split: option.splits prod.splits sum.splits)

text \<open>The teammates after an event, by name.\<close>

lemma team_resolve:
  "team (swarm_exec (ResolveEv i) s) n =
     (if takes n (ResolveEv i) s then map_option (snd \<circ> drain_or_idle) (team s n) else team s n)"
  by (auto simp: takes_def sup_resolve_mailbox split: prod.splits sup.splits option.splits)
     (metis snd_conv sup_resolve_mailbox)+

lemma team_request: "team (swarm_exec (RequestEv i) s) n = team s n"
  by (auto split: prod.splits sup.splits)

definition finishes :: "string \<Rightarrow> nat \<Rightarrow> swarm_state \<Rightarrow> bool" where
  "finishes n i s \<longleftrightarrow> i < length (wz_sups s) \<and> (\<exists>p req. wz_sups s ! i = (n, InTurn p req))"

lemma takes_outcome [simp]: "takes n (OutcomeEv i (Inr r)) s = finishes n i s" "\<not> takes n (OutcomeEv i (Inl e)) s"
  by (cases "wz_sups s ! i"; auto simp: takes_def finishes_def split: sup.splits)+

lemma team_outcome:
  "team (swarm_exec (OutcomeEv i outcome) s) n =
     (if finishes n i s then
        map_option (\<lambda>tm. case outcome of
            Inl err \<Rightarrow> tm\<lparr>tm_last_result := Some (''turn failed: '' @ err), tm_status := TeammateIdle\<rparr>
          | Inr r \<Rightarrow> snd (drain_or_idle (record_turn (case snd (wz_sups s ! i) of InTurn p _ \<Rightarrow> p | _ \<Rightarrow> []) r tm))) (team s n)
      else team s n)"
proof (cases "i < length (wz_sups s)")
  case True
  obtain m x where x: "wz_sups s ! i = (m, x)" by fastforce
  show ?thesis
  proof (cases x)
    case (InTurn p req)
    obtain next' sw where f: "sup_finish m p outcome (wz_swarm s) = (next', sw)" by fastforce
    show ?thesis using True x InTurn f sup_finish_mailbox [of m p outcome "wz_swarm s" n]
      by (cases outcome) (auto simp: finishes_def)
  qed (use True x in \<open>auto simp: finishes_def\<close>)
qed (simp add: finishes_def)

lemma team_send:
  "team (swarm_exec (SendEv sender to msg) s) n =
     (if accepted n (SendEv sender to msg) s = [] then team s n
      else map_option (\<lambda>tm. tm\<lparr>tm_mailbox := tm_mailbox tm @ [\<lparr>sm_from = sender, sm_text = msg\<rparr>], tm_status := TeammateRunning\<rparr>) (team s n))"
  by (cases "team s to") (auto simp: accepted_def swarm_send_def start_sups_def update_conv' Let_def)

lemma team_spawn:
  "team (swarm_exec (SpawnEv name agent_type prompt parent depth allowed) s) n = team s n \<or>
   team s n = None \<and> team (swarm_exec (SpawnEv name agent_type prompt parent depth allowed) s) n = Some (new_teammate agent_type parent depth allowed)"
  by (cases "team s name") (auto simp: spawn_teammate_def start_sups_def update_conv' split: sum.splits)

lemma accepted_team: "accepted n ev s \<noteq> [] \<Longrightarrow> team s n \<noteq> None"
  by (auto simp: accepted_def swarm_send_def split: swarm_event.splits option.splits if_splits)

lemma mailbox_step: "mailbox_of n s @ accepted n ev s = batch n ev s @ mailbox_of n (swarm_exec ev s)"
proof (cases ev)
  case (SpawnEv name agent_type prompt parent depth allowed)
  then show ?thesis using team_spawn [of name agent_type prompt parent depth allowed s n]
    by (auto simp: accepted_def batch_def takes_def mailbox_of_def new_teammate_def simp del: swarm_exec.simps)
next
  case (SendEv sender to msg)
  then have "accepted n ev s = [] \<or> accepted n ev s = [\<lparr>sm_from = sender, sm_text = msg\<rparr>]" by (simp add: accepted_def)
  moreover have "\<not> takes n ev s" using SendEv by (simp add: takes_def)
  ultimately show ?thesis using accepted_team [of n ev s] SendEv
    by (auto simp: batch_def mailbox_of_def team_send simp del: swarm_exec.simps)
next
  case (ResolveEv i)
  then show ?thesis
    by (cases "team s n") (auto simp: accepted_def batch_def mailbox_of_def team_resolve drain_or_idle_simps simp del: swarm_exec.simps)
next
  case (RequestEv i)
  then show ?thesis by (simp add: accepted_def batch_def takes_def mailbox_of_def team_request del: swarm_exec.simps)
next
  case (OutcomeEv i outcome)
  then show ?thesis
    by (cases "team s n"; cases outcome)
       (auto simp: accepted_def batch_def mailbox_of_def team_outcome drain_or_idle_simps simp del: swarm_exec.simps)
qed

lemma mailbox_along:
  "mailbox_of n s @ along (accepted n) events s = along (batch n) events s @ mailbox_of n (fold swarm_exec events s)"
proof (induction events arbitrary: s)
  case (Cons ev events)
  have "mailbox_of n s @ accepted n ev s @ along (accepted n) events (swarm_exec ev s)
      = batch n ev s @ mailbox_of n (swarm_exec ev s) @ along (accepted n) events (swarm_exec ev s)"
    using mailbox_step [of n s ev] by (metis append.assoc)
  then show ?case using Cons.IH [of "swarm_exec ev s"] by simp
qed simp

text \<open>A batch that is not empty becomes the prompt of the supervisor that took it.\<close>

lemma batch_prompted:
  assumes "batch n ev s \<noteq> []"
  shows "prompted n (render_mailbox (batch n ev s)) (swarm_exec ev s)"
proof -
  have t: "takes n ev s" and ne: "mailbox_of n s \<noteq> []" and b: "batch n ev s = mailbox_of n s"
    using assms by (auto simp: batch_def split: if_splits)
  obtain tm where tm: "team s n = Some tm" "tm_mailbox tm \<noteq> []" "mailbox_of n s = tm_mailbox tm"
    using ne by (auto simp: mailbox_of_def split: option.splits)
  show ?thesis
  proof (cases ev)
    case (ResolveEv i)
    have i: "i < length (wz_sups s)" "wz_sups s ! i = (n, Awake None)" using t ResolveEv by (auto simp: takes_def)
    then show ?thesis using ResolveEv tm b
      by (auto simp: prompted_def sup_resolve_def drain_or_idle_def prompt_or_end_def set_update_memI)
  next
    case (OutcomeEv i outcome)
    then obtain r where r: "outcome = Inr r" using t by (cases outcome) auto
    then obtain p req where i: "i < length (wz_sups s)" "wz_sups s ! i = (n, InTurn p req)"
      using t OutcomeEv by (auto simp: finishes_def)
    then show ?thesis using OutcomeEv tm b r
      by (auto simp: prompted_def sup_finish_def drain_or_idle_def prompt_or_end_def set_update_memI)
  qed (use t in \<open>auto simp: takes_def\<close>)
qed

lemma prompts_along:
  "list_all (\<lambda>b. b) (along (\<lambda>ev s. [batch n ev s = [] \<or> prompted n (render_mailbox (batch n ev s)) (swarm_exec ev s)]) events s)"
  using batch_prompted by (induction events arbitrary: s) auto

text \<open>A turn that does not fail leaves no message behind.\<close>

fun fails :: "swarm_event \<Rightarrow> bool" where
  "fails (OutcomeEv i (Inl e)) = True"
| "fails _ = False"

definition stranded :: "Teammate \<Rightarrow> bool" where
  "stranded tm \<longleftrightarrow> tm_status tm = TeammateIdle \<and> tm_mailbox tm \<noteq> []"

lemma stranded_step:
  assumes "\<not> fails ev" "\<And>tm. team s n = Some tm \<Longrightarrow> \<not> stranded tm" "team (swarm_exec ev s) n = Some tm'"
  shows "\<not> stranded tm'"
proof (cases ev)
  case (SpawnEv name agent_type prompt parent depth allowed)
  then show ?thesis using assms team_spawn [of name agent_type prompt parent depth allowed s n]
    by (auto simp: stranded_def new_teammate_def simp del: swarm_exec.simps)
next
  case (SendEv sender to msg)
  then show ?thesis using assms by (auto simp: team_send stranded_def simp del: swarm_exec.simps split: if_splits)
next
  case (ResolveEv i)
  then show ?thesis using assms
    by (auto simp: team_resolve stranded_def drain_or_idle_simps simp del: swarm_exec.simps split: if_splits)
next
  case (RequestEv i)
  then show ?thesis using assms by (simp add: team_request del: swarm_exec.simps)
next
  case (OutcomeEv i outcome)
  then show ?thesis using assms
    by (cases outcome) (auto simp: team_outcome stranded_def drain_or_idle_simps simp del: swarm_exec.simps split: if_splits)
qed

lemma stranded_fold:
  "list_all (\<lambda>ev. \<not> fails ev) events \<Longrightarrow> (\<And>tm. team s n = Some tm \<Longrightarrow> \<not> stranded tm) \<Longrightarrow>
     team (fold swarm_exec events s) n = Some tm' \<Longrightarrow> \<not> stranded tm'"
proof (induction events arbitrary: s)
  case (Cons ev events)
  then show ?case using stranded_step [of ev s n] by (simp del: swarm_exec.simps) blast
qed simp

subsection \<open>Properties\<close>

text \<open>C29. After any interleaving of spawns, sends and supervisor steps, failed turns included, there are
  at most \<^verbatim>\<open>max_teammates\<close> teammates with distinct names; no mailbox exceeds its capacity; every history
  has at most 40 messages and an even number of them; and a teammate has exactly one supervisor that
  has not ended when its status is running and none when it is idle, so that two turns of one teammate
  never overlap.\<close>

theorem swarm_invariant:
  "let s = swarm_run max_teammates capacity events in
    length (sw_teammates (wz_swarm s)) \<le> max_teammates \<and> distinct (map fst (sw_teammates (wz_swarm s))) \<and>
    (\<forall>n. case map_of (sw_teammates (wz_swarm s)) n of
           None \<Rightarrow> live n (wz_sups s) = 0
         | Some tm \<Rightarrow> length (tm_mailbox tm) \<le> capacity \<and> length (tm_history tm) \<le> 40 \<and> even (length (tm_history tm)) \<and>
             live n (wz_sups s) = (if tm_status tm = TeammateRunning then 1 else 0))"
  using swarm_ok_run [of max_teammates capacity events]
  unfolding swarm_ok_def Let_def tm_ok_def running_def MAX_HISTORY_MESSAGES_def conj_assoc by blast

text \<open>Every message a send accepts for a teammate is taken out of the mailbox exactly once and in
  the order of the sends: the accepted messages of a run are the batches its supervisors took followed
  by what is still in the mailbox. A batch that is not empty is the prompt of the turn its supervisor
  makes next.\<close>

theorem messages_taken_once:
  "let s0 = \<lparr>wz_swarm = SwarmManager_with_limits max_teammates capacity, wz_sups = []\<rparr> in
    along (accepted n) events s0 = along (batch n) events s0 @ mailbox_of n (swarm_run max_teammates capacity events) \<and>
    list_all (\<lambda>b. b) (along (\<lambda>ev s. [batch n ev s = [] \<or> prompted n (render_mailbox (batch n ev s)) (swarm_exec ev s)]) events s0)"
proof -
  let ?s0 = "\<lparr>wz_swarm = SwarmManager_with_limits max_teammates capacity, wz_sups = []\<rparr>"
  have "mailbox_of n ?s0 = []" by (simp add: mailbox_of_def SwarmManager_with_limits_def)
  then show ?thesis using mailbox_along [of n ?s0 events] prompts_along unfolding swarm_run_def Let_def by simp
qed

text \<open>C30. Without failed turns no message is stranded: in every reachable state an idle teammate has an
  empty mailbox, so that each message in a mailbox has a supervisor that will take it.\<close>

theorem no_message_stranded:
  assumes "list_all (\<lambda>ev. \<not> fails ev) events"
    and "map_of (sw_teammates (wz_swarm (swarm_run max_teammates capacity events))) n = Some tm" "tm_status tm = TeammateIdle"
  shows "tm_mailbox tm = []"
  using stranded_fold [OF assms(1), of "\<lparr>wz_swarm = SwarmManager_with_limits max_teammates capacity, wz_sups = []\<rparr>" n tm] assms(2,3)
  by (simp add: swarm_run_def SwarmManager_with_limits_def stranded_def)

definition sample_events :: "(string, string) result \<Rightarrow> swarm_event list" where
  "sample_events outcome =
     [SpawnEv ''scout'' ''explore'' ''go'' ''main'' 0 None, ResolveEv 0, RequestEv 0, SendEv ''main'' ''scout'' ''hi'', OutcomeEv 0 outcome]"

theorem no_message_stranded_witness:
  "tm_mailbox (the (map_of (sw_teammates (wz_swarm (swarm_run 8 16 (sample_events (Inr ''ok'') @ [RequestEv 0, OutcomeEv 0 (Inr ''done'')])))) ''scout'')) = []"
proof -
  let ?events = "sample_events (Inr ''ok'') @ [RequestEv 0, OutcomeEv 0 (Inr ''done'')]"
  have ok: "list_all (\<lambda>ev. \<not> fails ev) ?events" by (simp add: sample_events_def)
  have "map_option tm_status (map_of (sw_teammates (wz_swarm (swarm_run 8 16 ?events))) ''scout'') = Some TeammateIdle" by code_simp
  then obtain tm where tm: "map_of (sw_teammates (wz_swarm (swarm_run 8 16 ?events))) ''scout'' = Some tm" "tm_status tm = TeammateIdle"
    by blast
  show ?thesis using no_message_stranded [OF ok tm] tm(1) by simp
qed

text \<open>A failed turn does strand a message: a message sent while the turn runs, which then fails, stays
  in the mailbox of a teammate that is idle and has no supervisor.\<close>

theorem failed_turn_strands_message:
  "let s = swarm_run 8 16 (sample_events (Inl ''boom''))
   in map_option (\<lambda>tm. (tm_status tm, tm_mailbox tm)) (map_of (sw_teammates (wz_swarm s)) ''scout'')
        = Some (TeammateIdle, [\<lparr>sm_from = ''main'', sm_text = ''hi''\<rparr>]) \<and>
      live ''scout'' (wz_sups s) = 0"
  by code_simp

end
