(* ===== verification/Event_Bus.thy ===== *)
theory Event_Bus
  imports Turn Gateway_Auth "HOL-Library.AList"
begin

text \<open>The event bus of the gateway (\<^verbatim>\<open>crates/legion-gateway/src/events.rs\<close>) and the frames of its protocol
  (\<^verbatim>\<open>crates/legion-protocol/src/harness.rs\<close>): sessions with their subscribers, bounded channels with eviction of slow
  subscribers, and the loop that serves one client of \<^verbatim>\<open>/events\<close>. A channel is known by the id of its
  subscription; its sender is alive as long as the id is in the list of subscribers. Subscription ids
  are natural numbers (the 64-bit counter of the source does not overflow in the life of a process).\<close>

section \<open>Frames\<close>

definition HARNESS_API_VERSION :: nat where
  "HARNESS_API_VERSION = 1"

record ToolCallView =
  tv_id :: string
  tv_name :: string
  tv_arguments :: string

record ToolResultView =
  rv_content :: string
  rv_is_error :: bool

datatype HarnessEvent =
    RunStarted string string
  | RunFinished string string
  | RunErrored string string string
  | AssistantTextDelta string string
  | ToolStarted string ToolCallView
  | ToolFinished string ToolCallView ToolResultView "json option"
  | ContextCompacted string string "nat option"
  | TodoListUpdated string json

definition get_str :: "json \<Rightarrow> string \<Rightarrow> string option" where
  "get_str v k = Option.bind (json_get v k) json_as_str"

definition read_tool_call_view :: "json \<Rightarrow> ToolCallView option" where
  "read_tool_call_view v =
     Option.bind (get_str v ''id'') (\<lambda>i. Option.bind (get_str v ''name'') (\<lambda>n.
       Some \<lparr>tv_id = i, tv_name = n, tv_arguments = unwrap_or (get_str v ''arguments'') []\<rparr>))"

definition read_tool_result_view :: "json \<Rightarrow> ToolResultView" where
  "read_tool_result_view payload =
     (let res = json_get payload ''result''
      in \<lparr>rv_content = unwrap_or (Option.bind res (\<lambda>r. get_str r ''content'')) [],
          rv_is_error = unwrap_or (Option.bind (Option.bind res (\<lambda>r. json_get r ''is_error'')) json_as_bool) False\<rparr>)"

definition lifecycle_event :: "string \<Rightarrow> string \<Rightarrow> json \<Rightarrow> string \<Rightarrow> HarnessEvent option" where
  "lifecycle_event session_key run_id payload phase =
     (if phase = ''start'' then Some (RunStarted session_key run_id)
      else if phase = ''end'' then Some (RunFinished session_key run_id)
      else if phase = ''error'' then Some (RunErrored session_key run_id (unwrap_or (get_str payload ''error'') ''run error''))
      else None)"

definition tool_event :: "string \<Rightarrow> json \<Rightarrow> string \<Rightarrow> HarnessEvent option" where
  "tool_event run_id payload state =
     (let tool_call = unwrap_or (Option.bind (json_get payload ''tool_call'') read_tool_call_view)
            \<lparr>tv_id = [], tv_name = [], tv_arguments = []\<rparr>
      in if state = ''start'' then Some (ToolStarted run_id tool_call)
         else if state = ''end'' then
           Some (ToolFinished run_id tool_call (read_tool_result_view payload) (json_get payload ''canonical_meta''))
         else None)"

definition from_agent_payload :: "string \<Rightarrow> json \<Rightarrow> HarnessEvent option" where
  "from_agent_payload session_key payload =
     (let run_id = unwrap_or (get_str payload ''run_id'') []
      in Option.bind (get_str payload ''stream'') (\<lambda>stream.
           if stream = ''lifecycle'' then Option.bind (get_str payload ''phase'') (lifecycle_event session_key run_id payload)
           else if stream = ''assistant'' then
             Option.bind (get_str payload ''delta'') (\<lambda>delta. Some (AssistantTextDelta run_id delta))
           else if stream = ''tool'' then Option.bind (get_str payload ''state'') (tool_event run_id payload)
           else None))"

datatype HarnessRequest = Hello nat | ListSessions | AttachSession string | DetachSession | Ping

datatype SessionStatus = Live | Idle

record HarnessSessionSummary =
  su_session_key :: string
  su_agent_id :: string
  su_peer_id :: string
  su_run_id :: "string option"
  su_status :: SessionStatus

datatype HarnessServerFrame =
    HelloOk nat
  | FrameOk
  | FrameError string
  | SessionList "HarnessSessionSummary list"
  | Attached string "string option" "ChatMessage list"
  | Detached
  | FrameEvent HarnessEvent
  | Pong

section \<open>Channels\<close>

definition SUBSCRIBER_CAPACITY :: nat where
  "SUBSCRIBER_CAPACITY = 512"

record channel =
  ch_queue :: "HarnessServerFrame list"
  ch_open :: bool

datatype TrySendError = Full | Closed

definition try_send :: "HarnessServerFrame \<Rightarrow> channel \<Rightarrow> (TrySendError, channel) result" where
  "try_send frame ch =
     (if \<not> ch_open ch then Inl Closed
      else if SUBSCRIBER_CAPACITY \<le> length (ch_queue ch) then Inl Full
      else Inr (ch\<lparr>ch_queue := ch_queue ch @ [frame]\<rparr>))"

section \<open>The bus\<close>

record Entry =
  en_agent_id :: string
  en_peer_id :: string
  en_run_id :: "string option"
  en_subscribers :: "nat list"

record EventBus =
  eb_sessions :: "(string \<times> Entry) list"
  eb_next_sub_id :: nat
  eb_channels :: "nat \<Rightarrow> channel"

definition EventBus_new :: EventBus where
  "EventBus_new = \<lparr>eb_sessions = [], eb_next_sub_id = 0, eb_channels = (\<lambda>_. \<lparr>ch_queue = [], ch_open = False\<rparr>)\<rparr>"

definition entry_of :: "EventBus \<Rightarrow> string \<Rightarrow> Entry option" where
  "entry_of bus session_key = map_of (eb_sessions bus) session_key"

definition put_entry :: "string \<Rightarrow> Entry \<Rightarrow> EventBus \<Rightarrow> EventBus" where
  "put_entry session_key entry bus = bus\<lparr>eb_sessions := AList.update session_key entry (eb_sessions bus)\<rparr>"

definition remove_entry :: "string \<Rightarrow> EventBus \<Rightarrow> EventBus" where
  "remove_entry session_key bus = bus\<lparr>eb_sessions := AList.delete session_key (eb_sessions bus)\<rparr>"

text \<open>The entry of a session, created if absent, with its names filled in if they were empty.\<close>

definition entry_or_insert :: "EventBus \<Rightarrow> string \<Rightarrow> Entry" where
  "entry_or_insert bus session_key =
     (let parts = parse_session_key session_key;
          agent = (case parts of Some p \<Rightarrow> sk_agent_id p | None \<Rightarrow> []);
          peer = (case parts of Some p \<Rightarrow> sk_peer_id p | None \<Rightarrow> []);
          entry = unwrap_or (entry_of bus session_key)
            \<lparr>en_agent_id = agent, en_peer_id = peer, en_run_id = None, en_subscribers = []\<rparr>
      in if parts = None then entry
         else entry\<lparr>en_agent_id := (if en_agent_id entry = [] then agent else en_agent_id entry),
                    en_peer_id := (if en_peer_id entry = [] then peer else en_peer_id entry)\<rparr>)"

definition register_run :: "string \<Rightarrow> string \<Rightarrow> EventBus \<Rightarrow> EventBus" where
  "register_run session_key run_id bus = put_entry session_key ((entry_or_insert bus session_key)\<lparr>en_run_id := Some run_id\<rparr>) bus"

definition end_run :: "string \<Rightarrow> EventBus \<Rightarrow> EventBus" where
  "end_run session_key bus =
     (case entry_of bus session_key of
        None \<Rightarrow> bus
      | Some entry \<Rightarrow>
          if en_subscribers entry = [] then remove_entry session_key bus
          else put_entry session_key (entry\<lparr>en_run_id := None\<rparr>) bus)"

definition summary :: "string \<times> Entry \<Rightarrow> HarnessSessionSummary" where
  "summary = (\<lambda>(session_key, entry).
     \<lparr>su_session_key = session_key, su_agent_id = en_agent_id entry, su_peer_id = en_peer_id entry,
      su_run_id = en_run_id entry, su_status = (if en_run_id entry \<noteq> None then Live else Idle)\<rparr>)"

definition bus_list :: "EventBus \<Rightarrow> HarnessSessionSummary list" where
  "bus_list bus = map summary (eb_sessions bus)"

definition subscribe :: "string \<Rightarrow> EventBus \<Rightarrow> nat \<times> string option \<times> EventBus" where
  "subscribe session_key bus =
     (let sub_id = eb_next_sub_id bus + 1;
          entry = entry_or_insert bus session_key;
          bus' = put_entry session_key (entry\<lparr>en_subscribers := en_subscribers entry @ [sub_id]\<rparr>) bus
      in (sub_id, en_run_id entry,
          bus'\<lparr>eb_next_sub_id := sub_id, eb_channels := (eb_channels bus)(sub_id := \<lparr>ch_queue = [], ch_open = True\<rparr>)\<rparr>))"

definition unsubscribe :: "string \<Rightarrow> nat \<Rightarrow> EventBus \<Rightarrow> EventBus" where
  "unsubscribe session_key sub_id bus =
     (case entry_of bus session_key of
        None \<Rightarrow> bus
      | Some entry \<Rightarrow>
          let subscribers = filter (\<lambda>i. i \<noteq> sub_id) (en_subscribers entry)
          in if en_run_id entry = None \<and> subscribers = [] then remove_entry session_key bus
             else put_entry session_key (entry\<lparr>en_subscribers := subscribers\<rparr>) bus)"

text \<open>The frame is offered to each subscriber in turn; those whose channel refuses it are collected.\<close>

fun send_all :: "HarnessServerFrame \<Rightarrow> nat list \<Rightarrow> (nat \<Rightarrow> channel) \<Rightarrow> nat list \<times> (nat \<Rightarrow> channel)" where
  "send_all frame [] chs = ([], chs)"
| "send_all frame (i # subs) chs =
     (case try_send frame (chs i) of
        Inr ch \<Rightarrow> send_all frame subs (chs(i := ch))
      | Inl _ \<Rightarrow> (let (dropped, chs') = send_all frame subs chs in (i # dropped, chs')))"

definition publish :: "string \<Rightarrow> HarnessEvent \<Rightarrow> EventBus \<Rightarrow> EventBus" where
  "publish session_key event bus =
     (case entry_of bus session_key of
        None \<Rightarrow> bus
      | Some entry \<Rightarrow>
          (let (dropped, chs) = send_all (FrameEvent event) (en_subscribers entry) (eb_channels bus);
               bus' = bus\<lparr>eb_channels := chs\<rparr>;
               subscribers = filter (\<lambda>i. i \<notin> set dropped) (en_subscribers entry)
           in if dropped = [] then bus'
              else if en_run_id entry = None \<and> subscribers = [] then remove_entry session_key bus'
              else put_entry session_key (entry\<lparr>en_subscribers := subscribers\<rparr>) bus'))"

text \<open>The receiving ends: taking the next frame, and dropping the receiver.\<close>

definition recv :: "nat \<Rightarrow> EventBus \<Rightarrow> HarnessServerFrame option \<times> EventBus" where
  "recv sub_id bus =
     (case ch_queue (eb_channels bus sub_id) of
        [] \<Rightarrow> (None, bus)
      | frame # rest \<Rightarrow> (Some frame, bus\<lparr>eb_channels := (eb_channels bus)(sub_id := (eb_channels bus sub_id)\<lparr>ch_queue := rest\<rparr>)\<rparr>))"

definition drop_receiver :: "nat \<Rightarrow> EventBus \<Rightarrow> EventBus" where
  "drop_receiver sub_id bus = bus\<lparr>eb_channels := (eb_channels bus)(sub_id := \<lparr>ch_queue = [], ch_open = False\<rparr>)\<rparr>"

section \<open>One client of the bus\<close>

text \<open>The first frame of a connection, as parsed: its text (an error, a frame of another type, or the
  parameters of a connect), a close, or anything else.\<close>

datatype first_frame = FirstText "(string, ConnectParams option) result" | FirstClose | FirstOther

datatype admission = ClosedSilently | ClosedWith string | Admitted HarnessServerFrame

definition events_handshake :: "GatewayState \<Rightarrow> first_frame \<Rightarrow> admission \<times> GatewayState" where
  "events_handshake g first =
     (if \<not> is_loopback_bind (gw_bind_host g) then (ClosedWith ''events endpoint requires loopback bind'', g)
      else case first of
        FirstClose \<Rightarrow> (ClosedSilently, g)
      | FirstOther \<Rightarrow> (ClosedWith ''first frame must be text connect'', g)
      | FirstText (Inl err) \<Rightarrow> (ClosedWith err, g)
      | FirstText (Inr None) \<Rightarrow> (ClosedWith (''first frame must be of type 'connect'' @ [CHR 0x27]), g)
      | FirstText (Inr (Some params)) \<Rightarrow>
          (let (device_id, g1) = choose_device_id g params
           in case authenticate (gw_auth g1) (gw_pairing g1) device_id (cp_auth params) (gw_bind_host g1) of
                Rejected reason \<Rightarrow> (ClosedWith reason, g1)
              | Approved \<Rightarrow> (Admitted (HelloOk HARNESS_API_VERSION), g1)))"

text \<open>The state of the serving loop: its subscription, and the session whose history was loaded but whose
  stream is not yet subscribed (the load suspends, so other tasks run between the two).\<close>

record EventsConn =
  ec_open :: bool
  ec_sub :: "(string \<times> nat) option"
  ec_loading :: "(string \<times> ChatMessage list) option"

definition detach :: "EventsConn \<Rightarrow> EventBus \<Rightarrow> EventsConn \<times> EventBus" where
  "detach conn bus =
     (case ec_sub conn of
        None \<Rightarrow> (conn, bus)
      | Some (key, sub_id) \<Rightarrow> (conn\<lparr>ec_sub := None\<rparr>, drop_receiver sub_id (unsubscribe key sub_id bus)))"

definition close_conn :: "EventsConn \<Rightarrow> EventBus \<Rightarrow> EventsConn \<times> EventBus" where
  "close_conn conn bus = (let (conn', bus') = detach conn bus in (conn'\<lparr>ec_open := False, ec_loading := None\<rparr>, bus'))"

record events_env =
  ev_router :: Router
  ev_store :: SessionStore
  ev_orphan_policy :: OrphanPolicy

definition events_request ::
  "events_env \<Rightarrow> string \<Rightarrow> files \<Rightarrow> HarnessRequest \<Rightarrow> EventsConn \<Rightarrow> EventBus \<Rightarrow> HarnessServerFrame option \<times> EventsConn \<times> EventBus" where
  "events_request env now fs req conn bus =
     (case req of
        Hello v \<Rightarrow>
          (Some (if v = HARNESS_API_VERSION then HelloOk v
                 else FrameError (''version mismatch: client='' @ show_nat v @ '' server='' @ show_nat HARNESS_API_VERSION)), conn, bus)
      | ListSessions \<Rightarrow> (Some (SessionList (bus_list bus)), conn, bus)
      | AttachSession session_key \<Rightarrow>
          (let (conn1, bus1) = detach conn bus
           in case load_session_history now (ev_router env) (ev_store env) (ev_orphan_policy env) session_key fs of
                Inl err \<Rightarrow> (Some (FrameError err), conn1, bus1)
              | Inr (resolved, history) \<Rightarrow> (None, conn1\<lparr>ec_loading := Some (resolved, history)\<rparr>, bus1))
      | DetachSession \<Rightarrow> (let (conn1, bus1) = detach conn bus in (Some Detached, conn1, bus1))
      | Ping \<Rightarrow> (Some Pong, conn, bus))"

definition events_attached :: "EventsConn \<Rightarrow> EventBus \<Rightarrow> HarnessServerFrame option \<times> EventsConn \<times> EventBus" where
  "events_attached conn bus =
     (case ec_loading conn of
        None \<Rightarrow> (None, conn, bus)
      | Some (resolved, history) \<Rightarrow>
          (let (sub_id, run_id, bus1) = subscribe resolved bus
           in (Some (Attached resolved run_id history), conn\<lparr>ec_sub := Some (resolved, sub_id), ec_loading := None\<rparr>, bus1)))"

definition events_pump :: "EventsConn \<Rightarrow> EventBus \<Rightarrow> HarnessServerFrame option \<times> EventsConn \<times> EventBus" where
  "events_pump conn bus =
     (case ec_sub conn of
        None \<Rightarrow> (None, conn, bus)
      | Some (_, sub_id) \<Rightarrow> (let (frame, bus1) = recv sub_id bus in (frame, conn, bus1)))"

section \<open>Interleavings\<close>

text \<open>The gateway's tasks: runs publishing to the bus, and clients. Each step is a section between two
  suspension points. The flag of a client's step says whether its socket accepted the frame; a client whose
  socket fails is closed.\<close>

record events_sys =
  sy_bus :: EventBus
  sy_conns :: "nat \<Rightarrow> EventsConn"
  sy_sent :: "nat \<Rightarrow> HarnessServerFrame list"

datatype events_step =
    StRegister string string
  | StEnd string
  | StPublish string HarnessEvent
  | StConnect nat
  | StInvalid nat string bool
  | StRequest nat string files HarnessRequest bool
  | StAttach nat bool
  | StPump nat bool
  | StClose nat

definition deliver :: "nat \<Rightarrow> bool \<Rightarrow> HarnessServerFrame option \<times> EventsConn \<times> EventBus \<Rightarrow> events_sys \<Rightarrow> events_sys" where
  "deliver c ok result sys =
     (case result of
        (None, conn, bus) \<Rightarrow> sys\<lparr>sy_bus := bus, sy_conns := (sy_conns sys)(c := conn)\<rparr>
      | (Some frame, conn, bus) \<Rightarrow>
          if ok then sys\<lparr>sy_bus := bus, sy_conns := (sy_conns sys)(c := conn), sy_sent := (sy_sent sys)(c := sy_sent sys c @ [frame])\<rparr>
          else (let (conn', bus') = close_conn conn bus in sys\<lparr>sy_bus := bus', sy_conns := (sy_conns sys)(c := conn')\<rparr>))"

definition serving :: "nat \<Rightarrow> events_sys \<Rightarrow> bool" where
  "serving c sys \<longleftrightarrow> ec_open (sy_conns sys c) \<and> ec_loading (sy_conns sys c) = None"

fun events_exec :: "events_env \<Rightarrow> events_step \<Rightarrow> events_sys \<Rightarrow> events_sys" where
  "events_exec env (StRegister key run_id) sys = sys\<lparr>sy_bus := register_run key run_id (sy_bus sys)\<rparr>"
| "events_exec env (StEnd key) sys = sys\<lparr>sy_bus := end_run key (sy_bus sys)\<rparr>"
| "events_exec env (StPublish key ev) sys = sys\<lparr>sy_bus := publish key ev (sy_bus sys)\<rparr>"
| "events_exec env (StConnect c) sys =
     (if ec_open (sy_conns sys c) then sys
      else sys\<lparr>sy_conns := (sy_conns sys)(c := \<lparr>ec_open = True, ec_sub = None, ec_loading = None\<rparr>)\<rparr>)"
| "events_exec env (StInvalid c err ok) sys =
     (if serving c sys then deliver c ok (Some (FrameError (''invalid request: '' @ err)), sy_conns sys c, sy_bus sys) sys else sys)"
| "events_exec env (StRequest c now fs req ok) sys =
     (if serving c sys then deliver c ok (events_request env now fs req (sy_conns sys c) (sy_bus sys)) sys else sys)"
| "events_exec env (StAttach c ok) sys =
     (if ec_open (sy_conns sys c) \<and> \<not> serving c sys then deliver c ok (events_attached (sy_conns sys c) (sy_bus sys)) sys else sys)"
| "events_exec env (StPump c ok) sys =
     (if serving c sys then deliver c ok (events_pump (sy_conns sys c) (sy_bus sys)) sys else sys)"
| "events_exec env (StClose c) sys =
     (if serving c sys then
        (let (conn, bus) = close_conn (sy_conns sys c) (sy_bus sys) in sys\<lparr>sy_bus := bus, sy_conns := (sy_conns sys)(c := conn)\<rparr>)
      else sys)"

definition events_run :: "events_env \<Rightarrow> events_step list \<Rightarrow> events_sys \<Rightarrow> events_sys" where
  "events_run env steps sys = fold (events_exec env) steps sys"

definition events_start :: events_sys where
  "events_start = \<lparr>sy_bus = EventBus_new, sy_conns = (\<lambda>_. \<lparr>ec_open = False, ec_sub = None, ec_loading = None\<rparr>), sy_sent = (\<lambda>_. [])\<rparr>"

section \<open>Facts about the bus\<close>

definition subs_of :: "EventBus \<Rightarrow> string \<Rightarrow> nat list" where
  "subs_of bus key = (case entry_of bus key of None \<Rightarrow> [] | Some entry \<Rightarrow> en_subscribers entry)"

abbreviation pending :: "EventBus \<Rightarrow> nat \<Rightarrow> HarnessServerFrame list" where
  "pending bus i \<equiv> ch_queue (eb_channels bus i)"

definition accepts :: "channel \<Rightarrow> bool" where
  "accepts ch \<longleftrightarrow> ch_open ch \<and> length (ch_queue ch) < SUBSCRIBER_CAPACITY"

named_theorems bus_simps

lemma entry_put [bus_simps]: "entry_of (put_entry k e bus) k' = (if k' = k then Some e else entry_of bus k')"
  by (simp add: entry_of_def put_entry_def update_conv')

lemma entry_remove [bus_simps]: "entry_of (remove_entry k bus) k' = (if k' = k then None else entry_of bus k')"
  by (simp add: entry_of_def remove_entry_def delete_conv')

lemma put_remove_fields [bus_simps]:
  "eb_channels (put_entry k e bus) = eb_channels bus" "eb_next_sub_id (put_entry k e bus) = eb_next_sub_id bus"
  "eb_channels (remove_entry k bus) = eb_channels bus" "eb_next_sub_id (remove_entry k bus) = eb_next_sub_id bus"
  by (simp_all add: put_entry_def remove_entry_def)

lemma entry_channels [bus_simps]: "entry_of (bus\<lparr>eb_channels := chs\<rparr>) k = entry_of bus k" "entry_of (bus\<lparr>eb_next_sub_id := n\<rparr>) k = entry_of bus k"
  by (simp_all add: entry_of_def)

lemma entry_or_insert_subs [bus_simps]: "en_subscribers (entry_or_insert bus k) = subs_of bus k"
  by (cases "entry_of bus k") (simp_all add: entry_or_insert_def subs_of_def Let_def)

lemma subs_register [bus_simps]: "subs_of (register_run k r bus) k' = subs_of bus k'"
  by (auto simp: register_run_def subs_of_def [of "put_entry _ _ _"] bus_simps) (simp add: subs_of_def)

lemma subs_end [bus_simps]: "subs_of (end_run k bus) k' = subs_of bus k'"
  by (auto simp: end_run_def subs_of_def bus_simps split: option.split)

lemma subs_subscribe:
  "subscribe k bus = (i, r, bus') \<Longrightarrow> subs_of bus' k' = subs_of bus k' @ (if k' = k then [i] else [])"
  by (auto simp: subscribe_def Let_def subs_of_def [of "EventBus.eb_next_sub_id_update _ _"] subs_of_def [of "EventBus.eb_channels_update _ _"] bus_simps) (simp_all add: subs_of_def)

lemma subs_unsubscribe [bus_simps]:
  "subs_of (unsubscribe k i bus) k' = (if k' = k then filter (\<lambda>j. j \<noteq> i) (subs_of bus k) else subs_of bus k')"
  by (auto simp: unsubscribe_def subs_of_def bus_simps Let_def split: option.split)

lemma send_all_spec:
  "distinct subs \<Longrightarrow> send_all f subs chs =
     (filter (\<lambda>i. \<not> accepts (chs i)) subs,
      \<lambda>i. if i \<in> set subs \<and> accepts (chs i) then (chs i)\<lparr>ch_queue := ch_queue (chs i) @ [f]\<rparr> else chs i)"
proof (induction subs arbitrary: chs)
  case (Cons i subs)
  have "filter (\<lambda>j. \<not> accepts ((chs(i := c)) j)) subs = filter (\<lambda>j. \<not> accepts (chs j)) subs" for c
    using Cons.prems by (intro filter_cong) auto
  then show ?case using Cons by (auto simp: try_send_def accepts_def fun_eq_iff)
qed simp

lemma subs_publish [bus_simps]:
  assumes "distinct (subs_of bus k)"
  shows "subs_of (publish k ev bus) k' =
     (if k' = k then filter (\<lambda>i. accepts (eb_channels bus i)) (subs_of bus k) else subs_of bus k')"
proof (cases "entry_of bus k")
  case (Some e)
  then have s: "send_all f (en_subscribers e) chs = (filter (\<lambda>i. \<not> accepts (chs i)) (en_subscribers e),
      \<lambda>i. if i \<in> set (en_subscribers e) \<and> accepts (chs i) then (chs i)\<lparr>ch_queue := ch_queue (chs i) @ [f]\<rparr> else chs i)" for f chs
    using assms send_all_spec by (simp add: subs_of_def)
  have f: "filter (\<lambda>i. i \<in> set xs \<longrightarrow> P i) xs = filter P xs" for P and xs :: "nat list" by (rule filter_cong) auto
  show ?thesis by (auto simp: publish_def subs_of_def bus_simps Some s f Let_def filter_empty_conv)
qed (simp add: publish_def subs_of_def)

lemma channels_publish [bus_simps]:
  assumes "distinct (subs_of bus k)"
  shows "eb_channels (publish k ev bus) i =
     (if i \<in> set (subs_of bus k) \<and> accepts (eb_channels bus i)
      then (eb_channels bus i)\<lparr>ch_queue := pending bus i @ [FrameEvent ev]\<rparr> else eb_channels bus i)"
proof (cases "entry_of bus k")
  case (Some e)
  then have "distinct (en_subscribers e)" using assms by (simp add: subs_of_def)
  then show ?thesis by (auto simp: publish_def subs_of_def bus_simps Some send_all_spec Let_def)
qed (simp add: publish_def subs_of_def)

lemma bus_op_fields [bus_simps]:
  "eb_channels (register_run k r bus) = eb_channels bus" "eb_next_sub_id (register_run k r bus) = eb_next_sub_id bus"
  "eb_channels (end_run k bus) = eb_channels bus" "eb_next_sub_id (end_run k bus) = eb_next_sub_id bus"
  "eb_channels (unsubscribe k i bus) = eb_channels bus" "eb_next_sub_id (unsubscribe k i bus) = eb_next_sub_id bus"
  "eb_next_sub_id (publish k ev bus) = eb_next_sub_id bus"
  by (auto simp: register_run_def end_run_def unsubscribe_def publish_def bus_simps Let_def split: option.split prod.split)

lemma subscribe_fields:
  "subscribe k bus = (i, r, bus') \<Longrightarrow> i = Suc (eb_next_sub_id bus) \<and> eb_next_sub_id bus' = i \<and>
     eb_channels bus' = (eb_channels bus)(i := \<lparr>ch_queue = [], ch_open = True\<rparr>)"
  by (auto simp: subscribe_def Let_def bus_simps)

lemma receiver_fields [bus_simps]:
  "subs_of (drop_receiver i bus) k = subs_of bus k" "entry_of (drop_receiver i bus) k = entry_of bus k"
  "eb_next_sub_id (drop_receiver i bus) = eb_next_sub_id bus"
  "eb_channels (drop_receiver i bus) = (eb_channels bus)(i := \<lparr>ch_queue = [], ch_open = False\<rparr>)"
  "subs_of (snd (recv i bus)) k = subs_of bus k" "entry_of (snd (recv i bus)) k = entry_of bus k"
  "eb_next_sub_id (snd (recv i bus)) = eb_next_sub_id bus"
  by (auto simp: drop_receiver_def recv_def subs_of_def entry_of_def split: list.split)

subsection \<open>Well-formed buses\<close>

text \<open>Subscription ids are unique and below the counter, and no entry is kept for a session that neither runs
  nor is watched.\<close>

definition tidy :: "EventBus \<Rightarrow> bool" where
  "tidy bus \<longleftrightarrow> (\<forall>k e. entry_of bus k = Some e \<longrightarrow> en_run_id e \<noteq> None \<or> en_subscribers e \<noteq> [])"

definition bus_ok :: "EventBus \<Rightarrow> bool" where
  "bus_ok bus \<longleftrightarrow> tidy bus \<and> (\<forall>k. distinct (subs_of bus k)) \<and>
     (\<forall>k k' i. i \<in> set (subs_of bus k) \<longrightarrow> i \<in> set (subs_of bus k') \<longrightarrow> k = k') \<and>
     (\<forall>k i. i \<in> set (subs_of bus k) \<longrightarrow> i \<le> eb_next_sub_id bus)"

lemma bus_okD:
  assumes "bus_ok bus"
  shows "tidy bus" "distinct (subs_of bus k)" "i \<in> set (subs_of bus k) \<Longrightarrow> i \<in> set (subs_of bus k') \<Longrightarrow> k = k'"
    "i \<in> set (subs_of bus k) \<Longrightarrow> i \<le> eb_next_sub_id bus"
  using assms unfolding bus_ok_def by blast+

lemma bus_ok_filter:
  assumes "bus_ok bus" "tidy bus'" "\<And>k. subs_of bus' k = filter (P k) (subs_of bus k)" "eb_next_sub_id bus' = eb_next_sub_id bus"
  shows "bus_ok bus'"
  using bus_okD(2-) [OF assms(1)] assms(2-) unfolding bus_ok_def by (simp add: distinct_filter) blast

lemmas bus_ok_same = bus_ok_filter [where P = "\<lambda>_ _. True", simplified]

lemma tidy_register: "tidy bus \<Longrightarrow> tidy (register_run k r bus)"
  by (auto simp: tidy_def register_run_def bus_simps split: if_splits)

lemma tidy_end: "tidy bus \<Longrightarrow> tidy (end_run k bus)"
  by (auto simp: tidy_def end_run_def bus_simps split: if_splits option.splits)

lemma tidy_unsubscribe: "tidy bus \<Longrightarrow> tidy (unsubscribe k i bus)"
  by (auto simp: tidy_def unsubscribe_def Let_def bus_simps split: if_splits option.splits)

lemma tidy_publish: "tidy bus \<Longrightarrow> tidy (publish k ev bus)"
  by (auto simp: tidy_def publish_def Let_def bus_simps split: if_splits option.splits prod.splits)

lemma tidy_subscribe: "tidy bus \<Longrightarrow> subscribe k bus = (i, r, bus') \<Longrightarrow> tidy bus'"
  by (fastforce simp: tidy_def subscribe_def Let_def bus_simps split: if_splits)

lemma bus_ok_register: "bus_ok bus \<Longrightarrow> bus_ok (register_run k r bus)"
  by (rule bus_ok_same) (simp_all add: tidy_register bus_okD bus_simps)

lemma bus_ok_end: "bus_ok bus \<Longrightarrow> bus_ok (end_run k bus)"
  by (rule bus_ok_same) (simp_all add: tidy_end bus_okD bus_simps)

lemma bus_ok_unsubscribe: "bus_ok bus \<Longrightarrow> bus_ok (unsubscribe k i bus)"
  by (rule bus_ok_filter [where P = "\<lambda>k' j. k' = k \<longrightarrow> j \<noteq> i"]) (simp_all add: tidy_unsubscribe bus_okD bus_simps)

lemma bus_ok_publish: "bus_ok bus \<Longrightarrow> bus_ok (publish k ev bus)"
  by (rule bus_ok_filter [where P = "\<lambda>k' i. k' = k \<longrightarrow> accepts (eb_channels bus i)"]) (simp_all add: tidy_publish bus_okD bus_simps)

lemma bus_ok_receiver: "bus_ok bus \<Longrightarrow> bus_ok (drop_receiver i bus)" "bus_ok bus \<Longrightarrow> bus_ok (snd (recv i bus))"
  by (simp_all add: bus_ok_def tidy_def bus_simps)

lemma bus_ok_subscribe:
  assumes ok: "bus_ok bus" and sub: "subscribe k bus = (i, r, bus')"
  shows "bus_ok bus'"
proof -
  have f: "i = Suc (eb_next_sub_id bus)" "eb_next_sub_id bus' = i" using subscribe_fields [OF sub] by auto
  have new: "i \<notin> set (subs_of bus k')" for k' using bus_okD(4) [OF ok, of i k'] f by auto
  have s: "subs_of bus' k' = subs_of bus k' @ (if k' = k then [i] else [])" for k' using subs_subscribe [OF sub] .
  have "distinct (subs_of bus' k')" for k' using bus_okD(2) [OF ok, of k'] new by (simp add: s)
  moreover have "j \<in> set (subs_of bus' k') \<Longrightarrow> j \<in> set (subs_of bus' k'') \<Longrightarrow> k' = k''" for j k' k''
    using bus_okD(3) [OF ok, of j k' k''] new by (simp add: s split: if_splits) blast+
  moreover have "j \<in> set (subs_of bus' k') \<Longrightarrow> j \<le> eb_next_sub_id bus'" for j k'
    using bus_okD(4) [OF ok, of j k'] by (auto simp: s f split: if_splits)
  ultimately show ?thesis using tidy_subscribe [OF bus_okD(1) [OF ok] sub] unfolding bus_ok_def by blast
qed

subsection \<open>Clients and subscriptions\<close>

text \<open>Every subscriber of the bus is the subscription of exactly one open client, whose receiver is alive.\<close>

definition holds :: "events_sys \<Rightarrow> nat \<Rightarrow> string \<Rightarrow> nat \<Rightarrow> bool" where
  "holds sys c k i \<longleftrightarrow> ec_sub (sy_conns sys c) = Some (k, i)"

definition sys_ok :: "events_sys \<Rightarrow> bool" where
  "sys_ok sys \<longleftrightarrow> bus_ok (sy_bus sys) \<and>
     (\<forall>c k i. holds sys c k i \<longrightarrow> serving c sys \<and> i \<le> eb_next_sub_id (sy_bus sys) \<and> ch_open (eb_channels (sy_bus sys) i)) \<and>
     (\<forall>c c' k k' i. holds sys c k i \<longrightarrow> holds sys c' k' i \<longrightarrow> c = c') \<and>
     (\<forall>k i. i \<in> set (subs_of (sy_bus sys) k) \<longrightarrow> (\<exists>c. holds sys c k i))"

lemma sys_okD:
  assumes "sys_ok sys"
  shows "bus_ok (sy_bus sys)" "holds sys c k i \<Longrightarrow> serving c sys"
    "holds sys c k i \<Longrightarrow> i \<le> eb_next_sub_id (sy_bus sys)" "holds sys c k i \<Longrightarrow> ch_open (eb_channels (sy_bus sys) i)"
    "holds sys c k i \<Longrightarrow> holds sys c' k' i \<Longrightarrow> c = c'" "i \<in> set (subs_of (sy_bus sys) k) \<Longrightarrow> \<exists>c. holds sys c k i"
  using assms unfolding sys_ok_def by blast+

definition set_conn :: "nat \<Rightarrow> EventsConn \<times> EventBus \<Rightarrow> events_sys \<Rightarrow> events_sys" where
  "set_conn c cb sys = sys\<lparr>sy_bus := snd cb, sy_conns := (sy_conns sys)(c := fst cb)\<rparr>"

lemma set_conn_simps [simp]:
  "sy_bus (set_conn c cb sys) = snd cb" "sy_conns (set_conn c cb sys) = (sy_conns sys)(c := fst cb)" "sy_sent (set_conn c cb sys) = sy_sent sys"
  "set_conn c cb (set_conn c cb' sys) = set_conn c cb sys"
  by (simp_all add: set_conn_def)

lemma set_conn_same [simp]: "set_conn c (sy_conns sys c, sy_bus sys) sys = sys"
  by (simp add: set_conn_def)

lemma sys_ok_sent [simp]: "sys_ok (sys\<lparr>sy_sent := f\<rparr>) = sys_ok sys"
  by (simp add: sys_ok_def holds_def serving_def)

lemma detach_ok:
  assumes ok: "sys_ok sys"
  shows "sys_ok (set_conn c (detach (sy_conns sys c) (sy_bus sys)) sys)"
proof (cases "ec_sub (sy_conns sys c)")
  case (Some ki)
  then obtain k i where ki: "ec_sub (sy_conns sys c) = Some (k, i)" by (cases ki) auto
  let ?sys = "set_conn c (detach (sy_conns sys c) (sy_bus sys)) sys"
  have bus: "snd (detach (sy_conns sys c) (sy_bus sys)) = drop_receiver i (unsubscribe k i (sy_bus sys))" by (simp add: detach_def ki)
  have h: "holds ?sys c' k' j \<longleftrightarrow> c' \<noteq> c \<and> holds sys c' k' j" for c' k' j by (simp add: holds_def detach_def ki)
  have hc: "holds sys c k i" by (simp add: holds_def ki)
  have other: "holds sys c' k' i \<Longrightarrow> c' = c" for c' k' using sys_okD(5) [OF ok _ hc] .
  have serve: "c' \<noteq> c \<Longrightarrow> serving c' ?sys = serving c' sys" for c' by (simp add: serving_def)
  have subs: "\<exists>c'. holds ?sys c' k' j" if "j \<in> set (subs_of (sy_bus ?sys) k')" for k' j
  proof -
    have j: "j \<in> set (subs_of (sy_bus sys) k')" "k' = k \<longrightarrow> j \<noteq> i" using that by (auto simp: bus bus_simps split: if_splits)
    then obtain c' where c': "holds sys c' k' j" using sys_okD(6) [OF ok] by blast
    moreover have "c' \<noteq> c" using c' j(2) ki by (auto simp: holds_def)
    ultimately show ?thesis using h by blast
  qed
  have "holds ?sys c' k' j \<Longrightarrow> serving c' ?sys \<and> j \<le> eb_next_sub_id (sy_bus ?sys) \<and> ch_open (eb_channels (sy_bus ?sys) j)" for c' k' j
    using sys_okD(2-4) [OF ok, of c' k' j] other [of c' k'] by (auto simp: h bus bus_simps serve)
  moreover have "bus_ok (sy_bus ?sys)" using sys_okD(1) [OF ok] by (simp add: bus bus_ok_receiver bus_ok_unsubscribe)
  ultimately show ?thesis using subs sys_okD(5) [OF ok] h unfolding sys_ok_def by blast
qed (simp add: detach_def ok)

lemma detached_no_sub: "ec_sub (fst (detach conn bus)) = None"
  by (simp add: detach_def split: option.split)

lemma detach_open: "ec_open (fst (detach conn bus)) = ec_open conn" "ec_loading (fst (detach conn bus)) = ec_loading conn"
  by (auto simp: detach_def split: option.split)

text \<open>A client without a subscription may change its other fields freely.\<close>

lemma idle_conn_ok:
  assumes "sys_ok sys" "ec_sub (sy_conns sys c) = None" "ec_sub conn = None"
  shows "sys_ok (set_conn c (conn, sy_bus sys) sys)"
proof -
  let ?sys = "set_conn c (conn, sy_bus sys) sys"
  have "holds ?sys c' k i = holds sys c' k i" for c' k i using assms(2,3) by (simp add: holds_def)
  moreover have "holds sys c' k i \<Longrightarrow> serving c' ?sys = serving c' sys" for c' k i using assms(2) by (auto simp: holds_def serving_def)
  ultimately show ?thesis using assms(1) unfolding sys_ok_def by simp
qed

lemma close_ok:
  assumes "sys_ok sys"
  shows "sys_ok (set_conn c (close_conn (sy_conns sys c) (sy_bus sys)) sys)"
  using idle_conn_ok [OF detach_ok [OF assms, of c], of c "(fst (detach (sy_conns sys c) (sy_bus sys)))\<lparr>ec_open := False, ec_loading := None\<rparr>"]
  by (simp add: close_conn_def detached_no_sub case_prod_beta)

lemma attached_ok:
  assumes ok: "sys_ok sys" and op: "ec_open (sy_conns sys c)" and load: "ec_loading (sy_conns sys c) = Some (key, history)"
  shows "sys_ok (set_conn c (snd (events_attached (sy_conns sys c) (sy_bus sys))) sys)"
proof -
  obtain i r bus' where sub: "subscribe key (sy_bus sys) = (i, r, bus')" by (cases "subscribe key (sy_bus sys)") auto
  let ?sys = "set_conn c (snd (events_attached (sy_conns sys c) (sy_bus sys))) sys"
  have bus: "sy_bus ?sys = bus'" by (simp add: events_attached_def load sub set_conn_def)
  note f = subscribe_fields [OF sub] subs_subscribe [OF sub]
  have idle: "\<not> holds sys c k j" for k j using sys_okD(2) [OF ok, of c k j] load by (auto simp: serving_def)
  have h: "holds ?sys c' k j \<longleftrightarrow> (if c' = c then k = key \<and> j = i else holds sys c' k j)" for c' k j
    by (auto simp: holds_def events_attached_def load sub)
  have old: "holds sys c' k j \<Longrightarrow> j < i \<and> serving c' ?sys \<and> ch_open (eb_channels bus' j)" for c' k j
    using sys_okD(2-4) [OF ok, of c' k j] f(1) load by (auto simp: serving_def)
  have new: "serving c ?sys" by (simp add: serving_def events_attached_def load sub op)
  have "holds ?sys c' k j \<Longrightarrow> serving c' ?sys \<and> j \<le> eb_next_sub_id bus' \<and> ch_open (eb_channels bus' j)" for c' k j
    using old [of c' k j] new f(1) by (auto simp: h split: if_splits)
  moreover have "c1 = c2" if "holds ?sys c1 k j" "holds ?sys c2 k' j" for c1 c2 k k' j
    using that sys_okD(5) [OF ok, of c1 k j c2 k'] old [of c1 k j] old [of c2 k' j] by (auto simp: h split: if_splits)
  moreover have "\<exists>c'. holds ?sys c' k j" if j: "j \<in> set (subs_of bus' k)" for k j
  proof (cases "j \<in> set (subs_of (sy_bus sys) k)")
    case True
    then obtain c' where "holds sys c' k j" using sys_okD(6) [OF ok] by blast
    then show ?thesis using idle h by metis
  next
    case False
    then have "k = key" "j = i" using j f(2) by (auto split: if_splits)
    then show ?thesis using h by metis
  qed
  ultimately show ?thesis using bus_ok_subscribe [OF sys_okD(1) [OF ok] sub] unfolding sys_ok_def bus by blast
qed

lemma bus_only_ok:
  assumes "sys_ok sys" "bus_ok bus" "eb_next_sub_id bus = eb_next_sub_id (sy_bus sys)"
    "\<And>i. ch_open (eb_channels bus i) = ch_open (eb_channels (sy_bus sys) i)" "\<And>k. set (subs_of bus k) \<subseteq> set (subs_of (sy_bus sys) k)"
  shows "sys_ok (sys\<lparr>sy_bus := bus\<rparr>)"
  using sys_okD(2-) [OF assms(1)] assms(2-) unfolding sys_ok_def holds_def serving_def by simp blast

lemma deliver_ok:
  assumes "sys_ok (set_conn c (snd res) sys)"
  shows "sys_ok (deliver c ok res sys)"
proof -
  obtain frame conn bus where res: "res = (frame, conn, bus)" by (cases res) auto
  show ?thesis
    using assms close_ok [OF assms, of c]
    by (auto simp: res deliver_def set_conn_def case_prod_beta split: option.split)
qed

lemma request_ok:
  assumes "sys_ok sys"
  shows "sys_ok (set_conn c (snd (events_request env now fs req (sy_conns sys c) (sy_bus sys))) sys)"
proof -
  have "sys_ok (set_conn c ((fst (detach (sy_conns sys c) (sy_bus sys)))\<lparr>ec_loading := l\<rparr>, snd (detach (sy_conns sys c) (sy_bus sys))) sys)" for l
    using idle_conn_ok [OF detach_ok [OF assms, of c], of c "(fst (detach (sy_conns sys c) (sy_bus sys)))\<lparr>ec_loading := l\<rparr>"]
    by (simp add: detached_no_sub)
  then show ?thesis using assms detach_ok [OF assms, of c]
    by (auto simp: events_request_def case_prod_beta split: HarnessRequest.split sum.split)
qed

lemma recv_open: "ch_open (eb_channels (snd (recv i bus)) j) = ch_open (eb_channels bus j)"
  by (simp add: recv_def split: list.split)

lemma pump_ok:
  assumes "sys_ok sys"
  shows "sys_ok (set_conn c (snd (events_pump (sy_conns sys c) (sy_bus sys))) sys)"
proof (cases "ec_sub (sy_conns sys c)")
  case (Some ki)
  have "sys_ok (sys\<lparr>sy_bus := snd (recv (snd ki) (sy_bus sys))\<rparr>)"
    by (rule bus_only_ok [OF assms]) (simp_all add: bus_ok_receiver sys_okD(1) [OF assms] bus_simps recv_open)
  then show ?thesis by (simp add: events_pump_def Some case_prod_beta set_conn_def)
qed (simp add: events_pump_def assms)

lemma exec_ok: "sys_ok sys \<Longrightarrow> sys_ok (events_exec env st sys)"
proof (cases st)
  case (StPublish k ev)
  assume ok: "sys_ok sys"
  then have "distinct (subs_of (sy_bus sys) k)" by (simp add: sys_okD bus_okD)
  then have "sys_ok (sys\<lparr>sy_bus := publish k ev (sy_bus sys)\<rparr>)"
    by (intro bus_only_ok [OF ok]) (auto simp: bus_simps sys_okD [OF ok] bus_ok_publish)
  then show ?thesis by (simp add: StPublish)
next
  case (StRegister k r)
  assume ok: "sys_ok sys"
  then have "sys_ok (sys\<lparr>sy_bus := register_run k r (sy_bus sys)\<rparr>)"
    by (intro bus_only_ok [OF ok]) (simp_all add: bus_simps sys_okD bus_ok_register)
  then show ?thesis by (simp add: StRegister)
next
  case (StEnd k)
  assume ok: "sys_ok sys"
  then have "sys_ok (sys\<lparr>sy_bus := end_run k (sy_bus sys)\<rparr>)"
    by (intro bus_only_ok [OF ok]) (simp_all add: bus_simps sys_okD bus_ok_end)
  then show ?thesis by (simp add: StEnd)
next
  case (StConnect c)
  assume ok: "sys_ok sys"
  have "\<not> ec_open (sy_conns sys c) \<Longrightarrow> ec_sub (sy_conns sys c) = None"
    using sys_okD(2) [OF ok, of c] by (cases "ec_sub (sy_conns sys c)") (auto simp: holds_def serving_def)
  then show ?thesis using ok idle_conn_ok [OF ok, of c "\<lparr>ec_open = True, ec_sub = None, ec_loading = None\<rparr>"]
    by (simp add: StConnect set_conn_def)
next
  case (StInvalid c err ok)
  assume "sys_ok sys"
  then show ?thesis by (simp add: StInvalid deliver_ok)
next
  case (StRequest c now fs req ok)
  assume "sys_ok sys"
  then show ?thesis by (simp add: StRequest deliver_ok request_ok)
next
  case (StAttach c ok)
  assume "sys_ok sys"
  then show ?thesis using attached_ok [of sys c]
    by (cases "ec_loading (sy_conns sys c)") (auto simp: StAttach serving_def intro!: deliver_ok)
next
  case (StPump c ok)
  assume "sys_ok sys"
  then show ?thesis by (simp add: StPump deliver_ok pump_ok)
next
  case (StClose c)
  assume "sys_ok sys"
  then show ?thesis using close_ok [of sys c] by (simp add: StClose case_prod_beta set_conn_def)
qed

lemma start_ok: "sys_ok events_start"
  by (simp add: sys_ok_def events_start_def holds_def bus_ok_def tidy_def subs_of_def entry_of_def EventBus_new_def)

lemma events_run_Cons [simp]: "events_run env (st # steps) sys = events_run env steps (events_exec env st sys)" "events_run env [] sys = sys"
  by (simp_all add: events_run_def)

lemma run_ok: "sys_ok sys \<Longrightarrow> sys_ok (events_run env steps sys)"
  by (induction steps arbitrary: sys) (simp_all add: exec_ok)

text \<open>In every reachable state of the gateway each subscriber of the bus is held by exactly one client, which is open and
  whose receiver is alive; ids are not shared between sessions; and the bus keeps an entry only for a session that
  has a running turn or a subscriber. So neither failed sockets, re-attaching, eviction nor closing leaks a
  subscription or a session.\<close>

theorem subscriptions_never_leak:
  "let sys = events_run env steps events_start; bus = sy_bus sys
   in (\<forall>k i. (case entry_of bus k of None \<Rightarrow> False | Some e \<Rightarrow> i \<in> set (en_subscribers e)) \<longrightarrow>
         (\<exists>!c. ec_sub (sy_conns sys c) = Some (k, i) \<and> ec_open (sy_conns sys c) \<and> ch_open (eb_channels bus i))) \<and>
      (\<forall>k e. entry_of bus k = Some e \<longrightarrow> en_run_id e \<noteq> None \<or> en_subscribers e \<noteq> [])"
proof -
  let ?sys = "events_run env steps events_start"
  have ok: "sys_ok ?sys" by (rule run_ok [OF start_ok])
  have "\<exists>!c. ec_sub (sy_conns ?sys c) = Some (k, i) \<and> ec_open (sy_conns ?sys c) \<and> ch_open (eb_channels (sy_bus ?sys) i)"
    if i: "i \<in> set (subs_of (sy_bus ?sys) k)" for k i
  proof -
    obtain c where c: "holds ?sys c k i" using sys_okD(6) [OF ok i] by blast
    show ?thesis using c sys_okD(2,4) [OF ok c] sys_okD(5) [OF ok c] unfolding holds_def serving_def by (intro ex1I [of _ c]) blast+
  qed
  then show ?thesis using bus_okD(1) [OF sys_okD(1) [OF ok]]
    by (auto simp: Let_def subs_of_def tidy_def split: option.splits)
qed

section \<open>What an attached client receives\<close>

fun is_event_frame :: "HarnessServerFrame \<Rightarrow> bool" where
  "is_event_frame (FrameEvent _) = True"
| "is_event_frame _ = False"

text \<open>The events published to a session, and the steps in which a client keeps its subscription: it sends no attach, detach
  or close, and its socket does not fail.\<close>

fun published :: "string \<Rightarrow> events_step list \<Rightarrow> HarnessServerFrame list" where
  "published key [] = []"
| "published key (StPublish k ev # steps) = (if k = key then FrameEvent ev # published key steps else published key steps)"
| "published key (_ # steps) = published key steps"

fun keeps_attached :: "HarnessRequest \<Rightarrow> bool" where
  "keeps_attached (AttachSession _) = False"
| "keeps_attached DetachSession = False"
| "keeps_attached _ = True"

fun stays :: "nat \<Rightarrow> events_step \<Rightarrow> bool" where
  "stays c (StInvalid c' _ ok) = (c' = c \<longrightarrow> ok)"
| "stays c (StRequest c' _ _ req ok) = (c' = c \<longrightarrow> ok \<and> keeps_attached req)"
| "stays c (StAttach c' ok) = (c' = c \<longrightarrow> ok)"
| "stays c (StPump c' ok) = (c' = c \<longrightarrow> ok)"
| "stays c (StClose c') = (c' \<noteq> c)"
| "stays c _ = True"

text \<open>The events the client got and those queued for it.\<close>

definition view :: "nat \<Rightarrow> nat \<Rightarrow> events_sys \<Rightarrow> HarnessServerFrame list" where
  "view c i sys = filter is_event_frame (sy_sent sys c @ pending (sy_bus sys) i)"

definition same_view :: "string \<Rightarrow> nat \<Rightarrow> EventBus \<Rightarrow> EventBus \<Rightarrow> bool" where
  "same_view k i bus bus' \<longleftrightarrow> pending bus' i = pending bus i \<and> (i \<in> set (subs_of bus' k) \<longleftrightarrow> i \<in> set (subs_of bus k))"

lemma same_view_refl [simp]: "same_view k i bus bus"
  by (simp add: same_view_def)

lemma same_view_trans: "same_view k i b1 b2 \<Longrightarrow> same_view k i b2 b3 \<Longrightarrow> same_view k i b1 b3"
  by (simp add: same_view_def)

lemma detach_view:
  "(\<And>k' j. ec_sub conn = Some (k', j) \<Longrightarrow> j \<noteq> i) \<Longrightarrow> same_view k i bus (snd (detach conn bus))"
  by (auto simp: detach_def same_view_def bus_simps split: option.split)

lemma close_view:
  "(\<And>k' j. ec_sub conn = Some (k', j) \<Longrightarrow> j \<noteq> i) \<Longrightarrow> same_view k i bus (snd (close_conn conn bus))"
  using detach_view [of conn i k bus] by (simp add: close_conn_def case_prod_beta)

lemma subscribe_view: "i \<le> eb_next_sub_id bus \<Longrightarrow> subscribe k' bus = (j, r, bus') \<Longrightarrow> j \<noteq> i \<and> same_view k i bus bus'"
  using subscribe_fields [of k' bus j r bus'] subs_subscribe [of k' bus j r bus' k] by (auto simp: same_view_def)

lemma recv_view: "j \<noteq> i \<Longrightarrow> same_view k i bus (snd (recv j bus))"
  by (auto simp: same_view_def recv_def subs_of_def entry_of_def split: list.split)

text \<open>A client's step does not disturb the others.\<close>

lemma deliver_view:
  assumes "same_view k i (sy_bus sys) bus" "\<And>k' j. ec_sub conn = Some (k', j) \<Longrightarrow> j \<noteq> i" "c' \<noteq> c"
  shows "same_view k i (sy_bus sys) (sy_bus (deliver c' ok (f, conn, bus) sys)) \<and>
    sy_conns (deliver c' ok (f, conn, bus) sys) c = sy_conns sys c \<and> sy_sent (deliver c' ok (f, conn, bus) sys) c = sy_sent sys c"
  using assms same_view_trans [OF assms(1) close_view [OF assms(2)]]
  by (auto simp: deliver_def case_prod_beta split: option.split)

lemma other_client_view:
  assumes "(\<And>k' j. ec_sub conn = Some (k', j) \<Longrightarrow> j \<noteq> i)" "i \<le> eb_next_sub_id bus"
  shows "same_view k i bus (snd (snd (events_request env now fs req conn bus)))"
    "same_view k i bus (snd (snd (events_attached conn bus)))" "same_view k i bus (snd (snd (events_pump conn bus)))"
    "ec_sub (fst (snd (events_request env now fs req conn bus))) = Some (k', j) \<Longrightarrow> j \<noteq> i"
    "ec_sub (fst (snd (events_attached conn bus))) = Some (k', j) \<Longrightarrow> j \<noteq> i"
    "ec_sub (fst (snd (events_pump conn bus))) = Some (k', j) \<Longrightarrow> j \<noteq> i"
proof -
  show "same_view k i bus (snd (snd (events_request env now fs req conn bus)))"
    using detach_view [OF assms(1)] by (auto simp: events_request_def case_prod_beta split: HarnessRequest.split sum.split)
  show "same_view k i bus (snd (snd (events_attached conn bus)))"
    using subscribe_view [OF assms(2)] by (auto simp: events_attached_def split: option.split prod.split)
  show "same_view k i bus (snd (snd (events_pump conn bus)))"
    using recv_view assms(1) by (auto simp: events_pump_def case_prod_beta split: option.split)
  show "ec_sub (fst (snd (events_request env now fs req conn bus))) = Some (k', j) \<Longrightarrow> j \<noteq> i"
    using assms(1) detached_no_sub [of conn bus]
    by (auto simp: events_request_def case_prod_beta split: HarnessRequest.splits sum.splits)
  show "ec_sub (fst (snd (events_attached conn bus))) = Some (k', j) \<Longrightarrow> j \<noteq> i"
    using assms(1) subscribe_view [OF assms(2)] by (fastforce simp: events_attached_def split: option.splits prod.splits)
  show "ec_sub (fst (snd (events_pump conn bus))) = Some (k', j) \<Longrightarrow> j \<noteq> i"
    using assms(1) by (auto simp: events_pump_def case_prod_beta split: option.splits)
qed

lemma bus_step_view:
  assumes "same_view k i (sy_bus sys) bus"
  shows "holds (sys\<lparr>sy_bus := bus\<rparr>) c k i = holds sys c k i \<and> view c i (sys\<lparr>sy_bus := bus\<rparr>) = view c i sys"
  using assms by (simp add: holds_def view_def same_view_def)

lemma other_step_view:
  assumes "same_view k i (sy_bus sys) (sy_bus sys')" "sy_conns sys' c = sy_conns sys c" "sy_sent sys' c = sy_sent sys c"
  shows "holds sys' c k i = holds sys c k i \<and> view c i sys' = view c i sys \<and>
    (i \<in> set (subs_of (sy_bus sys') k) \<longleftrightarrow> i \<in> set (subs_of (sy_bus sys) k))"
  using assms by (simp add: holds_def view_def same_view_def)

lemma own_step_view:
  assumes "holds sys c k i" "serving c sys" "keeps_attached req"
  shows "same_view k i (sy_bus sys) (sy_bus (deliver c True (events_request env now fs req (sy_conns sys c) (sy_bus sys)) sys)) \<and>
    holds (deliver c True (events_request env now fs req (sy_conns sys c) (sy_bus sys)) sys) c k i \<and>
    view c i (deliver c True (events_request env now fs req (sy_conns sys c) (sy_bus sys)) sys) = view c i sys"
  using assms by (cases req) (simp_all add: events_request_def deliver_def holds_def view_def)

lemma own_pump_view:
  assumes "holds sys c k i"
  shows "holds (deliver c True (events_pump (sy_conns sys c) (sy_bus sys)) sys) c k i \<and>
    view c i (deliver c True (events_pump (sy_conns sys c) (sy_bus sys)) sys) = view c i sys \<and>
    subs_of (sy_bus (deliver c True (events_pump (sy_conns sys c) (sy_bus sys)) sys)) k = subs_of (sy_bus sys) k"
  using assms by (cases "pending (sy_bus sys) i") (auto simp: holds_def events_pump_def recv_def deliver_def view_def subs_of_def entry_of_def)

text \<open>The effect of a step on the stream of an attached client.\<close>

definition step_effect :: "string \<Rightarrow> nat \<Rightarrow> nat \<Rightarrow> events_step \<Rightarrow> events_sys \<Rightarrow> events_sys \<Rightarrow> bool" where
  "step_effect k i c st sys sys' \<longleftrightarrow> holds sys' c k i \<and>
     (if i \<in> set (subs_of (sy_bus sys) k) \<and> (published k [st] = [] \<or> length (pending (sy_bus sys) i) < SUBSCRIBER_CAPACITY)
      then i \<in> set (subs_of (sy_bus sys') k) \<and> view c i sys' = view c i sys @ published k [st]
      else i \<notin> set (subs_of (sy_bus sys') k) \<and> view c i sys' = view c i sys)"

lemma unchanged_effect:
  assumes "published k [st] = []" "holds sys' c k i \<and> view c i sys' = view c i sys \<and> (i \<in> set (subs_of (sy_bus sys') k) \<longleftrightarrow> i \<in> set (subs_of (sy_bus sys) k))"
  shows "step_effect k i c st sys sys'"
  using assms by (simp add: step_effect_def)

lemma publish_effect:
  assumes ok: "sys_ok sys" and h: "holds sys c k i"
  shows "step_effect k i c (StPublish k' ev) sys (sys\<lparr>sy_bus := publish k' ev (sy_bus sys)\<rparr>)"
proof -
  let ?bus = "sy_bus sys"
  have d: "distinct (subs_of ?bus k')" by (simp add: sys_okD [OF ok] bus_okD)
  have only: "k' = k" if i: "i \<in> set (subs_of ?bus k')"
  proof -
    obtain c' where c': "holds sys c' k' i" using sys_okD(6) [OF ok i] by blast
    then show ?thesis using sys_okD(5) [OF ok h c'] h by (auto simp: holds_def)
  qed
  have op: "ch_open (eb_channels ?bus i)" using sys_okD(4) [OF ok h] .
  show ?thesis
  proof (cases "k' = k")
    case True
    then show ?thesis using d op h
      by (auto simp: step_effect_def holds_def view_def bus_simps accepts_def)
  next
    case False
    then have "i \<notin> set (subs_of ?bus k')" using only by blast
    then show ?thesis using d h False by (auto simp: step_effect_def holds_def view_def bus_simps)
  qed
qed

lemma other_deliver_effect:
  assumes ok: "sys_ok sys" and h: "holds sys c k i" and c': "c' \<noteq> c" and p: "published k [st] = []"
  shows "step_effect k i c st sys (deliver c' okf (Some e, sy_conns sys c', sy_bus sys) sys)"
    "step_effect k i c st sys (deliver c' okf (events_request env now fs req (sy_conns sys c') (sy_bus sys)) sys)"
    "step_effect k i c st sys (deliver c' okf (events_attached (sy_conns sys c') (sy_bus sys)) sys)"
    "step_effect k i c st sys (deliver c' okf (events_pump (sy_conns sys c') (sy_bus sys)) sys)"
proof -
  have j: "ec_sub (sy_conns sys c') = Some (k', j) \<Longrightarrow> j \<noteq> i" for k' j
    using sys_okD(5) [OF ok h, of c' k'] c' by (auto simp: holds_def)
  note o = other_client_view [OF j sys_okD(3) [OF ok h]]
  have eff: "step_effect k i c st sys (deliver c' okf res sys)"
    if v: "same_view k i (sy_bus sys) (snd (snd res))" and s: "\<And>k' j. ec_sub (fst (snd res)) = Some (k', j) \<Longrightarrow> j \<noteq> i" for res
  proof -
    have "same_view k i (sy_bus sys) (sy_bus (deliver c' okf res sys)) \<and>
        sy_conns (deliver c' okf res sys) c = sy_conns sys c \<and> sy_sent (deliver c' okf res sys) c = sy_sent sys c"
      using deliver_view [where conn = "fst (snd res)" and f = "fst res", OF v s c'] by simp
    then show ?thesis using h p other_step_view [of k i sys "deliver c' okf res sys" c] by (intro unchanged_effect) blast+
  qed
  show "step_effect k i c st sys (deliver c' okf (Some e, sy_conns sys c', sy_bus sys) sys)" by (rule eff) (auto dest: j)
  show "step_effect k i c st sys (deliver c' okf (events_request env now fs req (sy_conns sys c') (sy_bus sys)) sys)"
    by (rule eff [OF o(1) o(4)])
  show "step_effect k i c st sys (deliver c' okf (events_attached (sy_conns sys c') (sy_bus sys)) sys)" by (rule eff [OF o(2) o(5)])
  show "step_effect k i c st sys (deliver c' okf (events_pump (sy_conns sys c') (sy_bus sys)) sys)" by (rule eff [OF o(3) o(6)])
qed

lemma exec_effect:
  assumes ok: "sys_ok sys" and h: "holds sys c k i" and st: "stays c st"
  shows "step_effect k i c st sys (events_exec env st sys)"
proof -
  have serve: "serving c sys" using sys_okD(2) [OF ok h] .
  have same: "published k [st] = [] \<Longrightarrow> step_effect k i c st sys sys" using h by (simp add: unchanged_effect)
  show ?thesis
  proof (cases st)
    case (StInvalid c' err okf)
    show ?thesis
    proof (cases "c' = c")
      case True
      then show ?thesis using h st serve by (intro unchanged_effect) (simp_all add: StInvalid deliver_def holds_def view_def)
    next
      case False
      then show ?thesis using other_deliver_effect [OF ok h False, of st] same by (simp add: StInvalid)
    qed
  next
    case (StRequest c' now fs req okf)
    show ?thesis
    proof (cases "c' = c")
      case True
      then show ?thesis using own_step_view [OF h serve, of req env now fs] h st serve
        by (intro unchanged_effect) (auto simp: StRequest same_view_def)
    next
      case False
      then show ?thesis using other_deliver_effect [OF ok h False, of st] same by (simp add: StRequest)
    qed
  next
    case (StAttach c' okf)
    then show ?thesis using other_deliver_effect [OF ok h, of c' st] same serve by (cases "c' = c") simp_all
  next
    case (StPump c' okf)
    show ?thesis
    proof (cases "c' = c")
      case True
      then show ?thesis using own_pump_view [OF h] st serve by (intro unchanged_effect) (simp_all add: StPump)
    next
      case False
      then show ?thesis using other_deliver_effect [OF ok h False, of st] same by (simp add: StPump)
    qed
  next
    case (StClose c')
    then have c': "c' \<noteq> c" using st by simp
    have "ec_sub (sy_conns sys c') = Some (k', j) \<Longrightarrow> j \<noteq> i" for k' j
      using sys_okD(5) [OF ok h, of c' k'] c' by (auto simp: holds_def)
    note v = close_view [OF this, where k = k and bus = "sy_bus sys"]
    then show ?thesis using h same c' by (auto simp: StClose case_prod_beta holds_def view_def same_view_def intro!: unchanged_effect)
  next
    case (StPublish k' ev)
    then show ?thesis using publish_effect [OF ok h] by simp
  qed (use h serve in \<open>auto intro!: unchanged_effect simp: holds_def view_def bus_simps serving_def\<close>)
qed

lemma evicted_view:
  assumes "sys_ok sys" "holds sys c k i" "list_all (stays c) steps" "i \<notin> set (subs_of (sy_bus sys) k)"
  shows "view c i (events_run env steps sys) = view c i sys \<and> holds (events_run env steps sys) c k i"
  using assms
proof (induction steps arbitrary: sys)
  case (Cons st steps)
  then show ?case using exec_effect [of sys c k i st env] exec_ok [of sys env st] by (simp add: step_effect_def)
qed simp

lemma published_append: "published k (xs @ ys) = published k xs @ published k ys"
  by (induction k xs rule: published.induct) simp_all

lemma stream_run:
  assumes "sys_ok sys" "holds sys c k i" "list_all (stays c) steps" "i \<in> set (subs_of (sy_bus sys) k)"
  shows "holds (events_run env steps sys) c k i \<and> (\<exists>n. view c i (events_run env steps sys) = view c i sys @ take n (published k steps) \<and>
    (n < length (published k steps) \<longrightarrow>
      (\<exists>pre. prefix pre steps \<and> SUBSCRIBER_CAPACITY \<le> length (pending (sy_bus (events_run env pre sys)) i))))"
  using assms
proof (induction steps arbitrary: sys)
  case (Cons st steps)
  let ?sys = "events_exec env st sys"
  note eff = exec_effect [of sys c k i st env, unfolded step_effect_def]
  have ok: "sys_ok ?sys" "holds ?sys c k i" "list_all (stays c) steps" using Cons.prems exec_ok eff by simp_all
  have p: "published k (st # steps) = published k [st] @ published k steps" using published_append [of k "[st]" steps] by simp
  show ?case
  proof (cases "published k [st] = [] \<or> length (pending (sy_bus sys) i) < SUBSCRIBER_CAPACITY")
    case True
    then have sub: "i \<in> set (subs_of (sy_bus ?sys) k)" and v: "view c i ?sys = view c i sys @ published k [st]"
      using eff Cons.prems by auto
    obtain n where h: "holds (events_run env steps ?sys) c k i" and n: "view c i (events_run env steps ?sys) = view c i ?sys @ take n (published k steps)"
      "n < length (published k steps) \<longrightarrow> (\<exists>pre. prefix pre steps \<and> SUBSCRIBER_CAPACITY \<le> length (pending (sy_bus (events_run env pre ?sys)) i))"
      using Cons.IH [OF ok sub] by blast
    have "\<exists>pre. prefix pre (st # steps) \<and> SUBSCRIBER_CAPACITY \<le> length (pending (sy_bus (events_run env pre sys)) i)"
      if less: "n < length (published k steps)"
    proof -
      obtain pre where "prefix pre steps" "SUBSCRIBER_CAPACITY \<le> length (pending (sy_bus (events_run env pre ?sys)) i)" using n(2) less by blast
      then show ?thesis by (intro exI [of _ "st # pre"]) simp
    qed
    then show ?thesis using h n(1) v p by (intro conjI exI [of _ "length (published k [st]) + n"]) simp_all
  next
    case False
    then have "i \<notin> set (subs_of (sy_bus ?sys) k)" "view c i ?sys = view c i sys" using eff Cons.prems by auto
    then have "view c i (events_run env steps ?sys) = view c i sys \<and> holds (events_run env steps ?sys) c k i" using evicted_view [OF ok] by simp
    moreover have "prefix [] (st # steps) \<and> SUBSCRIBER_CAPACITY \<le> length (pending (sy_bus (events_run env [] sys)) i)" using False by simp
    ultimately show ?thesis unfolding events_run_Cons(1) by (intro conjI exI [of _ 0] impI) (simp, simp, blast)
  qed
qed simp

lemma attach_stream:
  assumes "sys_ok sys" "ec_open (sy_conns sys c)" "ec_loading (sy_conns sys c) = Some (key, history)" "list_all (stays c) steps"
    and sys1: "sys1 = events_exec env (StAttach c True) sys" and i: "i = Suc (eb_next_sub_id (sy_bus sys))"
  obtains r n where "sy_sent sys1 c = sy_sent sys c @ [Attached key r history]" "holds (events_run env steps sys1) c key i"
    "filter is_event_frame (sy_sent (events_run env steps sys1) c @ pending (sy_bus (events_run env steps sys1)) i) =
       filter is_event_frame (sy_sent sys c) @ take n (published key steps)"
    "n < length (published key steps) \<longrightarrow>
       (\<exists>pre. prefix pre steps \<and> SUBSCRIBER_CAPACITY \<le> length (pending (sy_bus (events_run env pre sys1)) i))"
proof -
  obtain r bus' where sub: "subscribe key (sy_bus sys) = (i, r, bus')"
    using subscribe_fields [of key "sy_bus sys"] i by (cases "subscribe key (sy_bus sys)") fastforce
  have s1: "sys1 = sys\<lparr>sy_bus := bus', sy_conns := (sy_conns sys)(c := (sy_conns sys c)\<lparr>ec_sub := Some (key, i), ec_loading := None\<rparr>),
      sy_sent := (sy_sent sys)(c := sy_sent sys c @ [Attached key r history])\<rparr>"
    using assms(2,3) sys1 by (simp add: serving_def events_attached_def sub deliver_def)
  have ok1: "sys_ok sys1" using exec_ok [OF assms(1), of env "StAttach c True"] sys1 by (simp only:)
  have h: "holds sys1 c key i" by (simp add: s1 holds_def)
  have "i \<in> set (subs_of (sy_bus sys1) key)" using subs_subscribe [OF sub] by (simp add: s1)
  from stream_run [OF ok1 h assms(4) this] obtain n where "holds (events_run env steps sys1) c key i"
    "view c i (events_run env steps sys1) = view c i sys1 @ take n (published key steps)"
    "n < length (published key steps) \<longrightarrow> (\<exists>pre. prefix pre steps \<and> SUBSCRIBER_CAPACITY \<le> length (pending (sy_bus (events_run env pre sys1)) i))"
    by blast
  moreover have "view c i sys1 = filter is_event_frame (sy_sent sys c)" using subscribe_fields [OF sub] by (simp add: view_def s1)
  moreover have "sy_sent sys1 c = sy_sent sys c @ [Attached key r history]" by (simp add: s1)
  ultimately show thesis by (intro that [of r n]) (simp_all add: view_def)
qed

text \<open>C22. What a client of the events endpoint gets after attaching is a gapless record: in every interleaving of runs and
  clients, as long as the client neither leaves nor loses its socket, the events sent to it and those queued
  for it are, in order, an initial part of the events published to the session since the subscription, and all of
  them unless at some moment the queue was full with 512 frames (the client is then evicted). Other clients,
  other sessions, ends of runs and failures elsewhere make no difference.\<close>

theorem attached_client_stream:
  assumes "sys = events_run env before events_start" "ec_open (sy_conns sys c)"
    "ec_loading (sy_conns sys c) = Some (key, history)" "list_all (stays c) steps"
  shows "let sys1 = events_exec env (StAttach c True) sys; sys2 = events_run env steps sys1
    in \<exists>run_id sub_id n. sy_sent sys1 c = sy_sent sys c @ [Attached key run_id history] \<and>
         ec_sub (sy_conns sys2 c) = Some (key, sub_id) \<and>
         filter is_event_frame (sy_sent sys2 c @ pending (sy_bus sys2) sub_id) =
           filter is_event_frame (sy_sent sys c) @ take n (published key steps) \<and>
         (n < length (published key steps) \<longrightarrow>
            (\<exists>pre. prefix pre steps \<and> SUBSCRIBER_CAPACITY \<le> length (pending (sy_bus (events_run env pre sys1)) sub_id)))"
proof -
  obtain r n where "sy_sent (events_exec env (StAttach c True) sys) c = sy_sent sys c @ [Attached key r history]"
    "holds (events_run env steps (events_exec env (StAttach c True) sys)) c key (Suc (eb_next_sub_id (sy_bus sys)))"
    "filter is_event_frame (sy_sent (events_run env steps (events_exec env (StAttach c True) sys)) c @
       pending (sy_bus (events_run env steps (events_exec env (StAttach c True) sys))) (Suc (eb_next_sub_id (sy_bus sys)))) =
       filter is_event_frame (sy_sent sys c) @ take n (published key steps)"
    "n < length (published key steps) \<longrightarrow> (\<exists>pre. prefix pre steps \<and> SUBSCRIBER_CAPACITY \<le>
       length (pending (sy_bus (events_run env pre (events_exec env (StAttach c True) sys))) (Suc (eb_next_sub_id (sy_bus sys)))))"
    using attach_stream [where env = env, OF run_ok [OF start_ok, of env before, folded assms(1)] assms(2-4) refl refl] .
  then show ?thesis unfolding Let_def holds_def by blast
qed

definition bus_env :: events_env where
  "bus_env = \<lparr>ev_router = \<lparr>ro_bindings = []\<rparr>, ev_store = td_store, ev_orphan_policy = DropOrphan\<rparr>"

definition bus_key :: string where
  "bus_key = ''agent:main:dm:slack:a:direct:p''"

definition bus_before :: "events_step list" where
  "bus_before = [StConnect 0, StRequest 0 ''t'' (\<lambda>_. None) (AttachSession bus_key) True]"

definition bus_steps :: "events_step list" where
  "bus_steps = [StRegister bus_key ''r'', StPublish bus_key (AssistantTextDelta ''r'' ''hi''), StPump 0 True, StEnd bus_key]"

theorem attached_client_stream_witness:
  "let sys = events_run bus_env bus_before events_start; sys1 = events_exec bus_env (StAttach 0 True) sys; sys2 = events_run bus_env bus_steps sys1
    in \<exists>run_id sub_id n. sy_sent sys1 0 = sy_sent sys 0 @ [Attached bus_key run_id []] \<and>
         ec_sub (sy_conns sys2 0) = Some (bus_key, sub_id) \<and>
         filter is_event_frame (sy_sent sys2 0 @ pending (sy_bus sys2) sub_id) =
           filter is_event_frame (sy_sent sys 0) @ take n (published bus_key bus_steps) \<and>
         (n < length (published bus_key bus_steps) \<longrightarrow>
            (\<exists>pre. prefix pre bus_steps \<and> SUBSCRIBER_CAPACITY \<le> length (pending (sy_bus (events_run bus_env pre sys1)) sub_id)))"
proof -
  have "ec_open (sy_conns (events_run bus_env bus_before events_start) 0)" by code_simp
  moreover have "ec_loading (sy_conns (events_run bus_env bus_before events_start) 0) = Some (bus_key, [])" by code_simp
  moreover have "list_all (stays 0) bus_steps" by code_simp
  ultimately show ?thesis using attached_client_stream [OF refl] unfolding Let_def by blast
qed

text \<open>The same theorem applied to a state with one subscriber.\<close>

theorem subscriptions_never_leak_witness:
  "let sys = events_run bus_env (bus_before @ [StAttach 0 True]) events_start
   in \<exists>!c. ec_sub (sy_conns sys c) = Some (bus_key, 1) \<and> ec_open (sy_conns sys c) \<and> ch_open (eb_channels (sy_bus sys) 1)"
proof -
  have "map_option en_subscribers (entry_of (sy_bus (events_run bus_env (bus_before @ [StAttach 0 True]) events_start)) bus_key) = Some [1]"
    by code_simp
  then have "case entry_of (sy_bus (events_run bus_env (bus_before @ [StAttach 0 True]) events_start)) bus_key of
      None \<Rightarrow> False | Some e \<Rightarrow> 1 \<in> set (en_subscribers e)" by (auto split: option.split)
  with subscriptions_never_leak [of bus_env "bus_before @ [StAttach 0 True]", unfolded Let_def, THEN conjunct1] show ?thesis
    unfolding Let_def by blast
qed

text \<open>An event published between the load of the history and the subscription is in neither: the client is
  sent the history as it was before and then nothing.\<close>

theorem attach_misses_event:
  "sy_sent (events_run bus_env (bus_before @
      [StPublish bus_key (AssistantTextDelta ''r'' ''hi''), StAttach 0 True, StPump 0 True]) events_start) 0 =
     [Attached bus_key None []]"
  by code_simp

text \<open>A client that was evicted and has drained its queue is not told: its loop sends nothing more.\<close>

lemma evicted_client_not_told:
  "ec_sub (sy_conns sys c) = Some (k, i) \<Longrightarrow> pending (sy_bus sys) i = [] \<Longrightarrow> events_exec env (StPump c ok) sys = sys"
  by (simp add: events_pump_def recv_def deliver_def)

section \<open>Runs on the bus\<close>

text \<open>The events of a run as the bus shows them.\<close>

fun harness_of :: "(CanonicalToolMeta \<Rightarrow> json) \<Rightarrow> string \<Rightarrow> string \<Rightarrow> RunEvent \<Rightarrow> HarnessEvent option" where
  "harness_of mv key rid (Lifecycle Start _) = Some (RunStarted key rid)"
| "harness_of mv key rid (Lifecycle End _) = Some (RunFinished key rid)"
| "harness_of mv key rid (Lifecycle ErrorPhase e) = Some (RunErrored key rid (unwrap_or e ''run error''))"
| "harness_of mv key rid (AssistantDelta d) = Some (AssistantTextDelta rid d)"
| "harness_of mv key rid (ToolStart call) = Some (ToolStarted rid \<lparr>tv_id = tc_id call, tv_name = tc_name call, tv_arguments = tc_arguments call\<rparr>)"
| "harness_of mv key rid (ToolEnd call res meta) =
     Some (ToolFinished rid \<lparr>tv_id = tc_id call, tv_name = tc_name call, tv_arguments = tc_arguments call\<rparr>
       \<lparr>rv_content = tr_content res, rv_is_error = tr_is_error res\<rparr> (map_option mv meta))"
| "harness_of mv key rid (Compaction _ _ _) = None"
| "harness_of mv key rid (TodoUpdate _) = None"

lemma payload_event: "from_agent_payload key (run_event_to_payload mv iv rid ev) = harness_of mv key rid ev"
  by (cases "(mv, key, rid, ev)" rule: harness_of.cases)
     (auto simp: from_agent_payload_def get_str_def lifecycle_event_def tool_event_def read_tool_call_view_def
        read_tool_result_view_def tool_call_json_def tool_result_json_def Let_def split: option.split)

text \<open>The steps a driven run takes on the bus: registration, one publication per frame that is an event, the end.\<close>

definition run_steps :: "string \<Rightarrow> string \<Rightarrow> json list \<Rightarrow> events_step list" where
  "run_steps key run_id frames =
     StRegister key run_id # map (StPublish key) (List.map_filter (from_agent_payload key) frames) @ [StEnd key]"

lemma published_run: "published key (run_steps key rid frames) = map FrameEvent (List.map_filter (from_agent_payload key) frames)"
proof -
  have "published key (map (StPublish key) evs @ [StEnd key]) = map FrameEvent evs" for evs by (induction evs) simp_all
  then show ?thesis by (simp add: run_steps_def)
qed

lemma run_steps_stay: "list_all (stays c) (run_steps key rid frames)"
  by (simp add: run_steps_def list_all_iff)

lemma map_filter_map: "List.map_filter f (map g xs) = List.map_filter (\<lambda>x. f (g x)) xs"
  by (induction xs) (simp_all add: List.map_filter_simps split: option.split)

text \<open>End to end: a client that attached before a run and whose queue never fills sees the run. When the run was driven to
  its end and its frames were published in whatever interleaving with other steps, the events the client
  was sent and those queued for it are exactly the start, deltas, tool events and end of the run, in order.\<close>

theorem attached_client_sees_the_run:
  assumes "drive_run_stream (run_event_to_payload mv iv rid) store key content start stream finish fs = (Inr (), fs', frames)"
    and sys: "sys = events_run env before events_start" "ec_open (sy_conns sys c)" "ec_loading (sy_conns sys c) = Some (key, history)"
    and steps: "list_all (stays c) steps" "published key steps = published key (run_steps key rid frames)"
    and room: "\<forall>pre\<in>set (prefixes steps). length (pending (sy_bus (events_run env pre (events_exec env (StAttach c True) sys)))
       (Suc (eb_next_sub_id (sy_bus sys)))) < SUBSCRIBER_CAPACITY"
  shows "let sys2 = events_run env steps (events_exec env (StAttach c True) sys)
    in filter is_event_frame (sy_sent sys2 c @ pending (sy_bus sys2) (Suc (eb_next_sub_id (sy_bus sys)))) =
       filter is_event_frame (sy_sent sys c) @ map FrameEvent (List.map_filter (harness_of mv key rid)
         (before_end stream @ (case List.find is_end_event (map snd stream) of None \<Rightarrow> [] | Some ev \<Rightarrow> [ev])))"
proof -
  have frames: "frames = map (run_event_to_payload mv iv rid) (before_end stream @
       (case List.find is_end_event (map snd stream) of None \<Rightarrow> [] | Some ev \<Rightarrow> [ev]))"
    using drive_run_cases [OF assms(1)] by metis
  obtain r n where n: "filter is_event_frame (sy_sent (events_run env steps (events_exec env (StAttach c True) sys)) c @
       pending (sy_bus (events_run env steps (events_exec env (StAttach c True) sys))) (Suc (eb_next_sub_id (sy_bus sys)))) =
       filter is_event_frame (sy_sent sys c) @ take n (published key steps)"
    "n < length (published key steps) \<longrightarrow> (\<exists>pre. prefix pre steps \<and> SUBSCRIBER_CAPACITY \<le>
       length (pending (sy_bus (events_run env pre (events_exec env (StAttach c True) sys))) (Suc (eb_next_sub_id (sy_bus sys)))))"
    using attach_stream [where env = env, OF run_ok [OF start_ok, of env before, folded sys(1)] sys(2,3) steps(1) refl refl] by metis
  have "\<not> n < length (published key steps)" using n(2) room in_set_prefixes by (metis leD)
  then have "take n (published key steps) = published key steps" by simp
  also have "\<dots> = map FrameEvent (List.map_filter (harness_of mv key rid)
         (before_end stream @ (case List.find is_end_event (map snd stream) of None \<Rightarrow> [] | Some ev \<Rightarrow> [ev])))"
    by (simp only: steps(2) published_run frames map_filter_map payload_event)
  finally show ?thesis using n(1) by (simp only: Let_def)
qed

definition bus_stream :: "(nat \<times> RunEvent) list" where
  "bus_stream = [(5, AssistantDelta ''yes''), (7, Lifecycle End None)]"

definition bus_frames :: "json list" where
  "bus_frames = map (run_event_to_payload (\<lambda>_. JNull) (\<lambda>_. JNull) ''r'') (map snd bus_stream)"

definition bus_run_steps :: "events_step list" where
  "bus_run_steps = run_steps bus_key ''r'' bus_frames @ [StPump 0 True]"

theorem attached_client_sees_the_run_witness:
  "let sys = events_run bus_env bus_before events_start; sys2 = events_run bus_env bus_run_steps (events_exec bus_env (StAttach 0 True) sys)
    in filter is_event_frame (sy_sent sys2 0 @ pending (sy_bus sys2) 1) =
       [FrameEvent (AssistantTextDelta ''r'' ''yes''), FrameEvent (RunFinished bus_key ''r'')]"
proof -
  let ?sys = "events_run bus_env bus_before events_start"
  let ?d = "drive_run_stream (run_event_to_payload (\<lambda>_. JNull) (\<lambda>_. JNull) ''r'') td_store bus_key ''hi'' 5 bus_stream 8 (\<lambda>_. None)"
  have "fst ?d = Inr ()" "snd (snd ?d) = bus_frames" by code_simp+
  then have d: "?d = (Inr (), fst (snd ?d), bus_frames)" by (metis prod.collapse)
  have next0: "eb_next_sub_id (sy_bus ?sys) = 0" by code_simp
  have "ec_open (sy_conns ?sys 0)" "ec_loading (sy_conns ?sys 0) = Some (bus_key, [])" by code_simp+
  moreover have "list_all (stays 0) bus_run_steps" "published bus_key bus_run_steps = published bus_key (run_steps bus_key ''r'' bus_frames)"
    by code_simp+
  moreover have "\<forall>pre\<in>set (prefixes bus_run_steps). length (pending (sy_bus (events_run bus_env pre (events_exec bus_env (StAttach 0 True) ?sys)))
       (Suc (eb_next_sub_id (sy_bus ?sys)))) < SUBSCRIBER_CAPACITY" unfolding next0 by code_simp
  ultimately have "let sys2 = events_run bus_env bus_run_steps (events_exec bus_env (StAttach 0 True) ?sys)
    in filter is_event_frame (sy_sent sys2 0 @ pending (sy_bus sys2) (Suc (eb_next_sub_id (sy_bus ?sys)))) =
       filter is_event_frame (sy_sent ?sys 0) @ map FrameEvent (List.map_filter (harness_of (\<lambda>_. JNull) bus_key ''r'')
         (before_end bus_stream @ (case List.find is_end_event (map snd bus_stream) of None \<Rightarrow> [] | Some ev \<Rightarrow> [ev])))"
    by (rule attached_client_sees_the_run [OF d refl])
  moreover have "filter is_event_frame (sy_sent ?sys 0) @ map FrameEvent (List.map_filter (harness_of (\<lambda>_. JNull) bus_key ''r'')
         (before_end bus_stream @ (case List.find is_end_event (map snd bus_stream) of None \<Rightarrow> [] | Some ev \<Rightarrow> [ev]))) =
       [FrameEvent (AssistantTextDelta ''r'' ''yes''), FrameEvent (RunFinished bus_key ''r'')]" by code_simp
  ultimately show ?thesis unfolding Let_def next0 by simp
qed

end
