(* ===== verification/Sandbox.thy ===== *)
theory Sandbox
  imports Chat_Types File_Store
begin

text \<open>Sandboxed command execution (\<^verbatim>\<open>crates/legion-tools/src/sandbox/\<close>: \<^verbatim>\<open>mod.rs\<close>, \<^verbatim>\<open>policy.rs\<close>, \<^verbatim>\<open>restricted.rs\<close>, \<^verbatim>\<open>local.rs\<close>, and
  \<^verbatim>\<open>build_exec_tool\<close> of \<^verbatim>\<open>registry.rs\<close>): the guard that runs before a command, the command lines of the helpers that
  confine it, and the choice of the backend. What a program does is a parameter: running one gives a time-out, an
  error, or an exit code with the two outputs. The remote backend is a parameter too.\<close>

section \<open>Types\<close>

record ExecResult =
  er_exit_code :: int
  er_stdout :: string
  er_stderr :: string

datatype SandboxError =
    NotConfigured
  | RequestFailed string
  | ApiError nat string
  | StreamError string
  | SbTimeout
  | SbIo string

fun SandboxError_display :: "SandboxError \<Rightarrow> string" where
  "SandboxError_display NotConfigured = ''sandbox backend is not configured''"
| "SandboxError_display (RequestFailed e) = ''sandbox request failed: '' @ e"
| "SandboxError_display (ApiError status message) = ''sandbox API error: '' @ show_nat status @ '' '' @ message"
| "SandboxError_display (StreamError e) = ''sandbox command stream error: '' @ e"
| "SandboxError_display SbTimeout = ''sandbox command timed out''"
| "SandboxError_display (SbIo e) = ''io error: '' @ e"

datatype SandboxMode = SbOff | Restricted | Cube

definition parse_SandboxMode :: "string \<Rightarrow> (string, SandboxMode) result" where
  "parse_SandboxMode s =
     (if s = ''off'' then Inr SbOff else if s = ''restricted'' then Inr Restricted else if s = ''cube'' then Inr Cube
      else Inl (''unknown sandbox mode: '' @ s))"

datatype NetworkPolicy = NetNone | Allowlist "string list"

datatype SeccompLevel = SecOff | Basic | Strict

record RestrictedConfig =
  rc_rootfs :: "string option"
  rc_writable_paths :: "string list"
  rc_read_only_paths :: "string list"
  rc_network :: NetworkPolicy
  rc_env_whitelist :: "string list"
  rc_seccomp :: SeccompLevel

definition default_RestrictedConfig :: RestrictedConfig where
  "default_RestrictedConfig = \<lparr>rc_rootfs = None, rc_writable_paths = [], rc_read_only_paths = [], rc_network = NetNone,
     rc_env_whitelist = [], rc_seccomp = Basic\<rparr>"

datatype SandboxUnavailableReason =
    LinuxNamespaceUnavailable
  | MacosSandboxExecMissing
  | CubeUnreachable string
  | UnsupportedPlatform string

fun SandboxUnavailableReason_display :: "SandboxUnavailableReason \<Rightarrow> string" where
  "SandboxUnavailableReason_display LinuxNamespaceUnavailable =
     ''Linux namespace sandbox requires a supported helper (bwrap/unshare) and user namespaces''"
| "SandboxUnavailableReason_display MacosSandboxExecMissing = ''macOS sandbox-exec not found''"
| "SandboxUnavailableReason_display (CubeUnreachable e) = ''Cube backend unreachable: '' @ e"
| "SandboxUnavailableReason_display (UnsupportedPlatform os) = ''platform '' @ os @ '' has no native restricted sandbox''"

record SandboxCapabilities =
  sc_filesystem_isolation :: bool
  sc_network_isolation :: bool
  sc_process_isolation :: bool
  sc_reusable :: bool

section \<open>The host\<close>

text \<open>Files and directories; the faults of removals; the platform and its environment.\<close>

record tree =
  tr_files :: files
  tr_dirs :: "path \<Rightarrow> bool"

datatype platform = Linux | Macos | OtherOs string

datatype outcome = TimedOut | IoFailed string | Exited "int option" "string" "string"

record host =
  ho_platform :: platform
  ho_home :: "string option"
  ho_var :: "string \<Rightarrow> string option"
  ho_is_file :: "string \<Rightarrow> bool"
  ho_canonicalize :: "string \<Rightarrow> string option"
  ho_remove_fault :: "path \<Rightarrow> string option"
  ho_run :: "string \<Rightarrow> string list \<Rightarrow> string option \<Rightarrow> nat \<Rightarrow> tree \<Rightarrow> outcome \<times> tree"

definition is_dir :: "path \<Rightarrow> tree \<Rightarrow> bool" where
  "is_dir p t = tr_dirs t p"

definition path_exists :: "path \<Rightarrow> tree \<Rightarrow> bool" where
  "path_exists p t \<longleftrightarrow> tr_dirs t p \<or> tr_files t p \<noteq> None"

definition remove_dir_all :: "path \<Rightarrow> tree \<Rightarrow> tree" where
  "remove_dir_all p t = \<lparr>tr_files = (\<lambda>q. if prefix p q then None else tr_files t q), tr_dirs = (\<lambda>q. \<not> prefix p q \<and> tr_dirs t q)\<rparr>"

definition remove_file :: "path \<Rightarrow> tree \<Rightarrow> tree" where
  "remove_file p t = t\<lparr>tr_files := (tr_files t)(p := None)\<rparr>"

section \<open>The guard\<close>

definition sandbox_legion_home :: "host \<Rightarrow> string" where
  "sandbox_legion_home h = (case ho_home h of Some d \<Rightarrow> path_join d ''.legion'' | None \<Rightarrow> ''.legion'')"

definition sensitive_paths :: "host \<Rightarrow> string list" where
  "sensitive_paths h =
     (let home = unwrap_or (ho_home h) ''/''; legion = sandbox_legion_home h
      in [path_join legion ''legion.json'', path_join legion ''agents'', path_join home ''.ssh'', path_join home ''.gnupg'',
          ''/etc'', ''/usr''])"

definition resolve_absolute :: "string \<Rightarrow> string \<Rightarrow> string" where
  "resolve_absolute path workspace = (if is_absolute path then path else path_join workspace path)"

definition is_within_writable :: "string \<Rightarrow> string \<Rightarrow> RestrictedConfig \<Rightarrow> bool" where
  "is_within_writable path workspace cfg =
     (let path = resolve_absolute path workspace; workspace = resolve_absolute workspace workspace
      in prefix (path_components workspace) (path_components path) \<or>
         list_ex (\<lambda>w. prefix (path_components (resolve_absolute w workspace)) (path_components path)) (rc_writable_paths cfg))"

fun scrub_markers :: "host \<Rightarrow> path \<Rightarrow> string list \<Rightarrow> tree \<Rightarrow> (SandboxError, unit) result \<times> tree" where
  "scrub_markers h git_dir [] t = (Inr (), t)"
| "scrub_markers h git_dir (marker # markers) t =
     (let path = git_dir @ [Normal marker]
      in if \<not> path_exists path t then scrub_markers h git_dir markers t
         else case ho_remove_fault h path of
           Some err \<Rightarrow> (Inl (SbIo err), t)
         | None \<Rightarrow> scrub_markers h git_dir markers (if is_dir path t then remove_dir_all path t else remove_file path t))"

definition scrub_bare_git_repo :: "host \<Rightarrow> string \<Rightarrow> tree \<Rightarrow> (SandboxError, unit) result \<times> tree" where
  "scrub_bare_git_repo h cwd t =
     (let git_dir = path_components (path_join cwd ''.git'')
      in if \<not> is_dir git_dir t then (Inr (), t)
         else scrub_markers h git_dir [''HEAD'', ''config'', ''objects'', ''refs''] t)"

definition command_contains_path_write :: "string \<Rightarrow> string \<Rightarrow> bool" where
  "command_contains_path_write command sensitive \<longleftrightarrow> contains_str command (''> '' @ sensitive) \<or> contains_str command (''>> '' @ sensitive)"

definition check_writable_path :: "string \<Rightarrow> string \<Rightarrow> RestrictedConfig \<Rightarrow> (SandboxError, unit) result" where
  "check_writable_path path workspace cfg =
     (let resolved = (if is_absolute path then path else path_join workspace path)
      in if is_within_writable resolved workspace cfg then Inr ()
         else Inl (RequestFailed (''write to '' @ resolved @ '' is outside the sandbox writable area'')))"

fun check_tokens :: "string list \<Rightarrow> string \<Rightarrow> RestrictedConfig \<Rightarrow> (SandboxError, unit) result" where
  "check_tokens [] workspace cfg = Inr ()"
| "check_tokens (token # tokens) workspace cfg =
     bind_result
       (if prefix ''>>'' token then check_writable_path (drop 2 token) workspace cfg
        else if prefix ''>'' token then check_writable_path (drop 1 token) workspace cfg
        else Inr ())
       (\<lambda>_. check_tokens tokens workspace cfg)"

definition pre_exec_guard :: "host \<Rightarrow> string \<Rightarrow> string \<Rightarrow> string \<Rightarrow> RestrictedConfig \<Rightarrow> tree \<Rightarrow> (SandboxError, unit) result \<times> tree" where
  "pre_exec_guard h command cwd workspace cfg t =
     (case scrub_bare_git_repo h cwd t of
        (Inl err, t1) \<Rightarrow> (Inl err, t1)
      | (Inr _, t1) \<Rightarrow>
          (case List.find (command_contains_path_write command) (sensitive_paths h) of
             Some sensitive \<Rightarrow> (Inl (RequestFailed (''command would write to sensitive path: '' @ sensitive)), t1)
           | None \<Rightarrow> (check_tokens (split_whitespace command) workspace cfg, t1)))"

section \<open>Backends\<close>

definition helper_binary :: "host \<Rightarrow> string \<Rightarrow> string option" where
  "helper_binary h name =
     Option.bind (ho_var h ''PATH'') (\<lambda>p. List.find (ho_is_file h) (map (\<lambda>dir. path_join dir name) (split_on (CHR '':'') p)))"

definition run_command :: "host \<Rightarrow> string \<Rightarrow> string list \<Rightarrow> string option \<Rightarrow> nat \<Rightarrow> tree \<Rightarrow> (SandboxError, ExecResult) result \<times> tree" where
  "run_command h program args cwd timeout_secs t =
     (case ho_run h program args cwd timeout_secs t of
        (TimedOut, t1) \<Rightarrow> (Inl SbTimeout, t1)
      | (IoFailed err, t1) \<Rightarrow> (Inl (SbIo err), t1)
      | (Exited code out err, t1) \<Rightarrow> (Inr \<lparr>er_exit_code = unwrap_or code (-1), er_stdout = out, er_stderr = err\<rparr>, t1))"

definition canonical_or :: "host \<Rightarrow> string \<Rightarrow> string" where
  "canonical_or h p = unwrap_or (ho_canonicalize h p) p"

definition linux_args :: "host \<Rightarrow> string \<Rightarrow> string \<Rightarrow> RestrictedConfig \<Rightarrow> string list" where
  "linux_args h command cwd cfg =
     (let workspace = canonical_or h cwd
      in [''--unshare-all'', ''--die-with-parent'', ''--new-session'', ''--proc'', ''/proc'', ''--dev'', ''/dev'',
          ''--ro-bind'', ''/'', ''/'', ''--bind'', workspace, workspace] @
         concat (map (\<lambda>w. [''--bind'', canonical_or h w, canonical_or h w]) (rc_writable_paths cfg)) @
         concat (map (\<lambda>r. [''--ro-bind'', canonical_or h r, canonical_or h r]) (rc_read_only_paths cfg)) @
         (if rc_network cfg = NetNone then [''--unshare-net''] else []) @
         [''--clearenv''] @
         concat (map (\<lambda>key. case ho_var h key of Some v \<Rightarrow> [''--setenv'', key, v] | None \<Rightarrow> []) (rc_env_whitelist cfg)) @
         [''--chdir'', workspace, ''sh'', ''-c'', command])"

definition linux_run :: "host \<Rightarrow> string \<Rightarrow> string \<Rightarrow> RestrictedConfig \<Rightarrow> nat \<Rightarrow> tree \<Rightarrow> (SandboxError, ExecResult) result \<times> tree" where
  "linux_run h command cwd cfg timeout_secs t =
     (case helper_binary h ''bwrap'' of
        None \<Rightarrow> (Inl (RequestFailed ''restricted sandbox requires bwrap (bubblewrap) on Linux''), t)
      | Some bwrap \<Rightarrow> run_command h bwrap (linux_args h command cwd cfg) None timeout_secs t)"

definition quoted_path :: "string \<Rightarrow> string" where
  "quoted_path p = [CHR 0x22] @ p @ [CHR 0x22]"

definition build_macos_profile :: "host \<Rightarrow> string \<Rightarrow> RestrictedConfig \<Rightarrow> string" where
  "build_macos_profile h workspace cfg =
     join_with [LF]
       ([''(version 1)'', ''(deny default)'', ''(allow file-read*)'', ''(allow process*)'', ''(allow job-creation)'',
         ''(allow file-write* (subpath '' @ quoted_path workspace @ ''))''] @
        map (\<lambda>w. ''(allow file-write* (subpath '' @ quoted_path (canonical_or h w) @ ''))'') (rc_writable_paths cfg) @
        map (\<lambda>r. ''(allow file-read* (subpath '' @ quoted_path (canonical_or h r) @ ''))'') (rc_read_only_paths cfg) @
        (case rc_network cfg of
           NetNone \<Rightarrow> [''(deny network*)'', ''(allow network-inbound (local ip '' @ quoted_path ''localhost:*'' @ ''))'']
         | Allowlist domains \<Rightarrow> map (\<lambda>d. ''(allow network-outbound (remote ip '' @ quoted_path (d @ '':*'') @ ''))'') domains))"

definition shell_escape :: "string \<Rightarrow> string" where
  "shell_escape s =
     (let backslashes = concat (map (\<lambda>c. if c = CHR 0x5C then [CHR 0x5C, CHR 0x5C] else [c]) s)
      in concat (map (\<lambda>c. if c = CHR 0x27 then [CHR 0x5C, CHR 0x27] else [c]) backslashes))"

definition macos_run :: "host \<Rightarrow> string \<Rightarrow> string \<Rightarrow> RestrictedConfig \<Rightarrow> nat \<Rightarrow> tree \<Rightarrow> (SandboxError, ExecResult) result \<times> tree" where
  "macos_run h command cwd cfg timeout_secs t =
     (case helper_binary h ''sandbox-exec'' of
        None \<Rightarrow> (Inl (RequestFailed ''sandbox-exec not found on macOS''), t)
      | Some sandbox_exec \<Rightarrow>
          (let workspace = canonical_or h cwd
           in run_command h sandbox_exec
                [''-p'', build_macos_profile h workspace cfg, ''/bin/sh'', ''-c'',
                 ''cd '' @ [CHR 0x27] @ shell_escape workspace @ [CHR 0x27] @ '' && '' @ command] None timeout_secs t))"

definition platform_available :: "host \<Rightarrow> (SandboxUnavailableReason, unit) result" where
  "platform_available h =
     (case ho_platform h of
        Linux \<Rightarrow> if helper_binary h ''bwrap'' \<noteq> None \<or> helper_binary h ''unshare'' \<noteq> None then Inr () else Inl LinuxNamespaceUnavailable
      | Macos \<Rightarrow> if helper_binary h ''sandbox-exec'' \<noteq> None then Inr () else Inl MacosSandboxExecMissing
      | OtherOs os \<Rightarrow> Inl (UnsupportedPlatform os))"

definition sandbox_available :: "host \<Rightarrow> SandboxMode \<Rightarrow> (SandboxUnavailableReason, unit) result" where
  "sandbox_available h mode = (case mode of SbOff \<Rightarrow> Inr () | Restricted \<Rightarrow> platform_available h | Cube \<Rightarrow> Inr ())"

definition run_restricted :: "host \<Rightarrow> string \<Rightarrow> string \<Rightarrow> RestrictedConfig \<Rightarrow> nat \<Rightarrow> tree \<Rightarrow> (SandboxError, ExecResult) result \<times> tree" where
  "run_restricted h command cwd cfg timeout_secs t =
     (case ho_platform h of
        Linux \<Rightarrow> linux_run h command cwd cfg timeout_secs t
      | Macos \<Rightarrow> macos_run h command cwd cfg timeout_secs t
      | OtherOs os \<Rightarrow> (Inl (RequestFailed (''restricted sandbox is not supported on '' @ os)), t))"

definition restricted_exec :: "host \<Rightarrow> RestrictedConfig \<Rightarrow> string \<Rightarrow> string \<Rightarrow> nat \<Rightarrow> tree \<Rightarrow> (SandboxError, ExecResult) result \<times> tree" where
  "restricted_exec h cfg command cwd timeout_secs t =
     (case pre_exec_guard h command cwd cwd cfg t of
        (Inl err, t1) \<Rightarrow> (Inl err, t1)
      | (Inr _, t1) \<Rightarrow> run_restricted h command cwd cfg timeout_secs t1)"

definition local_exec :: "host \<Rightarrow> string \<Rightarrow> string \<Rightarrow> nat \<Rightarrow> tree \<Rightarrow> (SandboxError, ExecResult) result \<times> tree" where
  "local_exec h command cwd timeout_secs t =
     (if ho_platform h = OtherOs ''windows'' then run_command h ''cmd'' [''/C'', command] (Some cwd) timeout_secs t
      else run_command h ''sh'' [''-c'', command] (Some cwd) timeout_secs t)"

text \<open>The backends; the remote one is a number that stands for its client.\<close>

datatype SandboxBackend = LocalBackend | RestrictedBackend RestrictedConfig | CubeBackend nat | UnavailableBackend SandboxUnavailableReason

definition backend_exec ::
  "(nat \<Rightarrow> string \<Rightarrow> string \<Rightarrow> nat \<Rightarrow> tree \<Rightarrow> (SandboxError, ExecResult) result \<times> tree) \<Rightarrow> host \<Rightarrow> SandboxBackend \<Rightarrow>
     string \<Rightarrow> string \<Rightarrow> nat \<Rightarrow> tree \<Rightarrow> (SandboxError, ExecResult) result \<times> tree" where
  "backend_exec cube h backend command cwd timeout_secs t =
     (case backend of
        LocalBackend \<Rightarrow> local_exec h command cwd timeout_secs t
      | RestrictedBackend cfg \<Rightarrow> restricted_exec h cfg command cwd timeout_secs t
      | CubeBackend client \<Rightarrow> cube client command cwd timeout_secs t
      | UnavailableBackend reason \<Rightarrow> (Inl (RequestFailed (SandboxUnavailableReason_display reason)), t))"

definition capabilities :: "SandboxBackend \<Rightarrow> SandboxCapabilities" where
  "capabilities backend =
     (case backend of
        RestrictedBackend cfg \<Rightarrow>
          \<lparr>sc_filesystem_isolation = True, sc_network_isolation = (rc_network cfg = NetNone), sc_process_isolation = True, sc_reusable = False\<rparr>
      | CubeBackend _ \<Rightarrow>
          \<lparr>sc_filesystem_isolation = True, sc_network_isolation = True, sc_process_isolation = True, sc_reusable = False\<rparr>
      | _ \<Rightarrow> \<lparr>sc_filesystem_isolation = False, sc_network_isolation = False, sc_process_isolation = False, sc_reusable = False\<rparr>)"

text \<open>The part of a tool's configuration the choice reads: the sandbox mode and the two opaque values, as
  deserialized (\<open>None\<close> if absent or ill-formed). \<open>cube_new\<close> builds the remote client.\<close>

record ExecConfig =
  xc_sandbox :: "string option"
  xc_restricted :: "RestrictedConfig option"
  xc_cube :: "json option"

definition build_exec_tool :: "host \<Rightarrow> (json option \<Rightarrow> (SandboxError, nat) result) \<Rightarrow> ExecConfig option \<Rightarrow> SandboxBackend" where
  "build_exec_tool h cube_new cfg =
     (let mode = (case Option.bind cfg xc_sandbox of
            Some s \<Rightarrow> (case parse_SandboxMode s of Inr m \<Rightarrow> m | Inl _ \<Rightarrow> SbOff)
          | None \<Rightarrow> SbOff)
      in case mode of
           SbOff \<Rightarrow> LocalBackend
         | Restricted \<Rightarrow>
             (case sandbox_available h Restricted of
                Inr _ \<Rightarrow> RestrictedBackend (unwrap_or (Option.bind cfg xc_restricted) default_RestrictedConfig)
              | Inl reason \<Rightarrow> UnavailableBackend reason)
         | Cube \<Rightarrow>
             (case cube_new (Option.bind cfg xc_cube) of
                Inr client \<Rightarrow> CubeBackend client
              | Inl _ \<Rightarrow> LocalBackend))"

section \<open>The choice of the backend\<close>

lemma host_run_simps [simp]:
  "helper_binary (h\<lparr>ho_run := r\<rparr>) n = helper_binary h n" "linux_args (h\<lparr>ho_run := r\<rparr>) command cwd cfg = linux_args h command cwd cfg"
  "build_macos_profile (h\<lparr>ho_run := r\<rparr>) w cfg = build_macos_profile h w cfg" "canonical_or (h\<lparr>ho_run := r\<rparr>) p = canonical_or h p"
  "sensitive_paths (h\<lparr>ho_run := r\<rparr>) = sensitive_paths h"
  by (simp_all add: helper_binary_def linux_args_def build_macos_profile_def canonical_or_def sensitive_paths_def sandbox_legion_home_def)

lemma available_run_simp [simp]: "sandbox_available (h\<lparr>ho_run := r\<rparr>) m = sandbox_available h m"
  by (cases m; cases "ho_platform h") (simp_all add: sandbox_available_def platform_available_def)

lemma scrub_run_simp [simp]: "scrub_markers (h\<lparr>ho_run := r\<rparr>) g ms t = scrub_markers h g ms t"
  by (induction ms arbitrary: t) (simp_all add: Let_def split: option.split)

lemma guard_run_simp [simp]: "pre_exec_guard (h\<lparr>ho_run := r\<rparr>) command cwd w cfg t = pre_exec_guard h command cwd w cfg t"
  unfolding pre_exec_guard_def scrub_bare_git_repo_def Let_def scrub_run_simp host_run_simps ..

lemma restricted_backend:
  "Option.bind cfg xc_sandbox = Some ''restricted'' \<Longrightarrow> build_exec_tool h cube_new cfg =
     (case sandbox_available h Restricted of
        Inr _ \<Rightarrow> RestrictedBackend (unwrap_or (Option.bind cfg xc_restricted) default_RestrictedConfig)
      | Inl reason \<Rightarrow> UnavailableBackend reason)"
  by (simp add: build_exec_tool_def parse_SandboxMode_def)

text \<open>The program that confines commands on a platform, if the host has it, and the words it is started with.\<close>

definition confining_helper :: "host \<Rightarrow> string option" where
  "confining_helper h =
     (case ho_platform h of Linux \<Rightarrow> helper_binary h ''bwrap'' | Macos \<Rightarrow> helper_binary h ''sandbox-exec'' | OtherOs _ \<Rightarrow> None)"

definition confining_args :: "host \<Rightarrow> string \<Rightarrow> string \<Rightarrow> RestrictedConfig \<Rightarrow> string list" where
  "confining_args h command cwd cfg =
     (if ho_platform h = Linux then linux_args h command cwd cfg
      else [''-p'', build_macos_profile h (canonical_or h cwd) cfg, ''/bin/sh'', ''-c'',
        ''cd '' @ [CHR 0x27] @ shell_escape (canonical_or h cwd) @ [CHR 0x27] @ '' && '' @ command])"


definition demo_host :: host where
  "demo_host = \<lparr>ho_platform = Linux, ho_home = Some ''/home/u'', ho_var = (\<lambda>k. if k = ''PATH'' then Some ''/usr/bin'' else None),
     ho_is_file = (\<lambda>p. p = ''/usr/bin/bwrap''), ho_canonicalize = Some, ho_remove_fault = (\<lambda>_. None),
     ho_run = (\<lambda>p args d n t. (if p = ''/usr/bin/bwrap'' then Exited (Some 0) ''ok'' [] else TimedOut, t))\<rparr>"

definition demo_exec_config :: "ExecConfig option" where
  "demo_exec_config = Some \<lparr>xc_sandbox = Some ''restricted'', xc_restricted = None, xc_cube = None\<rparr>"


text \<open>The other modes do not: an unknown mode (a misspelling) and a remote backend that cannot be built both give a
  tool that runs commands directly on the host.\<close>

lemma other_modes_fall_back:
  "Option.bind cfg xc_sandbox = Some s \<Longrightarrow> s \<notin> {''off'', ''restricted'', ''cube''} \<Longrightarrow> build_exec_tool h cube_new cfg = LocalBackend"
  "Option.bind cfg xc_sandbox = Some ''cube'' \<Longrightarrow> cube_new (Option.bind cfg xc_cube) = Inl e \<Longrightarrow> build_exec_tool h cube_new cfg = LocalBackend"
  by (auto simp: build_exec_tool_def parse_SandboxMode_def)

section \<open>The guard and git\<close>

lemma gone_stays_gone:
  "\<not> path_exists q t \<Longrightarrow> \<not> path_exists q (remove_dir_all p t)" "\<not> path_exists q t \<Longrightarrow> \<not> path_exists q (remove_file p t)"
  by (auto simp: path_exists_def remove_dir_all_def remove_file_def)

lemma scrubbed:
  assumes "\<And>p. ho_remove_fault h p = None"
  shows "\<exists>t'. scrub_markers h g ms t = (Inr (), t') \<and> (\<forall>m\<in>set ms. \<not> path_exists (g @ [Normal m]) t') \<and>
    (\<forall>q. \<not> path_exists q t \<longrightarrow> \<not> path_exists q t')"
proof (induction ms arbitrary: t)
  case (Cons m ms)
  let ?p = "g @ [Normal m]"
  let ?t = "if path_exists ?p t then if is_dir ?p t then remove_dir_all ?p t else remove_file ?p t else t"
  obtain t' where t': "scrub_markers h g ms ?t = (Inr (), t')" "\<forall>m\<in>set ms. \<not> path_exists (g @ [Normal m]) t'"
    "\<forall>q. \<not> path_exists q ?t \<longrightarrow> \<not> path_exists q t'" using Cons.IH by blast
  have "\<not> path_exists ?p ?t" by (simp add: path_exists_def is_dir_def remove_dir_all_def remove_file_def)
  moreover have "\<not> path_exists q t \<Longrightarrow> \<not> path_exists q ?t" for q by (simp add: gone_stays_gone)
  moreover have "scrub_markers h g (m # ms) t = (Inr (), t')" using t'(1) assms by (auto simp: Let_def)
  ultimately show ?case using t' by (intro exI [of _ t']) (auto simp del: scrub_markers.simps)
qed simp

text \<open>Before every restricted command the guard deletes HEAD, config, objects and refs from the .git directory of the
  working directory, whatever the command and whether or not the directory is a genuine repository: running
  even a harmless command in a git checkout destroys its history.\<close>

theorem restricted_exec_destroys_git:
  assumes "\<And>p. ho_remove_fault h p = None" "tr_dirs t (path_components (path_join cwd ''.git''))"
    and "marker \<in> {''HEAD'', ''config'', ''objects'', ''refs''}"
  shows "\<not> path_exists (path_components (path_join cwd ''.git'') @ [Normal marker]) (snd (pre_exec_guard h command cwd cwd cfg t))"
proof -
  let ?g = "path_components (path_join cwd ''.git'')"
  obtain t' where t': "scrub_markers h ?g [''HEAD'', ''config'', ''objects'', ''refs''] t = (Inr (), t')"
    "\<forall>m\<in>set [''HEAD'', ''config'', ''objects'', ''refs'']. \<not> path_exists (?g @ [Normal m]) t'"
    using scrubbed [OF assms(1)] by blast
  have "snd (pre_exec_guard h command cwd cwd cfg t) = t'"
    using assms(2) t'(1) by (simp add: pre_exec_guard_def scrub_bare_git_repo_def is_dir_def split: option.split)
  then show ?thesis using t'(2) assms(3) by auto
qed

definition demo_tree :: tree where
  "demo_tree = \<lparr>tr_files = [[RootDir, Normal ''ws'', Normal ''.git'', Normal ''HEAD''] \<mapsto> ''ref: refs/heads/main''],
     tr_dirs = (\<lambda>p. p = [RootDir, Normal ''ws'', Normal ''.git''])\<rparr>"

theorem restricted_exec_destroys_git_witness:
  "path_exists [RootDir, Normal ''ws'', Normal ''.git'', Normal ''HEAD''] demo_tree \<and>
   \<not> path_exists [RootDir, Normal ''ws'', Normal ''.git'', Normal ''HEAD'']
      (snd (pre_exec_guard demo_host ''git status'' ''/ws'' ''/ws'' default_RestrictedConfig demo_tree))"
proof -
  have g: "path_components (path_join ''/ws'' ''.git'') = [RootDir, Normal ''ws'', Normal ''.git'']" by code_simp
  then have "tr_dirs demo_tree (path_components (path_join ''/ws'' ''.git''))" by (simp add: demo_tree_def)
  moreover have "ho_remove_fault demo_host p = None" for p by (simp add: demo_host_def)
  ultimately have "\<not> path_exists ([RootDir, Normal ''ws'', Normal ''.git''] @ [Normal ''HEAD''])
      (snd (pre_exec_guard demo_host ''git status'' ''/ws'' ''/ws'' default_RestrictedConfig demo_tree))"
    using restricted_exec_destroys_git [of demo_host demo_tree "''/ws''" "''HEAD''"] by (simp add: g)
  then show ?thesis by (simp add: path_exists_def demo_tree_def)
qed

end
