(* ===== verification/Background_Tasks.thy ===== *)
theory Background_Tasks
  imports Sandbox Todo "HOL-Library.AList" "HOL-Library.List_Lexorder" "HOL-Library.Char_ord"
begin

text \<open>Commands run by the \<^verbatim>\<open>exec\<close> tool, in the foreground or as background tasks (\<^verbatim>\<open>crates/legion-tools/src/tools/exec.rs\<close>,
  \<^verbatim>\<open>crates/legion-tools/src/background_task.rs\<close>): the registry of tasks, and the tools that wait for a task, kill it and
  read its output. A spawned task is a handle with the job it still has to do or its outcome. The
  JSON text of a value and its parser are parameters.\<close>

section \<open>State\<close>

record BackgroundTaskResult =
  br_exit_code :: int
  br_stdout :: string
  br_stderr :: string

record BackgroundTaskOutput =
  bo_exit_code :: "int option"
  bo_stdout :: string
  bo_stderr :: string
  bo_is_running :: bool

type_synonym task_result = "(string, BackgroundTaskResult) result"

datatype TaskState = Running nat | Completed task_result

record TaskEntry =
  te_state :: TaskState
  te_log_path :: string

record job =
  jb_command :: string
  jb_cwd :: string
  jb_timeout :: nat
  jb_log_path :: string

datatype handle = Pending job | Finished task_result | Panicked string | Aborted

record BackgroundTaskRegistry =
  bg_tasks :: "string \<rightharpoonup> TaskEntry"
  bg_counter :: "64 word"
  bg_handles :: "nat \<Rightarrow> handle"
  bg_next_handle :: nat

definition BackgroundTaskRegistry_new :: BackgroundTaskRegistry where
  "BackgroundTaskRegistry_new = \<lparr>bg_tasks = (\<lambda>_. None), bg_counter = 1, bg_handles = (\<lambda>_. Aborted), bg_next_handle = 0\<rparr>"

text \<open>The surroundings of a tool call: the host and its faults, the remote backend, the JSON library.\<close>

record tool_env =
  xe_host :: host
  xe_faults :: faults
  xe_cube :: "nat \<Rightarrow> string \<Rightarrow> string \<Rightarrow> nat \<Rightarrow> tree \<Rightarrow> (SandboxError, ExecResult) result \<times> tree"
  xe_to_str :: "json \<Rightarrow> string"
  xe_from_str :: "string \<Rightarrow> (string, json) result"
  xe_workspace :: string
  xe_session_id :: string

record world =
  wo_tree :: tree
  wo_registry :: BackgroundTaskRegistry

section \<open>Logs\<close>

definition default_task_log_dir :: "tool_env \<Rightarrow> string" where
  "default_task_log_dir env =
     (let base = (case ho_home (xe_host env) of Some h \<Rightarrow> path_join h ''.legion'' | None \<Rightarrow> ''.legion'')
      in path_join (path_join (path_join base ''sessions'') (xe_session_id env)) ''tasks'')"

definition task_log_path :: "tool_env \<Rightarrow> string \<Rightarrow> string" where
  "task_log_path env task_id = path_join (default_task_log_dir env) (task_id @ ''.log'')"

definition parent_dir :: "string \<Rightarrow> string" where
  "parent_dir p =
     (let d = rev (dropWhile (\<lambda>c. c \<noteq> CHR ''/'') (rev p)) in if d = [] \<or> d = ''/'' then d else butlast d)"

definition ensure_log_dir :: "tool_env \<Rightarrow> string \<Rightarrow> (ToolError, unit) result" where
  "ensure_log_dir env log_path =
     (case fs_create_dir_all (xe_faults env) (path_components (parent_dir log_path)) of
        Inl e \<Rightarrow> Inl (Execution (''failed to create task log directory '' @ quoted (parent_dir log_path) @ '': '' @ io_error_display e))
      | Inr _ \<Rightarrow> Inr ())"

definition write_task_log :: "tool_env \<Rightarrow> string \<Rightarrow> string \<Rightarrow> string \<Rightarrow> tree \<Rightarrow> (ToolError, unit) result \<times> tree" where
  "write_task_log env log_path out err t =
     (let content = xe_to_str env (JObject [(''stderr'', JString err), (''stdout'', JString out)])
      in case fs_write (xe_faults env) (path_components log_path) content (tr_files t) of
           (Inl e, fs) \<Rightarrow> (Inl (Execution (''failed to write task log: '' @ io_error_display e)), t\<lparr>tr_files := fs\<rparr>)
         | (Inr _, fs) \<Rightarrow> (Inr (), t\<lparr>tr_files := fs\<rparr>))"

definition parse_log :: "tool_env \<Rightarrow> string \<Rightarrow> string \<times> string" where
  "parse_log env content =
     (case xe_from_str env content of
        Inl _ \<Rightarrow> (content, [])
      | Inr v \<Rightarrow> (unwrap_or (json_as_str (json_index v ''stdout'')) [], unwrap_or (json_as_str (json_index v ''stderr'')) []))"

section \<open>The registry\<close>

definition next_task_id :: "BackgroundTaskRegistry \<Rightarrow> string \<times> BackgroundTaskRegistry" where
  "next_task_id r = (''task-'' @ show_nat (unat (bg_counter r)), r\<lparr>bg_counter := bg_counter r + 1\<rparr>)"

definition task_not_found :: "string \<Rightarrow> ToolError" where
  "task_not_found task_id = Execution (''task '' @ quoted task_id @ '' not found'')"

definition register :: "tool_env \<Rightarrow> string \<Rightarrow> nat \<Rightarrow> string \<Rightarrow> BackgroundTaskRegistry \<Rightarrow> (ToolError, string) result \<times> BackgroundTaskRegistry" where
  "register env task_id hdl log_path r =
     (case ensure_log_dir env log_path of
        Inl e \<Rightarrow> (Inl e, r)
      | Inr _ \<Rightarrow>
          if bg_tasks r task_id \<noteq> None then (Inl (Execution (''task id '' @ quoted task_id @ '' is already registered'')), r)
          else (Inr task_id, r\<lparr>bg_tasks := (bg_tasks r)(task_id \<mapsto> \<lparr>te_state = Running hdl, te_log_path = log_path\<rparr>)\<rparr>))"

definition set_state :: "string \<Rightarrow> TaskState \<Rightarrow> BackgroundTaskRegistry \<Rightarrow> BackgroundTaskRegistry" where
  "set_state task_id st r = r\<lparr>bg_tasks := (bg_tasks r)(task_id := map_option (te_state_update (\<lambda>_. st)) (bg_tasks r task_id))\<rparr>"

text \<open>Waiting for one task has two sections under the lock: the first takes the state and leaves a placeholder, the
  second, after the handle has ended, stores its outcome.\<close>

datatype taken = Resolved task_result | Awaiting nat

definition WAIT_PLACEHOLDER :: string where
  "WAIT_PLACEHOLDER = ''task state corrupted while waiting''"

definition wait_take :: "string \<Rightarrow> BackgroundTaskRegistry \<Rightarrow> (ToolError, taken) result \<times> BackgroundTaskRegistry" where
  "wait_take task_id r =
     (case bg_tasks r task_id of
        None \<Rightarrow> (Inl (task_not_found task_id), r)
      | Some entry \<Rightarrow>
          (case te_state entry of
             Completed res \<Rightarrow> (Inr (Resolved res), set_state task_id (Completed res) r)
           | Running hdl \<Rightarrow> (Inr (Awaiting hdl), set_state task_id (Completed (Inl WAIT_PLACEHOLDER)) r)))"

definition join_result :: "handle \<Rightarrow> task_result option" where
  "join_result hdl =
     (case hdl of
        Pending _ \<Rightarrow> None
      | Finished res \<Rightarrow> Some res
      | Panicked e \<Rightarrow> Some (Inl (''task panicked: '' @ e))
      | Aborted \<Rightarrow> Some (Inl ''task panicked: task was cancelled''))"

definition wait_resolve :: "string \<Rightarrow> task_result \<Rightarrow> BackgroundTaskRegistry \<Rightarrow> BackgroundTaskRegistry" where
  "wait_resolve task_id resolved r = set_state task_id (Completed resolved) r"

definition kill :: "string \<Rightarrow> BackgroundTaskRegistry \<Rightarrow> (ToolError, unit) result \<times> BackgroundTaskRegistry" where
  "kill task_id r =
     (case bg_tasks r task_id of
        None \<Rightarrow> (Inl (task_not_found task_id), r)
      | Some entry \<Rightarrow>
          (case te_state entry of
             Running hdl \<Rightarrow>
               (Inr (), set_state task_id (Completed (Inl ''task killed''))
                  (r\<lparr>bg_handles := (bg_handles r)(hdl := (case bg_handles r hdl of Pending _ \<Rightarrow> Aborted | other \<Rightarrow> other))\<rparr>))
           | Completed res \<Rightarrow> (Inl (Execution (''task '' @ quoted task_id @ '' is not running'')), set_state task_id (Completed res) r)))"

definition task_output :: "tool_env \<Rightarrow> string \<Rightarrow> world \<Rightarrow> (ToolError, BackgroundTaskOutput) result" where
  "task_output env task_id w =
     (case bg_tasks (wo_registry w) task_id of
        None \<Rightarrow> Inl (task_not_found task_id)
      | Some entry \<Rightarrow>
          (let (exit_code, is_running) = (case te_state entry of
                 Running _ \<Rightarrow> (None, True)
               | Completed (Inr res) \<Rightarrow> (Some (br_exit_code res), False)
               | Completed (Inl _) \<Rightarrow> (None, False));
               log_content = (case fs_read (xe_faults env) (path_components (te_log_path entry)) (tr_files (wo_tree w)) of
                 Inr c \<Rightarrow> c | Inl _ \<Rightarrow> []);
               (out, err) = parse_log env log_content
           in Inr \<lparr>bo_exit_code = exit_code, bo_stdout = out, bo_stderr = err, bo_is_running = is_running\<rparr>))"

section \<open>Tasks\<close>

text \<open>The body of a spawned task.\<close>

definition task_body :: "tool_env \<Rightarrow> SandboxBackend \<Rightarrow> job \<Rightarrow> tree \<Rightarrow> task_result \<times> tree" where
  "task_body env backend jb t =
     (case backend_exec (xe_cube env) (xe_host env) backend (jb_command jb) (jb_cwd jb) (jb_timeout jb) t of
        (Inl e, t1) \<Rightarrow> (Inl (''sandbox exec failed: '' @ SandboxError_display e), t1)
      | (Inr res, t1) \<Rightarrow>
          (case write_task_log env (jb_log_path jb) (er_stdout res) (er_stderr res) t1 of
             (Inl e, t2) \<Rightarrow> (Inl (''failed to write task log: '' @ ToolError_display e), t2)
           | (Inr _, t2) \<Rightarrow> (Inr \<lparr>br_exit_code = er_exit_code res, br_stdout = er_stdout res, br_stderr = er_stderr res\<rparr>, t2)))"

definition run_handle :: "tool_env \<Rightarrow> SandboxBackend \<Rightarrow> nat \<Rightarrow> world \<Rightarrow> world" where
  "run_handle env backend hdl w =
     (case bg_handles (wo_registry w) hdl of
        Pending jb \<Rightarrow>
          (let (res, t) = task_body env backend jb (wo_tree w); r = wo_registry w
           in w\<lparr>wo_tree := t, wo_registry := r\<lparr>bg_handles := (bg_handles r)(hdl := Finished res)\<rparr>\<rparr>)
      | _ \<Rightarrow> w)"

definition spawn_job :: "job \<Rightarrow> BackgroundTaskRegistry \<Rightarrow> nat \<times> BackgroundTaskRegistry" where
  "spawn_job jb r =
     (bg_next_handle r, r\<lparr>bg_handles := (bg_handles r)(bg_next_handle r := Pending jb), bg_next_handle := bg_next_handle r + 1\<rparr>)"

section \<open>Tools\<close>

definition exec_content :: "int \<Rightarrow> string \<Rightarrow> string \<Rightarrow> json" where
  "exec_content code out err = JObject [(''exit_code'', JNum (show_int code)), (''stderr'', JString err), (''stdout'', JString out)]"

definition no_registry :: ToolError where
  "no_registry = Execution ''background task registry is not available''"

definition ExecTool_background :: "tool_env \<Rightarrow> string \<Rightarrow> nat \<Rightarrow> world \<Rightarrow> (ToolError, ToolResult) result \<times> world" where
  "ExecTool_background env command timeout_secs w =
     (let (task_id, r) = next_task_id (wo_registry w); log_path = task_log_path env task_id
      in case ensure_log_dir env log_path of
           Inl e \<Rightarrow> (Inl e, w\<lparr>wo_registry := r\<rparr>)
         | Inr _ \<Rightarrow>
             (let (hdl, r1) = spawn_job \<lparr>jb_command = command, jb_cwd = xe_workspace env, jb_timeout = timeout_secs, jb_log_path = log_path\<rparr> r
              in case register env task_id hdl log_path r1 of
                   (Inl e, r2) \<Rightarrow> (Inl e, w\<lparr>wo_registry := r2\<rparr>)
                 | (Inr registered, r2) \<Rightarrow>
                     (Inr (ToolResult_ok (xe_to_str env (JObject [(''task_id'', JString registered)]))), w\<lparr>wo_registry := r2\<rparr>)))"

definition ExecTool_execute :: "tool_env \<Rightarrow> SandboxBackend \<Rightarrow> bool \<Rightarrow> json \<Rightarrow> world \<Rightarrow> (ToolError, ToolResult) result \<times> world" where
  "ExecTool_execute env backend has_registry params w =
     (case json_as_str (json_index params ''command'') of
        None \<Rightarrow> (Inl (InvalidParams ''missing 'command' parameter''), w)
      | Some command \<Rightarrow>
          (let timeout_secs = unwrap_or (json_as_u64 (json_index params ''timeout'')) 60;
               is_background = unwrap_or (json_as_bool (json_index params ''is_background'')) False
           in if \<not> is_background then
                (case backend_exec (xe_cube env) (xe_host env) backend command (xe_workspace env) timeout_secs (wo_tree w) of
                   (Inl e, t) \<Rightarrow> (Inl (Execution (''sandbox exec failed: '' @ SandboxError_display e)), w\<lparr>wo_tree := t\<rparr>)
                 | (Inr res, t) \<Rightarrow>
                     (Inr \<lparr>tr_content = xe_to_str env (exec_content (er_exit_code res) (er_stdout res) (er_stderr res)),
                           tr_is_error = (er_exit_code res \<noteq> 0)\<rparr>, w\<lparr>wo_tree := t\<rparr>))
              else if \<not> has_registry then (Inl no_registry, w)
              else ExecTool_background env command timeout_secs w))"

text \<open>Waiting for a list of tasks, when nothing interferes: the handle of each is awaited before the next is taken.\<close>

fun wait :: "tool_env \<Rightarrow> SandboxBackend \<Rightarrow> string list \<Rightarrow> (string \<times> BackgroundTaskResult) list \<Rightarrow> world \<Rightarrow>
    (ToolError, (string \<times> BackgroundTaskResult) list) result \<times> world" where
  "wait env backend [] results w = (Inr results, w)"
| "wait env backend (task_id # task_ids) results w =
     (case wait_take task_id (wo_registry w) of
        (Inl e, r) \<Rightarrow> (Inl e, w\<lparr>wo_registry := r\<rparr>)
      | (Inr (Resolved (Inl e)), r) \<Rightarrow> (Inl (Execution e), w\<lparr>wo_registry := r\<rparr>)
      | (Inr (Resolved (Inr res)), r) \<Rightarrow> wait env backend task_ids (AList.update task_id res results) (w\<lparr>wo_registry := r\<rparr>)
      | (Inr (Awaiting hdl), r) \<Rightarrow>
          (let w1 = run_handle env backend hdl (w\<lparr>wo_registry := r\<rparr>);
               resolved = unwrap_or (join_result (bg_handles (wo_registry w1) hdl)) (Inl []);
               w2 = w1\<lparr>wo_registry := wait_resolve task_id resolved (wo_registry w1)\<rparr>
           in case resolved of
                Inl e \<Rightarrow> (Inl (Execution e), w2)
              | Inr res \<Rightarrow> wait env backend task_ids (AList.update task_id res results) w2))"

definition wait_content :: "(string \<times> BackgroundTaskResult) list \<Rightarrow> json" where
  "wait_content results =
     JObject (map (\<lambda>(i, res). (i, exec_content (br_exit_code res) (br_stdout res) (br_stderr res))) (sort_key fst results))"

definition WaitTasksTool_execute ::
  "tool_env \<Rightarrow> SandboxBackend \<Rightarrow> bool \<Rightarrow> json \<Rightarrow> world \<Rightarrow> (ToolError, ToolResult) result \<times> world" where
  "WaitTasksTool_execute env backend has_registry params w =
     (case json_as_array (json_index params ''task_ids'') of
        None \<Rightarrow> (Inl (InvalidParams (quoted ''task_ids'' @ '' must be an array of strings'')), w)
      | Some values \<Rightarrow>
          if \<not> has_registry then (Inl no_registry, w)
          else case wait env backend (map (\<lambda>v. unwrap_or (json_as_str v) []) values) [] w of
            (Inl e, w1) \<Rightarrow> (Inl e, w1)
          | (Inr results, w1) \<Rightarrow> (Inr (ToolResult_ok (xe_to_str env (wait_content results))), w1))"

definition KillTaskTool_execute :: "bool \<Rightarrow> json \<Rightarrow> world \<Rightarrow> (ToolError, ToolResult) result \<times> world" where
  "KillTaskTool_execute has_registry params w =
     (case json_as_str (json_index params ''task_id'') of
        None \<Rightarrow> (Inl (InvalidParams ''missing 'task_id' parameter''), w)
      | Some task_id \<Rightarrow>
          if \<not> has_registry then (Inl no_registry, w)
          else case kill task_id (wo_registry w) of
            (Inl e, r) \<Rightarrow> (Inl e, w\<lparr>wo_registry := r\<rparr>)
          | (Inr _, r) \<Rightarrow> (Inr (ToolResult_ok (''killed task '' @ quoted task_id)), w\<lparr>wo_registry := r\<rparr>))"

definition output_content :: "BackgroundTaskOutput \<Rightarrow> json" where
  "output_content res =
     JObject [(''exit_code'', case bo_exit_code res of Some c \<Rightarrow> JNum (show_int c) | None \<Rightarrow> JNull), (''is_running'', JBool (bo_is_running res)),
       (''stderr'', JString (bo_stderr res)), (''stdout'', JString (bo_stdout res))]"

definition GetTaskOutputTool_execute :: "tool_env \<Rightarrow> bool \<Rightarrow> json \<Rightarrow> world \<Rightarrow> (ToolError, ToolResult) result" where
  "GetTaskOutputTool_execute env has_registry params w =
     (case json_as_str (json_index params ''task_id'') of
        None \<Rightarrow> Inl (InvalidParams ''missing 'task_id' parameter'')
      | Some task_id \<Rightarrow>
          if \<not> has_registry then Inl no_registry
          else bind_result (task_output env task_id w) (\<lambda>res. Inr (ToolResult_ok (xe_to_str env (output_content res)))))"

section \<open>Interleavings\<close>

text \<open>Callers waiting for tasks at the same time, with tasks ending and being killed in between.\<close>

record waiter =
  wt_ids :: "string list"
  wt_results :: "(string \<times> BackgroundTaskResult) list"
  wt_holding :: "(string \<times> nat) option"
  wt_done :: "(ToolError, (string \<times> BackgroundTaskResult) list) result option"

record bg_sys =
  by_world :: world
  by_waiters :: "nat \<Rightarrow> waiter"

datatype bg_step = BgFinish nat | BgPanic nat string | BgTake nat | BgResolve nat | BgKill string

definition waiter_result :: "string \<Rightarrow> task_result \<Rightarrow> waiter \<Rightarrow> waiter" where
  "waiter_result task_id res wt =
     (case res of
        Inl e \<Rightarrow> wt\<lparr>wt_holding := None, wt_done := Some (Inl (Execution e))\<rparr>
      | Inr b \<Rightarrow> wt\<lparr>wt_holding := None, wt_results := AList.update task_id b (wt_results wt)\<rparr>)"

definition waiter_take :: "waiter \<Rightarrow> BackgroundTaskRegistry \<Rightarrow> waiter \<times> BackgroundTaskRegistry" where
  "waiter_take wt r =
     (if wt_done wt \<noteq> None \<or> wt_holding wt \<noteq> None then (wt, r)
      else case wt_ids wt of
        [] \<Rightarrow> (wt\<lparr>wt_done := Some (Inr (wt_results wt))\<rparr>, r)
      | task_id # ids \<Rightarrow>
          (case wait_take task_id r of
             (Inl e, r1) \<Rightarrow> (wt\<lparr>wt_done := Some (Inl e)\<rparr>, r1)
           | (Inr (Resolved res), r1) \<Rightarrow> (waiter_result task_id res (wt\<lparr>wt_ids := ids\<rparr>), r1)
           | (Inr (Awaiting hdl), r1) \<Rightarrow> (wt\<lparr>wt_ids := ids, wt_holding := Some (task_id, hdl)\<rparr>, r1)))"

definition waiter_resolve :: "waiter \<Rightarrow> BackgroundTaskRegistry \<Rightarrow> waiter \<times> BackgroundTaskRegistry" where
  "waiter_resolve wt r =
     (case wt_holding wt of
        None \<Rightarrow> (wt, r)
      | Some (task_id, hdl) \<Rightarrow>
          (case join_result (bg_handles r hdl) of
             None \<Rightarrow> (wt, r)
           | Some res \<Rightarrow> (waiter_result task_id res wt, wait_resolve task_id res r)))"

definition set_registry :: "BackgroundTaskRegistry \<Rightarrow> bg_sys \<Rightarrow> bg_sys" where
  "set_registry r sys = sys\<lparr>by_world := (by_world sys)\<lparr>wo_registry := r\<rparr>\<rparr>"

abbreviation registry_of :: "bg_sys \<Rightarrow> BackgroundTaskRegistry" where
  "registry_of sys \<equiv> wo_registry (by_world sys)"

definition with_waiter :: "nat \<Rightarrow> waiter \<times> BackgroundTaskRegistry \<Rightarrow> bg_sys \<Rightarrow> bg_sys" where
  "with_waiter k wr sys = (set_registry (snd wr) sys)\<lparr>by_waiters := (by_waiters sys)(k := fst wr)\<rparr>"

definition panic_handle :: "nat \<Rightarrow> string \<Rightarrow> BackgroundTaskRegistry \<Rightarrow> BackgroundTaskRegistry" where
  "panic_handle hdl e r =
     r\<lparr>bg_handles := (bg_handles r)(hdl := (case bg_handles r hdl of Pending _ \<Rightarrow> Panicked e | other \<Rightarrow> other))\<rparr>"

fun bg_exec :: "tool_env \<Rightarrow> SandboxBackend \<Rightarrow> bg_step \<Rightarrow> bg_sys \<Rightarrow> bg_sys" where
  "bg_exec env backend (BgFinish hdl) sys = sys\<lparr>by_world := run_handle env backend hdl (by_world sys)\<rparr>"
| "bg_exec env backend (BgPanic hdl e) sys = set_registry (panic_handle hdl e (registry_of sys)) sys"
| "bg_exec env backend (BgTake k) sys = with_waiter k (waiter_take (by_waiters sys k) (registry_of sys)) sys"
| "bg_exec env backend (BgResolve k) sys = with_waiter k (waiter_resolve (by_waiters sys k) (registry_of sys)) sys"
| "bg_exec env backend (BgKill task_id) sys = set_registry (snd (kill task_id (registry_of sys))) sys"

definition bg_run :: "tool_env \<Rightarrow> SandboxBackend \<Rightarrow> bg_step list \<Rightarrow> bg_sys \<Rightarrow> bg_sys" where
  "bg_run env backend steps sys = fold (bg_exec env backend) steps sys"

section \<open>Properties\<close>

definition state_of :: "BackgroundTaskRegistry \<Rightarrow> string \<Rightarrow> TaskState option" where
  "state_of r task_id = map_option te_state (bg_tasks r task_id)"

lemma state_set_state [simp]: "state_of (set_state i st r) j = (if j = i then map_option (\<lambda>_. st) (state_of r i) else state_of r j)"
  by (simp add: state_of_def set_state_def option.map_comp comp_def)

lemma state_handles [simp]: "state_of (r\<lparr>bg_handles := f\<rparr>) j = state_of r j"
  by (simp add: state_of_def)

lemma state_run_handle [simp]: "state_of (wo_registry (run_handle env backend h w)) j = state_of (wo_registry w) j"
  by (simp add: run_handle_def Let_def split: handle.split prod.split)

text \<open>The result of a task is settled when it is completed and no caller is between the two sections of a wait for it.\<close>

definition settled :: "bg_sys \<Rightarrow> string \<Rightarrow> task_result \<Rightarrow> bool" where
  "settled sys i res \<longleftrightarrow> state_of (registry_of sys) i = Some (Completed res) \<and> (\<forall>k h. wt_holding (by_waiters sys k) \<noteq> Some (i, h))"

lemma waiter_result_holding [simp]: "wt_holding (waiter_result i res wt) = None"
  by (simp add: waiter_result_def split: sum.split)

lemma wait_take_settled:
  assumes "state_of r i = Some (Completed res)"
  shows "state_of (snd (wait_take j r)) i = Some (Completed res)" "fst (wait_take i r) = Inr (Resolved res)"
proof -
  show "state_of (snd (wait_take j r)) i = Some (Completed res)"
    using assms by (cases "j = i") (auto simp: wait_take_def state_of_def set_state_def split: option.split TaskState.split)
  show "fst (wait_take i r) = Inr (Resolved res)" using assms by (auto simp: wait_take_def state_of_def)
qed

lemma waiter_take_settled:
  assumes "state_of r i = Some (Completed res)" "\<And>h. wt_holding wt \<noteq> Some (i, h)"
  shows "state_of (snd (waiter_take wt r)) i = Some (Completed res) \<and> (\<forall>h. wt_holding (fst (waiter_take wt r)) \<noteq> Some (i, h))"
proof (cases "wt_done wt \<noteq> None \<or> wt_holding wt \<noteq> None \<or> wt_ids wt = []")
  case True
  then show ?thesis using assms by (auto simp: waiter_take_def)
next
  case False
  then obtain j ids where ids: "wt_ids wt = j # ids" by (cases "wt_ids wt") auto
  obtain tk r1 where w: "wait_take j r = (tk, r1)" by (cases "wait_take j r") auto
  have s: "state_of r1 i = Some (Completed res)" "j = i \<Longrightarrow> tk = Inr (Resolved res)"
    using wait_take_settled [OF assms(1)] w by (metis snd_conv) (metis fst_conv wait_take_settled(2) [OF assms(1)] w)
  show ?thesis
  proof (cases tk)
    case (Inr v)
    then show ?thesis using False ids w s by (cases v) (auto simp: waiter_take_def)
  qed (use False ids w s in \<open>auto simp: waiter_take_def\<close>)
qed

lemma waiter_resolve_settled:
  assumes "state_of r i = Some (Completed res)" "\<And>h. wt_holding wt \<noteq> Some (i, h)"
  shows "state_of (snd (waiter_resolve wt r)) i = Some (Completed res)" "wt_holding (fst (waiter_resolve wt r)) \<noteq> Some (i, h)"
  using assms by (auto simp: waiter_resolve_def wait_resolve_def split: option.split)

lemma kill_settled:
  assumes "state_of r i = Some (Completed res)"
  shows "state_of (snd (kill j r)) i = Some (Completed res)"
  using assms by (cases "j = i") (auto simp: kill_def state_of_def set_state_def split: option.split TaskState.split)

lemma exec_settled: "settled sys i res \<Longrightarrow> settled (bg_exec env backend st sys) i res"
proof (cases st)
  case (BgTake k)
  assume "settled sys i res"
  then show ?thesis using waiter_take_settled [of "registry_of sys" i res "by_waiters sys k"]
    by (auto simp: settled_def BgTake with_waiter_def set_registry_def)
next
  case (BgResolve k)
  assume "settled sys i res"
  then show ?thesis using waiter_resolve_settled [of "registry_of sys" i res "by_waiters sys k"]
    by (auto simp: settled_def BgResolve with_waiter_def set_registry_def)
next
  case (BgKill j)
  assume "settled sys i res"
  then show ?thesis using kill_settled by (simp add: settled_def BgKill set_registry_def)
qed (simp_all add: settled_def set_registry_def panic_handle_def)

lemma run_settled: "settled sys i res \<Longrightarrow> settled (bg_run env backend steps sys) i res"
  by (induction steps arbitrary: sys) (simp_all add: bg_run_def exec_settled)

text \<open>Results are final: once a task is completed and nobody is in the middle of waiting for it, no interleaving of waits, kills and
  ends of tasks changes its result, and every caller that then takes it is given that result.\<close>

theorem task_results_final:
  assumes "state_of (registry_of sys) i = Some (Completed res)" "\<And>k h. wt_holding (by_waiters sys k) \<noteq> Some (i, h)"
  shows "let sys' = bg_run env backend steps sys
    in state_of (registry_of sys') i = Some (Completed res) \<and> fst (wait_take i (registry_of sys')) = Inr (Resolved res)"
proof -
  have "settled (bg_run env backend steps sys) i res" using run_settled assms by (simp add: settled_def)
  then show ?thesis by (auto simp: settled_def state_of_def wait_take_def Let_def)
qed

lemma spawned:
  assumes "xe_faults env = (\<lambda>_. None)" "next_task_id (wo_registry w) = (i, r)" "bg_tasks (wo_registry w) i = None"
  shows "ExecTool_background env command secs w =
    (Inr (ToolResult_ok (xe_to_str env (JObject [(''task_id'', JString i)]))),
     w\<lparr>wo_registry := r\<lparr>bg_tasks := (bg_tasks r)(i \<mapsto> \<lparr>te_state = Running (bg_next_handle r), te_log_path = task_log_path env i\<rparr>),
        bg_handles := (bg_handles r)(bg_next_handle r := Pending \<lparr>jb_command = command, jb_cwd = xe_workspace env, jb_timeout = secs,
          jb_log_path = task_log_path env i\<rparr>), bg_next_handle := bg_next_handle r + 1\<rparr>\<rparr>)"
  using assms
  by (auto simp: ExecTool_background_def ensure_log_dir_def fs_create_dir_all_def spawn_job_def register_def next_task_id_def Let_def)

definition log_json :: "string \<Rightarrow> string \<Rightarrow> json" where
  "log_json out err = JObject [(''stderr'', JString err), (''stdout'', JString out)]"

lemma awaited_at_once:
  assumes "bg_tasks (wo_registry w) i = Some \<lparr>te_state = Running h, te_log_path = p\<rparr>" "bg_handles (wo_registry w) h = Pending jb"
    and "task_body env backend jb (wo_tree w) = (res, t)"
  shows "\<exists>w'. wait env backend [i] [] w = (case res of Inl e \<Rightarrow> Inl (Execution e) | Inr r \<Rightarrow> Inr [(i, r)], w') \<and>
    wo_tree w' = t \<and> bg_tasks (wo_registry w') i = Some \<lparr>te_state = Completed res, te_log_path = p\<rparr>"
  using assms
  by (cases res) (auto simp: wait_take_def set_state_def run_handle_def join_result_def wait_resolve_def Let_def)


text \<open>A task that has ended is reported as running, without an exit code, until somebody waits for it: reading the output does not look
  at the handle.\<close>

theorem finished_task_reported_running:
  assumes "state_of (wo_registry w) i = Some (Running h)"
  shows "\<exists>out. task_output env i (run_handle env backend h w) = Inr out \<and> bo_is_running out \<and> bo_exit_code out = None"
proof -
  have "state_of (wo_registry (run_handle env backend h w)) i = Some (Running h)" using assms by simp
  then show ?thesis by (auto simp: state_of_def task_output_def split: prod.split)
qed

text \<open>Two callers cannot wait for one task: the second is told that the task's state is corrupted while the task is still running, and so
  is whoever tries to kill it.\<close>

theorem concurrent_waits_corrupt:
  assumes "state_of (registry_of sys) i = Some (Running h)"
    and "by_waiters sys 0 = \<lparr>wt_ids = [i], wt_results = [], wt_holding = None, wt_done = None\<rparr>"
    and "by_waiters sys 1 = \<lparr>wt_ids = [i], wt_results = [], wt_holding = None, wt_done = None\<rparr>"
  shows "let sys' = bg_run env backend [BgTake 0, BgTake 1] sys
    in wt_done (by_waiters sys' 1) = Some (Inl (Execution WAIT_PLACEHOLDER)) \<and>
       bg_handles (registry_of sys') h = bg_handles (registry_of sys) h \<and>
       fst (kill i (registry_of sys')) = Inl (Execution (''task '' @ quoted i @ '' is not running''))"
  using assms
  by (auto simp: bg_run_def with_waiter_def set_registry_def waiter_take_def wait_take_def waiter_result_def state_of_def set_state_def kill_def Let_def)

text \<open>A printer of the log that reads back: the length of the errors in unary, then both outputs.\<close>

definition bt_print :: "json \<Rightarrow> string" where
  "bt_print v =
     (let err = unwrap_or (json_as_str (json_index v ''stderr'')) []; out = unwrap_or (json_as_str (json_index v ''stdout'')) []
      in replicate (length err) (CHR ''1'') @ CHR ''0'' # err @ out)"

definition bt_parse :: "string \<Rightarrow> (string, json) result" where
  "bt_parse s =
     (let n = length (takeWhile (\<lambda>c. c = CHR ''1'') s); rest = drop (Suc n) s
      in Inr (log_json (drop n rest) (take n rest)))"

lemma bt_reads_back: "bt_parse (bt_print (log_json out err)) = Inr (log_json out err)"
proof -
  have "takeWhile (\<lambda>c. c = CHR ''1'') (replicate n (CHR ''1'') @ CHR ''0'' # s) = replicate n (CHR ''1'')" for n s
    by (induction n) auto
  then show ?thesis by (simp add: bt_parse_def bt_print_def log_json_def json_index_def Let_def)
qed

definition bt_env :: tool_env where
  "bt_env = \<lparr>xe_host = demo_host, xe_faults = (\<lambda>_. None), xe_cube = (\<lambda>_ _ _ _ t. (Inl NotConfigured, t)),
     xe_to_str = bt_print, xe_from_str = bt_parse, xe_workspace = ''/ws'', xe_session_id = ''s''\<rparr>"

definition bt_tree :: tree where
  "bt_tree = \<lparr>tr_files = (\<lambda>_. None), tr_dirs = (\<lambda>_. False)\<rparr>"

definition bt_world :: world where
  "bt_world = \<lparr>wo_tree = bt_tree, wo_registry = BackgroundTaskRegistry_new\<rparr>"

definition bt_call :: "bool \<Rightarrow> json" where
  "bt_call background = JObject [(''command'', JString ''ls''), (''is_background'', JBool background)]"


definition bt_done :: bg_sys where
  "bt_done = \<lparr>by_world = bt_world\<lparr>wo_registry := BackgroundTaskRegistry_new\<lparr>bg_tasks := [''task-1'' \<mapsto>
     \<lparr>te_state = Completed (Inl ''task killed''), te_log_path = ''l''\<rparr>]\<rparr>\<rparr>,
     by_waiters = (\<lambda>_. \<lparr>wt_ids = [''task-1''], wt_results = [], wt_holding = None, wt_done = None\<rparr>)\<rparr>"

theorem task_results_final_witness:
  "let sys' = bg_run bt_env LocalBackend [BgTake 0, BgKill ''task-1'', BgTake 1, BgResolve 0] bt_done
   in state_of (registry_of sys') ''task-1'' = Some (Completed (Inl ''task killed'')) \<and>
      fst (wait_take ''task-1'' (registry_of sys')) = Inr (Resolved (Inl ''task killed''))"
  by (rule task_results_final) (simp_all add: bt_done_def state_of_def)

definition bt_running :: bg_sys where
  "bt_running = \<lparr>by_world = bt_world\<lparr>wo_registry := BackgroundTaskRegistry_new\<lparr>bg_tasks := [''task-1'' \<mapsto>
     \<lparr>te_state = Running 0, te_log_path = ''l''\<rparr>]\<rparr>\<rparr>,
     by_waiters = (\<lambda>_. \<lparr>wt_ids = [''task-1''], wt_results = [], wt_holding = None, wt_done = None\<rparr>)\<rparr>"

theorem concurrent_waits_corrupt_witness:
  "wt_done (by_waiters (bg_run bt_env LocalBackend [BgTake 0, BgTake 1] bt_running) 1) = Some (Inl (Execution WAIT_PLACEHOLDER))"
  using concurrent_waits_corrupt [of bt_running "''task-1''" 0 bt_env LocalBackend] by (simp add: bt_running_def state_of_def Let_def)

theorem finished_task_reported_running_witness:
  "\<exists>out. task_output bt_env ''task-1'' (run_handle bt_env LocalBackend 0 (by_world bt_running)) = Inr out \<and> bo_is_running out \<and> bo_exit_code out = None"
  by (rule finished_task_reported_running) (simp add: bt_running_def state_of_def)

end
