(* ===== verification/Llm_Select.thy ===== *)
theory Llm_Select
  imports Skills Memory_Store
begin

text \<open>
  Small model calls that choose from a list (\<^verbatim>\<open>legion-runtime/src/llm.rs\<close>, \<^verbatim>\<open>skill_selector.rs\<close>,
  \<^verbatim>\<open>recall_selector.rs\<close>). The router is a function from the model and the request to what the call
  gives; \<open>from_str\<close> is serde reading an array.
\<close>

subsection \<open>Definitions\<close>

datatype llm_call = CallTimedOut | CallFailed ProviderError | CallStream chat_stream

type_synonym llm_router = "string \<Rightarrow> ChatRequest \<Rightarrow> llm_call"

fun accumulate :: "string \<Rightarrow> chat_stream \<Rightarrow> string option" where
  "accumulate text [] = Some text"
| "accumulate text (Inr c # rest) = accumulate (text @ cc_delta c) rest"
| "accumulate text (Inl e # rest) = None"

definition chat_text_with_timeout :: "llm_router \<Rightarrow> string \<Rightarrow> ChatRequest \<Rightarrow> string option" where
  "chat_text_with_timeout router model_ref req =
     (case router model_ref req of CallStream stream \<Rightarrow> accumulate [] stream | CallFailed e \<Rightarrow> None | CallTimedOut \<Rightarrow> None)"

definition rfind_char :: "char \<Rightarrow> string \<Rightarrow> nat option" where
  "rfind_char c s = map_option (\<lambda>i. length s - 1 - i) (find_str [c] (rev s))"

definition extract_json_array :: "(string \<Rightarrow> 'a list option) \<Rightarrow> string \<Rightarrow> 'a list option" where
  "extract_json_array from_str text =
     (case (find_str ''['' text, rfind_char (CHR '']'') text) of
        (Some s, Some e) \<Rightarrow> if e < s then None else from_str (take (e + 1 - s) (drop s text))
      | _ \<Rightarrow> None)"

text \<open>Skill selection: the indexes of the candidates with a positive score, best first.\<close>

definition keyword_select :: "string \<Rightarrow> Skill list \<Rightarrow> nat \<Rightarrow> nat list" where
  "keyword_select intent candidates limit =
     (let lowered = to_lowercase intent;
          scored = filter (\<lambda>(_, score). 0 < score)
            (map (\<lambda>(idx, skill). (idx, relevance_score lowered skill)) (List.enumerate 0 candidates))
      in take limit (map fst (sort_key (\<lambda>(_, score). - int score) scored)))"

fun pick_names :: "Skill list \<Rightarrow> string list \<Rightarrow> nat list \<Rightarrow> nat list" where
  "pick_names candidates [] selected = selected"
| "pick_names candidates (name # names) selected =
     (case List.find (\<lambda>(_, s). skill_name s = name) (List.enumerate 0 candidates) of
        None \<Rightarrow> pick_names candidates names selected
      | Some (idx, _) \<Rightarrow> pick_names candidates names (if idx \<in> set selected then selected else selected @ [idx]))"

definition parse_llm_selection :: "(string \<Rightarrow> string list option) \<Rightarrow> string \<Rightarrow> Skill list \<Rightarrow> nat \<Rightarrow> nat list" where
  "parse_llm_selection from_str text candidates limit =
     (case extract_json_array from_str text of None \<Rightarrow> [] | Some names \<Rightarrow> take limit (pick_names candidates names []))"

definition QUOTE :: string where
  "QUOTE = [CHR 0x22]"

definition skill_select_request :: "string \<Rightarrow> string \<Rightarrow> Skill list \<Rightarrow> nat \<Rightarrow> ChatRequest" where
  "skill_select_request model_ref intent candidates limit =
     ChatRequest_new model_ref
       [ChatMessage_system (''You are a skill selector. Given a user request and a list of available skills, return a JSON array of up to '' @
          show_nat limit @ '' skill names that are most relevant. Return only the JSON array, with no additional commentary.''),
        ChatMessage_user (''User request: '' @ intent @ [LF, LF] @ ''Available skills:'' @ [LF] @
          concat (map (\<lambda>s. ''- '' @ skill_name s @ '': '' @ sf_description (sk_frontmatter s) @ [LF]) candidates) @
          [LF] @ ''Return a JSON array like ['' @ QUOTE @ ''skill-name'' @ QUOTE @ ''] with up to '' @ show_nat limit @ '' items.'')]"

definition llm_skill_select ::
  "llm_router \<Rightarrow> (string \<Rightarrow> string list option) \<Rightarrow> string \<Rightarrow> string \<Rightarrow> Skill list \<Rightarrow> nat \<Rightarrow> nat list" where
  "llm_skill_select router from_str model_ref intent candidates limit =
     (if candidates = [] \<or> limit = 0 then []
      else case chat_text_with_timeout router model_ref (skill_select_request model_ref intent candidates limit) of
        None \<Rightarrow> [] | Some text \<Rightarrow> parse_llm_selection from_str text candidates limit)"

text \<open>Re-ranking of recalled notes.\<close>

definition RECALL_SYSTEM_PROMPT :: string where
  "RECALL_SYSTEM_PROMPT = ''You select the memories most relevant to a user query. Given a numbered list of candidate memories and a query, return ONLY a JSON array of the 0-based indices of the most relevant candidates, ordered by relevance (most relevant first). Omit irrelevant ones. Example: [2, 0, 3]. Return [] if none are relevant.''"

definition recall_request :: "string \<Rightarrow> string \<Rightarrow> MemoryNote list \<Rightarrow> nat \<Rightarrow> ChatRequest" where
  "recall_request model_ref query candidates limit =
     ChatRequest_new model_ref
       [ChatMessage_system RECALL_SYSTEM_PROMPT,
        ChatMessage_user (''Query: '' @ query @ [LF, LF] @ ''Candidates:'' @ [LF] @
          concat (map (\<lambda>(i, n). show_nat i @ ''. ['' @ mn_id n @ ''] '' @ take_chars 200 (mn_content n) @ [LF]) (List.enumerate 0 candidates)) @
          [LF] @ ''Return a JSON array of up to '' @ show_nat limit @ '' indices, most relevant first.'')]"

definition recall_fallback :: "MemoryNote list \<Rightarrow> nat \<Rightarrow> MemoryNote list" where
  "recall_fallback candidates limit = take limit candidates"

definition parse_indices :: "(string \<Rightarrow> nat list option) \<Rightarrow> string \<Rightarrow> nat list" where
  "parse_indices from_str text = unwrap_or (extract_json_array from_str text) []"

fun pick_notes :: "MemoryNote list \<Rightarrow> nat \<Rightarrow> nat list \<Rightarrow> nat set \<Rightarrow> MemoryNote list \<Rightarrow> MemoryNote list" where
  "pick_notes candidates limit [] seen out = out"
| "pick_notes candidates limit (idx # rest) seen out =
     (if idx \<in> seen then pick_notes candidates limit rest seen out
      else if idx < length candidates
      then let out' = out @ [candidates ! idx]
           in if limit \<le> length out' then out' else pick_notes candidates limit rest (insert idx seen) out'
      else pick_notes candidates limit rest (insert idx seen) out)"

definition recall_select ::
  "llm_router \<Rightarrow> (string \<Rightarrow> nat list option) \<Rightarrow> string \<Rightarrow> string \<Rightarrow> MemoryNote list \<Rightarrow> nat \<Rightarrow> MemoryNote list" where
  "recall_select router from_str model_ref query candidates limit =
     (if candidates = [] \<or> limit = 0 then []
      else case chat_text_with_timeout router model_ref (recall_request model_ref query candidates limit) of
        None \<Rightarrow> recall_fallback candidates limit
      | Some text \<Rightarrow>
          (let indices = parse_indices from_str text
           in if indices = [] then recall_fallback candidates limit
              else let out = pick_notes candidates limit indices {} []
                   in if out = [] then recall_fallback candidates limit else out))"

subsection \<open>Facts\<close>

lemma sublist_single [simp]: "sublist [c] s \<longleftrightarrow> c \<in> set s"
  by (auto simp: sublist_def in_set_conv_decomp)

lemma rfind_char_last: "c \<notin> set post \<Longrightarrow> rfind_char c (pre @ c # post) = Some (length pre)"
  using find_str_first [of "[c]" "rev post" "rev pre"] by (simp add: rfind_char_def)

text \<open>The text from the first opening to the last closing bracket is what is read.\<close>

lemma extract_json_array_slice:
  assumes "CHR ''['' \<notin> set pre" "CHR '']'' \<notin> set post"
  shows "extract_json_array from_str (pre @ ''['' @ body @ '']'' @ post) = from_str (''['' @ body @ '']'')"
proof -
  have "find_str ''['' (pre @ ''['' @ body @ '']'' @ post) = Some (length pre)"
    using find_str_first [of "''[''" pre "body @ '']'' @ post"] assms(1) by simp
  moreover have "rfind_char (CHR '']'') (pre @ ''['' @ body @ '']'' @ post) = Some (length pre + 1 + length body)"
    using rfind_char_last [OF assms(2), of "pre @ ''['' @ body"] by simp
  ultimately show ?thesis by (simp add: extract_json_array_def)
qed

lemma insort_key_map: "k' (g x) = k x \<Longrightarrow> (\<And>y. y \<in> set xs \<Longrightarrow> k' (g y) = k y) \<Longrightarrow>
   map g (insort_key k x xs) = insort_key k' (g x) (map g xs)"
  by (induction xs) auto

lemma sort_key_map: "(\<And>y. y \<in> set xs \<Longrightarrow> k' (g y) = k y) \<Longrightarrow> map g (sort_key k xs) = sort_key k' (map g xs)"
proof (induction xs)
  case (Cons a xs)
  then show ?case using insort_key_map [of k' g a k "sort_key k xs"] by simp
qed simp

lemma enumerate_nth: "(i, x) \<in> set (List.enumerate 0 xs) \<Longrightarrow> xs ! i = x"
  by (auto simp: in_set_enumerate_eq)

lemma map_enumerate: "map (\<lambda>(i, x). f x (xs ! i)) (List.enumerate 0 xs) = map (\<lambda>x. f x x) xs"
proof -
  have "map (\<lambda>(i, x). f x (xs ! i)) (List.enumerate 0 xs) = map (\<lambda>(i, x). f x x) (List.enumerate 0 xs)"
    by (auto dest: enumerate_nth)
  also have "\<dots> = map (\<lambda>x. f x x) (map snd (List.enumerate 0 xs))"
    unfolding map_map comp_def case_prod_unfold ..
  finally show ?thesis by (simp only: map_snd_enumerate)
qed

text \<open>Keyword selection agrees with the registry. For an intent that is not blank, the selector picks exactly the skills that
  the relevance query of the registry returns, in the same order and with the same limit.\<close>

theorem keyword_select_matches_registry:
  assumes "trim_str intent \<noteq> []"
  shows "map (\<lambda>i. sr_skills reg ! i) (keyword_select intent (sr_skills reg) limit) = relevant reg intent limit"
proof -
  let ?low = "to_lowercase intent" and ?ss = "sr_skills reg"
  let ?g = "\<lambda>(i, score). (score, ?ss ! i)"
  let ?scored = "filter (\<lambda>(_, score). 0 < score) (map (\<lambda>(i, s). (i, relevance_score ?low s)) (List.enumerate 0 ?ss))"
  have "map ?g ?scored = filter (\<lambda>(score, _). 0 < score) (map ?g (map (\<lambda>(i, s). (i, relevance_score ?low s)) (List.enumerate 0 ?ss)))"
    unfolding filter_map by (auto simp: comp_def split_beta)
  also have "map ?g (map (\<lambda>(i, s). (i, relevance_score ?low s)) (List.enumerate 0 ?ss)) = map (\<lambda>s. (relevance_score ?low s, s)) ?ss"
    using map_enumerate [of "\<lambda>s t. (relevance_score ?low s, t)" ?ss] by (simp add: comp_def case_prod_unfold)
  finally have scored: "map ?g ?scored = filter (\<lambda>(score, _). 0 < score) (map (\<lambda>s. (relevance_score ?low s, s)) ?ss)" .
  have "map (\<lambda>i. ?ss ! i) (map fst (sort_key (\<lambda>(_, score). - int score) ?scored)) =
      map snd (map ?g (sort_key (\<lambda>(_, score). - int score) ?scored))" by auto
  also have "map ?g (sort_key (\<lambda>(_, score). - int score) ?scored) = sort_key (\<lambda>(score, _). - int score) (map ?g ?scored)"
    by (rule sort_key_map) auto
  finally have "take limit (map (\<lambda>i. ?ss ! i) (map fst (sort_key (\<lambda>(_, score). - int score) ?scored))) =
      take limit (map snd (sort_key (\<lambda>(score, _). - int score) (map ?g ?scored)))" by (rule arg_cong)
  then show ?thesis using assms unfolding scored keyword_select_def relevant_def Let_def take_map by simp
qed

definition sel_skill :: "string \<Rightarrow> string \<Rightarrow> Skill" where
  "sel_skill name desc = \<lparr>sk_frontmatter = \<lparr>sf_name = name, sf_description = desc, sf_when_to_use = None, sf_allowed_tools = [],
     sf_paths = [], sf_user_invocable = True, sf_model = None, sf_effort = None\<rparr>, sk_body = [], sk_source = Workspace, sk_path = []\<rparr>"

definition sel_registry :: SkillRegistryImpl where
  "sel_registry = SkillRegistryImpl_new\<lparr>sr_skills := [sel_skill ''git'' ''use git'', sel_skill ''rust'' ''help'']\<rparr>"

theorem keyword_select_matches_registry_witness:
  "trim_str ''Git'' \<noteq> [] \<and> map (\<lambda>i. sr_skills sel_registry ! i) (keyword_select ''Git'' (sr_skills sel_registry) 3) = relevant sel_registry ''Git'' 3"
proof -
  have "trim_str ''Git'' \<noteq> []" by (simp add: trim_str_Nil_iff is_whitespace_def)
  then show ?thesis using keyword_select_matches_registry [of "''Git''" sel_registry 3] by simp
qed

text \<open>An empty intent, for which the registry returns nothing, selects the first skills up to the limit.\<close>

theorem empty_intent_selects_all:
  "keyword_select [] candidates limit = take limit [0..<length candidates] \<and> relevant reg [] limit = []"
proof -
  have score: "relevance_score [] s = 15" for s
    by (simp add: relevance_score_def Let_def contains_str_iff split_whitespace_def split_by.simps)
  have "map fst (sort_key (\<lambda>(_, score). - int score) (map (\<lambda>(i, s). (i, 15)) (List.enumerate 0 candidates))) = [0..<length candidates]"
  proof -
    have "sort_key (\<lambda>(_, score). - int score) xs = xs" if "\<forall>x\<in>set xs. snd x = 15" for xs :: "(nat \<times> nat) list"
      using that by (induction xs) (auto simp: insort_is_Cons split_beta)
    then have "sort_key (\<lambda>(_, score). - int score) (map (\<lambda>(i, s). (i, 15)) (List.enumerate 0 candidates)) = map (\<lambda>(i, s). (i, 15)) (List.enumerate 0 candidates)"
      by (auto simp: split_beta)
    moreover have "map fst (map (\<lambda>(i, s). (i, 15 :: nat)) (List.enumerate 0 candidates)) = [0..<length candidates]"
      by (simp add: comp_def case_prod_unfold)
    ultimately show ?thesis by metis
  qed
  then show ?thesis by (simp add: keyword_select_def score to_lowercase_def Let_def relevant_def filter_map comp_def split_beta)
qed

subsection \<open>Re-ranking\<close>

fun first_occurrences :: "'a list \<Rightarrow> 'a list" where
  "first_occurrences [] = []"
| "first_occurrences (x # xs) = x # filter (\<lambda>y. y \<noteq> x) (first_occurrences xs)"

lemma set_first_occurrences [simp]: "set (first_occurrences xs) = set xs"
  by (induction xs) auto

lemma distinct_first_occurrences [simp]: "distinct (first_occurrences xs)"
  by (induction xs) auto

lemma pick_notes_spec:
  "length out < limit \<Longrightarrow>
   pick_notes cs limit is seen out =
     out @ map ((!) cs) (take (limit - length out) (filter (\<lambda>i. i < length cs \<and> i \<notin> seen) (first_occurrences is)))"
proof (induction cs limit "is" seen out rule: pick_notes.induct)
  case (2 cs limit idx rest seen out)
  have flt: "filter (\<lambda>i. i < length cs \<and> i \<notin> seen) (filter (\<lambda>y. y \<noteq> idx) (first_occurrences rest)) =
      filter (\<lambda>i. i < length cs \<and> i \<notin> insert idx seen) (first_occurrences rest)"
    by (auto intro: filter_cong)
  consider (seen) "idx \<in> seen" | (last) "idx \<notin> seen" "idx < length cs" "limit \<le> Suc (length out)"
    | (more) "idx \<notin> seen" "idx < length cs" "Suc (length out) < limit" | (out) "idx \<notin> seen" "\<not> idx < length cs" by linarith
  then show ?case
  proof cases
    case seen
    then have "insert idx seen = seen" by blast
    with seen 2 flt show ?thesis by (simp add: Let_def)
  next
    case last
    then have "limit - length out = 1" using "2.prems" by linarith
    with last show ?thesis by (simp add: Let_def)
  next
    case more
    then have "limit - length out = Suc (limit - Suc (length out))" by linarith
    with more 2(2) [OF _ _ refl] flt show ?thesis by (simp add: Let_def)
  next
    case out
    with 2 flt show ?thesis by (simp add: Let_def)
  qed
qed simp

lemma recall_select_eq:
  "recall_select router from_str model_ref query candidates limit =
     (let named = (case chat_text_with_timeout router model_ref (recall_request model_ref query candidates limit) of
                     None \<Rightarrow> [] | Some text \<Rightarrow> filter (\<lambda>i. i < length candidates) (first_occurrences (parse_indices from_str text)))
      in if named = [] then take limit candidates else map ((!) candidates) (take limit named))"
proof (cases "candidates = [] \<or> limit = 0")
  case True
  then show ?thesis by (auto simp: recall_select_def Let_def split: option.splits)
next
  case False
  then show ?thesis
    using pick_notes_spec [of "[]" limit candidates _ "{}"]
    by (auto simp: recall_select_def recall_fallback_def Let_def split: option.splits)
qed

text \<open>Re-ranking follows the model and never loses the recall. When the model answers with an array that names a candidate, the
  selection is the named candidates, in the order of their first mention, up to the limit; when the call fails, or the answer
  names no candidate, it is the first candidates up to the limit.\<close>

theorem recall_select_follows_model:
  "recall_select router from_str model_ref query candidates limit =
     (let named = (case chat_text_with_timeout router model_ref (recall_request model_ref query candidates limit) of
                     None \<Rightarrow> [] | Some text \<Rightarrow> filter (\<lambda>i. i < length candidates) (first_occurrences (parse_indices from_str text)))
      in if named = [] then take limit candidates else map ((!) candidates) (take limit named))"
  by (rule recall_select_eq)

lemma recall_select_subset:
  "set (recall_select router from_str model_ref query candidates limit) \<subseteq> set candidates"
  "length (recall_select router from_str model_ref query candidates limit) \<le> limit"
proof -
  let ?named = "case chat_text_with_timeout router model_ref (recall_request model_ref query candidates limit) of
                     None \<Rightarrow> [] | Some text \<Rightarrow> filter (\<lambda>i. i < length candidates) (first_occurrences (parse_indices from_str text))"
  have named: "set ?named \<subseteq> {..<length candidates}" by (auto split: option.splits)
  have eq: "recall_select router from_str model_ref query candidates limit =
      (if ?named = [] then take limit candidates else map ((!) candidates) (take limit ?named))"
    using recall_select_eq [of router from_str model_ref query candidates limit] unfolding Let_def .
  show "set (recall_select router from_str model_ref query candidates limit) \<subseteq> set candidates"
    unfolding eq using named by (auto dest!: in_set_takeD)
  show "length (recall_select router from_str model_ref query candidates limit) \<le> limit" unfolding eq by simp
qed

end
