(* ===== verification/Secret_Scanner.thy ===== *)
theory Secret_Scanner
  imports Legion_Prelude
begin

text \<open>
  The secret scanner (\<^verbatim>\<open>legion-runtime/src/secret_scanner.rs\<close>). The regular-expression engine is a
  library: it enters as the function \<open>is_match\<close>, and what is documented of it for the constructs the
  patterns use is the predicate \<open>documented\<close>, stated with the languages of the six patterns. A
  matcher that computes is shown to satisfy it.
\<close>

subsection \<open>Definitions\<close>

definition BACKSLASH :: string where
  "BACKSLASH = [CHR 0x5C]"

definition QUOTES :: string where
  "QUOTES = [CHR 0x22, CHR 0x27]"

definition PATTERNS :: "string list" where
  "PATTERNS =
     [''sk-[A-Za-z0-9_-]{20,}'',
      ''(?:ghp|gho|ghu|ghs|ghr)_[A-Za-z0-9]{20,}'',
      ''github_pat_[A-Za-z0-9_]{20,}'',
      ''AKIA[0-9A-Z]{16}'',
      ''Bearer [A-Za-z0-9._~+/=-]{20,}'',
      ''(?i)(?:api[_-]?key|api[_-]?secret|access[_-]?token|secret|password|passwd|pwd)'' @ BACKSLASH @ ''s*[:=]'' @ BACKSLASH @
        ''s*['' @ BACKSLASH @ QUOTES @ '']?[A-Za-z0-9._~+/=-]{16,}'']"

definition contains_secret :: "(string \<Rightarrow> string \<Rightarrow> bool) \<Rightarrow> string \<Rightarrow> bool" where
  "contains_secret is_match text = list_ex (\<lambda>p. is_match p text) PATTERNS"

subsection \<open>The languages of the patterns\<close>

text \<open>A class of characters is a predicate on one-byte characters and a list of characters of
  several bytes. \<open>Rep n k\<close> is a class repeated at least \<open>n\<close> times and, with \<open>Some k\<close>, at most \<open>k\<close> times.\<close>

type_synonym cclass = "(char \<Rightarrow> bool) \<times> string list"

datatype regex = Eps | Rep nat "nat option" cclass | Seq regex regex | Alt regex regex

definition class_lang :: "cclass \<Rightarrow> string set" where
  "class_lang k = {[c] | c. fst k c} \<union> (set (snd k) - {[]})"

fun lang :: "regex \<Rightarrow> string set" where
  "lang Eps = {[]}"
| "lang (Rep n m k) = {concat ws | ws. set ws \<subseteq> class_lang k \<and> n \<le> length ws \<and> (\<forall>b. m = Some b \<longrightarrow> length ws \<le> b)}"
| "lang (Seq r s) = {u @ v | u v. u \<in> lang r \<and> v \<in> lang s}"
| "lang (Alt r s) = lang r \<union> lang s"

definition lit :: "string \<Rightarrow> regex" where
  "lit w = foldr (\<lambda>c. Seq (Rep 1 (Some 1) ((=) c, []))) w Eps"

definition chars :: "string \<Rightarrow> char \<Rightarrow> bool" where
  "chars extra c = (is_ascii_upper c \<or> is_ascii_lower c \<or> is_ascii_digit c \<or> c \<in> set extra)"

text \<open>Case-insensitive matching is by Unicode case folding, which adds the long s (U+017F) to the letter s and the
  Kelvin sign (U+212A) to the letter k.\<close>

definition LONG_S :: string where
  "LONG_S = [char_of (0xC5::nat), char_of (0xBF::nat)]"

definition KELVIN :: string where
  "KELVIN = [char_of (0xE2::nat), char_of (0x84::nat), char_of (0xAA::nat)]"

definition folded :: "char \<Rightarrow> cclass" where
  "folded c = (\<lambda>d. to_lower_char d = c, if c = CHR ''s'' then [LONG_S] else if c = CHR ''k'' then [KELVIN] else [])"

definition ilit :: "string \<Rightarrow> regex" where
  "ilit w = foldr (\<lambda>c. Seq (Rep 1 (Some 1) (folded c))) w Eps"

definition opt_sep :: regex where
  "opt_sep = Rep 0 (Some 1) (\<lambda>c. c \<in> set ''_-'', [])"

text \<open>The class \<open>\s\<close> is White\_Space of Unicode.\<close>

definition space_class :: cclass where
  "space_class = (\<lambda>c. c \<in> set [CHR '' '', CHR 0x09, CHR 0x0A, CHR 0x0B, CHR 0x0C, CHR 0x0D],
     map (map (\<lambda>n. char_of (n::nat)))
       ([[0xC2, 0x85], [0xC2, 0xA0], [0xE1, 0x9A, 0x80], [0xE2, 0x80, 0xA8], [0xE2, 0x80, 0xA9], [0xE2, 0x80, 0xAF],
         [0xE2, 0x81, 0x9F], [0xE3, 0x80, 0x80]] @ map (\<lambda>i. [0xE2, 0x80, i]) [0x80..<0x8B]))"

definition seqs :: "regex list \<Rightarrow> regex" where
  "seqs rs = foldr Seq rs Eps"

definition alts :: "regex \<Rightarrow> regex list \<Rightarrow> regex" where
  "alts r rs = foldl Alt r rs"

definition RULES :: "regex list" where
  "RULES =
     [Seq (lit ''sk-'') (Rep 20 None (chars ''_-'', [])),
      seqs [alts (lit ''ghp'') [lit ''gho'', lit ''ghu'', lit ''ghs'', lit ''ghr''], lit ''_'', Rep 20 None (chars [], [])],
      Seq (lit ''github_pat_'') (Rep 20 None (chars ''_'', [])),
      Seq (lit ''AKIA'') (Rep 16 (Some 16) (\<lambda>c. is_ascii_digit c \<or> is_ascii_upper c, [])),
      Seq (lit ''Bearer '') (Rep 20 None (chars ''._~+/=-'', [])),
      seqs [alts (seqs [ilit ''api'', opt_sep, ilit ''key''])
              [seqs [ilit ''api'', opt_sep, ilit ''secret''], seqs [ilit ''access'', opt_sep, ilit ''token''],
               ilit ''secret'', ilit ''password'', ilit ''passwd'', ilit ''pwd''],
            Rep 0 None space_class, Rep 1 (Some 1) (\<lambda>c. c \<in> set '':='', []), Rep 0 None space_class,
            Rep 0 (Some 1) (\<lambda>c. c \<in> set QUOTES, []), Rep 16 None (chars ''._~+/=-'', [LONG_S, KELVIN])]]"

text \<open>What is documented of the library: a pattern matches a text when a word of its language occurs in it.\<close>

definition documented :: "(string \<Rightarrow> string \<Rightarrow> bool) \<Rightarrow> bool" where
  "documented is_match =
     (\<forall>(p, r)\<in>set (zip PATTERNS RULES). \<forall>text. is_match p text = (\<exists>w\<in>lang r. sublist w text))"

text \<open>The matcher: what is left of a text after a match at its beginning.\<close>

definition class_rests :: "cclass \<Rightarrow> string \<Rightarrow> string list" where
  "class_rests k s = (case s of [] \<Rightarrow> [] | c # t \<Rightarrow> if fst k c then [t] else []) @
     map (\<lambda>m. drop (length m) s) (filter (\<lambda>m. m \<noteq> [] \<and> prefix m s) (snd k))"

lemma class_rests_shorter: "t \<in> set (class_rests k s) \<Longrightarrow> length t < length s"
  by (auto simp: class_rests_def prefix_def split: list.splits if_splits)

function rep_rests :: "cclass \<Rightarrow> nat \<Rightarrow> nat option \<Rightarrow> string \<Rightarrow> string list" where
  "rep_rests k n m s =
     (if n = 0 then [s] else []) @
     (if m = Some 0 then [] else concat (map (rep_rests k (n - 1) (map_option (\<lambda>b. b - 1) m)) (class_rests k s)))"
  by auto
termination by (relation "measure (\<lambda>(k, n, m, s). length s)") (auto dest: class_rests_shorter)

declare rep_rests.simps [simp del]

fun rests :: "regex \<Rightarrow> string \<Rightarrow> string list" where
  "rests Eps s = [s]"
| "rests (Rep n m k) s = rep_rests k n m s"
| "rests (Seq r q) s = concat (map (rests q) (rests r s))"
| "rests (Alt r q) s = rests r s @ rests q s"

fun rx_search :: "regex \<Rightarrow> string \<Rightarrow> bool" where
  "rx_search r [] = (rests r [] \<noteq> [])"
| "rx_search r (c # s) = (rests r (c # s) \<noteq> [] \<or> rx_search r s)"

definition rx_match :: "string \<Rightarrow> string \<Rightarrow> bool" where
  "rx_match p text = (case map_of (zip PATTERNS RULES) p of None \<Rightarrow> False | Some r \<Rightarrow> rx_search r text)"

subsection \<open>The matcher computes the languages\<close>

lemma class_rests_iff: "t \<in> set (class_rests k s) \<longleftrightarrow> (\<exists>w\<in>class_lang k. s = w @ t)"
proof -
  have one: "(t \<in> set (case s of [] \<Rightarrow> [] | c # t \<Rightarrow> if fst k c then [t] else [])) \<longleftrightarrow> (\<exists>c. fst k c \<and> s = c # t)"
    by (cases s) auto
  have more: "(t \<in> set (map (\<lambda>m. drop (length m) s) (filter (\<lambda>m. m \<noteq> [] \<and> prefix m s) (snd k)))) \<longleftrightarrow>
      (\<exists>m\<in>set (snd k) - {[]}. s = m @ t)"
    by (force simp: prefix_def)
  show ?thesis unfolding class_rests_def set_append Un_iff one more class_lang_def by auto
qed

lemma rep_rests_iff:
  "t \<in> set (rep_rests k n m s) \<longleftrightarrow>
     (\<exists>ws. set ws \<subseteq> class_lang k \<and> n \<le> length ws \<and> (\<forall>b. m = Some b \<longrightarrow> length ws \<le> b) \<and> s = concat ws @ t)"
  (is "_ \<longleftrightarrow> (\<exists>ws. ?P n m s ws)")
proof (induction k n m s rule: rep_rests.induct)
  case (1 k n m s)
  let ?m = "map_option (\<lambda>b. b - 1) m"
  let ?Q = "\<lambda>n m s ws. set ws \<subseteq> class_lang k \<and> n \<le> length ws \<and> (\<forall>b. m = Some b \<longrightarrow> length ws \<le> b) \<and> s = concat ws @ t"
  have step: "(\<exists>u\<in>set (class_rests k s). t \<in> set (rep_rests k (n - 1) ?m u)) \<longleftrightarrow> (\<exists>w ws. ?Q n m s (w # ws))" if "m \<noteq> Some 0"
  proof -
    have "(\<exists>u\<in>set (class_rests k s). t \<in> set (rep_rests k (n - 1) ?m u)) \<longleftrightarrow>
        (\<exists>u\<in>set (class_rests k s). \<exists>ws. ?Q (n - 1) ?m u ws)"
      using 1 [OF that] by blast
    also have "\<dots> \<longleftrightarrow> (\<exists>w ws. w \<in> class_lang k \<and> ?Q (n - 1) ?m (concat ws @ t) ws \<and> s = w @ concat ws @ t)"
      using class_rests_iff [of _ k s] by (simp add: Bex_def) blast
    also have "\<dots> \<longleftrightarrow> (\<exists>w ws. ?Q n m s (w # ws))"
    proof -
      have "(n - 1 \<le> length ws \<and> (\<forall>b. ?m = Some b \<longrightarrow> length ws \<le> b)) \<longleftrightarrow>
          (n \<le> Suc (length ws) \<and> (\<forall>b. m = Some b \<longrightarrow> Suc (length ws) \<le> b))" for ws :: "string list"
        using that by (cases m) auto
      then show ?thesis by auto
    qed
    finally show ?thesis .
  qed
  have "t \<in> set (rep_rests k n m s) \<longleftrightarrow> n = 0 \<and> t = s \<or> m \<noteq> Some 0 \<and> (\<exists>w ws. ?Q n m s (w # ws))"
    using step by (subst rep_rests.simps) auto
  also have "\<dots> \<longleftrightarrow> (\<exists>ws. ?Q n m s ws)"
  proof
    assume "\<exists>ws. ?Q n m s ws"
    then obtain ws where "?Q n m s ws" by blast
    then show "n = 0 \<and> t = s \<or> m \<noteq> Some 0 \<and> (\<exists>w ws. ?Q n m s (w # ws))" by (cases ws) auto
  next
    assume "n = 0 \<and> t = s \<or> m \<noteq> Some 0 \<and> (\<exists>w ws. ?Q n m s (w # ws))"
    then show "\<exists>ws. ?Q n m s ws"
    proof
      assume "n = 0 \<and> t = s"
      then have "?Q n m s []" by simp
      then show ?thesis by blast
    qed blast
  qed
  finally show ?case .
qed

lemma rests_iff: "t \<in> set (rests r s) \<longleftrightarrow> (\<exists>w\<in>lang r. s = w @ t)"
proof (induction r arbitrary: s t)
  case (Seq r q)
  have "t \<in> set (rests (Seq r q) s) \<longleftrightarrow> (\<exists>u. (\<exists>w\<in>lang r. s = w @ u) \<and> (\<exists>v\<in>lang q. u = v @ t))"
    by (simp add: Bex_def Seq)
  also have "\<dots> \<longleftrightarrow> (\<exists>w\<in>lang (Seq r q). s = w @ t)" by (simp add: Bex_def) (metis append_assoc)
  finally show ?case .
qed (auto simp: rep_rests_iff)

lemma rx_search_iff: "rx_search r s \<longleftrightarrow> (\<exists>w\<in>lang r. sublist w s)"
proof (induction s)
  case Nil
  have "rests r [] \<noteq> [] \<longleftrightarrow> (\<exists>t. t \<in> set (rests r []))" by (metis list.set_intros(1) list.set_sel(1) empty_iff list.set(1))
  then show ?case by (auto simp: rests_iff sublist_def)
next
  case (Cons c s)
  have "rests r (c # s) \<noteq> [] \<longleftrightarrow> (\<exists>t. t \<in> set (rests r (c # s)))" by (metis list.set_intros(1) list.set_sel(1) empty_iff list.set(1))
  then have "rests r (c # s) \<noteq> [] \<longleftrightarrow> (\<exists>w\<in>lang r. prefix w (c # s))" by (auto simp: rests_iff prefix_def)
  with Cons show ?case by (auto simp: sublist_Cons_right)
qed

lemma patterns_rules [simp]: "length RULES = length PATTERNS"
  by (simp add: PATTERNS_def RULES_def)

lemma rx_match_documented: "documented rx_match"
proof -
  have "distinct PATTERNS" by (simp add: PATTERNS_def BACKSLASH_def QUOTES_def)
  then have "map_of (zip PATTERNS RULES) p = Some r" if "(p, r) \<in> set (zip PATTERNS RULES)" for p r
    using that by (simp add: patterns_rules)
  then show ?thesis by (auto simp: documented_def rx_match_def rx_search_iff)
qed

lemma secret_iff:
  "documented is_match \<Longrightarrow> contains_secret is_match text \<longleftrightarrow> (\<exists>r\<in>set RULES. \<exists>w\<in>lang r. sublist w text)"
proof -
  assume d: "documented is_match"
  have fst: "set PATTERNS = fst ` set (zip PATTERNS RULES)" and snd: "set RULES = snd ` set (zip PATTERNS RULES)"
    by (metis list.set_map map_fst_zip patterns_rules, metis list.set_map map_snd_zip patterns_rules)
  have "contains_secret is_match text \<longleftrightarrow> (\<exists>(p, r)\<in>set (zip PATTERNS RULES). is_match p text)"
    unfolding contains_secret_def list_ex_iff fst by (auto simp: split_beta)
  also have "\<dots> \<longleftrightarrow> (\<exists>(p, r)\<in>set (zip PATTERNS RULES). \<exists>w\<in>lang r. sublist w text)"
    using d unfolding documented_def by blast
  also have "\<dots> \<longleftrightarrow> (\<exists>r\<in>set RULES. \<exists>w\<in>lang r. sublist w text)"
    unfolding snd by (auto simp: split_beta)
  finally show ?thesis .
qed

end
