(* ===== verification/Memory_Recall.thy ===== *)
theory Memory_Recall
  imports Llm_Select Session_Context Secret_Scanner File_Store "HOL-Library.List_Lexorder" "HOL-Library.Char_ord"
begin

text \<open>
  What the agent remembers (\<^verbatim>\<open>legion-runtime/src/memory.rs\<close>, \<^verbatim>\<open>surfaced.rs\<close>, \<^verbatim>\<open>auto_extract.rs\<close> and the recall
  at the start of a turn in \<^verbatim>\<open>run_loop.rs\<close>): recall filters what was surfaced before in the session and remembers
  what it surfaces now; the extractor stores facts of a finished turn. The hash of strings, serde, the
  search and the model calls are parameters.
\<close>

subsection \<open>Definitions\<close>

definition RECALL_OVERFETCH_FACTOR :: nat where
  "RECALL_OVERFETCH_FACTOR = 3"

definition reweigh :: "MemoryNote \<Rightarrow> MemoryNote" where
  "reweigh note = note\<lparr>mn_score := mn_score note * (case mn_kind note of None \<Rightarrow> 1 | Some k \<Rightarrow> kind_weight k)\<rparr>"

definition recall_keeps :: "RecallContext \<Rightarrow> MemoryNote \<Rightarrow> bool" where
  "recall_keeps ctx note = (mn_id note \<notin> rc_already_surfaced ctx \<and> mn_id note \<notin> set (rc_recent_tools ctx))"

definition recall ::
  "(string \<Rightarrow> nat \<Rightarrow> (MemoryError, MemoryNote list) result) \<Rightarrow> string \<Rightarrow> RecallContext \<Rightarrow> (MemoryError, MemoryNote list) result" where
  "recall search query ctx =
     (let limit = max (rc_limit ctx) 1;
          overfetch = max (min (limit * RECALL_OVERFETCH_FACTOR) USIZE_MAX) limit
      in bind_result (search query overfetch) (\<lambda>notes.
           Inr (take limit (sort_key (\<lambda>n. - mn_score n) (filter (recall_keeps ctx) (map reweigh notes))))))"

text \<open>The ids a session has surfaced, in one file per session.\<close>

definition hex16 :: "64 word \<Rightarrow> string" where
  "hex16 w = map (\<lambda>i. ''0123456789abcdef'' ! (unat w div 16 ^ i mod 16)) (rev [0..<16])"

record surfaced_env =
  se_base_dir :: string
  se_hash :: "string \<Rightarrow> 64 word"
  se_to_json :: "string list \<Rightarrow> string"
  se_from_json :: "string \<Rightarrow> string list option"

definition surfaced_path :: "surfaced_env \<Rightarrow> string \<Rightarrow> string \<Rightarrow> path" where
  "surfaced_path env agent_id session_key =
     path_components (path_join (path_join (path_join (path_join (se_base_dir env) ''agents'') agent_id) ''surfaced'')
       (hex16 (se_hash env session_key) @ ''.json''))"

definition surfaced_load :: "surfaced_env \<Rightarrow> faults \<Rightarrow> string \<Rightarrow> string \<Rightarrow> files \<Rightarrow> string set" where
  "surfaced_load env faults agent_id session_key fs =
     (case fs_read faults (surfaced_path env agent_id session_key) fs of
        Inr text \<Rightarrow> set (unwrap_or (se_from_json env text) [])
      | Inl _ \<Rightarrow> {})"

definition surfaced_append ::
  "surfaced_env \<Rightarrow> faults \<Rightarrow> nat \<times> nat \<Rightarrow> string \<Rightarrow> string \<Rightarrow> string list \<Rightarrow> files \<Rightarrow> files" where
  "surfaced_append env faults stamp agent_id session_key new_ids fs =
     (if new_ids = [] then fs
      else let path = surfaced_path env agent_id session_key;
               old = surfaced_load env faults agent_id session_key fs;
               ids = old \<union> set new_ids
           in if card ids = card old \<and> set new_ids \<subseteq> ids then fs
              else case fs_create_dir_all faults (butlast path) of
                Inl _ \<Rightarrow> fs
              | Inr _ \<Rightarrow> snd (atomic_write faults stamp path (se_to_json env (sorted_list_of_set ids)) fs))"

text \<open>The recall of a turn: the limit of the configuration, the re-ranker if there is one (for which
  three times as many notes are recalled), and the update of the surfaced set.\<close>

record recall_env =
  rv_surfaced :: surfaced_env
  rv_limit :: nat
  rv_tools :: "string list"
  rv_selector :: "(llm_router \<times> (string \<Rightarrow> nat list option) \<times> string) option"

definition recall_turn ::
  "recall_env \<Rightarrow> (string \<Rightarrow> nat \<Rightarrow> (MemoryError, MemoryNote list) result) \<Rightarrow> faults \<Rightarrow> nat \<times> nat \<Rightarrow> string \<Rightarrow> string \<Rightarrow> string \<Rightarrow>
     files \<Rightarrow> MemoryNote list \<times> files" where
  "recall_turn env search faults stamp agent_id session_id message fs =
     (if rv_limit env = 0 then ([], fs)
      else let already = surfaced_load (rv_surfaced env) faults agent_id session_id fs;
               limit = max (rv_limit env) 1;
               recall_limit = (case rv_selector env of None \<Rightarrow> limit | Some _ \<Rightarrow> limit * 3);
               notes = (case recall search message \<lparr>rc_already_surfaced = already, rc_recent_tools = rv_tools env, rc_limit = recall_limit\<rparr> of
                          Inl _ \<Rightarrow> [] | Inr ns \<Rightarrow> ns);
               notes' = (case rv_selector env of
                   Some (router, from_str, model_ref) \<Rightarrow> recall_select router from_str model_ref message notes limit
                 | None \<Rightarrow> take limit notes)
           in (notes', surfaced_append (rv_surfaced env) faults stamp agent_id session_id (map mn_id notes') fs))"

text \<open>Extraction of facts from a finished turn. Instants are in nanoseconds.\<close>

definition EXTRACT_SYSTEM_PROMPT :: string where
  "EXTRACT_SYSTEM_PROMPT = ''You extract durable, long-term facts from a conversation turn for an agent'' @ [CHR 0x27] @ ''s memory. Return ONLY a JSON array of short strings, each a single fact worth remembering (user preferences, project decisions, recurring constraints). Skip ephemeral chatter, greetings, and anything already obvious. If nothing is worth remembering, return []. Keep each fact under 200 characters. Example: ['' @ QUOTE @ ''User prefers dark mode'' @ QUOTE @ '','' @ QUOTE @ ''Project deploys to staging on Fridays'' @ QUOTE @ ''].''"

fun extract_role_str :: "ChatRole \<Rightarrow> string" where
  "extract_role_str User = ''user''"
| "extract_role_str Assistant = ''assistant''"
| "extract_role_str Tool = ''tool''"
| "extract_role_str System = ''system''"

definition build_prompt :: "ChatMessage list \<Rightarrow> nat \<Rightarrow> string" where
  "build_prompt messages max_messages =
     (let relevant = filter (\<lambda>m. cm_role m \<noteq> System \<and> trim_str (cm_content m) \<noteq> []) messages
      in concat (map (\<lambda>m. extract_role_str (cm_role m) @ '': '' @ trim_str (cm_content m) @ [LF])
           (drop (length relevant - max_messages) relevant)))"

definition parse_facts :: "(string \<Rightarrow> string list option) \<Rightarrow> string \<Rightarrow> nat \<Rightarrow> string list" where
  "parse_facts from_str text limit =
     take limit (filter (\<lambda>f. f \<noteq> []) (map trim_str (unwrap_or (extract_json_array from_str text) [])))"

definition fact_id :: "(string \<Rightarrow> 64 word) \<Rightarrow> string \<Rightarrow> string \<Rightarrow> string" where
  "fact_id hash agent_id f = ''auto:'' @ agent_id @ '':'' @ hex16 (hash f)"

record AutoExtractor =
  ax_model_ref :: string
  ax_max_messages :: nat
  ax_max_facts_per_turn :: nat
  ax_cooldown_secs :: nat

definition cooldown_allows :: "nat \<Rightarrow> nat \<Rightarrow> string \<Rightarrow> (string \<rightharpoonup> nat) \<Rightarrow> bool \<times> (string \<rightharpoonup> nat)" where
  "cooldown_allows cooldown_secs now agent_id guard =
     (case guard agent_id of
        Some stamp \<Rightarrow> if now - stamp < cooldown_secs * 10 ^ 9 then (False, guard) else (True, guard(agent_id \<mapsto> now))
      | None \<Rightarrow> (True, guard(agent_id \<mapsto> now)))"

type_synonym 'm memory_index = "string \<Rightarrow> string \<Rightarrow> MemoryMeta \<Rightarrow> 'm \<Rightarrow> (MemoryError, unit) result \<times> 'm"

record extract_env =
  xe_router :: llm_router
  xe_from_json :: "string \<Rightarrow> string list option"
  xe_is_match :: "string \<Rightarrow> string \<Rightarrow> bool"
  xe_hash :: "string \<Rightarrow> 64 word"

fun store_facts :: "extract_env \<Rightarrow> 'm memory_index \<Rightarrow> string \<Rightarrow> string \<Rightarrow> string list \<Rightarrow> 'm \<Rightarrow> 'm" where
  "store_facts env index agent_id session_id [] m = m"
| "store_facts env index agent_id session_id (f # facts) m =
     (if contains_secret (xe_is_match env) f then store_facts env index agent_id session_id facts m
      else store_facts env index agent_id session_id facts
             (snd (index (fact_id (xe_hash env) agent_id f) f
                (default_MemoryMeta\<lparr>mm_source := Some session_id, mm_kind := Some ''episodic''\<rparr>) m)))"

definition extract_run ::
  "extract_env \<Rightarrow> 'm memory_index \<Rightarrow> AutoExtractor \<Rightarrow> nat \<Rightarrow> string \<Rightarrow> string \<Rightarrow> ChatMessage list \<Rightarrow>
     (string \<rightharpoonup> nat) \<times> 'm \<Rightarrow> (string \<rightharpoonup> nat) \<times> 'm" where
  "extract_run env index ax now agent_id session_id messages = (\<lambda>(guard, m).
     (let (allowed, guard') = cooldown_allows (ax_cooldown_secs ax) now agent_id guard
      in if \<not> allowed then (guard', m)
         else let prompt = build_prompt messages (ax_max_messages ax)
              in if prompt = [] then (guard', m)
                 else case chat_text_with_timeout (xe_router env) (ax_model_ref ax)
                        (ChatRequest_new (ax_model_ref ax) [ChatMessage_system EXTRACT_SYSTEM_PROMPT, ChatMessage_user prompt]) of
                   None \<Rightarrow> (guard', m)
                 | Some text \<Rightarrow>
                     (guard', store_facts env index agent_id session_id
                        (parse_facts (xe_from_json env) text (ax_max_facts_per_turn ax)) m)))"

subsection \<open>Recall\<close>

text \<open>The recalls of the turns of a session, one after the other.\<close>

record recall_input =
  ri_env :: recall_env
  ri_search :: "string \<Rightarrow> nat \<Rightarrow> (MemoryError, MemoryNote list) result"
  ri_stamp :: "nat \<times> nat"
  ri_message :: string

definition no_faults :: faults where
  "no_faults = (\<lambda>_. None)"

fun recall_turns :: "string \<Rightarrow> string \<Rightarrow> recall_input list \<Rightarrow> files \<Rightarrow> MemoryNote list list" where
  "recall_turns agent_id session_id [] fs = []"
| "recall_turns agent_id session_id (t # ts) fs =
     (let (notes, fs') = recall_turn (ri_env t) (ri_search t) no_faults (ri_stamp t) agent_id session_id (ri_message t) fs
      in notes # recall_turns agent_id session_id ts fs')"

lemma finite_load [simp]: "finite (surfaced_load env faults a k fs)"
  by (auto simp: surfaced_load_def split: sum.splits)

lemma load_append:
  assumes "\<And>ids. se_from_json env (se_to_json env ids) = Some ids"
  shows "surfaced_load env no_faults a k (surfaced_append env no_faults stamp a k ids fs) = surfaced_load env no_faults a k fs \<union> set ids"
proof -
  let ?p = "surfaced_path env a k" and ?old = "surfaced_load env no_faults a k fs"
  consider "ids = []" | "ids \<noteq> []" "card (?old \<union> set ids) = card ?old" | "ids \<noteq> []" "card (?old \<union> set ids) \<noteq> card ?old" by blast
  then show ?thesis
  proof cases
    case 2
    then have "?old \<union> set ids = ?old" by (metis card_subset_eq finite_Un finite_load finite_set Un_upper1)
    with 2 show ?thesis by (simp add: surfaced_append_def Let_def)
  next
    case 3
    let ?text = "se_to_json env (sorted_list_of_set (?old \<union> set ids))"
    obtain r fs' where w: "atomic_write no_faults stamp ?p ?text fs = (r, fs')" by fastforce
    have "r = Inr ()" using w by (auto simp: atomic_write_def fs_write_def fs_rename_def no_faults_def Let_def)
    then have "fs_read no_faults ?p fs' = Inr ?text"
      using atomic_write_read [of no_faults stamp ?p ?text fs "()" fs' no_faults] w by (simp add: no_faults_def)
    moreover have "surfaced_append env no_faults stamp a k ids fs = fs'"
      using 3 w by (simp add: surfaced_append_def Let_def fs_create_dir_all_def no_faults_def)
    moreover have "surfaced_load env no_faults a k fs' = set (sorted_list_of_set (?old \<union> set ids))"
      if "fs_read no_faults ?p fs' = Inr ?text"
      using that unfolding surfaced_load_def [of env no_faults a k fs'] by (simp only: sum.case assms unwrap_or.simps)
    ultimately show ?thesis by simp
  qed (simp add: surfaced_append_def)
qed

lemma recall_spec:
  assumes "recall search query ctx = Inr ns"
  obtains found k where "search query k = Inr found" "set (map mn_id ns) \<subseteq> set (map mn_id found)"
    "distinct (map mn_id found) \<longrightarrow> distinct (map mn_id ns)"
    "\<forall>n\<in>set ns. recall_keeps ctx n" "length ns \<le> max (rc_limit ctx) 1"
proof -
  obtain k found where f: "search query k = Inr found"
    "ns = take (max (rc_limit ctx) 1) (sort_key (\<lambda>n. - mn_score n) (filter (recall_keeps ctx) (map reweigh found)))"
    using assms by (auto simp: recall_def Let_def memory_simps)
  have ids: "map mn_id (map reweigh found) = map mn_id found" by (simp add: reweigh_def)
  let ?all = "sort_key (\<lambda>n. - mn_score n) (filter (recall_keeps ctx) (map reweigh found))"
  have "distinct (map mn_id ?all)" if "distinct (map mn_id found)"
  proof -
    have "distinct (map mn_id (filter (recall_keeps ctx) (map reweigh found)))" using that ids by (metis distinct_map_filter)
    then show ?thesis by (simp add: distinct_map)
  qed
  then have d: "distinct (map mn_id found) \<longrightarrow> distinct (map mn_id ns)" using f(2) by (metis distinct_take take_map)
  have "set ns \<subseteq> set ?all" using f(2) set_take_subset [of "max (rc_limit ctx) 1" ?all] by simp
  then have "set ns \<subseteq> set (filter (recall_keeps ctx) (map reweigh found))" by simp
  then have keep: "\<forall>n\<in>set ns. recall_keeps ctx n" and sub: "set (map mn_id ns) \<subseteq> set (map mn_id found)" by (auto simp: reweigh_def)
  have len: "length ns \<le> max (rc_limit ctx) 1" by (simp add: f(2))
  show thesis by (rule that [OF f(1) sub d keep len])
qed

lemma recall_select_distinct:
  assumes "distinct (map mn_id candidates)"
  shows "distinct (map mn_id (recall_select router from_str model_ref query candidates limit))"
proof -
  have "distinct (map (\<lambda>i. mn_id (candidates ! i)) is)" if "distinct is" "set is \<subseteq> {..<length candidates}" for "is"
  proof -
    have "inj_on (\<lambda>i. mn_id (candidates ! i)) {..<length candidates}"
      using assms by (auto simp: inj_on_def distinct_conv_nth)
    with that show ?thesis by (auto simp: distinct_map intro: inj_on_subset)
  qed
  note sel = this
  have "distinct (map mn_id (map ((!) candidates) (take limit (filter (\<lambda>i. i < length candidates) (first_occurrences js)))))" for js
    unfolding map_map comp_def by (rule sel) (auto dest!: in_set_takeD)
  moreover have "distinct (map mn_id (take limit candidates))" using assms by (metis distinct_take take_map)
  ultimately show ?thesis by (auto simp: recall_select_eq Let_def split: option.splits)
qed

lemma recall_turn_spec:
  assumes turn: "recall_turn env search no_faults stamp a k message fs = (ns, fs')"
    and rt: "\<And>ids. se_from_json (rv_surfaced env) (se_to_json (rv_surfaced env) ids) = Some ids"
    and dist: "\<forall>q n found. search q n = Inr found \<longrightarrow> distinct (map mn_id found)"
  shows "distinct (map mn_id ns)" "set (map mn_id ns) \<inter> surfaced_load (rv_surfaced env) no_faults a k fs = {}"
    "set (map mn_id ns) \<inter> set (rv_tools env) = {}" "length ns \<le> rv_limit env"
    "surfaced_load (rv_surfaced env) no_faults a k fs' = surfaced_load (rv_surfaced env) no_faults a k fs \<union> set (map mn_id ns)"
proof -
  let ?already = "surfaced_load (rv_surfaced env) no_faults a k fs"
  let ?ctx = "\<lambda>l. \<lparr>rc_already_surfaced = ?already, rc_recent_tools = rv_tools env, rc_limit = l\<rparr>"
  have all: "distinct (map mn_id ns) \<and> set (map mn_id ns) \<inter> ?already = {} \<and> set (map mn_id ns) \<inter> set (rv_tools env) = {} \<and>
     length ns \<le> rv_limit env \<and> surfaced_load (rv_surfaced env) no_faults a k fs' = ?already \<union> set (map mn_id ns)"
  proof (cases "rv_limit env = 0")
    case True
    then show ?thesis using turn by (auto simp: recall_turn_def)
  next
    case False
    define l where "l = (case rv_selector env of None \<Rightarrow> rv_limit env | Some _ \<Rightarrow> rv_limit env * 3)"
    define cands where "cands = (case recall search message (?ctx l) of Inl _ \<Rightarrow> [] | Inr ns \<Rightarrow> ns)"
    have cands: "distinct (map mn_id cands)" "\<forall>n\<in>set cands. recall_keeps (?ctx l) n"
    proof -
      have "distinct (map mn_id cands) \<and> (\<forall>n\<in>set cands. recall_keeps (?ctx l) n)"
      proof (cases "recall search message (?ctx l)")
        case (Inr cs)
        then show ?thesis using recall_spec [OF Inr] dist by (metis cands_def sum.case(2))
      qed (simp add: cands_def)
      then show "distinct (map mn_id cands)" "\<forall>n\<in>set cands. recall_keeps (?ctx l) n" by auto
    qed
    have ns: "ns = (case rv_selector env of Some (router, from_str, model_ref) \<Rightarrow> recall_select router from_str model_ref message cands (rv_limit env)
        | None \<Rightarrow> take (rv_limit env) cands)"
      and fs': "fs' = surfaced_append (rv_surfaced env) no_faults stamp a k (map mn_id ns) fs"
    proof -
      have mx: "max (rv_limit env) 1 = rv_limit env" using False by simp
      show "ns = (case rv_selector env of Some (router, from_str, model_ref) \<Rightarrow> recall_select router from_str model_ref message cands (rv_limit env)
        | None \<Rightarrow> take (rv_limit env) cands)"
        "fs' = surfaced_append (rv_surfaced env) no_faults stamp a k (map mn_id ns) fs"
        using turn False unfolding recall_turn_def Let_def cands_def l_def mx by auto
    qed
    have "distinct (map mn_id ns)" "set ns \<subseteq> set cands" "length ns \<le> rv_limit env"
      using cands(1) recall_select_distinct recall_select_subset
      by (auto simp: ns take_map [symmetric] dest: in_set_takeD split: option.splits)
    then show ?thesis using cands(2) load_append [OF rt] by (auto simp: fs' recall_keeps_def)
  qed
  then show "distinct (map mn_id ns)" "set (map mn_id ns) \<inter> ?already = {}"
    "set (map mn_id ns) \<inter> set (rv_tools env) = {}" "length ns \<le> rv_limit env"
    "surfaced_load (rv_surfaced env) no_faults a k fs' = ?already \<union> set (map mn_id ns)" by auto
qed

text \<open>C24. The recall at the start of a turn surfaces a memory once in a session. Over any sequence of turns of a session whose
  files can be read and written, with searches that return no id twice and a JSON text that reads back, these recalls hand no
  memory to the prompt assembly twice, and none that was surfaced before the first of these turns, whatever the searches and the
  re-ranking model answer. The second recall of the program, that of the reattachments after a compaction, is not part of this: it
  ignores the surfaced set and can repeat a memory.\<close>

theorem memories_surface_once:
  assumes rt: "\<And>ids. se_from_json se (se_to_json se ids) = Some ids"
    and dist: "\<And>t q n found. t \<in> set turns \<Longrightarrow> ri_search t q n = Inr found \<Longrightarrow> distinct (map mn_id found)"
    and se: "\<And>t. t \<in> set turns \<Longrightarrow> rv_surfaced (ri_env t) = se"
  shows "distinct (map mn_id (concat (recall_turns a k turns fs))) \<and>
    set (map mn_id (concat (recall_turns a k turns fs))) \<inter> surfaced_load se no_faults a k fs = {}"
  using dist se
proof (induction turns arbitrary: fs)
  case (Cons t turns)
  obtain ns fs' where turn: "recall_turn (ri_env t) (ri_search t) no_faults (ri_stamp t) a k (ri_message t) fs = (ns, fs')" by fastforce
  have env: "rv_surfaced (ri_env t) = se" using Cons.prems(2) by simp
  have dt: "\<forall>q n found. ri_search t q n = Inr found \<longrightarrow> distinct (map mn_id found)"
    using Cons.prems(1) [OF list.set_intros(1)] by blast
  have rt': "se_from_json (rv_surfaced (ri_env t)) (se_to_json (rv_surfaced (ri_env t)) ids) = Some ids" for ids
    by (simp add: env rt)
  note spec = recall_turn_spec [OF turn rt' dt, unfolded env]
  have "distinct (map mn_id (concat (recall_turns a k turns fs'))) \<and>
      set (map mn_id (concat (recall_turns a k turns fs'))) \<inter> surfaced_load se no_faults a k fs' = {}"
    using Cons.prems by (intro Cons.IH) auto
  then have rest: "distinct (map mn_id (concat (recall_turns a k turns fs')))"
     "set (map mn_id (concat (recall_turns a k turns fs'))) \<inter> (surfaced_load se no_faults a k fs \<union> set (map mn_id ns)) = {}"
    using spec(5) by auto
  have "recall_turns a k (t # turns) fs = ns # recall_turns a k turns fs'" using turn by simp
  then show ?case using rest spec(1,2) by (simp only: concat.simps map_append distinct_append set_append) blast
qed simp

text \<open>A coding of lists of strings that reads back, for the concrete session.\<close>

fun ids_text :: "string list \<Rightarrow> string" where
  "ids_text [] = []"
| "ids_text ([] # ids) = CHR ''0'' # ids_text ids"
| "ids_text ((c # s) # ids) = CHR ''1'' # c # ids_text (s # ids)"

fun text_ids :: "string \<Rightarrow> string \<Rightarrow> string list" where
  "text_ids acc (b # rest) =
     (if b = CHR ''0'' then acc # text_ids [] rest else case rest of [] \<Rightarrow> [] | c # rest' \<Rightarrow> text_ids (acc @ [c]) rest')"
| "text_ids acc [] = []"

lemma text_ids_inverse: "text_ids acc (ids_text (s # ids)) = (acc @ s) # text_ids [] (ids_text ids)"
  by (induction s arbitrary: acc) auto

lemma ids_text_inverse: "text_ids [] (ids_text ids) = ids"
  by (induction ids) (auto simp: text_ids_inverse)

definition toy_surfaced :: surfaced_env where
  "toy_surfaced = \<lparr>se_base_dir = ''/l'', se_hash = (\<lambda>_. 1), se_to_json = ids_text, se_from_json = (\<lambda>t. Some (text_ids [] t))\<rparr>"

definition toy_turn :: recall_input where
  "toy_turn = \<lparr>ri_env = \<lparr>rv_surfaced = toy_surfaced, rv_limit = 1, rv_tools = [''exec''], rv_selector = None\<rparr>,
     ri_search = (\<lambda>_ _. Inr [\<lparr>mn_id = ''a'', mn_content = ''x'', mn_score = 1, mn_kind = None\<rparr>,
        \<lparr>mn_id = ''b'', mn_content = ''y'', mn_score = 1 / 2, mn_kind = Some Episodic\<rparr>]),
     ri_stamp = (1, 2), ri_message = ''hi''\<rparr>"

theorem memories_surface_once_witness:
  "distinct (map mn_id (concat (recall_turns ''m'' ''k'' [toy_turn, toy_turn] Map.empty)))"
proof -
  have rt: "se_from_json toy_surfaced (se_to_json toy_surfaced ids) = Some ids" for ids
    by (simp add: toy_surfaced_def ids_text_inverse)
  have dist: "distinct (map mn_id found)" if "t \<in> set [toy_turn, toy_turn]" "ri_search t q n = Inr found" for t q n found
    using that by (auto simp: toy_turn_def)
  have env: "rv_surfaced (ri_env t) = toy_surfaced" if "t \<in> set [toy_turn, toy_turn]" for t
    using that by (auto simp: toy_turn_def)
  show ?thesis by (rule conjunct1 [OF memories_surface_once [OF rt dist env]])
qed

text \<open>The recall of the reattachments passes an empty surfaced set and records nothing: the note the turn surfaced
  is put into the prompt a second time when the turn compacts, although the session's surfaced set holds its id.\<close>

definition toy_session :: "files SessionContext" where
  "toy_session = \<lparr>sc_viewed_files = (\<lambda>_. []), sc_active_skills = [], sc_definitions = [],
     sc_memory_backend = Some (\<lambda>query ctx fs. (recall (ri_search toy_turn) query ctx, fs))\<rparr>"

theorem reattachment_repeats_memory:
  "case recall_turn (ri_env toy_turn) (ri_search toy_turn) no_faults (1, 2) ''m'' ''k'' ''hi'' Map.empty of
     (notes, fs) \<Rightarrow> map mn_content notes = [''x''] \<and> surfaced_load toy_surfaced no_faults ''m'' ''k'' fs = {''a''} \<and>
       build_reattachments toy_session ''hi'' fs = (Inr [RecalledMemory [''x'', ''y'']], fs)"
proof -
  have rt: "se_from_json toy_surfaced (se_to_json toy_surfaced ids) = Some ids" for ids
    by (simp add: toy_surfaced_def ids_text_inverse)
  have none: "surfaced_load toy_surfaced no_faults ''m'' ''k'' Map.empty = {}"
    by (simp add: surfaced_load_def fs_read_def no_faults_def)
  let ?n = "\<lparr>mn_id = ''a'', mn_content = ''x'', mn_score = 1, mn_kind = None\<rparr>"
  have "recall_turn (ri_env toy_turn) (ri_search toy_turn) no_faults (1, 2) ''m'' ''k'' ''hi'' Map.empty =
      ([?n], surfaced_append toy_surfaced no_faults (1, 2) ''m'' ''k'' [''a''] Map.empty)"
    by (simp add: recall_turn_def toy_turn_def recall_def none reweigh_def recall_keeps_def memory_simps Let_def)
  moreover have "surfaced_load toy_surfaced no_faults ''m'' ''k'' (surfaced_append toy_surfaced no_faults (1, 2) ''m'' ''k'' [''a''] Map.empty) = {''a''}"
    by (simp add: load_append [OF rt] none)
  moreover have "build_reattachments toy_session ''hi'' fs = (Inr [RecalledMemory [''x'', ''y'']], fs)" for fs
    by (simp add: build_reattachments_def toy_session_def toy_turn_def recall_def reweigh_def recall_keeps_def memory_simps
        recalled_reattachment_def Let_def)
  ultimately show ?thesis by simp
qed

subsection \<open>Extraction\<close>

text \<open>What the extractor relies on: indexing an entry adds no text but that of the entry.\<close>

locale memory_sink =
  fixes index :: "'m memory_index" and contents :: "'m \<Rightarrow> string set"
  assumes index_adds: "contents (snd (index i content meta m)) \<subseteq> insert content (contents m)"
begin

lemma store_facts_contents:
  "contents (store_facts env index a k facts m) \<subseteq> contents m \<union> {f \<in> set facts. \<not> contains_secret (xe_is_match env) f}"
proof (induction facts arbitrary: m)
  case (Cons f facts)
  show ?case
  proof (cases "contains_secret (xe_is_match env) f")
    case True
    then show ?thesis using Cons.IH [of m] by auto
  next
    case False
    let ?m = "snd (index (fact_id (xe_hash env) a f) f (default_MemoryMeta\<lparr>mm_source := Some k, mm_kind := Some ''episodic''\<rparr>) m)"
    have "contents ?m \<subseteq> insert f (contents m)" by (rule index_adds)
    then show ?thesis using False Cons.IH [of ?m] by auto
  qed
qed simp

lemma extract_run_contents:
  "contents (snd (extract_run env index ax now a k messages st)) \<subseteq>
     contents (snd st) \<union> {f. f \<noteq> [] \<and> trim_str f = f \<and> \<not> contains_secret (xe_is_match env) f}"
proof -
  have "set (parse_facts from_str answer limit) \<subseteq> {f. f \<noteq> [] \<and> trim_str f = f}" for from_str answer limit
    by (auto simp: parse_facts_def trim_str_idem dest!: in_set_takeD)
  then have facts: "contents (store_facts env index a k (parse_facts (xe_from_json env) answer limit) m) \<subseteq>
      contents m \<union> {f. f \<noteq> [] \<and> trim_str f = f \<and> \<not> contains_secret (xe_is_match env) f}" for answer limit m
    using store_facts_contents [of env a k "parse_facts (xe_from_json env) answer limit" m] by blast
  obtain guard m where st: "st = (guard, m)" by fastforce
  show ?thesis unfolding st extract_run_def Let_def using facts by (auto split: option.splits prod.splits)
qed

end

definition db_contents :: "memory_db \<Rightarrow> string set" where
  "db_contents db = dr_content ` set (md_documents db)"

interpretation sqlite_sink: memory_sink "index_with_meta env" db_contents for env
proof
  fix i content meta db
  obtain res db' where run: "index_with_meta env i content meta db = (res, db')" by fastforce
  then show "db_contents (snd (index_with_meta env i content meta db)) \<subseteq> insert content (db_contents db)"
  proof (cases rule: index_cases)
    case (indexed mj emb)
    then show ?thesis
      using run by (auto simp: db_contents_def indexed_def upsert_document_def insert_vec_def delete_vec_def insert_fts_def delete_fts_def
          Let_def split: option.splits)
  qed (use run in auto)
qed

record extract_input =
  xi_now :: nat
  xi_agent :: string
  xi_session :: string
  xi_messages :: "ChatMessage list"

definition extract_runs ::
  "extract_env \<Rightarrow> memory_env \<Rightarrow> AutoExtractor \<Rightarrow> extract_input list \<Rightarrow> (string \<rightharpoonup> nat) \<times> memory_db \<Rightarrow> (string \<rightharpoonup> nat) \<times> memory_db" where
  "extract_runs env menv ax runs st =
     fold (\<lambda>x. extract_run env (index_with_meta menv) ax (xi_now x) (xi_agent x) (xi_session x) (xi_messages x)) runs st"

text \<open>C25. No secret gets into the memory. Whatever the model answers, after any number of extraction runs every document of the store has a
  text that was there before, or a trimmed text, not empty, in which no word of the secret patterns occurs.\<close>

theorem extraction_stores_no_secret:
  assumes doc: "documented (xe_is_match env)" and d: "d \<in> set (md_documents (snd (extract_runs env menv ax runs (guard, db))))"
  shows "dr_content d \<in> db_contents db \<or>
    dr_content d \<noteq> [] \<and> trim_str (dr_content d) = dr_content d \<and> \<not> (\<exists>r\<in>set RULES. \<exists>w\<in>lang r. sublist w (dr_content d))"
proof -
  let ?new = "{f. f \<noteq> [] \<and> trim_str f = f \<and> \<not> contains_secret (xe_is_match env) f}"
  have "db_contents (snd (extract_runs env menv ax runs st)) \<subseteq> db_contents (snd st) \<union> ?new" for st
  proof (induction runs arbitrary: st)
    case (Cons x runs)
    let ?st = "extract_run env (index_with_meta menv) ax (xi_now x) (xi_agent x) (xi_session x) (xi_messages x) st"
    have "db_contents (snd ?st) \<subseteq> db_contents (snd st) \<union> ?new" by (rule sqlite_sink.extract_run_contents)
    with Cons.IH [of ?st] show ?case by (auto simp: extract_runs_def)
  qed (simp add: extract_runs_def)
  from this [of "(guard, db)"] d show ?thesis by (auto simp: db_contents_def secret_iff [OF doc])
qed

definition toy_extract :: extract_env where
  "toy_extract = \<lparr>xe_router = (\<lambda>_ _. CallStream [Inr \<lparr>cc_index = 0, cc_delta = ''[x]'', cc_finish_reason = None, cc_tool_calls = None\<rparr>]),
     xe_from_json = (\<lambda>_. Some ['' likes tea '']), xe_is_match = rx_match, xe_hash = (\<lambda>_. 7)\<rparr>"

definition toy_extractor :: AutoExtractor where
  "toy_extractor = \<lparr>ax_model_ref = ''m'', ax_max_messages = 4, ax_max_facts_per_turn = 2, ax_cooldown_secs = 60\<rparr>"

definition toy_input :: extract_input where
  "toy_input = \<lparr>xi_now = 5, xi_agent = ''a'', xi_session = ''s'', xi_messages = [ChatMessage_user ''I like tea'']\<rparr>"

definition toy_row :: doc_row where
  "toy_row = \<lparr>dr_rowid = 3, dr_id = fact_id (\<lambda>_. 7) ''a'' ''likes tea'', dr_content = ''likes tea'', dr_path = Some ''s'',
     dr_created = 100, dr_meta = ''episodic''\<rparr>"

lemma toy_trims: "trim_str ''I like tea'' = ''I like tea''" "trim_str '' likes tea '' = ''likes tea''"
  by (simp_all add: trim_str_def trim_start_def trim_end_def is_whitespace_def)

lemma toy_not_secret: "\<not> contains_secret rx_match ''likes tea''"
  by code_simp

lemma toy_extracted:
  "md_documents (snd (extract_runs toy_extract toy_env toy_extractor [toy_input] (Map.empty, toy_db))) = md_documents toy_db @ [toy_row]"
proof -
  have "extract_json_array (xe_from_json toy_extract) ''[x]'' = Some ['' likes tea '']"
    by (simp add: extract_json_array_def toy_extract_def rfind_char_def)
  then have facts: "parse_facts (xe_from_json toy_extract) ''[x]'' 2 = [''likes tea'']"
    by (simp add: parse_facts_def toy_trims)
  have chat: "chat_text_with_timeout (xe_router toy_extract) m r = Some ''[x]''" for m r
    by (simp add: chat_text_with_timeout_def toy_extract_def)
  have prompt: "build_prompt [ChatMessage_user ''I like tea''] 4 \<noteq> []"
    by (simp add: build_prompt_def ChatMessage_user_def plain_message_def toy_trims)
  show ?thesis using toy_not_secret prompt
    by (simp add: extract_runs_def extract_run_def toy_input_def toy_extractor_def cooldown_allows_def facts chat Let_def)
      (simp add: toy_extract_def toy_env_def toy_db_def index_with_meta_def transact_def index_tx_def sql_def upsert_document_def
        find_document_def next_rowid_def fact_id_def hex16_def Let_def default_MemoryMeta_def toy_row_def insert_vec_def delete_vec_def insert_fts_def delete_fts_def)
qed

theorem extraction_stores_no_secret_witness:
  "documented (xe_is_match toy_extract) \<and>
   toy_row \<in> set (md_documents (snd (extract_runs toy_extract toy_env toy_extractor [toy_input] (Map.empty, toy_db)))) \<and>
   dr_content toy_row = ''likes tea'' \<and> \<not> (\<exists>r\<in>set RULES. \<exists>w\<in>lang r. sublist w (dr_content toy_row))"
proof -
  have doc: "documented (xe_is_match toy_extract)" by (simp add: toy_extract_def rx_match_documented)
  have row: "toy_row \<in> set (md_documents (snd (extract_runs toy_extract toy_env toy_extractor [toy_input] (Map.empty, toy_db))))"
    unfolding toy_extracted by simp
  have "dr_content toy_row \<notin> db_contents toy_db" by (simp add: db_contents_def toy_db_def toy_row_def)
  then show ?thesis using extraction_stores_no_secret [OF doc row] doc row by (simp add: toy_row_def)
qed

text \<open>The instants at which an agent gets past the cooldown, for runs asked for at given instants.\<close>

fun allowed_at :: "nat \<Rightarrow> string \<Rightarrow> (nat \<times> string) list \<Rightarrow> (string \<rightharpoonup> nat) \<Rightarrow> nat list" where
  "allowed_at secs agent [] guard = []"
| "allowed_at secs agent ((now, a) # rest) guard =
     (let (ok, guard') = cooldown_allows secs now a guard
      in (if ok \<and> a = agent then [now] else []) @ allowed_at secs agent rest guard')"

lemma allowed_after:
  "sorted (map fst reqs) \<Longrightarrow> guard agent = Some t \<Longrightarrow> \<forall>r\<in>set reqs. t \<le> fst r \<Longrightarrow>
     sorted_wrt (\<lambda>a b. a + secs * 10 ^ 9 \<le> b) (t # allowed_at secs agent reqs guard)"
proof (induction secs agent reqs guard arbitrary: t rule: allowed_at.induct)
  case (2 secs agent now a rest guard)
  obtain ok guard' where c: "cooldown_allows secs now a guard = (ok, guard')" by fastforce
  show ?case
  proof (cases "ok \<and> a = agent")
    case True
    then have g: "guard' agent = Some now" "t + secs * 10 ^ 9 \<le> now"
      using c "2.prems" by (auto simp: cooldown_allows_def split: option.splits if_splits)
    have "sorted_wrt (\<lambda>a b. a + secs * 10 ^ 9 \<le> b) (now # allowed_at secs agent rest guard')"
      using "2.IH" [OF c [symmetric] refl] "2.prems" g(1) c by auto
    then show ?thesis using True g(2) c by auto
  next
    case False
    then have "guard' agent = Some t" using c "2.prems" by (auto simp: cooldown_allows_def split: option.splits if_splits)
    then show ?thesis using "2.IH" [OF c [symmetric] refl] "2.prems" False c by auto
  qed
qed simp

text \<open>Extraction respects its cooldown: if runs are asked for at non-decreasing instants, the runs of an agent that are let through are at least the
  cooldown apart, whatever runs of other agents come in between.\<close>

theorem extraction_cooldown:
  assumes "sorted (map fst reqs)"
  shows "sorted_wrt (\<lambda>a b. a + secs * 10 ^ 9 \<le> b) (allowed_at secs agent reqs Map.empty)"
proof -
  have "sorted_wrt (\<lambda>a b. a + secs * 10 ^ 9 \<le> b) (allowed_at secs agent reqs guard)" if "guard agent = None" for guard
    using assms that
  proof (induction secs agent reqs guard rule: allowed_at.induct)
    case (2 secs agent now a rest guard)
    obtain ok guard' where c: "cooldown_allows secs now a guard = (ok, guard')" by fastforce
    show ?case
    proof (cases "a = agent")
      case True
      then have "ok" "guard' agent = Some now" using c "2.prems"(2) by (auto simp: cooldown_allows_def)
      then show ?thesis using True c allowed_after [of rest guard' agent now secs] "2.prems"(1) by simp
    next
      case False
      then have "guard' agent = None" using c "2.prems"(2) by (auto simp: cooldown_allows_def split: option.splits if_splits)
      then show ?thesis using False c "2.IH" [OF c [symmetric] refl] "2.prems"(1) by simp
    qed
  qed simp
  then show ?thesis by simp
qed

theorem extraction_cooldown_witness:
  "sorted (map fst [(0::nat, ''a''), (5, ''b''), (10 ^ 9 * 2, ''a'')]) \<and>
   sorted_wrt (\<lambda>a b. a + 1 * 10 ^ 9 \<le> b) (allowed_at 1 ''a'' [(0, ''a''), (5, ''b''), (10 ^ 9 * 2, ''a'')] Map.empty)"
  using extraction_cooldown [of "[(0, ''a''), (5, ''b''), (10 ^ 9 * 2, ''a'')]" 1 "''a''"] by simp

end
