(* ===== verification/Spec2Isabelle.thy ===== *)
theory Spec2Isabelle
  imports Gateway_Auth Question_Gate Run_Loop Channel_Inbound Session_Tools Turn Provider_Router
    Provider_Streams Sigv4 Flow Cron Swarm Event_Bus
    Background_Tasks Memory_Recall
begin

text \<open>
  \<^bold>\<open>Legion\<close> is a multi-agent assistant written in Rust. A message reaches it through a channel, the
  gateway, the command line or the scheduler; it is routed to an agent and a session; the agent loop
  then alternates calls of a language model with calls of tools until the model answers, and the
  turn is streamed back and appended to the transcript of the session. This library models the parts
  of the program that decide what happens (all under \<^verbatim>\<open>src/crates/\<close>) and proves the properties that
  make them correct. Components are listed in the order in which a message meets them.

  \<^bold>\<open>Conventions.\<close> A struct is a record, an enum a datatype, a fallible function returns a sum
  (\<^verbatim>\<open>Inl\<close> the error), a method that mutates returns the new state, machine integers whose overflow
  matters are words. Strings are the bytes of their UTF-8 text (\<^verbatim>\<open>Legion_Prelude\<close>). The file system is a map
  from paths to contents, with a fault function that says which operation fails and how
  (\<^verbatim>\<open>File_Store\<close>). Third-party code is a parameter: the model provider, the registered tools, the tokenizer, the JSON
  text of a value, the cron-expression library, the MAC, the clock. Tasks that run concurrently
  are modelled by explicit schedules or by step relations whose steps are the sections of the source
  that hold a lock.

  \<^bold>\<open>Reaching the program.\<close>
  \<^item> \<^verbatim>\<open>Session_Key\<close> (plugin-sdk \<^verbatim>\<open>session_key.rs\<close>, \<^verbatim>\<open>channel.rs\<close>), \<^verbatim>\<open>Agent_Routing\<close> (host \<^verbatim>\<open>routing.rs\<close>): session keys
    parse back to their parts; the first matching binding decides the agent.
  \<^item> \<^verbatim>\<open>Channel_Access\<close> (channel \<^verbatim>\<open>access.rs\<close>): access is closed by default; the bot-loop guard with its bounded
    queue refines a specification over the whole history.
  \<^item> \<^verbatim>\<open>Gateway_Auth\<close> (gateway \<^verbatim>\<open>pairing.rs\<close>, \<^verbatim>\<open>websocket.rs\<close>): pairing tokens, and admission of connections: on a public address an id is
    admitted only after somebody presented the secret for it.
  \<^item> \<^verbatim>\<open>Event_Bus\<close> (gateway \<^verbatim>\<open>events.rs\<close>, protocol \<^verbatim>\<open>harness.rs\<close>): clients that watch a session. The bus, the handshake and the
    request loop are the steps of an interleaving with the runs; an attached client is sent exactly the published
    events in order until it lags by the capacity of its channel, and no subscription outlives its client.
  \<^item> \<^verbatim>\<open>Channel_Inbound\<close> (host \<^verbatim>\<open>channel_inbound.rs\<close>): what happens to an inbound message and how the reply is made.

  \<^bold>\<open>The turn.\<close>
  \<^item> \<^verbatim>\<open>Chat_Types\<close>, \<^verbatim>\<open>Run_Types\<close>: messages, requests, stream chunks, run events, token estimates.
  \<^item> \<^verbatim>\<open>Run_Loop\<close> (runtime \<^verbatim>\<open>run_loop.rs\<close>, \<^verbatim>\<open>context.rs\<close>): the agent loop. It is run with fuel, one unit per iteration: a capped
    run is shown to end within its cap, so that fuel above the cap is enough. The retry on over-long prompts
    makes at most three attempts, as in the source.
  \<^item> \<^verbatim>\<open>Tool_Pipeline\<close> (\<^verbatim>\<open>tool_pipeline.rs\<close>), \<^verbatim>\<open>Tool_Policy\<close>, \<^verbatim>\<open>Approval_Gate\<close>, \<^verbatim>\<open>Prompt_Queue\<close>, \<^verbatim>\<open>Question_Gate\<close>, \<^verbatim>\<open>Plan_Mode\<close>:
    the stages of a tool call. A call that is not authorised never runs; every call is executed and answered once and
    in order for every schedule of the concurrent batches, where a panic is the result of a concurrent call and the end of the run in a sequential one; the approval gate fails closed in every interleaving.
  \<^item> \<^verbatim>\<open>Todo\<close>, \<^verbatim>\<open>Goal\<close>: the two gates a run has to pass before it ends, with their stores and tools.
  \<^item> \<^verbatim>\<open>Session_Context\<close> (\<^verbatim>\<open>context.rs\<close>): what compaction puts back into the conversation: viewed files, skills, recalled memories and the
    manifest of all registered tools.
  \<^item> \<^verbatim>\<open>Compaction\<close>, \<^verbatim>\<open>Skills\<close>, \<^verbatim>\<open>Model_Ref\<close>: compaction keeps the tail of the conversation; the skill registry;
    alias resolution, whose depth bound of eight is the source's.
  \<^item> \<^verbatim>\<open>Fs_Tools\<close>: the file tools, path confinement and patches.
  \<^item> \<^verbatim>\<open>Sandbox\<close>, \<^verbatim>\<open>Background_Tasks\<close> (tools \<^verbatim>\<open>sandbox/\<close>, \<^verbatim>\<open>registry.rs\<close>, \<^verbatim>\<open>exec.rs\<close>, \<^verbatim>\<open>background_task.rs\<close>): shell commands. The command
    lines of the confining helpers are built and restricted mode starts nothing but the helper with them; a
    background command waited for reports what the foreground command reports.
  \<^item> \<^verbatim>\<open>Session_Store\<close>, \<^verbatim>\<open>Session_Repair\<close>, \<^verbatim>\<open>Session_Tools\<close>, \<^verbatim>\<open>Turn\<close>: the transcript refines an append-only list of entries; a
    resumed history has an answer for every call; a driven run can be resumed from what it stored.

  \<^bold>\<open>Memory.\<close> \<^verbatim>\<open>Memory_Store\<close> (memory \<^verbatim>\<open>backend.rs\<close>, tools \<^verbatim>\<open>memory.rs\<close>): the tables and every SQL statement on them; indexing is atomic and keeps
  the search indexes consistent, rank fusion returns the best ids by summed reciprocal ranks, a merge keeps a representative of all
  it removes. \<^verbatim>\<open>Llm_Select\<close> (runtime \<^verbatim>\<open>llm.rs\<close>, \<^verbatim>\<open>skill_selector.rs\<close>, \<^verbatim>\<open>recall_selector.rs\<close>) are the model calls that choose from a list.
  \<^verbatim>\<open>Secret_Scanner\<close> and \<^verbatim>\<open>Memory_Recall\<close> (\<^verbatim>\<open>secret_scanner.rs\<close>, \<^verbatim>\<open>memory.rs\<close>, \<^verbatim>\<open>surfaced.rs\<close>, \<^verbatim>\<open>auto_extract.rs\<close>): the recall at the start of a turn surfaces a memory once in a
  session (the recall of a compaction does not look at what was surfaced), and the extractor stores no text with a secret.

  \<^bold>\<open>The provider.\<close> \<^verbatim>\<open>Provider_Ops\<close>, \<^verbatim>\<open>Provider_Router\<close> (provider \<^verbatim>\<open>ops.rs\<close>, \<^verbatim>\<open>router.rs\<close>, \<^verbatim>\<open>http.rs\<close>): retries, rate limits (kept by acquisitions that
  do not overlap, overrun by some that do), costs and the fallback chain, tried in the configured order. Waiting for the rate limiter is a loop with fuel computed from the wait limit
  (\<^verbatim>\<open>acquire_fuel\<close>) and shown to return. The adapters: \<^verbatim>\<open>Provider_Wire\<close> (\<^verbatim>\<open>openai.rs\<close>, \<^verbatim>\<open>anthropic.rs\<close>, \<^verbatim>\<open>gemini.rs\<close>) and
  \<^verbatim>\<open>Provider_Streams\<close> (\<^verbatim>\<open>bedrock.rs\<close>, \<^verbatim>\<open>ollama.rs\<close>) build the request bodies and decode the streamed replies: the Anthropic
  body can be read back to the conversation it was built from, answers every tool call of a resumed history, and
  a streamed reply is rebuilt whatever deltas it is cut into. \<^verbatim>\<open>Event_Stream\<close> (\<^verbatim>\<open>eventstream.rs\<close>) is the binary framing of Bedrock: frames
  survive every chunking of the bytes and a damaged byte is rejected by the CRC. \<^verbatim>\<open>Sigv4\<close> (\<^verbatim>\<open>sigv4.rs\<close>) is the request signature, with
  its date arithmetic proved equal to counting the days of the calendar. Serde, the SSE parser, SHA-256 and HMAC are parameters.

  \<^bold>\<open>Other agents and automation.\<close>
  \<^item> \<^verbatim>\<open>Subagent\<close>, \<^verbatim>\<open>Swarm\<close> (runtime \<^verbatim>\<open>subagent.rs\<close>, \<^verbatim>\<open>swarm.rs\<close>): limits on depth and concurrency; teammates, mailboxes
    and supervisors under every interleaving.
  \<^item> \<^verbatim>\<open>Task_Ledger\<close>, \<^verbatim>\<open>Cron\<close>, \<^verbatim>\<open>Flow\<close> (automation \<^verbatim>\<open>tasks.rs\<close>, \<^verbatim>\<open>task_runner.rs\<close>, \<^verbatim>\<open>cron.rs\<close>, \<^verbatim>\<open>flow.rs\<close>): the ledger reopens; a
    poll refines a function on task states and the background loop completes acyclic ledgers; ticks settle due jobs;
    executions of a job exclude each other; webhooks are authenticated; flows run in dependency order.

  \<^bold>\<open>Interfaces.\<close> The contracts between components are locales interpreted on the model's own definitions, e.g. the
  pending-prompt queue shared by the approval and question gates, the task ledger and the cron-job store.

  \<^bold>\<open>Not modelled.\<close> Terminal UI and command line, transports (HTTP, web sockets, child processes, MCP), the
  clients of third-party services (channels, the HTTP side of the providers, search, browser, language servers), telemetry and
  serialization code: they are I/O around the decisions modelled here, and enter as parameters. The prompt
  assembly is a parameter of the agent loop; the recall of memories is modelled beside it.
\<close>

section \<open>Properties across components\<close>

text \<open>The text a list of run events says.\<close>

fun event_text :: "RunEvent \<Rightarrow> string" where
  "event_text (AssistantDelta d) = d"
| "event_text _ = []"

definition said :: "RunEvent list \<Rightarrow> string" where
  "said evs = concat (map event_text evs)"

lemma emit_payload:
  assumes "\<not> is_end_event ev"
  shows "emit_step mid st (run_event_to_payload mv iv rid ev) = (fst st @ event_text ev, snd st)"
  using assms by (cases ev; cases st) (auto simp: emit_step_def Let_def bind_eq_Some_conv split: option.splits elim!: LifecyclePhase_str.elims)

lemma emit_payloads:
  "\<forall>ev\<in>set evs. \<not> is_end_event ev \<Longrightarrow>
     foldl (emit_step mid) st (map (run_event_to_payload mv iv rid) evs) = (fst st @ said evs, snd st)"
proof (induction evs arbitrary: st)
  case (Cons ev evs)
  then show ?case by (simp add: emit_payload said_def)
qed (simp add: said_def)

lemma emit_end:
  "is_end_event ev \<Longrightarrow> emit_step mid (t, r) (run_event_to_payload mv iv rid ev) = (t, if t = [] then r else Some mid)"
  by (cases ev) (auto simp: emit_step_def Let_def split: option.splits)

lemma before_end_not_end: "\<forall>ev\<in>set (before_end stream). \<not> is_end_event ev"
  by (auto simp: before_end_def dest: set_takeWhileD)

lemma collect_frames:
  "collect_reply mid (map (run_event_to_payload mv iv rid)
     (before_end stream @ (case List.find is_end_event (map snd stream) of None \<Rightarrow> [] | Some ev \<Rightarrow> [ev]))) =
   (let t = said (before_end stream)
    in (t, if List.find is_end_event (map snd stream) = None \<or> t = [] then None else Some mid))"
proof (cases "List.find is_end_event (map snd stream)")
  case None
  then show ?thesis by (simp add: collect_reply_def emit_payloads before_end_not_end Let_def)
next
  case (Some ev)
  then have "is_end_event ev" by (auto simp: find_Some_iff)
  with Some show ?thesis by (simp add: collect_reply_def emit_payloads before_end_not_end emit_end Let_def)
qed

lemma strip_think_Nil [simp]: "strip_think_blocks [] = []"
  by (simp add: strip_think_blocks_def strip_think_loop.simps tidy_lines_def str_lines_def trim_str_def trim_start_def trim_end_def)

text \<open>C16. What a channel answers is what the run said, tidied up: when a run has been driven to its end, the reply made from
  the frames it emitted is the concatenated text of its assistant deltas, of which only the characters outside thinking
  blocks are kept (a block that is not closed hides all that follows), and of these only the lines that are not blank, without
  white space at their ends, joined by line feeds, and without white space at the start. It is addressed to the channel, account and peer of the inbound message and
  quotes it if the run ended; there is no reply when nothing is left to say.\<close>

theorem channel_reply_is_what_the_run_said:
  assumes "drive_run_stream (run_event_to_payload mv iv rid) store key content start stream finish fs = (Inr (), fs', frames)"
  shows "outbound_reply msg frames =
    (let reply = trim_start (join_with [LF] (visible_lines (spoken False (said (before_end stream)))))
     in if reply = [] then None
        else Some \<lparr>om_channel = im_channel msg, om_account_id = im_account_id msg, om_peer = im_peer msg,
               om_text = Some reply, om_media = [],
               om_reply_to = (if List.find is_end_event (map snd stream) = None then None else Some (im_message_id msg))\<rparr>)"
proof -
  have "frames = map (run_event_to_payload mv iv rid) (before_end stream @
       (case List.find is_end_event (map snd stream) of None \<Rightarrow> [] | Some ev \<Rightarrow> [ev]))"
    using drive_run_cases [OF assms] by metis
  then have "collect_reply (im_message_id msg) frames =
     (let t = said (before_end stream)
      in (t, if List.find is_end_event (map snd stream) = None \<or> t = [] then None else Some (im_message_id msg)))"
    by (simp only: collect_frames)
  moreover have "reply_shown [] = []" using strip_think_shown [of "[]"] by simp
  ultimately show ?thesis unfolding reply_shown_def [symmetric]
    by (cases "said (before_end stream) = []") (simp_all add: outbound_reply_def Let_def strip_think_shown)
qed

theorem channel_reply_is_what_the_run_said_witness:
  "outbound_reply demo_stranger (snd (snd (drive_run_stream (run_event_to_payload (\<lambda>_. JNull) (\<lambda>_. JNull) ''r'')
     td_store ss_key ''hi'' 5 td_stream 8 (\<lambda>_. None)))) =
   Some \<lparr>om_channel = im_channel demo_stranger, om_account_id = im_account_id demo_stranger, om_peer = im_peer demo_stranger,
     om_text = Some ''yes'', om_media = [], om_reply_to = Some (im_message_id demo_stranger)\<rparr>"
proof -
  let ?d = "drive_run_stream (run_event_to_payload (\<lambda>_. JNull) (\<lambda>_. JNull) ''r'') td_store ss_key ''hi'' 5 td_stream 8 (\<lambda>_. None)"
  have "fst ?d = Inr ()" by code_simp
  then have d: "?d = (Inr (), fst (snd ?d), snd (snd ?d))" by (simp add: prod_eq_iff)
  have "trim_start (join_with [LF] (visible_lines (spoken False (said (before_end td_stream))))) = ''yes''"
    "List.find is_end_event (map snd td_stream) = Some (Lifecycle End None)" by code_simp+
  then show ?thesis by (simp only: channel_reply_is_what_the_run_said [OF d] Let_def) simp
qed

end
